(* ===== verification/Mabel_Prelude.thy ===== *)
theory Mabel_Prelude
  imports Main "HOL-Library.Word"
begin

text \<open>
  The vocabulary every component shares. Bytes and machine integers are words
  of their Rust width. A Rust function that returns \<open>Result\<close> and may also
  panic (\<open>expect\<close>, \<open>unreachable!\<close>) is a function into \<open>outcome\<close>, which keeps
  the three ways of returning apart: \<open>Ok\<close>, \<open>Err\<close> with the error value, and
  \<open>Panic\<close>. The operator \<open>obind\<close> is Rust's question mark.
\<close>

type_synonym byte = "8 word"
type_synonym bytes = "byte list"
type_synonym u64 = "64 word"

named_theorems outcome_simps \<open>how the outcome combinators compute and invert\<close>

section \<open>Results, errors and panics\<close>

datatype ('e, 'a) outcome = Ok (ok_val: 'a) | Err (err_val: 'e) | Panic

primrec obind :: "('e, 'a) outcome \<Rightarrow> ('a \<Rightarrow> ('e, 'b) outcome) \<Rightarrow> ('e, 'b) outcome" where
  "obind (Ok a) f = f a"
| "obind (Err e) f = Err e"
| "obind Panic f = Panic"

primrec map_err :: "('e \<Rightarrow> 'f) \<Rightarrow> ('e, 'a) outcome \<Rightarrow> ('f, 'a) outcome" where
  "map_err g (Ok a) = Ok a"
| "map_err g (Err e) = Err (g e)"
| "map_err g Panic = Panic"

primrec expect :: "'a option \<Rightarrow> ('e, 'a) outcome" where
  "expect None = Panic"
| "expect (Some a) = Ok a"

primrec ok_or :: "'a option \<Rightarrow> 'e \<Rightarrow> ('e, 'a) outcome" where
  "ok_or None e = Err e"
| "ok_or (Some a) e = Ok a"

lemma obind_cong [fundef_cong]:
  "x = y \<Longrightarrow> (\<And>a. y = Ok a \<Longrightarrow> f a = g a) \<Longrightarrow> obind x f = obind y g"
  by (cases y) auto

lemma obind_eq_Ok [simp, outcome_simps]:
  "obind x f = Ok b \<longleftrightarrow> (\<exists>a. x = Ok a \<and> f a = Ok b)"
  by (cases x) auto

lemma obind_eq_Panic [simp, outcome_simps]:
  "obind x f = Panic \<longleftrightarrow> x = Panic \<or> (\<exists>a. x = Ok a \<and> f a = Panic)"
  by (cases x) auto

lemma obind_eq_Err [outcome_simps]:
  "obind x f = Err e \<longleftrightarrow> x = Err e \<or> (\<exists>a. x = Ok a \<and> f a = Err e)"
  by (cases x) auto

lemma obind_assoc: "obind (obind x f) g = obind x (\<lambda>a. obind (f a) g)"
  by (cases x) auto

lemma map_err_eq_Ok [simp, outcome_simps]: "map_err g x = Ok a \<longleftrightarrow> x = Ok a"
  by (cases x) auto

lemma map_err_eq_Panic [simp, outcome_simps]: "map_err g x = Panic \<longleftrightarrow> x = Panic"
  by (cases x) auto

lemma expect_eq_Ok [simp, outcome_simps]: "expect x = Ok a \<longleftrightarrow> x = Some a"
  by (cases x) auto

lemma expect_eq_Panic [simp, outcome_simps]: "expect x = Panic \<longleftrightarrow> x = None"
  by (cases x) auto

lemma expect_not_Err [simp]: "expect x \<noteq> Err e"
  by (cases x) auto

lemma ok_or_eq_Ok [simp, outcome_simps]: "ok_or x e = Ok a \<longleftrightarrow> x = Some a"
  by (cases x) auto

lemma ok_or_not_Panic [simp]: "ok_or x e \<noteq> Panic"
  by (cases x) auto

lemma if_eq_Ok [outcome_simps]:
  "(if b then Err e else x) = Ok a \<longleftrightarrow> \<not> b \<and> x = Ok a"
  by auto

section \<open>Loops over a list that stop at the first error\<close>

text \<open>\<open>for x in xs { f(x)?; }\<close>, and the same loop pushing each result on a vector.\<close>

fun for_each :: "('a \<Rightarrow> ('e, unit) outcome) \<Rightarrow> 'a list \<Rightarrow> ('e, unit) outcome" where
  "for_each f [] = Ok ()"
| "for_each f (x # xs) = obind (f x) (\<lambda>_. for_each f xs)"

fun try_map :: "('a \<Rightarrow> ('e, 'b) outcome) \<Rightarrow> 'a list \<Rightarrow> ('e, 'b list) outcome" where
  "try_map f [] = Ok []"
| "try_map f (x # xs) = obind (f x) (\<lambda>y. obind (try_map f xs) (\<lambda>ys. Ok (y # ys)))"

lemma for_each_Ok: "for_each f xs = Ok () \<longleftrightarrow> (\<forall>x\<in>set xs. f x = Ok ())"
  by (induction xs) auto

lemma for_each_not_Panic: "(\<And>x. x \<in> set xs \<Longrightarrow> f x \<noteq> Panic) \<Longrightarrow> for_each f xs \<noteq> Panic"
  by (induction xs) auto

lemma try_map_not_Panic: "(\<And>x. x \<in> set xs \<Longrightarrow> f x \<noteq> Panic) \<Longrightarrow> try_map f xs \<noteq> Panic"
  by (induction xs) auto

lemma try_map_Ok:
  "try_map f xs = Ok ys \<longleftrightarrow> list_all2 (\<lambda>x y. f x = Ok y) xs ys"
  by (induction xs arbitrary: ys) (auto simp: list_all2_Cons1)

section \<open>Lists\<close>

text \<open>
  The duplicate test the code writes as an indexed loop over suffixes:
  \<open>entries[index + 1..].contains(entry)\<close>.
\<close>

fun has_repeat :: "'a list \<Rightarrow> bool" where
  "has_repeat [] = False"
| "has_repeat (x # xs) = (x \<in> set xs \<or> has_repeat xs)"

lemma has_repeat_iff [simp]: "has_repeat xs \<longleftrightarrow> \<not> distinct xs"
  by (induction xs) auto

lemma find_Some_mem: "find P xs = Some x \<Longrightarrow> x \<in> set xs \<and> P x"
  by (auto simp: find_Some_iff)

text \<open>Splitting a list at every occurrence of a separator, as \<open>str::split\<close> does.\<close>

fun split_on :: "'a \<Rightarrow> 'a list \<Rightarrow> 'a list list" where
  "split_on c [] = [[]]"
| "split_on c (x # xs) =
     (if x = c then [] # split_on c xs
      else (case split_on c xs of [] \<Rightarrow> [[x]] | p # ps \<Rightarrow> (x # p) # ps))"

lemma split_on_not_Nil [simp]: "split_on c xs \<noteq> []"
  by (induction xs) (auto split: list.splits)

lemma split_on_part: "p \<in> set (split_on c xs) \<Longrightarrow> c \<notin> set p"
  by (induction xs arbitrary: p) (auto split: list.splits if_splits)

lemma split_on_id: "c \<notin> set xs \<Longrightarrow> split_on c xs = [xs]"
  by (induction xs) auto

lemma split_on_append: "c \<notin> set xs \<Longrightarrow> split_on c (xs @ c # ys) = xs # split_on c ys"
  by (induction xs) auto

lemma split_on_singleton: "split_on c xs = [p] \<longleftrightarrow> p = xs \<and> c \<notin> set xs"
proof (induction xs arbitrary: p)
  case (Cons x xs)
  show ?case using Cons.IH split_on_not_Nil [of c xs]
    by (cases "split_on c xs") (auto split: list.splits)
qed auto

lemma length_split_on: "length (split_on c xs) = Suc (count_list xs c)"
  by (induction xs) (auto split: list.splits)

end
