(* ===== verification/Wire_Error.thy ===== *)
theory Wire_Error
  imports Mabel_Prelude
begin

text \<open>
  The rejection classes of the validator, \<open>WireError\<close> of
  \<open>crates/mabel-core/src/validate.rs\<close>, with the stable snake-case code each
  carries. A constructor keeps the fields of its Rust variant in order: the
  message name, the field name, then the numbers found and expected.
\<close>

section \<open>Rejections\<close>

datatype wire_error =
    MessageTooLarge string nat nat
  | Truncated string
  | NonMinimalVarint string
  | VarintOverflow string
  | UnknownField string nat
  | UnknownOneofVariant string string nat
  | WrongWireType string string nat nat
  | DuplicateField string string
  | FieldOutOfOrder string nat
  | DefaultValueEncoded string string
  | FieldForbidden string string
  | MissingField string string
  | MissingOneof string string
  | MultipleOneofVariants string string
  | UnspecifiedEnum string string
  | EnumValueError string string u64
  | WrongLength string string nat nat
  | FieldTooLong string string nat nat
  | InvalidUtf8 string string
  | InvalidDisplayName string string string
  | InvalidHostname string string string
  | InvalidEmail string string string
  | ValueOutOfRange string string u64 u64 u64
  | RepeatedCount string string nat nat nat
  | RepeatedDuplicate string string
  | FieldsMustDiffer string string
  | FieldsMustMatch string string
  | SetAtSeqZero string
  | MissingChainField string
  | InceptionPastSeqZero
  | NonInceptionAtSeqZero
  | EmbeddedInceptionNotRawRooted
  | InceptionIdMismatch string
  | InceptionKeyMismatch string
  | InvalidPublicKey string string
  | BadSignature string string
  | TooDeeplyNested

fun wire_code :: "wire_error \<Rightarrow> string" where
  "wire_code (MessageTooLarge _ _ _) = ''message_too_large''"
| "wire_code (Truncated _) = ''truncated''"
| "wire_code (NonMinimalVarint _) = ''non_minimal_varint''"
| "wire_code (VarintOverflow _) = ''varint_overflow''"
| "wire_code (UnknownField _ _) = ''unknown_field''"
| "wire_code (UnknownOneofVariant _ _ _) = ''unknown_oneof_variant''"
| "wire_code (WrongWireType _ _ _ _) = ''wrong_wire_type''"
| "wire_code (DuplicateField _ _) = ''duplicate_field''"
| "wire_code (FieldOutOfOrder _ _) = ''field_out_of_order''"
| "wire_code (DefaultValueEncoded _ _) = ''default_value_encoded''"
| "wire_code (FieldForbidden _ _) = ''field_forbidden''"
| "wire_code (MissingField _ _) = ''missing_field''"
| "wire_code (MissingOneof _ _) = ''missing_oneof''"
| "wire_code (MultipleOneofVariants _ _) = ''multiple_oneof_variants''"
| "wire_code (UnspecifiedEnum _ _) = ''unspecified_enum''"
| "wire_code (EnumValueError _ _ _) = ''enum_value''"
| "wire_code (WrongLength _ _ _ _) = ''wrong_length''"
| "wire_code (FieldTooLong _ _ _ _) = ''field_too_long''"
| "wire_code (InvalidUtf8 _ _) = ''invalid_utf8''"
| "wire_code (InvalidDisplayName _ _ _) = ''invalid_display_name''"
| "wire_code (InvalidHostname _ _ _) = ''invalid_hostname''"
| "wire_code (InvalidEmail _ _ _) = ''invalid_email''"
| "wire_code (ValueOutOfRange _ _ _ _ _) = ''value_out_of_range''"
| "wire_code (RepeatedCount _ _ _ _ _) = ''repeated_count''"
| "wire_code (RepeatedDuplicate _ _) = ''repeated_duplicate''"
| "wire_code (FieldsMustDiffer _ _) = ''fields_must_differ''"
| "wire_code (FieldsMustMatch _ _) = ''fields_must_match''"
| "wire_code (SetAtSeqZero _) = ''set_at_seq_zero''"
| "wire_code (MissingChainField _) = ''missing_chain_field''"
| "wire_code InceptionPastSeqZero = ''inception_past_seq_zero''"
| "wire_code NonInceptionAtSeqZero = ''non_inception_at_seq_zero''"
| "wire_code EmbeddedInceptionNotRawRooted = ''embedded_inception_not_raw_rooted''"
| "wire_code (InceptionIdMismatch _) = ''inception_id_mismatch''"
| "wire_code (InceptionKeyMismatch _) = ''inception_key_mismatch''"
| "wire_code (InvalidPublicKey _ _) = ''invalid_public_key''"
| "wire_code (BadSignature _ _) = ''bad_signature''"
| "wire_code TooDeeplyNested = ''too_deeply_nested''"

type_synonym 'a wire_result = "(wire_error, 'a) outcome"

end
