(* ===== verification/Wire.thy ===== *)
theory Wire
  imports Wire_Error
begin

unbundle bit_operations_syntax

text \<open>
  The byte layer of the validator (\<open>crates/mabel-core/src/validate.rs\<close>): the
  base-128 varint reader, and the canonical layout of a protobuf record against which the reader
  is measured. The reader's position in its input is the suffix not yet read.

  The lemmas show that the reader accepts exactly the shortest encodings, so
  that a varint on the wire has one spelling.
\<close>

section \<open>The varint reader\<close>

fun read_varint_loop :: "string \<Rightarrow> u64 \<Rightarrow> nat \<Rightarrow> bytes \<Rightarrow> (u64 \<times> bytes) wire_result" where
  "read_varint_loop msg v shift [] = Err (Truncated msg)"
| "read_varint_loop msg v shift (b # bs) =
     (let payload = (ucast (b AND 0x7f) :: u64) in
      if shift = 63 \<and> payload > 1 then Err (VarintOverflow msg)
      else
        let v' = v OR push_bit shift payload in
        if b AND 0x80 = 0 then
          (if payload = 0 \<and> shift > 0 then Err (NonMinimalVarint msg) else Ok (v', bs))
        else if shift + 7 > 63 then Err (VarintOverflow msg)
        else read_varint_loop msg v' (shift + 7) bs)"

definition read_varint :: "string \<Rightarrow> bytes \<Rightarrow> (u64 \<times> bytes) wire_result" where
  "read_varint msg bs = read_varint_loop msg 0 0 bs"

section \<open>The canonical layout of a record\<close>

text \<open>
  The protobuf wire format: a base-128 varint in its shortest form, and a
  record as a key (field number and wire type) followed by its content. A
  value on the wire is a varint or a length-delimited byte string.
\<close>

fun varint_of :: "nat \<Rightarrow> bytes" where
  "varint_of n = (if n < 128 then [of_nat n] else of_nat (n mod 128 + 128) # varint_of (n div 128))"

declare varint_of.simps [simp del]

datatype wvalue = VVarint u64 | VBytes bytes

type_synonym records = "(nat \<times> wvalue) list"

fun enc_record :: "nat \<times> wvalue \<Rightarrow> bytes" where
  "enc_record (n, VVarint v) = varint_of (8 * n) @ varint_of (unat v)"
| "enc_record (n, VBytes bs) = varint_of (8 * n + 2) @ varint_of (length bs) @ bs"

definition enc_records :: "records \<Rightarrow> bytes" where
  "enc_records rs = concat (map enc_record rs)"

lemma enc_records_simps [simp]:
  "enc_records [] = []"
  "enc_records (r # rs) = enc_record r @ enc_records rs"
  "enc_records (rs @ rs') = enc_records rs @ enc_records rs'"
  by (simp_all add: enc_records_def)

section \<open>Words as numbers\<close>

lemma nat_or_disjoint:
  fixes a b :: nat
  assumes "a < 2 ^ s"
  shows "a OR (b * 2 ^ s) = a + b * 2 ^ s"
proof -
  have "a + push_bit s b = a OR push_bit s b"
    using assms
    by (intro disjunctive_add)
       (metis bit_push_bit_iff_nat not_le take_bit_nat_eq_self bit_take_bit_iff)
  then show ?thesis by (simp add: push_bit_eq_mult)
qed

lemma unat_or_push:
  fixes v p :: u64
  assumes "unat v < 2 ^ s" and "unat p * 2 ^ s < 2 ^ 64"
  shows "unat (v OR push_bit s p) = unat v + unat p * 2 ^ s"
proof -
  have "unat (push_bit s p) = take_bit 64 (push_bit s (unat p))"
    by (simp only: unsigned_push_bit_eq) simp
  also have "\<dots> = unat p * 2 ^ s"
    using assms(2) by (simp only: push_bit_eq_mult take_bit_nat_eq_self)
  finally show ?thesis
    using assms(1) by (simp only: unsigned_or_eq nat_or_disjoint)
qed

lemma unat_low7: "unat ((b :: byte) AND 127) = unat b mod 128"
proof -
  have "unat (b AND 127) = unat b AND mask 7"
    by (simp add: unsigned_and_eq mask_eq_exp_minus_1)
  then show ?thesis by (simp add: and_mask_less' flip: take_bit_eq_mask) (simp add: take_bit_eq_mod)
qed

lemma unat_payload: "unat (ucast ((b :: byte) AND 127) :: u64) = unat b mod 128"
  by (simp add: unat_low7 unsigned_ucast_eq take_bit_nat_eq_self)

lemma continuation_clear: "((b :: byte) AND 128 = 0) \<longleftrightarrow> unat b < 128"
proof -
  have "(b AND 128 = 0) \<longleftrightarrow> \<not> bit b 7"
    using and_exp_eq_0_iff_not_bit [of b 7] by simp
  also have "bit b 7 \<longleftrightarrow> bit (unat b) 7"
    by (simp add: bit_unsigned_iff)
  also have "\<dots> \<longleftrightarrow> \<not> unat b < 128"
  proof -
    have "unat b div 128 < 2" using unsigned_less [of b, where ?'a = nat] by simp
    then have "unat b div 128 = 0 \<or> unat b div 128 = 1" by linarith
    then show ?thesis by (auto simp: bit_iff_odd)
  qed
  finally show ?thesis by simp
qed

lemma unat_word_of_nat64: "n < 2 ^ 64 \<Longrightarrow> unat (word_of_nat n :: u64) = n"
  by (simp add: unat_of_nat)

lemma word_of_nat_unat_eq: "word_of_nat (unat w) = w"
  by simp

lemma high_group: "128 \<le> x \<Longrightarrow> x < 256 \<Longrightarrow> x mod 128 + 128 = (x :: nat)"
  by (simp add: le_mod_geq)

lemma unat_byte_less: "unat (b :: byte) < 256"
  using unsigned_less [of b, where ?'a = nat] by simp

section \<open>The reader accepts exactly the shortest encodings\<close>

lemma shift_room:
  assumes "s mod 7 = 0" and "s \<le> 63" and "p < 128" and "s = 63 \<longrightarrow> p \<le> 1"
  shows "p * 2 ^ s < (2 :: nat) ^ 64"
proof (cases "s = 63")
  case True
  with assms(4) have "p * 2 ^ s \<le> 1 * 2 ^ 63" by simp
  also have "\<dots> < (2 :: nat) ^ 64" by simp
  finally show ?thesis .
next
  case False
  with assms have "s \<le> 56" by presburger
  with assms(3) have "p * 2 ^ s \<le> 127 * (2 :: nat) ^ 56"
    using power_increasing [of s 56 "2 :: nat"] by (intro mult_le_mono) auto
  also have "\<dots> < 2 ^ 64" by simp
  finally show ?thesis .
qed

lemma group_less: "v < 2 ^ s \<Longrightarrow> p < 128 \<Longrightarrow> v + p * 2 ^ s < (2 :: nat) ^ (s + 7)"
proof -
  assume "v < 2 ^ s" and "p < 128"
  then have "v + p * 2 ^ s < 2 ^ s + 127 * (2 :: nat) ^ s"
    by (intro add_less_le_mono) (auto intro: mult_le_mono)
  then show ?thesis by (simp add: power_add)
qed

lemma word_gt_1: "(w :: u64) > 1 \<longleftrightarrow> unat w > 1"
  by (simp add: word_less_nat_alt)

lemma read_varint_loop_sound:
  assumes "read_varint_loop msg v s bs = Ok (w, rest)"
    and "s mod 7 = 0" and "s \<le> 63" and "unat v < 2 ^ s"
  shows "\<exists>n. bs = varint_of n @ rest \<and> unat w = unat v + n * 2 ^ s \<and> (0 < s \<longrightarrow> n \<noteq> 0)"
  using assms
proof (induction msg v s bs rule: read_varint_loop.induct)
  case (2 msg v s b bs)
  let ?p = "ucast (b AND 0x7f) :: u64"
  let ?v = "v OR push_bit s ?p"
  have p: "unat ?p = unat b mod 128" by (rule unat_payload)
  have s63: "s = 63 \<longrightarrow> \<not> ?p > 1"
    using "2.prems"(1) by (auto simp: Let_def)
  then have room: "unat ?p * 2 ^ s < 2 ^ 64"
    using "2.prems"(2,3) p by (intro shift_room) (auto simp: word_gt_1)
  have v': "unat ?v = unat v + unat ?p * 2 ^ s"
    by (rule unat_or_push) (use "2.prems"(4) room in auto)
  show ?case
  proof (cases "b AND 0x80 = 0")
    case True
    then have small: "unat b < 128" by (simp add: continuation_clear)
    from True "2.prems"(1) s63 have "w = ?v" "rest = bs" "\<not> (?p = 0 \<and> 0 < s)"
      by (auto simp: Let_def split: if_splits)
    moreover have "varint_of (unat b) = [b]"
      using small by (simp add: varint_of.simps)
    moreover have "?p = 0 \<longleftrightarrow> unat b = 0"
      using p small by (metis mod_less unat_eq_0)
    ultimately show ?thesis
      using v' p small by (intro exI [of _ "unat b"]) auto
  next
    case False
    then have big: "128 \<le> unat b" by (simp add: continuation_clear)
    from False "2.prems"(1) s63
    have rec: "read_varint_loop msg ?v (s + 7) bs = Ok (w, rest)" and s7: "s + 7 \<le> 63"
      by (auto simp: Let_def split: if_splits)
    have "unat ?v < 2 ^ (s + 7)"
      using "2.prems"(4) p by (simp only: v') (auto intro: group_less)
    with "2.IH" [OF refl _ refl False _ rec] s63 s7 "2.prems"(2)
    obtain n where n: "bs = varint_of n @ rest" "unat w = unat ?v + n * 2 ^ (s + 7)" "n \<noteq> 0"
      by (auto simp: mod_add_self2)
    let ?n = "unat b mod 128 + 128 * n"
    have "unat b mod 128 + 128 = unat b" using big unat_byte_less by (rule high_group)
    then have "varint_of ?n = b # varint_of n"
      using n(3) by (subst varint_of.simps) (simp del: of_nat_add)
    with n v' p show ?thesis
      by (intro exI [of _ ?n]) (auto simp: power_add algebra_simps)
  qed
qed auto

lemma read_varint_sound:
  "read_varint msg bs = Ok (w, rest) \<Longrightarrow> bs = varint_of (unat w) @ rest"
  using read_varint_loop_sound [of msg 0 0 bs w rest] by (auto simp: read_varint_def)

lemma read_varint_loop_complete:
  assumes "s mod 7 = 0" and "s \<le> 63" and "unat v < 2 ^ s" and "0 < s \<longrightarrow> n \<noteq> 0"
    and "unat v + n * 2 ^ s < 2 ^ 64"
  shows "read_varint_loop msg v s (varint_of n @ rest) = Ok (word_of_nat (unat v + n * 2 ^ s), rest)"
  using assms
proof (induction n arbitrary: v s rule: varint_of.induct)
  case (1 n)
  let ?b = "word_of_nat (if n < 128 then n else n mod 128 + 128) :: byte"
  let ?p = "ucast (?b AND 0x7f) :: u64"
  let ?v = "v OR push_bit s ?p"
  have b: "unat ?b = (if n < 128 then n else n mod 128 + 128)"
    by (simp add: unat_of_nat)
  have p: "unat ?p = n mod 128" by (simp add: unat_payload b)
  have n64: "n * 2 ^ s < 2 ^ 64" using "1.prems"(5) by simp
  have "(n mod 128) * 2 ^ s \<le> n * 2 ^ s" by simp
  with n64 have room: "unat ?p * 2 ^ s < 2 ^ 64" by (simp only: p)
  have v': "unat ?v = unat v + (n mod 128) * 2 ^ s"
    using unat_or_push [OF "1.prems"(3) room] p by simp
  have top: "s = 63 \<Longrightarrow> n \<le> 1" using n64 by simp
  show ?case
  proof (cases "n < 128")
    case True
    have "?p = 0 \<longleftrightarrow> n = 0" using p True by (metis mod_less unat_eq_0)
    moreover have "?v = word_of_nat (unat v + n * 2 ^ s)"
      using v' True by (metis mod_less word_of_nat_unat_eq)
    moreover have "s = 63 \<longrightarrow> \<not> ?p > 1" using top p True by (auto simp: word_gt_1)
    ultimately show ?thesis
      using True "1.prems"(4) b by (auto simp: varint_of.simps Let_def continuation_clear)
  next
    case False
    have "s \<noteq> 63" using top False by auto
    with "1.prems"(1,2) have s56: "s \<le> 56" by presburger
    have s7: "s + 7 \<le> 63" using s56 by simp
    have cont: "\<not> (?b AND 0x80 = 0)" using b False by (simp add: continuation_clear)
    have split: "unat ?v + (n div 128) * 2 ^ (s + 7) = unat v + n * 2 ^ s"
    proof -
      have "(n mod 128) * 2 ^ s + (n div 128) * 2 ^ (s + 7) = (n mod 128 + n div 128 * 128) * 2 ^ s"
        unfolding power_add distrib_right by simp
      then show ?thesis by (simp only: v' mod_div_mult_eq add.assoc)
    qed
    have "unat ?v < 2 ^ (s + 7)"
      using "1.prems"(3) by (simp only: v') (auto intro: group_less)
    moreover have "n div 128 \<noteq> 0" using False by simp
    ultimately have "read_varint_loop msg ?v (s + 7) (varint_of (n div 128) @ rest)
        = Ok (word_of_nat (unat v + n * 2 ^ s), rest)"
      using "1.IH" [OF False, of "s + 7" ?v] "1.prems"(1,5) s7 split by (simp add: mod_add_self2)
    with False cont \<open>s \<noteq> 63\<close> s7 show ?thesis
      by (subst varint_of.simps) (simp add: Let_def)
  qed
qed

lemma read_varint_complete:
  "n < 2 ^ 64 \<Longrightarrow> read_varint msg (varint_of n @ rest) = Ok (word_of_nat n, rest)"
  using read_varint_loop_complete [of 0 0 n msg rest] by (simp add: read_varint_def)

lemma read_varint_not_Panic [simp]: "read_varint msg bs \<noteq> Panic"
proof -
  have "read_varint_loop msg v s bs \<noteq> Panic" for v s
    by (induction msg v s bs rule: read_varint_loop.induct) (auto simp: Let_def)
  then show ?thesis by (simp add: read_varint_def)
qed

lemma varint_of_not_Nil [simp]: "varint_of n \<noteq> []"
  by (simp add: varint_of.simps)

lemma varint_of_length: "0 < length (varint_of n)"
  by simp

lemma read_varint_shorter [termination_simp]:
  "read_varint msg bs = Ok (w, rest) \<Longrightarrow> length rest < length bs"
  by (auto dest!: read_varint_sound simp: varint_of_length)

lemma varint_of_inj:
  assumes "varint_of a @ xs = varint_of b @ ys" and "a < 2 ^ 64" and "b < 2 ^ 64"
  shows "a = b \<and> xs = ys"
proof -
  have "Ok (word_of_nat a :: u64, xs) = (Ok (word_of_nat b, ys) :: (u64 \<times> bytes) wire_result)"
    using read_varint_complete [OF assms(2), of undefined xs]
      read_varint_complete [OF assms(3), of undefined ys] assms(1) by simp
  then have "(word_of_nat a :: u64) = word_of_nat b" and "xs = ys" by auto
  then show ?thesis
    using unat_word_of_nat64 [OF assms(2)] unat_word_of_nat64 [OF assms(3)] by metis
qed

end
