(* ===== verification/Proto_Messages.thy ===== *)
theory Proto_Messages
  imports Wire
begin

text \<open>
  The messages of \<open>proto/mabel/v0/ledger.proto\<close> and \<open>files.proto\<close> as the
  generated Rust types hold them (proto3: an absent scalar is its default, an
  absent message or \<open>oneof\<close> is \<open>None\<close>), and the canonical layout of each:
  fields in ascending field-number order, no field that holds its default, a
  submessage as the length-delimited encoding of its own fields, and one record
  per entry of a repeated field. A \<open>string\<close> field is held as its UTF-8 bytes.

  These layouts are what the externals (\<open>Externals.thy\<close>) promise of the
  protobuf library, and what the validator is measured against.
\<close>

section \<open>Message types\<close>

record pb_signed_event =
  se_body :: bytes
  se_signature :: bytes

record pb_raw_root =
  rr_active_key :: bytes
  rr_reserve_commit :: bytes

record pb_identity_root =
  ir_founder :: bytes
  ir_founder_key :: bytes
  ir_founder_inception :: bytes

datatype pb_root = RawRoot pb_raw_root | IdentityRoot pb_identity_root

record pb_inception =
  in_kind :: nat
  in_nonce :: bytes
  in_root :: "pb_root option"

record pb_invitation =
  mi_invitee :: bytes
  mi_invitee_key :: bytes
  mi_role :: nat
  mi_invitee_inception :: bytes

record pb_membership_acceptance =
  ma_acceptance :: bytes
  ma_signature :: bytes

record pb_profile_update =
  pu_display_name :: bytes
  pu_hostname :: bytes
  pu_email :: bytes

datatype pb_payload =
    PInception pb_inception
  | PWitnessConfig "bytes list"
  | PTrustAttestation bytes
  | PTrustRevocation bytes
  | PMembershipInvitation pb_invitation
  | PMembershipAcceptance pb_membership_acceptance
  | PMembershipRemoval bytes
  | PProfileUpdate pb_profile_update
  | PEndpointAdvertisement "bytes list"
  | PWitnessSet "bytes list"

record pb_event_body =
  eb_version :: nat
  eb_ledger :: bytes
  eb_seq :: u64
  eb_prev :: bytes
  eb_timestamp_ms :: u64
  eb_author_key :: bytes
  eb_payload :: "pb_payload option"

record pb_acceptance =
  ac_version :: nat
  ac_ledger :: bytes
  ac_invitation_event :: bytes
  ac_invitee :: bytes
  ac_invitee_key :: bytes

record pb_identity_descriptor =
  id_inception :: "pb_signed_event option"
  id_witnesses :: "bytes list"

section \<open>Canonical layouts\<close>

definition f_bytes :: "nat \<Rightarrow> bytes \<Rightarrow> records" where
  "f_bytes n bs = (if bs = [] then [] else [(n, VBytes bs)])"

definition f_varint :: "nat \<Rightarrow> u64 \<Rightarrow> records" where
  "f_varint n v = (if v = 0 then [] else [(n, VVarint v)])"

definition f_repeated :: "nat \<Rightarrow> bytes list \<Rightarrow> records" where
  "f_repeated n bss = map (\<lambda>bs. (n, VBytes bs)) bss"

definition f_message :: "nat \<Rightarrow> records \<Rightarrow> records" where
  "f_message n rs = [(n, VBytes (enc_records rs))]"

definition signed_event_records :: "pb_signed_event \<Rightarrow> records" where
  "signed_event_records m = f_bytes 1 (se_body m) @ f_bytes 2 (se_signature m)"

definition raw_root_records :: "pb_raw_root \<Rightarrow> records" where
  "raw_root_records m = f_bytes 1 (rr_active_key m) @ f_bytes 2 (rr_reserve_commit m)"

definition identity_root_records :: "pb_identity_root \<Rightarrow> records" where
  "identity_root_records m =
     f_bytes 1 (ir_founder m) @ f_bytes 2 (ir_founder_key m) @ f_bytes 3 (ir_founder_inception m)"

fun root_records :: "pb_root option \<Rightarrow> records" where
  "root_records None = []"
| "root_records (Some (RawRoot r)) = f_message 10 (raw_root_records r)"
| "root_records (Some (IdentityRoot r)) = f_message 11 (identity_root_records r)"

definition inception_records :: "pb_inception \<Rightarrow> records" where
  "inception_records m =
     f_varint 1 (of_nat (in_kind m)) @ f_bytes 2 (in_nonce m) @ root_records (in_root m)"

definition invitation_records :: "pb_invitation \<Rightarrow> records" where
  "invitation_records m =
     f_bytes 1 (mi_invitee m) @ f_bytes 2 (mi_invitee_key m)
     @ f_varint 3 (of_nat (mi_role m)) @ f_bytes 4 (mi_invitee_inception m)"

definition membership_acceptance_records :: "pb_membership_acceptance \<Rightarrow> records" where
  "membership_acceptance_records m = f_bytes 1 (ma_acceptance m) @ f_bytes 2 (ma_signature m)"

definition profile_update_records :: "pb_profile_update \<Rightarrow> records" where
  "profile_update_records m =
     f_bytes 1 (pu_display_name m) @ f_bytes 2 (pu_hostname m) @ f_bytes 3 (pu_email m)"

fun payload_records :: "pb_payload option \<Rightarrow> records" where
  "payload_records None = []"
| "payload_records (Some (PInception m)) = f_message 10 (inception_records m)"
| "payload_records (Some (PWitnessConfig ws)) = f_message 11 (f_repeated 1 ws)"
| "payload_records (Some (PTrustAttestation s)) = f_message 12 (f_bytes 1 s)"
| "payload_records (Some (PTrustRevocation t)) = f_message 13 (f_bytes 1 t)"
| "payload_records (Some (PMembershipInvitation m)) = f_message 14 (invitation_records m)"
| "payload_records (Some (PMembershipAcceptance m)) =
     f_message 15 (membership_acceptance_records m)"
| "payload_records (Some (PMembershipRemoval t)) = f_message 16 (f_bytes 1 t)"
| "payload_records (Some (PProfileUpdate m)) = f_message 17 (profile_update_records m)"
| "payload_records (Some (PEndpointAdvertisement es)) = f_message 18 (f_repeated 1 es)"
| "payload_records (Some (PWitnessSet ws)) = f_message 19 (f_repeated 1 ws)"

definition event_body_records :: "pb_event_body \<Rightarrow> records" where
  "event_body_records m =
     f_varint 1 (of_nat (eb_version m)) @ f_bytes 2 (eb_ledger m) @ f_varint 3 (eb_seq m)
     @ f_bytes 4 (eb_prev m) @ f_varint 5 (eb_timestamp_ms m) @ f_bytes 6 (eb_author_key m)
     @ payload_records (eb_payload m)"

definition acceptance_records :: "pb_acceptance \<Rightarrow> records" where
  "acceptance_records m =
     f_varint 1 (of_nat (ac_version m)) @ f_bytes 2 (ac_ledger m)
     @ f_bytes 3 (ac_invitation_event m) @ f_bytes 4 (ac_invitee m) @ f_bytes 5 (ac_invitee_key m)"

definition invitation_bundle_records :: "pb_signed_event list \<Rightarrow> records" where
  "invitation_bundle_records es = f_repeated 1 (map (\<lambda>e. enc_records (signed_event_records e)) es)"

definition identity_descriptor_records :: "pb_identity_descriptor \<Rightarrow> records" where
  "identity_descriptor_records m =
     (case id_inception m of None \<Rightarrow> [] | Some e \<Rightarrow> f_message 1 (signed_event_records e))
     @ f_repeated 2 (id_witnesses m)"

lemmas layout_defs = f_bytes_def f_varint_def f_repeated_def f_message_def
  signed_event_records_def raw_root_records_def identity_root_records_def inception_records_def
  invitation_records_def membership_acceptance_records_def profile_update_records_def
  event_body_records_def acceptance_records_def invitation_bundle_records_def
  identity_descriptor_records_def

section \<open>Which messages the wire can carry\<close>

text \<open>
  A message is encodable when its enum numbers fit the 32-bit field they come
  from, its strings are UTF-8 (the predicate is a parameter here) and its bytes
  are shorter than a 64-bit length can say.
\<close>

definition small_enum :: "nat \<Rightarrow> bool" where
  "small_enum n \<longleftrightarrow> n < 2 ^ 31"

fun payload_wf :: "(bytes \<Rightarrow> bool) \<Rightarrow> pb_payload option \<Rightarrow> bool" where
  "payload_wf utf8 (Some (PInception m)) = small_enum (in_kind m)"
| "payload_wf utf8 (Some (PMembershipInvitation m)) = small_enum (mi_role m)"
| "payload_wf utf8 (Some (PProfileUpdate m)) =
     (utf8 (pu_display_name m) \<and> utf8 (pu_hostname m) \<and> utf8 (pu_email m))"
| "payload_wf utf8 _ = True"

definition encodable :: "records \<Rightarrow> bool" where
  "encodable rs \<longleftrightarrow> length (enc_records rs) < 2 ^ 64"

end
