(* ===== verification/Text_Codec.thy ===== *)
theory Text_Codec
  imports Mabel_Prelude
begin

text \<open>
  The parts of Rust's \<open>str\<close> the published-string rules read. A \<open>str\<close> is its
  bytes; \<open>chars\<close> are the code points UTF-8 decoding yields (no overlong form, no
  surrogate, nothing past U+10FFFF), as the Rust standard library does it.
\<close>

definition is_cont :: "byte \<Rightarrow> bool" where
  "is_cont b \<longleftrightarrow> 128 \<le> unat b \<and> unat b < 192"

fun utf8_decode :: "bytes \<Rightarrow> nat list option" where
  "utf8_decode [] = Some []"
| "utf8_decode (b # bs) =
     (let n = unat b in
      if n < 128 then map_option ((#) n) (utf8_decode bs)
      else if 194 \<le> n \<and> n < 224 then
        (case bs of
           c # r \<Rightarrow>
             if is_cont c then map_option ((#) ((n - 192) * 64 + (unat c - 128))) (utf8_decode r)
             else None
         | [] \<Rightarrow> None)
      else if 224 \<le> n \<and> n < 240 then
        (case bs of
           c # d # r \<Rightarrow>
             (let cp = (n - 224) * 4096 + (unat c - 128) * 64 + (unat d - 128) in
              if is_cont c \<and> is_cont d \<and> 2048 \<le> cp \<and> \<not> (55296 \<le> cp \<and> cp < 57344)
              then map_option ((#) cp) (utf8_decode r) else None)
         | _ \<Rightarrow> None)
      else if 240 \<le> n \<and> n < 245 then
        (case bs of
           c # d # e # r \<Rightarrow>
             (let cp = (n - 240) * 262144 + (unat c - 128) * 4096 + (unat d - 128) * 64
                       + (unat e - 128) in
              if is_cont c \<and> is_cont d \<and> is_cont e \<and> 65536 \<le> cp \<and> cp < 1114112
              then map_option ((#) cp) (utf8_decode r) else None)
         | _ \<Rightarrow> None)
      else None)"

declare utf8_decode.simps(2) [simp del]

definition is_utf8 :: "bytes \<Rightarrow> bool" where
  "is_utf8 bs \<longleftrightarrow> utf8_decode bs \<noteq> None"

definition chars :: "bytes \<Rightarrow> nat list" where
  "chars s = (case utf8_decode s of None \<Rightarrow> [] | Some cs \<Rightarrow> cs)"

text \<open>\<open>char::is_whitespace\<close>: the Unicode \<open>White_Space\<close> property.\<close>

definition is_whitespace :: "nat \<Rightarrow> bool" where
  "is_whitespace c \<longleftrightarrow>
     9 \<le> c \<and> c \<le> 13 \<or> c = 32 \<or> c = 133 \<or> c = 160 \<or> c = 5760 \<or> 8192 \<le> c \<and> c \<le> 8202
     \<or> c = 8232 \<or> c = 8233 \<or> c = 8239 \<or> c = 8287 \<or> c = 12288"

definition trim :: "nat list \<Rightarrow> nat list" where
  "trim cs = rev (dropWhile is_whitespace (rev (dropWhile is_whitespace cs)))"

text \<open>ASCII classes and case mapping, on bytes.\<close>

definition is_ascii :: "bytes \<Rightarrow> bool" where
  "is_ascii s \<longleftrightarrow> list_all (\<lambda>b. unat b < 128) s"

definition is_upper :: "byte \<Rightarrow> bool" where
  "is_upper b \<longleftrightarrow> 65 \<le> unat b \<and> unat b \<le> 90"

definition is_lower :: "byte \<Rightarrow> bool" where
  "is_lower b \<longleftrightarrow> 97 \<le> unat b \<and> unat b \<le> 122"

definition is_digit :: "byte \<Rightarrow> bool" where
  "is_digit b \<longleftrightarrow> 48 \<le> unat b \<and> unat b \<le> 57"

definition is_alphanumeric :: "byte \<Rightarrow> bool" where
  "is_alphanumeric b \<longleftrightarrow> is_upper b \<or> is_lower b \<or> is_digit b"

definition to_upper :: "byte \<Rightarrow> byte" where
  "to_upper b = (if is_lower b then b - 32 else b)"

definition to_lower :: "byte \<Rightarrow> byte" where
  "to_lower b = (if is_upper b then b + 32 else b)"

definition eq_ignore_case :: "bytes \<Rightarrow> bytes \<Rightarrow> bool" where
  "eq_ignore_case s t \<longleftrightarrow> map to_lower s = map to_lower t"

text \<open>A string literal of the source, as bytes.\<close>

definition lit :: "string \<Rightarrow> bytes" where
  "lit s = map (\<lambda>c. of_nat (of_char c)) s"

section \<open>Facts\<close>

lemma is_utf8_chars: "is_utf8 s \<Longrightarrow> utf8_decode s = Some (chars s)"
  by (auto simp: is_utf8_def chars_def)

lemma trim_fixed: "trim cs = cs \<longleftrightarrow> cs = [] \<or> \<not> is_whitespace (hd cs) \<and> \<not> is_whitespace (last cs)"
proof (cases cs)
  case (Cons c r)
  have len: "length (dropWhile P xs) \<le> length xs" for P and xs :: "nat list"
    by (rule length_dropWhile_le)
  show ?thesis
  proof
    assume "trim cs = cs"
    then have eq: "rev (dropWhile is_whitespace (rev (dropWhile is_whitespace cs))) = cs"
      by (simp add: trim_def)
    have "length (dropWhile is_whitespace (rev (dropWhile is_whitespace cs)))
        \<le> length (dropWhile is_whitespace cs)"
      using len [of is_whitespace "rev (dropWhile is_whitespace cs)"] by simp
    with eq len [of is_whitespace cs] have full: "length (dropWhile is_whitespace cs) = length cs"
      by (metis le_antisym length_rev)
    then have hd: "\<not> is_whitespace c" using Cons len [of is_whitespace r]
      by (auto split: if_splits)
    with eq Cons have "dropWhile is_whitespace (rev cs) = rev cs" by (simp add: rev_swap)
    then have "\<not> is_whitespace (last cs)"
      using Cons by (metis dropWhile_eq_self_iff hd_rev list.discI rev_is_Nil_conv)
    with hd Cons show "cs = [] \<or> \<not> is_whitespace (hd cs) \<and> \<not> is_whitespace (last cs)" by simp
  next
    assume "cs = [] \<or> \<not> is_whitespace (hd cs) \<and> \<not> is_whitespace (last cs)"
    with Cons have "dropWhile is_whitespace cs = cs" "dropWhile is_whitespace (rev cs) = rev cs"
      by (auto simp: dropWhile_eq_self_iff hd_rev simp del: rev.simps)
    then show "trim cs = cs" by (simp add: trim_def)
  qed
qed (simp add: trim_def)

end
