(* ===== verification/Externals.thy ===== *)
theory Externals
  imports Proto_Messages Text_Codec
begin

text \<open>
  Code the crates call and do not contain: BLAKE3, ed25519 (\<open>iroh_base\<close> keys
  and signatures), the unpadded base32 codec (\<open>data_encoding::BASE32_NOPAD\<close>) and
  the protobuf library (\<open>prost\<close> with the types generated from
  \<open>proto/mabel/v0\<close>). They are the fields of one record, an argument of every
  definition that calls them. What the code relies on is stated as named laws:
  a locale per codec, and one predicate for the cryptography. No law says that
  hashes never collide or that signatures cannot be forged; theorems that depend
  on either name the collision.

  A \<open>PublicKey\<close> is represented by the 32 bytes \<open>as_bytes\<close> returns.
\<close>

record env =
  blake3 :: "bytes \<Rightarrow> bytes"
  key_is_point :: "bytes \<Rightarrow> bool"
  ed_verify :: "bytes \<Rightarrow> bytes \<Rightarrow> bytes \<Rightarrow> bool"
  ed_public :: "bytes \<Rightarrow> bytes"
  ed_sign :: "bytes \<Rightarrow> bytes \<Rightarrow> bytes"
  base32_encode :: "bytes \<Rightarrow> bytes"
  base32_decode :: "bytes \<Rightarrow> bytes option"
  encode_signed_event :: "pb_signed_event \<Rightarrow> bytes"
  encode_event_body :: "pb_event_body \<Rightarrow> bytes"
  encode_acceptance :: "pb_acceptance \<Rightarrow> bytes"
  encode_profile_update :: "pb_profile_update \<Rightarrow> bytes"
  encode_invitation_bundle :: "pb_signed_event list \<Rightarrow> bytes"
  encode_acceptance_file :: "pb_membership_acceptance \<Rightarrow> bytes"
  encode_identity_descriptor :: "pb_identity_descriptor \<Rightarrow> bytes"
  decode_signed_event :: "bytes \<Rightarrow> pb_signed_event option"
  decode_event_body :: "bytes \<Rightarrow> pb_event_body option"
  decode_acceptance :: "bytes \<Rightarrow> pb_acceptance option"

section \<open>Cryptography\<close>

text \<open>
  Sizes, that a public key is a curve point, and that a signature verifies
  under the public half of the key that made it.
\<close>

definition crypto_ok :: "env \<Rightarrow> bool" where
  "crypto_ok E \<longleftrightarrow>
     (\<forall>bs. length (blake3 E bs) = 32)
     \<and> (\<forall>sk. length (ed_public E sk) = 32 \<and> key_is_point E (ed_public E sk))
     \<and> (\<forall>sk msg. length (ed_sign E sk msg) = 64
          \<and> ed_verify E (ed_public E sk) msg (ed_sign E sk msg))"

lemma crypto_okD:
  assumes "crypto_ok E"
  shows "length (blake3 E bs) = 32" and "length (ed_public E sk) = 32"
    and "key_is_point E (ed_public E sk)" and "length (ed_sign E sk msg) = 64"
    and "ed_verify E (ed_public E sk) msg (ed_sign E sk msg)"
  using assms by (auto simp: crypto_ok_def)

section \<open>The base32 codec\<close>

text \<open>
  RFC 4648 base32 without padding: decoding inverts encoding, and it is strict,
  so that a text decodes only when it is the encoding of what it decodes to. The
  text of 32 bytes is 52 characters, drawn from the letters A to Z and 2 to 7.
\<close>

definition base32_char :: "byte \<Rightarrow> bool" where
  "base32_char b \<longleftrightarrow> is_upper b \<or> 50 \<le> unat b \<and> unat b \<le> 55"

locale base32_codec =
  fixes E :: env
  assumes base32_decode_encode: "base32_decode E (base32_encode E bs) = Some bs"
    and base32_encode_decode: "base32_decode E s = Some bs \<Longrightarrow> base32_encode E bs = s"
    and base32_length: "length bs = 32 \<Longrightarrow> length (base32_encode E bs) = 52"
    and base32_alphabet: "list_all base32_char (base32_encode E bs)"
begin

lemma base32_encode_inj: "base32_encode E a = base32_encode E b \<Longrightarrow> a = b"
  by (metis base32_decode_encode option.inject)

lemma base32_decode_Some: "base32_decode E s = Some bs \<longleftrightarrow> s = base32_encode E bs"
  using base32_decode_encode base32_encode_decode by auto

end

section \<open>The protobuf library\<close>

text \<open>
  Encoding emits the canonical layout (\<open>encoding.rs\<close>: the canonical form is
  what \<open>prost\<close> emits), and decoding inverts it on every message the wire can
  carry. Nothing is assumed of bytes in any other form.
\<close>

locale prost_codec =
  fixes E :: env
  assumes encode_signed_event: "encode_signed_event E m = enc_records (signed_event_records m)"
    and encode_event_body: "encode_event_body E b = enc_records (event_body_records b)"
    and encode_acceptance: "encode_acceptance E a = enc_records (acceptance_records a)"
    and encode_profile_update: "encode_profile_update E p = enc_records (profile_update_records p)"
    and encode_invitation_bundle:
      "encode_invitation_bundle E es = enc_records (invitation_bundle_records es)"
    and encode_acceptance_file:
      "encode_acceptance_file E f = enc_records (membership_acceptance_records f)"
    and encode_identity_descriptor:
      "encode_identity_descriptor E d = enc_records (identity_descriptor_records d)"
    and decode_signed_event:
      "encodable (signed_event_records m) \<Longrightarrow>
       decode_signed_event E (enc_records (signed_event_records m)) = Some m"
    and decode_event_body:
      "encodable (event_body_records b) \<Longrightarrow> eb_version b < 2 ^ 32 \<Longrightarrow>
       payload_wf is_utf8 (eb_payload b) \<Longrightarrow>
       decode_event_body E (enc_records (event_body_records b)) = Some b"
    and decode_acceptance:
      "encodable (acceptance_records a) \<Longrightarrow> ac_version a < 2 ^ 32 \<Longrightarrow>
       decode_acceptance E (enc_records (acceptance_records a)) = Some a"

end
