(* ===== verification/Ids_Digests.thy ===== *)
theory Ids_Digests
  imports Externals
begin

text \<open>
  Identifiers and digests: \<open>crates/mabel-core/src/id.rs\<close> and \<open>digest.rs\<close>, with
  the size constants of \<open>lib.rs\<close>. An id is its 32 bytes; \<open>EventId\<close> and
  \<open>IdentityId\<close> are the same representation under two names, as \<open>define_id!\<close>
  makes them. The lemmas give the round trip of the text form and the separation
  of the signing and hashing domains.
\<close>

type_synonym event_id = bytes
type_synonym identity_id = bytes
type_synonym ledger_id = identity_id
type_synonym public_key = bytes

section \<open>Sizes\<close>

definition ID_BYTES :: nat where "ID_BYTES = 32"
definition SIG_BYTES :: nat where "SIG_BYTES = 64"
definition NONCE_BYTES :: nat where "NONCE_BYTES = 16"
definition ID_STR_LEN :: nat where "ID_STR_LEN = 52"
definition MAX_TIMESTAMP_MS :: u64 where "MAX_TIMESTAMP_MS = 4102444800000"
definition MAX_EVENT_BYTES :: nat where "MAX_EVENT_BYTES = 4096"
definition MAX_EMBEDDED_INCEPTION_BYTES :: nat where "MAX_EMBEDDED_INCEPTION_BYTES = 1024"
definition MAX_ACCEPTANCE_BYTES :: nat where "MAX_ACCEPTANCE_BYTES = 1024"
definition MAX_INVITATION_BUNDLE_BYTES :: nat where "MAX_INVITATION_BUNDLE_BYTES = 1024 * 1024"
definition MAX_ACCEPTANCE_FILE_BYTES :: nat where "MAX_ACCEPTANCE_FILE_BYTES = 4096"
definition MAX_IDENTITY_DESCRIPTOR_BYTES :: nat where
  "MAX_IDENTITY_DESCRIPTOR_BYTES = 64 * 1024"
definition MAX_BUNDLE_EVENTS :: nat where "MAX_BUNDLE_EVENTS = 4096"
definition MAX_DISPLAY_NAME_BYTES :: nat where "MAX_DISPLAY_NAME_BYTES = 64"
definition MAX_HOSTNAME_BYTES :: nat where "MAX_HOSTNAME_BYTES = 246"
definition MAX_HOSTNAME_LABEL_BYTES :: nat where "MAX_HOSTNAME_LABEL_BYTES = 63"
definition MAX_EMAIL_BYTES :: nat where "MAX_EMAIL_BYTES = 254"
definition MAX_WITNESSES :: nat where "MAX_WITNESSES = 16"
definition MAX_ENDPOINTS :: nat where "MAX_ENDPOINTS = 8"

lemmas size_defs = ID_BYTES_def SIG_BYTES_def NONCE_BYTES_def ID_STR_LEN_def MAX_TIMESTAMP_MS_def
  MAX_EVENT_BYTES_def MAX_EMBEDDED_INCEPTION_BYTES_def MAX_ACCEPTANCE_BYTES_def
  MAX_INVITATION_BUNDLE_BYTES_def MAX_ACCEPTANCE_FILE_BYTES_def MAX_IDENTITY_DESCRIPTOR_BYTES_def
  MAX_BUNDLE_EVENTS_def MAX_DISPLAY_NAME_BYTES_def MAX_HOSTNAME_BYTES_def
  MAX_HOSTNAME_LABEL_BYTES_def MAX_EMAIL_BYTES_def MAX_WITNESSES_def MAX_ENDPOINTS_def

section \<open>Ids\<close>

datatype parse_id_error = TextLength nat | Alphabet | ByteLength nat

definition id_from_slice :: "bytes \<Rightarrow> (parse_id_error, identity_id) outcome" where
  "id_from_slice bs = (if length bs = ID_BYTES then Ok bs else Err (ByteLength (length bs)))"

definition id_display :: "env \<Rightarrow> identity_id \<Rightarrow> bytes" where
  "id_display E i = map to_lower (base32_encode E i)"

definition id_from_str :: "env \<Rightarrow> bytes \<Rightarrow> (parse_id_error, identity_id) outcome" where
  "id_from_str E s =
     (if length s \<noteq> ID_STR_LEN then Err (TextLength (length s))
      else obind (ok_or (base32_decode E (map to_upper s)) Alphabet) id_from_slice)"

section \<open>Digests\<close>

definition EVENT_ID_DOMAIN :: bytes where "EVENT_ID_DOMAIN = lit ''mabel/event/v0'' @ [10]"
definition SIGN_DOMAIN :: bytes where "SIGN_DOMAIN = lit ''mabel/sig/v0'' @ [10]"
definition ACCEPT_DOMAIN :: bytes where "ACCEPT_DOMAIN = lit ''mabel/accept/v0'' @ [10]"
definition RESERVE_DOMAIN :: bytes where "RESERVE_DOMAIN = lit ''mabel/reserve/v0'' @ [10]"

definition domain_hash :: "env \<Rightarrow> bytes \<Rightarrow> bytes \<Rightarrow> bytes" where
  "domain_hash E domain bs = blake3 E (domain @ bs)"

definition prefixed :: "bytes \<Rightarrow> bytes \<Rightarrow> bytes" where
  "prefixed domain bs = domain @ bs"

definition event_id :: "env \<Rightarrow> bytes \<Rightarrow> event_id" where
  "event_id E body = domain_hash E EVENT_ID_DOMAIN body"

definition sign_input :: "bytes \<Rightarrow> bytes" where
  "sign_input body = prefixed SIGN_DOMAIN body"

definition accept_input :: "bytes \<Rightarrow> bytes" where
  "accept_input acceptance = prefixed ACCEPT_DOMAIN acceptance"

definition reserve_commit :: "env \<Rightarrow> public_key \<Rightarrow> bytes" where
  "reserve_commit E reserve_key = domain_hash E RESERVE_DOMAIN reserve_key"

section \<open>Facts about ids\<close>

lemma id_from_slice_Ok [simp]: "id_from_slice bs = Ok i \<longleftrightarrow> i = bs \<and> length bs = 32"
  by (auto simp: id_from_slice_def size_defs)

lemma id_from_slice_not_Panic [simp]: "id_from_slice bs \<noteq> Panic"
  by (simp add: id_from_slice_def)

lemma id_from_str_not_Panic [simp]: "id_from_str E s \<noteq> Panic"
  by (simp add: id_from_str_def)

lemma unat_plus32: "unat b \<le> 200 \<Longrightarrow> unat ((b :: byte) + 32) = unat b + 32"
  by (simp add: unat_word_ariths)

lemma to_lower_idem: "to_lower (to_lower b) = to_lower b"
  by (auto simp: to_lower_def is_upper_def unat_plus32)

lemma unat_minus32: "32 \<le> unat b \<Longrightarrow> unat ((b :: byte) - 32) = unat b - 32"
  by (subst unat_sub) (auto simp: word_le_nat_alt)

lemma to_upper_lower: "is_upper b \<Longrightarrow> to_upper (to_lower b) = b"
  by (auto simp: to_upper_def to_lower_def is_upper_def is_lower_def unat_plus32)

lemma base32_char_upper_lower: "base32_char b \<Longrightarrow> to_upper (to_lower b) = b"
  by (auto simp: base32_char_def to_upper_lower)
     (auto simp: to_upper_def to_lower_def is_upper_def is_lower_def)

lemma map_upper_lower: "list_all base32_char s \<Longrightarrow> map to_upper (map to_lower s) = s"
  by (induction s) (auto simp: base32_char_upper_lower)

lemma to_lower_upper: "to_lower (to_upper b) = to_lower b"
  by (auto simp: to_upper_def to_lower_def is_upper_def is_lower_def unat_minus32)

lemma to_upper_idem: "to_upper (to_upper b) = to_upper b"
  by (auto simp: to_upper_def is_lower_def unat_minus32)

context base32_codec
begin

lemma id_round_trip: "length i = 32 \<Longrightarrow> id_from_str E (id_display E i) = Ok i"
  by (simp add: id_from_str_def id_display_def base32_length size_defs map_upper_lower
      base32_alphabet base32_decode_encode del: map_map)

lemma id_from_str_display:
  assumes "id_from_str E s = Ok i"
  shows "map to_lower s = id_display E i \<and> length i = 32"
proof -
  from assms have "map to_upper s = base32_encode E i" and "length i = 32"
    by (auto simp: id_from_str_def base32_decode_Some split: if_splits)
  then have "id_display E i = map to_lower (map to_upper s)" by (simp add: id_display_def)
  then show ?thesis using \<open>length i = 32\<close> by (simp add: to_lower_upper)
qed

lemma id_from_str_ignores_case:
  "map to_upper s = map to_upper t \<Longrightarrow> id_from_str E s = id_from_str E t"
  by (metis id_from_str_def length_map)

end

section \<open>Facts about digests\<close>

lemma lit_simps [simp]: "lit [] = []" "lit (c # s) = of_nat (of_char c) # lit s"
  by (simp_all add: lit_def)

lemma sign_accept_disjoint: "sign_input a \<noteq> accept_input b"
  by (simp add: sign_input_def accept_input_def prefixed_def SIGN_DOMAIN_def ACCEPT_DOMAIN_def)

lemma sign_input_inj: "sign_input a = sign_input b \<Longrightarrow> a = b"
  by (simp add: sign_input_def prefixed_def)

lemma event_reserve_disjoint: "EVENT_ID_DOMAIN @ a \<noteq> RESERVE_DOMAIN @ b"
  by (simp add: EVENT_ID_DOMAIN_def RESERVE_DOMAIN_def)

lemma length_event_id: "crypto_ok E \<Longrightarrow> length (event_id E body) = 32"
  by (simp add: event_id_def domain_hash_def crypto_okD)

end
