(* ===== verification/Text_Rules.thy ===== *)
theory Text_Rules
  imports Ids_Digests
begin

text \<open>
  The rules for published strings: \<open>check_codepoints\<close>, \<open>check_display_name\<close>,
  \<open>check_hostname\<close> and \<open>check_email\<close> of \<open>crates/mabel-core/src/validate.rs\<close>.
  Each returns the clause naming the rule the text broke. Every rule is shown
  equivalent to a declarative description: a hostname is a dotted sequence of
  lowercase LDH labels, an email is two non-empty sides of one at sign, and a
  display name is trimmed, free of control and invisible characters and never
  readable as an identity id.
\<close>

section \<open>The code\<close>

type_synonym 'a text_result = "(string, 'a) outcome"

fun check_codepoints_loop :: "nat list \<Rightarrow> unit text_result" where
  "check_codepoints_loop [] = Ok ()"
| "check_codepoints_loop (c # cs) =
     (if c \<le> 0x1f \<or> c = 0x7f then Err ''it holds a C0 control character''
      else if 0x80 \<le> c \<and> c \<le> 0x9f then Err ''it holds a C1 control character''
      else if 0x202a \<le> c \<and> c \<le> 0x202e \<or> 0x2066 \<le> c \<and> c \<le> 0x2069 then
        Err ''it holds a bidi control character''
      else if 0x200b \<le> c \<and> c \<le> 0x200f \<or> 0x2060 \<le> c \<and> c \<le> 0x2064 \<or> c = 0xfeff then
        Err ''it holds a zero-width or invisible format character''
      else check_codepoints_loop cs)"

definition check_codepoints :: "bytes \<Rightarrow> unit text_result" where
  "check_codepoints text = check_codepoints_loop (chars text)"

definition check_display_name :: "env \<Rightarrow> bytes \<Rightarrow> unit text_result" where
  "check_display_name E text =
     obind (check_codepoints text) (\<lambda>_.
       if trim (chars text) \<noteq> chars text then Err ''it has leading or trailing whitespace''
       else case id_from_str E text of
         Ok _ \<Rightarrow> Err ''it parses as an identity id''
       | _ \<Rightarrow> Ok ())"

definition dot :: byte where "dot = 46"
definition hyphen :: byte where "hyphen = 45"
definition at_sign :: byte where "at_sign = 64"

definition check_label :: "bytes \<Rightarrow> unit text_result" where
  "check_label label =
     (if label = [] then Err ''it holds an empty label''
      else if length label > MAX_HOSTNAME_LABEL_BYTES then Err ''it holds a label over 63 bytes''
      else if \<not> is_alphanumeric (hd label) \<or> \<not> is_alphanumeric (last label) then
        Err ''a label does not start and end with a letter or digit''
      else if \<not> list_all (\<lambda>b. is_alphanumeric b \<or> b = hyphen) label then
        Err ''a label holds a character outside [a-z0-9-]''
      else Ok ())"

definition check_hostname :: "bytes \<Rightarrow> unit text_result" where
  "check_hostname text =
     (if \<not> is_ascii text then Err ''it holds a character outside ASCII''
      else if list_ex is_upper text then Err ''it holds an uppercase letter''
      else if text \<noteq> [] \<and> last text = dot then Err ''it ends with a dot''
      else if dot \<notin> set text then Err ''it holds no dot''
      else for_each check_label (split_on dot text))"

definition check_email :: "bytes \<Rightarrow> unit text_result" where
  "check_email text =
     obind (check_codepoints text) (\<lambda>_.
       case split_on at_sign text of
         local # domain # rest \<Rightarrow>
           if rest \<noteq> [] then Err ''it holds more than one at sign''
           else if local = [] then Err ''it holds nothing before the at sign''
           else if domain = [] then Err ''it holds nothing after the at sign''
           else Ok ()
       | _ \<Rightarrow> Err ''it holds no at sign'')"

section \<open>What the rules mean\<close>

definition plain_codepoint :: "nat \<Rightarrow> bool" where
  "plain_codepoint c \<longleftrightarrow>
     c \<notin> {0..0x1f} \<union> {0x7f..0x9f} \<union> {0x202a..0x202e} \<union> {0x2066..0x2069}
       \<union> {0x200b..0x200f} \<union> {0x2060..0x2064} \<union> {0xfeff}"

definition ldh_label :: "bytes \<Rightarrow> bool" where
  "ldh_label l \<longleftrightarrow>
     l \<noteq> [] \<and> length l \<le> 63
     \<and> list_all (\<lambda>b. is_lower b \<or> is_digit b \<or> b = hyphen) l \<and> hd l \<noteq> hyphen \<and> last l \<noteq> hyphen"

fun join :: "'a \<Rightarrow> 'a list list \<Rightarrow> 'a list" where
  "join c [] = []"
| "join c [p] = p"
| "join c (p # q # ps) = p @ c # join c (q # ps)"

section \<open>Facts\<close>

lemma join_split_on: "join c (split_on c xs) = xs"
proof (induction xs)
  case (Cons x xs)
  then show ?case
    using split_on_not_Nil [of c xs]
    by (cases "split_on c xs"; cases "tl (split_on c xs)") auto
qed simp

lemma split_on_join: "ps \<noteq> [] \<Longrightarrow> \<forall>p\<in>set ps. c \<notin> set p \<Longrightarrow> split_on c (join c ps) = ps"
  by (induction c ps rule: join.induct) (auto simp: split_on_id split_on_append)

lemma split_on_snoc: "split_on c (xs @ [c]) = split_on c xs @ [[]]"
  by (induction xs) (auto split: list.splits)

lemma set_join: "set (join c ps) \<subseteq> insert c (\<Union> (set ` set ps))"
  by (induction c ps rule: join.induct) auto

lemma check_codepoints_loop_Ok:
  "check_codepoints_loop cs = Ok () \<longleftrightarrow> list_all plain_codepoint cs"
  by (induction cs) (auto simp: plain_codepoint_def)

lemma check_codepoints_Ok: "check_codepoints t = Ok () \<longleftrightarrow> list_all plain_codepoint (chars t)"
  by (simp add: check_codepoints_def check_codepoints_loop_Ok)

lemma check_codepoints_not_Panic [simp]: "check_codepoints t \<noteq> Panic"
proof -
  have "check_codepoints_loop cs \<noteq> Panic" for cs by (induction cs) auto
  then show ?thesis by (simp add: check_codepoints_def)
qed

lemma check_display_name_not_Panic [simp]: "check_display_name E t \<noteq> Panic"
  by (auto simp: check_display_name_def split: outcome.splits)

lemma check_hostname_not_Panic [simp]: "check_hostname t \<noteq> Panic"
proof -
  have "check_label l \<noteq> Panic" for l by (simp add: check_label_def)
  then have "for_each check_label ls \<noteq> Panic" for ls by (rule for_each_not_Panic)
  then show ?thesis by (simp add: check_hostname_def)
qed

lemma check_email_not_Panic [simp]: "check_email t \<noteq> Panic"
  by (auto simp: check_email_def split: list.splits)

lemma check_label_Ok:
  "check_label l = Ok () \<longleftrightarrow>
     l \<noteq> [] \<and> length l \<le> 63 \<and> is_alphanumeric (hd l) \<and> is_alphanumeric (last l)
     \<and> list_all (\<lambda>b. is_alphanumeric b \<or> b = hyphen) l"
  by (auto simp: check_label_def size_defs)

lemma hyphen_not_alnum [simp]: "\<not> is_alphanumeric hyphen"
  by (simp add: is_alphanumeric_def is_upper_def is_lower_def is_digit_def hyphen_def)

lemma ldh_char_iff:
  "is_lower b \<or> is_digit b \<or> b = hyphen \<longleftrightarrow> (is_alphanumeric b \<or> b = hyphen) \<and> \<not> is_upper b"
  by (auto simp: is_alphanumeric_def is_upper_def is_lower_def is_digit_def hyphen_def)

lemma ldh_label_iff:
  "ldh_label l \<longleftrightarrow> check_label l = Ok () \<and> \<not> list_ex is_upper l"
proof (cases "l = []")
  case True
  then show ?thesis by (simp add: ldh_label_def check_label_Ok)
next
  case False
  then have "hd l \<in> set l" "last l \<in> set l" by auto
  with False show ?thesis
    by (auto simp: ldh_label_def check_label_Ok list_all_iff list_ex_iff ldh_char_iff)
qed

lemma check_hostname_Ok:
  "check_hostname t = Ok () \<longleftrightarrow> (\<exists>ls. 2 \<le> length ls \<and> list_all ldh_label ls \<and> t = join dot ls)"
proof
  assume ok: "check_hostname t = Ok ()"
  let ?ls = "split_on dot t"
  from ok have dot: "dot \<in> set t" and noup: "\<not> list_ex is_upper t"
    and labels: "\<forall>l\<in>set ?ls. check_label l = Ok ()"
    by (auto simp: check_hostname_def for_each_Ok split: if_splits)
  have "count_list t dot \<noteq> 0" using dot by (simp add: count_list_0_iff)
  then have two: "2 \<le> length ?ls" by (simp add: length_split_on)
  have part: "set l \<subseteq> set t" if "l \<in> set ?ls" for l
    using that by (induction t arbitrary: l) (fastforce split: if_splits list.splits)+
  have "list_all ldh_label ?ls"
    using labels noup part by (auto simp: list_all_iff ldh_label_iff list_ex_iff)
  with two show "\<exists>ls. 2 \<le> length ls \<and> list_all ldh_label ls \<and> t = join dot ls"
    by (metis join_split_on)
next
  assume "\<exists>ls. 2 \<le> length ls \<and> list_all ldh_label ls \<and> t = join dot ls"
  then obtain ls where ls: "2 \<le> length ls" "\<forall>l\<in>set ls. ldh_label l" and t: "t = join dot ls"
    by (auto simp: list_all_iff)
  have low: "unat b < 128 \<and> \<not> is_upper b \<and> b \<noteq> dot" if "l \<in> set ls" "b \<in> set l" for l b
    using ls(2) that by (fastforce simp: ldh_label_def list_all_iff is_lower_def is_digit_def
        is_upper_def hyphen_def dot_def)
  have chars: "unat b < 128 \<and> \<not> is_upper b" if "b \<in> set t" for b
    using that set_join [of dot ls] low by (auto simp: t) (auto simp: dot_def is_upper_def)
  have split: "split_on dot t = ls"
    unfolding t using ls low by (intro split_on_join) auto
  have "dot \<in> set t"
    using split_on_id [of dot t] ls(1) split by force
  moreover have "last t \<noteq> dot"
  proof
    assume "last t = dot"
    with \<open>dot \<in> set t\<close> obtain u where "t = u @ dot # []"
      by (metis append_butlast_last_id empty_iff empty_set)
    then have "[] \<in> set (split_on dot t)"
      by (simp add: split_on_snoc)
    with split ls(2) show False by (auto simp: ldh_label_def)
  qed
  moreover have "\<forall>l\<in>set (split_on dot t). check_label l = Ok ()"
    using ls(2) by (simp add: split ldh_label_iff)
  ultimately show "check_hostname t = Ok ()"
    using chars by (auto simp: check_hostname_def for_each_Ok is_ascii_def list_all_iff list_ex_iff)
qed

lemma check_email_Ok:
  "check_email t = Ok () \<longleftrightarrow>
     list_all plain_codepoint (chars t)
     \<and> (\<exists>l d. t = l @ at_sign # d \<and> l \<noteq> [] \<and> d \<noteq> [] \<and> at_sign \<notin> set l \<and> at_sign \<notin> set d)"
proof -
  have "(case split_on at_sign t of
         local # domain # rest \<Rightarrow> rest = [] \<and> local \<noteq> [] \<and> domain \<noteq> [] | _ \<Rightarrow> False)
      \<longleftrightarrow> (\<exists>l d. t = l @ at_sign # d \<and> l \<noteq> [] \<and> d \<noteq> [] \<and> at_sign \<notin> set l \<and> at_sign \<notin> set d)"
    (is "?L \<longleftrightarrow> ?R")
  proof
    assume ?L
    then obtain l d where s: "split_on at_sign t = [l, d]" "l \<noteq> []" "d \<noteq> []"
      by (auto split: list.splits)
    have "t = l @ at_sign # d" using join_split_on [of at_sign t] s by simp
    moreover have "at_sign \<notin> set l" "at_sign \<notin> set d"
      using split_on_part [of _ at_sign t] s by auto
    ultimately show ?R using s by blast
  qed (auto simp: split_on_append split_on_id)
  then show ?thesis
    by (auto simp: check_email_def check_codepoints_Ok split: list.splits)
qed

end
