(* ===== verification/Descriptors.thy ===== *)
theory Descriptors
  imports Text_Rules
begin

text \<open>
  The field table of \<open>crates/mabel-core/src/validate.rs\<close> as data: the descriptor
  types and one descriptor per message of the ledger schema. A cross-field rule
  is a function pointer in Rust; here it is a name, \<open>cross_check\<close>, which
  \<open>Validate.thy\<close> interprets. A \<open>&'static MessageDescriptor\<close> is the descriptor
  itself, so the table is a finite tree: the recursion of the schema (an event
  that embeds an event) passes through the cross-field rules only.
\<close>

section \<open>Descriptor types\<close>

datatype wire_kind = WVarint | WLen

fun wire_kind_number :: "wire_kind \<Rightarrow> nat" where
  "wire_kind_number WVarint = 0"
| "wire_kind_number WLen = 2"

datatype cardinality =
    Forbidden
  | Optional
  | Required
  | Variant
  | Repeated (rep_min: nat) (rep_max: nat) (rep_distinct: bool)

datatype string_rule = Utf8 | DisplayName | Hostname | Email

datatype cross_check =
    CheckRawRoot
  | CheckIdentityRoot
  | CheckMembershipInvitation
  | CheckMembershipAcceptance
  | CheckEventBody
  | CheckAcceptanceFile

datatype field_kind =
    KVarint u64 u64
  | KEnum "(u64 \<times> string) list"
  | KBytes "nat option" nat
  | KString nat string_rule
  | KNested message_descriptor nat
  | KMessage message_descriptor
  | KDetached message_descriptor
and field_descriptor =
    FieldDescriptor (fd_number: nat) (fd_name: string) (fd_cardinality: cardinality)
      (fd_kind: field_kind)
and message_descriptor =
    MessageDescriptor (md_name: string) (md_max_bytes: nat) (md_fields: "field_descriptor list")
      (md_oneof: "(string \<times> nat) option") (md_check: "cross_check option")

fun wire_kind_of :: "field_kind \<Rightarrow> wire_kind" where
  "wire_kind_of (KVarint _ _) = WVarint"
| "wire_kind_of (KEnum _) = WVarint"
| "wire_kind_of _ = WLen"

definition md_field :: "message_descriptor \<Rightarrow> nat \<Rightarrow> field_descriptor option" where
  "md_field D number = find (\<lambda>f. fd_number f = number) (md_fields D)"

definition forbidden :: "nat \<Rightarrow> string \<Rightarrow> field_kind \<Rightarrow> field_descriptor" where
  "forbidden number name kind = FieldDescriptor number name Forbidden kind"

definition optional :: "nat \<Rightarrow> string \<Rightarrow> field_kind \<Rightarrow> field_descriptor" where
  "optional number name kind = FieldDescriptor number name Optional kind"

definition required :: "nat \<Rightarrow> string \<Rightarrow> field_kind \<Rightarrow> field_descriptor" where
  "required number name kind = FieldDescriptor number name Required kind"

definition variant :: "nat \<Rightarrow> string \<Rightarrow> message_descriptor \<Rightarrow> field_descriptor" where
  "variant number name D = FieldDescriptor number name Variant (KMessage D)"

lemmas field_defs = forbidden_def optional_def required_def variant_def

section \<open>Field kinds\<close>

definition MAX_NESTING :: nat where "MAX_NESTING = 8"
definition INCEPTION_TAG :: nat where "INCEPTION_TAG = 10"
definition TRUST_ATTESTATION_TAG :: nat where "TRUST_ATTESTATION_TAG = 12"
definition MEMBERSHIP_INVITATION_TAG :: nat where "MEMBERSHIP_INVITATION_TAG = 14"
definition PROFILE_UPDATE_TAG :: nat where "PROFILE_UPDATE_TAG = 17"
definition RAW_ROOT_TAG :: nat where "RAW_ROOT_TAG = 10"
definition IDENTITY_ROOT_TAG :: nat where "IDENTITY_ROOT_TAG = 11"

lemmas tag_defs = INCEPTION_TAG_def TRUST_ATTESTATION_TAG_def MEMBERSHIP_INVITATION_TAG_def
  PROFILE_UPDATE_TAG_def RAW_ROOT_TAG_def IDENTITY_ROOT_TAG_def

definition K_ID :: field_kind where "K_ID = KBytes (Some ID_BYTES) ID_BYTES"
definition K_SIG :: field_kind where "K_SIG = KBytes (Some SIG_BYTES) SIG_BYTES"
definition K_NONCE :: field_kind where "K_NONCE = KBytes (Some NONCE_BYTES) NONCE_BYTES"

definition K_EMBEDDED_INCEPTION :: field_kind where
  "K_EMBEDDED_INCEPTION = KBytes None MAX_EMBEDDED_INCEPTION_BYTES"

definition K_VERSION :: field_kind where "K_VERSION = KVarint 1 0xffffffff"

definition K_DECLARED_KIND :: field_kind where
  "K_DECLARED_KIND =
     KEnum [(1, ''PERSON''), (2, ''ORGANIZATION''), (3, ''AGENT''), (4, ''SERVICE'')]"

definition K_ROLE :: field_kind where "K_ROLE = KEnum [(1, ''MEMBER''), (2, ''CONTROLLER'')]"

lemmas kind_defs = K_ID_def K_SIG_def K_NONCE_def K_EMBEDDED_INCEPTION_def K_VERSION_def
  K_DECLARED_KIND_def K_ROLE_def

section \<open>The table\<close>

definition RAW_ROOT :: message_descriptor where
  "RAW_ROOT = MessageDescriptor ''RawRoot'' MAX_EVENT_BYTES
     [required 1 ''active_key'' K_ID, required 2 ''reserve_commit'' K_ID]
     None (Some CheckRawRoot)"

definition IDENTITY_ROOT :: message_descriptor where
  "IDENTITY_ROOT = MessageDescriptor ''IdentityRoot'' MAX_EVENT_BYTES
     [required 1 ''founder'' K_ID, required 2 ''founder_key'' K_ID,
      required 3 ''founder_inception'' K_EMBEDDED_INCEPTION]
     None (Some CheckIdentityRoot)"

definition INCEPTION :: message_descriptor where
  "INCEPTION = MessageDescriptor ''Inception'' MAX_EVENT_BYTES
     [required 1 ''kind'' K_DECLARED_KIND, required 2 ''nonce'' K_NONCE,
      variant RAW_ROOT_TAG ''raw_root'' RAW_ROOT,
      variant IDENTITY_ROOT_TAG ''identity_root'' IDENTITY_ROOT]
     (Some (''root'', RAW_ROOT_TAG)) None"

definition WITNESS_CONFIG :: message_descriptor where
  "WITNESS_CONFIG = MessageDescriptor ''WitnessConfig'' MAX_EVENT_BYTES
     [FieldDescriptor 1 ''witnesses'' (Repeated 1 MAX_WITNESSES True) K_ID] None None"

definition ENDPOINT_ADVERTISEMENT :: message_descriptor where
  "ENDPOINT_ADVERTISEMENT = MessageDescriptor ''EndpointAdvertisement'' MAX_EVENT_BYTES
     [FieldDescriptor 1 ''endpoints'' (Repeated 0 MAX_ENDPOINTS True) K_ID] None None"

definition WITNESS_SET :: message_descriptor where
  "WITNESS_SET = MessageDescriptor ''WitnessSet'' MAX_EVENT_BYTES
     [FieldDescriptor 1 ''witnesses'' (Repeated 0 MAX_WITNESSES True) K_ID] None None"

definition TRUST_ATTESTATION :: message_descriptor where
  "TRUST_ATTESTATION = MessageDescriptor ''TrustAttestation'' MAX_EVENT_BYTES
     [required 1 ''subject'' K_ID] None None"

definition TRUST_REVOCATION :: message_descriptor where
  "TRUST_REVOCATION = MessageDescriptor ''TrustRevocation'' MAX_EVENT_BYTES
     [required 1 ''target'' K_ID] None None"

definition MEMBERSHIP_INVITATION :: message_descriptor where
  "MEMBERSHIP_INVITATION = MessageDescriptor ''MembershipInvitation'' MAX_EVENT_BYTES
     [required 1 ''invitee'' K_ID, required 2 ''invitee_key'' K_ID, required 3 ''role'' K_ROLE,
      required 4 ''invitee_inception'' K_EMBEDDED_INCEPTION]
     None (Some CheckMembershipInvitation)"

definition ACCEPTANCE :: message_descriptor where
  "ACCEPTANCE = MessageDescriptor ''Acceptance'' MAX_ACCEPTANCE_BYTES
     [forbidden 1 ''version'' K_VERSION, required 2 ''ledger'' K_ID,
      required 3 ''invitation_event'' K_ID, required 4 ''invitee'' K_ID,
      required 5 ''invitee_key'' K_ID]
     None None"

definition MEMBERSHIP_ACCEPTANCE :: message_descriptor where
  "MEMBERSHIP_ACCEPTANCE = MessageDescriptor ''MembershipAcceptance'' MAX_EVENT_BYTES
     [required 1 ''acceptance'' (KNested ACCEPTANCE MAX_ACCEPTANCE_BYTES),
      required 2 ''signature'' K_SIG]
     None (Some CheckMembershipAcceptance)"

definition MEMBERSHIP_REMOVAL :: message_descriptor where
  "MEMBERSHIP_REMOVAL = MessageDescriptor ''MembershipRemoval'' MAX_EVENT_BYTES
     [required 1 ''target'' K_ID] None None"

definition PROFILE_UPDATE :: message_descriptor where
  "PROFILE_UPDATE = MessageDescriptor ''ProfileUpdate'' MAX_EVENT_BYTES
     [optional 1 ''display_name'' (KString MAX_DISPLAY_NAME_BYTES DisplayName),
      optional 2 ''hostname'' (KString MAX_HOSTNAME_BYTES Hostname),
      optional 3 ''email'' (KString MAX_EMAIL_BYTES Email)]
     None None"

definition EVENT_BODY :: message_descriptor where
  "EVENT_BODY = MessageDescriptor ''EventBody'' MAX_EVENT_BYTES
     [forbidden 1 ''version'' K_VERSION, optional 2 ''ledger'' K_ID,
      optional 3 ''seq'' (KVarint 1 0xffffffffffffffff), optional 4 ''prev'' K_ID,
      required 5 ''timestamp_ms'' (KVarint 1 MAX_TIMESTAMP_MS), required 6 ''author_key'' K_ID,
      variant INCEPTION_TAG ''inception'' INCEPTION,
      variant 11 ''witness_config'' WITNESS_CONFIG,
      variant TRUST_ATTESTATION_TAG ''trust_attestation'' TRUST_ATTESTATION,
      variant 13 ''trust_revocation'' TRUST_REVOCATION,
      variant MEMBERSHIP_INVITATION_TAG ''membership_invitation'' MEMBERSHIP_INVITATION,
      variant 15 ''membership_acceptance'' MEMBERSHIP_ACCEPTANCE,
      variant 16 ''membership_removal'' MEMBERSHIP_REMOVAL,
      variant PROFILE_UPDATE_TAG ''profile_update'' PROFILE_UPDATE,
      variant 18 ''endpoint_advertisement'' ENDPOINT_ADVERTISEMENT,
      variant 19 ''witness_set'' WITNESS_SET]
     (Some (''payload'', INCEPTION_TAG)) (Some CheckEventBody)"

definition SIGNED_EVENT :: message_descriptor where
  "SIGNED_EVENT = MessageDescriptor ''SignedEvent'' MAX_EVENT_BYTES
     [required 1 ''body'' (KNested EVENT_BODY MAX_EVENT_BYTES), required 2 ''signature'' K_SIG]
     None None"

lemmas descriptor_defs = RAW_ROOT_def IDENTITY_ROOT_def INCEPTION_def WITNESS_CONFIG_def
  ENDPOINT_ADVERTISEMENT_def WITNESS_SET_def TRUST_ATTESTATION_def TRUST_REVOCATION_def
  MEMBERSHIP_INVITATION_def ACCEPTANCE_def MEMBERSHIP_ACCEPTANCE_def MEMBERSHIP_REMOVAL_def
  PROFILE_UPDATE_def EVENT_BODY_def SIGNED_EVENT_def

end
