(* ===== verification/Validate.thy ===== *)
theory Validate
  imports Descriptors
begin

unbundle bit_operations_syntax

text \<open>
  The validator proper: \<open>scan\<close>, \<open>check_cardinality\<close>, the cross-field rules and
  the standalone check of an embedded inception, from
  \<open>crates/mabel-core/src/validate.rs\<close>.

  In Rust \<open>validate\<close> and \<open>scan\<close> call each other through submessages and through
  the cross-field rules. Here every function that validates a submessage takes
  the validator to use as an argument, and \<open>validate_n\<close> ties the knot with one
  unit of fuel per level. Running out of fuel is \<open>Panic\<close>, the same value a failed
  \<open>expect\<close> has, so one theorem excludes both: \<open>VALIDATE_FUEL\<close> is one more than
  the deepest nesting the scanner admits, doubled for the containers that restart
  the count.
\<close>

section \<open>Scanned fields\<close>

record scanned =
  sc_descriptor :: message_descriptor
  sc_depth :: nat
  sc_entries :: records

type_synonym validator = "message_descriptor \<Rightarrow> bytes \<Rightarrow> nat \<Rightarrow> scanned wire_result"

fun get_varint :: "records \<Rightarrow> nat \<Rightarrow> u64 option" where
  "get_varint [] n = None"
| "get_varint ((k, VVarint v) # rs) n = (if k = n then Some v else get_varint rs n)"
| "get_varint ((k, VBytes _) # rs) n = get_varint rs n"

fun get_bytes :: "records \<Rightarrow> nat \<Rightarrow> bytes option" where
  "get_bytes [] n = None"
| "get_bytes ((k, VBytes b) # rs) n = (if k = n then Some b else get_bytes rs n)"
| "get_bytes ((k, VVarint _) # rs) n = get_bytes rs n"

fun get_repeated :: "records \<Rightarrow> nat \<Rightarrow> bytes list" where
  "get_repeated [] n = []"
| "get_repeated ((k, VBytes b) # rs) n =
     (if k = n then b # get_repeated rs n else get_repeated rs n)"
| "get_repeated ((k, VVarint _) # rs) n = get_repeated rs n"

definition count_field :: "records \<Rightarrow> nat \<Rightarrow> nat" where
  "count_field rs n = length (filter (\<lambda>r. fst r = n) rs)"

definition scanned_varint :: "scanned \<Rightarrow> nat \<Rightarrow> u64 option" where
  "scanned_varint s n = get_varint (sc_entries s) n"

definition scanned_bytes :: "scanned \<Rightarrow> nat \<Rightarrow> bytes option" where
  "scanned_bytes s n = get_bytes (sc_entries s) n"

definition scanned_repeated_bytes :: "scanned \<Rightarrow> nat \<Rightarrow> bytes list" where
  "scanned_repeated_bytes s n = get_repeated (sc_entries s) n"

definition scanned_count :: "scanned \<Rightarrow> nat \<Rightarrow> nat" where
  "scanned_count s n = count_field (sc_entries s) n"

definition is_variant :: "message_descriptor \<Rightarrow> nat \<Rightarrow> bool" where
  "is_variant D n = (case md_field D n of None \<Rightarrow> False | Some f \<Rightarrow> fd_cardinality f = Variant)"

fun get_oneof :: "message_descriptor \<Rightarrow> records \<Rightarrow> (nat \<times> bytes) option" where
  "get_oneof D [] = None"
| "get_oneof D ((k, VBytes b) # rs) = (if is_variant D k then Some (k, b) else get_oneof D rs)"
| "get_oneof D ((k, VVarint _) # rs) = get_oneof D rs"

definition scanned_oneof :: "scanned \<Rightarrow> (nat \<times> bytes) option" where
  "scanned_oneof s = get_oneof (sc_descriptor s) (sc_entries s)"

lemmas scanned_defs = scanned_varint_def scanned_bytes_def scanned_repeated_bytes_def
  scanned_count_def scanned_oneof_def

section \<open>Field values\<close>

definition unknown_field :: "message_descriptor \<Rightarrow> nat \<Rightarrow> wire_error" where
  "unknown_field D number =
     (case md_oneof D of
        Some (name, first) \<Rightarrow>
          if number \<ge> first then UnknownOneofVariant (md_name D) name number
          else UnknownField (md_name D) number
      | None \<Rightarrow> UnknownField (md_name D) number)"

definition check_varint :: "field_descriptor \<Rightarrow> string \<Rightarrow> u64 \<Rightarrow> unit wire_result" where
  "check_varint field msg v =
     (case fd_kind field of
        KEnum values \<Rightarrow>
          if v = 0 then Err (UnspecifiedEnum msg (fd_name field))
          else if \<not> list_ex (\<lambda>accepted. fst accepted = v) values then
            Err (EnumValueError msg (fd_name field) v)
          else Ok ()
      | KVarint mn mx \<Rightarrow>
          if v = 0 then Err (DefaultValueEncoded msg (fd_name field))
          else if v < mn \<or> v > mx then Err (ValueOutOfRange msg (fd_name field) v mn mx)
          else Ok ()
      | _ \<Rightarrow> Panic)"

definition check_length :: "field_descriptor \<Rightarrow> string \<Rightarrow> bytes \<Rightarrow> nat \<Rightarrow> unit wire_result" where
  "check_length field msg content mx =
     (if content = [] then Err (DefaultValueEncoded msg (fd_name field))
      else if length content > mx then Err (FieldTooLong msg (fd_name field) (length content) mx)
      else Ok ())"

definition check_string :: "env \<Rightarrow> string_rule \<Rightarrow> string \<Rightarrow> string \<Rightarrow> bytes \<Rightarrow> unit wire_result" where
  "check_string E rule msg field text =
     (case rule of
        Utf8 \<Rightarrow> Ok ()
      | DisplayName \<Rightarrow> map_err (InvalidDisplayName msg field) (check_display_name E text)
      | Hostname \<Rightarrow> map_err (InvalidHostname msg field) (check_hostname text)
      | Email \<Rightarrow> map_err (InvalidEmail msg field) (check_email text))"

definition check_bytes ::
  "env \<Rightarrow> validator \<Rightarrow> field_descriptor \<Rightarrow> string \<Rightarrow> bytes \<Rightarrow> nat \<Rightarrow> unit wire_result" where
  "check_bytes E V field msg content depth =
     (case fd_kind field of
        KBytes exact mx \<Rightarrow>
          (case exact of
             Some n \<Rightarrow>
               if length content \<noteq> n then Err (WrongLength msg (fd_name field) n (length content))
               else check_length field msg content mx
           | None \<Rightarrow> check_length field msg content mx)
      | KString mx rule \<Rightarrow>
          obind (check_length field msg content mx) (\<lambda>_.
            if \<not> is_utf8 content then Err (InvalidUtf8 msg (fd_name field))
            else check_string E rule msg (fd_name field) content)
      | KNested D mx \<Rightarrow>
          obind (check_length field msg content mx) (\<lambda>_.
            obind (V D content (depth + 1)) (\<lambda>_. Ok ()))
      | KMessage D \<Rightarrow> obind (V D content (depth + 1)) (\<lambda>_. Ok ())
      | KDetached D \<Rightarrow> obind (V D content 0) (\<lambda>_. Ok ())
      | _ \<Rightarrow> Panic)"

section \<open>The scanner\<close>

definition field_number :: "u64 \<Rightarrow> nat" where
  "field_number key =
     (let n = unat (drop_bit 3 key) in if n < 2 ^ 32 then n else 2 ^ 32 - 1)"

definition wire_type :: "u64 \<Rightarrow> nat" where
  "wire_type key = unat (key AND 7)"

definition is_repeated :: "field_descriptor \<Rightarrow> bool" where
  "is_repeated field = (case fd_cardinality field of Repeated _ _ _ \<Rightarrow> True | _ \<Rightarrow> False)"

definition check_order ::
  "message_descriptor \<Rightarrow> field_descriptor \<Rightarrow> records \<Rightarrow> nat \<Rightarrow> nat \<Rightarrow> nat \<Rightarrow> unit wire_result" where
  "check_order D field entries last_number number wire =
     (let seen = (number \<in> fst ` set entries);
          expected = wire_kind_number (wire_kind_of (fd_kind field)) in
      if seen \<and> \<not> is_repeated field then Err (DuplicateField (md_name D) (fd_name field))
      else if number < last_number \<or> (seen \<and> number \<noteq> last_number) then
        Err (FieldOutOfOrder (md_name D) number)
      else if wire \<noteq> expected then
        Err (WrongWireType (md_name D) (fd_name field) expected wire)
      else case fd_cardinality field of
          Repeated mn mx _ \<Rightarrow>
            if count_field entries number \<ge> mx then
              Err (RepeatedCount (md_name D) (fd_name field) (count_field entries number + 1) mn mx)
            else Ok ()
        | _ \<Rightarrow> Ok ())"

definition read_value ::
  "env \<Rightarrow> validator \<Rightarrow> message_descriptor \<Rightarrow> field_descriptor \<Rightarrow> nat \<Rightarrow> bytes \<Rightarrow>
   (wvalue \<times> bytes) wire_result" where
  "read_value E V D field depth bs =
     (case wire_kind_of (fd_kind field) of
        WVarint \<Rightarrow>
          obind (read_varint (md_name D) bs) (\<lambda>(v, rest).
            obind (check_varint field (md_name D) v) (\<lambda>_. Ok (VVarint v, rest)))
      | WLen \<Rightarrow>
          obind (read_varint (md_name D) bs) (\<lambda>(len, rest).
            if unat len > length rest then Err (Truncated (md_name D))
            else
              obind (check_bytes E V field (md_name D) (take (unat len) rest) depth) (\<lambda>_.
                Ok (VBytes (take (unat len) rest), drop (unat len) rest))))"

lemma read_value_shorter [termination_simp]:
  "read_value E V D field depth bs = Ok (v, rest) \<Longrightarrow> length rest < length bs"
  by (auto simp: read_value_def split: wire_kind.splits if_splits dest!: read_varint_shorter)

function scan_loop ::
  "env \<Rightarrow> validator \<Rightarrow> message_descriptor \<Rightarrow> nat \<Rightarrow> records \<Rightarrow> nat \<Rightarrow> bytes \<Rightarrow> records wire_result"
where
  "scan_loop E V D depth entries last_number bs =
     (if bs = [] then Ok entries
      else
        obind (read_varint (md_name D) bs) (\<lambda>(key, bs1).
          let number = field_number key; wire = wire_type key in
          obind (ok_or (md_field D number) (unknown_field D number)) (\<lambda>field.
            obind (check_order D field entries last_number number wire) (\<lambda>_.
              obind (read_value E V D field depth bs1) (\<lambda>(v, bs2).
                scan_loop E V D depth (entries @ [(number, v)]) number bs2)))))"
  by pat_completeness auto
termination
  by (relation "measure (\<lambda>(E, V, D, depth, entries, last_number, bs). length bs)")
     (auto dest!: read_varint_shorter read_value_shorter)

declare scan_loop.simps [simp del]

definition scan ::
  "env \<Rightarrow> validator \<Rightarrow> message_descriptor \<Rightarrow> bytes \<Rightarrow> nat \<Rightarrow> scanned wire_result" where
  "scan E V D bs depth =
     (if depth > MAX_NESTING then Err TooDeeplyNested
      else obind (scan_loop E V D depth [] 0 bs) (\<lambda>entries.
        Ok \<lparr>sc_descriptor = D, sc_depth = depth, sc_entries = entries\<rparr>))"

section \<open>Cardinalities\<close>

definition check_field_cardinality :: "scanned \<Rightarrow> field_descriptor \<Rightarrow> unit wire_result" where
  "check_field_cardinality s field =
     (let msg = md_name (sc_descriptor s); count = scanned_count s (fd_number field) in
      case fd_cardinality field of
        Forbidden \<Rightarrow> if count > 0 then Err (FieldForbidden msg (fd_name field)) else Ok ()
      | Required \<Rightarrow>
          if count = 0 then
            Err (case fd_kind field of
                   KEnum _ \<Rightarrow> UnspecifiedEnum msg (fd_name field)
                 | _ \<Rightarrow> MissingField msg (fd_name field))
          else Ok ()
      | Repeated mn mx dist \<Rightarrow>
          if count < mn \<or> count > mx then
            Err (RepeatedCount msg (fd_name field) count mn mx)
          else if dist \<and> has_repeat (scanned_repeated_bytes s (fd_number field)) then
            Err (RepeatedDuplicate msg (fd_name field))
          else Ok ()
      | _ \<Rightarrow> Ok ())"

definition check_cardinality :: "scanned \<Rightarrow> unit wire_result" where
  "check_cardinality s =
     obind (for_each (check_field_cardinality s) (md_fields (sc_descriptor s))) (\<lambda>_.
       case md_oneof (sc_descriptor s) of
         None \<Rightarrow> Ok ()
       | Some (oneof, _) \<Rightarrow>
           (let variants =
              length (filter (\<lambda>f. fd_cardinality f = Variant \<and> scanned_count s (fd_number f) > 0)
                        (md_fields (sc_descriptor s))) in
            if variants = 0 then Err (MissingOneof (md_name (sc_descriptor s)) oneof)
            else if variants > 1 then Err (MultipleOneofVariants (md_name (sc_descriptor s)) oneof)
            else Ok ()))"

section \<open>Cross-field rules\<close>

definition wire_public_key :: "env \<Rightarrow> string \<Rightarrow> string \<Rightarrow> bytes \<Rightarrow> public_key wire_result" where
  "wire_public_key E msg field bs =
     (if length bs \<noteq> ID_BYTES then Err (InvalidPublicKey msg field)
      else if key_is_point E bs then Ok bs
      else Err (InvalidPublicKey msg field))"

definition wire_verify ::
  "env \<Rightarrow> public_key \<Rightarrow> bytes \<Rightarrow> bytes \<Rightarrow> string \<Rightarrow> string \<Rightarrow> unit wire_result" where
  "wire_verify E key input signature msg field =
     (if length signature \<noteq> SIG_BYTES then
        Err (WrongLength msg field SIG_BYTES (length signature))
      else if ed_verify E key input signature then Ok ()
      else Err (BadSignature msg field))"

record standalone_inception =
  si_event_id :: event_id
  si_identity :: identity_id
  si_active_key :: public_key

definition inception_standalone ::
  "env \<Rightarrow> validator \<Rightarrow> bytes \<Rightarrow> nat \<Rightarrow> standalone_inception wire_result" where
  "inception_standalone E V bs depth =
     obind (V SIGNED_EVENT bs depth) (\<lambda>signed.
     obind (expect (scanned_bytes signed 1)) (\<lambda>body.
     obind (expect (scanned_bytes signed 2)) (\<lambda>signature.
     obind (scan E V EVENT_BODY body (depth + 1)) (\<lambda>body_fields.
     obind (expect (scanned_oneof body_fields)) (\<lambda>(number, payload).
     if number \<noteq> INCEPTION_TAG then Err EmbeddedInceptionNotRawRooted
     else
       obind (scan E V INCEPTION payload (depth + 2)) (\<lambda>inception.
       obind (expect (scanned_oneof inception)) (\<lambda>(root_number, root).
       if root_number \<noteq> RAW_ROOT_TAG then Err EmbeddedInceptionNotRawRooted
       else
         obind (scan E V RAW_ROOT root (depth + 3)) (\<lambda>raw_root.
         obind (expect (scanned_bytes raw_root 1)) (\<lambda>key_bytes.
         obind (wire_public_key E ''RawRoot'' ''active_key'' key_bytes) (\<lambda>active_key.
         obind (wire_verify E active_key (sign_input body) signature ''SignedEvent'' ''signature'')
           (\<lambda>_. Ok \<lparr>si_event_id = event_id E body, si_identity = event_id E body,
                    si_active_key = active_key\<rparr>)))))))))))"

definition check_embedded_inception ::
  "env \<Rightarrow> validator \<Rightarrow> scanned \<Rightarrow> nat \<Rightarrow> nat \<times> string \<Rightarrow> nat \<times> string \<Rightarrow> unit wire_result" where
  "check_embedded_inception E V s inception_field idf keyf =
     obind (expect (scanned_bytes s inception_field)) (\<lambda>embedded.
     obind (inception_standalone E V embedded (sc_depth s + 1)) (\<lambda>inception.
     if scanned_bytes s (fst idf) \<noteq> Some (si_event_id inception) then
       Err (InceptionIdMismatch (snd idf))
     else if scanned_bytes s (fst keyf) \<noteq> Some (si_active_key inception) then
       Err (InceptionKeyMismatch (snd keyf))
     else Ok ()))"

definition check_raw_root :: "scanned \<Rightarrow> unit wire_result" where
  "check_raw_root s =
     (if scanned_bytes s 1 = scanned_bytes s 2 then
        Err (FieldsMustDiffer ''RawRoot.active_key'' ''RawRoot.reserve_commit'')
      else Ok ())"

definition check_identity_root :: "env \<Rightarrow> validator \<Rightarrow> scanned \<Rightarrow> unit wire_result" where
  "check_identity_root E V s =
     check_embedded_inception E V s 3 (1, ''IdentityRoot.founder'') (2, ''IdentityRoot.founder_key'')"

definition check_membership_invitation :: "env \<Rightarrow> validator \<Rightarrow> scanned \<Rightarrow> unit wire_result" where
  "check_membership_invitation E V s =
     check_embedded_inception E V s 4
       (1, ''MembershipInvitation.invitee'') (2, ''MembershipInvitation.invitee_key'')"

definition detached_acceptance ::
  "env \<Rightarrow> validator \<Rightarrow> bytes \<Rightarrow> bytes \<Rightarrow> string \<Rightarrow> unit wire_result" where
  "detached_acceptance E V blob signature msg =
     obind (scan E V ACCEPTANCE blob 0) (\<lambda>fields.
     obind (expect (scanned_bytes fields 5)) (\<lambda>key_bytes.
     obind (wire_public_key E ''Acceptance'' ''invitee_key'' key_bytes) (\<lambda>invitee_key.
     wire_verify E invitee_key (accept_input blob) signature msg ''signature'')))"

definition check_membership_acceptance :: "env \<Rightarrow> validator \<Rightarrow> scanned \<Rightarrow> unit wire_result" where
  "check_membership_acceptance E V s =
     obind (expect (scanned_bytes s 1)) (\<lambda>blob.
     obind (expect (scanned_bytes s 2)) (\<lambda>signature.
     detached_acceptance E V blob signature ''MembershipAcceptance''))"

definition check_acceptance_file :: "env \<Rightarrow> validator \<Rightarrow> scanned \<Rightarrow> unit wire_result" where
  "check_acceptance_file E V s =
     obind (expect (scanned_bytes s 1)) (\<lambda>blob.
     obind (expect (scanned_bytes s 2)) (\<lambda>signature.
     detached_acceptance E V blob signature ''AcceptanceFile''))"

definition subfields :: "env \<Rightarrow> validator \<Rightarrow> scanned \<Rightarrow> message_descriptor \<Rightarrow> bytes \<Rightarrow> scanned wire_result" where
  "subfields E V s D bs = scan E V D bs (sc_depth s + 1)"

definition check_chain_fields :: "scanned \<Rightarrow> unit wire_result" where
  "check_chain_fields s =
     (let ledger = scanned_bytes s 2; prev = scanned_bytes s 4 in
      if scanned_varint s 3 = None then
        (if ledger \<noteq> None then Err (SetAtSeqZero ''ledger'')
         else if prev \<noteq> None then Err (SetAtSeqZero ''prev'')
         else Ok ())
      else
        (if ledger = None then Err (MissingChainField ''ledger'')
         else if prev = None then Err (MissingChainField ''prev'')
         else Ok ()))"

definition check_payload_fields ::
  "env \<Rightarrow> validator \<Rightarrow> scanned \<Rightarrow> nat \<Rightarrow> bytes \<Rightarrow> bytes \<Rightarrow> unit wire_result" where
  "check_payload_fields E V s number payload author_key =
     (let ledger = scanned_bytes s 2 in
      if number = INCEPTION_TAG then
        obind (subfields E V s INCEPTION payload) (\<lambda>inception.
        obind (expect (scanned_oneof inception)) (\<lambda>(root_number, root).
        let (D, field, name) =
          (if root_number = RAW_ROOT_TAG then (RAW_ROOT, 1, ''RawRoot.active_key'')
           else (IDENTITY_ROOT, 2, ''IdentityRoot.founder_key'')) in
        obind (subfields E V inception D root) (\<lambda>root_fields.
        if scanned_bytes root_fields field \<noteq> Some author_key then
          Err (FieldsMustMatch ''EventBody.author_key'' name)
        else Ok ())))
      else if number = TRUST_ATTESTATION_TAG then
        obind (subfields E V s TRUST_ATTESTATION payload) (\<lambda>attestation.
        if ledger \<noteq> None \<and> scanned_bytes attestation 1 = ledger then
          Err (FieldsMustDiffer ''TrustAttestation.subject'' ''EventBody.ledger'')
        else Ok ())
      else if number = MEMBERSHIP_INVITATION_TAG then
        obind (subfields E V s MEMBERSHIP_INVITATION payload) (\<lambda>invitation.
        if ledger \<noteq> None \<and> scanned_bytes invitation 1 = ledger then
          Err (FieldsMustDiffer ''MembershipInvitation.invitee'' ''EventBody.ledger'')
        else Ok ())
      else Ok ())"

definition check_event_body :: "env \<Rightarrow> validator \<Rightarrow> scanned \<Rightarrow> unit wire_result" where
  "check_event_body E V s =
     obind (check_chain_fields s) (\<lambda>_.
     obind (expect (scanned_oneof s)) (\<lambda>(number, payload).
     let is_inception = (number = INCEPTION_TAG); seq = scanned_varint s 3 in
     if is_inception \<and> seq \<noteq> None then Err InceptionPastSeqZero
     else if \<not> is_inception \<and> seq = None then Err NonInceptionAtSeqZero
     else obind (expect (scanned_bytes s 6)) (\<lambda>author_key.
       check_payload_fields E V s number payload author_key)))"

definition run_check :: "env \<Rightarrow> validator \<Rightarrow> cross_check option \<Rightarrow> scanned \<Rightarrow> unit wire_result" where
  "run_check E V check s =
     (case check of
        None \<Rightarrow> Ok ()
      | Some CheckRawRoot \<Rightarrow> check_raw_root s
      | Some CheckIdentityRoot \<Rightarrow> check_identity_root E V s
      | Some CheckMembershipInvitation \<Rightarrow> check_membership_invitation E V s
      | Some CheckMembershipAcceptance \<Rightarrow> check_membership_acceptance E V s
      | Some CheckEventBody \<Rightarrow> check_event_body E V s
      | Some CheckAcceptanceFile \<Rightarrow> check_acceptance_file E V s)"

section \<open>The validator\<close>

fun validate_n :: "nat \<Rightarrow> env \<Rightarrow> validator" where
  "validate_n 0 E D bs depth = Panic"
| "validate_n (Suc n) E D bs depth =
     (if length bs > md_max_bytes D then
        Err (MessageTooLarge (md_name D) (length bs) (md_max_bytes D))
      else
        obind (scan E (validate_n n E) D bs depth) (\<lambda>s.
        obind (check_cardinality s) (\<lambda>_.
        obind (run_check E (validate_n n E) (md_check D) s) (\<lambda>_. Ok s))))"

definition VALIDATE_FUEL :: nat where "VALIDATE_FUEL = 20"

definition validate :: "env \<Rightarrow> validator" where
  "validate E = validate_n VALIDATE_FUEL E"

definition message_fields :: "env \<Rightarrow> message_descriptor \<Rightarrow> bytes \<Rightarrow> scanned wire_result" where
  "message_fields E D bs = validate E D bs 0"

definition message :: "env \<Rightarrow> message_descriptor \<Rightarrow> bytes \<Rightarrow> unit wire_result" where
  "message E D bs = obind (validate E D bs 0) (\<lambda>_. Ok ())"

definition signed_event :: "env \<Rightarrow> bytes \<Rightarrow> unit wire_result" where
  "signed_event E bs = message E SIGNED_EVENT bs"

definition event_body :: "env \<Rightarrow> bytes \<Rightarrow> unit wire_result" where
  "event_body E bs = message E EVENT_BODY bs"

definition acceptance :: "env \<Rightarrow> bytes \<Rightarrow> unit wire_result" where
  "acceptance E bs = message E ACCEPTANCE bs"

definition verify_inception_standalone :: "env \<Rightarrow> bytes \<Rightarrow> standalone_inception wire_result" where
  "verify_inception_standalone E bs = inception_standalone E (validate E) bs 0"

end
