(* ===== verification/BTree_Map.thy ===== *)
theory BTree_Map
  imports Mabel_Prelude "HOL-Library.List_Lexorder"
begin

text \<open>
  \<open>std::collections::BTreeMap\<close>, which the folded ledger state uses for its
  principals, invitations and attestations. A map is the list of its entries in
  ascending key order, which is what its iterator yields; \<open>find\<close> over the
  iterator therefore returns the entry with the least matching key, as in Rust.
  Identifiers are byte arrays, whose Rust order is the lexicographic one that
  \<open>List_Lexorder\<close> puts on lists.
\<close>

type_synonym ('k, 'v) btree_map = "('k \<times> 'v) list"

section \<open>Operations\<close>

definition bt_get :: "('k, 'v) btree_map \<Rightarrow> 'k \<Rightarrow> 'v option" where
  "bt_get m k = map_of m k"

fun bt_insert :: "'k::linorder \<Rightarrow> 'v \<Rightarrow> ('k, 'v) btree_map \<Rightarrow> ('k, 'v) btree_map" where
  "bt_insert k v [] = [(k, v)]"
| "bt_insert k v ((k', v') # m) =
     (if k < k' then (k, v) # (k', v') # m
      else if k = k' then (k, v) # m
      else (k', v') # bt_insert k v m)"

definition bt_remove :: "'k \<Rightarrow> ('k, 'v) btree_map \<Rightarrow> ('k, 'v) btree_map" where
  "bt_remove k m = filter (\<lambda>e. fst e \<noteq> k) m"

definition bt_find :: "('k \<Rightarrow> 'v \<Rightarrow> bool) \<Rightarrow> ('k, 'v) btree_map \<Rightarrow> ('k \<times> 'v) option" where
  "bt_find P m = find (\<lambda>e. P (fst e) (snd e)) m"

definition bt_wf :: "('k::linorder, 'v) btree_map \<Rightarrow> bool" where
  "bt_wf m \<longleftrightarrow> sorted_wrt (<) (map fst m)"

section \<open>The interface the fold relies on\<close>

text \<open>
  What a client of the map may use: lookups after each update, the invariant
  every operation keeps, and that \<open>find\<close> searches exactly the stored entries.
\<close>

locale ordered_map =
  fixes get :: "'m \<Rightarrow> 'k \<Rightarrow> 'v option"
    and ins :: "'k \<Rightarrow> 'v \<Rightarrow> 'm \<Rightarrow> 'm"
    and del :: "'k \<Rightarrow> 'm \<Rightarrow> 'm"
    and search :: "('k \<Rightarrow> 'v \<Rightarrow> bool) \<Rightarrow> 'm \<Rightarrow> ('k \<times> 'v) option"
    and wf :: "'m \<Rightarrow> bool"
  assumes get_ins: "wf m \<Longrightarrow> get (ins k v m) k' = (if k' = k then Some v else get m k')"
    and get_del: "wf m \<Longrightarrow> get (del k m) k' = (if k' = k then None else get m k')"
    and wf_ins: "wf m \<Longrightarrow> wf (ins k v m)"
    and wf_del: "wf m \<Longrightarrow> wf (del k m)"
    and search_Some: "wf m \<Longrightarrow> search P m = Some (k, v) \<Longrightarrow> get m k = Some v \<and> P k v"
    and search_None: "wf m \<Longrightarrow> search P m = None \<Longrightarrow> get m k = Some v \<Longrightarrow> \<not> P k v"
begin

lemma search_ex: "wf m \<Longrightarrow> (search P m \<noteq> None) = (\<exists>k v. get m k = Some v \<and> P k v)"
  by (metis not_Some_eq search_None search_Some surj_pair)

lemma search_eq_None: "wf m \<Longrightarrow> search P m = None \<longleftrightarrow> (\<forall>k v. get m k = Some v \<longrightarrow> \<not> P k v)"
  using search_ex by blast

lemma get_ins_same: "wf m \<Longrightarrow> get (ins k v m) k = Some v"
  by (simp add: get_ins)

lemma search_after_del:
  "wf m \<Longrightarrow> search P (del k m) \<noteq> None \<longleftrightarrow> (\<exists>k' v. k' \<noteq> k \<and> get m k' = Some v \<and> P k' v)"
  using search_ex [OF wf_del, of m P k] by (auto simp: get_del split: if_splits)

end

section \<open>The map implements the interface\<close>

lemma bt_wf_distinct: "bt_wf m \<Longrightarrow> distinct (map fst m)"
  by (simp add: bt_wf_def strict_sorted_iff)

lemma bt_wf_Nil [simp]: "bt_wf []"
  by (simp add: bt_wf_def)

lemma bt_get_Nil [simp]: "bt_get [] k = None"
  by (simp add: bt_get_def)

lemma set_bt_insert: "fst ` set (bt_insert k v m) = insert k (fst ` set m)"
  by (induction k v m rule: bt_insert.induct) auto

lemma bt_wf_insert: "bt_wf m \<Longrightarrow> bt_wf (bt_insert k v m)"
proof (induction k v m rule: bt_insert.induct)
  case (2 k v k' v' m)
  have keys: "set (map fst (bt_insert k v m)) = insert k (fst ` set m)"
    by (simp add: set_bt_insert)
  with 2 show ?case by (fastforce simp: bt_wf_def)
qed (simp add: bt_wf_def)

lemma bt_get_insert: "bt_get (bt_insert k v m) k' = (if k' = k then Some v else bt_get m k')"
  by (induction k v m rule: bt_insert.induct) (auto simp: bt_get_def)

lemma bt_insert_last: "(\<And>k'. k' \<in> fst ` set m \<Longrightarrow> k' < k) \<Longrightarrow> bt_insert k v m = m @ [(k, v)]"
  by (induction k v m rule: bt_insert.induct) (auto dest: less_imp_not_less)

lemma bt_insert_length: "bt_get m k = None \<Longrightarrow> length (bt_insert k v m) = Suc (length m)"
  by (induction k v m rule: bt_insert.induct) (auto simp: bt_get_def split: if_splits)

lemma bt_insert_length_le: "length (bt_insert k v m) \<le> Suc (length m)"
  by (induction k v m rule: bt_insert.induct) auto

lemma bt_wf_length: "bt_wf m \<Longrightarrow> length m = card (fst ` set m)"
  using distinct_card [OF bt_wf_distinct] by fastforce

lemma bt_get_remove: "bt_get (bt_remove k m) k' = (if k' = k then None else bt_get m k')"
  by (induction m) (auto simp: bt_get_def bt_remove_def)

lemma bt_wf_remove: "bt_wf m \<Longrightarrow> bt_wf (bt_remove k m)"
  by (induction m) (auto simp: bt_wf_def bt_remove_def)

lemma bt_find_Some: "bt_wf m \<Longrightarrow> bt_find P m = Some (k, v) \<Longrightarrow> bt_get m k = Some v \<and> P k v"
  by (auto simp: bt_find_def bt_get_def dest!: find_Some_mem bt_wf_distinct)

lemma bt_find_None: "bt_find P m = None \<Longrightarrow> bt_get m k = Some v \<Longrightarrow> \<not> P k v"
  by (fastforce simp: bt_find_def bt_get_def find_None_iff dest: map_of_SomeD)

interpretation bt: ordered_map bt_get bt_insert bt_remove bt_find bt_wf
proof unfold_locales
  fix m :: "('a, 'b) btree_map" and P k v
  assume "bt_wf m" "bt_find P m = Some (k, v)"
  then show "bt_get m k = Some v \<and> P k v" by (rule bt_find_Some)
qed (auto simp: bt_get_insert bt_get_remove intro: bt_wf_insert bt_wf_remove dest: bt_find_None)

lemmas bt_simps = bt_get_insert bt_get_remove bt_wf_insert bt_wf_remove

lemma bt_get_mem: "bt_wf m \<Longrightarrow> bt_get m k = Some v \<longleftrightarrow> (k, v) \<in> set m"
  by (simp add: bt_get_def bt_wf_distinct)

end
