(* ===== verification/Ledger_State.thy ===== *)
theory Ledger_State
  imports Validate BTree_Map
begin

text \<open>
  The data of the fold, \<open>crates/mabel-core/src/fold.rs\<close>: the folded ledger
  state and what it is made of, the effect a checked event has, the reasons an
  event is rejected for, and the read-only queries of \<open>LedgerState\<close>. A
  \<open>BTreeMap\<close> is a \<open>btree_map\<close>, a \<open>u64\<close> a word.
\<close>

section \<open>What a ledger records\<close>

datatype declared_kind = KindUnspecified | Person | Organization | Agent | Service

datatype role = RoleUnspecified | Member | Controller

fun declared_kind_name :: "declared_kind \<Rightarrow> string" where
  "declared_kind_name KindUnspecified = ''unspecified''"
| "declared_kind_name Person = ''person''"
| "declared_kind_name Organization = ''organization''"
| "declared_kind_name Agent = ''agent''"
| "declared_kind_name Service = ''service''"

definition declared_kind_try_from :: "nat \<Rightarrow> declared_kind option" where
  "declared_kind_try_from n =
     map_of [(0, KindUnspecified), (1, Person), (2, Organization), (3, Agent), (4, Service)] n"

definition role_try_from :: "nat \<Rightarrow> role option" where
  "role_try_from n = map_of [(0, RoleUnspecified), (1, Member), (2, Controller)] n"

datatype ledger_root =
    Raw (raw_active_key: public_key) (raw_reserve_commit: bytes)
  | Identity (root_founder: identity_id) (root_founder_key: public_key)

definition is_raw :: "ledger_root \<Rightarrow> bool" where
  "is_raw r = (case r of Raw _ _ \<Rightarrow> True | Identity _ _ \<Rightarrow> False)"

definition root_as_str :: "ledger_root \<Rightarrow> string" where
  "root_as_str r = (case r of Raw _ _ \<Rightarrow> ''raw'' | Identity _ _ \<Rightarrow> ''identity'')"

record head =
  hd_seq :: u64
  hd_event_id :: event_id
  hd_timestamp_ms :: u64

record principal =
  pr_role :: role
  pr_active_key :: public_key

record signing_principal =
  sp_identity :: identity_id
  sp_key :: public_key

datatype invitation_status = Open | Accepted | Cancelled

fun status_as_str :: "invitation_status \<Rightarrow> string" where
  "status_as_str Open = ''open''"
| "status_as_str Accepted = ''accepted''"
| "status_as_str Cancelled = ''cancelled''"

record invitation =
  iv_invitee :: identity_id
  iv_invitee_key :: public_key
  iv_role :: role
  iv_status :: invitation_status

record attestation =
  at_subject :: identity_id
  at_signing_principal :: signing_principal
  at_revoked_by :: "event_id option"

definition is_revoked :: "attestation \<Rightarrow> bool" where
  "is_revoked a \<longleftrightarrow> at_revoked_by a \<noteq> None"

record profile =
  pf_display_name :: "bytes option"
  pf_hostname :: "bytes option"
  pf_email :: "bytes option"
  pf_signing_principal :: signing_principal
  pf_event :: event_id
  pf_seq :: u64

record witness_set =
  ws_witnesses :: "identity_id list"
  ws_signing_principal :: signing_principal
  ws_event :: event_id
  ws_seq :: u64

record endpoint_advertisement =
  ea_endpoints :: "public_key list"
  ea_signing_principal :: signing_principal
  ea_event :: event_id
  ea_seq :: u64

record ledger_state =
  ls_declared_kind :: "declared_kind option"
  ls_root :: "ledger_root option"
  ls_ledger :: "ledger_id option"
  ls_head :: "head option"
  ls_principals :: "(identity_id, principal) btree_map"
  ls_invitations :: "(event_id, invitation) btree_map"
  ls_witness_endpoints :: "public_key list"
  ls_witness_set :: "witness_set option"
  ls_endpoint_advertisement :: "endpoint_advertisement option"
  ls_trust :: "(event_id, attestation) btree_map"
  ls_profile :: "profile option"

definition empty_state :: ledger_state where
  "empty_state = \<lparr>ls_declared_kind = None, ls_root = None, ls_ledger = None, ls_head = None,
     ls_principals = [], ls_invitations = [], ls_witness_endpoints = [], ls_witness_set = None,
     ls_endpoint_advertisement = None, ls_trust = [], ls_profile = None\<rparr>"

section \<open>Queries\<close>

definition is_empty :: "ledger_state \<Rightarrow> bool" where
  "is_empty s \<longleftrightarrow> ls_head s = None"

definition root_identity :: "ledger_state \<Rightarrow> identity_id option" where
  "root_identity s =
     (case ls_root s of
        None \<Rightarrow> None
      | Some (Raw _ _) \<Rightarrow> ls_ledger s
      | Some (Identity founder _) \<Rightarrow> Some founder)"

definition next_seq :: "ledger_state \<Rightarrow> u64" where
  "next_seq s = (case ls_head s of Some h \<Rightarrow> hd_seq h + 1 | None \<Rightarrow> 0)"

definition witness_identities :: "ledger_state \<Rightarrow> identity_id list" where
  "witness_identities s = (case ls_witness_set s of Some w \<Rightarrow> ws_witnesses w | None \<Rightarrow> [])"

definition endpoints :: "ledger_state \<Rightarrow> public_key list" where
  "endpoints s =
     (case ls_endpoint_advertisement s of Some a \<Rightarrow> ea_endpoints a | None \<Rightarrow> [])"

definition unrevoked :: "ledger_state \<Rightarrow> identity_id \<Rightarrow> (event_id \<times> attestation) option" where
  "unrevoked s subject = bt_find (\<lambda>_ a. at_subject a = subject \<and> \<not> is_revoked a) (ls_trust s)"

definition trusts :: "ledger_state \<Rightarrow> identity_id \<Rightarrow> bool" where
  "trusts s subject \<longleftrightarrow> unrevoked s subject \<noteq> None"

definition signing_principal_for :: "ledger_state \<Rightarrow> public_key \<Rightarrow> signing_principal option" where
  "signing_principal_for s key =
     map_option (\<lambda>(ident, _). \<lparr>sp_identity = ident, sp_key = key\<rparr>)
       (bt_find (\<lambda>_ p. pr_role p = Controller \<and> pr_active_key p = key) (ls_principals s))"

definition authorized_signer :: "ledger_state \<Rightarrow> public_key \<Rightarrow> bool" where
  "authorized_signer s key \<longleftrightarrow> signing_principal_for s key \<noteq> None"

definition push_key :: "(identity_id \<times> principal \<Rightarrow> bool) \<Rightarrow> public_key list \<Rightarrow>
    identity_id \<times> principal \<Rightarrow> public_key list" where
  "push_key keep keys e =
     (if keep e \<and> pr_role (snd e) = Controller \<and> pr_active_key (snd e) \<notin> set keys
      then keys @ [pr_active_key (snd e)] else keys)"

definition controller_keys :: "ledger_state \<Rightarrow> public_key list" where
  "controller_keys s = foldl (push_key (\<lambda>_. True)) [] (ls_principals s)"

definition controller_keys_without :: "ledger_state \<Rightarrow> identity_id \<Rightarrow> public_key list" where
  "controller_keys_without s target = foldl (push_key (\<lambda>e. fst e \<noteq> target)) [] (ls_principals s)"

definition is_raw_root :: "ledger_state \<Rightarrow> identity_id \<Rightarrow> bool" where
  "is_raw_root s target \<longleftrightarrow>
     (case ls_root s of None \<Rightarrow> False | Some r \<Rightarrow> is_raw r) \<and> Some target = root_identity s"

definition open_invitation_of :: "ledger_state \<Rightarrow> identity_id \<Rightarrow> (event_id \<times> invitation) option" where
  "open_invitation_of s invitee =
     bt_find (\<lambda>_ i. iv_invitee i = invitee \<and> iv_status i = Open) (ls_invitations s)"

section \<open>Effects, reasons, violations\<close>

record seed =
  sd_declared_kind :: declared_kind
  sd_root :: ledger_root
  sd_principals :: "(identity_id, principal) btree_map"

datatype effect =
    ESeed seed
  | EWitnessEndpoints "public_key list"
  | EWitnessSet "identity_id list" signing_principal
  | EEndpoints "public_key list" signing_principal
  | EAttest identity_id signing_principal
  | ERevoke event_id
  | EInvite invitation
  | EAdmit event_id identity_id principal
  | ERemove identity_id "event_id option" bool
  | EProfile "bytes option" "bytes option" "bytes option" signing_principal

datatype reason =
    Wire wire_error
  | WrongSeq u64 u64
  | WrongLedger ledger_id ledger_id
  | BrokenPrevLink event_id event_id
  | BackwardsTimestamp u64 u64
  | PayloadNotAllowed u64 string
  | KeyNotAPoint string
  | UnauthorizedSigner public_key
  | EventBadSignature
  | DuplicateAttestation identity_id event_id
  | SelfAttestation identity_id
  | UnknownRevocationTarget event_id
  | AlreadyRevoked event_id event_id
  | DuplicateInvitation identity_id event_id
  | PrincipalKeyMismatch identity_id public_key public_key
  | AcceptanceForAnotherLedger identity_id ledger_id
  | UnknownInvitation event_id
  | InvitationNotOpen event_id invitation_status
  | AcceptanceInviteeMismatch identity_id identity_id
  | AcceptanceInviteeKeyMismatch public_key public_key
  | DuplicatePrincipalKey public_key identity_id
  | RootNotRemovable identity_id
  | UnknownRemovalTarget identity_id
  | LastController identity_id
  | RootNotDemotable identity_id
  | DemotesLastController identity_id

fun reason_code :: "reason \<Rightarrow> string" where
  "reason_code (Wire e) = wire_code e"
| "reason_code (WrongSeq _ _) = ''wrong_seq''"
| "reason_code (WrongLedger _ _) = ''wrong_ledger''"
| "reason_code (BrokenPrevLink _ _) = ''broken_prev_link''"
| "reason_code (BackwardsTimestamp _ _) = ''backwards_timestamp''"
| "reason_code (PayloadNotAllowed _ _) = ''payload_not_allowed''"
| "reason_code (KeyNotAPoint _) = ''invalid_public_key''"
| "reason_code (UnauthorizedSigner _) = ''unauthorized_signer''"
| "reason_code EventBadSignature = ''bad_signature''"
| "reason_code (DuplicateAttestation _ _) = ''duplicate_attestation''"
| "reason_code (SelfAttestation _) = ''self_attestation''"
| "reason_code (UnknownRevocationTarget _) = ''unknown_revocation_target''"
| "reason_code (AlreadyRevoked _ _) = ''already_revoked''"
| "reason_code (DuplicateInvitation _ _) = ''duplicate_invitation''"
| "reason_code (PrincipalKeyMismatch _ _ _) = ''principal_key_mismatch''"
| "reason_code (AcceptanceForAnotherLedger _ _) = ''acceptance_for_another_ledger''"
| "reason_code (UnknownInvitation _) = ''unknown_invitation''"
| "reason_code (InvitationNotOpen _ _) = ''invitation_not_open''"
| "reason_code (AcceptanceInviteeMismatch _ _) = ''acceptance_invitee_mismatch''"
| "reason_code (AcceptanceInviteeKeyMismatch _ _) = ''acceptance_invitee_key_mismatch''"
| "reason_code (DuplicatePrincipalKey _ _) = ''duplicate_principal_key''"
| "reason_code (RootNotRemovable _) = ''root_not_removable''"
| "reason_code (UnknownRemovalTarget _) = ''unknown_removal_target''"
| "reason_code (LastController _) = ''last_controller''"
| "reason_code (RootNotDemotable _) = ''root_not_demotable''"
| "reason_code (DemotesLastController _) = ''demotes_last_controller''"

record violation =
  vi_seq :: u64
  vi_reason :: reason

definition violation_code :: "violation \<Rightarrow> string" where
  "violation_code v = reason_code (vi_reason v)"

type_synonym 'a fold_result = "(reason, 'a) outcome"

end
