(* ===== verification/Ledger_Fold.thy ===== *)
theory Ledger_Fold
  imports Ledger_State
begin

text \<open>
  The fold of \<open>crates/mabel-core/src/fold.rs\<close>: \<open>apply\<close> checks one received
  \<open>SignedEvent\<close> against the state before it and returns the state after it, and
  \<open>fold\<close> runs it over a sequence. Rust's \<open>apply\<close> takes \<open>&mut self\<close> and writes to it
  only in \<open>commit\<close>, after the last check; here it returns the new state, and
  \<open>Err\<close> carries none. \<open>next_seq\<close> adds in 64 bits and wraps, as a release build
  does; an \<open>expect\<close> is \<open>Panic\<close>.
\<close>

section \<open>Reading validated fields\<close>

definition id_expect :: "bytes \<Rightarrow> identity_id fold_result" where
  "id_expect bs = (case id_from_slice bs of Ok i \<Rightarrow> Ok i | _ \<Rightarrow> Panic)"

definition public_key_of :: "env \<Rightarrow> bytes \<Rightarrow> string \<Rightarrow> public_key fold_result" where
  "public_key_of E bs field =
     (if length bs \<noteq> ID_BYTES then Panic
      else if key_is_point E bs then Ok bs
      else Err (KeyNotAPoint field))"

definition fold_verify :: "env \<Rightarrow> public_key \<Rightarrow> bytes \<Rightarrow> bytes \<Rightarrow> unit fold_result" where
  "fold_verify E key input signature =
     (if length signature \<noteq> SIG_BYTES then Panic
      else if ed_verify E key input signature then Ok ()
      else Err EventBadSignature)"

definition set_name :: "bytes \<Rightarrow> bytes option" where
  "set_name v = (if v = [] then None else Some v)"

fun payload_name :: "pb_payload \<Rightarrow> string" where
  "payload_name (PInception _) = ''Inception''"
| "payload_name (PWitnessConfig _) = ''WitnessConfig''"
| "payload_name (PTrustAttestation _) = ''TrustAttestation''"
| "payload_name (PTrustRevocation _) = ''TrustRevocation''"
| "payload_name (PMembershipInvitation _) = ''MembershipInvitation''"
| "payload_name (PMembershipAcceptance _) = ''MembershipAcceptance''"
| "payload_name (PMembershipRemoval _) = ''MembershipRemoval''"
| "payload_name (PProfileUpdate _) = ''ProfileUpdate''"
| "payload_name (PEndpointAdvertisement _) = ''EndpointAdvertisement''"
| "payload_name (PWitnessSet _) = ''WitnessSet''"

definition check_position :: "u64 \<Rightarrow> pb_payload \<Rightarrow> unit fold_result" where
  "check_position seq payload =
     (let is_inception = (case payload of PInception _ \<Rightarrow> True | _ \<Rightarrow> False) in
      if is_inception = (seq = 0) then Ok ()
      else Err (PayloadNotAllowed seq (payload_name payload)))"

section \<open>Semantic rules\<close>

definition seed_from_inception :: "env \<Rightarrow> event_id \<Rightarrow> pb_inception \<Rightarrow> effect fold_result" where
  "seed_from_inception E i inception =
     obind (expect (declared_kind_try_from (in_kind inception))) (\<lambda>declared_kind.
     obind
       (case in_root inception of
          Some (RawRoot raw) \<Rightarrow>
            obind (public_key_of E (rr_active_key raw) ''RawRoot.active_key'') (\<lambda>active_key.
            if length (rr_reserve_commit raw) \<noteq> ID_BYTES then Panic
            else Ok (Raw active_key (rr_reserve_commit raw), i, active_key))
        | Some (IdentityRoot q) \<Rightarrow>
            obind (id_expect (ir_founder q)) (\<lambda>founder.
            obind (public_key_of E (ir_founder_key q) ''IdentityRoot.founder_key'') (\<lambda>founder_key.
            Ok (Identity founder founder_key, founder, founder_key)))
        | None \<Rightarrow> Err (Wire (MissingOneof ''Inception'' ''root'')))
       (\<lambda>(root, ident, active_key).
          Ok (ESeed \<lparr>sd_declared_kind = declared_kind, sd_root = root,
            sd_principals = bt_insert ident \<lparr>pr_role = Controller, pr_active_key = active_key\<rparr> []\<rparr>)))"

definition check_demotion :: "ledger_state \<Rightarrow> identity_id \<Rightarrow> unit fold_result" where
  "check_demotion s target =
     (if is_raw_root s target then Err (RootNotDemotable target)
      else if controller_keys_without s target = [] then Err (DemotesLastController target)
      else Ok ())"

definition check_removal :: "ledger_state \<Rightarrow> identity_id \<Rightarrow> effect fold_result" where
  "check_removal s target =
     (if is_raw_root s target then Err (RootNotRemovable target)
      else
        (let invitation = map_option fst (open_invitation_of s target);
             principal = bt_get (ls_principals s) target in
         if invitation = None \<and> principal = None then Err (UnknownRemovalTarget target)
         else if (case principal of None \<Rightarrow> False | Some p \<Rightarrow> pr_role p = Controller)
              \<and> controller_keys_without s target = [] then Err (LastController target)
         else Ok (ERemove target invitation (principal \<noteq> None))))"

definition check_invitation :: "env \<Rightarrow> ledger_state \<Rightarrow> pb_invitation \<Rightarrow> effect fold_result" where
  "check_invitation E s v =
     obind (id_expect (mi_invitee v)) (\<lambda>invitee.
     obind (public_key_of E (mi_invitee_key v) ''MembershipInvitation.invitee_key'') (\<lambda>invitee_key.
     obind (expect (role_try_from (mi_role v))) (\<lambda>role.
     case open_invitation_of s invitee of
       Some (event, _) \<Rightarrow> Err (DuplicateInvitation invitee event)
     | None \<Rightarrow>
         (case bt_get (ls_principals s) invitee of
            Some p \<Rightarrow>
              if pr_active_key p \<noteq> invitee_key then
                Err (PrincipalKeyMismatch invitee (pr_active_key p) invitee_key)
              else Ok (EInvite \<lparr>iv_invitee = invitee, iv_invitee_key = invitee_key, iv_role = role,
                     iv_status = Open\<rparr>)
          | None \<Rightarrow> Ok (EInvite \<lparr>iv_invitee = invitee, iv_invitee_key = invitee_key, iv_role = role,
                     iv_status = Open\<rparr>)))))"

definition admit :: "ledger_state \<Rightarrow> event_id \<Rightarrow> invitation \<Rightarrow> effect fold_result" where
  "admit s event invitation =
     (case bt_find (\<lambda>i p. pr_active_key p = iv_invitee_key invitation \<and> i \<noteq> iv_invitee invitation)
             (ls_principals s) of
        Some (held_by, _) \<Rightarrow> Err (DuplicatePrincipalKey (iv_invitee_key invitation) held_by)
      | None \<Rightarrow>
          obind
            (if (case bt_get (ls_principals s) (iv_invitee invitation) of
                   None \<Rightarrow> False | Some held \<Rightarrow> pr_role held = Controller)
                \<and> iv_role invitation \<noteq> Controller
             then check_demotion s (iv_invitee invitation) else Ok ())
            (\<lambda>_. Ok (EAdmit event (iv_invitee invitation)
               \<lparr>pr_role = iv_role invitation, pr_active_key = iv_invitee_key invitation\<rparr>)))"

definition check_acceptance :: "env \<Rightarrow> ledger_state \<Rightarrow> pb_membership_acceptance \<Rightarrow> effect fold_result" where
  "check_acceptance E s m =
     obind (expect (decode_acceptance E (ma_acceptance m))) (\<lambda>blob.
     obind (ok_or (ls_ledger s) (Wire NonInceptionAtSeqZero)) (\<lambda>ledger.
     obind (id_expect (ac_ledger blob)) (\<lambda>named_ledger.
     if named_ledger \<noteq> ledger then Err (AcceptanceForAnotherLedger named_ledger ledger)
     else
       obind (id_expect (ac_invitation_event blob)) (\<lambda>event.
       obind (ok_or (bt_get (ls_invitations s) event) (UnknownInvitation event)) (\<lambda>invitation.
       if iv_status invitation \<noteq> Open then Err (InvitationNotOpen event (iv_status invitation))
       else
         obind (id_expect (ac_invitee blob)) (\<lambda>named_invitee.
         if named_invitee \<noteq> iv_invitee invitation then
           Err (AcceptanceInviteeMismatch named_invitee (iv_invitee invitation))
         else
           obind (public_key_of E (ac_invitee_key blob) ''Acceptance.invitee_key'') (\<lambda>named_key.
           if named_key \<noteq> iv_invitee_key invitation then
             Err (AcceptanceInviteeKeyMismatch named_key (iv_invitee_key invitation))
           else admit s event invitation)))))))"

definition check_semantics ::
  "env \<Rightarrow> ledger_state \<Rightarrow> event_id \<Rightarrow> pb_payload \<Rightarrow> signing_principal option \<Rightarrow> effect fold_result" where
  "check_semantics E s i payload signer =
     (case payload of
        PInception inception \<Rightarrow> seed_from_inception E i inception
      | PWitnessConfig ws \<Rightarrow>
          obind (try_map (\<lambda>w. public_key_of E w ''WitnessConfig.witnesses'') ws) (\<lambda>endpoints.
          Ok (EWitnessEndpoints endpoints))
      | PWitnessSet ws \<Rightarrow>
          obind (try_map id_expect ws) (\<lambda>witnesses.
          obind (expect signer) (\<lambda>signing_principal. Ok (EWitnessSet witnesses signing_principal)))
      | PEndpointAdvertisement es \<Rightarrow>
          obind (try_map (\<lambda>e. public_key_of E e ''EndpointAdvertisement.endpoints'') es) (\<lambda>endpoints.
          obind (expect signer) (\<lambda>signing_principal. Ok (EEndpoints endpoints signing_principal)))
      | PTrustAttestation t \<Rightarrow>
          obind (id_expect t) (\<lambda>subject.
          if Some subject = ls_ledger s then Err (SelfAttestation subject)
          else case unrevoked s subject of
              Some (event, _) \<Rightarrow> Err (DuplicateAttestation subject event)
            | None \<Rightarrow> obind (expect signer) (\<lambda>signing_principal. Ok (EAttest subject signing_principal)))
      | PTrustRevocation t \<Rightarrow>
          obind (id_expect t) (\<lambda>target.
          case bt_get (ls_trust s) target of
            None \<Rightarrow> Err (UnknownRevocationTarget target)
          | Some attestation \<Rightarrow>
              (case at_revoked_by attestation of
                 Some revoked_by \<Rightarrow> Err (AlreadyRevoked target revoked_by)
               | None \<Rightarrow> Ok (ERevoke target)))
      | PMembershipInvitation v \<Rightarrow> check_invitation E s v
      | PMembershipAcceptance m \<Rightarrow> check_acceptance E s m
      | PMembershipRemoval t \<Rightarrow> obind (id_expect t) (check_removal s)
      | PProfileUpdate p \<Rightarrow>
          obind (expect signer) (\<lambda>signing_principal.
          Ok (EProfile (set_name (pu_display_name p)) (set_name (pu_hostname p))
                (set_name (pu_email p)) signing_principal)))"

section \<open>Committing an effect\<close>

definition set_status ::
  "invitation_status \<Rightarrow> event_id \<Rightarrow> ledger_state \<Rightarrow> ledger_state fold_result" where
  "set_status st event s =
     obind (expect (bt_get (ls_invitations s) event)) (\<lambda>i.
       Ok (s\<lparr>ls_invitations := bt_insert event (i\<lparr>iv_status := st\<rparr>) (ls_invitations s)\<rparr>))"

definition commit_effect :: "ledger_state \<Rightarrow> u64 \<Rightarrow> event_id \<Rightarrow> effect \<Rightarrow> ledger_state fold_result" where
  "commit_effect s seq i eff =
     (case eff of
        ESeed sd \<Rightarrow>
          Ok (s\<lparr>ls_declared_kind := Some (sd_declared_kind sd), ls_root := Some (sd_root sd),
               ls_ledger := Some i, ls_principals := sd_principals sd\<rparr>)
      | EWitnessEndpoints eps \<Rightarrow> Ok (s\<lparr>ls_witness_endpoints := eps\<rparr>)
      | EWitnessSet witnesses sp \<Rightarrow>
          Ok (s\<lparr>ls_witness_set := Some \<lparr>ws_witnesses = witnesses, ws_signing_principal = sp,
               ws_event = i, ws_seq = seq\<rparr>\<rparr>)
      | EEndpoints eps sp \<Rightarrow>
          Ok (s\<lparr>ls_endpoint_advertisement := Some \<lparr>ea_endpoints = eps,
               ea_signing_principal = sp, ea_event = i, ea_seq = seq\<rparr>\<rparr>)
      | EAttest subject sp \<Rightarrow>
          Ok (s\<lparr>ls_trust := bt_insert i \<lparr>at_subject = subject, at_signing_principal = sp,
               at_revoked_by = None\<rparr> (ls_trust s)\<rparr>)
      | ERevoke target \<Rightarrow>
          obind (expect (bt_get (ls_trust s) target)) (\<lambda>a.
          Ok (s\<lparr>ls_trust := bt_insert target (a\<lparr>at_revoked_by := Some i\<rparr>) (ls_trust s)\<rparr>))
      | EInvite invitation \<Rightarrow>
          Ok (s\<lparr>ls_invitations := bt_insert i invitation (ls_invitations s)\<rparr>)
      | EAdmit event invitee p \<Rightarrow>
          obind (set_status Accepted event s) (\<lambda>s'.
          Ok (s'\<lparr>ls_principals := bt_insert invitee p (ls_principals s')\<rparr>))
      | ERemove target invitation was_principal \<Rightarrow>
          obind (case invitation of Some event \<Rightarrow> set_status Cancelled event s | None \<Rightarrow> Ok s) (\<lambda>s'.
          Ok (if was_principal then s'\<lparr>ls_principals := bt_remove target (ls_principals s')\<rparr> else s'))
      | EProfile display_name hostname email sp \<Rightarrow>
          Ok (s\<lparr>ls_profile := Some \<lparr>pf_display_name = display_name, pf_hostname = hostname,
               pf_email = email, pf_signing_principal = sp, pf_event = i, pf_seq = seq\<rparr>\<rparr>))"

definition commit :: "ledger_state \<Rightarrow> u64 \<Rightarrow> event_id \<Rightarrow> u64 \<Rightarrow> effect \<Rightarrow> ledger_state fold_result" where
  "commit s seq i timestamp_ms eff =
     obind (commit_effect s seq i eff) (\<lambda>s'.
     Ok (s'\<lparr>ls_head := Some \<lparr>hd_seq = seq, hd_event_id = i, hd_timestamp_ms = timestamp_ms\<rparr>\<rparr>))"

section \<open>Applying an event\<close>

definition check_chain :: "ledger_state \<Rightarrow> pb_event_body \<Rightarrow> unit fold_result" where
  "check_chain s body =
     (case ls_head s of
        None \<Rightarrow> Ok ()
      | Some h \<Rightarrow>
          obind (id_expect (eb_ledger body)) (\<lambda>ledger.
          obind (expect (ls_ledger s)) (\<lambda>expected.
          if ledger \<noteq> expected then Err (WrongLedger expected ledger)
          else
            obind (id_expect (eb_prev body)) (\<lambda>prev.
            if prev \<noteq> hd_event_id h then Err (BrokenPrevLink (hd_event_id h) prev)
            else if eb_timestamp_ms body < hd_timestamp_ms h then
              Err (BackwardsTimestamp (hd_timestamp_ms h) (eb_timestamp_ms body))
            else Ok ()))))"

definition find_signer ::
  "ledger_state \<Rightarrow> u64 \<Rightarrow> public_key \<Rightarrow> signing_principal option fold_result" where
  "find_signer s seq author_key =
     (if seq = 0 then Ok None
      else obind (ok_or (signing_principal_for s author_key) (UnauthorizedSigner author_key))
             (\<lambda>sp. Ok (Some sp)))"

definition apply_event :: "env \<Rightarrow> ledger_state \<Rightarrow> bytes \<Rightarrow> ledger_state fold_result" where
  "apply_event E s event =
     (let seq = next_seq s in
      obind (map_err Wire (signed_event E event)) (\<lambda>_.
      obind (expect (decode_signed_event E event)) (\<lambda>signed.
      obind (expect (decode_event_body E (se_body signed))) (\<lambda>body.
      obind (expect (eb_payload body)) (\<lambda>payload.
      let i = event_id E (se_body signed) in
      if eb_seq body \<noteq> seq then Err (WrongSeq seq (eb_seq body))
      else
        obind (check_chain s body) (\<lambda>_.
        obind (check_position seq payload) (\<lambda>_.
        obind (public_key_of E (eb_author_key body) ''EventBody.author_key'') (\<lambda>author_key.
        obind (find_signer s seq author_key) (\<lambda>signer.
        obind (fold_verify E author_key (sign_input (se_body signed)) (se_signature signed)) (\<lambda>_.
        obind (check_semantics E s i payload signer) (\<lambda>eff.
        commit s seq i (eb_timestamp_ms body) eff)))))))))))"

fun fold_from :: "env \<Rightarrow> ledger_state \<Rightarrow> bytes list \<Rightarrow> (ledger_state \<times> violation option) fold_result" where
  "fold_from E s [] = Ok (s, None)"
| "fold_from E s (event # events) =
     (case apply_event E s event of
        Ok s' \<Rightarrow> fold_from E s' events
      | Err r \<Rightarrow> Ok (s, Some \<lparr>vi_seq = next_seq s, vi_reason = r\<rparr>)
      | Panic \<Rightarrow> Panic)"

definition fold_events :: "env \<Rightarrow> bytes list \<Rightarrow> (ledger_state \<times> violation option) fold_result" where
  "fold_events E events = fold_from E empty_state events"

end
