(* ===== verification/Scan_Facts.thy ===== *)
theory Scan_Facts
  imports Validate
begin

unbundle bit_operations_syntax

text \<open>
  What a successful scan means. The scanner accepts a byte string exactly when it
  is the canonical encoding of its records, in an order the descriptor admits,
  with every value passing its field's rule; the records it returns are then
  those. Reading a scan back therefore never needs the bytes, and two byte strings
  that scan to the same records are equal.
\<close>

section \<open>The declarative form of a scan\<close>

definition entry_ok :: "env \<Rightarrow> validator \<Rightarrow> message_descriptor \<Rightarrow> nat \<Rightarrow> nat \<times> wvalue \<Rightarrow> bool" where
  "entry_ok E V D depth e =
     (case md_field D (fst e) of
        None \<Rightarrow> False
      | Some f \<Rightarrow>
          (case snd e of
             VVarint v \<Rightarrow> wire_kind_of (fd_kind f) = WVarint \<and> check_varint f (md_name D) v = Ok ()
           | VBytes b \<Rightarrow>
               wire_kind_of (fd_kind f) = WLen \<and> check_bytes E V f (md_name D) b depth = Ok ()))"

definition slot_ok :: "message_descriptor \<Rightarrow> records \<Rightarrow> nat \<Rightarrow> nat \<Rightarrow> bool" where
  "slot_ok D pre last_number k =
     (case md_field D k of
        None \<Rightarrow> False
      | Some f \<Rightarrow>
          (k \<in> fst ` set pre \<longrightarrow> is_repeated f \<and> k = last_number) \<and> last_number \<le> k
          \<and> (case fd_cardinality f of Repeated _ mx _ \<Rightarrow> count_field pre k < mx | _ \<Rightarrow> True))"

fun order_from :: "message_descriptor \<Rightarrow> records \<Rightarrow> nat \<Rightarrow> records \<Rightarrow> bool" where
  "order_from D pre last_number [] = True"
| "order_from D pre last_number (e # es) =
     (slot_ok D pre last_number (fst e) \<and> order_from D (pre @ [e]) (fst e) es)"

definition small_fields :: "message_descriptor \<Rightarrow> bool" where
  "small_fields D = list_all (\<lambda>f. fd_number f < 2 ^ 29) (md_fields D)"

definition fits :: "nat \<times> wvalue \<Rightarrow> bool" where
  "fits e = (case snd e of VVarint _ \<Rightarrow> True | VBytes b \<Rightarrow> length b < 2 ^ 64)"

definition value_bytes :: "wvalue \<Rightarrow> bytes" where
  "value_bytes v =
     (case v of VVarint x \<Rightarrow> varint_of (unat x) | VBytes b \<Rightarrow> varint_of (length b) @ b)"

definition value_kind :: "wvalue \<Rightarrow> wire_kind" where
  "value_kind v = (case v of VVarint _ \<Rightarrow> WVarint | VBytes _ \<Rightarrow> WLen)"

section \<open>Record keys\<close>

lemma enc_record_split:
  "enc_record (k, v) = varint_of (8 * k + wire_kind_number (value_kind v)) @ value_bytes v"
  by (cases v) (auto simp: value_bytes_def value_kind_def)

lemma unat_key_number: "unat (drop_bit 3 (key :: u64)) = unat key div 8"
  by (simp add: drop_bit_eq_div unat_div)

lemma unat_key_wire: "unat ((key :: u64) AND 7) = unat key mod 8"
proof -
  have "unat (key AND 7) = unat key AND mask 3"
    by (simp add: unsigned_and_eq mask_eq_exp_minus_1)
  also have "\<dots> = unat key mod 8" by (simp add: take_bit_eq_mask [symmetric] take_bit_eq_mod)
  finally show ?thesis .
qed

lemma field_number_eq:
  "field_number key = (if unat key div 8 < 2 ^ 32 then unat key div 8 else 2 ^ 32 - 1)"
  by (simp add: field_number_def unat_key_number Let_def)

lemma wire_type_eq: "wire_type key = unat key mod 8"
  by (simp add: wire_type_def unat_key_wire)

lemma key_split:
  assumes "field_number key = k" and "k < 2 ^ 29"
  shows "unat key = 8 * k + wire_type key"
  using assms by (auto simp: field_number_eq wire_type_eq split: if_splits)

lemma key_join:
  assumes "k < 2 ^ 29" and "w < 8"
  shows "field_number (word_of_nat (8 * k + w)) = k" and "wire_type (word_of_nat (8 * k + w)) = w"
proof -
  have "unat (word_of_nat (8 * k + w) :: u64) = 8 * k + w"
    by (rule unat_word_of_nat64) (use assms in simp)
  then show "field_number (word_of_nat (8 * k + w)) = k"
    and "wire_type (word_of_nat (8 * k + w)) = w"
    using assms by (simp_all add: field_number_eq wire_type_eq)
qed

lemma md_field_small: "small_fields D \<Longrightarrow> md_field D k = Some f \<Longrightarrow> k < 2 ^ 29"
  by (auto simp: small_fields_def md_field_def list_all_iff dest!: find_Some_mem)

lemma md_field_number: "md_field D k = Some f \<Longrightarrow> fd_number f = k \<and> f \<in> set (md_fields D)"
  by (auto simp: md_field_def dest: find_Some_mem)

section \<open>One value\<close>

lemma read_value_sound:
  assumes "read_value E V D f depth bs = Ok (v, rest)" and "md_field D k = Some f"
  shows "bs = value_bytes v @ rest" and "entry_ok E V D depth (k, v)"
    and "value_kind v = wire_kind_of (fd_kind f)" and "fits (k, v)"
proof -
  have len: "unat (l :: u64) < 2 ^ 64" for l
    using unsigned_less [of l, where ?'a = nat] by simp
  from assms show "bs = value_bytes v @ rest" "entry_ok E V D depth (k, v)"
    "value_kind v = wire_kind_of (fd_kind f)" "fits (k, v)"
    using len
    by (auto simp: read_value_def value_bytes_def value_kind_def entry_ok_def fits_def
        split: wire_kind.splits if_splits dest!: read_varint_sound)
qed

lemma read_value_complete:
  assumes "entry_ok E V D depth (k, v)" and "md_field D k = Some f" and "fits (k, v)"
  shows "read_value E V D f depth (value_bytes v @ rest) = Ok (v, rest)"
proof (cases v)
  case (VVarint x)
  then show ?thesis
    using assms read_varint_complete [of "unat x" "md_name D" rest]
      unsigned_less [of x, where ?'a = nat]
    by (auto simp: read_value_def value_bytes_def entry_ok_def)
next
  case (VBytes b)
  then show ?thesis
    using assms read_varint_complete [of "length b" "md_name D" "b @ rest"]
      unat_word_of_nat64 [of "length b"]
    by (auto simp: read_value_def value_bytes_def entry_ok_def fits_def)
qed

lemma check_order_Ok:
  assumes "md_field D k = Some f"
  shows "check_order D f pre last_number k wire = Ok () \<longleftrightarrow>
    slot_ok D pre last_number k \<and> wire = wire_kind_number (wire_kind_of (fd_kind f))"
  using assms by (auto simp: check_order_def slot_ok_def Let_def split: cardinality.splits)

lemma check_order_not_Panic [simp]: "check_order D f pre last_number k wire \<noteq> Panic"
  by (auto simp: check_order_def Let_def split: cardinality.splits)

section \<open>The whole scan\<close>

lemma scan_loop_step:
  assumes "bs \<noteq> []"
  shows "scan_loop E V D depth pre last_number bs = Ok ents \<longleftrightarrow>
    (\<exists>key bs1 f v bs2. read_varint (md_name D) bs = Ok (key, bs1)
       \<and> md_field D (field_number key) = Some f
       \<and> check_order D f pre last_number (field_number key) (wire_type key) = Ok ()
       \<and> read_value E V D f depth bs1 = Ok (v, bs2)
       \<and> scan_loop E V D depth (pre @ [(field_number key, v)]) (field_number key) bs2 = Ok ents)"
  using assms by (subst scan_loop.simps) (auto simp: Let_def)

lemma scan_loop_sound:
  assumes "scan_loop E V D depth pre last_number bs = Ok ents" and "small_fields D"
  shows "\<exists>new. ents = pre @ new \<and> bs = enc_records new \<and> order_from D pre last_number new
    \<and> list_all (\<lambda>e. entry_ok E V D depth e \<and> fits e) new"
  using assms
proof (induction "length bs" arbitrary: bs pre last_number rule: less_induct)
  case less
  show ?case
  proof (cases "bs = []")
    case True
    with less.prems show ?thesis by (auto simp: scan_loop.simps)
  next
    case False
    then obtain key bs1 f v bs2 where
      key: "read_varint (md_name D) bs = Ok (key, bs1)"
      and f: "md_field D (field_number key) = Some f"
      and ord: "check_order D f pre last_number (field_number key) (wire_type key) = Ok ()"
      and val: "read_value E V D f depth bs1 = Ok (v, bs2)"
      and rec: "scan_loop E V D depth (pre @ [(field_number key, v)]) (field_number key) bs2
        = Ok ents"
      using less.prems(1) by (auto simp: scan_loop_step)
    let ?k = "field_number key"
    note sound = read_value_sound [OF val f]
    have "length bs2 < length bs"
      using read_varint_shorter [OF key] read_value_shorter [OF val] by simp
    from less.hyps [OF this rec less.prems(2)] obtain new where
      new: "ents = (pre @ [(?k, v)]) @ new" "bs2 = enc_records new"
        "order_from D (pre @ [(?k, v)]) ?k new"
        "list_all (\<lambda>e. entry_ok E V D depth e \<and> fits e) new"
      by auto
    have "unat key = 8 * ?k + wire_kind_number (value_kind v)"
      using key_split [OF refl md_field_small [OF less.prems(2) f]] ord sound(3) f
      by (simp add: check_order_Ok)
    then have "bs = enc_record (?k, v) @ bs2"
      using read_varint_sound [OF key] sound(1) by (simp add: enc_record_split)
    then show ?thesis
      using new sound ord f by (intro exI [of _ "(?k, v) # new"]) (auto simp: check_order_Ok)
  qed
qed

lemma value_kind_entry:
  "entry_ok E V D depth (k, v) \<Longrightarrow> md_field D k = Some f \<Longrightarrow> value_kind v = wire_kind_of (fd_kind f)"
  by (auto simp: entry_ok_def value_kind_def split: wvalue.splits)

lemma scan_loop_complete:
  assumes "order_from D pre last_number new" and "small_fields D"
    and "list_all (\<lambda>e. entry_ok E V D depth e \<and> fits e) new"
  shows "scan_loop E V D depth pre last_number (enc_records new) = Ok (pre @ new)"
  using assms
proof (induction new arbitrary: pre last_number)
  case Nil
  then show ?case by (simp add: scan_loop.simps)
next
  case (Cons e new)
  obtain k v where e: "e = (k, v)" by force
  with Cons.prems(1) obtain f where f: "md_field D k = Some f"
    by (auto simp: slot_ok_def split: option.splits)
  let ?w = "wire_kind_number (value_kind v)"
  have kw: "k < 2 ^ 29" "?w < 8"
    using md_field_small [OF Cons.prems(2) f] by (auto simp: value_kind_def split: wvalue.splits)
  define key :: u64 where "key = word_of_nat (8 * k + ?w)"
  have split: "field_number key = k" "wire_type key = ?w"
    unfolding key_def using kw by (rule key_join)+
  have "read_varint (md_name D) (enc_records (e # new))
      = Ok (key, value_bytes v @ enc_records new)"
    using kw read_varint_complete [of "8 * k + ?w" "md_name D" "value_bytes v @ enc_records new"]
    by (simp add: e enc_record_split key_def)
  moreover have "check_order D f pre last_number k ?w = Ok ()"
    using Cons.prems(1,3) f value_kind_entry [of E V D depth k v f] by (simp add: check_order_Ok e)
  moreover have "read_value E V D f depth (value_bytes v @ enc_records new) = Ok (v, enc_records new)"
    using Cons.prems(3) f by (intro read_value_complete) (auto simp: e)
  moreover have "scan_loop E V D depth (pre @ [(k, v)]) k (enc_records new) = Ok (pre @ e # new)"
    using Cons.IH [of "pre @ [(k, v)]" k] Cons.prems by (simp add: e)
  moreover have "enc_records (e # new) \<noteq> []"
    by (simp add: e enc_record_split)
  ultimately show ?case
    using f split by (subst scan_loop_step) (auto simp: e)
qed

theorem scan_loop_iff:
  assumes "small_fields D"
  shows "scan_loop E V D depth [] 0 bs = Ok ents \<longleftrightarrow>
    bs = enc_records ents \<and> order_from D [] 0 ents
    \<and> list_all (\<lambda>e. entry_ok E V D depth e \<and> fits e) ents"
  using scan_loop_sound [of E V D depth "[]" 0 bs ents] scan_loop_complete [of D "[]" 0 ents E V depth]
    assms by auto

section \<open>The records of an accepted message, field by field\<close>

text \<open>
  An accepted record list is the concatenation, in the descriptor's order, of the
  records of each field; a field that is not repeated has at most one.
\<close>

definition part :: "records \<Rightarrow> nat \<Rightarrow> records" where
  "part es n = filter (\<lambda>e. fst e = n) es"

lemma count_field_part: "count_field es n = length (part es n)"
  by (simp add: count_field_def part_def)

lemma order_from_sorted:
  "order_from D pre l new \<Longrightarrow> sorted (map fst new) \<and> (\<forall>e\<in>set new. l \<le> fst e)"
proof (induction new arbitrary: pre l)
  case (Cons e new)
  from Cons.prems have "l \<le> fst e" and rest: "order_from D (pre @ [e]) (fst e) new"
    by (auto simp: slot_ok_def split: option.splits)
  with Cons.IH [OF rest] show ?case by fastforce
qed simp

lemma order_from_fields: "order_from D pre l new \<Longrightarrow> \<forall>e\<in>set new. md_field D (fst e) \<noteq> None"
  by (induction new arbitrary: pre l) (auto simp: slot_ok_def split: option.splits)

lemma order_from_once:
  assumes "order_from D pre l new" and "md_field D k = Some f" and "\<not> is_repeated f"
  shows "count_field new k + (if k \<in> fst ` set pre then 1 else 0) \<le> 1"
  using assms(1)
proof (induction new arbitrary: pre l)
  case (Cons e new)
  from Cons.prems have slot: "slot_ok D pre l (fst e)" by simp
  from Cons.IH [of "pre @ [e]" "fst e"] Cons.prems
  have "count_field new k + (if k \<in> fst ` set (pre @ [e]) then 1 else 0) \<le> 1" by simp
  moreover have "k \<notin> fst ` set pre" if "fst e = k"
    using slot assms(2,3) that by (auto simp: slot_ok_def)
  ultimately show ?case
    by (cases "fst e = k") (auto simp: count_field_def)
qed (simp add: count_field_def)

lemma filter_le_all: "\<forall>e\<in>set xs. (n :: nat) < f e \<Longrightarrow> filter (\<lambda>e. f e = n) xs = []"
  by (auto simp: filter_empty_conv)

lemma sorted_parts:
  assumes "sorted (map fst es)" and "sorted_wrt (<) ns" and "fst ` set es \<subseteq> set ns"
  shows "es = concat (map (part es) ns)"
  using assms
proof (induction ns arbitrary: es)
  case (Cons n ns)
  let ?hi = "filter (\<lambda>e. fst e \<noteq> n) es"
  have low: "n \<le> fst e" if "e \<in> set es" for e using Cons.prems(2,3) that by fastforce
  have "es = part es n @ ?hi"
    using Cons.prems(1) low
  proof (induction es)
    case (Cons e es)
    show ?case
    proof (cases "fst e = n")
      case False
      then have "n < fst e" using Cons.prems(2) [of e] by simp
      then have "\<forall>x\<in>set (e # es). n < fst x"
        using Cons.prems(1) by (auto intro: less_le_trans)
      then have "part (e # es) n = []" "filter (\<lambda>e. fst e \<noteq> n) (e # es) = e # es"
        unfolding part_def by (auto simp: filter_empty_conv filter_id_conv)
      then show ?thesis by simp
    qed (use Cons in \<open>auto simp: part_def\<close>)
  qed (simp add: part_def)
  moreover have "?hi = concat (map (part ?hi) ns)"
    using Cons.prems by (intro Cons.IH) (auto simp: sorted_filter)
  moreover have "part ?hi m = part es m" if "m \<in> set ns" for m
    using Cons.prems(2) that by (auto simp: part_def intro!: filter_cong)
  then have "map (part ?hi) ns = map (part es) ns" by simp
  ultimately show ?case by simp
qed (simp add: part_def)

definition ordered_fields :: "message_descriptor \<Rightarrow> bool" where
  "ordered_fields D \<longleftrightarrow> sorted_wrt (<) (map fd_number (md_fields D))"

lemma scan_parts:
  assumes "order_from D [] 0 es" and "ordered_fields D"
  shows "es = concat (map (\<lambda>f. part es (fd_number f)) (md_fields D))"
proof -
  have "fst ` set es \<subseteq> fd_number ` set (md_fields D)"
    using order_from_fields [OF assms(1)] md_field_number by fastforce
  then have "es = concat (map (part es) (map fd_number (md_fields D)))"
    using order_from_sorted [OF assms(1)] assms(2)
    by (intro sorted_parts) (auto simp: ordered_fields_def)
  then show ?thesis by (simp add: comp_def)
qed

lemma get_bytes_part: "get_bytes es n = get_bytes (part es n) n"
  by (induction es n rule: get_bytes.induct) (auto simp: part_def)

lemma get_varint_part: "get_varint es n = get_varint (part es n) n"
  by (induction es n rule: get_varint.induct) (auto simp: part_def)

lemma get_repeated_part: "get_repeated es n = get_repeated (part es n) n"
  by (induction es n rule: get_repeated.induct) (auto simp: part_def)

lemma part_entry: "e \<in> set (part es n) \<Longrightarrow> e \<in> set es \<and> fst e = n"
  by (auto simp: part_def)

lemma single_part:
  assumes "order_from D [] 0 es" and "md_field D n = Some f" and "\<not> is_repeated f"
  shows "part es n = [] \<or> (\<exists>v. part es n = [(n, v)] \<and> (n, v) \<in> set es)"
proof -
  have len: "length (part es n) \<le> 1"
    using order_from_once [OF assms] by (simp add: count_field_part)
  show ?thesis
  proof (cases "part es n")
    case (Cons e r)
    with len have "part es n = [e]" by simp
    with part_entry [of e es n] show ?thesis by (cases e) auto
  qed simp
qed

end
