(* ===== verification/Message_Shapes.thy ===== *)
theory Message_Shapes
  imports Scan_Facts
begin

text \<open>
  From the scanner to the shape of a message. For a descriptor whose fields are
  listed in ascending order, a byte string passes \<open>scan\<close> and \<open>check_cardinality\<close>
  exactly when it is the encoding of one block of records per field, in the
  descriptor's order, each block having the size its cardinality admits and
  values that pass the field's rule; a \<open>oneof\<close> contributes exactly one record.
  Reading a concrete descriptor off this equivalence is then a matter of
  unfolding its field list.
\<close>

section \<open>Blocks of records\<close>

definition value_ok :: "env \<Rightarrow> validator \<Rightarrow> string \<Rightarrow> nat \<Rightarrow> field_descriptor \<Rightarrow> wvalue \<Rightarrow> bool" where
  "value_ok E V msg depth f v =
     (case v of
        VVarint x \<Rightarrow> wire_kind_of (fd_kind f) = WVarint \<and> check_varint f msg x = Ok ()
      | VBytes b \<Rightarrow> wire_kind_of (fd_kind f) = WLen \<and> check_bytes E V f msg b depth = Ok ())"

definition size_ok :: "field_descriptor \<Rightarrow> records \<Rightarrow> bool" where
  "size_ok f p =
     (case fd_cardinality f of
        Forbidden \<Rightarrow> p = []
      | Optional \<Rightarrow> length p \<le> 1
      | Required \<Rightarrow> length p = 1
      | Variant \<Rightarrow> length p \<le> 1
      | Repeated mn mx dist \<Rightarrow> mn \<le> length p \<and> length p \<le> mx
          \<and> (dist \<longrightarrow> distinct (get_repeated p (fd_number f))))"

definition part_ok ::
  "env \<Rightarrow> validator \<Rightarrow> string \<Rightarrow> nat \<Rightarrow> field_descriptor \<Rightarrow> records \<Rightarrow> bool" where
  "part_ok E V msg depth f p \<longleftrightarrow>
     list_all (\<lambda>e. fst e = fd_number f \<and> value_ok E V msg depth f (snd e)) p \<and> size_ok f p"

lemma fits_all: "length (enc_records es) < 2 ^ 64 \<Longrightarrow> list_all fits es"
  by (induction es) (auto simp: fits_def split: wvalue.splits)

lemma entry_ok_value_ok:
  "md_field D (fst e) = Some f \<Longrightarrow> entry_ok E V D depth e = value_ok E V (md_name D) depth f (snd e)"
  by (simp add: entry_ok_def value_ok_def)

lemma md_field_mem:
  assumes "ordered_fields D" and "f \<in> set (md_fields D)"
  shows "md_field D (fd_number f) = Some f"
proof -
  have "distinct (map fd_number (md_fields D))"
    using assms(1) by (auto simp: ordered_fields_def intro: strict_sorted_imp_sorted
        dest: strict_sorted_iff [THEN iffD1])
  then have "inj_on fd_number (set (md_fields D))" by (simp add: distinct_map)
  then show ?thesis
    using assms(2)
    by (cases "md_field D (fd_number f)")
       (auto simp: md_field_def find_None_iff inj_on_eq_iff dest!: find_Some_mem)
qed

section \<open>Reading blocks\<close>

lemma get_bytes_append [simp]:
  "get_bytes (p @ q) n = (case get_bytes p n of None \<Rightarrow> get_bytes q n | Some b \<Rightarrow> Some b)"
  by (induction p n rule: get_bytes.induct) auto

lemma get_varint_append [simp]:
  "get_varint (p @ q) n = (case get_varint p n of None \<Rightarrow> get_varint q n | Some b \<Rightarrow> Some b)"
  by (induction p n rule: get_varint.induct) auto

lemma get_repeated_append [simp]: "get_repeated (p @ q) n = get_repeated p n @ get_repeated q n"
  by (induction p n rule: get_repeated.induct) auto

lemma get_oneof_append [simp]:
  "get_oneof D (p @ q) = (case get_oneof D p of None \<Rightarrow> get_oneof D q | Some b \<Rightarrow> Some b)"
  by (induction D p rule: get_oneof.induct) auto

lemma count_field_append [simp]: "count_field (p @ q) n = count_field p n + count_field q n"
  by (simp add: count_field_def)

lemma get_f_bytes [simp]:
  "get_bytes (f_bytes k b) n = (if k = n \<and> b \<noteq> [] then Some b else None)"
  "get_varint (f_bytes k b) n = None"
  "get_oneof D (f_bytes k b) = (if is_variant D k \<and> b \<noteq> [] then Some (k, b) else None)"
  by (auto simp: f_bytes_def)

lemma get_f_varint [simp]:
  "get_bytes (f_varint k v) n = None"
  "get_varint (f_varint k v) n = (if k = n \<and> v \<noteq> 0 then Some v else None)"
  "get_oneof D (f_varint k v) = None"
  by (auto simp: f_varint_def)

lemma get_f_repeated [simp]:
  "get_repeated (f_repeated k bs) n = (if k = n then bs else [])"
  by (induction bs) (auto simp: f_repeated_def)

section \<open>A scan is its blocks\<close>

lemma order_from_append:
  "order_from D pre l (p @ q) \<longleftrightarrow>
   order_from D pre l p \<and> order_from D (pre @ p) (if p = [] then l else fst (last p)) q"
  by (induction p arbitrary: pre l) auto

lemma order_from_block:
  assumes "md_field D k = Some f" and "list_all (\<lambda>e. fst e = k) p" and "l \<le> k"
    and "k \<in> fst ` set pre \<Longrightarrow> is_repeated f \<and> l = k"
    and "\<not> is_repeated f \<Longrightarrow> length p \<le> 1"
    and "\<And>mn mx dist. fd_cardinality f = Repeated mn mx dist \<Longrightarrow> count_field pre k + length p \<le> mx"
  shows "order_from D pre l p"
  using assms(2-)
proof (induction p arbitrary: pre l)
  case (Cons e p)
  have e: "fst e = k" using Cons.prems(1) by simp
  have "is_repeated f" if "p \<noteq> []" using Cons.prems(4) that by (cases p) auto
  then have rest: "order_from D (pre @ [e]) k p" if "p \<noteq> []"
    using Cons.prems that e by (intro Cons.IH) (auto simp: count_field_def)
  have "slot_ok D pre l k"
    using assms(1) Cons.prems(2,3) Cons.prems(5)
    by (auto simp: slot_ok_def split: cardinality.splits)
  then show ?case using e rest by (cases "p = []") auto
qed simp

lemma size_ok_bounds:
  assumes "size_ok f p"
  shows "\<not> is_repeated f \<Longrightarrow> length p \<le> 1"
    and "fd_cardinality f = Repeated mn mx dist \<Longrightarrow> length p \<le> mx"
  using assms by (auto simp: size_ok_def is_repeated_def split: cardinality.splits)

lemma part_ok_numbers: "part_ok E V msg depth f p \<Longrightarrow> list_all (\<lambda>e. fst e = fd_number f) p"
  by (auto simp: part_ok_def list_all_iff)

lemma order_from_blocks:
  assumes "list_all2 (part_ok E V msg depth) fs ps" and "sorted_wrt (<) (map fd_number fs)"
    and "\<And>f. f \<in> set fs \<Longrightarrow> md_field D (fd_number f) = Some f"
    and "\<And>e f. e \<in> set pre \<Longrightarrow> f \<in> set fs \<Longrightarrow> fst e < fd_number f"
    and "\<And>f. f \<in> set fs \<Longrightarrow> l \<le> fd_number f"
  shows "order_from D pre l (concat ps)"
  using assms
proof (induction fs ps arbitrary: pre l rule: list_all2_induct)
  case (Cons f fs p ps)
  note num = part_ok_numbers [OF Cons.hyps(1)]
  have size: "size_ok f p" using Cons.hyps(1) by (simp add: part_ok_def)
  have fresh: "fd_number f \<notin> fst ` set pre" using Cons.prems(3) by fastforce
  then have "count_field pre (fd_number f) = 0"
    by (force simp: count_field_def filter_empty_conv)
  then have "order_from D pre l p"
    using Cons.prems(2,4) num size_ok_bounds [OF size] fresh
    by (intro order_from_block [of D "fd_number f" f]) auto
  moreover have "order_from D (pre @ p) (if p = [] then l else fst (last p)) (concat ps)"
  proof (rule Cons.IH)
    show "sorted_wrt (<) (map fd_number fs)" using Cons.prems(1) by simp
    show "fst e < fd_number g" if "e \<in> set (pre @ p)" "g \<in> set fs" for e g
      using Cons.prems(1) Cons.prems(3) [of e g] num that by (auto simp: list_all_iff)
    show "(if p = [] then l else fst (last p)) \<le> fd_number g" if "g \<in> set fs" for g
      using Cons.prems(1,4) num that by (auto simp: list_all_iff intro: less_imp_le)
  qed (use Cons.prems in auto)
  ultimately show ?case by (simp add: order_from_append)
qed simp

lemma part_concat:
  assumes "list_all2 (part_ok E V msg depth) fs ps" and "sorted_wrt (<) (map fd_number fs)"
  shows "list_all2 (\<lambda>f p. part (concat ps) (fd_number f) = p) fs ps"
proof -
  have part_app: "part (a @ b) n = part a n @ part b n" for a b n by (simp add: part_def)
  have own: "part p (fd_number f) = p" if "part_ok E V msg depth f p" for f p
    using part_ok_numbers [OF that] by (auto simp: part_def list_all_iff filter_id_conv)
  have other: "part (concat ps) n = []"
    if "list_all2 (part_ok E V msg depth) fs ps" "\<forall>f\<in>set fs. fd_number f \<noteq> n" for fs ps n
    using that
  proof (induction fs ps rule: list_all2_induct)
    case (Cons f fs p ps)
    then show ?case
      using part_ok_numbers [OF Cons.hyps(1)] part_app
      by (auto simp: part_def filter_empty_conv list_all_iff)
  qed (simp add: part_def)
  show ?thesis
    using assms
  proof (induction fs ps rule: list_all2_induct)
    case (Cons f fs p ps)
    have "part (concat ps) (fd_number f) = []"
      using Cons.prems Cons.hyps(2) by (intro other) auto
    moreover have "part p (fd_number g) = []" if "g \<in> set fs" for g
      using Cons.prems part_ok_numbers [OF Cons.hyps(1)] that
      by (auto simp: part_def filter_empty_conv list_all_iff)
    moreover have "list_all2 (\<lambda>f p. part (concat ps) (fd_number f) = p) fs ps"
      using Cons.IH Cons.prems by simp
    ultimately show ?case
      using own [OF Cons.hyps(1)]
      by (auto simp: part_app list_all2_conv_all_nth nth_Cons split: nat.splits)
  qed simp
qed

lemma check_field_cardinality_Ok:
  assumes "order_from D [] 0 es" and "md_field D (fd_number f) = Some f"
  shows "check_field_cardinality \<lparr>sc_descriptor = D, sc_depth = depth, sc_entries = es\<rparr> f = Ok ()
    \<longleftrightarrow> size_ok f (part es (fd_number f))"
proof -
  have "length (part es (fd_number f)) \<le> 1" if "\<not> is_repeated f"
    using single_part [OF assms that] by auto
  then show ?thesis
    by (auto simp: check_field_cardinality_def size_ok_def Let_def scanned_defs is_repeated_def
        count_field_part get_repeated_part [of es] le_Suc_eq split: cardinality.splits)
qed

lemma blocks_iff:
  assumes "small_fields D" and "ordered_fields D" and "length bs < 2 ^ 64"
  shows "scan_loop E V D depth [] 0 bs = Ok es
      \<and> for_each (check_field_cardinality \<lparr>sc_descriptor = D, sc_depth = depth, sc_entries = es\<rparr>)
          (md_fields D) = Ok ()
    \<longleftrightarrow> bs = enc_records es
      \<and> (\<exists>ps. es = concat ps \<and> list_all2 (part_ok E V (md_name D) depth) (md_fields D) ps)"
    (is "?L \<longleftrightarrow> ?R")
proof
  assume ?L
  then have scan: "bs = enc_records es" "order_from D [] 0 es"
    "list_all (\<lambda>e. entry_ok E V D depth e \<and> fits e) es"
    and card: "\<forall>f\<in>set (md_fields D). check_field_cardinality
      \<lparr>sc_descriptor = D, sc_depth = depth, sc_entries = es\<rparr> f = Ok ()"
    by (auto simp: scan_loop_iff [OF assms(1)] for_each_Ok)
  have "part_ok E V (md_name D) depth f (part es (fd_number f))" if f: "f \<in> set (md_fields D)" for f
  proof -
    note mem = md_field_mem [OF assms(2) f]
    have "size_ok f (part es (fd_number f))"
      using card f check_field_cardinality_Ok [OF scan(2) mem, of depth] by blast
    moreover have "fst e = fd_number f \<and> value_ok E V (md_name D) depth f (snd e)"
      if "e \<in> set (part es (fd_number f))" for e
      using part_entry [OF that] scan(3) mem entry_ok_value_ok [of D e f]
      by (auto simp: list_all_iff)
    ultimately show ?thesis by (auto simp: part_ok_def list_all_iff)
  qed
  with scan(1) scan_parts [OF scan(2) assms(2)] show ?R
    by (auto simp: list_all2_map2 list_all2_same
        intro!: exI [of _ "map (\<lambda>f. part es (fd_number f)) (md_fields D)"])
next
  assume ?R
  then obtain ps where bs: "bs = enc_records es" "es = concat ps"
    and ps: "list_all2 (part_ok E V (md_name D) depth) (md_fields D) ps" by blast
  have ord: "order_from D [] 0 es"
    unfolding bs(2) using ps assms(2) md_field_mem [OF assms(2)]
    by (intro order_from_blocks) (auto simp: ordered_fields_def)
  have entries: "list_all (entry_ok E V D depth) es"
    unfolding bs(2) list_all_iff
  proof clarify
    fix k v assume "(k, v) \<in> set (concat ps)"
    then obtain p where p: "p \<in> set ps" "(k, v) \<in> set p" by auto
    then obtain i where "i < length ps" "ps ! i = p" by (auto simp: in_set_conv_nth)
    with ps have "md_fields D ! i \<in> set (md_fields D)"
      and "part_ok E V (md_name D) depth (md_fields D ! i) p"
      by (auto simp: list_all2_conv_all_nth)
    with p(2) show "entry_ok E V D depth (k, v)"
      using md_field_mem [OF assms(2)] entry_ok_value_ok [of D "(k, v)"]
      by (fastforce simp: part_ok_def list_all_iff)
  qed
  have "check_field_cardinality \<lparr>sc_descriptor = D, sc_depth = depth, sc_entries = es\<rparr> f = Ok ()"
    if f: "f \<in> set (md_fields D)" for f
  proof -
    obtain i where i: "i < length (md_fields D)" "md_fields D ! i = f"
      using f by (auto simp: in_set_conv_nth)
    have "part es (fd_number f) = ps ! i" and "part_ok E V (md_name D) depth f (ps ! i)"
      using part_concat [OF ps] assms(2) ps i bs(2)
      by (auto simp: ordered_fields_def list_all2_conv_all_nth)
    then show ?thesis
      using check_field_cardinality_Ok [OF ord md_field_mem [OF assms(2) f]]
      by (simp add: part_ok_def)
  qed
  with bs(1) ord entries fits_all [of es] assms(3) show ?L
    by (auto simp: scan_loop_iff [OF assms(1)] for_each_Ok list_all_iff)
qed

section \<open>Messages without a oneof, and with one\<close>

lemma validate_plain_iff:
  assumes "small_fields D" and "ordered_fields D" and "md_max_bytes D < 2 ^ 64"
    and "md_oneof D = None"
  shows "validate_n (Suc n) E D bs depth = Ok s \<longleftrightarrow>
    length bs \<le> md_max_bytes D \<and> depth \<le> MAX_NESTING
    \<and> (\<exists>ps. list_all2 (part_ok E (validate_n n E) (md_name D) depth) (md_fields D) ps
         \<and> bs = enc_records (concat ps)
         \<and> s = \<lparr>sc_descriptor = D, sc_depth = depth, sc_entries = concat ps\<rparr>)
    \<and> run_check E (validate_n n E) (md_check D) s = Ok ()"
proof (cases "length bs \<le> md_max_bytes D")
  case True
  with assms(3) have "length bs < 2 ^ 64" by simp
  note iff = blocks_iff [OF assms(1,2) this, of E "validate_n n E" depth]
  have "validate_n (Suc n) E D bs depth = Ok s \<longleftrightarrow> depth \<le> MAX_NESTING
    \<and> (\<exists>es. (scan_loop E (validate_n n E) D depth [] 0 bs = Ok es
         \<and> for_each (check_field_cardinality \<lparr>sc_descriptor = D, sc_depth = depth, sc_entries = es\<rparr>)
             (md_fields D) = Ok ())
       \<and> s = \<lparr>sc_descriptor = D, sc_depth = depth, sc_entries = es\<rparr>)
    \<and> run_check E (validate_n n E) (md_check D) s = Ok ()"
    using True assms(4) by (auto simp: scan_def check_cardinality_def)
  then show ?thesis unfolding iff using True by blast
qed simp

definition choice_ok ::
  "env \<Rightarrow> validator \<Rightarrow> string \<Rightarrow> nat \<Rightarrow> field_descriptor list \<Rightarrow> nat \<Rightarrow> bytes \<Rightarrow> bool" where
  "choice_ok E V msg depth vs k b \<longleftrightarrow>
     (\<exists>f\<in>set vs. k = fd_number f \<and> value_ok E V msg depth f (VBytes b))"

definition variants_ok :: "field_descriptor list \<Rightarrow> bool" where
  "variants_ok vs \<longleftrightarrow>
     list_all (\<lambda>f. fd_cardinality f = Variant \<and> wire_kind_of (fd_kind f) = WLen) vs"

lemma choice_parts:
  assumes "variants_ok vs" and "list_all2 (part_ok E V msg depth) vs ps"
  shows "length (concat ps) = length (filter (\<lambda>p. p \<noteq> []) ps)"
    and "e \<in> set (concat ps) \<Longrightarrow> \<exists>k b. e = (k, VBytes b) \<and> choice_ok E V msg depth vs k b"
  using assms(2,1)
proof (induction vs ps rule: list_all2_induct)
  case (Cons f vs p ps)
  case 1
  from 1 have f: "fd_cardinality f = Variant" and vs: "variants_ok vs" by (auto simp: variants_ok_def)
  have "length p \<le> 1" using Cons.hyps(1) f by (simp add: part_ok_def size_ok_def)
  then show ?case using Cons.IH(1) [OF vs] by (cases p) auto
next
  case (Cons f vs p ps)
  case 2
  then have f: "wire_kind_of (fd_kind f) = WLen" and vs: "variants_ok vs"
    by (auto simp: variants_ok_def)
  show ?case
  proof (cases "e \<in> set p")
    case True
    with Cons.hyps(1) have e: "fst e = fd_number f" "value_ok E V msg depth f (snd e)"
      by (auto simp: part_ok_def list_all_iff)
    then obtain b where "e = (fd_number f, VBytes b)"
      using f by (cases "snd e"; cases e) (auto simp: value_ok_def)
    with e(2) show ?thesis by (auto simp: choice_ok_def)
  next
    case False
    then show ?thesis using Cons.IH(2) [OF _ vs] 2 by (fastforce simp: choice_ok_def)
  qed
qed simp_all

lemma choice_blocks:
  assumes "variants_ok vs" and "list_all2 (part_ok E V msg depth) vs ps"
  shows "length (filter (\<lambda>p. p \<noteq> []) ps) = 1 \<longleftrightarrow>
    (\<exists>k b. concat ps = [(k, VBytes b)] \<and> choice_ok E V msg depth vs k b)"
proof
  assume "length (filter (\<lambda>p. p \<noteq> []) ps) = 1"
  then obtain e where e: "concat ps = [e]"
    using choice_parts(1) [OF assms] by (auto simp: length_Suc_conv)
  then show "\<exists>k b. concat ps = [(k, VBytes b)] \<and> choice_ok E V msg depth vs k b"
    using choice_parts(2) [OF assms, of e] by auto
qed (use choice_parts(1) [OF assms] in auto)

lemma choice_exists:
  assumes "variants_ok vs" and "distinct (map fd_number vs)" and "choice_ok E V msg depth vs k b"
  shows "\<exists>ps. list_all2 (part_ok E V msg depth) vs ps \<and> concat ps = [(k, VBytes b)]"
proof -
  obtain f where f: "f \<in> set vs" "k = fd_number f" "value_ok E V msg depth f (VBytes b)"
    using assms(3) by (auto simp: choice_ok_def)
  define block where "block g = (if fd_number g = k then [(k, VBytes b)] else [])" for g
  have uniq: "g = f" if "g \<in> set vs" "fd_number g = k" for g
    using that f assms(2) by (metis distinct_map inj_onD)
  have "part_ok E V msg depth g (block g)" if "g \<in> set vs" for g
  proof (cases "fd_number g = k")
    case True
    then have "g = f" using uniq that by blast
    with True f assms(1) show ?thesis
      by (simp add: block_def part_ok_def size_ok_def variants_ok_def list_all_iff)
  next
    case False
    with that assms(1) show ?thesis
      by (simp add: block_def part_ok_def size_ok_def variants_ok_def list_all_iff)
  qed
  moreover have "concat (map block vs) = [(k, VBytes b)]"
  proof -
    obtain xs ys where vs: "vs = xs @ f # ys" using f(1) by (meson split_list)
    have "distinct (map fd_number xs @ fd_number f # map fd_number ys)"
      using assms(2) unfolding vs by simp
    then have "fd_number f \<notin> fd_number ` (set xs \<union> set ys)" by auto
    then have "fd_number g \<noteq> k" if "g \<in> set xs \<union> set ys" for g
      using that unfolding f(2) by (metis image_eqI)
    then have "concat (map block xs) = []" "concat (map block ys) = []"
      by (auto simp: block_def)
    moreover have "block f = [(k, VBytes b)]" by (simp add: block_def f(2))
    ultimately show ?thesis unfolding vs by (simp del: concat_eq_Nil_conv)
  qed
  ultimately show ?thesis
    by (intro exI [of _ "map block vs"]) (auto simp: list_all2_map2 list_all2_same)
qed

lemma present_blocks:
  assumes "list_all2 (\<lambda>f p. part es (fd_number f) = p) fs ps"
  shows "length (filter (\<lambda>f. P f \<and> count_field es (fd_number f) > 0) fs)
    = length (filter (\<lambda>(f, p). P f \<and> p \<noteq> []) (zip fs ps))"
  using assms by (induction fs ps rule: list_all2_induct) (auto simp: count_field_part)

lemma filter_variants:
  assumes "list_all (\<lambda>f. fd_cardinality f \<noteq> Variant) fs" and "variants_ok vs"
    and "length fs = length ps" and "length vs = length qs"
  shows "length (filter (\<lambda>(f, p). fd_cardinality f = Variant \<and> p \<noteq> []) (zip (fs @ vs) (ps @ qs)))
    = length (filter (\<lambda>p. p \<noteq> []) qs)"
proof -
  have "filter (\<lambda>(f, p). fd_cardinality f = Variant \<and> p \<noteq> []) (zip fs ps) = []"
    using assms(1) by (auto simp: filter_empty_conv list_all_iff dest: set_zip_leftD)
  moreover have "length (filter (\<lambda>(f, p). fd_cardinality f = Variant \<and> p \<noteq> []) (zip vs qs))
    = length (filter (\<lambda>p. p \<noteq> []) qs)"
    using assms(4,2) by (induction vs qs rule: list_induct2) (auto simp: variants_ok_def)
  ultimately show ?thesis using assms(3) by simp
qed

lemma exactly_one:
  "(if x = 0 then Err e else if x > 1 then Err e' else Ok ()) = Ok () \<longleftrightarrow> x = (1 :: nat)"
  by auto

lemma check_cardinality_oneof:
  assumes "md_oneof D = Some (nm, t)" and "md_fields D = fs @ vs"
    and "list_all (\<lambda>f. fd_cardinality f \<noteq> Variant) fs" and "variants_ok vs" and "ordered_fields D"
    and "list_all2 (part_ok E V msg depth) (fs @ vs) (ps @ qs)" and "length fs = length ps"
    and "for_each (check_field_cardinality \<lparr>sc_descriptor = D, sc_depth = depth,
           sc_entries = concat (ps @ qs)\<rparr>) (fs @ vs) = Ok ()"
  shows "check_cardinality \<lparr>sc_descriptor = D, sc_depth = depth, sc_entries = concat (ps @ qs)\<rparr> = Ok ()
    \<longleftrightarrow> (\<exists>k b. concat qs = [(k, VBytes b)] \<and> choice_ok E V msg depth vs k b)"
proof -
  have len: "length vs = length qs" using assms(6,7) by (auto dest: list_all2_lengthD)
  have qs: "list_all2 (part_ok E V msg depth) vs qs"
    using assms(6,7) by (simp add: list_all2_append)
  have "sorted_wrt (<) (map fd_number (fs @ vs))" using assms(2,5) by (simp add: ordered_fields_def)
  then have "list_all2 (\<lambda>f p. part (concat (ps @ qs)) (fd_number f) = p) (fs @ vs) (ps @ qs)"
    using part_concat [OF assms(6)] by simp
  then have "length (filter (\<lambda>f. fd_cardinality f = Variant
      \<and> count_field (concat (ps @ qs)) (fd_number f) > 0) (fs @ vs))
    = length (filter (\<lambda>p. p \<noteq> []) qs)"
    by (simp only: present_blocks filter_variants [OF assms(3,4,7) len])
  then have "check_cardinality \<lparr>sc_descriptor = D, sc_depth = depth, sc_entries = concat (ps @ qs)\<rparr>
    = Ok () \<longleftrightarrow> length (filter (\<lambda>p. p \<noteq> []) qs) = 1"
    using assms(1,2,8)
    by (simp only: check_cardinality_def scanned_count_def Let_def exactly_one obind.simps
        option.case prod.case scanned.simps)
  then show ?thesis using choice_blocks [OF assms(4) qs] by simp
qed

lemma validate_oneof_iff:
  assumes "small_fields D" and "ordered_fields D" and "md_max_bytes D < 2 ^ 64"
    and "md_oneof D = Some (nm, t)" and "md_fields D = fs @ vs"
    and "list_all (\<lambda>f. fd_cardinality f \<noteq> Variant) fs" and "variants_ok vs"
  shows "validate_n (Suc n) E D bs depth = Ok s \<longleftrightarrow>
    length bs \<le> md_max_bytes D \<and> depth \<le> MAX_NESTING
    \<and> (\<exists>ps k b. list_all2 (part_ok E (validate_n n E) (md_name D) depth) fs ps
         \<and> choice_ok E (validate_n n E) (md_name D) depth vs k b
         \<and> bs = enc_records (concat ps @ [(k, VBytes b)])
         \<and> s = \<lparr>sc_descriptor = D, sc_depth = depth, sc_entries = concat ps @ [(k, VBytes b)]\<rparr>)
    \<and> run_check E (validate_n n E) (md_check D) s = Ok ()"
  (is "?L \<longleftrightarrow> ?R")
proof (cases "length bs \<le> md_max_bytes D")
  case True
  with assms(3) have small: "length bs < 2 ^ 64" by simp
  let ?V = "validate_n n E" and ?s = "\<lambda>es. \<lparr>sc_descriptor = D, sc_depth = depth, sc_entries = es\<rparr>"
  note iff = blocks_iff [OF assms(1,2) small, of E ?V depth]
  have L: "?L \<longleftrightarrow> depth \<le> MAX_NESTING
    \<and> (\<exists>es. (scan_loop E ?V D depth [] 0 bs = Ok es
         \<and> for_each (check_field_cardinality (?s es)) (md_fields D) = Ok ())
         \<and> check_cardinality (?s es) = Ok () \<and> s = ?s es)
    \<and> run_check E ?V (md_check D) s = Ok ()"
    using True by (auto simp: scan_def check_cardinality_def)
  have card: "for_each (check_field_cardinality (?s es)) (fs @ vs) = Ok ()"
    if "check_cardinality (?s es) = Ok ()" for es
    using that assms(5) by (auto simp: check_cardinality_def)
  show ?thesis
  proof
    assume ?L
    then obtain es where es: "s = ?s es" "check_cardinality (?s es) = Ok ()" "bs = enc_records es"
      and rest: "depth \<le> MAX_NESTING" "run_check E ?V (md_check D) s = Ok ()"
      and "\<exists>rs. es = concat rs \<and> list_all2 (part_ok E ?V (md_name D) depth) (md_fields D) rs"
      unfolding L iff by blast
    then obtain ps qs where pq: "es = concat (ps @ qs)" "length fs = length ps"
      "list_all2 (part_ok E ?V (md_name D) depth) (fs @ vs) (ps @ qs)"
      unfolding assms(5) by (metis list_all2_append1 list_all2_appendI)
    with es(2) card [OF es(2)] obtain k b where "concat qs = [(k, VBytes b)]"
      "choice_ok E ?V (md_name D) depth vs k b"
      using check_cardinality_oneof [OF assms(4-7,2) pq(3,2)] by auto
    with pq es rest True show ?R by (auto simp: list_all2_append)
  next
    assume ?R
    then obtain ps k b where ps: "list_all2 (part_ok E ?V (md_name D) depth) fs ps"
      and kb: "choice_ok E ?V (md_name D) depth vs k b"
      and bs: "bs = enc_records (concat ps @ [(k, VBytes b)])" "s = ?s (concat ps @ [(k, VBytes b)])"
      and rest: "depth \<le> MAX_NESTING" "run_check E ?V (md_check D) s = Ok ()" by blast
    have "distinct (map fd_number vs)"
      using assms(2) unfolding assms(5) ordered_fields_def
      by (auto simp: sorted_wrt_append strict_sorted_iff)
    with choice_exists [OF assms(7) _ kb] obtain qs where
      qs: "list_all2 (part_ok E ?V (md_name D) depth) vs qs" "concat qs = [(k, VBytes b)]" by blast
    let ?es = "concat (ps @ qs)"
    have all: "list_all2 (part_ok E ?V (md_name D) depth) (fs @ vs) (ps @ qs)"
      using ps qs by (simp add: list_all2_appendI)
    then have loop: "scan_loop E ?V D depth [] 0 bs = Ok ?es
        \<and> for_each (check_field_cardinality (?s ?es)) (md_fields D) = Ok ()"
      unfolding iff unfolding assms(5) using bs qs(2) by (metis concat_append)
    then have "check_cardinality (?s ?es) = Ok ()"
      using check_cardinality_oneof [OF assms(4-7,2) all] ps qs(2) kb assms(5)
      by (auto dest: list_all2_lengthD)
    with loop rest bs qs(2) show ?L unfolding L by auto
  qed
qed simp

end
