(* ===== verification/Fuel_Facts.thy ===== *)
theory Fuel_Facts
  imports Message_Shapes
begin

text \<open>
  Fuel never changes a verdict: once \<open>validate_n\<close> returns something other than
  \<open>Panic\<close>, more fuel returns the same. Each function of the validator is shown to
  be stable in the validator it is given, by one set of rules for the operators
  they are written with.
\<close>

definition stable :: "('e, 'a) outcome \<Rightarrow> ('e, 'a) outcome \<Rightarrow> bool" where
  "stable x x' \<longleftrightarrow> (x \<noteq> Panic \<longrightarrow> x' = x)"

definition refines :: "validator \<Rightarrow> validator \<Rightarrow> bool" where
  "refines V V' \<longleftrightarrow> (\<forall>D b d. stable (V D b d) (V' D b d))"

named_theorems stable_intros \<open>stability of the operators and functions of the validator\<close>

lemma stable_refl [stable_intros]: "stable x x"
  by (simp add: stable_def)

lemma stable_obind [stable_intros]:
  "stable x x' \<Longrightarrow> (\<And>a. stable (f a) (f' a)) \<Longrightarrow> stable (obind x f) (obind x' f')"
  by (cases x) (auto simp: stable_def)

lemma stable_if [stable_intros]:
  "(c \<Longrightarrow> stable x x') \<Longrightarrow> (\<not> c \<Longrightarrow> stable y y') \<Longrightarrow>
   stable (if c then x else y) (if c then x' else y')"
  by simp

lemma stable_case_prod [stable_intros]:
  "(\<And>a b. stable (f a b) (f' a b)) \<Longrightarrow>
   stable (case p of (a, b) \<Rightarrow> f a b) (case p of (a, b) \<Rightarrow> f' a b)"
  by (cases p) simp

lemma stable_case_option [stable_intros]:
  "stable x x' \<Longrightarrow> (\<And>a. stable (f a) (f' a)) \<Longrightarrow>
   stable (case p of None \<Rightarrow> x | Some a \<Rightarrow> f a) (case p of None \<Rightarrow> x' | Some a \<Rightarrow> f' a)"
  by (cases p) simp_all

lemma refinesD: "refines V V' \<Longrightarrow> stable (V D b d) (V' D b d)"
  by (simp add: refines_def)

lemma stable_Ok: "stable x x' \<Longrightarrow> x = Ok a \<Longrightarrow> x' = Ok a"
  by (simp add: stable_def)

lemma stable_check_bytes [stable_intros]:
  assumes "refines V V'"
  shows "stable (check_bytes E V f msg b d) (check_bytes E V' f msg b d)"
  by (cases "fd_kind f")
     (auto simp: check_bytes_def intro!: stable_intros refinesD [OF assms] assms split: option.splits)

lemma stable_read_value [stable_intros]:
  assumes "refines V V'"
  shows "stable (read_value E V D f d bs) (read_value E V' D f d bs)"
  by (cases "wire_kind_of (fd_kind f)") (auto simp: read_value_def intro!: stable_intros refinesD [OF assms] assms)

lemma stable_scan_loop [stable_intros]:
  assumes "refines V V'"
  shows "stable (scan_loop E V D d pre l bs) (scan_loop E V' D d pre l bs)"
proof (induction "length bs" arbitrary: pre l bs rule: less_induct)
  case less
  have step: "stable (obind (read_value E V D f d bs1)
        (\<lambda>(v, bs2). scan_loop E V D d (pre @ [(k, v)]) k bs2))
      (obind (read_value E V' D f d bs1)
        (\<lambda>(v, bs2). scan_loop E V' D d (pre @ [(k, v)]) k bs2))"
    if "length bs1 < length bs" for f k bs1
  proof -
    have "stable (scan_loop E V D d (pre @ [(k, v)]) k bs2)
        (scan_loop E V' D d (pre @ [(k, v)]) k bs2)"
      if "read_value E V D f d bs1 = Ok (v, bs2)" for v bs2
      using less read_value_shorter [OF that] \<open>length bs1 < length bs\<close> by simp
    with stable_read_value [OF assms, of E D f d bs1] show ?thesis
      by (cases "read_value E V D f d bs1") (auto simp: stable_def)
  qed
  show ?case
    unfolding scan_loop.simps [of E V D d pre l bs] scan_loop.simps [of E V' D d pre l bs]
    using step read_varint_shorter [of "md_name D" bs]
    by (cases "read_varint (md_name D) bs")
       (auto simp: Let_def stable_def [of Panic] intro!: stable_if stable_obind [of "ok_or _ _"] stable_obind [of "check_order _ _ _ _ _ _"] stable_refl)
qed

lemma stable_scan [stable_intros]:
  assumes "refines V V'"
  shows "stable (scan E V D bs d) (scan E V' D bs d)"
  by (auto simp: scan_def intro!: stable_intros refinesD [OF assms] assms)

lemma stable_inception_standalone [stable_intros]:
  assumes "refines V V'"
  shows "stable (inception_standalone E V bs d) (inception_standalone E V' bs d)"
  unfolding inception_standalone_def by (intro stable_intros refinesD [OF assms] assms)

lemma stable_check_embedded_inception [stable_intros]:
  assumes "refines V V'"
  shows "stable (check_embedded_inception E V s k i j) (check_embedded_inception E V' s k i j)"
  unfolding check_embedded_inception_def by (intro stable_intros refinesD [OF assms] assms)

lemma stable_detached_acceptance [stable_intros]:
  assumes "refines V V'"
  shows "stable (detached_acceptance E V b g m) (detached_acceptance E V' b g m)"
  unfolding detached_acceptance_def by (intro stable_intros refinesD [OF assms] assms)

lemma stable_check_payload_fields [stable_intros]:
  assumes "refines V V'"
  shows "stable (check_payload_fields E V s k p a) (check_payload_fields E V' s k p a)"
  unfolding check_payload_fields_def subfields_def Let_def by (intro stable_intros refinesD [OF assms] assms)

lemma stable_run_check [stable_intros]:
  assumes "refines V V'"
  shows "stable (run_check E V c s) (run_check E V' c s)"
  unfolding run_check_def check_identity_root_def check_membership_invitation_def
    check_membership_acceptance_def check_acceptance_file_def check_event_body_def Let_def
  by (cases c) (auto split: cross_check.splits intro!: stable_intros refinesD [OF assms] assms)

lemma refines_step: "refines (validate_n n E) (validate_n (Suc n) E)"
proof (induction n)
  case (Suc n)
  have "stable (validate_n (Suc n) E D b d) (validate_n (Suc (Suc n)) E D b d)" for D b d
    unfolding validate_n.simps(2) [of n E D b d] validate_n.simps(2) [of "Suc n" E D b d]
    by (intro stable_intros Suc)
  then show ?case by (simp only: refines_def) blast
qed (simp add: refines_def stable_def)

lemma refines_validate: "n \<le> m \<Longrightarrow> refines (validate_n n E) (validate_n m E)"
proof (induction m rule: dec_induct)
  case (step m)
  then show ?case using refines_step [of m E] by (auto simp: refines_def stable_def)
qed (simp add: refines_def stable_def)

text \<open>More fuel keeps a verdict.\<close>

lemma validate_n_more_fuel:
  "n \<le> m \<Longrightarrow> validate_n n E D bs d \<noteq> Panic \<Longrightarrow> validate_n m E D bs d = validate_n n E D bs d"
  using refines_validate [of n m E] by (auto simp: refines_def stable_def)

text \<open>Scanning again what was validated returns the same records.\<close>

lemma validated_rescan:
  assumes "validate_n n E D bs d = Ok s" and "n \<le> Suc m"
  shows "scan E (validate_n m E) D bs d = Ok s"
proof -
  obtain k where n: "n = Suc k" using assms(1) by (cases n) auto
  then have scanned: "scan E (validate_n k E) D bs d = Ok s"
    using assms(1) by (auto split: if_splits)
  have "refines (validate_n k E) (validate_n m E)"
    using assms(2) n by (intro refines_validate) simp
  then show ?thesis by (rule stable_Ok [OF stable_scan scanned])
qed

end
