(* ===== verification/Field_Blocks.thy ===== *)
theory Field_Blocks
  imports Fuel_Facts
begin

text \<open>
  What a block of records is for each kind of field the table uses: a fixed-length
  id, a bounded byte string, a number, an enumeration, a text, an embedded
  message, and a repeated field. Together with the equivalences of
  \<open>Message_Shapes.thy\<close> these turn a descriptor into the set of messages it
  accepts.
\<close>

named_theorems block_iffs \<open>the blocks each kind of field admits\<close>

lemma part_forbidden [block_iffs]: "part_ok E V msg d (forbidden n nm k) p \<longleftrightarrow> p = []"
  by (auto simp: part_ok_def size_ok_def forbidden_def)

lemma length_le_1: "length p \<le> 1 \<longleftrightarrow> p = [] \<or> (\<exists>e. p = [e])"
  by (cases p) auto

lemma length_eq_1: "length p = 1 \<longleftrightarrow> (\<exists>e. p = [e])"
  by (cases p) auto

lemma part_required:
  "part_ok E V msg d (required n nm k) p \<longleftrightarrow>
   (\<exists>v. p = [(n, v)] \<and> value_ok E V msg d (required n nm k) v)"
  unfolding part_ok_def size_ok_def required_def by (auto simp: length_eq_1 simp del: One_nat_def)

lemma part_optional:
  "part_ok E V msg d (optional n nm k) p \<longleftrightarrow>
   p = [] \<or> (\<exists>v. p = [(n, v)] \<and> value_ok E V msg d (optional n nm k) v)"
  unfolding part_ok_def size_ok_def optional_def by (auto simp: length_le_1 simp del: One_nat_def)

lemma value_ok_len:
  "wire_kind_of (fd_kind f) = WLen \<Longrightarrow>
   value_ok E V msg d f v \<longleftrightarrow> (\<exists>b. v = VBytes b \<and> check_bytes E V f msg b d = Ok ())"
  by (cases v) (auto simp: value_ok_def)

lemma value_ok_varint:
  "wire_kind_of (fd_kind f) = WVarint \<Longrightarrow>
   value_ok E V msg d f v \<longleftrightarrow> (\<exists>x. v = VVarint x \<and> check_varint f msg x = Ok ())"
  by (cases v) (auto simp: value_ok_def)

lemma check_length_Ok:
  "check_length f msg b mx = Ok () \<longleftrightarrow> b \<noteq> [] \<and> length b \<le> mx"
  by (auto simp: check_length_def)

lemma part_required_exact [block_iffs]:
  assumes "0 < len" and "len \<le> mx"
  shows "part_ok E V msg d (required n nm (KBytes (Some len) mx)) p \<longleftrightarrow>
    (\<exists>b. length b = len \<and> p = f_bytes n b)"
  using assms unfolding part_required
  by (auto simp: value_ok_len required_def check_bytes_def check_length_Ok f_bytes_def)

lemma part_required_bytes [block_iffs]:
  "part_ok E V msg d (required n nm (KBytes None mx)) p \<longleftrightarrow>
   (\<exists>b. (b \<noteq> [] \<and> length b \<le> mx) \<and> p = f_bytes n b)"
  unfolding part_required
  by (auto simp: value_ok_len required_def check_bytes_def check_length_Ok f_bytes_def)

lemma part_optional_exact [block_iffs]:
  assumes "0 < len" and "len \<le> mx"
  shows "part_ok E V msg d (optional n nm (KBytes (Some len) mx)) p \<longleftrightarrow>
    (\<exists>b. (b = [] \<or> length b = len) \<and> p = f_bytes n b)"
  using assms unfolding part_optional
  by (auto simp: value_ok_len optional_def check_bytes_def check_length_Ok f_bytes_def)

lemma part_required_enum [block_iffs]:
  "part_ok E V msg d (required n nm (KEnum vals)) p \<longleftrightarrow>
   (\<exists>v. (v \<noteq> 0 \<and> v \<in> fst ` set vals) \<and> p = f_varint n v)"
  unfolding part_required
  by (auto simp: value_ok_varint required_def check_varint_def list_ex_iff f_varint_def
      split: if_splits)

lemma part_required_varint [block_iffs]:
  "part_ok E V msg d (required n nm (KVarint mn mx)) p \<longleftrightarrow>
   (\<exists>v. (v \<noteq> 0 \<and> mn \<le> v \<and> v \<le> mx) \<and> p = f_varint n v)"
  unfolding part_required
  by (auto simp: value_ok_varint required_def check_varint_def not_less f_varint_def split: if_splits)

lemma part_optional_varint [block_iffs]:
  "part_ok E V msg d (optional n nm (KVarint mn mx)) p \<longleftrightarrow>
   (\<exists>v. (v = 0 \<or> mn \<le> v \<and> v \<le> mx) \<and> p = f_varint n v)"
  unfolding part_optional
  by (auto simp: value_ok_varint optional_def check_varint_def not_less f_varint_def split: if_splits)

lemma part_optional_string [block_iffs]:
  "part_ok E V msg d (optional n nm (KString mx rule)) p \<longleftrightarrow>
   (\<exists>b. (b = [] \<or> length b \<le> mx \<and> is_utf8 b \<and> check_string E rule msg nm b = Ok ())
      \<and> p = f_bytes n b)"
  unfolding part_optional
  by (auto simp: value_ok_len optional_def check_bytes_def check_length_Ok f_bytes_def split: if_splits)

lemma part_required_nested [block_iffs]:
  "part_ok E V msg d (required n nm (KNested D mx)) p \<longleftrightarrow>
   (\<exists>b. (b \<noteq> [] \<and> length b \<le> mx \<and> (\<exists>s. V D b (d + 1) = Ok s)) \<and> p = f_bytes n b)"
  unfolding part_required
  by (auto simp: value_ok_len required_def check_bytes_def check_length_Ok f_bytes_def)

lemma get_repeated_all:
  "list_all (\<lambda>e. fst e = n \<and> (\<exists>b. snd e = VBytes b \<and> P b)) p \<longleftrightarrow>
   (\<exists>bs. p = f_repeated n bs \<and> list_all P bs)"
proof (induction p)
  case (Cons e p)
  show ?case
  proof
    assume "list_all (\<lambda>e. fst e = n \<and> (\<exists>b. snd e = VBytes b \<and> P b)) (e # p)"
    then obtain b bs where "e = (n, VBytes b)" "P b" "p = f_repeated n bs" "list_all P bs"
      using Cons by (cases e) auto
    then show "\<exists>bs. e # p = f_repeated n bs \<and> list_all P bs"
      by (intro exI [of _ "b # bs"]) (simp add: f_repeated_def)
  qed (auto simp: f_repeated_def list_all_iff)
qed (auto simp: f_repeated_def)

lemma part_repeated:
  assumes "wire_kind_of kind = WLen"
  shows "part_ok E V msg d (FieldDescriptor n nm (Repeated mn mx dist) kind) p \<longleftrightarrow>
    (\<exists>bs. p = f_repeated n bs \<and> mn \<le> length bs \<and> length bs \<le> mx \<and> (dist \<longrightarrow> distinct bs)
      \<and> list_all (\<lambda>b. check_bytes E V (FieldDescriptor n nm (Repeated mn mx dist) kind) msg b d
           = Ok ()) bs)"
proof -
  have len: "length (f_repeated n bs) = length bs" for bs by (simp add: f_repeated_def)
  show ?thesis
    unfolding part_ok_def
    using assms get_repeated_all [of n "\<lambda>b. check_bytes E V (FieldDescriptor n nm (Repeated mn mx dist) kind) msg b d
           = Ok ()" p]
    by (auto simp: value_ok_len size_ok_def len)
qed

lemma part_repeated_exact [block_iffs]:
  assumes "0 < len" and "len \<le> m"
  shows "part_ok E V msg d (FieldDescriptor n nm (Repeated mn mx dist) (KBytes (Some len) m)) p \<longleftrightarrow>
    (\<exists>bs. (mn \<le> length bs \<and> length bs \<le> mx \<and> (dist \<longrightarrow> distinct bs)
      \<and> list_all (\<lambda>b. length b = len) bs) \<and> p = f_repeated n bs)"
proof -
  have "check_bytes E V (FieldDescriptor n nm c (KBytes (Some len) m)) msg b d = Ok ()
    \<longleftrightarrow> length b = len" for c b
    using assms by (auto simp: check_bytes_def check_length_Ok)
  then show ?thesis by (auto simp: part_repeated)
qed

lemma choice_ok_Nil [block_iffs]: "\<not> choice_ok E V msg d [] k b"
  by (simp add: choice_ok_def)

lemma choice_ok_Cons [block_iffs]:
  "choice_ok E V msg d (variant n nm D # vs) k b \<longleftrightarrow>
   k = n \<and> (\<exists>s. V D b (d + 1) = Ok s) \<or> choice_ok E V msg d vs k b"
  by (auto simp: choice_ok_def variant_def value_ok_len check_bytes_def)

section \<open>Messages as lists of blocks\<close>

fun blocks :: "env \<Rightarrow> validator \<Rightarrow> string \<Rightarrow> nat \<Rightarrow> field_descriptor list \<Rightarrow> records \<Rightarrow> bool" where
  "blocks E V msg d [] es \<longleftrightarrow> es = []"
| "blocks E V msg d (f # fs) es \<longleftrightarrow>
     (\<exists>p q. part_ok E V msg d f p \<and> blocks E V msg d fs q \<and> es = p @ q)"

lemma blocks_concat:
  "blocks E V msg d fs es \<longleftrightarrow> (\<exists>ps. list_all2 (part_ok E V msg d) fs ps \<and> es = concat ps)"
proof (induction fs arbitrary: es)
  case (Cons f fs)
  show ?case
  proof
    assume "blocks E V msg d (f # fs) es"
    then obtain p ps where "part_ok E V msg d f p" "list_all2 (part_ok E V msg d) fs ps"
      "es = p @ concat ps" using Cons by auto
    then show "\<exists>ps. list_all2 (part_ok E V msg d) (f # fs) ps \<and> es = concat ps"
      by (intro exI [of _ "p # ps"]) simp
  next
    assume "\<exists>ps. list_all2 (part_ok E V msg d) (f # fs) ps \<and> es = concat ps"
    then obtain p ps where "part_ok E V msg d f p" "list_all2 (part_ok E V msg d) fs ps"
      "es = p @ concat ps" by (auto simp: list_all2_Cons1)
    then show "blocks E V msg d (f # fs) es" using Cons by auto
  qed
qed simp

text \<open>Unfolding a field list from the left, with the records read so far.\<close>

definition blocks_after ::
  "env \<Rightarrow> validator \<Rightarrow> string \<Rightarrow> nat \<Rightarrow> records \<Rightarrow> field_descriptor list \<Rightarrow> records \<Rightarrow> bool" where
  "blocks_after E V msg d pre fs es \<longleftrightarrow> (\<exists>q. blocks E V msg d fs q \<and> es = pre @ q)"

lemma blocks_unfold:
  "blocks E V msg d fs es \<longleftrightarrow> blocks_after E V msg d [] fs es"
  "blocks_after E V msg d pre [] es \<longleftrightarrow> es = pre"
  "blocks_after E V msg d pre (f # fs) es \<longleftrightarrow>
   (\<exists>p. part_ok E V msg d f p \<and> blocks_after E V msg d (pre @ p) fs es)"
  unfolding blocks_after_def by auto

lemma ex_part: "(\<exists>p. (\<exists>b. A b \<and> p = F b) \<and> Q p) \<longleftrightarrow> (\<exists>b. A b \<and> Q (F b))"
  by blast

lemmas block_simps = blocks_unfold block_iffs ex_part

text \<open>
  The two equivalences a message is read off with: \<open>S\<close> and \<open>R\<close> are the field rules
  and the layout of the message type, \<open>C\<close> its cross-field rule.
\<close>

lemma accept_plain:
  assumes "small_fields D" and "ordered_fields D" and "md_max_bytes D < 2 ^ 64"
    and "md_oneof D = None"
    and "\<And>es. blocks E (validate_n n E) (md_name D) d (md_fields D) es \<longleftrightarrow> (\<exists>m. S m \<and> es = R m)"
    and "\<And>m. S m \<Longrightarrow> run_check E (validate_n n E) (md_check D)
           \<lparr>sc_descriptor = D, sc_depth = d, sc_entries = R m\<rparr> = Ok () \<longleftrightarrow> C m"
  shows "validate_n (Suc n) E D bs d = Ok s \<longleftrightarrow>
    length bs \<le> md_max_bytes D \<and> d \<le> MAX_NESTING
    \<and> (\<exists>m. S m \<and> C m \<and> bs = enc_records (R m)
         \<and> s = \<lparr>sc_descriptor = D, sc_depth = d, sc_entries = R m\<rparr>)"
proof -
  have "validate_n (Suc n) E D bs d = Ok s \<longleftrightarrow>
    length bs \<le> md_max_bytes D \<and> d \<le> MAX_NESTING
    \<and> (\<exists>es. blocks E (validate_n n E) (md_name D) d (md_fields D) es \<and> bs = enc_records es
         \<and> s = \<lparr>sc_descriptor = D, sc_depth = d, sc_entries = es\<rparr>)
    \<and> run_check E (validate_n n E) (md_check D) s = Ok ()"
    unfolding validate_plain_iff [OF assms(1-4)] blocks_concat by blast
  then show ?thesis unfolding assms(5) using assms(6) by blast
qed

lemma accept_oneof:
  assumes "small_fields D" and "ordered_fields D" and "md_max_bytes D < 2 ^ 64"
    and "md_oneof D = Some (nm, t)" and "md_fields D = fs @ vs"
    and "list_all (\<lambda>f. fd_cardinality f \<noteq> Variant) fs" and "variants_ok vs"
    and "\<And>es'. (\<exists>es k b. blocks E (validate_n n E) (md_name D) d fs es
           \<and> choice_ok E (validate_n n E) (md_name D) d vs k b \<and> es' = es @ [(k, VBytes b)])
         \<longleftrightarrow> (\<exists>m. S m \<and> es' = R m)"
    and "\<And>m. S m \<Longrightarrow> run_check E (validate_n n E) (md_check D)
           \<lparr>sc_descriptor = D, sc_depth = d, sc_entries = R m\<rparr> = Ok () \<longleftrightarrow> C m"
  shows "validate_n (Suc n) E D bs d = Ok s \<longleftrightarrow>
    length bs \<le> md_max_bytes D \<and> d \<le> MAX_NESTING
    \<and> (\<exists>m. S m \<and> C m \<and> bs = enc_records (R m)
         \<and> s = \<lparr>sc_descriptor = D, sc_depth = d, sc_entries = R m\<rparr>)"
proof -
  have "validate_n (Suc n) E D bs d = Ok s \<longleftrightarrow>
    length bs \<le> md_max_bytes D \<and> d \<le> MAX_NESTING
    \<and> (\<exists>es'. (\<exists>es k b. blocks E (validate_n n E) (md_name D) d fs es
           \<and> choice_ok E (validate_n n E) (md_name D) d vs k b \<and> es' = es @ [(k, VBytes b)])
         \<and> bs = enc_records es' \<and> s = \<lparr>sc_descriptor = D, sc_depth = d, sc_entries = es'\<rparr>)
    \<and> run_check E (validate_n n E) (md_check D) s = Ok ()"
    unfolding validate_oneof_iff [OF assms(1-7)] blocks_concat by blast
  then show ?thesis unfolding assms(8) using assms(9) by blast
qed

end
