(* ===== verification/Valid_Events.thy ===== *)
theory Valid_Events
  imports Field_Blocks
begin

text \<open>
  The stateless rules of the ledger schema as a specification: what a message
  means, without a scanner, a table or a position in a byte string. A payload is
  valid on its own (\<open>payload_ok\<close>) and in the body that carries it
  (\<open>payload_fits\<close>), and an embedded inception proves a key for an identity
  (\<open>embedded_ok\<close>): it hashes to the identity, records the key in a raw root and is
  signed by it. \<open>Canonical.thy\<close> shows that the validator decides exactly this.
\<close>

definition valid_raw_root :: "pb_raw_root \<Rightarrow> bool" where
  "valid_raw_root r \<longleftrightarrow>
     length (rr_active_key r) = ID_BYTES \<and> length (rr_reserve_commit r) = ID_BYTES
     \<and> rr_active_key r \<noteq> rr_reserve_commit r"

definition valid_inception_head :: "pb_inception \<Rightarrow> bool" where
  "valid_inception_head i \<longleftrightarrow> in_kind i \<in> {1, 2, 3, 4} \<and> length (in_nonce i) = NONCE_BYTES"

definition valid_timestamp :: "u64 \<Rightarrow> bool" where
  "valid_timestamp t \<longleftrightarrow> 1 \<le> t \<and> t \<le> MAX_TIMESTAMP_MS"

text \<open>The body of an inception that keys its own ledger.\<close>

definition raw_inception_body :: "pb_event_body \<Rightarrow> pb_raw_root \<Rightarrow> bool" where
  "raw_inception_body b r \<longleftrightarrow>
     eb_version b = 0 \<and> eb_ledger b = [] \<and> eb_seq b = 0 \<and> eb_prev b = []
     \<and> valid_timestamp (eb_timestamp_ms b) \<and> eb_author_key b = rr_active_key r
     \<and> valid_raw_root r
     \<and> (\<exists>i. eb_payload b = Some (PInception i) \<and> in_root i = Some (RawRoot r)
          \<and> valid_inception_head i)"

text \<open>An embedded inception proves \<open>key\<close> for the identity \<open>ident\<close>.\<close>

definition embedded_ok :: "env \<Rightarrow> bytes \<Rightarrow> identity_id \<Rightarrow> public_key \<Rightarrow> bool" where
  "embedded_ok E bs ident key \<longleftrightarrow>
     (\<exists>m b r. bs = enc_records (signed_event_records m)
        \<and> se_body m = enc_records (event_body_records b) \<and> raw_inception_body b r
        \<and> ident = event_id E (se_body m) \<and> key = rr_active_key r \<and> key_is_point E key
        \<and> length (se_signature m) = SIG_BYTES
        \<and> ed_verify E key (sign_input (se_body m)) (se_signature m))"

definition valid_identity_root :: "env \<Rightarrow> pb_identity_root \<Rightarrow> bool" where
  "valid_identity_root E q \<longleftrightarrow>
     length (ir_founder q) = ID_BYTES \<and> length (ir_founder_key q) = ID_BYTES
     \<and> length (ir_founder_inception q) \<le> MAX_EMBEDDED_INCEPTION_BYTES
     \<and> embedded_ok E (ir_founder_inception q) (ir_founder q) (ir_founder_key q)"

definition valid_invitation :: "env \<Rightarrow> pb_invitation \<Rightarrow> bool" where
  "valid_invitation E v \<longleftrightarrow>
     length (mi_invitee v) = ID_BYTES \<and> length (mi_invitee_key v) = ID_BYTES
     \<and> mi_role v \<in> {1, 2} \<and> length (mi_invitee_inception v) \<le> MAX_EMBEDDED_INCEPTION_BYTES
     \<and> embedded_ok E (mi_invitee_inception v) (mi_invitee v) (mi_invitee_key v)"

definition valid_acceptance :: "pb_acceptance \<Rightarrow> bool" where
  "valid_acceptance a \<longleftrightarrow>
     ac_version a = 0 \<and> length (ac_ledger a) = ID_BYTES
     \<and> length (ac_invitation_event a) = ID_BYTES \<and> length (ac_invitee a) = ID_BYTES
     \<and> length (ac_invitee_key a) = ID_BYTES"

text \<open>A signed acceptance: the blob is a canonical acceptance, signed by the key it names.\<close>

definition valid_signed_acceptance :: "env \<Rightarrow> pb_membership_acceptance \<Rightarrow> pb_acceptance \<Rightarrow> bool" where
  "valid_signed_acceptance E m a \<longleftrightarrow>
     ma_acceptance m = enc_records (acceptance_records a) \<and> valid_acceptance a
     \<and> length (ma_signature m) = SIG_BYTES \<and> key_is_point E (ac_invitee_key a)
     \<and> ed_verify E (ac_invitee_key a) (accept_input (ma_acceptance m)) (ma_signature m)"

definition valid_ids :: "nat \<Rightarrow> nat \<Rightarrow> bytes list \<Rightarrow> bool" where
  "valid_ids mn mx xs \<longleftrightarrow>
     mn \<le> length xs \<and> length xs \<le> mx \<and> distinct xs \<and> list_all (\<lambda>x. length x = ID_BYTES) xs"

definition valid_text :: "(bytes \<Rightarrow> bool) \<Rightarrow> nat \<Rightarrow> bytes \<Rightarrow> bool" where
  "valid_text ok mx t \<longleftrightarrow> t = [] \<or> length t \<le> mx \<and> is_utf8 t \<and> ok t"

definition valid_profile :: "env \<Rightarrow> pb_profile_update \<Rightarrow> bool" where
  "valid_profile E p \<longleftrightarrow>
     valid_text (\<lambda>t. check_display_name E t = Ok ()) MAX_DISPLAY_NAME_BYTES (pu_display_name p)
     \<and> valid_text (\<lambda>t. check_hostname t = Ok ()) MAX_HOSTNAME_BYTES (pu_hostname p)
     \<and> valid_text (\<lambda>t. check_email t = Ok ()) MAX_EMAIL_BYTES (pu_email p)"

fun valid_root :: "env \<Rightarrow> pb_root option \<Rightarrow> bool" where
  "valid_root E None = False"
| "valid_root E (Some (RawRoot r)) = valid_raw_root r"
| "valid_root E (Some (IdentityRoot q)) = valid_identity_root E q"

fun payload_ok :: "env \<Rightarrow> pb_payload \<Rightarrow> bool" where
  "payload_ok E (PInception i) = (valid_inception_head i \<and> valid_root E (in_root i))"
| "payload_ok E (PWitnessConfig ws) = valid_ids 1 MAX_WITNESSES ws"
| "payload_ok E (PTrustAttestation t) = (length t = ID_BYTES)"
| "payload_ok E (PTrustRevocation t) = (length t = ID_BYTES)"
| "payload_ok E (PMembershipInvitation v) = valid_invitation E v"
| "payload_ok E (PMembershipAcceptance m) = (\<exists>a. valid_signed_acceptance E m a
     \<and> length (ma_acceptance m) \<le> MAX_ACCEPTANCE_BYTES)"
| "payload_ok E (PMembershipRemoval t) = (length t = ID_BYTES)"
| "payload_ok E (PProfileUpdate p) = valid_profile E p"
| "payload_ok E (PEndpointAdvertisement es) = valid_ids 0 MAX_ENDPOINTS es"
| "payload_ok E (PWitnessSet ws) = valid_ids 0 MAX_WITNESSES ws"

text \<open>The rules that tie a payload to the body around it.\<close>

fun root_key :: "pb_root option \<Rightarrow> bytes" where
  "root_key None = []"
| "root_key (Some (RawRoot r)) = rr_active_key r"
| "root_key (Some (IdentityRoot q)) = ir_founder_key q"

fun payload_fits :: "pb_event_body \<Rightarrow> pb_payload \<Rightarrow> bool" where
  "payload_fits b (PInception i) = (root_key (in_root i) = eb_author_key b)"
| "payload_fits b (PTrustAttestation t) = (t \<noteq> eb_ledger b)"
| "payload_fits b (PMembershipInvitation v) = (mi_invitee v \<noteq> eb_ledger b)"
| "payload_fits b _ = True"

fun is_inception :: "pb_payload \<Rightarrow> bool" where
  "is_inception (PInception _) = True"
| "is_inception _ = False"

definition chain_ok :: "pb_event_body \<Rightarrow> bool" where
  "chain_ok b \<longleftrightarrow>
     (if eb_seq b = 0 then eb_ledger b = [] \<and> eb_prev b = []
      else length (eb_ledger b) = ID_BYTES \<and> length (eb_prev b) = ID_BYTES)"

definition valid_body :: "env \<Rightarrow> pb_event_body \<Rightarrow> bool" where
  "valid_body E b \<longleftrightarrow>
     eb_version b = 0 \<and> chain_ok b \<and> valid_timestamp (eb_timestamp_ms b)
     \<and> length (eb_author_key b) = ID_BYTES
     \<and> (case eb_payload b of
          None \<Rightarrow> False
        | Some p \<Rightarrow> payload_ok E p \<and> payload_fits b p \<and> (is_inception p \<longleftrightarrow> eb_seq b = 0))"

text \<open>A received event is its message and its body.\<close>

definition valid_event :: "env \<Rightarrow> bytes \<Rightarrow> pb_signed_event \<Rightarrow> pb_event_body \<Rightarrow> bool" where
  "valid_event E bs m b \<longleftrightarrow>
     bs = enc_records (signed_event_records m) \<and> length bs \<le> MAX_EVENT_BYTES
     \<and> length (se_signature m) = SIG_BYTES
     \<and> se_body m = enc_records (event_body_records b) \<and> valid_body E b"

end
