(* ===== verification/Ledger_Inv.thy ===== *)
theory Ledger_Inv
  imports Ledger_Spec
begin

text \<open>
  The invariants of a ledger, each kept by every event: a started ledger has a
  root, an id and a controller; a raw root stays a controller with its own key;
  no two principals share a key; an invitee has at most one open invitation, and
  a subject at most one standing attestation; a ledger neither attests nor
  invites itself; a promotion carries the key the principal has; and every key is
  proven by an inception.
\<close>

section \<open>The invariants\<close>

definition started :: "ledger \<Rightarrow> bool" where
  "started al \<longleftrightarrow>
     (if al_head al = None then al = empty_ledger
      else al_root al \<noteq> None \<and> (\<exists>l. al_id al = Some l \<and> length l = ID_BYTES))"

definition root_kept :: "ledger \<Rightarrow> bool" where
  "root_kept al \<longleftrightarrow>
     (\<forall>k c. al_root al = Some (Raw k c) \<longrightarrow>
        (\<exists>l. al_id al = Some l
           \<and> al_principals al l = Some \<lparr>pr_role = Controller, pr_active_key = k\<rparr>))"

definition controlled :: "ledger \<Rightarrow> bool" where
  "controlled al \<longleftrightarrow> al_head al \<noteq> None \<longrightarrow> (\<exists>i. is_controller al i)"

definition keys_distinct :: "ledger \<Rightarrow> bool" where
  "keys_distinct al \<longleftrightarrow>
     (\<forall>i j p q. al_principals al i = Some p \<longrightarrow> al_principals al j = Some q \<longrightarrow>
        pr_active_key p = pr_active_key q \<longrightarrow> i = j)"

definition one_open :: "ledger \<Rightarrow> bool" where
  "one_open al \<longleftrightarrow> (\<forall>e e' i. open_for al e i \<longrightarrow> open_for al e' i \<longrightarrow> e = e')"

definition one_standing :: "ledger \<Rightarrow> bool" where
  "one_standing al \<longleftrightarrow> (\<forall>e e' i. standing al e i \<longrightarrow> standing al e' i \<longrightarrow> e = e')"

definition not_self :: "ledger \<Rightarrow> bool" where
  "not_self al \<longleftrightarrow>
     (\<forall>l. al_id al = Some l \<longrightarrow>
        (\<forall>e a. al_trust al e = Some a \<longrightarrow> at_subject a \<noteq> l)
        \<and> (\<forall>e v. al_invitations al e = Some v \<longrightarrow> iv_invitee v \<noteq> l))"

definition open_keys :: "ledger \<Rightarrow> bool" where
  "open_keys al \<longleftrightarrow>
     (\<forall>e v p. al_invitations al e = Some v \<longrightarrow> iv_status v = Open \<longrightarrow>
        al_principals al (iv_invitee v) = Some p \<longrightarrow> pr_active_key p = iv_invitee_key v)"

definition proven :: "env \<Rightarrow> identity_id \<Rightarrow> public_key \<Rightarrow> bool" where
  "proven E i k \<longleftrightarrow> (\<exists>bs. embedded_ok E bs i k)"

definition all_proven :: "env \<Rightarrow> ledger \<Rightarrow> bool" where
  "all_proven E al \<longleftrightarrow>
     (\<forall>e v. al_invitations al e = Some v \<longrightarrow> proven E (iv_invitee v) (iv_invitee_key v))
     \<and> (\<forall>i p. al_principals al i = Some p \<longrightarrow>
          (\<exists>k c. al_root al = Some (Raw k c) \<and> al_id al = Some i \<and> pr_active_key p = k)
          \<or> proven E i (pr_active_key p))"

definition ledger_inv :: "env \<Rightarrow> ledger \<Rightarrow> bool" where
  "ledger_inv E al \<longleftrightarrow> started al \<and> root_kept al \<and> controlled al \<and> keys_distinct al
     \<and> one_open al \<and> one_standing al \<and> not_self al \<and> open_keys al \<and> all_proven E al"

lemmas inv_defs = root_kept_def controlled_def keys_distinct_def one_open_def one_standing_def
  not_self_def open_keys_def all_proven_def
lemmas spec_defs = is_controller_def signs_as_def open_for_def standing_def may_step_down_def

section \<open>Where an event stands\<close>

definition good_step :: "env \<Rightarrow> ledger \<Rightarrow> event_id \<Rightarrow> pb_event_body \<Rightarrow> pb_payload \<Rightarrow> ledger \<Rightarrow> bool" where
  "good_step E al e b p al' \<longleftrightarrow>
     payload_step E al e (eb_seq b) (eb_author_key b) p al' \<and> payload_ok E p \<and> payload_fits b p
     \<and> length e = ID_BYTES
     \<and> (if is_inception p then al = empty_ledger
        else al_head al \<noteq> None \<and> al_id al = Some (eb_ledger b))"

lemma event_step_good:
  assumes "event_step E al m b al'" and "started al" and "crypto_ok E"
  obtains p al1 where "eb_payload b = Some p" and "good_step E al (event_id E (se_body m)) b p al1"
    and "al' = al1\<lparr>al_head := Some \<lparr>hd_seq = eb_seq b, hd_event_id = event_id E (se_body m),
          hd_timestamp_ms = eb_timestamp_ms b\<rparr>\<rparr>"
proof -
  from assms(1) obtain bs p al1 where 1: "valid_event E bs m b" "eb_payload b = Some p" "link_ok al b"
    "payload_step E al (event_id E (se_body m)) (eb_seq b) (eb_author_key b) p al1"
    "al' = al1\<lparr>al_head := Some \<lparr>hd_seq = eb_seq b, hd_event_id = event_id E (se_body m),
       hd_timestamp_ms = eb_timestamp_ms b\<rparr>\<rparr>"
    by (auto elim!: event_stepE)
  from 1 have valid: "payload_ok E p" "payload_fits b p" "is_inception p \<longleftrightarrow> eb_seq b = 0" "chain_ok b"
    by (auto simp: valid_event_def valid_body_def)
  have "al = empty_ledger" if "is_inception p"
  proof (cases "al_head al")
    case None
    then show ?thesis using assms(2) by (simp add: started_def)
  next
    case (Some h)
    then have "al_id al = Some (eb_ledger b)" using 1 by (simp add: link_ok_def)
    with Some that assms(2) valid show ?thesis
      by (auto simp: started_def chain_ok_def ID_BYTES_def)
  qed
  moreover have "al_head al \<noteq> None \<and> al_id al = Some (eb_ledger b)" if "\<not> is_inception p"
    using 1 that valid by (auto simp: link_ok_def split: option.splits)
  ultimately have "good_step E al (event_id E (se_body m)) b p al1"
    using 1 valid length_event_id [OF assms(3)] by (simp add: good_step_def ID_BYTES_def)
  with that 1 show thesis by blast
qed

lemma good_stepE:
  assumes "good_step E al e b p al'"
  shows "payload_step E al e (eb_seq b) (eb_author_key b) p al'" "payload_ok E p" "payload_fits b p"
    "length e = ID_BYTES" "is_inception p \<Longrightarrow> al = empty_ledger"
    "\<not> is_inception p \<Longrightarrow> al_head al \<noteq> None \<and> al_id al = Some (eb_ledger b)"
  using assms by (auto simp: good_step_def)

lemma empty_ledger_simps [simp]:
  "al_head empty_ledger = None" "al_root empty_ledger = None" "al_id empty_ledger = None"
  "al_principals empty_ledger = Map.empty" "al_invitations empty_ledger = Map.empty"
  "al_trust empty_ledger = Map.empty"
  by (simp_all add: empty_ledger_def)

text \<open>Every payload but an inception leaves the root and the id as they are.\<close>

lemma step_keeps_root:
  assumes "payload_step E al e q k p al'" and "\<not> is_inception p"
  shows "al_root al' = al_root al" and "al_id al' = al_id al" and "al_kind al' = al_kind al"
  using assms by (auto elim!: payload_stepE)

lemma step_seeds_root:
  assumes "payload_step E al e q k p al'" and "is_inception p"
  shows "al_root al' \<noteq> None" and "al_id al' = Some e"
  using assms by (auto elim!: payload_stepE)

section \<open>What a step does to each collection\<close>

lemma principals_cases:
  assumes "payload_step E al e q k p al'"
  obtains (seeded) i pk where "is_inception p"
      and "al_principals al' = [i \<mapsto> \<lparr>pr_role = Controller, pr_active_key = pk\<rparr>]"
  | (same) "\<not> is_inception p" and "al_principals al' = al_principals al"
  | (admitted) e' v where "\<not> is_inception p" and "al_invitations al e' = Some v" and "iv_status v = Open"
      and "al_principals al' = (al_principals al)(iv_invitee v \<mapsto>
             \<lparr>pr_role = iv_role v, pr_active_key = iv_invitee_key v\<rparr>)"
      and "al_invitations al' = (al_invitations al)(e' \<mapsto> v\<lparr>iv_status := Accepted\<rparr>)"
      and "\<And>j p. al_principals al j = Some p \<Longrightarrow> pr_active_key p = iv_invitee_key v \<Longrightarrow> j = iv_invitee v"
      and "is_controller al (iv_invitee v) \<Longrightarrow> iv_role v \<noteq> Controller \<Longrightarrow> may_step_down al (iv_invitee v)"
  | (removed) t where "\<not> is_inception p" and "al_principals al' = (al_principals al)(t := None)"
      and "may_step_down al t"
  using assms
proof (cases rule: payload_step.cases)
  case (admit m a v)
  then show thesis by (intro that(3) [of "ac_invitation_event a" v]) auto
next
  case (remove_invited e' t v)
  then show thesis by (intro that(4) [of t]) auto
next
  case (remove_member t)
  then show thesis by (intro that(4) [of t]) auto
qed (auto intro: that(1,2))

lemma invitations_cases:
  assumes "payload_step E al e q k p al'"
  obtains (same) "al_invitations al' = al_invitations al"
  | (invited) w v where "p = PMembershipInvitation w" and "iv_invitee v = mi_invitee w"
      and "iv_invitee_key v = mi_invitee_key w" and "iv_status v = Open"
      and "al_invitations al' = (al_invitations al)(e \<mapsto> v)" and "al_principals al' = al_principals al"
      and "\<And>e'. \<not> open_for al e' (mi_invitee w)"
      and "\<And>p. al_principals al (mi_invitee w) = Some p \<Longrightarrow> pr_active_key p = mi_invitee_key w"
  | (closed) e' v st where "al_invitations al e' = Some v" and "iv_status v = Open" and "st \<noteq> Open"
      and "al_invitations al' = (al_invitations al)(e' \<mapsto> v\<lparr>iv_status := st\<rparr>)"
  using assms
proof (cases rule: payload_step.cases)
  case (invite v role)
  then show thesis by (intro that(2) [of v "\<lparr>iv_invitee = mi_invitee v, iv_invitee_key = mi_invitee_key v,
      iv_role = role, iv_status = Open\<rparr>"]) auto
next
  case (admit m a v)
  then show thesis by (intro that(3) [of "ac_invitation_event a" v Accepted]) auto
next
  case (remove_invited e' t v)
  then show thesis by (intro that(3) [of e' v Cancelled]) (auto simp: open_for_def)
qed (auto intro: that(1))

lemma trust_cases:
  assumes "payload_step E al e q k p al'"
  obtains (same) "al_trust al' = al_trust al"
  | (attested) t a where "p = PTrustAttestation t" and "at_subject a = t" and "at_revoked_by a = None"
      and "al_id al \<noteq> Some t" and "\<And>e'. \<not> standing al e' t" and "al_trust al' = (al_trust al)(e \<mapsto> a)"
      and "al_id al' = al_id al"
  | (revoked) t a where "al_trust al t = Some a" and "at_revoked_by a = None"
      and "al_trust al' = (al_trust al)(t \<mapsto> a\<lparr>at_revoked_by := Some e\<rparr>)"
  using assms
proof (cases rule: payload_step.cases)
  case (attest t sp)
  then show thesis by (intro that(2) [of t "\<lparr>at_subject = t, at_signing_principal = sp,
      at_revoked_by = None\<rparr>"]) auto
next
  case (revoke t a)
  then show thesis by (intro that(3)) auto
qed (auto intro: that(1))

section \<open>Each invariant is kept\<close>

lemma step_controlled:
  assumes "good_step E al e b p al'" and "controlled al"
  shows "\<exists>i. is_controller al' i"
  using good_stepE(1) [OF assms(1)]
proof (cases rule: principals_cases)
  case (admitted e' v)
  then obtain i where i: "is_controller al i"
    using good_stepE(6) [OF assms(1)] assms(2) by (auto simp: controlled_def)
  show ?thesis
  proof (cases "i = iv_invitee v")
    case True
    then show ?thesis
      using i admitted by (cases "iv_role v = Controller") (fastforce simp: spec_defs)+
  next
    case False
    then show ?thesis using i admitted by (auto simp: is_controller_def)
  qed
next
  case (removed t)
  then obtain i where i: "is_controller al i"
    using good_stepE(6) [OF assms(1)] assms(2) by (auto simp: controlled_def)
  then obtain j where "j \<noteq> t" "is_controller al j"
    using removed(3) by (cases "i = t") (auto simp: may_step_down_def)
  then show ?thesis using removed by (auto simp: is_controller_def)
next
  case same
  then show ?thesis
    using good_stepE(6) [OF assms(1)] assms(2) by (auto simp: controlled_def is_controller_def)
qed (auto simp: is_controller_def)

lemma step_keys_distinct:
  assumes "good_step E al e b p al'" and "keys_distinct al"
  shows "keys_distinct al'"
  using good_stepE(1) [OF assms(1)]
proof (cases rule: principals_cases)
  case (admitted e' v)
  then show ?thesis using assms(2) unfolding keys_distinct_def
    by (metis map_upd_Some_unfold principal.select_convs(2))
next
  case (removed t)
  then show ?thesis using assms(2) unfolding keys_distinct_def by (metis fun_upd_apply option.distinct(1))
qed (use assms(2) in \<open>auto simp: keys_distinct_def split: if_splits\<close>)

lemma step_root_kept:
  assumes "good_step E al e b p al'" and "root_kept al" and "not_self al"
  shows "root_kept al'"
proof (cases "is_inception p")
  case True
  with good_stepE(1) [OF assms(1)] show ?thesis
    by (cases rule: payload_step.cases) (auto simp: root_kept_def)
next
  case False
  note keep = step_keeps_root [OF good_stepE(1) [OF assms(1)] False]
  from good_stepE(1) [OF assms(1)] show ?thesis
  proof (cases rule: principals_cases)
    case (admitted e' v)
    show ?thesis
      unfolding root_kept_def keep
    proof (intro allI impI)
      fix k c assume "al_root al = Some (Raw k c)"
      with assms(2) obtain l where l: "al_id al = Some l"
        "al_principals al l = Some \<lparr>pr_role = Controller, pr_active_key = k\<rparr>"
        unfolding root_kept_def by blast
      with admitted(2) assms(3) have "l \<noteq> iv_invitee v" unfolding not_self_def by blast
      with l admitted(4) show "\<exists>l. al_id al = Some l
          \<and> al_principals al' l = Some \<lparr>pr_role = Controller, pr_active_key = k\<rparr>" by auto
    qed
  next
    case (removed t)
    show ?thesis
      unfolding root_kept_def keep
    proof (intro allI impI)
      fix k c assume root: "al_root al = Some (Raw k c)"
      with assms(2) obtain l where l: "al_id al = Some l"
        "al_principals al l = Some \<lparr>pr_role = Controller, pr_active_key = k\<rparr>"
        unfolding root_kept_def by blast
      with root removed(3) have "l \<noteq> t" unfolding may_step_down_def by blast
      with l removed(2) show "\<exists>l. al_id al = Some l
          \<and> al_principals al' l = Some \<lparr>pr_role = Controller, pr_active_key = k\<rparr>" by auto
    qed
  qed (use assms(2) keep False in \<open>auto simp: root_kept_def\<close>)
qed

lemma step_one_open:
  assumes "good_step E al e b p al'" and "one_open al"
  shows "one_open al'"
  using good_stepE(1) [OF assms(1)]
proof (cases rule: invitations_cases)
  case (invited w v)
  then have "open_for al' e1 i \<longleftrightarrow> (if e1 = e then i = mi_invitee w else open_for al e1 i)" for e1 i
    by (auto simp: open_for_def)
  then show ?thesis using assms(2) invited(7) by (auto simp: one_open_def)
next
  case (closed e' v st)
  then show ?thesis using assms(2) unfolding one_open_def open_for_def
    by (auto split: if_splits)
qed (use assms(2) in \<open>auto simp: one_open_def open_for_def\<close>)

lemma step_one_standing:
  assumes "good_step E al e b p al'" and "one_standing al"
  shows "one_standing al'"
  using good_stepE(1) [OF assms(1)]
proof (cases rule: trust_cases)
  case (attested t a)
  then have "standing al' e1 i \<longleftrightarrow> (if e1 = e then i = t else standing al e1 i)" for e1 i
    by (auto simp: standing_def)
  then show ?thesis using assms(2) attested(5) by (auto simp: one_standing_def)
next
  case (revoked t a)
  then show ?thesis using assms(2) unfolding one_standing_def standing_def
    by (auto split: if_splits)
qed (use assms(2) in \<open>auto simp: one_standing_def standing_def\<close>)

lemma step_not_self:
  assumes "good_step E al e b p al'" and "not_self al"
  shows "not_self al'"
proof (cases "is_inception p")
  case True
  with good_stepE(1,5) [OF assms(1)] show ?thesis
    by (cases rule: payload_step.cases) (auto simp: not_self_def)
next
  case False
  note step = good_stepE(1) [OF assms(1)]
  note keep = step_keeps_root [OF step False]
  have led: "al_id al = Some (eb_ledger b)" using good_stepE(6) [OF assms(1) False] by simp
  from step have "\<forall>e a. al_trust al' e = Some a \<longrightarrow> at_subject a \<noteq> eb_ledger b"
  proof (cases rule: trust_cases)
    case (revoked t a)
    then show ?thesis using assms(2) led by (auto simp: not_self_def)
  qed (use assms(2) led in \<open>auto simp: not_self_def\<close>)
  moreover from step have "\<forall>e v. al_invitations al' e = Some v \<longrightarrow> iv_invitee v \<noteq> eb_ledger b"
  proof (cases rule: invitations_cases)
    case (invited w v)
    then show ?thesis using assms(2) led good_stepE(3) [OF assms(1)] by (auto simp: not_self_def)
  qed (use assms(2) led in \<open>auto simp: not_self_def\<close>)
  ultimately show ?thesis using keep led by (auto simp: not_self_def)
qed

lemma step_open_keys:
  assumes "good_step E al e b p al'" and "open_keys al" and "one_open al"
  shows "open_keys al'"
  using good_stepE(1) [OF assms(1)]
proof (cases rule: invitations_cases)
  case (invited w v)
  then show ?thesis using assms(2) by (auto simp: open_keys_def)
next
  case (closed e' v st)
  note inv = closed
  from good_stepE(1) [OF assms(1)] show ?thesis
  proof (cases rule: principals_cases)
    case (admitted e1 v1)
    have "pr_active_key p1 = iv_invitee_key w"
      if w: "al_invitations al' e2 = Some w" "iv_status w = Open" "al_principals al' (iv_invitee w) = Some p1"
      for e2 w p1
    proof -
      have e2: "e2 \<noteq> e1" "al_invitations al e2 = Some w"
        using w(1,2) admitted(5) by (auto split: if_splits)
      have "iv_invitee w \<noteq> iv_invitee v1"
      proof
        assume same: "iv_invitee w = iv_invitee v1"
        have "open_for al e2 (iv_invitee v1)" "open_for al e1 (iv_invitee v1)"
          unfolding open_for_def using e2 w(2) admitted(2,3) same by auto
        with assms(3) e2(1) show False by (auto simp: one_open_def)
      qed
      then show ?thesis using w(2,3) e2(2) admitted(4) assms(2) by (auto simp: open_keys_def)
    qed
    then show ?thesis unfolding open_keys_def by blast
  next
    case (removed t)
    then show ?thesis using assms(2) inv by (auto simp: open_keys_def split: if_splits)
  next
    case seeded
    then show ?thesis using good_stepE(5) [OF assms(1)] inv by auto
  qed (use assms(2) inv in \<open>auto simp: open_keys_def split: if_splits\<close>)
next
  case same
  note inv = same
  from good_stepE(1) [OF assms(1)] show ?thesis
  proof (cases rule: principals_cases)
    case (admitted e1 v1)
    then have "iv_status v1 = iv_status (v1\<lparr>iv_status := Accepted\<rparr>)"
      using inv by (metis fun_upd_same option.inject)
    with admitted(3) show ?thesis by simp
  next
    case seeded
    then show ?thesis using good_stepE(5) [OF assms(1)] inv by (auto simp: open_keys_def)
  qed (use assms(2) inv in \<open>auto simp: open_keys_def split: if_splits\<close>)
qed

lemma step_all_proven:
  assumes "good_step E al e b p al'" and "all_proven E al"
  shows "all_proven E al'"
proof -
  note step = good_stepE(1) [OF assms(1)]
  from step have inv: "\<forall>e v. al_invitations al' e = Some v \<longrightarrow> proven E (iv_invitee v) (iv_invitee_key v)"
  proof (cases rule: invitations_cases)
    case (invited w v)
    have "proven E (mi_invitee w) (mi_invitee_key w)"
      using good_stepE(2) [OF assms(1)] invited(1) by (auto simp: valid_invitation_def proven_def)
    with invited assms(2) show ?thesis by (auto simp: all_proven_def)
  qed (use assms(2) in \<open>auto simp: all_proven_def split: if_splits\<close>)
  have "(\<exists>k c. al_root al' = Some (Raw k c) \<and> al_id al' = Some i \<and> pr_active_key q = k)
      \<or> proven E i (pr_active_key q)" if q: "al_principals al' i = Some q" for i q
  proof (cases "is_inception p")
    case True
    with step good_stepE(2) [OF assms(1)] q show ?thesis
      by (cases rule: payload_step.cases) (auto simp: valid_identity_root_def proven_def split: if_splits)
  next
    case False
    note keep = step_keeps_root [OF step False]
    from step show ?thesis
    proof (cases rule: principals_cases)
      case (admitted e1 v1)
      then show ?thesis using q assms(2) keep by (auto simp: all_proven_def split: if_splits)
    qed (use q assms(2) keep False in \<open>auto simp: all_proven_def split: if_splits\<close>)
  qed
  with inv show ?thesis by (simp add: all_proven_def)
qed

section \<open>Every reached ledger\<close>

lemma head_update_inv:
  assumes "al' = al\<lparr>al_head := Some h\<rparr>"
  shows "root_kept al' = root_kept al" "keys_distinct al' = keys_distinct al" "one_open al' = one_open al"
    "one_standing al' = one_standing al" "not_self al' = not_self al" "open_keys al' = open_keys al"
    "all_proven E al' = all_proven E al" "is_controller al' i = is_controller al i"
  unfolding assms by (simp_all add: inv_defs spec_defs)

theorem event_step_inv:
  assumes "event_step E al m b al'" and "ledger_inv E al" and "crypto_ok E"
  shows "ledger_inv E al'"
proof -
  have st: "started al" using assms(2) by (simp add: ledger_inv_def)
  from event_step_good [OF assms(1) st assms(3)] obtain p al1 h where
    good: "good_step E al (event_id E (se_body m)) b p al1" and al': "al' = al1\<lparr>al_head := Some h\<rparr>"
    by blast
  note inv = assms(2) [unfolded ledger_inv_def]
  have "started al'"
  proof (cases "is_inception p")
    case True
    then show ?thesis
      using step_seeds_root [OF good_stepE(1) [OF good] True] good_stepE(4) [OF good]
      by (auto simp: started_def al')
  next
    case False
    then show ?thesis
      using step_keeps_root [OF good_stepE(1) [OF good] False] good_stepE(6) [OF good False] st
      by (auto simp: started_def al')
  qed
  then show ?thesis
    unfolding ledger_inv_def head_update_inv [OF al']
    using inv step_root_kept [OF good] step_controlled [OF good] step_keys_distinct [OF good]
      step_one_open [OF good] step_one_standing [OF good] step_not_self [OF good]
      step_open_keys [OF good] step_all_proven [OF good] head_update_inv(8) [OF al']
    by (auto simp: controlled_def)
qed

theorem reached_inv:
  assumes "reached E evs al" and "crypto_ok E"
  shows "ledger_inv E al"
  using assms(1)
proof (induction rule: reached.induct)
  case start
  show ?case by (simp add: ledger_inv_def started_def inv_defs spec_defs)
next
  case (step evs al m b al')
  then show ?case using event_step_inv assms(2) by blast
qed

end
