(* ===== verification/Canonical.thy ===== *)
theory Canonical
  imports Valid_Events
begin

text \<open>
  The validator decides \<open>valid_event\<close>. The proof goes up the schema: one
  equivalence per message, each in terms of the validator's answer on its
  submessages, then the raw-rooted inception as a whole (the only message that is
  embedded), then payloads, bodies and events.
\<close>

declare validate_n.simps(2) [simp del]

section \<open>The table is in order\<close>

lemma table_ordered [simp]:
  "ordered_fields RAW_ROOT" "ordered_fields IDENTITY_ROOT" "ordered_fields INCEPTION"
  "ordered_fields WITNESS_CONFIG" "ordered_fields ENDPOINT_ADVERTISEMENT" "ordered_fields WITNESS_SET"
  "ordered_fields TRUST_ATTESTATION" "ordered_fields TRUST_REVOCATION"
  "ordered_fields MEMBERSHIP_INVITATION" "ordered_fields ACCEPTANCE"
  "ordered_fields MEMBERSHIP_ACCEPTANCE" "ordered_fields MEMBERSHIP_REMOVAL"
  "ordered_fields PROFILE_UPDATE" "ordered_fields EVENT_BODY" "ordered_fields SIGNED_EVENT"
  by (simp_all add: ordered_fields_def descriptor_defs field_defs tag_defs)

lemma table_small [simp]:
  "small_fields RAW_ROOT" "small_fields IDENTITY_ROOT" "small_fields INCEPTION"
  "small_fields WITNESS_CONFIG" "small_fields ENDPOINT_ADVERTISEMENT" "small_fields WITNESS_SET"
  "small_fields TRUST_ATTESTATION" "small_fields TRUST_REVOCATION"
  "small_fields MEMBERSHIP_INVITATION" "small_fields ACCEPTANCE"
  "small_fields MEMBERSHIP_ACCEPTANCE" "small_fields MEMBERSHIP_REMOVAL"
  "small_fields PROFILE_UPDATE" "small_fields EVENT_BODY" "small_fields SIGNED_EVENT"
  by (simp_all add: small_fields_def descriptor_defs field_defs tag_defs)

lemmas kind_sizes = kind_defs ID_BYTES_def SIG_BYTES_def NONCE_BYTES_def
  MAX_ACCEPTANCE_BYTES_def MAX_EMBEDDED_INCEPTION_BYTES_def MAX_EVENT_BYTES_def

lemma table_sizes [simp]:
  "md_max_bytes RAW_ROOT = MAX_EVENT_BYTES" "md_max_bytes IDENTITY_ROOT = MAX_EVENT_BYTES"
  "md_max_bytes INCEPTION = MAX_EVENT_BYTES" "md_max_bytes WITNESS_CONFIG = MAX_EVENT_BYTES"
  "md_max_bytes ENDPOINT_ADVERTISEMENT = MAX_EVENT_BYTES" "md_max_bytes WITNESS_SET = MAX_EVENT_BYTES"
  "md_max_bytes TRUST_ATTESTATION = MAX_EVENT_BYTES" "md_max_bytes TRUST_REVOCATION = MAX_EVENT_BYTES"
  "md_max_bytes MEMBERSHIP_INVITATION = MAX_EVENT_BYTES" "md_max_bytes ACCEPTANCE = MAX_ACCEPTANCE_BYTES"
  "md_max_bytes MEMBERSHIP_ACCEPTANCE = MAX_EVENT_BYTES"
  "md_max_bytes MEMBERSHIP_REMOVAL = MAX_EVENT_BYTES"
  "md_max_bytes PROFILE_UPDATE = MAX_EVENT_BYTES" "md_max_bytes EVENT_BODY = MAX_EVENT_BYTES"
  "md_max_bytes SIGNED_EVENT = MAX_EVENT_BYTES"
  by (simp_all add: descriptor_defs)

lemma table_oneofs [simp]:
  "md_oneof RAW_ROOT = None" "md_oneof IDENTITY_ROOT = None"
  "md_oneof INCEPTION = Some (''root'', 10)" "md_oneof WITNESS_CONFIG = None"
  "md_oneof ENDPOINT_ADVERTISEMENT = None" "md_oneof WITNESS_SET = None"
  "md_oneof TRUST_ATTESTATION = None" "md_oneof TRUST_REVOCATION = None"
  "md_oneof MEMBERSHIP_INVITATION = None" "md_oneof ACCEPTANCE = None"
  "md_oneof MEMBERSHIP_ACCEPTANCE = None" "md_oneof MEMBERSHIP_REMOVAL = None"
  "md_oneof PROFILE_UPDATE = None" "md_oneof EVENT_BODY = Some (''payload'', 10)"
  "md_oneof SIGNED_EVENT = None"
  by (simp_all add: descriptor_defs tag_defs)

lemma table_checks [simp]:
  "md_check RAW_ROOT = Some CheckRawRoot" "md_check IDENTITY_ROOT = Some CheckIdentityRoot"
  "md_check INCEPTION = None" "md_check WITNESS_CONFIG = None"
  "md_check ENDPOINT_ADVERTISEMENT = None" "md_check WITNESS_SET = None"
  "md_check TRUST_ATTESTATION = None" "md_check TRUST_REVOCATION = None"
  "md_check MEMBERSHIP_INVITATION = Some CheckMembershipInvitation" "md_check ACCEPTANCE = None"
  "md_check MEMBERSHIP_ACCEPTANCE = Some CheckMembershipAcceptance"
  "md_check MEMBERSHIP_REMOVAL = None" "md_check PROFILE_UPDATE = None"
  "md_check EVENT_BODY = Some CheckEventBody" "md_check SIGNED_EVENT = None"
  by (simp_all add: descriptor_defs)

lemma max_bytes_small [simp]:
  "MAX_EVENT_BYTES < 18446744073709551616" "MAX_ACCEPTANCE_BYTES < 18446744073709551616"
  by (simp_all add: size_defs)

section \<open>Messages without submessages\<close>

lemma ex_raw_root:
  "(\<exists>r :: pb_raw_root. P r) \<longleftrightarrow> (\<exists>a c. P \<lparr>rr_active_key = a, rr_reserve_commit = c\<rparr>)"
  by (metis pb_raw_root.cases)

lemma raw_root_iff:
  "validate_n (Suc n) E RAW_ROOT bs d = Ok s \<longleftrightarrow>
   length bs \<le> MAX_EVENT_BYTES \<and> d \<le> MAX_NESTING
   \<and> (\<exists>r. valid_raw_root r \<and> bs = enc_records (raw_root_records r)
        \<and> s = \<lparr>sc_descriptor = RAW_ROOT, sc_depth = d, sc_entries = raw_root_records r\<rparr>)"
proof -
  have shape: "blocks E V msg d (md_fields RAW_ROOT) es \<longleftrightarrow>
      (\<exists>r. (length (rr_active_key r) = ID_BYTES \<and> length (rr_reserve_commit r) = ID_BYTES)
        \<and> es = raw_root_records r)" for V msg es
    unfolding ex_raw_root raw_root_records_def by (simp add: RAW_ROOT_def block_simps kind_sizes)
  show ?thesis
    by (subst accept_plain [OF _ _ _ _ shape, where C = "\<lambda>r. rr_active_key r \<noteq> rr_reserve_commit r"])
       (auto simp: run_check_def check_raw_root_def scanned_defs raw_root_records_def
         valid_raw_root_def kind_sizes)
qed

lemma trust_attestation_iff:
  "validate_n (Suc n) E TRUST_ATTESTATION bs d = Ok s \<longleftrightarrow>
   length bs \<le> MAX_EVENT_BYTES \<and> d \<le> MAX_NESTING
   \<and> (\<exists>t. length t = ID_BYTES \<and> bs = enc_records (f_bytes 1 t)
        \<and> s = \<lparr>sc_descriptor = TRUST_ATTESTATION, sc_depth = d, sc_entries = f_bytes 1 t\<rparr>)"
proof -
  have shape: "blocks E V msg d (md_fields TRUST_ATTESTATION) es \<longleftrightarrow>
      (\<exists>t. length t = ID_BYTES \<and> es = f_bytes 1 t)" for V msg es
    by (simp add: TRUST_ATTESTATION_def block_simps kind_sizes)
  show ?thesis
    by (subst accept_plain [OF _ _ _ _ shape, where C = "\<lambda>_. True"]) (auto simp: run_check_def)
qed

lemma trust_revocation_iff:
  "validate_n (Suc n) E TRUST_REVOCATION bs d = Ok s \<longleftrightarrow>
   length bs \<le> MAX_EVENT_BYTES \<and> d \<le> MAX_NESTING
   \<and> (\<exists>t. length t = ID_BYTES \<and> bs = enc_records (f_bytes 1 t)
        \<and> s = \<lparr>sc_descriptor = TRUST_REVOCATION, sc_depth = d, sc_entries = f_bytes 1 t\<rparr>)"
proof -
  have shape: "blocks E V msg d (md_fields TRUST_REVOCATION) es \<longleftrightarrow>
      (\<exists>t. length t = ID_BYTES \<and> es = f_bytes 1 t)" for V msg es
    by (simp add: TRUST_REVOCATION_def block_simps kind_sizes)
  show ?thesis
    by (subst accept_plain [OF _ _ _ _ shape, where C = "\<lambda>_. True"]) (auto simp: run_check_def)
qed

lemma membership_removal_iff:
  "validate_n (Suc n) E MEMBERSHIP_REMOVAL bs d = Ok s \<longleftrightarrow>
   length bs \<le> MAX_EVENT_BYTES \<and> d \<le> MAX_NESTING
   \<and> (\<exists>t. length t = ID_BYTES \<and> bs = enc_records (f_bytes 1 t)
        \<and> s = \<lparr>sc_descriptor = MEMBERSHIP_REMOVAL, sc_depth = d, sc_entries = f_bytes 1 t\<rparr>)"
proof -
  have shape: "blocks E V msg d (md_fields MEMBERSHIP_REMOVAL) es \<longleftrightarrow>
      (\<exists>t. length t = ID_BYTES \<and> es = f_bytes 1 t)" for V msg es
    by (simp add: MEMBERSHIP_REMOVAL_def block_simps kind_sizes)
  show ?thesis
    by (subst accept_plain [OF _ _ _ _ shape, where C = "\<lambda>_. True"]) (auto simp: run_check_def)
qed

lemma witness_config_iff:
  "validate_n (Suc n) E WITNESS_CONFIG bs d = Ok s \<longleftrightarrow>
   length bs \<le> MAX_EVENT_BYTES \<and> d \<le> MAX_NESTING
   \<and> (\<exists>ws. valid_ids 1 MAX_WITNESSES ws \<and> bs = enc_records (f_repeated 1 ws)
        \<and> s = \<lparr>sc_descriptor = WITNESS_CONFIG, sc_depth = d, sc_entries = f_repeated 1 ws\<rparr>)"
proof -
  have shape: "blocks E V msg d (md_fields WITNESS_CONFIG) es \<longleftrightarrow>
      (\<exists>ws. valid_ids 1 MAX_WITNESSES ws \<and> es = f_repeated 1 ws)" for V msg es
    by (simp add: WITNESS_CONFIG_def block_simps kind_sizes valid_ids_def)
  show ?thesis
    by (subst accept_plain [OF _ _ _ _ shape, where C = "\<lambda>_. True"]) (auto simp: run_check_def)
qed

lemma endpoint_advertisement_iff:
  "validate_n (Suc n) E ENDPOINT_ADVERTISEMENT bs d = Ok s \<longleftrightarrow>
   length bs \<le> MAX_EVENT_BYTES \<and> d \<le> MAX_NESTING
   \<and> (\<exists>ws. valid_ids 0 MAX_ENDPOINTS ws \<and> bs = enc_records (f_repeated 1 ws)
        \<and> s = \<lparr>sc_descriptor = ENDPOINT_ADVERTISEMENT, sc_depth = d, sc_entries = f_repeated 1 ws\<rparr>)"
proof -
  have shape: "blocks E V msg d (md_fields ENDPOINT_ADVERTISEMENT) es \<longleftrightarrow>
      (\<exists>ws. valid_ids 0 MAX_ENDPOINTS ws \<and> es = f_repeated 1 ws)" for V msg es
    by (simp add: ENDPOINT_ADVERTISEMENT_def block_simps kind_sizes valid_ids_def)
  show ?thesis
    by (subst accept_plain [OF _ _ _ _ shape, where C = "\<lambda>_. True"]) (auto simp: run_check_def)
qed

lemma witness_set_iff:
  "validate_n (Suc n) E WITNESS_SET bs d = Ok s \<longleftrightarrow>
   length bs \<le> MAX_EVENT_BYTES \<and> d \<le> MAX_NESTING
   \<and> (\<exists>ws. valid_ids 0 MAX_WITNESSES ws \<and> bs = enc_records (f_repeated 1 ws)
        \<and> s = \<lparr>sc_descriptor = WITNESS_SET, sc_depth = d, sc_entries = f_repeated 1 ws\<rparr>)"
proof -
  have shape: "blocks E V msg d (md_fields WITNESS_SET) es \<longleftrightarrow>
      (\<exists>ws. valid_ids 0 MAX_WITNESSES ws \<and> es = f_repeated 1 ws)" for V msg es
    by (simp add: WITNESS_SET_def block_simps kind_sizes valid_ids_def)
  show ?thesis
    by (subst accept_plain [OF _ _ _ _ shape, where C = "\<lambda>_. True"]) (auto simp: run_check_def)
qed

lemma ex_profile_update:
  "(\<exists>p :: pb_profile_update. P p) \<longleftrightarrow>
   (\<exists>a b c. P \<lparr>pu_display_name = a, pu_hostname = b, pu_email = c\<rparr>)"
  by (metis pb_profile_update.cases)

lemma profile_update_iff:
  "validate_n (Suc n) E PROFILE_UPDATE bs d = Ok s \<longleftrightarrow>
   length bs \<le> MAX_EVENT_BYTES \<and> d \<le> MAX_NESTING
   \<and> (\<exists>p. valid_profile E p \<and> bs = enc_records (profile_update_records p)
        \<and> s = \<lparr>sc_descriptor = PROFILE_UPDATE, sc_depth = d, sc_entries = profile_update_records p\<rparr>)"
proof -
  have shape: "blocks E V msg d (md_fields PROFILE_UPDATE) es \<longleftrightarrow>
      (\<exists>p. valid_profile E p \<and> es = profile_update_records p)" for V msg es
    unfolding ex_profile_update profile_update_records_def valid_profile_def valid_text_def
    by (simp add: PROFILE_UPDATE_def block_simps check_string_def)
  show ?thesis
    by (subst accept_plain [OF _ _ _ _ shape, where C = "\<lambda>_. True"])
       (auto simp: run_check_def)
qed

lemma ex_acceptance:
  "(\<exists>a :: pb_acceptance. P a) \<longleftrightarrow>
   (\<exists>v l e i k. P \<lparr>ac_version = v, ac_ledger = l, ac_invitation_event = e, ac_invitee = i,
      ac_invitee_key = k\<rparr>)"
  by (metis pb_acceptance.cases)

lemma acceptance_iff:
  "validate_n (Suc n) E ACCEPTANCE bs d = Ok s \<longleftrightarrow>
   length bs \<le> MAX_ACCEPTANCE_BYTES \<and> d \<le> MAX_NESTING
   \<and> (\<exists>a. valid_acceptance a \<and> bs = enc_records (acceptance_records a)
        \<and> s = \<lparr>sc_descriptor = ACCEPTANCE, sc_depth = d, sc_entries = acceptance_records a\<rparr>)"
proof -
  have shape: "blocks E V msg d (md_fields ACCEPTANCE) es \<longleftrightarrow>
      (\<exists>a. valid_acceptance a \<and> es = acceptance_records a)" for V msg es
    unfolding ex_acceptance acceptance_records_def valid_acceptance_def
    by (simp add: ACCEPTANCE_def block_simps kind_sizes f_varint_def)
  show ?thesis
    by (subst accept_plain [OF _ _ _ _ shape, where C = "\<lambda>_. True"])
       (auto simp: run_check_def)
qed

section \<open>Containers, one level at a time\<close>

lemma ex_signed_event:
  "(\<exists>m :: pb_signed_event. P m) \<longleftrightarrow> (\<exists>b g. P \<lparr>se_body = b, se_signature = g\<rparr>)"
  by (metis pb_signed_event.cases)

lemma signed_event_step:
  "validate_n (Suc n) E SIGNED_EVENT bs d = Ok s \<longleftrightarrow>
   length bs \<le> MAX_EVENT_BYTES \<and> d \<le> MAX_NESTING
   \<and> (\<exists>m. (length (se_signature m) = SIG_BYTES \<and> se_body m \<noteq> [] \<and> length (se_body m) \<le> MAX_EVENT_BYTES
          \<and> (\<exists>sb. validate_n n E EVENT_BODY (se_body m) (d + 1) = Ok sb))
        \<and> bs = enc_records (signed_event_records m)
        \<and> s = \<lparr>sc_descriptor = SIGNED_EVENT, sc_depth = d, sc_entries = signed_event_records m\<rparr>)"
proof -
  have shape: "blocks E V msg d (md_fields SIGNED_EVENT) es \<longleftrightarrow>
      (\<exists>m. (length (se_signature m) = SIG_BYTES \<and> se_body m \<noteq> []
          \<and> length (se_body m) \<le> MAX_EVENT_BYTES \<and> (\<exists>sb. V EVENT_BODY (se_body m) (d + 1) = Ok sb))
        \<and> es = signed_event_records m)" for V msg es
    unfolding ex_signed_event signed_event_records_def
    by (simp add: SIGNED_EVENT_def block_simps kind_sizes) blast
  show ?thesis
    by (subst accept_plain [OF _ _ _ _ shape, where C = "\<lambda>_. True"]) (auto simp: run_check_def)
qed

definition inception_variants :: "field_descriptor list" where
  "inception_variants =
     [variant RAW_ROOT_TAG ''raw_root'' RAW_ROOT, variant IDENTITY_ROOT_TAG ''identity_root'' IDENTITY_ROOT]"

definition inception_head :: "u64 \<Rightarrow> bytes \<Rightarrow> records" where
  "inception_head kind nonce = f_varint 1 kind @ f_bytes 2 nonce"

definition kind_ok :: "u64 \<Rightarrow> bool" where
  "kind_ok v \<longleftrightarrow> v \<in> {1, 2, 3, 4}"

lemma inception_step:
  "validate_n (Suc n) E INCEPTION bs d = Ok s \<longleftrightarrow>
   length bs \<le> MAX_EVENT_BYTES \<and> d \<le> MAX_NESTING
   \<and> (\<exists>kind nonce k b. kind_ok kind \<and> length nonce = NONCE_BYTES
        \<and> choice_ok E (validate_n n E) ''Inception'' d inception_variants k b
        \<and> bs = enc_records (inception_head kind nonce @ [(k, VBytes b)])
        \<and> s = \<lparr>sc_descriptor = INCEPTION, sc_depth = d,
               sc_entries = inception_head kind nonce @ [(k, VBytes b)]\<rparr>)"
proof -
  let ?fs = "[required 1 ''kind'' K_DECLARED_KIND, required 2 ''nonce'' K_NONCE]"
  have fields: "md_fields INCEPTION = ?fs @ inception_variants" "md_name INCEPTION = ''Inception''"
    by (simp_all add: INCEPTION_def inception_variants_def)
  have head: "blocks E V msg d ?fs es \<longleftrightarrow> (\<exists>kind nonce. kind_ok kind
      \<and> length nonce = NONCE_BYTES \<and> es = inception_head kind nonce)" for V msg es
  proof -
    have "v \<noteq> 0 \<and> v \<in> fst ` set [(1, ''PERSON''), (2, ''ORGANIZATION''), (3, ''AGENT''), (4, ''SERVICE'')]
      \<longleftrightarrow> kind_ok v" for v by (auto simp: kind_ok_def)
    then show ?thesis by (simp add: block_simps kind_sizes inception_head_def)
  qed
  have shape: "(\<exists>es k b. blocks E V ''Inception'' d ?fs es
        \<and> choice_ok E V ''Inception'' d inception_variants k b \<and> es' = es @ [(k, VBytes b)])
      \<longleftrightarrow> (\<exists>m. (case m of (kind, nonce, k, b) \<Rightarrow> kind_ok kind \<and> length nonce = NONCE_BYTES
             \<and> choice_ok E V ''Inception'' d inception_variants k b)
           \<and> es' = (case m of (kind, nonce, k, b) \<Rightarrow> inception_head kind nonce @ [(k, VBytes b)]))"
    for V es'
    unfolding head split_paired_Ex prod.case by blast
  show ?thesis
    by (subst accept_oneof [OF _ _ _ _ fields(1) _ _ shape [folded fields(2)],
          where C = "\<lambda>_. True" and nm = "''root''" and t = 10])
       (auto simp: run_check_def field_defs variants_ok_def inception_variants_def fields(2))
qed

definition body_variants :: "field_descriptor list" where
  "body_variants =
     [variant INCEPTION_TAG ''inception'' INCEPTION,
      variant 11 ''witness_config'' WITNESS_CONFIG,
      variant TRUST_ATTESTATION_TAG ''trust_attestation'' TRUST_ATTESTATION,
      variant 13 ''trust_revocation'' TRUST_REVOCATION,
      variant MEMBERSHIP_INVITATION_TAG ''membership_invitation'' MEMBERSHIP_INVITATION,
      variant 15 ''membership_acceptance'' MEMBERSHIP_ACCEPTANCE,
      variant 16 ''membership_removal'' MEMBERSHIP_REMOVAL,
      variant PROFILE_UPDATE_TAG ''profile_update'' PROFILE_UPDATE,
      variant 18 ''endpoint_advertisement'' ENDPOINT_ADVERTISEMENT,
      variant 19 ''witness_set'' WITNESS_SET]"

definition body_head :: "pb_event_body \<Rightarrow> records" where
  "body_head b =
     f_bytes 2 (eb_ledger b) @ f_varint 3 (eb_seq b)
     @ f_bytes 4 (eb_prev b) @ f_varint 5 (eb_timestamp_ms b) @ f_bytes 6 (eb_author_key b)"

definition body_head_ok :: "pb_event_body \<Rightarrow> bool" where
  "body_head_ok b \<longleftrightarrow>
     eb_version b = 0 \<and> (eb_ledger b = [] \<or> length (eb_ledger b) = ID_BYTES)
     \<and> (eb_prev b = [] \<or> length (eb_prev b) = ID_BYTES)
     \<and> valid_timestamp (eb_timestamp_ms b) \<and> length (eb_author_key b) = ID_BYTES
     \<and> eb_payload b = None"

lemma ex_event_body:
  "(\<exists>b :: pb_event_body. P b) \<longleftrightarrow>
   (\<exists>v l q r t a p. P \<lparr>eb_version = v, eb_ledger = l, eb_seq = q, eb_prev = r, eb_timestamp_ms = t,
      eb_author_key = a, eb_payload = p\<rparr>)"
  by (metis pb_event_body.cases)

lemma body_head_blocks:
  "blocks E V msg d
     [forbidden 1 ''version'' K_VERSION, optional 2 ''ledger'' K_ID,
      optional 3 ''seq'' (KVarint 1 0xffffffffffffffff), optional 4 ''prev'' K_ID,
      required 5 ''timestamp_ms'' (KVarint 1 MAX_TIMESTAMP_MS), required 6 ''author_key'' K_ID] es
   \<longleftrightarrow> (\<exists>b. body_head_ok b \<and> es = body_head b)"
proof -
  have seq: "v = 0 \<or> 1 \<le> v \<and> v \<le> 0xffffffffffffffff" for v :: u64
  proof -
    have "v \<le> 0xffffffffffffffff"
      using unsigned_less [of v, where ?'a = nat] by (simp add: word_le_nat_alt)
    moreover have "v = 0 \<or> 1 \<le> v" by (metis linorder_le_less_linear word_less_1)
    ultimately show ?thesis by blast
  qed
  have ts: "v \<noteq> 0 \<and> 1 \<le> v \<and> v \<le> MAX_TIMESTAMP_MS \<longleftrightarrow> valid_timestamp v" for v
    by (auto simp: valid_timestamp_def)
  have any: "(\<exists>p. (\<exists>v. p = F v) \<and> Q p) \<longleftrightarrow> (\<exists>v. Q (F v))" for F :: "u64 \<Rightarrow> records" and Q
    by blast
  show ?thesis
    unfolding ex_event_body body_head_ok_def body_head_def
    by (simp add: block_simps kind_sizes seq ts any)
qed

lemma choice_body_number:
  "choice_ok E V msg d body_variants k b \<Longrightarrow> 10 \<le> k \<and> is_variant EVENT_BODY k"
  by (auto simp: choice_ok_def body_variants_def is_variant_def md_field_def EVENT_BODY_def field_defs tag_defs)

lemma choice_inception_number:
  "choice_ok E V msg d inception_variants k b \<Longrightarrow> 10 \<le> k \<and> is_variant INCEPTION k"
  by (auto simp: choice_ok_def inception_variants_def is_variant_def md_field_def INCEPTION_def field_defs tag_defs)

lemma body_not_variant [simp]:
  "\<not> is_variant EVENT_BODY 2" "\<not> is_variant EVENT_BODY 4" "\<not> is_variant EVENT_BODY 6"
  "\<not> is_variant INCEPTION 2"
  by (simp_all add: is_variant_def md_field_def EVENT_BODY_def INCEPTION_def field_defs tag_defs)

definition body_links_ok :: "pb_event_body \<Rightarrow> nat \<Rightarrow> bool" where
  "body_links_ok b k \<longleftrightarrow>
     (if eb_seq b = 0 then eb_ledger b = [] \<and> eb_prev b = [] else eb_ledger b \<noteq> [] \<and> eb_prev b \<noteq> [])
     \<and> (k = INCEPTION_TAG \<longleftrightarrow> eb_seq b = 0)"

abbreviation body_scan :: "nat \<Rightarrow> pb_event_body \<Rightarrow> nat \<Rightarrow> bytes \<Rightarrow> scanned" where
  "body_scan d b k p \<equiv> \<lparr>sc_descriptor = EVENT_BODY, sc_depth = d,
     sc_entries = body_head b @ [(k, VBytes p)]\<rparr>"

lemma body_scan_reads:
  assumes "10 \<le> k" and "is_variant EVENT_BODY k"
  shows "scanned_bytes (body_scan d b k p) 2 = (if eb_ledger b = [] then None else Some (eb_ledger b))"
    and "scanned_bytes (body_scan d b k p) 4 = (if eb_prev b = [] then None else Some (eb_prev b))"
    and "scanned_bytes (body_scan d b k p) 6 = (if eb_author_key b = [] then None else Some (eb_author_key b))"
    and "scanned_varint (body_scan d b k p) 3 = (if eb_seq b = 0 then None else Some (eb_seq b))"
    and "scanned_oneof (body_scan d b k p) = Some (k, p)"
  using assms by (auto simp: scanned_defs body_head_def)

lemma check_event_body_iff:
  assumes "body_head_ok b" and "choice_ok E W msg d body_variants k p"
  shows "check_event_body E V (body_scan d b k p) = Ok () \<longleftrightarrow>
    body_links_ok b k \<and> check_payload_fields E V (body_scan d b k p) k p (eb_author_key b) = Ok ()"
proof -
  note k = choice_body_number [OF assms(2)]
  have "eb_author_key b \<noteq> []" using assms(1) by (auto simp: body_head_ok_def ID_BYTES_def)
  with k show ?thesis
    by (auto simp: check_event_body_def check_chain_fields_def body_links_ok_def Let_def
        body_scan_reads split: if_splits)
qed

lemma event_body_step:
  "validate_n (Suc n) E EVENT_BODY bs d = Ok s \<longleftrightarrow>
   length bs \<le> MAX_EVENT_BYTES \<and> d \<le> MAX_NESTING
   \<and> (\<exists>b k p. body_head_ok b \<and> choice_ok E (validate_n n E) ''EventBody'' d body_variants k p
        \<and> body_links_ok b k
        \<and> check_payload_fields E (validate_n n E) (body_scan d b k p) k p (eb_author_key b) = Ok ()
        \<and> bs = enc_records (body_head b @ [(k, VBytes p)]) \<and> s = body_scan d b k p)"
proof -
  let ?fs = "[forbidden 1 ''version'' K_VERSION, optional 2 ''ledger'' K_ID,
      optional 3 ''seq'' (KVarint 1 0xffffffffffffffff), optional 4 ''prev'' K_ID,
      required 5 ''timestamp_ms'' (KVarint 1 MAX_TIMESTAMP_MS), required 6 ''author_key'' K_ID]"
  let ?V = "validate_n n E"
  have fields: "md_fields EVENT_BODY = ?fs @ body_variants" "md_name EVENT_BODY = ''EventBody''"
    by (simp_all add: EVENT_BODY_def body_variants_def)
  have shape: "(\<exists>es k p. blocks E V ''EventBody'' d ?fs es
        \<and> choice_ok E V ''EventBody'' d body_variants k p \<and> es' = es @ [(k, VBytes p)])
      \<longleftrightarrow> (\<exists>m. (case m of (b, k, p) \<Rightarrow> body_head_ok b
             \<and> choice_ok E V ''EventBody'' d body_variants k p)
           \<and> es' = (case m of (b, k, p) \<Rightarrow> body_head b @ [(k, VBytes p)]))" for V es'
    unfolding body_head_blocks split_paired_Ex prod.case by blast
  have check: "run_check E ?V (md_check EVENT_BODY) \<lparr>sc_descriptor = EVENT_BODY, sc_depth = d,
      sc_entries = (case m of (b, k, p) \<Rightarrow> body_head b @ [(k, VBytes p)])\<rparr> = Ok ()
    \<longleftrightarrow> (case m of (b, k, p) \<Rightarrow> body_links_ok b k
          \<and> check_payload_fields E ?V (body_scan d b k p) k p (eb_author_key b) = Ok ())"
    if "case m of (b, k, p) \<Rightarrow> body_head_ok b \<and> choice_ok E ?V ''EventBody'' d body_variants k p"
    for m
    using that by (auto simp: run_check_def check_event_body_iff)
  have side: "list_all (\<lambda>f. fd_cardinality f \<noteq> Variant) ?fs" "variants_ok body_variants"
    by (simp_all add: field_defs variants_ok_def body_variants_def)
  show ?thesis
    using accept_oneof [OF table_small(14) table_ordered(14) _ table_oneofs(14) fields(1) side
      shape [folded fields(2)] check [folded fields(2)], of bs s]
    by (simp add: fields(2) split_paired_Ex)
qed

end
