(* ===== verification/Canonical_Events.thy ===== *)
theory Canonical_Events
  imports Canonical
begin

text \<open>
  The validator decides \<open>valid_event\<close>, from the message equivalences of
  \<open>Canonical.thy\<close>: first the messages that carry an embedded inception, with the
  check of that inception left as it is, then inceptions, payloads and bodies with
  the records each is scanned to, then the standalone check, then all of it
  without a scanner.
\<close>

section \<open>Messages that embed an inception, and signed acceptances\<close>

lemma ex_part_more:
  "(\<exists>p. (\<exists>b. A b \<and> B b \<and> p = F b) \<and> Q p) \<longleftrightarrow> (\<exists>b. A b \<and> B b \<and> Q (F b))"
  "(\<exists>p. (\<exists>b. A b \<and> B b \<and> C b \<and> p = F b) \<and> Q p) \<longleftrightarrow> (\<exists>b. A b \<and> B b \<and> C b \<and> Q (F b))"
  by blast+

lemma ex_identity_root:
  "(\<exists>q :: pb_identity_root. P q) \<longleftrightarrow>
   (\<exists>a b c. P \<lparr>ir_founder = a, ir_founder_key = b, ir_founder_inception = c\<rparr>)"
  by (metis pb_identity_root.cases)

abbreviation identity_root_scan :: "nat \<Rightarrow> pb_identity_root \<Rightarrow> scanned" where
  "identity_root_scan d q \<equiv>
     \<lparr>sc_descriptor = IDENTITY_ROOT, sc_depth = d, sc_entries = identity_root_records q\<rparr>"

definition identity_root_fields :: "pb_identity_root \<Rightarrow> bool" where
  "identity_root_fields q \<longleftrightarrow>
     length (ir_founder q) = ID_BYTES \<and> length (ir_founder_key q) = ID_BYTES
     \<and> ir_founder_inception q \<noteq> [] \<and> length (ir_founder_inception q) \<le> MAX_EMBEDDED_INCEPTION_BYTES"

lemma identity_root_step:
  "validate_n (Suc n) E IDENTITY_ROOT bs d = Ok s \<longleftrightarrow>
   length bs \<le> MAX_EVENT_BYTES \<and> d \<le> MAX_NESTING
   \<and> (\<exists>q. identity_root_fields q
        \<and> check_identity_root E (validate_n n E) (identity_root_scan d q) = Ok ()
        \<and> bs = enc_records (identity_root_records q) \<and> s = identity_root_scan d q)"
proof -
  have shape: "blocks E V msg d (md_fields IDENTITY_ROOT) es \<longleftrightarrow>
      (\<exists>q. identity_root_fields q \<and> es = identity_root_records q)" for V msg es
    unfolding ex_identity_root identity_root_fields_def identity_root_records_def
    by (simp add: IDENTITY_ROOT_def block_simps kind_sizes ex_part_more)
  show ?thesis
    by (subst accept_plain [OF _ _ _ _ shape, where
          C = "\<lambda>q. check_identity_root E (validate_n n E) (identity_root_scan d q) = Ok ()"])
       (auto simp: run_check_def)
qed

lemma ex_invitation:
  "(\<exists>q :: pb_invitation. P q) \<longleftrightarrow>
   (\<exists>a b r c. P \<lparr>mi_invitee = a, mi_invitee_key = b, mi_role = r, mi_invitee_inception = c\<rparr>)"
  by (metis pb_invitation.cases)

abbreviation invitation_scan :: "nat \<Rightarrow> pb_invitation \<Rightarrow> scanned" where
  "invitation_scan d q \<equiv>
     \<lparr>sc_descriptor = MEMBERSHIP_INVITATION, sc_depth = d, sc_entries = invitation_records q\<rparr>"

definition invitation_fields :: "pb_invitation \<Rightarrow> bool" where
  "invitation_fields q \<longleftrightarrow>
     length (mi_invitee q) = ID_BYTES \<and> length (mi_invitee_key q) = ID_BYTES \<and> mi_role q \<in> {1, 2}
     \<and> mi_invitee_inception q \<noteq> [] \<and> length (mi_invitee_inception q) \<le> MAX_EMBEDDED_INCEPTION_BYTES"

lemma ex_role:
  "(\<exists>v :: u64. v \<noteq> 0 \<and> (v = 1 \<or> v = 2) \<and> Q v) \<longleftrightarrow>
   (\<exists>r :: nat. (r = Suc 0 \<or> r = 2) \<and> Q (word_of_nat r))"
  by (simp add: conj_disj_distribL conj_disj_distribR ex_disj_distrib)

lemma invitation_step:
  "validate_n (Suc n) E MEMBERSHIP_INVITATION bs d = Ok s \<longleftrightarrow>
   length bs \<le> MAX_EVENT_BYTES \<and> d \<le> MAX_NESTING
   \<and> (\<exists>q. invitation_fields q
        \<and> check_membership_invitation E (validate_n n E) (invitation_scan d q) = Ok ()
        \<and> bs = enc_records (invitation_records q) \<and> s = invitation_scan d q)"
proof -
  have shape: "blocks E V msg d (md_fields MEMBERSHIP_INVITATION) es \<longleftrightarrow>
      (\<exists>q. invitation_fields q \<and> es = invitation_records q)" for V msg es
    unfolding ex_invitation invitation_fields_def invitation_records_def
    by (simp add: MEMBERSHIP_INVITATION_def block_simps kind_sizes ex_part_more ex_role)
  show ?thesis
    by (subst accept_plain [OF _ _ _ _ shape, where
          C = "\<lambda>q. check_membership_invitation E (validate_n n E) (invitation_scan d q) = Ok ()"])
       (auto simp: run_check_def)
qed

lemma ex_membership_acceptance:
  "(\<exists>m :: pb_membership_acceptance. P m) \<longleftrightarrow> (\<exists>b g. P \<lparr>ma_acceptance = b, ma_signature = g\<rparr>)"
  by (metis pb_membership_acceptance.cases)

abbreviation membership_acceptance_scan :: "nat \<Rightarrow> pb_membership_acceptance \<Rightarrow> scanned" where
  "membership_acceptance_scan d m \<equiv>
     \<lparr>sc_descriptor = MEMBERSHIP_ACCEPTANCE, sc_depth = d, sc_entries = membership_acceptance_records m\<rparr>"

lemma wire_public_key_Ok:
  "wire_public_key E msg f bs = Ok k \<longleftrightarrow> k = bs \<and> length bs = ID_BYTES \<and> key_is_point E bs"
  by (auto simp: wire_public_key_def)

lemma wire_verify_Ok:
  "wire_verify E k input g msg f = Ok () \<longleftrightarrow> length g = SIG_BYTES \<and> ed_verify E k input g"
  by (auto simp: wire_verify_def)

lemma acceptance_reads:
  assumes "valid_acceptance a"
  shows "scanned_bytes \<lparr>sc_descriptor = D, sc_depth = d, sc_entries = acceptance_records a\<rparr> 5
    = Some (ac_invitee_key a)"
  using assms by (auto simp: scanned_defs acceptance_records_def valid_acceptance_def ID_BYTES_def)

lemma acceptance_not_Nil: "valid_acceptance a \<Longrightarrow> enc_records (acceptance_records a) \<noteq> []"
  by (auto simp: acceptance_records_def valid_acceptance_def ID_BYTES_def f_bytes_def)

lemma acceptance_any_depth:
  assumes "validate_n (Suc n) E ACCEPTANCE bs d = Ok s"
  shows "validate_n (Suc n) E ACCEPTANCE bs 0 = Ok (s\<lparr>sc_depth := 0\<rparr>)"
  using assms by (auto simp: acceptance_iff)

lemma detached_acceptance_iff:
  assumes "validate_n (Suc n) E ACCEPTANCE (enc_records (acceptance_records a)) d
      = Ok \<lparr>sc_descriptor = ACCEPTANCE, sc_depth = d, sc_entries = acceptance_records a\<rparr>"
    and "valid_acceptance a" and "n \<le> m"
  shows "detached_acceptance E (validate_n m E) (enc_records (acceptance_records a)) g msg = Ok () \<longleftrightarrow>
    key_is_point E (ac_invitee_key a) \<and> length g = SIG_BYTES
    \<and> ed_verify E (ac_invitee_key a) (accept_input (enc_records (acceptance_records a))) g"
proof -
  have "scan E (validate_n m E) ACCEPTANCE (enc_records (acceptance_records a)) 0
      = Ok \<lparr>sc_descriptor = ACCEPTANCE, sc_depth = 0, sc_entries = acceptance_records a\<rparr>"
    using validated_rescan [OF acceptance_any_depth [OF assms(1)], of m] assms(3) by simp
  then show ?thesis
    using assms(2) unfolding detached_acceptance_def
    by (auto simp: acceptance_reads wire_public_key_Ok wire_verify_Ok valid_acceptance_def)
qed

lemma membership_acceptance_iff:
  "validate_n (Suc (Suc n)) E MEMBERSHIP_ACCEPTANCE bs d = Ok s \<longleftrightarrow>
   length bs \<le> MAX_EVENT_BYTES \<and> d + 1 \<le> MAX_NESTING
   \<and> (\<exists>m. (\<exists>a. valid_signed_acceptance E m a \<and> length (ma_acceptance m) \<le> MAX_ACCEPTANCE_BYTES)
        \<and> bs = enc_records (membership_acceptance_records m) \<and> s = membership_acceptance_scan d m)"
proof -
  let ?V = "validate_n (Suc n) E"
  let ?S = "\<lambda>m. length (ma_signature m) = SIG_BYTES \<and> ma_acceptance m \<noteq> []
     \<and> length (ma_acceptance m) \<le> MAX_ACCEPTANCE_BYTES
     \<and> (\<exists>sb. ?V ACCEPTANCE (ma_acceptance m) (d + 1) = Ok sb)"
  have shape: "blocks E ?V msg d (md_fields MEMBERSHIP_ACCEPTANCE) es \<longleftrightarrow>
      (\<exists>m. ?S m \<and> es = membership_acceptance_records m)" for msg es
    unfolding ex_membership_acceptance membership_acceptance_records_def
    by (simp add: MEMBERSHIP_ACCEPTANCE_def block_simps kind_sizes) blast
  let ?C = "\<lambda>m. check_membership_acceptance E ?V (membership_acceptance_scan d m) = Ok ()"
  have step: "validate_n (Suc (Suc n)) E MEMBERSHIP_ACCEPTANCE bs d = Ok s \<longleftrightarrow>
     length bs \<le> MAX_EVENT_BYTES \<and> d \<le> MAX_NESTING
     \<and> (\<exists>m. ?S m \<and> ?C m \<and> bs = enc_records (membership_acceptance_records m)
          \<and> s = membership_acceptance_scan d m)"
    by (subst accept_plain [OF _ _ _ _ shape, where C = ?C]) (auto simp: run_check_def)
  have "?S m \<and> ?C m \<longleftrightarrow> d + 1 \<le> MAX_NESTING
      \<and> (\<exists>a. valid_signed_acceptance E m a \<and> length (ma_acceptance m) \<le> MAX_ACCEPTANCE_BYTES)" for m
  proof -
    have reads: "?C m \<longleftrightarrow> detached_acceptance E ?V (ma_acceptance m) (ma_signature m)
        ''MembershipAcceptance'' = Ok ()" if "?S m"
      using that by (auto simp: check_membership_acceptance_def scanned_defs SIG_BYTES_def
          membership_acceptance_records_def)
    have det: "detached_acceptance E ?V (ma_acceptance m) (ma_signature m) ''MembershipAcceptance'' = Ok ()
      \<longleftrightarrow> key_is_point E (ac_invitee_key a) \<and> length (ma_signature m) = SIG_BYTES
        \<and> ed_verify E (ac_invitee_key a) (accept_input (ma_acceptance m)) (ma_signature m)"
      if "valid_acceptance a" "ma_acceptance m = enc_records (acceptance_records a)"
        "length (ma_acceptance m) \<le> MAX_ACCEPTANCE_BYTES" "d + 1 \<le> MAX_NESTING" for a
    proof -
      have "?V ACCEPTANCE (enc_records (acceptance_records a)) (d + 1)
        = Ok \<lparr>sc_descriptor = ACCEPTANCE, sc_depth = d + 1, sc_entries = acceptance_records a\<rparr>"
        using that by (auto simp: acceptance_iff)
      from detached_acceptance_iff [OF this that(1), of "Suc n"] show ?thesis using that(2) by simp
    qed
    show ?thesis
    proof
      assume SC: "?S m \<and> ?C m"
      then obtain a where a: "valid_acceptance a" "ma_acceptance m = enc_records (acceptance_records a)"
        "d + 1 \<le> MAX_NESTING" by (auto simp: acceptance_iff)
      with SC reads det [OF a(1,2)] show "d + 1 \<le> MAX_NESTING \<and> (\<exists>a. valid_signed_acceptance E m a
          \<and> length (ma_acceptance m) \<le> MAX_ACCEPTANCE_BYTES)"
        by (auto simp: valid_signed_acceptance_def)
    next
      assume R: "d + 1 \<le> MAX_NESTING \<and> (\<exists>a. valid_signed_acceptance E m a
          \<and> length (ma_acceptance m) \<le> MAX_ACCEPTANCE_BYTES)"
      then obtain a where a: "valid_acceptance a" "ma_acceptance m = enc_records (acceptance_records a)"
        and sig: "valid_signed_acceptance E m a" by (auto simp: valid_signed_acceptance_def)
      have S: "?S m"
        using R a sig acceptance_not_Nil [OF a(1)]
        by (auto simp: acceptance_iff valid_signed_acceptance_def)
      from R have lens: "length (ma_acceptance m) \<le> MAX_ACCEPTANCE_BYTES" "d + 1 \<le> MAX_NESTING" by auto
      from sig have "key_is_point E (ac_invitee_key a)" "length (ma_signature m) = SIG_BYTES"
        "ed_verify E (ac_invitee_key a) (accept_input (ma_acceptance m)) (ma_signature m)"
        unfolding valid_signed_acceptance_def by blast+
      then have "?C m" using reads [OF S] det [OF a lens] by blast
      with S show "?S m \<and> ?C m" by blast
    qed
  qed
  then show ?thesis unfolding step by fastforce
qed

section \<open>Inceptions and payloads, with the records they scan to\<close>

text \<open>\<open>accepted E n D d es\<close>: the encoding of \<open>es\<close> validates as \<open>D\<close>, and scans to \<open>es\<close>.\<close>

definition accepted :: "env \<Rightarrow> nat \<Rightarrow> message_descriptor \<Rightarrow> nat \<Rightarrow> records \<Rightarrow> bool" where
  "accepted E n D d es \<longleftrightarrow>
     validate_n n E D (enc_records es) d = Ok \<lparr>sc_descriptor = D, sc_depth = d, sc_entries = es\<rparr>"

lemma accepted_rescan:
  "accepted E n D d es \<Longrightarrow> n \<le> Suc m \<Longrightarrow> scan E (validate_n m E) D (enc_records es) d
    = Ok \<lparr>sc_descriptor = D, sc_depth = d, sc_entries = es\<rparr>"
  unfolding accepted_def by (rule validated_rescan)

fun root_accepted :: "env \<Rightarrow> nat \<Rightarrow> nat \<Rightarrow> pb_root option \<Rightarrow> bool" where
  "root_accepted E n d None = False"
| "root_accepted E n d (Some (RawRoot r)) =
     (valid_raw_root r \<and> accepted E n RAW_ROOT d (raw_root_records r))"
| "root_accepted E n d (Some (IdentityRoot q)) =
     (identity_root_fields q \<and> accepted E n IDENTITY_ROOT d (identity_root_records q))"

definition inception_accepted :: "env \<Rightarrow> nat \<Rightarrow> nat \<Rightarrow> pb_inception \<Rightarrow> bool" where
  "inception_accepted E n d i \<longleftrightarrow>
     valid_inception_head i \<and> root_accepted E (n - 1) (d + 1) (in_root i)
     \<and> accepted E n INCEPTION d (inception_records i)"

lemma raw_root_accepted:
  assumes "validate_n (Suc n) E RAW_ROOT b d = Ok s"
  shows "\<exists>r. root_accepted E (Suc n) d (Some (RawRoot r)) \<and> b = enc_records (raw_root_records r)"
  using assms by (auto simp: accepted_def) (auto simp: raw_root_iff)

lemma identity_root_accepted:
  assumes "validate_n (Suc n) E IDENTITY_ROOT b d = Ok s"
  shows "\<exists>q. root_accepted E (Suc n) d (Some (IdentityRoot q))
    \<and> b = enc_records (identity_root_records q)"
proof -
  obtain q where q: "identity_root_fields q" "b = enc_records (identity_root_records q)"
    "s = identity_root_scan d q"
    using assms by (auto simp: identity_root_step)
  then show ?thesis using assms by (auto simp: accepted_def)
qed

lemma choice_root_accepted:
  "choice_ok E (validate_n (Suc n) E) msg d inception_variants k b \<longleftrightarrow>
   (\<exists>root. root_accepted E (Suc n) (d + 1) (Some root) \<and> root_records (Some root) = [(k, VBytes b)])"
  (is "?L \<longleftrightarrow> ?R")
proof
  assume ?L
  then consider s where "k = 10" "validate_n (Suc n) E RAW_ROOT b (d + 1) = Ok s"
    | s where "k = 11" "validate_n (Suc n) E IDENTITY_ROOT b (d + 1) = Ok s"
    by (auto simp: inception_variants_def tag_defs block_iffs)
  then show ?R
  proof cases
    case 1
    with raw_root_accepted [OF 1(2)] show ?thesis
      by (force simp: f_message_def simp del: root_accepted.simps)
  next
    case 2
    with identity_root_accepted [OF 2(2)] show ?thesis
      by (force simp: f_message_def simp del: root_accepted.simps)
  qed
next
  assume ?R
  then obtain root where "root_accepted E (Suc n) (d + 1) (Some root)"
    "root_records (Some root) = [(k, VBytes b)]" by blast
  then show ?L
    by (cases root) (auto simp: f_message_def inception_variants_def tag_defs block_iffs accepted_def)
qed

lemma kind_ok_unat: "kind_ok v \<Longrightarrow> unat v \<in> {1, 2, 3, 4}"
  by (auto simp: kind_ok_def)

lemma inception_accept:
  "validate_n (Suc (Suc n)) E INCEPTION bs d = Ok s \<longleftrightarrow>
   (\<exists>i. inception_accepted E (Suc (Suc n)) d i \<and> bs = enc_records (inception_records i)
      \<and> s = \<lparr>sc_descriptor = INCEPTION, sc_depth = d, sc_entries = inception_records i\<rparr>)"
  (is "?L \<longleftrightarrow> ?R")
proof
  assume L: ?L
  then obtain kind nonce k b where
    h: "kind_ok kind" "length nonce = NONCE_BYTES"
    and c: "choice_ok E (validate_n (Suc n) E) ''Inception'' d inception_variants k b"
    and bs: "bs = enc_records (inception_head kind nonce @ [(k, VBytes b)])"
    and s: "s = \<lparr>sc_descriptor = INCEPTION, sc_depth = d,
      sc_entries = inception_head kind nonce @ [(k, VBytes b)]\<rparr>"
    unfolding inception_step by blast
  obtain root where root: "root_accepted E (Suc n) (d + 1) (Some root)"
    "root_records (Some root) = [(k, VBytes b)]"
    using c unfolding choice_root_accepted by blast
  let ?i = "\<lparr>in_kind = unat kind, in_nonce = nonce, in_root = Some root\<rparr>"
  have rec: "inception_records ?i = inception_head kind nonce @ [(k, VBytes b)]"
    using root(2) by (simp add: inception_records_def inception_head_def)
  then have "inception_accepted E (Suc (Suc n)) d ?i"
    using L bs s root(1) kind_ok_unat [OF h(1)] h(2)
    by (simp add: inception_accepted_def valid_inception_head_def accepted_def)
  with rec bs s show ?R by metis
qed (auto simp: inception_accepted_def accepted_def)

lemma inception_accepted_iff:
  "inception_accepted E (Suc (Suc n)) d i \<longleftrightarrow>
   valid_inception_head i \<and> root_accepted E (Suc n) (d + 1) (in_root i)
   \<and> length (enc_records (inception_records i)) \<le> MAX_EVENT_BYTES \<and> d \<le> MAX_NESTING"
  (is "?L \<longleftrightarrow> ?R")
proof
  assume ?L
  then show ?R by (auto simp: inception_accepted_def accepted_def inception_step)
next
  assume R: ?R
  then obtain root where root: "in_root i = Some root" by (cases "in_root i") auto
  then obtain k b where kb: "root_records (Some root) = [(k, VBytes b)]"
    by (cases root) (auto simp: f_message_def)
  have "choice_ok E (validate_n (Suc n) E) ''Inception'' d inception_variants k b"
    using R root kb by (auto simp: choice_root_accepted)
  moreover have "inception_records i
      = inception_head (of_nat (in_kind i)) (in_nonce i) @ [(k, VBytes b)]"
    using root kb by (simp add: inception_records_def inception_head_def)
  moreover have "kind_ok (of_nat (in_kind i))"
    using R by (auto simp: valid_inception_head_def kind_ok_def)
  ultimately have "accepted E (Suc (Suc n)) INCEPTION d (inception_records i)"
    using R unfolding accepted_def inception_step valid_inception_head_def
    by (metis (no_types, lifting))
  with R show ?L by (simp add: inception_accepted_def)
qed

fun payload_accepted :: "env \<Rightarrow> nat \<Rightarrow> nat \<Rightarrow> pb_payload \<Rightarrow> bool" where
  "payload_accepted E n d (PInception i) = inception_accepted E n d i"
| "payload_accepted E n d (PWitnessConfig ws) =
     (valid_ids 1 MAX_WITNESSES ws \<and> accepted E n WITNESS_CONFIG d (f_repeated 1 ws))"
| "payload_accepted E n d (PTrustAttestation t) =
     (length t = ID_BYTES \<and> accepted E n TRUST_ATTESTATION d (f_bytes 1 t))"
| "payload_accepted E n d (PTrustRevocation t) =
     (length t = ID_BYTES \<and> accepted E n TRUST_REVOCATION d (f_bytes 1 t))"
| "payload_accepted E n d (PMembershipInvitation v) =
     (invitation_fields v \<and> accepted E n MEMBERSHIP_INVITATION d (invitation_records v))"
| "payload_accepted E n d (PMembershipAcceptance m) =
     ((\<exists>a. valid_signed_acceptance E m a \<and> length (ma_acceptance m) \<le> MAX_ACCEPTANCE_BYTES)
      \<and> accepted E n MEMBERSHIP_ACCEPTANCE d (membership_acceptance_records m))"
| "payload_accepted E n d (PMembershipRemoval t) =
     (length t = ID_BYTES \<and> accepted E n MEMBERSHIP_REMOVAL d (f_bytes 1 t))"
| "payload_accepted E n d (PProfileUpdate p) =
     (valid_profile E p \<and> accepted E n PROFILE_UPDATE d (profile_update_records p))"
| "payload_accepted E n d (PEndpointAdvertisement es) =
     (valid_ids 0 MAX_ENDPOINTS es \<and> accepted E n ENDPOINT_ADVERTISEMENT d (f_repeated 1 es))"
| "payload_accepted E n d (PWitnessSet ws) =
     (valid_ids 0 MAX_WITNESSES ws \<and> accepted E n WITNESS_SET d (f_repeated 1 ws))"

lemma ex_payload:
  "(\<exists>p. P p) \<longleftrightarrow> (\<exists>i. P (PInception i)) \<or> (\<exists>ws. P (PWitnessConfig ws))
   \<or> (\<exists>t. P (PTrustAttestation t)) \<or> (\<exists>t. P (PTrustRevocation t))
   \<or> (\<exists>v. P (PMembershipInvitation v)) \<or> (\<exists>m. P (PMembershipAcceptance m))
   \<or> (\<exists>t. P (PMembershipRemoval t)) \<or> (\<exists>q. P (PProfileUpdate q))
   \<or> (\<exists>es. P (PEndpointAdvertisement es)) \<or> (\<exists>ws. P (PWitnessSet ws))"
  by (metis pb_payload.exhaust)

lemma accepts_ex:
  assumes "\<And>s. validate_n n E D q d = Ok s \<longleftrightarrow> A \<and> B
      \<and> (\<exists>m. S m \<and> q = enc_records (R m) \<and> s = \<lparr>sc_descriptor = D, sc_depth = d, sc_entries = R m\<rparr>)"
  shows "(\<exists>s. validate_n n E D q d = Ok s) \<longleftrightarrow>
    (\<exists>m. (S m \<and> accepted E n D d (R m)) \<and> q = enc_records (R m))"
  using assms by (auto simp: accepted_def)

lemma invitation_accepts_ex:
  "(\<exists>s. validate_n (Suc n) E MEMBERSHIP_INVITATION q d = Ok s) \<longleftrightarrow>
   (\<exists>v. payload_accepted E (Suc n) d (PMembershipInvitation v) \<and> q = enc_records (invitation_records v))"
proof
  assume "\<exists>s. validate_n (Suc n) E MEMBERSHIP_INVITATION q d = Ok s"
  then obtain s where s: "validate_n (Suc n) E MEMBERSHIP_INVITATION q d = Ok s" by blast
  then obtain v where v: "invitation_fields v" "q = enc_records (invitation_records v)"
    "s = invitation_scan d v" unfolding invitation_step by blast
  with s show "\<exists>v. payload_accepted E (Suc n) d (PMembershipInvitation v)
      \<and> q = enc_records (invitation_records v)" by (auto simp: accepted_def)
qed (auto simp: accepted_def)

lemma ex_message:
  "(\<exists>x. P x \<and> f_message t (R x) = [(k, VBytes q)]) \<longleftrightarrow> k = t \<and> (\<exists>x. P x \<and> q = enc_records (R x))"
  by (auto simp: f_message_def)

lemma choice_payload_accepted:
  "choice_ok E (validate_n (Suc (Suc n)) E) msg d body_variants k q \<longleftrightarrow>
   (\<exists>p. payload_accepted E (Suc (Suc n)) (d + 1) p \<and> payload_records (Some p) = [(k, VBytes q)])"
proof -
  have inception: "(\<exists>s. validate_n (Suc (Suc n)) E INCEPTION q d' = Ok s) \<longleftrightarrow>
      (\<exists>i. inception_accepted E (Suc (Suc n)) d' i \<and> q = enc_records (inception_records i))" for d'
    using inception_accept by blast
  show ?thesis
    unfolding ex_payload body_variants_def block_iffs inception invitation_accepts_ex
      accepts_ex [OF witness_config_iff] accepts_ex [OF trust_attestation_iff]
      accepts_ex [OF trust_revocation_iff] accepts_ex [OF membership_acceptance_iff]
      accepts_ex [OF membership_removal_iff] accepts_ex [OF profile_update_iff]
      accepts_ex [OF endpoint_advertisement_iff] accepts_ex [OF witness_set_iff]
    unfolding payload_records.simps payload_accepted.simps ex_message tag_defs
    by (simp only: choice_ok_Nil simp_thms)
qed

lemma payload_one_record: "\<exists>k q. payload_records (Some p) = [(k, VBytes q)]"
  by (cases p) (auto simp: f_message_def)

lemma event_body_records_head:
  assumes "eb_version b = 0" and "payload_records (eb_payload b) = [(k, VBytes q)]"
  shows "event_body_records b = body_head b @ [(k, VBytes q)]"
  using assms by (simp add: event_body_records_def body_head_def f_varint_def)

definition body_accepted :: "env \<Rightarrow> nat \<Rightarrow> nat \<Rightarrow> pb_event_body \<Rightarrow> pb_payload \<Rightarrow> bool" where
  "body_accepted E n d b p \<longleftrightarrow>
     eb_payload b = Some p \<and> body_head_ok (b\<lparr>eb_payload := None\<rparr>)
     \<and> payload_accepted E (n - 1) (d + 1) p \<and> accepted E n EVENT_BODY d (event_body_records b)"

lemma event_body_accept:
  assumes "validate_n (Suc (Suc (Suc n))) E EVENT_BODY bs d = Ok s"
  shows "\<exists>b p. body_accepted E (Suc (Suc (Suc n))) d b p \<and> bs = enc_records (event_body_records b)
    \<and> s = \<lparr>sc_descriptor = EVENT_BODY, sc_depth = d, sc_entries = event_body_records b\<rparr>"
proof -
  obtain b k q where b: "body_head_ok b"
    and c: "choice_ok E (validate_n (Suc (Suc n)) E) ''EventBody'' d body_variants k q"
    and bs: "bs = enc_records (body_head b @ [(k, VBytes q)])" and s: "s = body_scan d b k q"
    using assms unfolding event_body_step by blast
  obtain p where p: "payload_accepted E (Suc (Suc n)) (d + 1) p" "payload_records (Some p) = [(k, VBytes q)]"
    using c unfolding choice_payload_accepted by blast
  let ?b = "b\<lparr>eb_payload := Some p\<rparr>"
  have rec: "event_body_records ?b = body_head b @ [(k, VBytes q)]"
    using event_body_records_head [of ?b k q] b p(2) by (simp add: body_head_ok_def body_head_def)
  have "body_head_ok (?b\<lparr>eb_payload := None\<rparr>)" using b by (simp add: body_head_ok_def)
  then have "body_accepted E (Suc (Suc (Suc n))) d ?b p"
    using assms p(1) rec bs s by (simp add: body_accepted_def accepted_def)
  with rec bs s show ?thesis by metis
qed

lemma body_head_reads:
  "get_bytes (body_head b) 2 = (if eb_ledger b = [] then None else Some (eb_ledger b))"
  "get_varint (body_head b) 3 = (if eb_seq b = 0 then None else Some (eb_seq b))"
  "get_bytes (body_head b) 4 = (if eb_prev b = [] then None else Some (eb_prev b))"
  "get_varint (body_head b) 5 = (if eb_timestamp_ms b = 0 then None else Some (eb_timestamp_ms b))"
  "get_bytes (body_head b) 6 = (if eb_author_key b = [] then None else Some (eb_author_key b))"
  by (simp_all add: body_head_def)

lemma body_head_inj:
  assumes "body_head b = body_head b'"
  shows "eb_ledger b = eb_ledger b'" and "eb_seq b = eb_seq b'" and "eb_prev b = eb_prev b'"
    and "eb_timestamp_ms b = eb_timestamp_ms b'" and "eb_author_key b = eb_author_key b'"
  using body_head_reads(1) [of b] body_head_reads(1) [of b'] body_head_reads(2) [of b]
    body_head_reads(2) [of b'] body_head_reads(3) [of b] body_head_reads(3) [of b']
    body_head_reads(4) [of b] body_head_reads(4) [of b'] body_head_reads(5) [of b]
    body_head_reads(5) [of b'] unfolding assms by (auto split: if_splits)

lemma inception_oneof:
  "in_root i = Some (RawRoot r) \<Longrightarrow>
   get_oneof INCEPTION (inception_records i) = Some (RAW_ROOT_TAG, enc_records (raw_root_records r))"
  "in_root i = Some (IdentityRoot q) \<Longrightarrow>
   get_oneof INCEPTION (inception_records i) = Some (IDENTITY_ROOT_TAG, enc_records (identity_root_records q))"
  by (auto simp: inception_records_def f_message_def tag_defs is_variant_def md_field_def
      INCEPTION_def field_defs)

lemma root_reads:
  "valid_raw_root r \<Longrightarrow> get_bytes (raw_root_records r) (Suc 0) = Some (rr_active_key r)"
  "identity_root_fields q \<Longrightarrow> get_bytes (identity_root_records q) (Suc 0) = Some (ir_founder q)"
  "identity_root_fields q \<Longrightarrow> get_bytes (identity_root_records q) 2 = Some (ir_founder_key q)"
  "identity_root_fields q \<Longrightarrow> get_bytes (identity_root_records q) 3 = Some (ir_founder_inception q)"
  by (auto simp: valid_raw_root_def identity_root_fields_def raw_root_records_def
      identity_root_records_def ID_BYTES_def)

lemma invitation_reads:
  assumes "invitation_fields v"
  shows "get_bytes (invitation_records v) (Suc 0) = Some (mi_invitee v)"
    and "get_bytes (invitation_records v) 2 = Some (mi_invitee_key v)"
    and "get_bytes (invitation_records v) 4 = Some (mi_invitee_inception v)"
  using assms by (auto simp: invitation_fields_def invitation_records_def ID_BYTES_def)

lemma check_payload_inception:
  assumes "inception_accepted E n (sc_depth s + 1) i" and "n \<le> Suc m"
  shows "check_payload_fields E (validate_n m E) s INCEPTION_TAG (enc_records (inception_records i)) a = Ok ()
    \<longleftrightarrow> root_key (in_root i) = a"
proof -
  have acc: "accepted E n INCEPTION (sc_depth s + 1) (inception_records i)"
    and root: "root_accepted E (n - 1) (sc_depth s + 2) (in_root i)"
    using assms(1) by (auto simp: inception_accepted_def)
  note scan = accepted_rescan [OF acc assms(2)]
  have m: "n - 1 \<le> Suc m" using assms(2) by simp
  show ?thesis
  proof (cases "in_root i")
    case (Some root)
    show ?thesis
    proof (cases root)
      case (RawRoot r)
      with root Some have r: "valid_raw_root r" "accepted E (n - 1) RAW_ROOT (sc_depth s + 2) (raw_root_records r)"
        by auto
      show ?thesis
        using scan accepted_rescan [OF r(2) m] r(1) RawRoot Some inception_oneof(1) [of i r]
        by (auto simp: check_payload_fields_def subfields_def scanned_defs root_reads Let_def)
    next
      case (IdentityRoot q)
      with root Some have q: "identity_root_fields q"
        "accepted E (n - 1) IDENTITY_ROOT (sc_depth s + 2) (identity_root_records q)"
        by auto
      show ?thesis
        using scan accepted_rescan [OF q(2) m] q(1) IdentityRoot Some inception_oneof(2) [of i q]
        by (auto simp: check_payload_fields_def subfields_def scanned_defs root_reads Let_def
            RAW_ROOT_TAG_def IDENTITY_ROOT_TAG_def)
    qed
  qed (use root in simp)
qed

lemma check_payload_iff:
  assumes "payload_accepted E n (d + 1) p" and "n \<le> Suc m" and "payload_records (Some p) = [(k, VBytes q)]"
  shows "check_payload_fields E (validate_n m E) (body_scan d b k q) k q (eb_author_key b) = Ok ()
    \<longleftrightarrow> payload_fits b p"
proof -
  have led: "scanned_bytes (body_scan d b k q) 2 = (if eb_ledger b = [] then None else Some (eb_ledger b))"
    using assms(3) by (cases p) (auto simp: f_message_def scanned_defs body_head_def)
  show ?thesis
  proof (cases p)
    case (PInception i)
    then show ?thesis
      using assms check_payload_inception [of E n "body_scan d b k q" i m]
      by (auto simp: f_message_def INCEPTION_TAG_def)
  next
    case (PTrustAttestation t)
    then have t: "length t = ID_BYTES" "k = TRUST_ATTESTATION_TAG" "q = enc_records (f_bytes 1 t)"
      and acc: "accepted E n TRUST_ATTESTATION (d + 1) (f_bytes 1 t)"
      using assms by (auto simp: f_message_def TRUST_ATTESTATION_TAG_def)
    have "get_bytes (f_bytes 1 t) 1 = Some t" using t(1) by (auto simp: ID_BYTES_def)
    then show ?thesis
      using accepted_rescan [OF acc assms(2)] t led PTrustAttestation
      by (auto simp: check_payload_fields_def subfields_def scanned_bytes_def tag_defs Let_def
          ID_BYTES_def)
  next
    case (PMembershipInvitation v)
    then have v: "invitation_fields v" "k = MEMBERSHIP_INVITATION_TAG" "q = enc_records (invitation_records v)"
      and acc: "accepted E n MEMBERSHIP_INVITATION (d + 1) (invitation_records v)"
      using assms by (auto simp: f_message_def MEMBERSHIP_INVITATION_TAG_def)
    have "mi_invitee v \<noteq> []" using v(1) by (auto simp: invitation_fields_def ID_BYTES_def)
    then show ?thesis
      using accepted_rescan [OF acc assms(2)] v led PMembershipInvitation invitation_reads(1) [OF v(1)]
      by (auto simp: check_payload_fields_def subfields_def scanned_bytes_def tag_defs Let_def)
  qed (use assms(3) in \<open>auto simp: f_message_def check_payload_fields_def tag_defs\<close>)
qed

section \<open>Bodies\<close>

lemma body_links_iff:
  assumes "body_head_ok (b\<lparr>eb_payload := None\<rparr>)" and "payload_records (Some p) = [(k, VBytes q)]"
  shows "body_links_ok b k \<longleftrightarrow> chain_ok b \<and> (is_inception p \<longleftrightarrow> eb_seq b = 0)"
proof -
  have "k = INCEPTION_TAG \<longleftrightarrow> is_inception p"
    using assms(2) by (cases p) (auto simp: f_message_def INCEPTION_TAG_def)
  with assms(1) show ?thesis
    by (auto simp: body_links_ok_def chain_ok_def body_head_ok_def ID_BYTES_def)
qed

lemma body_accepted_iff:
  "body_accepted E (Suc (Suc (Suc n))) d b p \<longleftrightarrow>
   eb_payload b = Some p \<and> body_head_ok (b\<lparr>eb_payload := None\<rparr>)
   \<and> payload_accepted E (Suc (Suc n)) (d + 1) p \<and> payload_fits b p
   \<and> chain_ok b \<and> (is_inception p \<longleftrightarrow> eb_seq b = 0)
   \<and> length (enc_records (event_body_records b)) \<le> MAX_EVENT_BYTES \<and> d \<le> MAX_NESTING"
proof -
  let ?V = "validate_n (Suc (Suc n)) E"
  obtain k q where kq: "payload_records (Some p) = [(k, VBytes q)]" using payload_one_record by blast
  have "accepted E (Suc (Suc (Suc n))) EVENT_BODY d (event_body_records b) \<longleftrightarrow>
      payload_fits b p \<and> chain_ok b \<and> (is_inception p \<longleftrightarrow> eb_seq b = 0)
      \<and> length (enc_records (event_body_records b)) \<le> MAX_EVENT_BYTES \<and> d \<le> MAX_NESTING"
    (is "?L \<longleftrightarrow> ?R")
    if b: "eb_payload b = Some p" "body_head_ok (b\<lparr>eb_payload := None\<rparr>)"
      and p: "payload_accepted E (Suc (Suc n)) (d + 1) p"
  proof -
    have rec: "event_body_records b = body_head b @ [(k, VBytes q)]"
      using b kq by (intro event_body_records_head) (auto simp: body_head_ok_def)
    have fits: "check_payload_fields E ?V (body_scan d b' k q) k q (eb_author_key b') = Ok ()
      \<longleftrightarrow> payload_fits b' p" for b'
      using check_payload_iff [OF p _ kq] by simp
    show ?thesis
    proof
      assume L: ?L
      then obtain b' k' q' where b': "body_head_ok b'" "body_links_ok b' k'"
        "check_payload_fields E ?V (body_scan d b' k' q') k' q' (eb_author_key b') = Ok ()"
        "body_head b' @ [(k', VBytes q')] = body_head b @ [(k, VBytes q)]"
        and lens: "length (enc_records (event_body_records b)) \<le> MAX_EVENT_BYTES" "d \<le> MAX_NESTING"
        unfolding accepted_def event_body_step rec by fastforce
      then have same: "k' = k" "q' = q" "body_head b' = body_head b" by auto
      note inj = body_head_inj [OF same(3)]
      have "body_links_ok b k" using b'(2) inj same by (auto simp: body_links_ok_def split: if_splits)
      moreover have "payload_fits b p"
        using b'(3) fits same inj by (cases p) auto
      ultimately show ?R using lens body_links_iff [OF b(2) kq] by simp
    next
      assume R: ?R
      let ?b = "b\<lparr>eb_payload := None\<rparr>"
      have head: "body_head ?b = body_head b" by (simp add: body_head_def)
      have "body_links_ok ?b k"
        using R body_links_iff [OF b(2) kq] by (simp add: body_links_ok_def)
      moreover have "payload_fits ?b p" using R by (cases p) auto
      moreover have "choice_ok E ?V ''EventBody'' d body_variants k q"
        using p kq choice_payload_accepted by blast
      ultimately show ?L
        using R b(2) head fits [of ?b] unfolding accepted_def event_body_step rec
        by (metis (no_types, lifting))
    qed
  qed
  then show ?thesis unfolding body_accepted_def by auto
qed

lemma enc_len:
  "(k, VBytes q) \<in> set es \<Longrightarrow> length q \<le> length (enc_records es)"
  by (induction es) auto

lemma raw_root_accepted_iff:
  "root_accepted E (Suc n) d (Some (RawRoot r)) \<longleftrightarrow>
   valid_raw_root r \<and> length (enc_records (raw_root_records r)) \<le> MAX_EVENT_BYTES \<and> d \<le> MAX_NESTING"
  by (auto simp: accepted_def raw_root_iff)

section \<open>The standalone check of an embedded inception\<close>

fun standalone_of :: "env \<Rightarrow> pb_signed_event \<Rightarrow> pb_payload \<Rightarrow> standalone_inception wire_result" where
  "standalone_of E m (PInception i) =
     (case in_root i of
        Some (RawRoot r) \<Rightarrow>
          obind (wire_public_key E ''RawRoot'' ''active_key'' (rr_active_key r)) (\<lambda>key.
          obind (wire_verify E key (sign_input (se_body m)) (se_signature m) ''SignedEvent'' ''signature'')
            (\<lambda>_. Ok \<lparr>si_event_id = event_id E (se_body m), si_identity = event_id E (se_body m),
                    si_active_key = key\<rparr>))
      | _ \<Rightarrow> Err EmbeddedInceptionNotRawRooted)"
| "standalone_of E m _ = Err EmbeddedInceptionNotRawRooted"

lemma signed_event_reads:
  assumes "length (se_signature m) = SIG_BYTES" and "se_body m \<noteq> []"
  shows "scanned_bytes \<lparr>sc_descriptor = D, sc_depth = d, sc_entries = signed_event_records m\<rparr> 1 = Some (se_body m)"
    and "scanned_bytes \<lparr>sc_descriptor = D, sc_depth = d, sc_entries = signed_event_records m\<rparr> 2 = Some (se_signature m)"
  using assms by (auto simp: scanned_defs signed_event_records_def SIG_BYTES_def)

lemma body_oneof:
  assumes "eb_payload b = Some p" and "payload_records (Some p) = [(k, VBytes q)]"
  shows "scanned_oneof \<lparr>sc_descriptor = EVENT_BODY, sc_depth = d, sc_entries = event_body_records b\<rparr> = Some (k, q)"
proof -
  have "is_variant EVENT_BODY k"
    using assms(2) by (cases p) (auto simp: f_message_def is_variant_def md_field_def EVENT_BODY_def
        field_defs tag_defs)
  with assms show ?thesis
    by (simp add: scanned_oneof_def event_body_records_def)
qed

lemma inception_standalone_compute:
  assumes "validate_n n E SIGNED_EVENT bs d = Ok sg" and "4 \<le> n"
    and "sc_entries sg = signed_event_records m" "length (se_signature m) = SIG_BYTES"
    and "body_accepted E (n - 1) (d + 1) b p" and "se_body m = enc_records (event_body_records b)"
    and "se_body m \<noteq> []"
  shows "inception_standalone E (validate_n n E) bs d = standalone_of E m p"
proof -
  let ?V = "validate_n n E"
  have p: "eb_payload b = Some p" and acc: "accepted E (n - 1) EVENT_BODY (d + 1) (event_body_records b)"
    and pa: "payload_accepted E (n - 2) (d + 2) p"
    using assms(5) by (auto simp: body_accepted_def numeral_2_eq_2)
  have body: "scan E ?V EVENT_BODY (se_body m) (d + 1)
    = Ok \<lparr>sc_descriptor = EVENT_BODY, sc_depth = d + 1, sc_entries = event_body_records b\<rparr>"
    unfolding assms(6) by (rule accepted_rescan [OF acc]) simp
  obtain k q where kq: "payload_records (Some p) = [(k, VBytes q)]" using payload_one_record by blast
  have reads: "scanned_bytes sg 1 = Some (se_body m)" "scanned_bytes sg 2 = Some (se_signature m)"
    using signed_event_reads [OF assms(4,7)] assms(3) by (simp_all add: scanned_bytes_def)
  note start = inception_standalone_def assms(1) reads body body_oneof [OF p kq]
  show ?thesis
  proof (cases p)
    case (PInception i)
    then have k: "k = INCEPTION_TAG" "q = enc_records (inception_records i)"
      using kq by (auto simp: f_message_def INCEPTION_TAG_def)
    from pa PInception have ia: "accepted E (n - 2) INCEPTION (d + 2) (inception_records i)"
      and ra: "root_accepted E (n - 3) (d + 3) (in_root i)"
      by (auto simp: inception_accepted_def numeral_3_eq_3 numeral_2_eq_2)
    have isc: "scan E ?V INCEPTION q (d + 2)
      = Ok \<lparr>sc_descriptor = INCEPTION, sc_depth = d + 2, sc_entries = inception_records i\<rparr>"
      unfolding k by (rule accepted_rescan [OF ia]) simp
    show ?thesis
    proof (cases "in_root i")
      case (Some root)
      show ?thesis
      proof (cases root)
        case (RawRoot r)
        with ra Some have r: "valid_raw_root r" "accepted E (n - 3) RAW_ROOT (d + 3) (raw_root_records r)"
          by auto
        have "scan E ?V RAW_ROOT (enc_records (raw_root_records r)) (d + 3)
          = Ok \<lparr>sc_descriptor = RAW_ROOT, sc_depth = d + 3, sc_entries = raw_root_records r\<rparr>"
          by (rule accepted_rescan [OF r(2)]) simp
        moreover have "scanned_oneof \<lparr>sc_descriptor = INCEPTION, sc_depth = d + 2,
            sc_entries = inception_records i\<rparr> = Some (RAW_ROOT_TAG, enc_records (raw_root_records r))"
          using Some RawRoot inception_oneof(1) [of i r] by (simp add: scanned_oneof_def)
        moreover have "scanned_bytes \<lparr>sc_descriptor = RAW_ROOT, sc_depth = d + 3,
            sc_entries = raw_root_records r\<rparr> 1 = Some (rr_active_key r)"
          using root_reads(1) [OF r(1)] by (simp add: scanned_bytes_def)
        ultimately show ?thesis
          using Some RawRoot isc k PInception by (simp add: start del: One_nat_def)
      next
        case (IdentityRoot q')
        then have "scanned_oneof \<lparr>sc_descriptor = INCEPTION, sc_depth = d + 2,
            sc_entries = inception_records i\<rparr>
          = Some (IDENTITY_ROOT_TAG, enc_records (identity_root_records q'))"
          using Some inception_oneof(2) [of i q'] by (simp add: scanned_oneof_def)
        then show ?thesis
          using Some IdentityRoot isc k PInception
          by (simp add: start RAW_ROOT_TAG_def IDENTITY_ROOT_TAG_def del: One_nat_def)
      qed
    qed (use ra in simp)
  qed (use kq in \<open>auto simp: start f_message_def INCEPTION_TAG_def simp del: One_nat_def\<close>)
qed

end
