(* ===== verification/Accepts.thy ===== *)
theory Accepts
  imports Canonical_Events
begin

text \<open>
  The end of the chain: the standalone check of an inception, roots,
  invitations, payloads, bodies and events, each equivalent to its rule in
  \<open>Valid_Events.thy\<close>. The depths are those at which the schema puts a message: an
  event at 0, its body at 1, its payload at 2, a root at 3 and an embedded
  inception at 3 or 4; the fuel is what those depths use up.
\<close>

section \<open>The standalone check\<close>

lemma raw_body_accepted:
  assumes "raw_inception_body b r" and "eb_payload b = Some p"
    and "length (enc_records (event_body_records b)) \<le> MAX_EVENT_BYTES" and "d + 2 \<le> MAX_NESTING"
  shows "body_accepted E (Suc (Suc (Suc (Suc n)))) d b p"
proof -
  obtain i where p: "p = PInception i" and root: "in_root i = Some (RawRoot r)"
    and head: "valid_inception_head i"
    using assms(1,2) by (auto simp: raw_inception_body_def)
  have r: "valid_raw_root r" using assms(1) by (simp add: raw_inception_body_def)
  have "length (enc_records (inception_records i)) \<le> MAX_EVENT_BYTES"
    using enc_len [of 10 "enc_records (inception_records i)" "event_body_records b"] assms(2,3) p
    by (simp add: event_body_records_def f_message_def)
  moreover from this have "length (enc_records (raw_root_records r)) \<le> MAX_EVENT_BYTES"
    using enc_len [of 10 "enc_records (raw_root_records r)" "inception_records i"] root
    by (simp add: inception_records_def f_message_def)
  ultimately have "inception_accepted E (Suc (Suc (Suc n))) (d + 1) i"
    using head root r assms(4) raw_root_accepted_iff [of E "Suc n" "d + 2" r]
    by (simp add: inception_accepted_iff)
  with assms p root show ?thesis
    by (simp add: body_accepted_iff raw_inception_body_def body_head_ok_def chain_ok_def
        valid_raw_root_def)
qed

lemma accepted_raw_body:
  assumes "body_accepted E (Suc (Suc (Suc (Suc n)))) d b (PInception i)"
    and "in_root i = Some (RawRoot r)"
  shows "raw_inception_body b r" and "d + 2 \<le> MAX_NESTING"
proof -
  have ia: "inception_accepted E (Suc (Suc (Suc n))) (d + 1) i"
    using assms(1) by (simp add: body_accepted_iff)
  then have r: "valid_raw_root r" "d + 2 \<le> MAX_NESTING" "valid_inception_head i"
    using assms(2) raw_root_accepted_iff [of E "Suc n" "d + 2" r] by (simp_all add: inception_accepted_iff)
  with assms show "raw_inception_body b r" "d + 2 \<le> MAX_NESTING"
    by (auto simp: body_accepted_iff raw_inception_body_def body_head_ok_def chain_ok_def)
qed

lemma body_not_Nil: "raw_inception_body b r \<Longrightarrow> enc_records (event_body_records b) \<noteq> []"
  by (auto simp: raw_inception_body_def event_body_records_def f_message_def)

lemma signed_body_cases:
  assumes "validate_n (Suc (Suc (Suc (Suc n)))) E SIGNED_EVENT bs d = Ok s"
  shows "\<exists>m b p. bs = enc_records (signed_event_records m)
    \<and> s = \<lparr>sc_descriptor = SIGNED_EVENT, sc_depth = d, sc_entries = signed_event_records m\<rparr>
    \<and> length (se_signature m) = SIG_BYTES \<and> se_body m \<noteq> []
    \<and> se_body m = enc_records (event_body_records b)
    \<and> body_accepted E (Suc (Suc (Suc n))) (d + 1) b p \<and> length bs \<le> MAX_EVENT_BYTES"
proof -
  from assms obtain m sb where m: "bs = enc_records (signed_event_records m)"
    "s = \<lparr>sc_descriptor = SIGNED_EVENT, sc_depth = d, sc_entries = signed_event_records m\<rparr>"
    "length (se_signature m) = SIG_BYTES" "se_body m \<noteq> []" "length bs \<le> MAX_EVENT_BYTES"
    and sb: "validate_n (Suc (Suc (Suc n))) E EVENT_BODY (se_body m) (d + 1) = Ok sb"
    unfolding signed_event_step by blast
  from event_body_accept [OF sb] obtain b p where
    "body_accepted E (Suc (Suc (Suc n))) (d + 1) b p" "se_body m = enc_records (event_body_records b)"
    by blast
  with m show ?thesis by blast
qed

lemma inception_standalone_iff:
  assumes "5 \<le> n"
  shows "inception_standalone E (validate_n n E) bs d = Ok x \<longleftrightarrow>
    length bs \<le> MAX_EVENT_BYTES \<and> d + 3 \<le> MAX_NESTING
    \<and> embedded_ok E bs (si_event_id x) (si_active_key x) \<and> si_identity x = si_event_id x"
  (is "?L \<longleftrightarrow> ?R")
proof -
  obtain k where n: "n = Suc (Suc (Suc (Suc (Suc k))))"
  proof
    show "n = Suc (Suc (Suc (Suc (Suc (n - 5)))))" using assms by simp
  qed
  show ?thesis
  proof
    assume L: ?L
    then obtain sg where sg: "validate_n n E SIGNED_EVENT bs d = Ok sg"
      by (auto simp: inception_standalone_def)
    have "n - 1 = Suc (Suc (Suc (Suc k)))" by (simp add: n)
    with signed_body_cases [OF sg [unfolded n]] obtain m b p where
      m: "bs = enc_records (signed_event_records m)" "sc_entries sg = signed_event_records m"
        "length (se_signature m) = SIG_BYTES" "se_body m \<noteq> []"
        "se_body m = enc_records (event_body_records b)" "length bs \<le> MAX_EVENT_BYTES"
      and b: "body_accepted E (n - 1) (d + 1) b p" by (metis scanned.select_convs(3))
    have "standalone_of E m p = Ok x"
      using L inception_standalone_compute [OF sg _ m(2,3) b m(5,4)] assms by simp
    then obtain i r where p: "p = PInception i" and root: "in_root i = Some (RawRoot r)"
      and key: "key_is_point E (rr_active_key r)"
        "ed_verify E (rr_active_key r) (sign_input (se_body m)) (se_signature m)"
      and x: "x = \<lparr>si_event_id = event_id E (se_body m), si_identity = event_id E (se_body m),
        si_active_key = rr_active_key r\<rparr>"
      by (cases p) (auto simp: wire_public_key_Ok wire_verify_Ok split: option.splits pb_root.splits)
    from b have "body_accepted E (Suc (Suc (Suc (Suc k)))) (d + 1) b (PInception i)"
      unfolding n p by simp
    note raw = accepted_raw_body [OF this root]
    have "embedded_ok E bs (event_id E (se_body m)) (rr_active_key r)"
      unfolding embedded_ok_def using m(1,3,5) raw(1) key by blast
    with raw(2) m(6) x show ?R by simp
  next
    assume R: ?R
    then obtain m b r where m: "bs = enc_records (signed_event_records m)"
        "se_body m = enc_records (event_body_records b)" "length (se_signature m) = SIG_BYTES"
      and raw: "raw_inception_body b r"
      and key: "key_is_point E (rr_active_key r)"
        "ed_verify E (rr_active_key r) (sign_input (se_body m)) (se_signature m)"
      and x: "si_event_id x = event_id E (se_body m)" "si_active_key x = rr_active_key r"
      by (auto simp: embedded_ok_def)
    have len: "length (se_body m) \<le> MAX_EVENT_BYTES" and ne: "se_body m \<noteq> []"
      using R m body_not_Nil [OF raw] enc_len [of 1 "se_body m" "signed_event_records m"]
      by (auto simp: signed_event_records_def f_bytes_def)
    obtain i where p: "eb_payload b = Some (PInception i)" "in_root i = Some (RawRoot r)"
      using raw by (auto simp: raw_inception_body_def)
    have b: "body_accepted E (n - 1) (d + 1) b (PInception i)"
      using raw_body_accepted [OF raw p(1), of "d + 1" E k] len m(2) R unfolding n by simp
    then have "\<exists>sb. validate_n (n - 1) E EVENT_BODY (se_body m) (d + 1) = Ok sb"
      unfolding body_accepted_def accepted_def m(2) by blast
    then have sg: "validate_n n E SIGNED_EVENT bs d
        = Ok \<lparr>sc_descriptor = SIGNED_EVENT, sc_depth = d, sc_entries = signed_event_records m\<rparr>"
      using R m len ne unfolding n signed_event_step by auto
    have "length (rr_active_key r) = ID_BYTES"
      using raw by (simp add: raw_inception_body_def valid_raw_root_def)
    then have "standalone_of E m (PInception i) = Ok x"
      using p(2) key m(3) x R by (cases x) (simp add: wire_public_key_def wire_verify_def)
    then show ?L
      using inception_standalone_compute [OF sg _ _ m(3) b m(2) ne] assms by simp
  qed
qed

section \<open>Roots and invitations\<close>

lemma check_embedded_iff:
  assumes "scanned_bytes s k = Some emb" and "scanned_bytes s (fst idf) = Some ident"
    and "scanned_bytes s (fst keyf) = Some key" and "5 \<le> n" and "length emb \<le> MAX_EVENT_BYTES"
  shows "check_embedded_inception E (validate_n n E) s k idf keyf = Ok () \<longleftrightarrow>
    sc_depth s + 4 \<le> MAX_NESTING \<and> embedded_ok E emb ident key"
proof -
  have "check_embedded_inception E (validate_n n E) s k idf keyf = Ok () \<longleftrightarrow>
    (\<exists>x. inception_standalone E (validate_n n E) emb (sc_depth s + 1) = Ok x
       \<and> si_event_id x = ident \<and> si_active_key x = key)"
    using assms(1-3) by (auto simp: check_embedded_inception_def)
  also have "\<dots> \<longleftrightarrow> sc_depth s + 4 \<le> MAX_NESTING \<and> embedded_ok E emb ident key"
    unfolding inception_standalone_iff [OF assms(4)] using assms(5)
    by (auto intro: exI [of _ "\<lparr>si_event_id = ident, si_identity = ident, si_active_key = key\<rparr>"])
  finally show ?thesis .
qed

lemma embedded_not_Nil: "embedded_ok E bs ident key \<Longrightarrow> bs \<noteq> []"
  by (auto simp: embedded_ok_def signed_event_records_def f_bytes_def SIG_BYTES_def split: if_splits)

lemma embedded_size: "length b \<le> MAX_EMBEDDED_INCEPTION_BYTES \<Longrightarrow> length b \<le> MAX_EVENT_BYTES"
  by (simp add: size_defs)

lemma identity_root_accepted_iff:
  assumes "5 \<le> n"
  shows "root_accepted E (Suc n) d (Some (IdentityRoot q)) \<longleftrightarrow>
    valid_identity_root E q \<and> length (enc_records (identity_root_records q)) \<le> MAX_EVENT_BYTES
    \<and> d + 4 \<le> MAX_NESTING"
proof -
  have check: "check_identity_root E (validate_n n E) (identity_root_scan d q) = Ok () \<longleftrightarrow>
      d + 4 \<le> MAX_NESTING \<and> embedded_ok E (ir_founder_inception q) (ir_founder q) (ir_founder_key q)"
    if "identity_root_fields q"
    unfolding check_identity_root_def
    using that assms root_reads(2-4) [OF that] check_embedded_iff [of "identity_root_scan d q" 3
        "ir_founder_inception q" "(1, ''IdentityRoot.founder'')" "ir_founder q"
        "(2, ''IdentityRoot.founder_key'')" "ir_founder_key q" n E]
    by (simp add: scanned_bytes_def identity_root_fields_def embedded_size)
  have "accepted E (Suc n) IDENTITY_ROOT d (identity_root_records q) \<longleftrightarrow>
      length (enc_records (identity_root_records q)) \<le> MAX_EVENT_BYTES \<and> d \<le> MAX_NESTING
      \<and> check_identity_root E (validate_n n E) (identity_root_scan d q) = Ok ()"
    if "identity_root_fields q"
    unfolding accepted_def identity_root_step using that by auto
  with check show ?thesis
    using embedded_not_Nil [of E "ir_founder_inception q"]
    by (auto simp: identity_root_fields_def valid_identity_root_def)
qed

lemma invitation_accepted_iff:
  assumes "5 \<le> n"
  shows "payload_accepted E (Suc n) d (PMembershipInvitation v) \<longleftrightarrow>
    valid_invitation E v \<and> length (enc_records (invitation_records v)) \<le> MAX_EVENT_BYTES
    \<and> d + 4 \<le> MAX_NESTING"
proof -
  have check: "check_membership_invitation E (validate_n n E) (invitation_scan d v) = Ok () \<longleftrightarrow>
      d + 4 \<le> MAX_NESTING \<and> embedded_ok E (mi_invitee_inception v) (mi_invitee v) (mi_invitee_key v)"
    if "invitation_fields v"
    unfolding check_membership_invitation_def
    using that assms invitation_reads [OF that] check_embedded_iff [of "invitation_scan d v" 4
        "mi_invitee_inception v" "(1, ''MembershipInvitation.invitee'')" "mi_invitee v"
        "(2, ''MembershipInvitation.invitee_key'')" "mi_invitee_key v" n E]
    by (simp add: scanned_bytes_def invitation_fields_def embedded_size)
  have "accepted E (Suc n) MEMBERSHIP_INVITATION d (invitation_records v) \<longleftrightarrow>
      length (enc_records (invitation_records v)) \<le> MAX_EVENT_BYTES \<and> d \<le> MAX_NESTING
      \<and> check_membership_invitation E (validate_n n E) (invitation_scan d v) = Ok ()"
    if "invitation_fields v"
    unfolding accepted_def invitation_step using that by auto
  with check show ?thesis
    using embedded_not_Nil [of E "mi_invitee_inception v"]
    by (auto simp: invitation_fields_def valid_invitation_def)
qed

section \<open>Payloads, bodies and events\<close>

fun payload_layout :: "pb_payload \<Rightarrow> records" where
  "payload_layout (PInception i) = inception_records i"
| "payload_layout (PWitnessConfig ws) = f_repeated 1 ws"
| "payload_layout (PTrustAttestation t) = f_bytes 1 t"
| "payload_layout (PTrustRevocation t) = f_bytes 1 t"
| "payload_layout (PMembershipInvitation v) = invitation_records v"
| "payload_layout (PMembershipAcceptance m) = membership_acceptance_records m"
| "payload_layout (PMembershipRemoval t) = f_bytes 1 t"
| "payload_layout (PProfileUpdate p) = profile_update_records p"
| "payload_layout (PEndpointAdvertisement es) = f_repeated 1 es"
| "payload_layout (PWitnessSet ws) = f_repeated 1 ws"

lemma payload_layout_size:
  assumes "eb_payload b = Some p"
  shows "length (enc_records (payload_layout p)) \<le> length (enc_records (event_body_records b))"
  using assms by (cases p) (auto simp: event_body_records_def f_message_def)

lemma root_layout_size:
  "in_root i = Some (RawRoot r) \<Longrightarrow>
   length (enc_records (raw_root_records r)) \<le> length (enc_records (inception_records i))"
  "in_root i = Some (IdentityRoot q) \<Longrightarrow>
   length (enc_records (identity_root_records q)) \<le> length (enc_records (inception_records i))"
  by (auto simp: inception_records_def f_message_def)

lemma inception_payload_iff:
  assumes "7 \<le> n" and "d + 5 \<le> MAX_NESTING"
  shows "inception_accepted E n d i \<longleftrightarrow>
    payload_ok E (PInception i) \<and> length (enc_records (inception_records i)) \<le> MAX_EVENT_BYTES"
proof -
  obtain k where n: "n = Suc (Suc k)" and k: "5 \<le> k"
  proof
    show "n = Suc (Suc (n - 2))" and "5 \<le> n - 2" using assms(1) by simp_all
  qed
  show ?thesis
  proof (cases "in_root i")
    case (Some root)
    then show ?thesis
      using assms(2) raw_root_accepted_iff [of E k "d + 1"] identity_root_accepted_iff [OF k, of E "d + 1"]
        root_layout_size [of i]
      by (cases root) (auto simp: n inception_accepted_iff simp del: root_accepted.simps)
  qed (auto simp: n inception_accepted_iff)
qed

lemma accepted_of_iff:
  assumes "\<And>s. validate_n n E D (enc_records (R m)) d = Ok s \<longleftrightarrow> length (enc_records (R m)) \<le> mx \<and> c
      \<and> (\<exists>m'. S m' \<and> enc_records (R m) = enc_records (R m')
           \<and> s = \<lparr>sc_descriptor = D, sc_depth = d, sc_entries = R m'\<rparr>)"
    and "c"
  shows "S m \<and> accepted E n D d (R m) \<longleftrightarrow> S m \<and> length (enc_records (R m)) \<le> mx"
  using assms unfolding accepted_def by blast

lemma payload_accepted_iff:
  assumes "7 \<le> n" and "d + 5 \<le> MAX_NESTING"
  shows "payload_accepted E n d p \<longleftrightarrow>
    payload_ok E p \<and> length (enc_records (payload_layout p)) \<le> MAX_EVENT_BYTES"
proof -
  obtain k where n: "n = Suc (Suc k)" and k: "5 \<le> Suc k"
  proof
    show "n = Suc (Suc (n - 2))" and "5 \<le> Suc (n - 2)" using assms(1) by simp_all
  qed
  have d: "d \<le> MAX_NESTING" "d + 1 \<le> MAX_NESTING" "d + 4 \<le> MAX_NESTING" using assms(2) by simp_all
  note leaf = accepted_of_iff [where E = E and d = d, OF witness_config_iff d(1)]
    accepted_of_iff [where E = E and d = d, OF trust_attestation_iff d(1)]
    accepted_of_iff [where E = E and d = d, OF trust_revocation_iff d(1)]
    accepted_of_iff [where E = E and d = d, OF membership_removal_iff d(1)]
    accepted_of_iff [where E = E and d = d, OF profile_update_iff d(1)]
    accepted_of_iff [where E = E and d = d, OF endpoint_advertisement_iff d(1)]
    accepted_of_iff [where E = E and d = d, OF witness_set_iff d(1)]
    accepted_of_iff [where E = E and d = d, OF membership_acceptance_iff d(2)]
  show ?thesis
  proof (cases p)
    case (PInception i)
    then show ?thesis using inception_payload_iff [OF assms] by simp
  next
    case (PMembershipInvitation v)
    then show ?thesis using invitation_accepted_iff [OF k, of E d v] d(3) unfolding n by simp
  qed (use leaf in \<open>simp_all only: n payload_accepted.simps payload_ok.simps payload_layout.simps\<close>)
qed

lemma event_body_iff:
  assumes "8 \<le> n" and "d + 6 \<le> MAX_NESTING"
  shows "validate_n n E EVENT_BODY bs d = Ok s \<longleftrightarrow>
    length bs \<le> MAX_EVENT_BYTES \<and> (\<exists>b. valid_body E b \<and> bs = enc_records (event_body_records b)
      \<and> s = \<lparr>sc_descriptor = EVENT_BODY, sc_depth = d, sc_entries = event_body_records b\<rparr>)"
proof -
  obtain k where n: "n = Suc (Suc (Suc k))" and k: "7 \<le> Suc (Suc k)"
  proof
    show "n = Suc (Suc (Suc (n - 3)))" and "7 \<le> Suc (Suc (n - 3))" using assms(1) by simp_all
  qed
  have body: "body_accepted E n d b p \<longleftrightarrow> eb_payload b = Some p \<and> valid_body E b
      \<and> length (enc_records (event_body_records b)) \<le> MAX_EVENT_BYTES" for b p
    unfolding n body_accepted_iff
    using payload_accepted_iff [OF k, of "d + 1" E p] assms(2) payload_layout_size [of b p]
    by (auto simp: valid_body_def body_head_ok_def chain_ok_def)
  show ?thesis
  proof
    assume L: "validate_n n E EVENT_BODY bs d = Ok s"
    with event_body_accept [of k E bs d s] body show "length bs \<le> MAX_EVENT_BYTES
      \<and> (\<exists>b. valid_body E b \<and> bs = enc_records (event_body_records b)
      \<and> s = \<lparr>sc_descriptor = EVENT_BODY, sc_depth = d, sc_entries = event_body_records b\<rparr>)"
      unfolding n by blast
  next
    assume R: "length bs \<le> MAX_EVENT_BYTES
      \<and> (\<exists>b. valid_body E b \<and> bs = enc_records (event_body_records b)
      \<and> s = \<lparr>sc_descriptor = EVENT_BODY, sc_depth = d, sc_entries = event_body_records b\<rparr>)"
    then obtain b where b: "valid_body E b" "bs = enc_records (event_body_records b)"
      "s = \<lparr>sc_descriptor = EVENT_BODY, sc_depth = d, sc_entries = event_body_records b\<rparr>" by blast
    from b(1) obtain p where "eb_payload b = Some p" by (auto simp: valid_body_def split: option.splits)
    with R b have "body_accepted E n d b p" unfolding body by simp
    with b show "validate_n n E EVENT_BODY bs d = Ok s" by (simp add: body_accepted_def accepted_def)
  qed
qed

lemma valid_body_not_Nil: "valid_body E b \<Longrightarrow> enc_records (event_body_records b) \<noteq> []"
  by (auto simp: valid_body_def event_body_records_def f_bytes_def ID_BYTES_def split: if_splits)

lemma signed_event_iff: "signed_event E bs = Ok () \<longleftrightarrow> (\<exists>m b. valid_event E bs m b)"
proof -
  have "signed_event E bs = Ok () \<longleftrightarrow> (\<exists>s. validate_n (Suc 19) E SIGNED_EVENT bs 0 = Ok s)"
    by (simp add: signed_event_def message_def validate_def VALIDATE_FUEL_def numeral_eq_Suc)
  also have "\<dots> \<longleftrightarrow> length bs \<le> MAX_EVENT_BYTES
     \<and> (\<exists>m. bs = enc_records (signed_event_records m) \<and> length (se_signature m) = SIG_BYTES
        \<and> se_body m \<noteq> [] \<and> length (se_body m) \<le> MAX_EVENT_BYTES
        \<and> (\<exists>b. valid_body E b \<and> se_body m = enc_records (event_body_records b)))"
    unfolding signed_event_step using event_body_iff [of 19 1 E]
    by (auto simp: MAX_NESTING_def)
  also have "\<dots> \<longleftrightarrow> (\<exists>m b. valid_event E bs m b)"
  proof -
    have "length (se_body m) \<le> length (enc_records (signed_event_records m))" for m
      by (auto simp: signed_event_records_def f_bytes_def)
    then show ?thesis
      unfolding valid_event_def using valid_body_not_Nil [of E] by (metis order_trans)
  qed
  finally show ?thesis .
qed

lemma event_body_valid_iff:
  "event_body E bs = Ok () \<longleftrightarrow>
   length bs \<le> MAX_EVENT_BYTES \<and> (\<exists>b. valid_body E b \<and> bs = enc_records (event_body_records b))"
  using event_body_iff [of 20 0 E bs]
  by (auto simp: event_body_def message_def validate_def VALIDATE_FUEL_def MAX_NESTING_def)

lemma acceptance_valid_iff:
  "acceptance E bs = Ok () \<longleftrightarrow>
   length bs \<le> MAX_ACCEPTANCE_BYTES
   \<and> (\<exists>a. valid_acceptance a \<and> bs = enc_records (acceptance_records a))"
  using acceptance_iff [of 19 E bs 0]
  by (auto simp: acceptance_def message_def validate_def VALIDATE_FUEL_def)

lemma standalone_valid_iff:
  "verify_inception_standalone E bs = Ok x \<longleftrightarrow>
   length bs \<le> MAX_EVENT_BYTES \<and> embedded_ok E bs (si_event_id x) (si_active_key x)
   \<and> si_identity x = si_event_id x"
  using inception_standalone_iff [of 20 E bs 0 x]
  by (simp add: verify_inception_standalone_def validate_def VALIDATE_FUEL_def MAX_NESTING_def)

end
