(* ===== verification/Validate_Total.thy ===== *)
theory Validate_Total
  imports Accepts
begin

text \<open>
  The validator never panics: no \<open>expect\<close> fails and the fuel of the model is
  never used up, for every message of the table and every byte string. The rules
  each \<open>expect\<close> relies on are the ones its comment names: the cardinality pass
  found the field, or the bytes were validated before.
\<close>

definition CORE_TABLE :: "message_descriptor list" where
  "CORE_TABLE = [RAW_ROOT, IDENTITY_ROOT, INCEPTION, WITNESS_CONFIG, ENDPOINT_ADVERTISEMENT,
     WITNESS_SET, TRUST_ATTESTATION, TRUST_REVOCATION, MEMBERSHIP_INVITATION, ACCEPTANCE,
     MEMBERSHIP_ACCEPTANCE, MEMBERSHIP_REMOVAL, PROFILE_UPDATE, EVENT_BODY, SIGNED_EVENT]"

text \<open>A field's submessages are in the table, at the next depth.\<close>

fun sub_ok :: "field_kind \<Rightarrow> bool" where
  "sub_ok (KNested D _) = (D \<in> set CORE_TABLE)"
| "sub_ok (KMessage D) = (D \<in> set CORE_TABLE)"
| "sub_ok (KDetached D) = False"
| "sub_ok _ = True"

definition closed_desc :: "message_descriptor \<Rightarrow> bool" where
  "closed_desc D \<longleftrightarrow> list_all (\<lambda>f. sub_ok (fd_kind f)) (md_fields D)"

lemmas field_lists =
  RAW_ROOT_def [THEN arg_cong, of md_fields, unfolded message_descriptor.sel]
  IDENTITY_ROOT_def [THEN arg_cong, of md_fields, unfolded message_descriptor.sel]
  INCEPTION_def [THEN arg_cong, of md_fields, unfolded message_descriptor.sel]
  WITNESS_CONFIG_def [THEN arg_cong, of md_fields, unfolded message_descriptor.sel]
  ENDPOINT_ADVERTISEMENT_def [THEN arg_cong, of md_fields, unfolded message_descriptor.sel]
  WITNESS_SET_def [THEN arg_cong, of md_fields, unfolded message_descriptor.sel]
  TRUST_ATTESTATION_def [THEN arg_cong, of md_fields, unfolded message_descriptor.sel]
  TRUST_REVOCATION_def [THEN arg_cong, of md_fields, unfolded message_descriptor.sel]
  MEMBERSHIP_INVITATION_def [THEN arg_cong, of md_fields, unfolded message_descriptor.sel]
  ACCEPTANCE_def [THEN arg_cong, of md_fields, unfolded message_descriptor.sel]
  MEMBERSHIP_ACCEPTANCE_def [THEN arg_cong, of md_fields, unfolded message_descriptor.sel]
  MEMBERSHIP_REMOVAL_def [THEN arg_cong, of md_fields, unfolded message_descriptor.sel]
  PROFILE_UPDATE_def [THEN arg_cong, of md_fields, unfolded message_descriptor.sel]
  EVENT_BODY_def [THEN arg_cong, of md_fields, unfolded message_descriptor.sel]
  SIGNED_EVENT_def [THEN arg_cong, of md_fields, unfolded message_descriptor.sel]

lemma table_closed: "D \<in> set CORE_TABLE \<Longrightarrow> closed_desc D"
proof -
  have mem: "RAW_ROOT \<in> set CORE_TABLE" "IDENTITY_ROOT \<in> set CORE_TABLE" "INCEPTION \<in> set CORE_TABLE"
    "WITNESS_CONFIG \<in> set CORE_TABLE" "ENDPOINT_ADVERTISEMENT \<in> set CORE_TABLE"
    "WITNESS_SET \<in> set CORE_TABLE" "TRUST_ATTESTATION \<in> set CORE_TABLE"
    "TRUST_REVOCATION \<in> set CORE_TABLE" "MEMBERSHIP_INVITATION \<in> set CORE_TABLE"
    "ACCEPTANCE \<in> set CORE_TABLE" "MEMBERSHIP_ACCEPTANCE \<in> set CORE_TABLE"
    "MEMBERSHIP_REMOVAL \<in> set CORE_TABLE" "PROFILE_UPDATE \<in> set CORE_TABLE"
    "EVENT_BODY \<in> set CORE_TABLE" "SIGNED_EVENT \<in> set CORE_TABLE"
    by (simp_all add: CORE_TABLE_def)
  have "closed_desc RAW_ROOT" "closed_desc IDENTITY_ROOT" "closed_desc INCEPTION"
    "closed_desc WITNESS_CONFIG" "closed_desc ENDPOINT_ADVERTISEMENT" "closed_desc WITNESS_SET"
    "closed_desc TRUST_ATTESTATION" "closed_desc TRUST_REVOCATION" "closed_desc MEMBERSHIP_INVITATION"
    "closed_desc ACCEPTANCE" "closed_desc MEMBERSHIP_ACCEPTANCE" "closed_desc MEMBERSHIP_REMOVAL"
    "closed_desc PROFILE_UPDATE" "closed_desc EVENT_BODY" "closed_desc SIGNED_EVENT"
    unfolding closed_desc_def
    by (simp_all add: field_lists field_defs kind_defs mem)
  then show "D \<in> set CORE_TABLE \<Longrightarrow> closed_desc D" unfolding CORE_TABLE_def by auto
qed

section \<open>The scanner\<close>

lemma check_bytes_not_Panic:
  assumes "wire_kind_of (fd_kind f) = WLen" and "sub_ok (fd_kind f)"
    and "\<And>D b. D \<in> set CORE_TABLE \<Longrightarrow> V D b (d + 1) \<noteq> Panic"
  shows "check_bytes E V f msg b d \<noteq> Panic"
proof -
  have rule: "check_string E r msg n t \<noteq> Panic" for r n t
    by (cases r) (auto simp: check_string_def check_display_name_not_Panic check_hostname_not_Panic
        check_email_not_Panic)
  have len: "check_length f msg b mx \<noteq> Panic" for mx by (simp add: check_length_def)
  show ?thesis
    using assms rule len by (cases "fd_kind f") (auto simp: check_bytes_def split: option.splits)
qed

lemma check_varint_not_Panic:
  "wire_kind_of (fd_kind f) = WVarint \<Longrightarrow> check_varint f msg v \<noteq> Panic"
  by (cases "fd_kind f") (auto simp: check_varint_def)

lemma scan_loop_not_Panic:
  assumes "closed_desc D" and "\<And>D' b. D' \<in> set CORE_TABLE \<Longrightarrow> V D' b (d + 1) \<noteq> Panic"
  shows "scan_loop E V D d pre l bs \<noteq> Panic"
proof (induction "length bs" arbitrary: pre l bs rule: less_induct)
  case less
  have val: "read_value E V D f d bs' \<noteq> Panic" if "md_field D k = Some f" for f k bs'
    using that md_field_number [OF that] assms check_bytes_not_Panic [of f V d E "md_name D"]
      check_varint_not_Panic [of f "md_name D"]
    by (auto simp: read_value_def closed_desc_def list_all_iff split: wire_kind.splits)
  have rec: "scan_loop E V D d pre' l' bs2 \<noteq> Panic"
    if "read_varint (md_name D) bs = Ok (key, bs1)" "read_value E V D f d bs1 = Ok (v, bs2)"
    for key bs1 f v bs2 pre' l'
    using less read_varint_shorter [OF that(1)] read_value_shorter [OF that(2)] by simp
  show ?case
    using val rec by (subst scan_loop.simps) (auto simp: Let_def)
qed

lemma scan_not_Panic:
  assumes "closed_desc D"
    and "\<And>D' b. d \<le> MAX_NESTING \<Longrightarrow> D' \<in> set CORE_TABLE \<Longrightarrow> V D' b (d + 1) \<noteq> Panic"
  shows "scan E V D bs d \<noteq> Panic"
  using scan_loop_not_Panic [OF assms(1), of V d E "[]" 0 bs] assms(2) by (auto simp: scan_def)

lemma check_cardinality_not_Panic [simp]: "check_cardinality s \<noteq> Panic"
proof -
  have "check_field_cardinality s f \<noteq> Panic" for f
    by (auto simp: check_field_cardinality_def Let_def split: cardinality.splits)
  then show ?thesis
    by (auto simp: check_cardinality_def for_each_not_Panic Let_def split: option.splits)
qed

section \<open>Fields the cardinality pass found\<close>

lemma get_bytes_Some: "get_bytes es k = Some b \<Longrightarrow> (k, VBytes b) \<in> set es"
  by (induction es k rule: get_bytes.induct) (auto split: if_splits)

lemma get_bytes_mem: "(k, VBytes b) \<in> set es \<Longrightarrow> \<exists>b'. get_bytes es k = Some b'"
  by (induction es k rule: get_bytes.induct) auto

lemma get_oneof_Some: "get_oneof D es = Some (k, b) \<Longrightarrow> (k, VBytes b) \<in> set es \<and> is_variant D k"
  by (induction D es rule: get_oneof.induct) (auto split: if_splits)

lemma get_oneof_mem:
  "(k, VBytes b) \<in> set es \<Longrightarrow> is_variant D k \<Longrightarrow> \<exists>k' b'. get_oneof D es = Some (k', b')"
  by (induction D es rule: get_oneof.induct) auto

lemma scan_entries:
  assumes "scan E V D bs d = Ok s" and "small_fields D"
  shows "d \<le> MAX_NESTING" and "sc_descriptor s = D" and "sc_depth s = d"
    and "e \<in> set (sc_entries s) \<Longrightarrow> entry_ok E V D d e"
proof -
  obtain es where "scan_loop E V D d [] 0 bs = Ok es" "d \<le> MAX_NESTING"
    "s = \<lparr>sc_descriptor = D, sc_depth = d, sc_entries = es\<rparr>"
    using assms(1) by (auto simp: scan_def split: if_splits)
  then show "d \<le> MAX_NESTING" "sc_descriptor s = D" "sc_depth s = d"
    "e \<in> set (sc_entries s) \<Longrightarrow> entry_ok E V D d e"
    by (auto simp: scan_loop_iff [OF assms(2)] list_all_iff)
qed

lemma required_present:
  assumes "scan E V D bs d = Ok s" and "check_cardinality s = Ok ()" and "small_fields D"
    and "md_field D k = Some f" and "fd_cardinality f = Required" and "wire_kind_of (fd_kind f) = WLen"
  shows "\<exists>b. scanned_bytes s k = Some b \<and> check_bytes E V f (md_name D) b d = Ok ()"
proof -
  note ent = scan_entries [OF assms(1,3)]
  have f: "f \<in> set (md_fields D)" "fd_number f = k" using md_field_number [OF assms(4)] by auto
  have "check_field_cardinality s f = Ok ()"
    using assms(2) f(1) ent(2) by (auto simp: check_cardinality_def for_each_Ok)
  then have "scanned_count s k \<noteq> 0"
    using assms(5) f(2) by (auto simp: check_field_cardinality_def Let_def split: if_splits)
  then obtain e where e: "e \<in> set (sc_entries s)" "fst e = k"
    by (auto simp: scanned_count_def count_field_def filter_empty_conv)
  have val: "\<exists>b. e = (k, VBytes b) \<and> check_bytes E V f (md_name D) b d = Ok ()"
    if "e \<in> set (sc_entries s)" "fst e = k" for e
    using ent(4) [OF that(1)] that(2) assms(4,6)
    by (cases e; cases "snd e") (auto simp: entry_ok_def)
  from val [OF e] e obtain b where "get_bytes (sc_entries s) k = Some b"
    using get_bytes_mem by metis
  with val [of "(k, VBytes b)"] get_bytes_Some [of "sc_entries s" k b] show ?thesis
    by (auto simp: scanned_bytes_def)
qed

lemma oneof_present:
  assumes "scan E V D bs d = Ok s" and "check_cardinality s = Ok ()" and "small_fields D"
    and "ordered_fields D" and "md_oneof D = Some (nm, t)"
    and "list_all (\<lambda>f. fd_cardinality f = Variant \<longrightarrow> wire_kind_of (fd_kind f) = WLen) (md_fields D)"
  shows "\<exists>k b f. scanned_oneof s = Some (k, b) \<and> md_field D k = Some f \<and> fd_cardinality f = Variant
    \<and> check_bytes E V f (md_name D) b d = Ok ()"
proof -
  note ent = scan_entries [OF assms(1,3)]
  let ?vs = "filter (\<lambda>f. fd_cardinality f = Variant \<and> scanned_count s (fd_number f) > 0) (md_fields D)"
  have "length ?vs \<noteq> 0"
    using assms(2,5) ent(2) by (auto simp: check_cardinality_def Let_def split: if_splits)
  then obtain g where g: "g \<in> set (md_fields D)" "fd_cardinality g = Variant"
    "scanned_count s (fd_number g) > 0" by (auto simp: filter_empty_conv)
  note field = md_field_mem [OF assms(4) g(1)]
  have val: "\<exists>b. e = (k, VBytes b) \<and> check_bytes E V f (md_name D) b d = Ok ()"
    if "e \<in> set (sc_entries s)" "fst e = k" "md_field D k = Some f" "fd_cardinality f = Variant" for e k f
    using ent(4) [OF that(1)] that(2-) assms(6) md_field_number [OF that(3)]
    by (cases e; cases "snd e") (auto simp: entry_ok_def list_all_iff)
  obtain e where e: "e \<in> set (sc_entries s)" "fst e = fd_number g"
    using g(3) by (auto simp: scanned_count_def count_field_def filter_empty_conv)
  have "is_variant D (fd_number g)" using field g(2) by (simp add: is_variant_def)
  then obtain k b where kb: "get_oneof D (sc_entries s) = Some (k, b)"
    using val [OF e field g(2)] e get_oneof_mem by metis
  from get_oneof_Some [OF kb] obtain f where f: "md_field D k = Some f" "fd_cardinality f = Variant"
    "(k, VBytes b) \<in> set (sc_entries s)" by (auto simp: is_variant_def split: option.splits)
  with val [OF f(3) _ f(1,2)] kb ent(2) show ?thesis by (auto simp: scanned_oneof_def)
qed

section \<open>The cross-field rules\<close>

lemma standalone_of_not_Panic: "standalone_of E m p \<noteq> Panic"
  by (cases p) (auto simp: wire_public_key_def wire_verify_def split: option.splits pb_root.splits)

lemma inception_standalone_not_Panic:
  assumes "validate_n n E SIGNED_EVENT bs d \<noteq> Panic" and "5 \<le> n"
  shows "inception_standalone E (validate_n n E) bs d \<noteq> Panic"
proof (cases "validate_n n E SIGNED_EVENT bs d")
  case (Ok sg)
  obtain k where n: "n = Suc (Suc (Suc (Suc k)))"
  proof
    show "n = Suc (Suc (Suc (Suc (n - 4))))" using assms(2) by simp
  qed
  have n1: "n - 1 = Suc (Suc (Suc k))" by (simp add: n)
  from signed_body_cases [OF Ok [unfolded n]] obtain m b p where
    m: "sc_entries sg = signed_event_records m" "length (se_signature m) = SIG_BYTES" "se_body m \<noteq> []"
      "se_body m = enc_records (event_body_records b)"
    and b: "body_accepted E (n - 1) (d + 1) b p" unfolding n1 by (metis scanned.select_convs(3))
  show ?thesis
    using inception_standalone_compute [OF Ok _ m(1,2) b m(4,3)] assms(2) standalone_of_not_Panic
    by simp
qed (use assms in \<open>auto simp: inception_standalone_def\<close>)

lemma check_embedded_not_Panic:
  assumes "scanned_bytes s k = Some emb" and "validate_n n E SIGNED_EVENT emb (sc_depth s + 1) \<noteq> Panic"
    and "5 \<le> n"
  shows "check_embedded_inception E (validate_n n E) s k i j \<noteq> Panic"
  using assms inception_standalone_not_Panic [OF assms(2,3)]
  by (auto simp: check_embedded_inception_def)

lemma detached_acceptance_not_Panic:
  assumes "validate_n n E ACCEPTANCE b d = Ok s"
  shows "detached_acceptance E (validate_n n E) b g msg \<noteq> Panic"
proof -
  obtain k where n: "n = Suc k" using assms by (cases n) auto
  from assms obtain a where a: "valid_acceptance a" "b = enc_records (acceptance_records a)"
    "s = \<lparr>sc_descriptor = ACCEPTANCE, sc_depth = d, sc_entries = acceptance_records a\<rparr>"
    unfolding n acceptance_iff by blast
  have "scan E (validate_n n E) ACCEPTANCE b 0 = Ok (s\<lparr>sc_depth := 0\<rparr>)"
    using acceptance_any_depth [OF assms [unfolded n]] by (intro validated_rescan) (auto simp: n)
  moreover have "scanned_bytes (s\<lparr>sc_depth := 0\<rparr>) 5 = Some (ac_invitee_key a)"
    using acceptance_reads [OF a(1), of ACCEPTANCE 0] a(3) by simp
  ultimately show ?thesis
    by (auto simp: detached_acceptance_def wire_public_key_def wire_verify_def)
qed

lemma check_payload_not_Panic:
  assumes "md_field EVENT_BODY k = Some f" and "fd_cardinality f = Variant"
    and "check_bytes E (validate_n n E) f ''EventBody'' q (sc_depth s) = Ok ()" and "4 \<le> n"
  shows "check_payload_fields E (validate_n n E) s k q a \<noteq> Panic"
proof -
  let ?V = "validate_n n E"
  obtain m where n: "n = Suc (Suc m)"
  proof
    show "n = Suc (Suc (n - 2))" using assms(4) by simp
  qed
  have sub: "\<exists>r. ?V D q (sc_depth s + 1) = Ok r" if "fd_kind f = KMessage D" for D
    using assms(3) that by (auto simp: check_bytes_def)
  have rescan: "scan E ?V D q (sc_depth s + 1) \<noteq> Panic" if "fd_kind f = KMessage D" for D
    using sub [OF that] validated_rescan [of n E D q "sc_depth s + 1" _ n] by auto
  have kinds: "k = INCEPTION_TAG \<Longrightarrow> fd_kind f = KMessage INCEPTION"
    "k = TRUST_ATTESTATION_TAG \<Longrightarrow> fd_kind f = KMessage TRUST_ATTESTATION"
    "k = MEMBERSHIP_INVITATION_TAG \<Longrightarrow> fd_kind f = KMessage MEMBERSHIP_INVITATION"
    using assms(1) by (auto simp: md_field_def EVENT_BODY_def [THEN arg_cong, of md_fields] field_defs tag_defs)
  consider "k = INCEPTION_TAG" | "k = TRUST_ATTESTATION_TAG" | "k = MEMBERSHIP_INVITATION_TAG"
    | "k \<notin> {INCEPTION_TAG, TRUST_ATTESTATION_TAG, MEMBERSHIP_INVITATION_TAG}" by blast
  then show ?thesis
  proof cases
    case 1
    from sub [OF kinds(1) [OF 1]] obtain i where ia: "inception_accepted E n (sc_depth s + 1) i"
      and q: "q = enc_records (inception_records i)"
      unfolding n inception_accept by blast
    have "check_payload_fields E ?V s INCEPTION_TAG q (root_key (in_root i)) = Ok ()"
      unfolding q using check_payload_inception [OF ia] by simp
    then show ?thesis
      unfolding 1 check_payload_fields_def by (auto simp: Let_def split: if_splits)
  next
    case 2
    then show ?thesis
      using rescan [OF kinds(2) [OF 2]]
      by (auto simp: check_payload_fields_def subfields_def tag_defs Let_def)
  next
    case 3
    then show ?thesis
      using rescan [OF kinds(3) [OF 3]]
      by (auto simp: check_payload_fields_def subfields_def tag_defs Let_def)
  qed (auto simp: check_payload_fields_def Let_def)
qed

lemma run_check_not_Panic:
  assumes "scan E (validate_n n E) D bs d = Ok s" and "check_cardinality s = Ok ()"
    and "D \<in> set CORE_TABLE" and "5 \<le> n"
    and "\<And>D' b. D' \<in> set CORE_TABLE \<Longrightarrow> validate_n n E D' b (d + 1) \<noteq> Panic"
  shows "run_check E (validate_n n E) (md_check D) s \<noteq> Panic"
proof -
  let ?V = "validate_n n E"
  have signed: "?V SIGNED_EVENT b (d + 1) \<noteq> Panic" for b by (rule assms(5)) (simp add: CORE_TABLE_def)
  have depth: "sc_depth s = d" if "small_fields D" using scan_entries(3) [OF assms(1) that] .
  note present = required_present [OF assms(1,2)]
  consider (root) "D = IDENTITY_ROOT" | (invitation) "D = MEMBERSHIP_INVITATION"
    | (acceptance) "D = MEMBERSHIP_ACCEPTANCE" | (body) "D = EVENT_BODY"
    | (other) "md_check D \<in> {None, Some CheckRawRoot}"
    using assms(3) by (auto simp: CORE_TABLE_def)
  then show ?thesis
  proof cases
    case root
    have "\<exists>b. scanned_bytes s 3 = Some b"
      using present [of 3] by (auto simp: root md_field_def IDENTITY_ROOT_def [THEN arg_cong, of md_fields]
          field_defs kind_defs)
    then show ?thesis
      using check_embedded_not_Panic [OF _ _ assms(4)] signed depth
      by (auto simp: root run_check_def check_identity_root_def)
  next
    case invitation
    have "\<exists>b. scanned_bytes s 4 = Some b"
      using present [of 4] by (auto simp: invitation md_field_def
          MEMBERSHIP_INVITATION_def [THEN arg_cong, of md_fields] field_defs kind_defs)
    then show ?thesis
      using check_embedded_not_Panic [OF _ _ assms(4)] signed depth
      by (auto simp: invitation run_check_def check_membership_invitation_def)
  next
    case acceptance
    have "\<exists>b. scanned_bytes s 1 = Some b \<and> (\<exists>r. ?V ACCEPTANCE b (d + 1) = Ok r)"
      using present [of 1] by (auto simp: acceptance md_field_def
          MEMBERSHIP_ACCEPTANCE_def [THEN arg_cong, of md_fields] field_defs kind_defs check_bytes_def)
    moreover have "\<exists>b. scanned_bytes s 2 = Some b"
      using present [of 2] by (auto simp: acceptance md_field_def
          MEMBERSHIP_ACCEPTANCE_def [THEN arg_cong, of md_fields] field_defs kind_defs)
    ultimately show ?thesis
      using detached_acceptance_not_Panic
      by (auto simp: acceptance run_check_def check_membership_acceptance_def)
  next
    case body
    have author: "\<exists>b. scanned_bytes s 6 = Some b"
      using present [of 6] by (auto simp: body md_field_def EVENT_BODY_def [THEN arg_cong, of md_fields]
          field_defs kind_defs tag_defs)
    have name: "md_name EVENT_BODY = ''EventBody''" by (simp add: EVENT_BODY_def)
    have "list_all (\<lambda>f. fd_cardinality f = Variant \<longrightarrow> wire_kind_of (fd_kind f) = WLen) (md_fields EVENT_BODY)"
      by (simp add: EVENT_BODY_def [THEN arg_cong, of md_fields] field_defs)
    then obtain k q f where kq: "scanned_oneof s = Some (k, q)" "md_field EVENT_BODY k = Some f"
      "fd_cardinality f = Variant" "check_bytes E ?V f ''EventBody'' q (sc_depth s) = Ok ()"
      using oneof_present [OF assms(1,2)] depth by (auto simp: body name)
    have chain: "check_chain_fields s \<noteq> Panic" by (simp add: check_chain_fields_def Let_def)
    have "check_payload_fields E ?V s k q a \<noteq> Panic" for a
      using check_payload_not_Panic [OF kq(2-4)] assms(4) by simp
    then show ?thesis
      using author kq(1) chain by (auto simp: body run_check_def check_event_body_def Let_def)
  next
    case other
    then show ?thesis by (auto simp: run_check_def check_raw_root_def split: if_splits)
  qed
qed

lemma validate_n_not_Panic:
  "D \<in> set CORE_TABLE \<Longrightarrow> 16 \<le> n + d \<Longrightarrow> d \<le> 9 \<Longrightarrow> validate_n n E D bs d \<noteq> Panic"
proof (induction n arbitrary: D bs d)
  case (Suc n)
  have IH: "validate_n n E D' b (d + 1) \<noteq> Panic" if "D' \<in> set CORE_TABLE" "d \<le> MAX_NESTING" for D' b
    using that Suc.prems by (intro Suc.IH) (auto simp: MAX_NESTING_def)
  have small: "small_fields D" using Suc.prems(1) by (auto simp: CORE_TABLE_def)
  have scan: "scan E (validate_n n E) D bs d \<noteq> Panic"
    using Suc.prems(1) IH by (intro scan_not_Panic table_closed) auto
  have "run_check E (validate_n n E) (md_check D) s \<noteq> Panic"
    if s: "scan E (validate_n n E) D bs d = Ok s" "check_cardinality s = Ok ()" for s
    using Suc.prems IH scan_entries(1) [OF s(1) small]
    by (intro run_check_not_Panic [OF s Suc.prems(1)]) (auto simp: MAX_NESTING_def)
  with scan show ?case unfolding validate_n.simps(2) by auto
qed simp

lemma validate_not_Panic: "D \<in> set CORE_TABLE \<Longrightarrow> validate E D bs 0 \<noteq> Panic"
  unfolding validate_def VALIDATE_FUEL_def by (rule validate_n_not_Panic) simp_all

end
