(* ===== verification/Ledger_Refine.thy ===== *)
theory Ledger_Refine
  imports Ledger_Fold Ledger_Inv Validate_Total
begin

text \<open>
  \<open>apply_event\<close> implements the steps of \<open>Ledger_Spec.thy\<close>: read through
  \<open>abs_state\<close>, an accepted event is a step, and, on a ledger that keeps the
  invariants, every step is accepted and leads to the same state. The protobuf
  library enters through \<open>prost_codec\<close> only: what the validator accepted, the
  library decodes to the message it encodes.
\<close>

section \<open>The abstraction\<close>

definition abs_state :: "ledger_state \<Rightarrow> ledger" where
  "abs_state s = \<lparr>al_kind = ls_declared_kind s, al_root = ls_root s, al_id = ls_ledger s,
     al_head = ls_head s, al_principals = bt_get (ls_principals s),
     al_invitations = bt_get (ls_invitations s), al_trust = bt_get (ls_trust s),
     al_witness_endpoints = ls_witness_endpoints s, al_witness_set = ls_witness_set s,
     al_advertisement = ls_endpoint_advertisement s, al_profile = ls_profile s\<rparr>"

definition state_wf :: "ledger_state \<Rightarrow> bool" where
  "state_wf s \<longleftrightarrow> bt_wf (ls_principals s) \<and> bt_wf (ls_invitations s) \<and> bt_wf (ls_trust s)"

lemma abs_state_sel [simp]:
  "al_kind (abs_state s) = ls_declared_kind s" "al_root (abs_state s) = ls_root s"
  "al_id (abs_state s) = ls_ledger s" "al_head (abs_state s) = ls_head s"
  "al_principals (abs_state s) = bt_get (ls_principals s)"
  "al_invitations (abs_state s) = bt_get (ls_invitations s)"
  "al_trust (abs_state s) = bt_get (ls_trust s)"
  by (simp_all add: abs_state_def)

lemma abs_empty: "abs_state empty_state = empty_ledger" and empty_state_wf: "state_wf empty_state"
  by (auto simp: abs_state_def empty_state_def empty_ledger_def state_wf_def)

lemma bt_get_upd: "bt_get (bt_insert k v m) = (bt_get m)(k \<mapsto> v)"
  by (auto simp: bt_get_insert)

lemma bt_get_del: "bt_get (bt_remove k m) = (bt_get m)(k := None)"
  by (auto simp: bt_get_remove)

section \<open>Searches as questions about the abstract ledger\<close>

lemma set_push_keys:
  "set (foldl (push_key keep) acc xs) =
   set acc \<union> {k. \<exists>e\<in>set xs. keep e \<and> pr_role (snd e) = Controller \<and> pr_active_key (snd e) = k}"
  by (induction xs arbitrary: acc) (auto simp: push_key_def)

lemma controller_keys_without_Nil:
  assumes "state_wf s"
  shows "controller_keys_without s t = [] \<longleftrightarrow> \<not> (\<exists>j. j \<noteq> t \<and> is_controller (abs_state s) j)"
proof -
  have "controller_keys_without s t = [] \<longleftrightarrow> set (controller_keys_without s t) = {}" by simp
  also have "\<dots> \<longleftrightarrow> \<not> (\<exists>(i, p)\<in>set (ls_principals s). i \<noteq> t \<and> pr_role p = Controller)"
    unfolding controller_keys_without_def set_push_keys by force
  also have "\<dots> \<longleftrightarrow> \<not> (\<exists>j. j \<noteq> t \<and> is_controller (abs_state s) j)"
    using assms by (auto simp: is_controller_def state_wf_def bt_get_mem)
  finally show ?thesis .
qed

lemma is_raw_root_iff:
  "is_raw_root s t \<longleftrightarrow> (\<exists>k c. ls_root s = Some (Raw k c) \<and> ls_ledger s = Some t)"
  by (auto simp: is_raw_root_def is_raw_def root_identity_def split: option.splits ledger_root.splits)

lemma may_step_down_iff:
  assumes "state_wf s"
  shows "may_step_down (abs_state s) t \<longleftrightarrow> \<not> is_raw_root s t
    \<and> \<not> (is_controller (abs_state s) t \<and> controller_keys_without s t = [])"
  using controller_keys_without_Nil [OF assms] by (auto simp: may_step_down_def is_raw_root_iff)

lemma open_invitation_iff:
  assumes "state_wf s"
  shows "open_invitation_of s t = Some (e, v) \<Longrightarrow> open_for (abs_state s) e t \<and> bt_get (ls_invitations s) e = Some v"
    and "open_invitation_of s t = None \<longleftrightarrow> (\<nexists>e. open_for (abs_state s) e t)"
  using assms bt.search_eq_None [of "ls_invitations s"]
  by (auto simp: open_invitation_of_def open_for_def state_wf_def dest: bt.search_Some)

lemma unrevoked_None:
  assumes "state_wf s"
  shows "unrevoked s t = None \<longleftrightarrow> (\<nexists>e. standing (abs_state s) e t)"
  using assms bt.search_eq_None [of "ls_trust s"]
  by (auto simp: unrevoked_def standing_def is_revoked_def state_wf_def)

lemma signing_principal_Some:
  assumes "state_wf s" and "signing_principal_for s k = Some sp"
  shows "signs_as (abs_state s) sp k"
  using assms by (auto simp: signing_principal_for_def signs_as_def state_wf_def dest: bt.search_Some)

lemma signing_principal_None:
  assumes "state_wf s"
  shows "signing_principal_for s k = None \<longleftrightarrow> (\<nexists>sp. signs_as (abs_state s) sp k)"
proof -
  have "signing_principal_for s k = None \<longleftrightarrow>
      (\<forall>i p. bt_get (ls_principals s) i = Some p \<longrightarrow> \<not> (pr_role p = Controller \<and> pr_active_key p = k))"
    using assms bt.search_eq_None [of "ls_principals s"]
    by (simp add: signing_principal_for_def state_wf_def)
  also have "\<dots> \<longleftrightarrow> (\<nexists>sp. signs_as (abs_state s) sp k)"
    by (auto simp: signs_as_def) (metis signing_principal.select_convs)
  finally show ?thesis .
qed

lemma signer_unique:
  assumes "keys_distinct al" and "signs_as al sp k" and "signs_as al sp' k"
  shows "sp = sp'"
  using assms by (cases sp; cases sp') (auto simp: signs_as_def keys_distinct_def)

section \<open>Fields the validator checked\<close>

lemma id_expect_ok [simp]: "length bs = ID_BYTES \<Longrightarrow> id_expect bs = Ok bs"
  by (simp add: id_expect_def id_from_slice_def)

lemma public_key_of_Ok:
  "length bs = ID_BYTES \<Longrightarrow> public_key_of E bs f = (if key_is_point E bs then Ok bs else Err (KeyNotAPoint f))"
  by (simp add: public_key_of_def)

lemma try_map_ids: "list_all (\<lambda>x. length x = ID_BYTES) xs \<Longrightarrow> try_map id_expect xs = Ok xs"
  by (induction xs) auto

lemma try_map_keys:
  assumes "list_all (\<lambda>x. length x = ID_BYTES) xs"
  shows "try_map (\<lambda>x. public_key_of E x f) xs = Ok ys \<longleftrightarrow> ys = xs \<and> list_all (key_is_point E) xs"
  using assms by (induction xs arbitrary: ys) (auto simp: public_key_of_Ok)

lemma try_map_keys_not_Panic:
  assumes "list_all (\<lambda>x. length x = ID_BYTES) xs"
  shows "try_map (\<lambda>x. public_key_of E x f) xs \<noteq> Panic"
  using assms by (intro try_map_not_Panic) (auto simp: public_key_of_Ok list_all_iff)

lemma kind_known: "valid_inception_head i \<Longrightarrow> \<exists>k. declared_kind_try_from (in_kind i) = Some k"
  by (auto simp: valid_inception_head_def declared_kind_try_from_def)

lemma role_known: "valid_invitation E v \<Longrightarrow> \<exists>r. role_try_from (mi_role v) = Some r"
  by (auto simp: valid_invitation_def role_try_from_def)

section \<open>Each payload\<close>

lemma abs_updates:
  "abs_state (s\<lparr>ls_trust := t\<rparr>) = (abs_state s)\<lparr>al_trust := bt_get t\<rparr>"
  "abs_state (s\<lparr>ls_invitations := i\<rparr>) = (abs_state s)\<lparr>al_invitations := bt_get i\<rparr>"
  "abs_state (s\<lparr>ls_principals := p\<rparr>) = (abs_state s)\<lparr>al_principals := bt_get p\<rparr>"
  "abs_state (s\<lparr>ls_witness_endpoints := w\<rparr>) = (abs_state s)\<lparr>al_witness_endpoints := w\<rparr>"
  "abs_state (s\<lparr>ls_witness_set := ws\<rparr>) = (abs_state s)\<lparr>al_witness_set := ws\<rparr>"
  "abs_state (s\<lparr>ls_endpoint_advertisement := a\<rparr>) = (abs_state s)\<lparr>al_advertisement := a\<rparr>"
  "abs_state (s\<lparr>ls_profile := f\<rparr>) = (abs_state s)\<lparr>al_profile := f\<rparr>"
  "abs_state (s\<lparr>ls_head := h\<rparr>) = (abs_state s)\<lparr>al_head := h\<rparr>"
  "abs_state (s\<lparr>ls_declared_kind := k\<rparr>) = (abs_state s)\<lparr>al_kind := k\<rparr>"
  "abs_state (s\<lparr>ls_root := r\<rparr>) = (abs_state s)\<lparr>al_root := r\<rparr>"
  "abs_state (s\<lparr>ls_ledger := l\<rparr>) = (abs_state s)\<lparr>al_id := l\<rparr>"
  by (simp_all add: abs_state_def)

lemma wf_updates [simp]:
  "state_wf s \<Longrightarrow> state_wf (s\<lparr>ls_trust := bt_insert k a (ls_trust s)\<rparr>)"
  "state_wf s \<Longrightarrow> state_wf (s\<lparr>ls_invitations := bt_insert k v (ls_invitations s)\<rparr>)"
  "state_wf s \<Longrightarrow> state_wf (s\<lparr>ls_principals := bt_insert i p (ls_principals s)\<rparr>)"
  "state_wf s \<Longrightarrow> state_wf (s\<lparr>ls_principals := bt_remove i (ls_principals s)\<rparr>)"
  "state_wf (s\<lparr>ls_witness_endpoints := w\<rparr>) = state_wf s"
  "state_wf (s\<lparr>ls_witness_set := ws\<rparr>) = state_wf s"
  "state_wf (s\<lparr>ls_endpoint_advertisement := ad\<rparr>) = state_wf s"
  "state_wf (s\<lparr>ls_profile := f\<rparr>) = state_wf s"
  "state_wf (s\<lparr>ls_head := h\<rparr>) = state_wf s"
  by (simp_all add: state_wf_def bt_simps)

definition sem :: "env \<Rightarrow> ledger_state \<Rightarrow> event_id \<Rightarrow> u64 \<Rightarrow> pb_payload \<Rightarrow> signing_principal option \<Rightarrow>
    ledger_state fold_result" where
  "sem E s i seq p signer = obind (check_semantics E s i p signer) (commit_effect s seq i)"

lemmas sem_simps = sem_def check_semantics_def commit_effect_def

lemma sem_inception:
  assumes "payload_ok E (PInception i)" and "sem E s e seq (PInception i) signer = Ok s1"
    and "state_wf s"
  shows "payload_step E (abs_state s) e seq author (PInception i) (abs_state s1)" and "state_wf s1"
proof -
  obtain kind where kind: "declared_kind_try_from (in_kind i) = Some kind"
    using assms(1) kind_known by auto
  have "payload_step E (abs_state s) e seq author (PInception i) (abs_state s1) \<and> state_wf s1"
  proof (cases "in_root i")
    case (Some root)
    show ?thesis
    proof (cases root)
      case (RawRoot r)
      then have "s1 = s\<lparr>ls_declared_kind := Some kind, ls_root := Some (Raw (rr_active_key r) (rr_reserve_commit r)),
          ls_ledger := Some e, ls_principals := [(e, \<lparr>pr_role = Controller, pr_active_key = rr_active_key r\<rparr>)]\<rparr>"
        and "key_is_point E (rr_active_key r)"
        using assms(1,2) Some kind
        by (auto simp: sem_simps seed_from_inception_def public_key_of_Ok valid_raw_root_def split: if_splits)
      then show ?thesis
        using payload_step.seed_raw [OF kind Some [unfolded RawRoot], of E "abs_state s" e seq author] assms(3)
        by (simp add: abs_updates state_wf_def bt_wf_def bt_get_def [abs_def] fun_upd_def)
    next
      case (IdentityRoot q)
      then have "s1 = s\<lparr>ls_declared_kind := Some kind, ls_root := Some (Identity (ir_founder q) (ir_founder_key q)),
          ls_ledger := Some e,
          ls_principals := [(ir_founder q, \<lparr>pr_role = Controller, pr_active_key = ir_founder_key q\<rparr>)]\<rparr>"
        and "key_is_point E (ir_founder_key q)"
        using assms(1,2) Some kind
        by (auto simp: sem_simps seed_from_inception_def public_key_of_Ok valid_identity_root_def split: if_splits)
      then show ?thesis
        using payload_step.seed_identity [OF kind Some [unfolded IdentityRoot], of E "abs_state s" e seq author] assms(3)
        by (simp add: abs_updates state_wf_def bt_wf_def bt_get_def [abs_def] fun_upd_def)
    qed
  qed (use assms(1) in simp)
  then show "payload_step E (abs_state s) e seq author (PInception i) (abs_state s1)" "state_wf s1"
    by blast+
qed

lemma sem_simple:
  assumes "payload_ok E p" and "sem E s e seq p (Some sp) = Ok s1" and "state_wf s"
    and "signs_as (abs_state s) sp author"
    and "\<not> is_inception p" and "\<nexists>v. p = PMembershipInvitation v" and "\<nexists>m. p = PMembershipAcceptance m"
    and "\<nexists>t. p = PMembershipRemoval t"
  shows "payload_step E (abs_state s) e seq author p (abs_state s1) \<and> state_wf s1"
proof (cases p)
  case (PWitnessConfig ws)
  then have "s1 = s\<lparr>ls_witness_endpoints := ws\<rparr>" "list_all (key_is_point E) ws"
    using assms(1,2) by (auto simp: sem_simps valid_ids_def try_map_keys)
  then show ?thesis using PWitnessConfig assms(3) by (auto simp: abs_updates intro: payload_step.intros)
next
  case (PWitnessSet ws)
  then have "s1 = s\<lparr>ls_witness_set := Some \<lparr>ws_witnesses = ws, ws_signing_principal = sp,
      ws_event = e, ws_seq = seq\<rparr>\<rparr>"
    using assms(1,2) by (auto simp: sem_simps valid_ids_def try_map_ids)
  then show ?thesis using PWitnessSet assms(3,4) by (auto simp: abs_updates intro: payload_step.intros)
next
  case (PEndpointAdvertisement es)
  then have "s1 = s\<lparr>ls_endpoint_advertisement := Some \<lparr>ea_endpoints = es,
      ea_signing_principal = sp, ea_event = e, ea_seq = seq\<rparr>\<rparr>" "list_all (key_is_point E) es"
    using assms(1,2) by (auto simp: sem_simps valid_ids_def try_map_keys)
  then show ?thesis using PEndpointAdvertisement assms(3,4) by (auto simp: abs_updates intro: payload_step.intros)
next
  case (PTrustAttestation t)
  then have s1: "s1 = s\<lparr>ls_trust := bt_insert e \<lparr>at_subject = t, at_signing_principal = sp,
      at_revoked_by = None\<rparr> (ls_trust s)\<rparr>" and "ls_ledger s \<noteq> Some t" "unrevoked s t = None"
    using assms(1,2) by (auto simp: sem_simps split: if_splits option.splits)
  then have "payload_step E (abs_state s) e seq author p (abs_state s1)"
    using PTrustAttestation assms(4) unrevoked_None [OF assms(3), of t]
      payload_step.attest [of "abs_state s" t sp author E e seq]
    by (simp add: abs_updates bt_get_upd)
  with s1 assms(3) show ?thesis by simp
next
  case (PTrustRevocation t)
  then obtain a where a: "bt_get (ls_trust s) t = Some a" "at_revoked_by a = None"
    and s1: "s1 = s\<lparr>ls_trust := bt_insert t (a\<lparr>at_revoked_by := Some e\<rparr>) (ls_trust s)\<rparr>"
    using assms(1,2) by (auto simp: sem_simps split: if_splits option.splits)
  then show ?thesis
    using PTrustRevocation assms(3) payload_step.revoke [of "abs_state s" t a E e seq author]
    by (simp add: abs_updates bt_get_upd)
next
  case (PProfileUpdate f)
  then have "s1 = s\<lparr>ls_profile := Some \<lparr>pf_display_name = set_name (pu_display_name f),
      pf_hostname = set_name (pu_hostname f), pf_email = set_name (pu_email f),
      pf_signing_principal = sp, pf_event = e, pf_seq = seq\<rparr>\<rparr>"
    using assms(2) by (auto simp: sem_simps)
  then show ?thesis using PProfileUpdate assms(3,4) payload_step.set_profile [of "abs_state s" sp author E e seq f]
    by (simp add: abs_updates set_name_def)
qed (use assms(5-) in auto)

lemma sem_invitation:
  assumes "payload_ok E (PMembershipInvitation v)" and "state_wf s"
    and "sem E s e seq (PMembershipInvitation v) signer = Ok s1"
  shows "payload_step E (abs_state s) e seq author (PMembershipInvitation v) (abs_state s1) \<and> state_wf s1"
proof -
  obtain role where role: "role_try_from (mi_role v) = Some role" using assms(1) role_known by auto
  let ?i = "\<lparr>iv_invitee = mi_invitee v, iv_invitee_key = mi_invitee_key v, iv_role = role, iv_status = Open\<rparr>"
  have s1: "s1 = s\<lparr>ls_invitations := bt_insert e ?i (ls_invitations s)\<rparr>"
    and guards: "key_is_point E (mi_invitee_key v)" "open_invitation_of s (mi_invitee v) = None"
      "\<And>p. bt_get (ls_principals s) (mi_invitee v) = Some p \<Longrightarrow> pr_active_key p = mi_invitee_key v"
    using assms(1,3) role
    by (auto simp: sem_simps check_invitation_def valid_invitation_def public_key_of_Ok
        split: if_splits option.splits)
  have "payload_step E (abs_state s) e seq author (PMembershipInvitation v) (abs_state s1)"
    unfolding s1 abs_updates bt_get_upd
    using payload_step.invite [OF role guards(1), of "abs_state s" e seq author] guards(2,3)
      open_invitation_iff(2) [OF assms(2)] by simp
  with s1 assms(2) show ?thesis by simp
qed

lemma sem_removal:
  assumes "payload_ok E (PMembershipRemoval t)" and "state_wf s"
    and "sem E s e seq (PMembershipRemoval t) signer = Ok s1"
  shows "payload_step E (abs_state s) e seq author (PMembershipRemoval t) (abs_state s1) \<and> state_wf s1"
proof -
  let ?inv = "map_option fst (open_invitation_of s t)" and ?pr = "bt_get (ls_principals s) t"
  from assms(1,3) have guards: "\<not> is_raw_root s t" "\<not> (?inv = None \<and> ?pr = None)"
    "\<not> (is_controller (abs_state s) t \<and> controller_keys_without s t = [])"
    and com: "commit_effect s seq e (ERemove t ?inv (?pr \<noteq> None)) = Ok s1"
    by (auto simp: sem_def check_semantics_def check_removal_def is_controller_def Let_def
        split: if_splits option.splits)
  have down: "may_step_down (abs_state s) t" using guards(1,3) may_step_down_iff [OF assms(2)] by simp
  have del: "bt_get (ls_principals s) t = None \<Longrightarrow> (bt_get (ls_principals s))(t := None) = bt_get (ls_principals s)"
    by auto
  show ?thesis
  proof (cases "open_invitation_of s t")
    case None
    then have "s1 = s\<lparr>ls_principals := bt_remove t (ls_principals s)\<rparr>"
      using com guards(2) by (auto simp: commit_effect_def)
    then show ?thesis
      using payload_step.remove_member [of "abs_state s" t E e seq author] down assms(2) guards(2) None
        open_invitation_iff(2) [OF assms(2), of t]
      by (simp add: abs_updates bt_get_del)
  next
    case (Some ev)
    obtain e' v where ev: "ev = (e', v)" by force
    note open' = open_invitation_iff(1) [OF assms(2) Some [unfolded ev]]
    let ?s = "s\<lparr>ls_invitations := bt_insert e' (v\<lparr>iv_status := Cancelled\<rparr>) (ls_invitations s)\<rparr>"
    have "s1 = (if ?pr \<noteq> None then ?s\<lparr>ls_principals := bt_remove t (ls_principals s)\<rparr> else ?s)"
      using com Some ev open' by (auto simp: commit_effect_def set_status_def)
    then have "abs_state s1 = (abs_state s)\<lparr>al_invitations := (al_invitations (abs_state s))(e' \<mapsto> v\<lparr>iv_status := Cancelled\<rparr>),
        al_principals := (al_principals (abs_state s))(t := None)\<rparr>" and "state_wf s1"
      using assms(2) del by (auto simp: abs_updates bt_get_upd bt_get_del state_wf_def bt_simps)
    then show ?thesis
      using payload_step.remove_invited [of "abs_state s" e' t v E e seq author] open' down by simp
  qed
qed

lemma decode_valid_acceptance:
  assumes "prost_codec E" and "valid_signed_acceptance E m a" and "length (ma_acceptance m) \<le> MAX_ACCEPTANCE_BYTES"
  shows "decode_acceptance E (ma_acceptance m) = Some a"
  using assms by (auto simp: valid_signed_acceptance_def valid_acceptance_def encodable_def size_defs
      intro!: prost_codec.decode_acceptance)

lemma admit_Ok:
  assumes "state_wf s"
  shows "admit s e v = Ok eff \<longleftrightarrow>
    eff = EAdmit e (iv_invitee v) \<lparr>pr_role = iv_role v, pr_active_key = iv_invitee_key v\<rparr>
    \<and> (\<forall>j p. bt_get (ls_principals s) j = Some p \<longrightarrow> pr_active_key p = iv_invitee_key v \<longrightarrow> j = iv_invitee v)
    \<and> (is_controller (abs_state s) (iv_invitee v) \<longrightarrow> iv_role v \<noteq> Controller
         \<longrightarrow> may_step_down (abs_state s) (iv_invitee v))"
proof -
  let ?held = "bt_find (\<lambda>i p. pr_active_key p = iv_invitee_key v \<and> i \<noteq> iv_invitee v) (ls_principals s)"
  have held: "?held = None \<longleftrightarrow> (\<forall>j p. bt_get (ls_principals s) j = Some p \<longrightarrow>
      pr_active_key p = iv_invitee_key v \<longrightarrow> j = iv_invitee v)"
    using assms bt.search_eq_None [of "ls_principals s"] by (auto simp: state_wf_def)
  have ctrl: "(case bt_get (ls_principals s) (iv_invitee v) of None \<Rightarrow> False | Some held \<Rightarrow> pr_role held = Controller)
      \<longleftrightarrow> is_controller (abs_state s) (iv_invitee v)"
    by (auto simp: is_controller_def split: option.splits)
  have down: "check_demotion s i = Ok () \<longleftrightarrow> may_step_down (abs_state s) i"
    if "is_controller (abs_state s) i" for i
    using that may_step_down_iff [OF assms, of i] by (simp add: check_demotion_def)
  show ?thesis
  proof (cases ?held)
    case None
    with held down show ?thesis by (auto simp: admit_def ctrl)
  next
    case (Some jp)
    then have "\<not> (\<forall>j p. bt_get (ls_principals s) j = Some p \<longrightarrow>
      pr_active_key p = iv_invitee_key v \<longrightarrow> j = iv_invitee v)" using held by simp
    with Some show ?thesis by (auto simp: admit_def split: prod.splits)
  qed
qed

lemma check_acceptance_Ok:
  assumes "prost_codec E" and "state_wf s" and "valid_signed_acceptance E m a"
    and "length (ma_acceptance m) \<le> MAX_ACCEPTANCE_BYTES"
  shows "check_acceptance E s m = Ok eff \<longleftrightarrow>
    (\<exists>v. ls_ledger s = Some (ac_ledger a) \<and> bt_get (ls_invitations s) (ac_invitation_event a) = Some v
       \<and> iv_status v = Open \<and> ac_invitee a = iv_invitee v \<and> ac_invitee_key a = iv_invitee_key v
       \<and> admit s (ac_invitation_event a) v = Ok eff)"
proof -
  note dec = decode_valid_acceptance [OF assms(1,3,4)]
  have a: "length (ac_ledger a) = ID_BYTES" "length (ac_invitation_event a) = ID_BYTES"
    "length (ac_invitee a) = ID_BYTES" "length (ac_invitee_key a) = ID_BYTES" "key_is_point E (ac_invitee_key a)"
    using assms(3) by (auto simp: valid_signed_acceptance_def valid_acceptance_def)
  show ?thesis
    unfolding check_acceptance_def dec
    by (cases "ls_ledger s"; cases "bt_get (ls_invitations s) (ac_invitation_event a)")
       (auto simp: a public_key_of_Ok)
qed

lemma sem_acceptance:
  assumes "prost_codec E" and "payload_ok E (PMembershipAcceptance m)" and "state_wf s"
    and "sem E s e seq (PMembershipAcceptance m) signer = Ok s1"
  shows "payload_step E (abs_state s) e seq author (PMembershipAcceptance m) (abs_state s1) \<and> state_wf s1"
proof -
  from assms(2) obtain a where a: "valid_signed_acceptance E m a" "length (ma_acceptance m) \<le> MAX_ACCEPTANCE_BYTES"
    by auto
  let ?e = "ac_invitation_event a"
  from assms(4) obtain v where v: "ls_ledger s = Some (ac_ledger a)" "bt_get (ls_invitations s) ?e = Some v"
    "iv_status v = Open" "ac_invitee a = iv_invitee v" "ac_invitee_key a = iv_invitee_key v"
    and uniq: "\<And>j p. bt_get (ls_principals s) j = Some p \<Longrightarrow> pr_active_key p = iv_invitee_key v \<Longrightarrow> j = iv_invitee v"
    and down: "is_controller (abs_state s) (iv_invitee v) \<Longrightarrow> iv_role v \<noteq> Controller
      \<Longrightarrow> may_step_down (abs_state s) (iv_invitee v)"
    and com: "commit_effect s seq e (EAdmit ?e (iv_invitee v)
      \<lparr>pr_role = iv_role v, pr_active_key = iv_invitee_key v\<rparr>) = Ok s1"
    by (auto simp: sem_def check_semantics_def check_acceptance_Ok [OF assms(1,3) a] admit_Ok [OF assms(3)])
  from com v(2) have s1: "s1 = s\<lparr>ls_invitations := bt_insert ?e (v\<lparr>iv_status := Accepted\<rparr>) (ls_invitations s),
      ls_principals := bt_insert (iv_invitee v) \<lparr>pr_role = iv_role v, pr_active_key = iv_invitee_key v\<rparr>
        (ls_principals s)\<rparr>"
    by (auto simp: commit_effect_def set_status_def)
  have "payload_step E (abs_state s) e seq author (PMembershipAcceptance m) (abs_state s1)"
    unfolding s1 abs_updates bt_get_upd
    using payload_step.admit [of E m a "abs_state s" v e seq author] a v uniq down by simp
  moreover have "state_wf s1" using assms(3) by (simp add: s1 state_wf_def bt_simps)
  ultimately show ?thesis by blast
qed

lemma sem_sound:
  assumes "prost_codec E" and "payload_ok E p" and "state_wf s"
    and "is_inception p \<or> (\<exists>sp. signer = Some sp \<and> signs_as (abs_state s) sp author)"
    and "sem E s e seq p signer = Ok s1"
  shows "payload_step E (abs_state s) e seq author p (abs_state s1) \<and> state_wf s1"
proof -
  consider (inc) i where "p = PInception i" | (inv) v where "p = PMembershipInvitation v"
    | (acc) m where "p = PMembershipAcceptance m" | (rem) t where "p = PMembershipRemoval t"
    | (simple) "\<not> is_inception p" "\<nexists>v. p = PMembershipInvitation v" "\<nexists>m. p = PMembershipAcceptance m"
      "\<nexists>t. p = PMembershipRemoval t"
    by (cases p) auto
  then show ?thesis
  proof cases
    case simple
    then obtain sp where "signer = Some sp" "signs_as (abs_state s) sp author" using assms(4) by blast
    with simple assms sem_simple show ?thesis by blast
  next
    case (inc i)
    then show ?thesis using assms sem_inception [of E i s e seq signer s1] by simp
  next
    case (inv v)
    then show ?thesis using assms sem_invitation [of E v s e seq signer s1 author] by simp
  next
    case (acc m)
    then show ?thesis using assms sem_acceptance [of E m s e seq signer s1 author] by simp
  next
    case (rem t)
    then show ?thesis using assms sem_removal [of E t s e seq signer s1 author] by simp
  qed
qed

section \<open>Every enabled payload is accepted\<close>

lemma sem_enabled:
  assumes "prost_codec E" and "payload_ok E p" and "state_wf s"
    and "is_inception p \<or> signer \<noteq> None"
    and "payload_step E (abs_state s) e seq author p al'"
  shows "\<exists>s1. sem E s e seq p signer = Ok s1"
  using assms(5)
proof (cases rule: payload_step.cases)
  case (seed_raw i kind r)
  then show ?thesis
    using assms(2) by (auto simp: sem_simps seed_from_inception_def valid_raw_root_def public_key_of_Ok)
next
  case (seed_identity i kind q)
  then show ?thesis
    using assms(2) by (auto simp: sem_simps seed_from_inception_def valid_identity_root_def public_key_of_Ok)
next
  case (witness_config ws)
  then show ?thesis using assms(2) by (auto simp: sem_simps valid_ids_def try_map_keys)
next
  case (witness_set sp ws)
  then show ?thesis using assms(2,4) by (auto simp: sem_simps valid_ids_def try_map_ids)
next
  case (advertise es sp)
  then show ?thesis using assms(2,4) by (auto simp: sem_simps valid_ids_def try_map_keys)
next
  case (attest t sp)
  then have "unrevoked s t = None" using unrevoked_None [OF assms(3)] by blast
  with attest show ?thesis using assms(2,4) by (auto simp: sem_simps)
next
  case (revoke t a)
  then show ?thesis using assms(2) by (auto simp: sem_simps)
next
  case (invite v role)
  then have "open_invitation_of s (mi_invitee v) = None" using open_invitation_iff(2) [OF assms(3)] by blast
  with invite show ?thesis
    using assms(2)
    by (auto simp: sem_simps check_invitation_def valid_invitation_def public_key_of_Ok split: option.splits)
next
  case (admit m a v)
  from assms(2) admit(1) obtain a' where a': "valid_signed_acceptance E m a'"
    and len: "length (ma_acceptance m) \<le> MAX_ACCEPTANCE_BYTES" by auto
  note dec = decode_valid_acceptance [OF assms(1) _ len]
  let ?eff = "EAdmit (ac_invitation_event a) (iv_invitee v) \<lparr>pr_role = iv_role v, pr_active_key = iv_invitee_key v\<rparr>"
  have "Ledger_Fold.admit s (ac_invitation_event a) v = Ok ?eff"
    unfolding admit_Ok [OF assms(3)] using admit by auto
  then have "check_acceptance E s m = Ok ?eff"
    unfolding check_acceptance_Ok [OF assms(1,3) admit(3) len] using admit by auto
  then show ?thesis using admit by (auto simp: sem_def check_semantics_def commit_effect_def set_status_def)
next
  case (remove_invited e' t v)
  then obtain ev where ev: "open_invitation_of s t = Some ev"
    using open_invitation_iff(2) [OF assms(3), of t] by (cases "open_invitation_of s t") auto
  obtain e1 v1 where e1: "ev = (e1, v1)" by force
  have "bt_get (ls_invitations s) e1 = Some v1" using open_invitation_iff(1) [OF assms(3) ev [unfolded e1]] by simp
  with remove_invited ev e1 show ?thesis
    using assms(2) may_step_down_iff [OF assms(3), of t]
    by (auto simp: sem_simps check_removal_def set_status_def is_controller_def Let_def split: option.splits)
next
  case (remove_member t)
  then have "open_invitation_of s t = None" using open_invitation_iff(2) [OF assms(3), of t] by blast
  with remove_member show ?thesis
    using assms(2) may_step_down_iff [OF assms(3), of t]
    by (auto simp: sem_simps check_removal_def is_controller_def Let_def split: option.splits)
next
  case (set_profile sp p')
  then show ?thesis using assms(4) by (auto simp: sem_simps)
qed

inductive_simps payload_step_rules:
  "payload_step E al e seq k (PInception i) al'"
  "payload_step E al e seq k (PWitnessConfig ws) al'"
  "payload_step E al e seq k (PWitnessSet ws) al'"
  "payload_step E al e seq k (PEndpointAdvertisement es) al'"
  "payload_step E al e seq k (PTrustAttestation t) al'"
  "payload_step E al e seq k (PTrustRevocation t) al'"
  "payload_step E al e seq k (PMembershipInvitation v) al'"
  "payload_step E al e seq k (PMembershipRemoval t) al'"
  "payload_step E al e seq k (PProfileUpdate f) al'"

lemma payload_step_det:
  assumes "payload_step E al e seq author p al1" and "payload_step E al e seq author p al2"
    and "keys_distinct al" and "one_open al" and "prost_codec E" and "payload_ok E p"
  shows "al1 = al2"
  using assms(1)
proof (cases rule: payload_step.cases)
  case (admit m a v)
  from assms(2) admit(1) obtain a' v' where 2: "valid_signed_acceptance E m a'"
    "al_invitations al (ac_invitation_event a') = Some v'"
    "al2 = al\<lparr>al_invitations := (al_invitations al)(ac_invitation_event a' \<mapsto> v'\<lparr>iv_status := Accepted\<rparr>),
           al_principals := (al_principals al)(iv_invitee v' \<mapsto>
             \<lparr>pr_role = iv_role v', pr_active_key = iv_invitee_key v'\<rparr>)\<rparr>"
    by (auto elim!: payload_stepE)
  from assms(6) admit(1) have len: "length (ma_acceptance m) \<le> MAX_ACCEPTANCE_BYTES" by auto
  have "a' = a"
    using decode_valid_acceptance [OF assms(5) 2(1) len] decode_valid_acceptance [OF assms(5) admit(3) len] by simp
  with admit 2 show ?thesis by simp
next
  case (remove_invited e' t v)
  from assms(2) remove_invited(1) show ?thesis
  proof (cases rule: payload_step.cases)
    case (remove_invited e2 t2 v2)
    then have "e2 = e'" "v2 = v" "t2 = t"
      using \<open>open_for al e' t\<close> \<open>p = PMembershipRemoval t\<close> assms(4) \<open>al_invitations al e' = Some v\<close>
      unfolding one_open_def by (metis pb_payload.inject(7), metis option.inject pb_payload.inject(7), simp)
    with remove_invited \<open>al1 = _\<close> show ?thesis by simp
  qed (use remove_invited in auto)
next
  case (witness_set sp ws)
  with assms(2) obtain sp' where "signs_as al sp' author"
    "al2 = al\<lparr>al_witness_set := Some \<lparr>ws_witnesses = ws, ws_signing_principal = sp', ws_event = e, ws_seq = seq\<rparr>\<rparr>"
    by (auto simp: payload_step_rules)
  with witness_set signer_unique [OF assms(3), of sp author sp'] show ?thesis by simp
next
  case (advertise es sp)
  with assms(2) obtain sp' where "signs_as al sp' author"
    "al2 = al\<lparr>al_advertisement := Some \<lparr>ea_endpoints = es, ea_signing_principal = sp', ea_event = e, ea_seq = seq\<rparr>\<rparr>"
    by (auto simp: payload_step_rules)
  with advertise signer_unique [OF assms(3), of sp author sp'] show ?thesis by simp
next
  case (attest t sp)
  with assms(2) obtain sp' where "signs_as al sp' author"
    "al2 = al\<lparr>al_trust := (al_trust al)(e \<mapsto> \<lparr>at_subject = t, at_signing_principal = sp', at_revoked_by = None\<rparr>)\<rparr>"
    by (auto simp: payload_step_rules)
  with attest signer_unique [OF assms(3), of sp author sp'] show ?thesis by simp
next
  case (set_profile sp f)
  with assms(2) obtain sp' where "signs_as al sp' author"
    "al2 = al\<lparr>al_profile := Some \<lparr>pf_display_name = (if pu_display_name f = [] then None else Some (pu_display_name f)),
       pf_hostname = (if pu_hostname f = [] then None else Some (pu_hostname f)),
       pf_email = (if pu_email f = [] then None else Some (pu_email f)),
       pf_signing_principal = sp', pf_event = e, pf_seq = seq\<rparr>\<rparr>"
    by (auto simp: payload_step_rules)
  with set_profile signer_unique [OF assms(3), of sp author sp'] show ?thesis by simp
qed (use assms(2) in \<open>auto simp: payload_step_rules\<close>)

end
