(* ===== verification/Apply_Refine.thy ===== *)
theory Apply_Refine
  imports Ledger_Refine
begin

text \<open>
  The refinement of a whole event, and of a fold: \<open>apply_event\<close> accepts exactly
  the events that are steps of the abstract ledger, it never panics before the
  sequence number is used up, and a fold without a violation is a run from the
  empty ledger.
\<close>

section \<open>Decoding what was validated\<close>

lemma utf8_Nil: "is_utf8 []"
  by (simp add: is_utf8_def utf8_decode.simps)

lemma payload_ok_wf: "payload_ok E p \<Longrightarrow> payload_wf is_utf8 (Some p)"
  by (cases p) (auto simp: valid_inception_head_def small_enum_def valid_invitation_def valid_profile_def
      valid_text_def utf8_Nil)

lemma decode_valid_event:
  assumes "prost_codec E" and "valid_event E ev m b"
  shows "decode_signed_event E ev = Some m" and "decode_event_body E (se_body m) = Some b"
proof -
  have len: "length (enc_records (signed_event_records m)) < 2 ^ 64"
    using assms(2) by (auto simp: valid_event_def MAX_EVENT_BYTES_def)
  then have "length (se_body m) < 2 ^ 64"
    by (auto simp: signed_event_records_def f_bytes_def split: if_splits)
  moreover have "payload_wf is_utf8 (eb_payload b)" "eb_version b = 0"
    using assms(2) payload_ok_wf
    by (auto simp: valid_event_def valid_body_def split: option.splits)
  ultimately show "decode_signed_event E ev = Some m" "decode_event_body E (se_body m) = Some b"
    using len assms prost_codec.decode_signed_event [OF assms(1), of m]
      prost_codec.decode_event_body [OF assms(1), of b]
    by (auto simp: valid_event_def encodable_def)
qed

lemma valid_event_payload:
  assumes "valid_event E ev m b"
  obtains p where "eb_payload b = Some p" and "payload_ok E p" and "payload_fits b p"
    and "is_inception p \<longleftrightarrow> eb_seq b = 0" and "chain_ok b" and "length (eb_author_key b) = ID_BYTES"
    and "length (se_signature m) = SIG_BYTES"
  using assms by (auto simp: valid_event_def valid_body_def split: option.splits)

section \<open>One event\<close>

definition commit_head :: "ledger_state \<Rightarrow> u64 \<Rightarrow> event_id \<Rightarrow> u64 \<Rightarrow> ledger_state" where
  "commit_head s seq i t = s\<lparr>ls_head := Some \<lparr>hd_seq = seq, hd_event_id = i, hd_timestamp_ms = t\<rparr>\<rparr>"

lemma commit_sem:
  "obind (check_semantics E s i p signer) (\<lambda>eff. commit s seq i t eff) =
   obind (sem E s i seq p signer) (\<lambda>s'. Ok (commit_head s' seq i t))"
  by (simp add: sem_def commit_def commit_head_def obind_assoc)

lemma apply_event_valid:
  assumes "prost_codec E" and "valid_event E ev m b" and "eb_payload b = Some p"
  shows "apply_event E s ev =
    (if eb_seq b \<noteq> next_seq s then Err (WrongSeq (next_seq s) (eb_seq b))
     else
       obind (check_chain s b) (\<lambda>_.
       obind (if key_is_point E (eb_author_key b) then Ok (eb_author_key b)
              else Err (KeyNotAPoint ''EventBody.author_key'')) (\<lambda>author_key.
       obind (find_signer s (next_seq s) author_key) (\<lambda>signer.
       obind (if ed_verify E author_key (sign_input (se_body m)) (se_signature m) then Ok ()
              else Err EventBadSignature) (\<lambda>_.
       obind (sem E s (event_id E (se_body m)) (next_seq s) p signer) (\<lambda>s'.
         Ok (commit_head s' (next_seq s) (event_id E (se_body m)) (eb_timestamp_ms b))))))))"
proof -
  have "signed_event E ev = Ok ()" using assms(2) signed_event_iff by blast
  moreover have "check_position (next_seq s) p = Ok ()" if "eb_seq b = next_seq s"
  proof -
    have "is_inception p \<longleftrightarrow> eb_seq b = 0" using valid_event_payload [OF assms(2)] assms(3) by auto
    then show ?thesis unfolding that by (cases p) (auto simp: check_position_def)
  qed
  moreover have "length (eb_author_key b) = ID_BYTES" "length (se_signature m) = SIG_BYTES"
    using assms(2) by (auto elim!: valid_event_payload)
  ultimately show ?thesis
    using decode_valid_event [OF assms(1,2)] assms(3)
    by (simp add: apply_event_def Let_def public_key_of_Ok fold_verify_def commit_sem)
qed

lemma apply_event_Ok_valid:
  assumes "apply_event E s ev = Ok s'"
  shows "\<exists>m b. valid_event E ev m b"
  using assms signed_event_iff [of E ev] by (auto simp: apply_event_def Let_def)

lemma check_chain_Ok:
  assumes "eb_seq b = next_seq s" and "check_chain s b = Ok ()"
  shows "link_ok (abs_state s) b"
  using assms
  by (cases "ls_head s")
     (auto simp: check_chain_def link_ok_def next_seq_def id_expect_def id_from_slice_def not_less
       split: if_splits outcome.splits)

lemma check_chain_complete:
  assumes "link_ok (abs_state s) b" and "started (abs_state s)" and "chain_ok b" and "ls_head s \<noteq> None \<Longrightarrow> eb_seq b \<noteq> 0"
  shows "check_chain s b = Ok ()" and "eb_seq b = next_seq s"
proof -
  show "eb_seq b = next_seq s"
    using assms(1) by (auto simp: link_ok_def next_seq_def split: option.splits)
  show "check_chain s b = Ok ()"
    using assms by (cases "ls_head s") (auto simp: check_chain_def link_ok_def chain_ok_def)
qed

lemma apply_sound:
  assumes "prost_codec E" and "state_wf s" and "apply_event E s ev = Ok s'"
  shows "state_wf s' \<and> (\<exists>m b. valid_event E ev m b \<and> event_step E (abs_state s) m b (abs_state s'))"
proof -
  obtain m b where v: "valid_event E ev m b" using apply_event_Ok_valid [OF assms(3)] by blast
  obtain p where p: "eb_payload b = Some p" "payload_ok E p" "is_inception p \<longleftrightarrow> eb_seq b = 0"
    using valid_event_payload [OF v] by metis
  let ?i = "event_id E (se_body m)"
  from assms(3) [unfolded apply_event_valid [OF assms(1) v p(1)]] obtain signer s1 where
    seq: "eb_seq b = next_seq s" and chain: "check_chain s b = Ok ()"
    and key: "key_is_point E (eb_author_key b)"
    and signer: "find_signer s (next_seq s) (eb_author_key b) = Ok signer"
    and sig: "ed_verify E (eb_author_key b) (sign_input (se_body m)) (se_signature m)"
    and sem: "sem E s ?i (next_seq s) p signer = Ok s1"
    and s': "s' = commit_head s1 (next_seq s) ?i (eb_timestamp_ms b)"
    by (auto split: if_splits)
  have sp: "eb_seq b = 0 \<or> (\<exists>sp. signer = Some sp \<and> signs_as (abs_state s) sp (eb_author_key b))"
    using signer signing_principal_Some [OF assms(2)] seq by (auto simp: find_signer_def split: if_splits)
  with sem_sound [OF assms(1) p(2) assms(2) _ sem] p(3)
  have step: "payload_step E (abs_state s) ?i (next_seq s) (eb_author_key b) p (abs_state s1)" "state_wf s1"
    by blast+
  have "event_step E (abs_state s) m b ((abs_state s1)\<lparr>al_head := Some \<lparr>hd_seq = eb_seq b,
      hd_event_id = ?i, hd_timestamp_ms = eb_timestamp_ms b\<rparr>\<rparr>)"
    using v p(1) check_chain_Ok [OF seq chain] sp key sig step(1) seq
    by (intro event_step.event) (auto simp: author_ok_def)
  with v step(2) show ?thesis by (auto simp: s' commit_head_def abs_updates seq)
qed

lemma apply_complete:
  assumes "prost_codec E" and "state_wf s" and "ledger_inv E (abs_state s)"
    and "valid_event E ev m b" and "event_step E (abs_state s) m b al'"
  shows "\<exists>s'. apply_event E s ev = Ok s' \<and> abs_state s' = al'"
proof -
  obtain p where p: "eb_payload b = Some p" "payload_ok E p" "is_inception p \<longleftrightarrow> eb_seq b = 0" "chain_ok b"
    using valid_event_payload [OF assms(4)] by metis
  let ?i = "event_id E (se_body m)"
  note inv = assms(3) [unfolded ledger_inv_def]
  from assms(5) p(1) obtain al1 where st: "link_ok (abs_state s) b" "author_ok (abs_state s) b"
    "key_is_point E (eb_author_key b)"
    "ed_verify E (eb_author_key b) (sign_input (se_body m)) (se_signature m)"
    "payload_step E (abs_state s) ?i (eb_seq b) (eb_author_key b) p al1"
    and al': "al' = al1\<lparr>al_head := Some \<lparr>hd_seq = eb_seq b, hd_event_id = ?i,
       hd_timestamp_ms = eb_timestamp_ms b\<rparr>\<rparr>"
    by (auto elim!: event_stepE)
  have "eb_seq b \<noteq> 0" if "ls_head s \<noteq> None"
    using that st(1) inv p(4) by (auto simp: started_def link_ok_def chain_ok_def ID_BYTES_def)
  note chain = check_chain_complete [OF st(1) _ p(4) this]
  obtain signer where signer: "find_signer s (next_seq s) (eb_author_key b) = Ok signer"
    and sp: "is_inception p \<or> (\<exists>sp. signer = Some sp \<and> signs_as (abs_state s) sp (eb_author_key b))"
  proof (cases "eb_seq b = 0")
    case True
    with that [of None] chain inv p(3) show ?thesis by (simp add: find_signer_def)
  next
    case False
    then obtain sp where "signing_principal_for s (eb_author_key b) = Some sp"
      using st(2) signing_principal_None [OF assms(2)] by (auto simp: author_ok_def)
    with that [of "Some sp"] False chain inv signing_principal_Some [OF assms(2)] show ?thesis
      by (auto simp: find_signer_def)
  qed
  then obtain s1 where s1: "sem E s ?i (next_seq s) p signer = Ok s1"
    using sem_enabled [OF assms(1) p(2) assms(2) _ st(5), of signer] chain inv by auto
  have "payload_step E (abs_state s) ?i (eb_seq b) (eb_author_key b) p (abs_state s1)"
    using sem_sound [OF assms(1) p(2) assms(2) sp s1] chain inv by simp
  then have "abs_state s1 = al1" using payload_step_det [OF _ st(5)] inv assms(1) p(2) by blast
  then show ?thesis
    using chain inv st(3,4) signer s1 al'
    by (auto simp: apply_event_valid [OF assms(1,4) p(1)] commit_head_def abs_updates)
qed

section \<open>No panic\<close>

lemma sem_not_Panic:
  assumes "prost_codec E" and "payload_ok E p" and "state_wf s" and "is_inception p \<or> signer \<noteq> None"
  shows "sem E s e seq p signer \<noteq> Panic"
proof (cases p)
  case (PInception i)
  then obtain k where "declared_kind_try_from (in_kind i) = Some k" using assms(2) kind_known by auto
  with PInception show ?thesis
    using assms(2)
    by (cases "in_root i") (auto simp: sem_simps seed_from_inception_def valid_raw_root_def
        valid_identity_root_def public_key_of_Ok split: pb_root.splits if_splits)
next
  case (PWitnessConfig ws)
  then show ?thesis using assms(2) try_map_keys_not_Panic by (auto simp: sem_simps valid_ids_def)
next
  case (PEndpointAdvertisement es)
  then show ?thesis using assms(2,4) try_map_keys_not_Panic by (auto simp: sem_simps valid_ids_def)
next
  case (PMembershipInvitation v)
  then obtain r where "role_try_from (mi_role v) = Some r" using assms(2) role_known by auto
  with PMembershipInvitation show ?thesis
    using assms(2) by (auto simp: sem_simps check_invitation_def valid_invitation_def public_key_of_Ok
        split: option.splits if_splits)
next
  case (PMembershipRemoval t)
  have "bt_get (ls_invitations s) e' \<noteq> None" if "open_invitation_of s t = Some (e', v)" for e' v
    using open_invitation_iff(1) [OF assms(3) that] by simp
  with PMembershipRemoval show ?thesis
    using assms(2) by (cases "open_invitation_of s t")
      (auto simp: sem_simps check_removal_def set_status_def Let_def split: option.splits if_splits)
next
  case (PMembershipAcceptance m)
  then obtain a where a: "valid_signed_acceptance E m a" "length (ma_acceptance m) \<le> MAX_ACCEPTANCE_BYTES"
    using assms(2) by auto
  have adm: "admit s ev v \<noteq> Panic" for ev v
    by (auto simp: admit_def check_demotion_def split: option.splits prod.splits)
  have "check_acceptance E s m \<noteq> Panic"
    using decode_valid_acceptance [OF assms(1) a] a(1) adm
    by (auto simp: check_acceptance_def valid_signed_acceptance_def valid_acceptance_def public_key_of_Ok
        split: if_splits)
  moreover have "commit_effect s seq e eff \<noteq> Panic" if "check_acceptance E s m = Ok eff" for eff
    using that unfolding check_acceptance_Ok [OF assms(1,3) a] admit_Ok [OF assms(3)]
    by (auto simp: commit_effect_def set_status_def)
  ultimately show ?thesis using PMembershipAcceptance by (auto simp: sem_def check_semantics_def)
qed (use assms in \<open>auto simp: sem_simps valid_ids_def try_map_ids split: option.splits if_splits\<close>)

lemma apply_not_Panic:
  assumes "prost_codec E" and "state_wf s" and "started (abs_state s)"
    and "\<And>h. ls_head s = Some h \<Longrightarrow> hd_seq h + 1 \<noteq> 0"
  shows "apply_event E s ev \<noteq> Panic"
proof (cases "\<exists>m b. valid_event E ev m b")
  case False
  then have "signed_event E ev \<noteq> Ok ()" using signed_event_iff by blast
  moreover have "signed_event E ev \<noteq> Panic"
    using validate_not_Panic [of SIGNED_EVENT E ev]
    by (auto simp: signed_event_def message_def CORE_TABLE_def)
  ultimately show ?thesis by (cases "signed_event E ev") (auto simp: apply_event_def Let_def)
next
  case True
  then obtain m b where v: "valid_event E ev m b" by blast
  obtain p where p: "eb_payload b = Some p" "payload_ok E p" "is_inception p \<longleftrightarrow> eb_seq b = 0" "chain_ok b"
    using valid_event_payload [OF v] by metis
  have chain: "check_chain s b \<noteq> Panic" if "eb_seq b = next_seq s"
    using that assms(3,4) p(4)
    by (cases "ls_head s") (auto simp: check_chain_def next_seq_def chain_ok_def started_def)
  have sem: "sem E s i seq p signer \<noteq> Panic" if "find_signer s (eb_seq b) k = Ok signer" for i seq k signer
    using that p(3) by (intro sem_not_Panic [OF assms(1) p(2) assms(2)])
      (auto simp: find_signer_def split: if_splits)
  have "find_signer s q k \<noteq> Panic" for q k by (simp add: find_signer_def)
  then show ?thesis
    using chain sem by (auto simp: apply_event_valid [OF assms(1) v p(1)] split: if_splits)
qed

end
