(* ===== verification/Fold_Facts.thy ===== *)
theory Fold_Facts
  imports Apply_Refine
begin

text \<open>
  Facts about whole ledgers: a fold is a run of the abstract ledger, it stops at
  the first event it rejects and can be resumed, positions and timestamps are in
  order, and the id of the last event fixes every body before it unless the hash
  function collides.
\<close>

section \<open>Folds are runs\<close>

definition decodes :: "env \<Rightarrow> bytes \<Rightarrow> pb_signed_event \<times> pb_event_body \<Rightarrow> bool" where
  "decodes E ev mb \<longleftrightarrow> valid_event E ev (fst mb) (snd mb)"

definition run_of :: "env \<Rightarrow> bytes list \<Rightarrow> (pb_signed_event \<times> pb_event_body) list \<Rightarrow> ledger_state \<Rightarrow> bool" where
  "run_of E evs mbs s \<longleftrightarrow> list_all2 (decodes E) evs mbs \<and> reached E mbs (abs_state s) \<and> state_wf s"

lemma fold_from_append:
  "fold_from E s (xs @ ys) =
   (case fold_from E s xs of
      Ok (s', None) \<Rightarrow> fold_from E s' ys
    | r \<Rightarrow> r)"
  by (induction E s xs rule: fold_from.induct) (auto split: outcome.splits)

lemma fold_from_Ok:
  assumes "fold_from E s evs = Ok (s', None)" and "prost_codec E" and "run_of E old mbs s"
  shows "\<exists>mbs'. run_of E (old @ evs) (mbs @ mbs') s'"
  using assms(1,3)
proof (induction evs arbitrary: s old mbs)
  case Nil
  then show ?case by (auto intro: exI [of _ "[]"])
next
  case (Cons ev evs)
  from Cons.prems(1) obtain s1 where s1: "apply_event E s ev = Ok s1" "fold_from E s1 evs = Ok (s', None)"
    by (auto split: outcome.splits)
  from apply_sound [OF assms(2) _ s1(1)] Cons.prems(2) obtain m b where
    "valid_event E ev m b" "event_step E (abs_state s) m b (abs_state s1)" "state_wf s1"
    by (auto simp: run_of_def)
  then have "run_of E (old @ [ev]) (mbs @ [(m, b)]) s1"
    using Cons.prems(2) by (auto simp: run_of_def decodes_def list_all2_appendI intro: reached.step)
  from Cons.IH [OF s1(2) this] show ?case by auto
qed

lemma run_of_empty: "run_of E [] [] empty_state"
  by (simp add: run_of_def abs_empty empty_state_wf reached.start)

lemma fold_events_run:
  assumes "fold_events E evs = Ok (s, None)" and "prost_codec E"
  shows "\<exists>mbs. run_of E evs mbs s"
  using fold_from_Ok [OF assms(1) [unfolded fold_events_def] assms(2) run_of_empty] by simp

lemma fold_from_violation:
  "fold_from E s evs = Ok (s', Some v) \<longleftrightarrow>
   (\<exists>pre ev post r. evs = pre @ ev # post \<and> fold_from E s pre = Ok (s', None)
      \<and> apply_event E s' ev = Err r \<and> v = \<lparr>vi_seq = next_seq s', vi_reason = r\<rparr>)"
proof (induction evs arbitrary: s)
  case (Cons ev evs)
  show ?case
  proof (cases "apply_event E s ev")
    case (Ok s1)
    show ?thesis
    proof
      assume "fold_from E s (ev # evs) = Ok (s', Some v)"
      with Ok Cons obtain pre x post r where "evs = pre @ x # post" "fold_from E s1 pre = Ok (s', None)"
        "apply_event E s' x = Err r" "v = \<lparr>vi_seq = next_seq s', vi_reason = r\<rparr>" by auto
      with Ok show "\<exists>pre x post r. ev # evs = pre @ x # post \<and> fold_from E s pre = Ok (s', None)
          \<and> apply_event E s' x = Err r \<and> v = \<lparr>vi_seq = next_seq s', vi_reason = r\<rparr>"
        by (intro exI [of _ "ev # pre"]) auto
    next
      assume "\<exists>pre x post r. ev # evs = pre @ x # post \<and> fold_from E s pre = Ok (s', None)
          \<and> apply_event E s' x = Err r \<and> v = \<lparr>vi_seq = next_seq s', vi_reason = r\<rparr>"
      then obtain pre x post r where *: "ev # evs = pre @ x # post" "fold_from E s pre = Ok (s', None)"
          "apply_event E s' x = Err r" "v = \<lparr>vi_seq = next_seq s', vi_reason = r\<rparr>" by blast
      with Ok Cons show "fold_from E s (ev # evs) = Ok (s', Some v)" by (cases pre) auto
    qed
  next
    case (Err r)
    have "\<exists>pre x post r. ev # evs = pre @ x # post \<and> fold_from E s pre = Ok (s, None)
        \<and> apply_event E s x = Err r \<and> v = \<lparr>vi_seq = next_seq s, vi_reason = r\<rparr>"
      if "v = \<lparr>vi_seq = next_seq s, vi_reason = r\<rparr>"
      using that Err by (intro exI [of _ "[]"] exI [of _ ev] exI [of _ evs] exI [of _ r]) auto
    with Err show ?thesis by (auto simp: Cons_eq_append_conv)
  next
    case Panic
    then show ?thesis by (auto simp: Cons_eq_append_conv)
  qed
qed simp

section \<open>Positions\<close>

lemma event_step_head:
  assumes "event_step E al m b al'"
  shows "al_head al' = Some \<lparr>hd_seq = eb_seq b, hd_event_id = event_id E (se_body m), hd_timestamp_ms = eb_timestamp_ms b\<rparr>"
    and "link_ok al b"
  using assms by (auto elim!: event_stepE)

lemma reached_head:
  assumes "reached E evs al"
  shows "al_head al = (if evs = [] then None
    else Some \<lparr>hd_seq = of_nat (length evs - 1), hd_event_id = event_id E (se_body (fst (last evs))),
               hd_timestamp_ms = eb_timestamp_ms (snd (last evs))\<rparr>)"
  using assms
proof (induction rule: reached.induct)
  case (step evs al m b al')
  note link = event_step_head [OF step.hyps(2)]
  have "eb_seq b = of_nat (length evs)"
    using link(2) step.IH by (cases "evs = []") (auto simp: link_ok_def of_nat_diff Suc_le_eq)
  then show ?case using link(1) by simp
qed simp

lemma reached_positions:
  assumes "reached E evs al"
  shows "\<forall>k < length evs. eb_seq (snd (evs ! k)) = of_nat k"
    and "sorted (map (\<lambda>e. eb_timestamp_ms (snd e)) evs)"
    and "\<forall>k < length evs. 0 < k \<longrightarrow> eb_prev (snd (evs ! k)) = event_id E (se_body (fst (evs ! (k - 1))))"
  using assms
proof (induction rule: reached.induct)
  case (step evs al m b al')
  note link = event_step_head(2) [OF step.hyps(2)] and head = reached_head [OF step.hyps(1)]
  have seq: "eb_seq b = of_nat (length evs)"
    using link head by (cases "evs = []") (auto simp: link_ok_def of_nat_diff Suc_le_eq)
  { case 1 show ?case using step.IH(1) seq by (auto simp: nth_append less_Suc_eq)
  next
    case 2
    have "eb_timestamp_ms (snd e) \<le> eb_timestamp_ms b" if mem: "e \<in> set evs" for e
    proof -
      have "evs \<noteq> []" using mem by auto
      then have "eb_timestamp_ms (snd (last evs)) \<le> eb_timestamp_ms b"
        using link head by (auto simp: link_ok_def)
      moreover have "eb_timestamp_ms (snd e) \<le> eb_timestamp_ms (snd (last evs))"
      proof -
        obtain k where "k < length evs" "evs ! k = e" using mem by (meson in_set_conv_nth)
        then show ?thesis
          using step.IH(2) \<open>evs \<noteq> []\<close> by (auto simp: sorted_iff_nth_mono last_conv_nth)
      qed
      ultimately show ?thesis by simp
    qed
    then show ?case using step.IH(2) by (auto simp: sorted_append)
  next
    case 3
    show ?case
      using step.IH(3) link head by (auto simp: nth_append less_Suc_eq link_ok_def last_conv_nth)
  }
qed simp_all

section \<open>The head fixes the ledger\<close>

definition collision :: "env \<Rightarrow> bool" where
  "collision E \<longleftrightarrow> (\<exists>x y. x \<noteq> y \<and> blake3 E x = blake3 E y)"

lemma event_id_inj: "event_id E x = event_id E y \<Longrightarrow> x = y \<or> collision E"
  unfolding event_id_def domain_hash_def collision_def by (metis same_append_eq)

lemma event_step_body:
  assumes "event_step E al m b al'" and "prost_codec E"
  shows "decode_event_body E (se_body m) = Some b"
  using assms decode_valid_event by (auto elim!: event_stepE)

lemma event_step_det:
  assumes "event_step E al m b al1" and "event_step E al m' b' al2" and "se_body m = se_body m'"
    and "prost_codec E" and "ledger_inv E al"
  shows "al1 = al2" and "b = b'"
proof -
  show b: "b = b'"
    using event_step_body [OF assms(1,4)] event_step_body [OF assms(2,4)] assms(3) by simp
  from assms(1) obtain bs p a1 where 1: "valid_event E bs m b" "eb_payload b = Some p"
    "payload_step E al (event_id E (se_body m)) (eb_seq b) (eb_author_key b) p a1"
    "al1 = a1\<lparr>al_head := Some \<lparr>hd_seq = eb_seq b, hd_event_id = event_id E (se_body m),
       hd_timestamp_ms = eb_timestamp_ms b\<rparr>\<rparr>"
    by (auto elim!: event_stepE)
  from assms(2) obtain a2 where 2: "payload_step E al (event_id E (se_body m)) (eb_seq b) (eb_author_key b) p a2"
    "al2 = a2\<lparr>al_head := Some \<lparr>hd_seq = eb_seq b, hd_event_id = event_id E (se_body m),
       hd_timestamp_ms = eb_timestamp_ms b\<rparr>\<rparr>"
    using 1(2) assms(3) b by (auto elim!: event_stepE)
  have "payload_ok E p" using 1(1,2) by (auto simp: valid_event_def valid_body_def)
  then have "a1 = a2"
    using payload_step_det [OF 1(3) 2(1)] assms(4,5) by (auto simp: ledger_inv_def)
  with 1(4) 2(2) show "al1 = al2" by simp
qed

lemma head_fixes_ledger:
  assumes "reached E evs al" and "reached E evs' al'" and "prost_codec E" and "crypto_ok E"
    and "length evs = length evs'"
    and "evs \<noteq> [] \<Longrightarrow> event_id E (se_body (fst (last evs))) = event_id E (se_body (fst (last evs')))"
    and "\<not> collision E"
  shows "al = al' \<and> map (se_body \<circ> fst) evs = map (se_body \<circ> fst) evs'"
  using assms(1,2,5,6)
proof (induction arbitrary: evs' al' rule: reached.induct)
  case start
  then show ?case by (auto elim: reached.cases)
next
  case (step evs al m b al1)
  from step.prems(1) step.prems(2) obtain evs2 al2 m2 b2 where
    2: "evs' = evs2 @ [(m2, b2)]" "reached E evs2 al2" "event_step E al2 m2 b2 al'"
    by (cases rule: reached.cases) auto
  have body: "se_body m = se_body m2"
    using step.prems(3) 2(1) event_id_inj assms(7) by auto
  have b: "b = b2"
    using event_step_body [OF step.hyps(2) assms(3)] event_step_body [OF 2(3) assms(3)] body by simp
  have "event_id E (se_body (fst (last evs))) = event_id E (se_body (fst (last evs2)))" if "evs \<noteq> []"
  proof -
    have "evs2 \<noteq> []" using step.prems(2) 2(1) that by auto
    then show ?thesis
      using event_step_head(2) [OF step.hyps(2)] event_step_head(2) [OF 2(3)] b that
        reached_head [OF step.hyps(1)] reached_head [OF 2(2)]
      by (simp add: link_ok_def)
  qed
  with step.IH [OF 2(2)] step.prems(2) 2(1) have IH: "al = al2" "map (se_body \<circ> fst) evs = map (se_body \<circ> fst) evs2"
    by (auto simp: comp_def)
  have "al1 = al'"
    using event_step_det [OF step.hyps(2) 2(3) [folded IH(1)] body assms(3)
        reached_inv [OF step.hyps(1) assms(4)]] by simp
  with IH 2(1) body show ?case by (simp add: comp_def)
qed

lemma fold_from_not_Panic:
  assumes "prost_codec E" and "crypto_ok E" and "run_of E old mbs s" and "length old + length evs < 2 ^ 64"
  shows "fold_from E s evs \<noteq> Panic"
  using assms(3,4)
proof (induction evs arbitrary: s old mbs)
  case (Cons ev evs)
  note run = Cons.prems(1) [unfolded run_of_def]
  have len: "length mbs = length old" using run by (auto dest: list_all2_lengthD)
  have "hd_seq h + 1 \<noteq> 0" if "ls_head s = Some h" for h
  proof -
    have "hd_seq h = of_nat (length mbs - 1)" "mbs \<noteq> []"
      using reached_head [of E mbs "abs_state s"] run that by (auto split: if_splits)
    then have "hd_seq h + 1 = of_nat (length mbs)" by (simp add: of_nat_diff Suc_le_eq)
    moreover have "unat (of_nat (length mbs) :: u64) = length mbs"
      using Cons.prems(2) len by (intro unat_word_of_nat64) simp
    ultimately show ?thesis using \<open>mbs \<noteq> []\<close> by (metis length_0_conv unat_0)
  qed
  moreover have "started (abs_state s)"
    using reached_inv [of E mbs "abs_state s"] run assms(2) by (simp add: ledger_inv_def)
  ultimately have np: "apply_event E s ev \<noteq> Panic"
    using run by (intro apply_not_Panic [OF assms(1)]) auto
  show ?case
  proof (cases "apply_event E s ev")
    case (Ok s1)
    from apply_sound [OF assms(1) _ Ok] run obtain m b where
      "valid_event E ev m b" "event_step E (abs_state s) m b (abs_state s1)" "state_wf s1" by auto
    then have "run_of E (old @ [ev]) (mbs @ [(m, b)]) s1"
      using run by (auto simp: run_of_def decodes_def list_all2_appendI intro: reached.step)
    from Cons.IH [OF this] Cons.prems(2) Ok show ?thesis by simp
  qed (use np in auto)
qed simp

end
