(* ===== verification/Sign.thy ===== *)
theory Sign
  imports Fold_Facts
begin

text \<open>
  The signing path, \<open>crates/mabel-core/src/sign.rs\<close>: the functions that build
  event bytes. A secret key is its bytes and \<open>ed_public\<close>, \<open>ed_sign\<close> are the
  externals that use it. The lemmas join the path to the fold: what a builder
  returns is a valid event as soon as its payload is, and at the position after a
  state, signed by one of its controllers, the event is applied with the id the
  builder reported.
\<close>

section \<open>Arguments and results\<close>

record built_event =
  be_event_id :: event_id
  be_body :: bytes
  be_signed_event :: bytes

record detached_acceptance =
  da_acceptance :: bytes
  da_signature :: bytes

datatype root_arg = RootRaw (ra_reserve_key: public_key)
  | RootIdentity (ra_founder: identity_id) (ra_founder_inception: bytes)

record position =
  ps_ledger :: ledger_id
  ps_seq :: u64
  ps_prev :: event_id
  ps_prev_timestamp_ms :: u64

datatype build_error =
    Timestamp u64
  | AppendAtSeqZero
  | EventTooLarge nat
  | InceptionTooLarge nat
  | AcceptanceTooLarge nat
  | WitnessCount nat
  | WitnessDuplicate
  | EndpointCount nat
  | EndpointDuplicate

type_synonym 'a build_result = "(build_error, 'a) outcome"

fun declared_kind_number :: "declared_kind \<Rightarrow> nat" where
  "declared_kind_number KindUnspecified = 0"
| "declared_kind_number Person = 1"
| "declared_kind_number Organization = 2"
| "declared_kind_number Agent = 3"
| "declared_kind_number Service = 4"

fun role_number :: "role \<Rightarrow> nat" where
  "role_number RoleUnspecified = 0"
| "role_number Member = 1"
| "role_number Controller = 2"

section \<open>Sealing a body\<close>

definition ledger_timestamp_ms :: "u64 \<Rightarrow> u64 \<Rightarrow> u64" where
  "ledger_timestamp_ms now_ms prev_timestamp_ms = max now_ms prev_timestamp_ms"

definition check_timestamp :: "u64 \<Rightarrow> unit build_result" where
  "check_timestamp timestamp_ms =
     (if timestamp_ms = 0 \<or> timestamp_ms > MAX_TIMESTAMP_MS then Err (Timestamp timestamp_ms)
      else Ok ())"

definition check_embedded_size :: "bytes \<Rightarrow> unit build_result" where
  "check_embedded_size bs =
     (if length bs > MAX_EMBEDDED_INCEPTION_BYTES then Err (InceptionTooLarge (length bs))
      else Ok ())"

definition check_distinct :: "'a list \<Rightarrow> build_error \<Rightarrow> unit build_result" where
  "check_distinct entries error = (if has_repeat entries then Err error else Ok ())"

definition seal :: "env \<Rightarrow> bytes \<Rightarrow> pb_event_body \<Rightarrow> built_event build_result" where
  "seal E signer b =
     (let body = encode_event_body E b;
          signature = ed_sign E signer (sign_input body);
          signed_event = encode_signed_event E \<lparr>se_body = body, se_signature = signature\<rparr>
      in if length signed_event > MAX_EVENT_BYTES then Err (EventTooLarge (length signed_event))
         else Ok \<lparr>be_event_id = event_id E body, be_body = body, be_signed_event = signed_event\<rparr>)"

definition inception_body :: "public_key \<Rightarrow> u64 \<Rightarrow> pb_payload \<Rightarrow> pb_event_body build_result" where
  "inception_body author_key now_ms payload =
     obind (check_timestamp now_ms) (\<lambda>_.
     Ok \<lparr>eb_version = 0, eb_ledger = [], eb_seq = 0, eb_prev = [], eb_timestamp_ms = now_ms,
         eb_author_key = author_key, eb_payload = Some payload\<rparr>)"

definition append_body :: "env \<Rightarrow> bytes \<Rightarrow> position \<Rightarrow> u64 \<Rightarrow> pb_payload \<Rightarrow> pb_event_body" where
  "append_body E signer at timestamp_ms payload =
     \<lparr>eb_version = 0, eb_ledger = ps_ledger at, eb_seq = ps_seq at, eb_prev = ps_prev at,
      eb_timestamp_ms = timestamp_ms, eb_author_key = ed_public E signer,
      eb_payload = Some payload\<rparr>"

definition build_append ::
  "env \<Rightarrow> bytes \<Rightarrow> position \<Rightarrow> u64 \<Rightarrow> pb_payload \<Rightarrow> built_event build_result" where
  "build_append E signer at now_ms payload =
     (if ps_seq at = 0 then Err AppendAtSeqZero
      else
        let timestamp_ms = ledger_timestamp_ms now_ms (ps_prev_timestamp_ms at) in
        obind (check_timestamp timestamp_ms) (\<lambda>_.
        seal E signer (append_body E signer at timestamp_ms payload)))"

section \<open>The builders\<close>

definition build_inception ::
  "env \<Rightarrow> bytes \<Rightarrow> declared_kind \<Rightarrow> root_arg \<Rightarrow> bytes \<Rightarrow> u64 \<Rightarrow> built_event build_result" where
  "build_inception E signer kind root nonce now_ms =
     (let author_key = ed_public E signer in
      obind
        (case root of
           RootRaw reserve_key \<Rightarrow>
             Ok (RawRoot \<lparr>rr_active_key = author_key, rr_reserve_commit = reserve_commit E reserve_key\<rparr>)
         | RootIdentity founder founder_inception \<Rightarrow>
             obind (check_embedded_size founder_inception) (\<lambda>_.
             Ok (IdentityRoot \<lparr>ir_founder = founder, ir_founder_key = author_key,
                   ir_founder_inception = founder_inception\<rparr>)))
        (\<lambda>root.
      obind (inception_body author_key now_ms
               (PInception \<lparr>in_kind = declared_kind_number kind, in_nonce = nonce,
                  in_root = Some root\<rparr>))
        (seal E signer)))"

definition build_witness_config ::
  "env \<Rightarrow> bytes \<Rightarrow> position \<Rightarrow> public_key list \<Rightarrow> u64 \<Rightarrow> built_event build_result" where
  "build_witness_config E signer at witnesses now_ms =
     (if witnesses = [] \<or> length witnesses > MAX_WITNESSES
      then Err (WitnessCount (length witnesses))
      else obind (check_distinct witnesses WitnessDuplicate) (\<lambda>_.
           build_append E signer at now_ms (PWitnessConfig witnesses)))"

definition build_witness_set ::
  "env \<Rightarrow> bytes \<Rightarrow> position \<Rightarrow> identity_id list \<Rightarrow> u64 \<Rightarrow> built_event build_result" where
  "build_witness_set E signer at witnesses now_ms =
     (if length witnesses > MAX_WITNESSES then Err (WitnessCount (length witnesses))
      else obind (check_distinct witnesses WitnessDuplicate) (\<lambda>_.
           build_append E signer at now_ms (PWitnessSet witnesses)))"

definition build_endpoint_advertisement ::
  "env \<Rightarrow> bytes \<Rightarrow> position \<Rightarrow> public_key list \<Rightarrow> u64 \<Rightarrow> built_event build_result" where
  "build_endpoint_advertisement E signer at eps now_ms =
     (if length eps > MAX_ENDPOINTS then Err (EndpointCount (length eps))
      else obind (check_distinct eps EndpointDuplicate) (\<lambda>_.
           build_append E signer at now_ms (PEndpointAdvertisement eps)))"

definition build_trust_attestation ::
  "env \<Rightarrow> bytes \<Rightarrow> position \<Rightarrow> identity_id \<Rightarrow> u64 \<Rightarrow> built_event build_result" where
  "build_trust_attestation E signer at subject now_ms =
     build_append E signer at now_ms (PTrustAttestation subject)"

definition build_trust_revocation ::
  "env \<Rightarrow> bytes \<Rightarrow> position \<Rightarrow> event_id \<Rightarrow> u64 \<Rightarrow> built_event build_result" where
  "build_trust_revocation E signer at target now_ms =
     build_append E signer at now_ms (PTrustRevocation target)"

definition build_membership_invitation ::
  "env \<Rightarrow> bytes \<Rightarrow> position \<Rightarrow> identity_id \<Rightarrow> public_key \<Rightarrow> role \<Rightarrow> bytes \<Rightarrow> u64 \<Rightarrow>
   built_event build_result" where
  "build_membership_invitation E signer at invitee invitee_key role invitee_inception now_ms =
     obind (check_embedded_size invitee_inception) (\<lambda>_.
     build_append E signer at now_ms
       (PMembershipInvitation \<lparr>mi_invitee = invitee, mi_invitee_key = invitee_key,
          mi_role = role_number role, mi_invitee_inception = invitee_inception\<rparr>))"

definition build_membership_acceptance ::
  "env \<Rightarrow> bytes \<Rightarrow> position \<Rightarrow> detached_acceptance \<Rightarrow> u64 \<Rightarrow> built_event build_result" where
  "build_membership_acceptance E signer at da now_ms =
     (if length (da_acceptance da) > MAX_ACCEPTANCE_BYTES
      then Err (AcceptanceTooLarge (length (da_acceptance da)))
      else build_append E signer at now_ms
             (PMembershipAcceptance \<lparr>ma_acceptance = da_acceptance da,
                ma_signature = da_signature da\<rparr>))"

definition build_membership_removal ::
  "env \<Rightarrow> bytes \<Rightarrow> position \<Rightarrow> identity_id \<Rightarrow> u64 \<Rightarrow> built_event build_result" where
  "build_membership_removal E signer at target now_ms =
     build_append E signer at now_ms (PMembershipRemoval target)"

definition unwrap_or_default :: "bytes option \<Rightarrow> bytes" where
  "unwrap_or_default v = (case v of None \<Rightarrow> [] | Some t \<Rightarrow> t)"

definition profile_update ::
  "bytes option \<Rightarrow> bytes option \<Rightarrow> bytes option \<Rightarrow> pb_profile_update" where
  "profile_update display_name hostname email =
     \<lparr>pu_display_name = unwrap_or_default display_name, pu_hostname = unwrap_or_default hostname,
      pu_email = unwrap_or_default email\<rparr>"

definition build_profile_update ::
  "env \<Rightarrow> bytes \<Rightarrow> position \<Rightarrow> bytes option \<Rightarrow> bytes option \<Rightarrow> bytes option \<Rightarrow> u64 \<Rightarrow>
   built_event build_result" where
  "build_profile_update E signer at display_name hostname email now_ms =
     build_append E signer at now_ms (PProfileUpdate (profile_update display_name hostname email))"

definition check_profile ::
  "env \<Rightarrow> bytes option \<Rightarrow> bytes option \<Rightarrow> bytes option \<Rightarrow> unit wire_result" where
  "check_profile E display_name hostname email =
     message E PROFILE_UPDATE (encode_profile_update E (profile_update display_name hostname email))"

definition build_acceptance ::
  "env \<Rightarrow> bytes \<Rightarrow> ledger_id \<Rightarrow> event_id \<Rightarrow> identity_id \<Rightarrow> detached_acceptance" where
  "build_acceptance E invitee_active ledger invitation_event invitee =
     (let blob = encode_acceptance E \<lparr>ac_version = 0, ac_ledger = ledger,
            ac_invitation_event = invitation_event, ac_invitee = invitee,
            ac_invitee_key = ed_public E invitee_active\<rparr>
      in \<lparr>da_acceptance = blob,
          da_signature = ed_sign E invitee_active (accept_input blob)\<rparr>)"

lemmas builder_defs = build_witness_config_def build_witness_set_def
  build_endpoint_advertisement_def build_trust_attestation_def build_trust_revocation_def
  build_membership_invitation_def build_membership_acceptance_def build_membership_removal_def
  build_profile_update_def

section \<open>What sealing promises\<close>

lemma one_le_word: "(1 :: u64) \<le> t \<longleftrightarrow> t \<noteq> 0"
  by (auto simp: word_le_nat_alt Suc_le_eq unat_gt_0)

lemma check_timestamp_Ok [simp]: "check_timestamp t = Ok () \<longleftrightarrow> valid_timestamp t"
  by (auto simp: check_timestamp_def valid_timestamp_def one_le_word)

lemma check_embedded_size_Ok [simp]:
  "check_embedded_size bs = Ok () \<longleftrightarrow> length bs \<le> MAX_EMBEDDED_INCEPTION_BYTES"
  by (auto simp: check_embedded_size_def)

lemma check_distinct_Ok [simp]: "check_distinct xs e = Ok () \<longleftrightarrow> distinct xs"
  by (simp add: check_distinct_def)

lemma seal_Ok:
  assumes "prost_codec E"
  shows "seal E sk b = Ok be \<longleftrightarrow>
    be_body be = enc_records (event_body_records b) \<and> be_event_id be = event_id E (be_body be)
    \<and> be_signed_event be = enc_records (signed_event_records
        \<lparr>se_body = be_body be, se_signature = ed_sign E sk (sign_input (be_body be))\<rparr>)
    \<and> length (be_signed_event be) \<le> MAX_EVENT_BYTES"
  using assms
  by (cases be) (auto simp: seal_def Let_def prost_codec.encode_event_body prost_codec.encode_signed_event)

definition signed_by :: "env \<Rightarrow> bytes \<Rightarrow> bytes \<Rightarrow> pb_signed_event" where
  "signed_by E sk body = \<lparr>se_body = body, se_signature = ed_sign E sk (sign_input body)\<rparr>"

lemma signed_by_sel [simp]:
  "se_body (signed_by E sk body) = body"
  "se_signature (signed_by E sk body) = ed_sign E sk (sign_input body)"
  by (simp_all add: signed_by_def)

lemma sealed_valid:
  assumes "prost_codec E" and "crypto_ok E" and "seal E sk b = Ok be" and "valid_body E b"
  shows "valid_event E (be_signed_event be) (signed_by E sk (be_body be)) b"
  using assms by (auto simp: seal_Ok valid_event_def signed_by_def crypto_okD SIG_BYTES_def)

lemma sealed_decodes_only_valid:
  assumes "prost_codec E" and "seal E sk b = Ok be" and "eb_version b < 2 ^ 32"
    and "payload_wf is_utf8 (eb_payload b)" and "signed_event E (be_signed_event be) = Ok ()"
  shows "valid_body E b"
proof -
  obtain m b' where v: "valid_event E (be_signed_event be) m b'"
    using assms(5) signed_event_iff by blast
  note s = assms(2) [unfolded seal_Ok [OF assms(1)]]
  have "encodable (signed_event_records (signed_by E sk (be_body be)))"
    using s by (auto simp: encodable_def signed_by_def MAX_EVENT_BYTES_def)
  then have "decode_signed_event E (be_signed_event be) = Some (signed_by E sk (be_body be))"
    using s prost_codec.decode_signed_event [OF assms(1)] by (auto simp: signed_by_def)
  then have m: "m = signed_by E sk (be_body be)" using decode_valid_event(1) [OF assms(1) v] by simp
  have "length (be_body be) \<le> length (be_signed_event be)"
    using s by (auto simp: signed_event_records_def f_bytes_def)
  with s have "encodable (event_body_records b)" by (auto simp: encodable_def MAX_EVENT_BYTES_def)
  then have "decode_event_body E (be_body be) = Some b"
    using s prost_codec.decode_event_body [OF assms(1) _ assms(3,4)] by auto
  with decode_valid_event(2) [OF assms(1) v] m have "b' = b" by simp
  with v show ?thesis by (simp add: valid_event_def)
qed

section \<open>Appending at the head\<close>

text \<open>The position an appender signs for: one past the head (\<open>wallet/core.rs\<close>, \<open>append_event\<close>).\<close>

definition position_at_head :: "ledger_id \<Rightarrow> head \<Rightarrow> position" where
  "position_at_head ledger h = \<lparr>ps_ledger = ledger, ps_seq = hd_seq h + 1, ps_prev = hd_event_id h,
     ps_prev_timestamp_ms = hd_timestamp_ms h\<rparr>"

lemma position_sel [simp]:
  "ps_ledger (position_at_head l h) = l" "ps_seq (position_at_head l h) = hd_seq h + 1"
  "ps_prev (position_at_head l h) = hd_event_id h"
  "ps_prev_timestamp_ms (position_at_head l h) = hd_timestamp_ms h"
  by (simp_all add: position_at_head_def)

lemma append_body_sel [simp]:
  "eb_ledger (append_body E sk at t p) = ps_ledger at" "eb_seq (append_body E sk at t p) = ps_seq at"
  "eb_prev (append_body E sk at t p) = ps_prev at" "eb_timestamp_ms (append_body E sk at t p) = t"
  "eb_author_key (append_body E sk at t p) = ed_public E sk"
  "eb_payload (append_body E sk at t p) = Some p" "eb_version (append_body E sk at t p) = 0"
  by (simp_all add: append_body_def)

text \<open>A payload that may be appended to a ledger: valid, and not about the ledger itself.\<close>

definition appendable :: "env \<Rightarrow> ledger_id \<Rightarrow> pb_payload \<Rightarrow> bool" where
  "appendable E l p \<longleftrightarrow> payload_ok E p \<and> \<not> is_inception p
     \<and> (\<forall>t. p = PTrustAttestation t \<longrightarrow> t \<noteq> l)
     \<and> (\<forall>v. p = PMembershipInvitation v \<longrightarrow> mi_invitee v \<noteq> l)"

lemma appendable_fits: "appendable E (eb_ledger b) p \<Longrightarrow> payload_fits b p"
  by (cases p) (auto simp: appendable_def)

lemma append_body_valid:
  assumes "crypto_ok E" and "ps_seq at \<noteq> 0" and "length (ps_ledger at) = 32" and "length (ps_prev at) = 32"
    and "valid_timestamp t" and "appendable E (ps_ledger at) p"
  shows "valid_body E (append_body E sk at t p)"
  using assms appendable_fits [of E "append_body E sk at t p" p]
  by (auto simp: valid_body_def chain_ok_def ID_BYTES_def crypto_okD appendable_def)

lemma build_append_Ok:
  assumes "build_append E sk at now p = Ok be"
  shows "ps_seq at \<noteq> 0" and "valid_timestamp (ledger_timestamp_ms now (ps_prev_timestamp_ms at))"
    and "seal E sk (append_body E sk at (ledger_timestamp_ms now (ps_prev_timestamp_ms at)) p) = Ok be"
  using assms by (auto simp: build_append_def Let_def split: if_splits)

lemma built_append_valid:
  assumes "prost_codec E" and "crypto_ok E" and "build_append E sk at now p = Ok be"
    and "length (ps_ledger at) = 32" and "length (ps_prev at) = 32" and "appendable E (ps_ledger at) p"
  shows "valid_event E (be_signed_event be) (signed_by E sk (be_body be))
    (append_body E sk at (ledger_timestamp_ms now (ps_prev_timestamp_ms at)) p)"
  using build_append_Ok [OF assms(3)] assms by (intro sealed_valid append_body_valid) auto

lemma built_append_id:
  assumes "prost_codec E" and "build_append E sk at now p = Ok be"
  shows "be_event_id be = event_id E (be_body be)"
  using build_append_Ok(3) [OF assms(2)] seal_Ok [OF assms(1)] by blast

text \<open>Applying what was built at the head is running its payload's rule.\<close>

lemma apply_built:
  assumes "prost_codec E" and "crypto_ok E" and "build_append E sk (position_at_head l h) now p = Ok be"
    and "ls_ledger s = Some l" and "ls_head s = Some h" and "length l = 32" and "length (hd_event_id h) = 32"
    and "signing_principal_for s (ed_public E sk) = Some sp" and "appendable E l p"
  shows "apply_event E s (be_signed_event be) =
    obind (sem E s (be_event_id be) (hd_seq h + 1) p (Some sp)) (\<lambda>s'.
      Ok (commit_head s' (hd_seq h + 1) (be_event_id be) (max now (hd_timestamp_ms h))))"
proof -
  let ?t = "max now (hd_timestamp_ms h)"
  let ?b = "append_body E sk (position_at_head l h) ?t p"
  have v: "valid_event E (be_signed_event be) (signed_by E sk (be_body be)) ?b"
    using built_append_valid [OF assms(1-3)] assms by (simp add: ledger_timestamp_ms_def)
  have seq: "next_seq s = hd_seq h + 1" "hd_seq h + 1 \<noteq> 0"
    using assms(5) build_append_Ok(1) [OF assms(3)] by (simp_all add: next_seq_def)
  have "check_chain s ?b = Ok ()"
    using assms(4-7) by (simp add: check_chain_def ID_BYTES_def not_less)
  moreover have "find_signer s (hd_seq h + 1) (ed_public E sk) = Ok (Some sp)"
    using seq(2) assms(8) by (simp add: find_signer_def)
  ultimately show ?thesis
    using seq apply_event_valid [OF assms(1) v, of p s] built_append_id [OF assms(1,3)]
      crypto_okD [OF assms(2)]
    by simp
qed

end
