(* ===== verification/Proto_Codec.thy ===== *)
theory Proto_Codec
  imports Scan_Facts
begin

text \<open>
  A protobuf decoder, written out: it reads a byte string into its records and
  reads each message off its records (the last record of a field counts, an
  absent field holds its default). With the canonical layouts of
  \<open>Proto_Messages.thy\<close> as the encoder it provides the contract \<open>prost_codec\<close>
  for any choice of the other externals.
\<close>

section \<open>Reading records\<close>

function read_records :: "bytes \<Rightarrow> records option" where
  "read_records bs =
     (if bs = [] then Some []
      else (case read_varint '''' bs of
              Ok (key, bs1) \<Rightarrow>
                (case read_varint '''' bs1 of
                   Ok (v, bs2) \<Rightarrow>
                     if unat key mod 8 = 0
                     then map_option (Cons (unat key div 8, VVarint v)) (read_records bs2)
                     else if unat key mod 8 = 2 \<and> unat v \<le> length bs2
                     then map_option (Cons (unat key div 8, VBytes (take (unat v) bs2)))
                            (read_records (drop (unat v) bs2))
                     else None
                 | _ \<Rightarrow> None)
            | _ \<Rightarrow> None))"
  by pat_completeness auto

termination read_records
  by (relation "measure length")
     (auto dest!: read_varint_shorter intro: le_less_trans [of _ "length _"])

declare read_records.simps [simp del]

lemma read_records_Nil [simp]: "read_records [] = Some []"
  by (simp add: read_records.simps)

lemma read_records_Cons:
  assumes "k < 2 ^ 29" and "fits (k, v)"
  shows "read_records (enc_record (k, v) @ bs) = map_option (Cons (k, v)) (read_records bs)"
proof -
  let ?w = "wire_kind_number (value_kind v)"
  have w: "?w < 8" by (auto simp: value_kind_def split: wvalue.splits)
  have key: "read_varint '''' (enc_record (k, v) @ bs)
      = Ok (word_of_nat (8 * k + ?w), value_bytes v @ bs)"
    using assms(1) w read_varint_complete [of "8 * k + ?w" "''''" "value_bytes v @ bs"]
    by (simp add: enc_record_split)
  have unat_key: "unat (word_of_nat (8 * k + ?w) :: u64) = 8 * k + ?w"
    by (rule unat_word_of_nat64) (use assms(1) w in simp)
  have ne: "enc_record (k, v) @ bs \<noteq> []" by (simp add: enc_record_split)
  show ?thesis
  proof (cases v)
    case (VVarint x)
    have "read_varint '''' (value_bytes v @ bs) = Ok (x, bs)"
      using read_varint_complete [of "unat x" "''''" bs] unsigned_less [of x, where ?'a = nat]
      by (simp add: value_bytes_def VVarint)
    moreover have "?w = 0" by (simp add: VVarint value_kind_def)
    ultimately show ?thesis
      using ne unat_key by (subst read_records.simps) (simp add: key flip: VVarint)
  next
    case (VBytes b)
    have len: "length b < 2 ^ 64" using assms(2) by (simp add: fits_def VBytes)
    then have "read_varint '''' (value_bytes v @ bs) = Ok (word_of_nat (length b), b @ bs)"
      using read_varint_complete [of "length b" "''''" "b @ bs"]
      by (simp add: value_bytes_def VBytes)
    moreover have "?w = 2" by (simp add: VBytes value_kind_def)
    moreover have "Suc (Suc (8 * k)) mod 8 = 2" and "Suc (Suc (8 * k)) div 8 = k" by presburger+
    ultimately show ?thesis
      using ne unat_key len
      by (subst read_records.simps) (simp add: key unat_word_of_nat64 flip: VBytes)
  qed
qed

lemma length_enc_record: "length (value_bytes v) \<le> length (enc_record (k, v))"
  by (simp add: enc_record_split)

lemma read_records_encoded:
  assumes "list_all (\<lambda>e. fst e < 2 ^ 29) rs" and "length (enc_records rs) < 2 ^ 64"
  shows "read_records (enc_records rs) = Some rs"
  using assms
proof (induction rs)
  case (Cons e rs)
  obtain k v where e: "e = (k, v)" by force
  have "fits (k, v)"
    using Cons.prems(2) length_enc_record [of v k]
    by (auto simp: fits_def e value_bytes_def split: wvalue.splits)
  then show ?case
    using Cons by (simp add: e read_records_Cons)
qed simp

section \<open>Reading messages\<close>

definition last_value :: "records \<Rightarrow> nat \<Rightarrow> wvalue option" where
  "last_value rs n = map_option snd (find (\<lambda>e. fst e = n) (rev rs))"

definition got_bytes :: "records \<Rightarrow> nat \<Rightarrow> bytes" where
  "got_bytes rs n = (case last_value rs n of Some (VBytes bs) \<Rightarrow> bs | _ \<Rightarrow> [])"

definition got_varint :: "records \<Rightarrow> nat \<Rightarrow> u64" where
  "got_varint rs n = (case last_value rs n of Some (VVarint v) \<Rightarrow> v | _ \<Rightarrow> 0)"

definition got_repeated :: "records \<Rightarrow> nat \<Rightarrow> bytes list" where
  "got_repeated rs n =
     concat (map (\<lambda>e. if fst e = n then (case snd e of VBytes bs \<Rightarrow> [bs] | _ \<Rightarrow> []) else []) rs)"

definition got_oneof :: "records \<Rightarrow> nat list \<Rightarrow> (nat \<times> bytes) option" where
  "got_oneof rs ns =
     (case find (\<lambda>e. fst e \<in> set ns) (rev rs) of
        Some (n, VBytes bs) \<Rightarrow> Some (n, bs) | _ \<Rightarrow> None)"

definition proto_signed_event :: "bytes \<Rightarrow> pb_signed_event option" where
  "proto_signed_event bs =
     map_option (\<lambda>rs. \<lparr>se_body = got_bytes rs 1, se_signature = got_bytes rs 2\<rparr>) (read_records bs)"

definition proto_acceptance :: "bytes \<Rightarrow> pb_acceptance option" where
  "proto_acceptance bs =
     map_option (\<lambda>rs. \<lparr>ac_version = unat (got_varint rs 1) mod 2 ^ 32, ac_ledger = got_bytes rs 2,
         ac_invitation_event = got_bytes rs 3, ac_invitee = got_bytes rs 4,
         ac_invitee_key = got_bytes rs 5\<rparr>) (read_records bs)"

definition proto_raw_root :: "bytes \<Rightarrow> pb_raw_root option" where
  "proto_raw_root bs =
     map_option (\<lambda>rs. \<lparr>rr_active_key = got_bytes rs 1, rr_reserve_commit = got_bytes rs 2\<rparr>)
       (read_records bs)"

definition proto_identity_root :: "bytes \<Rightarrow> pb_identity_root option" where
  "proto_identity_root bs =
     map_option (\<lambda>rs. \<lparr>ir_founder = got_bytes rs 1, ir_founder_key = got_bytes rs 2,
         ir_founder_inception = got_bytes rs 3\<rparr>) (read_records bs)"

definition proto_root :: "records \<Rightarrow> pb_root option option" where
  "proto_root rs =
     (case got_oneof rs [10, 11] of
        None \<Rightarrow> Some None
      | Some (n, bs) \<Rightarrow>
          if n = 10 then map_option (Some \<circ> RawRoot) (proto_raw_root bs)
          else map_option (Some \<circ> IdentityRoot) (proto_identity_root bs))"

definition proto_inception :: "bytes \<Rightarrow> pb_inception option" where
  "proto_inception bs =
     Option.bind (read_records bs) (\<lambda>rs.
       map_option (\<lambda>r. \<lparr>in_kind = unat (got_varint rs 1) mod 2 ^ 32, in_nonce = got_bytes rs 2,
         in_root = r\<rparr>) (proto_root rs))"

definition proto_invitation :: "bytes \<Rightarrow> pb_invitation option" where
  "proto_invitation bs =
     map_option (\<lambda>rs. \<lparr>mi_invitee = got_bytes rs 1, mi_invitee_key = got_bytes rs 2,
         mi_role = unat (got_varint rs 3) mod 2 ^ 32, mi_invitee_inception = got_bytes rs 4\<rparr>)
       (read_records bs)"

definition proto_membership_acceptance :: "bytes \<Rightarrow> pb_membership_acceptance option" where
  "proto_membership_acceptance bs =
     map_option (\<lambda>rs. \<lparr>ma_acceptance = got_bytes rs 1, ma_signature = got_bytes rs 2\<rparr>)
       (read_records bs)"

definition proto_profile :: "bytes \<Rightarrow> pb_profile_update option" where
  "proto_profile bs =
     Option.bind (read_records bs) (\<lambda>rs.
       if list_all (\<lambda>n. is_utf8 (got_bytes rs n)) [1, 2, 3]
       then Some \<lparr>pu_display_name = got_bytes rs 1, pu_hostname = got_bytes rs 2,
              pu_email = got_bytes rs 3\<rparr>
       else None)"

definition proto_id :: "bytes \<Rightarrow> bytes option" where
  "proto_id bs = map_option (\<lambda>rs. got_bytes rs 1) (read_records bs)"

definition proto_ids :: "bytes \<Rightarrow> bytes list option" where
  "proto_ids bs = map_option (\<lambda>rs. got_repeated rs 1) (read_records bs)"

definition proto_payload :: "nat \<Rightarrow> bytes \<Rightarrow> pb_payload option" where
  "proto_payload n bs =
     (if n = 10 then map_option PInception (proto_inception bs)
      else if n = 11 then map_option PWitnessConfig (proto_ids bs)
      else if n = 12 then map_option PTrustAttestation (proto_id bs)
      else if n = 13 then map_option PTrustRevocation (proto_id bs)
      else if n = 14 then map_option PMembershipInvitation (proto_invitation bs)
      else if n = 15 then map_option PMembershipAcceptance (proto_membership_acceptance bs)
      else if n = 16 then map_option PMembershipRemoval (proto_id bs)
      else if n = 17 then map_option PProfileUpdate (proto_profile bs)
      else if n = 18 then map_option PEndpointAdvertisement (proto_ids bs)
      else map_option PWitnessSet (proto_ids bs))"

definition proto_event_body :: "bytes \<Rightarrow> pb_event_body option" where
  "proto_event_body bs =
     Option.bind (read_records bs) (\<lambda>rs.
       map_option (\<lambda>p. \<lparr>eb_version = unat (got_varint rs 1) mod 2 ^ 32, eb_ledger = got_bytes rs 2,
           eb_seq = got_varint rs 3, eb_prev = got_bytes rs 4, eb_timestamp_ms = got_varint rs 5,
           eb_author_key = got_bytes rs 6, eb_payload = p\<rparr>)
         (case got_oneof rs [10, 11, 12, 13, 14, 15, 16, 17, 18, 19] of
            None \<Rightarrow> Some None
          | Some (n, bs) \<Rightarrow> map_option Some (proto_payload n bs)))"

section \<open>Reading back what the canonical layout wrote\<close>

named_theorems got_simps \<open>fields read off the records of a canonical layout\<close>

lemma find_append_case:
  "find P (xs @ ys) = (case find P xs of None \<Rightarrow> find P ys | Some x \<Rightarrow> Some x)"
  by (induction xs) auto

lemma last_value_field [got_simps]:
  "last_value [] n = None"
  "last_value (f_bytes k bs) n = (if k = n \<and> bs \<noteq> [] then Some (VBytes bs) else None)"
  "last_value (f_varint k v) n = (if k = n \<and> v \<noteq> 0 then Some (VVarint v) else None)"
  "last_value (f_message k rs) n = (if k = n then Some (VBytes (enc_records rs)) else None)"
  by (auto simp: last_value_def f_bytes_def f_varint_def f_message_def)

lemma got_append [got_simps]:
  "last_value rs' n = None \<Longrightarrow> got_bytes (rs @ rs') n = got_bytes rs n"
  "last_value rs n = None \<Longrightarrow> got_bytes (rs @ rs') n = got_bytes rs' n"
  "last_value rs' n = None \<Longrightarrow> got_varint (rs @ rs') n = got_varint rs n"
  "last_value rs n = None \<Longrightarrow> got_varint (rs @ rs') n = got_varint rs' n"
  "last_value rs n = None \<Longrightarrow> last_value (rs @ rs') n = last_value rs' n"
  by (auto simp: got_bytes_def got_varint_def last_value_def find_append_case split: option.splits)

lemma got_field [got_simps]:
  "got_bytes (f_bytes n bs) n = bs" "got_varint (f_varint n v) n = v"
  by (simp_all add: got_bytes_def got_varint_def last_value_field)

lemma got_repeated_field [got_simps]: "got_repeated (f_repeated n bss) n = bss"
  by (induction bss) (auto simp: got_repeated_def f_repeated_def)

lemma got_oneof_append:
  assumes "list_all (\<lambda>e. fst e \<notin> set ns) rs"
  shows "got_oneof (rs @ rs') ns = got_oneof rs' ns"
proof -
  have "find (\<lambda>e. fst e \<in> set ns) (rev rs) = None"
    using assms by (auto simp: find_None_iff list_all_iff)
  then show ?thesis by (simp add: got_oneof_def find_append_case split: option.splits)
qed

lemma got_oneof_message [got_simps]:
  "got_oneof [] ns = None"
  "n \<in> set ns \<Longrightarrow> got_oneof (f_message n rs) ns = Some (n, enc_records rs)"
  by (auto simp: got_oneof_def f_message_def)

lemma field_numbers [got_simps]:
  "list_all (\<lambda>e. fst e < k) (f_bytes n bs) \<longleftrightarrow> n < k \<or> bs = []"
  "list_all (\<lambda>e. fst e < k) (f_varint n v) \<longleftrightarrow> n < k \<or> v = 0"
  "list_all (\<lambda>e. fst e < k) (f_message n rs) \<longleftrightarrow> n < k"
  "list_all (\<lambda>e. fst e < k) (f_repeated n bss) \<longleftrightarrow> n < k \<or> bss = []"
  by (auto simp: layout_defs list_all_iff)

lemma small_enum_unat: "small_enum n \<Longrightarrow> unat (word_of_nat n :: u64) mod 2 ^ 32 = n"
  by (simp add: small_enum_def unat_of_nat)

lemma varint32: "n < 2 ^ 32 \<Longrightarrow> unat (word_of_nat n :: u64) mod 2 ^ 32 = n"
  by (simp add: unat_of_nat)

lemmas read_back = got_simps varint32 [simplified]

definition low_numbers :: "records \<Rightarrow> bool" where
  "low_numbers rs = list_all (\<lambda>e. fst e < 2 ^ 29) rs"

lemma low_fields [simp]:
  "n < 2 ^ 29 \<Longrightarrow> low_numbers (f_bytes n bs)" "n < 2 ^ 29 \<Longrightarrow> low_numbers (f_repeated n bss)"
  by (simp_all add: low_numbers_def got_simps)

lemma small_root: "low_numbers (root_records r)"
  by (cases r rule: root_records.cases) (simp_all add: got_simps low_numbers_def)

lemma small_payload: "low_numbers (payload_records p)"
  by (cases p rule: payload_records.cases) (simp_all add: got_simps low_numbers_def)

lemma small_records [simp]:
  "low_numbers (signed_event_records m)"
  "low_numbers (raw_root_records rr)"
  "low_numbers (identity_root_records ir)"
  "low_numbers (inception_records i)"
  "low_numbers (invitation_records v)"
  "low_numbers (membership_acceptance_records ma)"
  "low_numbers (profile_update_records pu)"
  "low_numbers (event_body_records b)"
  "low_numbers (acceptance_records a)"
  unfolding signed_event_records_def raw_root_records_def identity_root_records_def
    inception_records_def invitation_records_def membership_acceptance_records_def
    profile_update_records_def event_body_records_def acceptance_records_def
  using small_root small_payload by (simp_all add: got_simps low_numbers_def)

lemma read_message:
  "encodable rs \<Longrightarrow> low_numbers rs \<Longrightarrow> read_records (enc_records rs) = Some rs"
  by (simp add: encodable_def low_numbers_def read_records_encoded)

lemma encodable_part:
  "encodable (f_message n rs) \<Longrightarrow> encodable rs"
  "encodable (rs @ rs') \<Longrightarrow> encodable rs" "encodable (rs @ rs') \<Longrightarrow> encodable rs'"
  by (simp_all add: encodable_def f_message_def)

lemma proto_signed_event_back:
  "encodable (signed_event_records m) \<Longrightarrow>
   proto_signed_event (enc_records (signed_event_records m)) = Some m"
  by (simp add: proto_signed_event_def read_message)
     (simp add: signed_event_records_def read_back)

lemma proto_acceptance_back:
  "encodable (acceptance_records a) \<Longrightarrow> ac_version a < 2 ^ 32 \<Longrightarrow>
   proto_acceptance (enc_records (acceptance_records a)) = Some a"
  by (simp add: proto_acceptance_def read_message)
     (simp add: acceptance_records_def read_back)

lemma proto_parts_back:
  "encodable (raw_root_records rr) \<Longrightarrow> proto_raw_root (enc_records (raw_root_records rr)) = Some rr"
  "encodable (identity_root_records ir) \<Longrightarrow>
     proto_identity_root (enc_records (identity_root_records ir)) = Some ir"
  "encodable (membership_acceptance_records ma) \<Longrightarrow>
     proto_membership_acceptance (enc_records (membership_acceptance_records ma)) = Some ma"
  "encodable (f_bytes 1 i) \<Longrightarrow> proto_id (enc_records (f_bytes 1 i)) = Some i"
  "encodable (f_repeated 1 is) \<Longrightarrow> proto_ids (enc_records (f_repeated 1 is)) = Some is"
  by (simp add: proto_raw_root_def read_message, simp add: raw_root_records_def read_back)
     (simp add: proto_identity_root_def read_message, simp add: identity_root_records_def read_back,
      simp add: proto_membership_acceptance_def read_message,
      simp add: membership_acceptance_records_def read_back,
      simp_all add: proto_id_def proto_ids_def read_message read_back)

lemma proto_invitation_back:
  "encodable (invitation_records v) \<Longrightarrow> small_enum (mi_role v) \<Longrightarrow>
   proto_invitation (enc_records (invitation_records v)) = Some v"
  by (simp add: proto_invitation_def read_message)
     (use small_enum_unat [of "mi_role v"] in \<open>simp add: invitation_records_def read_back\<close>)

lemma proto_profile_back:
  assumes "encodable (profile_update_records u)"
    and "is_utf8 (pu_display_name u)" "is_utf8 (pu_hostname u)" "is_utf8 (pu_email u)"
  shows "proto_profile (enc_records (profile_update_records u)) = Some u"
proof -
  have "got_bytes (profile_update_records u) 1 = pu_display_name u"
    "got_bytes (profile_update_records u) 2 = pu_hostname u"
    "got_bytes (profile_update_records u) 3 = pu_email u"
    by (simp_all add: profile_update_records_def read_back)
  then show ?thesis using assms by (simp add: proto_profile_def read_message)
qed

lemma proto_root_back:
  assumes "encodable (root_records r)" and "list_all (\<lambda>e. fst e < 10) rs"
  shows "proto_root (rs @ root_records r) = Some r"
proof -
  have "got_oneof (rs @ root_records r) [10, 11] = got_oneof (root_records r) [10, 11]"
    using assms(2) by (intro got_oneof_append) (auto simp: list_all_iff)
  then show ?thesis
    using assms(1)
    by (cases r rule: root_records.cases)
       (auto simp: proto_root_def got_simps proto_parts_back dest: encodable_part)
qed

lemma proto_inception_back:
  assumes "encodable (inception_records i)" and "small_enum (in_kind i)"
  shows "proto_inception (enc_records (inception_records i)) = Some i"
proof -
  let ?h = "f_varint 1 (word_of_nat (in_kind i)) @ f_bytes 2 (in_nonce i)"
  have rs: "inception_records i = ?h @ root_records (in_root i)"
    by (simp add: inception_records_def)
  have "last_value (root_records (in_root i)) n = None" if "n < 10" for n
    using that by (cases "in_root i" rule: root_records.cases) (auto simp: got_simps)
  then have "unat (got_varint (inception_records i) 1) mod 2 ^ 32 = in_kind i"
    and "got_bytes (inception_records i) 2 = in_nonce i"
    using small_enum_unat [OF assms(2)] by (simp_all add: rs read_back)
  moreover have "proto_root (inception_records i) = Some (in_root i)"
    unfolding rs using assms(1) rs
    by (intro proto_root_back) (auto simp: got_simps dest: encodable_part)
  ultimately show ?thesis using assms(1) by (simp add: proto_inception_def read_message)
qed

fun payload_field :: "pb_payload \<Rightarrow> nat \<times> records" where
  "payload_field (PInception m) = (10, inception_records m)"
| "payload_field (PWitnessConfig ws) = (11, f_repeated 1 ws)"
| "payload_field (PTrustAttestation i) = (12, f_bytes 1 i)"
| "payload_field (PTrustRevocation i) = (13, f_bytes 1 i)"
| "payload_field (PMembershipInvitation m) = (14, invitation_records m)"
| "payload_field (PMembershipAcceptance m) = (15, membership_acceptance_records m)"
| "payload_field (PMembershipRemoval i) = (16, f_bytes 1 i)"
| "payload_field (PProfileUpdate m) = (17, profile_update_records m)"
| "payload_field (PEndpointAdvertisement es) = (18, f_repeated 1 es)"
| "payload_field (PWitnessSet ws) = (19, f_repeated 1 ws)"

lemma payload_records_field:
  "payload_field p = (n, rs) \<Longrightarrow> payload_records (Some p) = f_message n rs \<and> n \<in> {10..19}"
  by (cases p) auto

lemma proto_payload_back:
  assumes "payload_field p = (n, rs)" and "encodable rs" and "payload_wf is_utf8 (Some p)"
  shows "proto_payload n (enc_records rs) = Some p"
  using assms
  by (cases p) (auto simp: proto_payload_def proto_parts_back [simplified] proto_invitation_back
      proto_profile_back proto_inception_back)

lemma proto_event_body_back:
  assumes "encodable (event_body_records b)" and "eb_version b < 2 ^ 32"
    and "payload_wf is_utf8 (eb_payload b)"
  shows "proto_event_body (enc_records (event_body_records b)) = Some b"
proof -
  let ?ns = "[10, 11, 12, 13, 14, 15, 16, 17, 18, 19] :: nat list"
  let ?h = "f_varint 1 (word_of_nat (eb_version b)) @ f_bytes 2 (eb_ledger b)
     @ f_varint 3 (eb_seq b) @ f_bytes 4 (eb_prev b) @ f_varint 5 (eb_timestamp_ms b)
     @ f_bytes 6 (eb_author_key b)"
  have rs: "event_body_records b = ?h @ payload_records (eb_payload b)"
    by (simp add: event_body_records_def)
  have "last_value (payload_records (eb_payload b)) n = None" if "n < 10" for n
    using that by (cases "eb_payload b" rule: payload_records.cases) (auto simp: got_simps)
  then have fields: "unat (got_varint (event_body_records b) 1) mod 2 ^ 32 = eb_version b"
    "got_bytes (event_body_records b) 2 = eb_ledger b" "got_varint (event_body_records b) 3 = eb_seq b"
    "got_bytes (event_body_records b) 4 = eb_prev b"
    "got_varint (event_body_records b) 5 = eb_timestamp_ms b"
    "got_bytes (event_body_records b) 6 = eb_author_key b"
    using varint32 [OF assms(2)] by (simp_all add: rs read_back)
  have one: "got_oneof (event_body_records b) ?ns = got_oneof (payload_records (eb_payload b)) ?ns"
    unfolding rs by (rule got_oneof_append) (auto simp: list_all_iff f_bytes_def f_varint_def)
  have "(case got_oneof (event_body_records b) ?ns of None \<Rightarrow> Some None
      | Some (n, bs) \<Rightarrow> map_option Some (proto_payload n bs)) = Some (eb_payload b)"
  proof (cases "eb_payload b")
    case None
    then show ?thesis by (simp add: one got_simps)
  next
    case (Some p)
    with assms(1) rs have "encodable (payload_records (Some p))"
      using encodable_part(3) [of ?h "payload_records (eb_payload b)"] by metis
    moreover obtain n rs' where f: "payload_field p = (n, rs')" by force
    ultimately have p: "payload_records (Some p) = f_message n rs'"
         "proto_payload n (enc_records rs') = Some p"
      using proto_payload_back [OF f] payload_records_field [OF f] assms(3) Some
      by (auto dest: encodable_part)
    have "n \<in> {10..19}" using payload_records_field [OF f] by simp
    then have "n \<in> set ?ns" by (auto simp: atLeastAtMost_iff numeral_eq_Suc le_Suc_eq)
    then show ?thesis using p Some one by (simp add: got_oneof_message)
  qed
  then show ?thesis using assms(1) fields by (simp add: proto_event_body_def read_message)
qed

section \<open>The contract\<close>

definition with_proto3 :: "env \<Rightarrow> env" where
  "with_proto3 E = E\<lparr>
     encode_signed_event := \<lambda>m. enc_records (signed_event_records m),
     encode_event_body := \<lambda>m. enc_records (event_body_records m),
     encode_acceptance := \<lambda>m. enc_records (acceptance_records m),
     encode_profile_update := \<lambda>m. enc_records (profile_update_records m),
     encode_invitation_bundle := \<lambda>m. enc_records (invitation_bundle_records m),
     encode_acceptance_file := \<lambda>m. enc_records (membership_acceptance_records m),
     encode_identity_descriptor := \<lambda>m. enc_records (identity_descriptor_records m),
     decode_signed_event := proto_signed_event,
     decode_event_body := proto_event_body,
     decode_acceptance := proto_acceptance\<rparr>"

interpretation proto3: prost_codec "with_proto3 E"
  by unfold_locales
     (simp_all add: with_proto3_def proto_signed_event_back proto_event_body_back
       proto_acceptance_back)

end
