(* ===== verification/Sign_Facts.thy ===== *)
theory Sign_Facts
  imports Sign Proto_Codec
begin

text \<open>
  What the signing path and the fold promise together: an inception that was built
  starts a ledger, each builder's event has the effect its name says, and the
  three steps of an invitation (invite, accept, admit) end with the invitee a
  principal.
\<close>

section \<open>Inceptions\<close>

definition raw_body :: "env \<Rightarrow> bytes \<Rightarrow> declared_kind \<Rightarrow> public_key \<Rightarrow> bytes \<Rightarrow> u64 \<Rightarrow> pb_event_body" where
  "raw_body E sk kind reserve_key nonce now =
     \<lparr>eb_version = 0, eb_ledger = [], eb_seq = 0, eb_prev = [], eb_timestamp_ms = now,
      eb_author_key = ed_public E sk,
      eb_payload = Some (PInception \<lparr>in_kind = declared_kind_number kind, in_nonce = nonce,
        in_root = Some (RawRoot \<lparr>rr_active_key = ed_public E sk,
          rr_reserve_commit = reserve_commit E reserve_key\<rparr>)\<rparr>)\<rparr>"

lemma build_raw_Ok:
  assumes "build_inception E sk kind (RootRaw rk) nonce now = Ok be"
  shows "seal E sk (raw_body E sk kind rk nonce now) = Ok be" and "valid_timestamp now"
  using assms by (auto simp: build_inception_def inception_body_def raw_body_def Let_def)

lemma kind_number: "kind \<noteq> KindUnspecified \<Longrightarrow> declared_kind_number kind \<in> {1, 2, 3, 4}"
  "declared_kind_try_from (declared_kind_number kind) = Some kind"
  by (cases kind; simp add: declared_kind_try_from_def)+

lemma role_number_back: "role_try_from (role_number r) = Some r"
  "r \<noteq> RoleUnspecified \<Longrightarrow> role_number r \<in> {1, 2}"
  by (cases r; simp add: role_try_from_def)+

definition good_raw :: "env \<Rightarrow> bytes \<Rightarrow> declared_kind \<Rightarrow> public_key \<Rightarrow> bytes \<Rightarrow> bool" where
  "good_raw E sk kind rk nonce \<longleftrightarrow>
     kind \<noteq> KindUnspecified \<and> length nonce = NONCE_BYTES \<and> ed_public E sk \<noteq> reserve_commit E rk"

lemma raw_body_ok:
  assumes "crypto_ok E" and "good_raw E sk kind rk nonce" and "valid_timestamp now"
  shows "raw_inception_body (raw_body E sk kind rk nonce now)
      \<lparr>rr_active_key = ed_public E sk, rr_reserve_commit = reserve_commit E rk\<rparr>"
    and "valid_body E (raw_body E sk kind rk nonce now)"
proof -
  have len: "length (reserve_commit E rk) = 32"
    using assms(1) by (simp add: reserve_commit_def domain_hash_def crypto_okD)
  show "raw_inception_body (raw_body E sk kind rk nonce now)
      \<lparr>rr_active_key = ed_public E sk, rr_reserve_commit = reserve_commit E rk\<rparr>"
    using assms len kind_number(1) [of kind]
    by (auto simp: raw_inception_body_def raw_body_def good_raw_def valid_raw_root_def
        valid_inception_head_def ID_BYTES_def crypto_okD)
  show "valid_body E (raw_body E sk kind rk nonce now)"
    using assms len kind_number(1) [of kind]
    by (auto simp: valid_body_def raw_body_def good_raw_def valid_raw_root_def chain_ok_def
        valid_inception_head_def ID_BYTES_def crypto_okD)
qed

text \<open>A built raw inception proves the signer's key for the identity it creates.\<close>

lemma built_raw_embedded:
  assumes "prost_codec E" and "crypto_ok E" and "build_inception E sk kind (RootRaw rk) nonce now = Ok be"
    and "good_raw E sk kind rk nonce"
  shows "embedded_ok E (be_signed_event be) (be_event_id be) (ed_public E sk)"
proof -
  note b = build_raw_Ok [OF assms(3)]
  let ?r = "\<lparr>rr_active_key = ed_public E sk, rr_reserve_commit = reserve_commit E rk\<rparr>"
  have "raw_inception_body (raw_body E sk kind rk nonce now) ?r"
    by (rule raw_body_ok(1) [OF assms(2,4) b(2)])
  then show ?thesis
    unfolding embedded_ok_def
    using seal_Ok [OF assms(1), of sk "raw_body E sk kind rk nonce now" be] b(1) crypto_okD [OF assms(2)]
    by (intro exI [of _ "signed_by E sk (be_body be)"] exI [of _ "raw_body E sk kind rk nonce now"]
        exI [of _ ?r]) (auto simp: signed_by_def SIG_BYTES_def)
qed

lemma inception_starts:
  assumes "prost_codec E" and "valid_event E ev m b" and "eb_payload b = Some (PInception i)"
    and "key_is_point E (eb_author_key b)"
    and "ed_verify E (eb_author_key b) (sign_input (se_body m)) (se_signature m)"
    and "sem E empty_state (event_id E (se_body m)) 0 (PInception i) None = Ok s1"
  shows "apply_event E empty_state ev =
    Ok (commit_head s1 0 (event_id E (se_body m)) (eb_timestamp_ms b))"
proof -
  have "eb_seq b = 0" using assms(2,3) by (auto simp: valid_event_def valid_body_def)
  moreover have "next_seq empty_state = 0" by (simp add: next_seq_def empty_state_def)
  moreover have "check_chain empty_state b = Ok ()" by (simp add: check_chain_def empty_state_def)
  ultimately show ?thesis
    using apply_event_valid [OF assms(1-3), of empty_state] assms(4-6)
    by (simp add: find_signer_def)
qed

lemma raw_inception_starts:
  assumes "prost_codec E" and "crypto_ok E" and "build_inception E sk kind (RootRaw rk) nonce now = Ok be"
    and "good_raw E sk kind rk nonce"
  shows "apply_event E empty_state (be_signed_event be) =
    Ok (empty_state\<lparr>ls_declared_kind := Some kind,
      ls_root := Some (Raw (ed_public E sk) (reserve_commit E rk)), ls_ledger := Some (be_event_id be),
      ls_principals := [(be_event_id be, \<lparr>pr_role = Controller, pr_active_key = ed_public E sk\<rparr>)],
      ls_head := Some \<lparr>hd_seq = 0, hd_event_id = be_event_id be, hd_timestamp_ms = now\<rparr>\<rparr>)"
proof -
  note b = build_raw_Ok [OF assms(3)]
  let ?b = "raw_body E sk kind rk nonce now"
  note sealed = b(1) [unfolded seal_Ok [OF assms(1)]]
  have v: "valid_event E (be_signed_event be) (signed_by E sk (be_body be)) ?b"
    by (rule sealed_valid [OF assms(1,2) b(1) raw_body_ok(2) [OF assms(2,4) b(2)]])
  have "length (reserve_commit E rk) = 32"
    using assms(2) by (simp add: reserve_commit_def domain_hash_def crypto_okD)
  then show ?thesis
    using inception_starts [OF assms(1) v] sealed crypto_okD [OF assms(2)]
    by (simp add: raw_body_def sem_simps seed_from_inception_def public_key_of_def ID_BYTES_def
        kind_number(2) commit_head_def)
qed

text \<open>
  A ledger founded by an identity: the founder's own inception, built with the same
  key, is embedded, and the founder is the first controller.
\<close>

lemma identity_inception_starts:
  assumes "prost_codec E" and "crypto_ok E"
    and "build_inception E sk kind0 (RootRaw rk) nonce0 now0 = Ok founder" and "good_raw E sk kind0 rk nonce0"
    and "build_inception E sk kind (RootIdentity (be_event_id founder) (be_signed_event founder)) nonce now = Ok be"
    and "kind \<noteq> KindUnspecified" and "length nonce = NONCE_BYTES"
  shows "apply_event E empty_state (be_signed_event be) =
    Ok (empty_state\<lparr>ls_declared_kind := Some kind,
      ls_root := Some (Identity (be_event_id founder) (ed_public E sk)), ls_ledger := Some (be_event_id be),
      ls_principals := [(be_event_id founder, \<lparr>pr_role = Controller, pr_active_key = ed_public E sk\<rparr>)],
      ls_head := Some \<lparr>hd_seq = 0, hd_event_id = be_event_id be, hd_timestamp_ms = now\<rparr>\<rparr>)"
proof -
  let ?q = "\<lparr>ir_founder = be_event_id founder, ir_founder_key = ed_public E sk,
     ir_founder_inception = be_signed_event founder\<rparr>"
  let ?b = "\<lparr>eb_version = 0, eb_ledger = [], eb_seq = 0, eb_prev = [], eb_timestamp_ms = now,
      eb_author_key = ed_public E sk,
      eb_payload = Some (PInception \<lparr>in_kind = declared_kind_number kind, in_nonce = nonce,
        in_root = Some (IdentityRoot ?q)\<rparr>)\<rparr>"
  from assms(5) have b: "seal E sk ?b = Ok be" "valid_timestamp now"
    and len: "length (be_signed_event founder) \<le> MAX_EMBEDDED_INCEPTION_BYTES"
    by (auto simp: build_inception_def inception_body_def Let_def)
  have id32: "length (be_event_id founder) = 32"
    using build_raw_Ok(1) [OF assms(3)] seal_Ok [OF assms(1)] length_event_id [OF assms(2)] by auto
  have "valid_identity_root E ?q"
    using built_raw_embedded [OF assms(1-4)] len id32 crypto_okD [OF assms(2)]
    by (simp add: valid_identity_root_def ID_BYTES_def)
  then have "valid_body E ?b"
    using assms(2,6,7) b(2) kind_number(1) [of kind]
    by (auto simp: valid_body_def chain_ok_def valid_inception_head_def ID_BYTES_def crypto_okD)
  from sealed_valid [OF assms(1,2) b(1) this]
  have "valid_event E (be_signed_event be) (signed_by E sk (be_body be)) ?b" .
  from inception_starts [OF assms(1) this] show ?thesis
    using b(1) [unfolded seal_Ok [OF assms(1)]] crypto_okD [OF assms(2)] id32
    by (simp add: sem_simps seed_from_inception_def public_key_of_def ID_BYTES_def
        kind_number(2) commit_head_def)
qed

section \<open>Appends\<close>

text \<open>The key \<open>sk\<close> may append to the ledger \<open>l\<close>, whose head is \<open>h\<close>.\<close>

definition may_append :: "env \<Rightarrow> ledger_state \<Rightarrow> bytes \<Rightarrow> ledger_id \<Rightarrow> head \<Rightarrow> bool" where
  "may_append E s sk l h \<longleftrightarrow> state_wf s \<and> ls_ledger s = Some l \<and> ls_head s = Some h \<and> length l = 32
     \<and> length (hd_event_id h) = 32 \<and> authorized_signer s (ed_public E sk)"

lemma apply_appended:
  assumes "prost_codec E" and "crypto_ok E" and "may_append E s sk l h"
    and "build_append E sk (position_at_head l h) now p = Ok be" and "appendable E l p"
    and "\<And>sp. signs_as (abs_state s) sp (ed_public E sk) \<Longrightarrow>
      \<exists>s1. sem E s (be_event_id be) (hd_seq h + 1) p (Some sp) = Ok s1 \<and> P s1"
    and "\<And>s1 hd. P s1 \<Longrightarrow> P (s1\<lparr>ls_head := Some hd\<rparr>)"
  shows "\<exists>s'. apply_event E s (be_signed_event be) = Ok s' \<and> P s'
    \<and> ls_head s' = Some \<lparr>hd_seq = hd_seq h + 1, hd_event_id = be_event_id be,
        hd_timestamp_ms = max now (hd_timestamp_ms h)\<rparr>"
proof -
  from assms(3) obtain sp where sp: "signing_principal_for s (ed_public E sk) = Some sp"
    by (auto simp: may_append_def authorized_signer_def)
  moreover have "signs_as (abs_state s) sp (ed_public E sk)"
    using sp assms(3) signing_principal_Some by (auto simp: may_append_def)
  ultimately show ?thesis
    using apply_built [OF assms(1,2,4), of s sp] assms(3,5) assms(6) [of sp] assms(7)
    by (auto simp: may_append_def commit_head_def)
qed

lemma witness_set_applies:
  assumes "prost_codec E" and "crypto_ok E" and "may_append E s sk l h"
    and "build_witness_set E sk (position_at_head l h) ws now = Ok be"
    and "list_all (\<lambda>w. length w = 32) ws"
  shows "\<exists>s'. apply_event E s (be_signed_event be) = Ok s' \<and> witness_identities s' = ws
    \<and> ls_head s' = Some \<lparr>hd_seq = hd_seq h + 1, hd_event_id = be_event_id be,
        hd_timestamp_ms = max now (hd_timestamp_ms h)\<rparr>"
proof (rule apply_appended [OF assms(1-3)])
  show "build_append E sk (position_at_head l h) now (PWitnessSet ws) = Ok be"
    and ok: "appendable E l (PWitnessSet ws)"
    using assms(4,5) by (auto simp: build_witness_set_def appendable_def valid_ids_def ID_BYTES_def
        split: if_splits)
qed (use assms(5) in \<open>auto simp: sem_simps try_map_ids ID_BYTES_def witness_identities_def\<close>)

lemma advertisement_applies:
  assumes "prost_codec E" and "crypto_ok E" and "may_append E s sk l h"
    and "build_endpoint_advertisement E sk (position_at_head l h) eps now = Ok be"
    and "list_all (\<lambda>k. length k = 32 \<and> key_is_point E k) eps"
  shows "\<exists>s'. apply_event E s (be_signed_event be) = Ok s' \<and> endpoints s' = eps
    \<and> ls_head s' = Some \<lparr>hd_seq = hd_seq h + 1, hd_event_id = be_event_id be,
        hd_timestamp_ms = max now (hd_timestamp_ms h)\<rparr>"
proof -
  have len: "list_all (\<lambda>x. length x = ID_BYTES) eps" and pt: "list_all (key_is_point E) eps"
    using assms(5) by (auto simp: list_all_iff ID_BYTES_def)
  have "try_map (\<lambda>x. public_key_of E x f) eps = Ok eps" for f using try_map_keys [OF len] pt by blast
  then show ?thesis
    using assms(4) len
    by (intro apply_appended [OF assms(1-3)])
       (auto simp: build_endpoint_advertisement_def appendable_def valid_ids_def sem_simps endpoints_def
         split: if_splits)
qed

lemma length_varint: "n < 128 \<Longrightarrow> length (varint_of n) = 1" "n < 16384 \<Longrightarrow> length (varint_of n) \<le> 2"
proof -
  show "n < 128 \<Longrightarrow> length (varint_of n) = 1" by (simp add: varint_of.simps)
  assume "n < 16384"
  then have "n div 128 < 128" by (simp add: less_mult_imp_div_less)
  then show "length (varint_of n) \<le> 2" by (simp add: varint_of.simps [of n] varint_of.simps [of "n div 128"])
qed

lemma f_bytes_length: "n < 16 \<Longrightarrow> length bs < 16384 \<Longrightarrow> length (enc_records (f_bytes n bs)) \<le> 3 + length bs"
  using length_varint(2) [of "length bs"] by (simp add: f_bytes_def length_varint(1))

lemma profile_records_inj:
  assumes "enc_records (profile_update_records p) = enc_records (profile_update_records q)"
    and "encodable (profile_update_records p)"
  shows "p = q"
proof -
  have "encodable (profile_update_records q)" using assms by (simp only: encodable_def)
  then have "read_records (enc_records (profile_update_records q)) = Some (profile_update_records q)"
    by (rule read_message) simp
  moreover have "read_records (enc_records (profile_update_records p)) = Some (profile_update_records p)"
    by (rule read_message [OF assms(2)]) simp
  ultimately have "profile_update_records p = profile_update_records q" using assms(1) by (metis option.inject)
  then have "got_bytes (profile_update_records p) n = got_bytes (profile_update_records q) n" for n by simp
  from this [of 1] this [of 2] this [of 3] show ?thesis
    by (cases p; cases q) (simp add: profile_update_records_def read_back)
qed

lemma profile_size: "valid_profile E p \<Longrightarrow> length (enc_records (profile_update_records p)) \<le> MAX_EVENT_BYTES"
  using f_bytes_length [of 1 "pu_display_name p"] f_bytes_length [of 2 "pu_hostname p"]
    f_bytes_length [of 3 "pu_email p"]
  by (auto simp: valid_profile_def valid_text_def profile_update_records_def size_defs)

lemma check_profile_iff:
  assumes "prost_codec E"
  shows "check_profile E d h e = Ok () \<longleftrightarrow> valid_profile E (profile_update d h e)"
proof -
  let ?p = "profile_update d h e"
  have *: "check_profile E d h e = Ok () \<longleftrightarrow> length (enc_records (profile_update_records ?p)) \<le> MAX_EVENT_BYTES
      \<and> (\<exists>q. valid_profile E q \<and> enc_records (profile_update_records ?p) = enc_records (profile_update_records q))"
    using assms profile_update_iff [of 19 E "enc_records (profile_update_records ?p)" 0]
    by (auto simp: check_profile_def message_def message_fields_def validate_def VALIDATE_FUEL_def
        prost_codec.encode_profile_update numeral_eq_Suc)
  have "encodable (profile_update_records ?p)" if "length (enc_records (profile_update_records ?p)) \<le> MAX_EVENT_BYTES"
    using that by (simp add: encodable_def MAX_EVENT_BYTES_def)
  with * profile_records_inj [of ?p] profile_size show ?thesis by blast
qed

lemma profile_applies:
  assumes "prost_codec E" and "crypto_ok E" and "may_append E s sk l h"
    and "build_profile_update E sk (position_at_head l h) d hn e now = Ok be"
    and "check_profile E d hn e = Ok ()"
  shows "\<exists>s' p. apply_event E s (be_signed_event be) = Ok s' \<and> ls_profile s' = Some p
    \<and> pf_display_name p = set_name (unwrap_or_default d) \<and> pf_hostname p = set_name (unwrap_or_default hn)
    \<and> pf_email p = set_name (unwrap_or_default e) \<and> pf_event p = be_event_id be"
proof -
  have "\<exists>s'. apply_event E s (be_signed_event be) = Ok s' \<and> (\<exists>p. ls_profile s' = Some p
      \<and> pf_display_name p = set_name (unwrap_or_default d) \<and> pf_hostname p = set_name (unwrap_or_default hn)
      \<and> pf_email p = set_name (unwrap_or_default e) \<and> pf_event p = be_event_id be)
    \<and> ls_head s' = Some \<lparr>hd_seq = hd_seq h + 1, hd_event_id = be_event_id be,
        hd_timestamp_ms = max now (hd_timestamp_ms h)\<rparr>"
    using assms(4,5) check_profile_iff [OF assms(1)]
    by (intro apply_appended [OF assms(1-3)])
       (auto simp: build_profile_update_def appendable_def sem_simps profile_update_def)
  then show ?thesis by blast
qed

section \<open>Trust\<close>

lemma trusts_iff: "state_wf s \<Longrightarrow> trusts s t \<longleftrightarrow> (\<exists>e. standing (abs_state s) e t)"
  using unrevoked_None [of s t] by (simp add: trusts_def)

lemma attestation_applies:
  assumes "prost_codec E" and "crypto_ok E" and "may_append E s sk l h"
    and "build_trust_attestation E sk (position_at_head l h) t now = Ok be"
    and "length t = 32" and "t \<noteq> l" and "\<not> trusts s t"
  shows "\<exists>s'. apply_event E s (be_signed_event be) = Ok s'
    \<and> (state_wf s' \<and> ls_ledger s' = ls_ledger s \<and> ls_principals s' = ls_principals s
       \<and> standing (abs_state s') (be_event_id be) t)
    \<and> ls_head s' = Some \<lparr>hd_seq = hd_seq h + 1, hd_event_id = be_event_id be,
        hd_timestamp_ms = max now (hd_timestamp_ms h)\<rparr>"
proof (rule apply_appended [OF assms(1-3)])
  show "build_append E sk (position_at_head l h) now (PTrustAttestation t) = Ok be"
    and "appendable E l (PTrustAttestation t)"
    using assms(4-6) by (simp_all add: build_trust_attestation_def appendable_def ID_BYTES_def)
next
  fix sp
  let ?a = "\<lparr>at_subject = t, at_signing_principal = sp, at_revoked_by = None\<rparr>"
  let ?s = "s\<lparr>ls_trust := bt_insert (be_event_id be) ?a (ls_trust s)\<rparr>"
  have "state_wf ?s \<and> ls_ledger ?s = ls_ledger s \<and> ls_principals ?s = ls_principals s
      \<and> standing (abs_state ?s) (be_event_id be) t"
    using assms(3) by (simp add: may_append_def standing_def bt_get_upd)
  moreover have "unrevoked s t = None" using assms(7) unfolding trusts_def by blast
  then have "sem E s (be_event_id be) (hd_seq h + 1) (PTrustAttestation t) (Some sp) = Ok ?s"
    using assms(3,5,6) by (simp add: sem_simps may_append_def ID_BYTES_def)
  ultimately show "\<exists>s1. sem E s (be_event_id be) (hd_seq h + 1) (PTrustAttestation t) (Some sp) = Ok s1
      \<and> (state_wf s1 \<and> ls_ledger s1 = ls_ledger s \<and> ls_principals s1 = ls_principals s
         \<and> standing (abs_state s1) (be_event_id be) t)" by blast
qed (auto simp: standing_def)

lemma revocation_applies:
  assumes "prost_codec E" and "crypto_ok E" and "may_append E s sk l h"
    and "build_trust_revocation E sk (position_at_head l h) e now = Ok be"
    and "unrevoked s t = Some (e, a)" and "length e = 32" and "one_standing (abs_state s)"
  shows "\<exists>s'. apply_event E s (be_signed_event be) = Ok s' \<and> (state_wf s' \<and> \<not> trusts s' t)
    \<and> ls_head s' = Some \<lparr>hd_seq = hd_seq h + 1, hd_event_id = be_event_id be,
        hd_timestamp_ms = max now (hd_timestamp_ms h)\<rparr>"
proof (rule apply_appended [OF assms(1-3)])
  have a: "bt_get (ls_trust s) e = Some a" "at_subject a = t" "at_revoked_by a = None"
    using assms(3,5) by (auto simp: unrevoked_def may_append_def state_wf_def is_revoked_def dest!: bt.search_Some)
  show "build_append E sk (position_at_head l h) now (PTrustRevocation e) = Ok be"
    and "appendable E l (PTrustRevocation e)"
    using assms(4,6) by (simp_all add: build_trust_revocation_def appendable_def ID_BYTES_def)
  let ?s = "s\<lparr>ls_trust := bt_insert e (a\<lparr>at_revoked_by := Some (be_event_id be)\<rparr>) (ls_trust s)\<rparr>"
  have wf: "state_wf ?s" using assms(3) by (simp add: may_append_def)
  have "standing (abs_state s) e t" using a by (simp add: standing_def)
  then have only: "\<not> standing (abs_state s) e' t" if "e' \<noteq> e" for e'
    using assms(7) that unfolding one_standing_def by blast
  have "\<not> standing (abs_state ?s) e' t" for e'
    using only [of e'] by (cases "e' = e") (auto simp: standing_def bt_get_upd)
  with wf have "\<not> trusts ?s t" by (simp add: trusts_iff)
  with wf show "\<exists>s1. sem E s (be_event_id be) (hd_seq h + 1) (PTrustRevocation e) (Some sp) = Ok s1
      \<and> (state_wf s1 \<and> \<not> trusts s1 t)" for sp
    using a assms(6) by (auto simp: sem_simps ID_BYTES_def)
next
  show "\<And>s1 hd. state_wf s1 \<and> \<not> trusts s1 t \<Longrightarrow>
    state_wf (s1\<lparr>ls_head := Some hd\<rparr>) \<and> \<not> trusts (s1\<lparr>ls_head := Some hd\<rparr>) t"
    by (auto simp: trusts_iff standing_def)
qed

text \<open>The signer may go on appending while the principals stay.\<close>

lemma may_append_next:
  assumes "may_append E s sk l h" and "state_wf s'" and "ls_ledger s' = ls_ledger s"
    and "ls_principals s' = ls_principals s" and "ls_head s' = Some h'" and "length (hd_event_id h') = 32"
  shows "may_append E s' sk l h'"
  using assms by (simp add: may_append_def authorized_signer_def signing_principal_for_def)

section \<open>Membership: invite, accept, admit\<close>

definition acceptance_of :: "env \<Rightarrow> bytes \<Rightarrow> ledger_id \<Rightarrow> event_id \<Rightarrow> identity_id \<Rightarrow> pb_acceptance" where
  "acceptance_of E sk l e i = \<lparr>ac_version = 0, ac_ledger = l, ac_invitation_event = e, ac_invitee = i,
     ac_invitee_key = ed_public E sk\<rparr>"

lemma built_acceptance_valid:
  assumes "prost_codec E" and "crypto_ok E" and "length l = 32" and "length e = 32" and "length i = 32"
  shows "valid_signed_acceptance E \<lparr>ma_acceptance = da_acceptance (build_acceptance E sk l e i),
      ma_signature = da_signature (build_acceptance E sk l e i)\<rparr> (acceptance_of E sk l e i)"
    and "length (da_acceptance (build_acceptance E sk l e i)) \<le> MAX_ACCEPTANCE_BYTES"
proof -
  show "valid_signed_acceptance E \<lparr>ma_acceptance = da_acceptance (build_acceptance E sk l e i),
      ma_signature = da_signature (build_acceptance E sk l e i)\<rparr> (acceptance_of E sk l e i)"
    using assms
    by (simp add: valid_signed_acceptance_def build_acceptance_def Let_def prost_codec.encode_acceptance
        valid_acceptance_def acceptance_of_def crypto_okD size_defs)
  show "length (da_acceptance (build_acceptance E sk l e i)) \<le> MAX_ACCEPTANCE_BYTES"
    using f_bytes_length [of 2 l] f_bytes_length [of 3 e] f_bytes_length [of 4 i]
      f_bytes_length [of 5 "ed_public E sk"] assms
    by (simp add: build_acceptance_def Let_def prost_codec.encode_acceptance acceptance_records_def
        f_varint_def size_defs crypto_okD)
qed

lemma invitation_applies:
  assumes "prost_codec E" and "crypto_ok E" and "may_append E s sk l h"
    and "build_membership_invitation E sk (position_at_head l h) i k role inc now = Ok be"
    and "embedded_ok E inc i k" and "length i = 32" and "length k = 32" and "i \<noteq> l"
    and "role \<noteq> RoleUnspecified" and "open_invitation_of s i = None" and "bt_get (ls_principals s) i = None"
  shows "\<exists>s'. apply_event E s (be_signed_event be) = Ok s'
    \<and> (state_wf s' \<and> ls_ledger s' = ls_ledger s \<and> ls_root s' = ls_root s
       \<and> ls_declared_kind s' = ls_declared_kind s \<and> ls_principals s' = ls_principals s
       \<and> bt_get (ls_invitations s') (be_event_id be)
           = Some \<lparr>iv_invitee = i, iv_invitee_key = k, iv_role = role, iv_status = Open\<rparr>)
    \<and> ls_head s' = Some \<lparr>hd_seq = hd_seq h + 1, hd_event_id = be_event_id be,
        hd_timestamp_ms = max now (hd_timestamp_ms h)\<rparr>"
proof (rule apply_appended [OF assms(1-3)])
  let ?v = "\<lparr>mi_invitee = i, mi_invitee_key = k, mi_role = role_number role, mi_invitee_inception = inc\<rparr>"
  have point: "key_is_point E k" using assms(5) by (auto simp: embedded_ok_def)
  show "build_append E sk (position_at_head l h) now (PMembershipInvitation ?v) = Ok be"
    and "appendable E l (PMembershipInvitation ?v)"
    using assms(4-9) role_number_back(2) [of role]
    by (auto simp: build_membership_invitation_def appendable_def valid_invitation_def ID_BYTES_def)
  show "\<exists>s1. sem E s (be_event_id be) (hd_seq h + 1) (PMembershipInvitation ?v) (Some sp) = Ok s1
    \<and> (state_wf s1 \<and> ls_ledger s1 = ls_ledger s \<and> ls_root s1 = ls_root s
       \<and> ls_declared_kind s1 = ls_declared_kind s \<and> ls_principals s1 = ls_principals s
       \<and> bt_get (ls_invitations s1) (be_event_id be)
           = Some \<lparr>iv_invitee = i, iv_invitee_key = k, iv_role = role, iv_status = Open\<rparr>)" for sp
    using assms(3,6,7,10,11) point
    by (simp add: sem_simps check_invitation_def public_key_of_def ID_BYTES_def role_number_back
        bt_get_upd may_append_def)
qed auto

lemma admission_applies:
  assumes "prost_codec E" and "crypto_ok E" and "may_append E s sk l h"
    and "bt_get (ls_invitations s) e = Some \<lparr>iv_invitee = i, iv_invitee_key = ed_public E isk,
        iv_role = role, iv_status = Open\<rparr>"
    and "length e = 32" and "length i = 32" and "bt_get (ls_principals s) i = None"
    and "\<And>j p. bt_get (ls_principals s) j = Some p \<Longrightarrow> pr_active_key p \<noteq> ed_public E isk"
    and "build_membership_acceptance E sk (position_at_head l h) (build_acceptance E isk l e i) now = Ok be"
  shows "\<exists>s'. apply_event E s (be_signed_event be) = Ok s'
    \<and> (bt_get (ls_principals s') i = Some \<lparr>pr_role = role, pr_active_key = ed_public E isk\<rparr>
       \<and> map_option iv_status (bt_get (ls_invitations s') e) = Some Accepted)
    \<and> ls_head s' = Some \<lparr>hd_seq = hd_seq h + 1, hd_event_id = be_event_id be,
        hd_timestamp_ms = max now (hd_timestamp_ms h)\<rparr>"
proof (rule apply_appended [OF assms(1-3)])
  let ?d = "build_acceptance E isk l e i"
  let ?m = "\<lparr>ma_acceptance = da_acceptance ?d, ma_signature = da_signature ?d\<rparr>"
  let ?a = "acceptance_of E isk l e i"
  let ?v = "\<lparr>iv_invitee = i, iv_invitee_key = ed_public E isk, iv_role = role, iv_status = Open\<rparr>"
  let ?p = "\<lparr>pr_role = role, pr_active_key = ed_public E isk\<rparr>"
  have wf: "state_wf s" and l: "length l = 32" "ls_ledger s = Some l" using assms(3) by (auto simp: may_append_def)
  note acc = built_acceptance_valid [OF assms(1,2) l(1) assms(5,6), of isk]
  show "build_append E sk (position_at_head l h) now (PMembershipAcceptance ?m) = Ok be"
    and "appendable E l (PMembershipAcceptance ?m)"
    using assms(9) acc by (auto simp: build_membership_acceptance_def appendable_def split: if_splits)
  have "\<not> is_controller (abs_state s) i" using assms(7) by (simp add: is_controller_def)
  then have "admit s e ?v = Ok (EAdmit e i ?p)" using assms(8) by (auto simp: admit_Ok [OF wf])
  then have "check_acceptance E s ?m = Ok (EAdmit e i ?p)"
    using l(2) assms(4) acc(2) by (subst check_acceptance_Ok [OF assms(1) wf acc(1)]) (auto simp: acceptance_of_def)
  then show "\<exists>s1. sem E s (be_event_id be) (hd_seq h + 1) (PMembershipAcceptance ?m) (Some sp) = Ok s1
    \<and> (bt_get (ls_principals s1) i = Some ?p
       \<and> map_option iv_status (bt_get (ls_invitations s1) e) = Some Accepted)" for sp
    using assms(4) by (simp add: sem_def check_semantics_def commit_effect_def set_status_def bt_get_upd)
qed auto

section \<open>What a builder's event is worth\<close>

lemma built_id_length:
  assumes "prost_codec E" and "crypto_ok E" and "build_append E sk at now p = Ok be"
  shows "length (be_event_id be) = 32"
  using built_append_id [OF assms(1,3)] length_event_id [OF assms(2)] by simp

lemma built_event_valid_iff:
  assumes "prost_codec E" and "crypto_ok E" and "build_append E sk at now p = Ok be"
    and "length (ps_ledger at) = 32" and "length (ps_prev at) = 32" and "payload_wf is_utf8 (Some p)"
  shows "signed_event E (be_signed_event be) = Ok () \<longleftrightarrow> appendable E (ps_ledger at) p"
proof
  assume ok: "signed_event E (be_signed_event be) = Ok ()"
  note b = build_append_Ok [OF assms(3)]
  have "valid_body E (append_body E sk at (ledger_timestamp_ms now (ps_prev_timestamp_ms at)) p)"
    by (rule sealed_decodes_only_valid [OF assms(1) b(3) _ _ ok]) (use assms(6) in simp_all)
  then show "appendable E (ps_ledger at) p"
    using b(1) by (cases p) (auto simp: appendable_def valid_body_def)
next
  assume "appendable E (ps_ledger at) p"
  from built_append_valid [OF assms(1-5) this] show "signed_event E (be_signed_event be) = Ok ()"
    using signed_event_iff by blast
qed

end
