(* ===== verification/Fork.thy ===== *)
theory Fork
  imports Sign_Facts
begin

text \<open>
  Fork records, \<open>crates/mabel-core/src/fork.rs\<close>: two distinct events that both
  apply to one prefix. The lemmas say that a record is accepted exactly when both
  events are steps from the prefix with different ids, that the order of the two
  does not matter, and that the check never panics.
\<close>

record fork =
  fk_ledger :: ledger_id
  fk_seq :: u64
  fk_kept :: event_id
  fk_conflicting :: event_id

datatype fork_error = ForkEmptyPrefix | Kept violation | Conflicting violation | SameEvent event_id

fun fork_code :: "fork_error \<Rightarrow> string" where
  "fork_code ForkEmptyPrefix = ''empty_prefix''"
| "fork_code (Kept _) = ''kept_invalid''"
| "fork_code (Conflicting _) = ''conflicting_invalid''"
| "fork_code (SameEvent _) = ''same_event''"

definition verify_at :: "env \<Rightarrow> ledger_state \<Rightarrow> u64 \<Rightarrow> bytes \<Rightarrow> (violation, event_id) outcome" where
  "verify_at E prefix seq event =
     obind (map_err (\<lambda>r. \<lparr>vi_seq = seq, vi_reason = r\<rparr>) (apply_event E prefix event)) (\<lambda>state.
     obind (expect (ls_head state)) (\<lambda>h. Ok (hd_event_id h)))"

definition validate_fork_record ::
  "env \<Rightarrow> ledger_state \<Rightarrow> bytes \<Rightarrow> bytes \<Rightarrow> (fork_error, fork) outcome" where
  "validate_fork_record E prefix kept conflicting =
     obind (ok_or (ls_ledger prefix) ForkEmptyPrefix) (\<lambda>ledger.
     let seq = next_seq prefix in
     obind (map_err Kept (verify_at E prefix seq kept)) (\<lambda>kept_id.
     obind (map_err Conflicting (verify_at E prefix seq conflicting)) (\<lambda>conflicting_id.
     if kept_id = conflicting_id then Err (SameEvent kept_id)
     else Ok \<lparr>fk_ledger = ledger, fk_seq = seq, fk_kept = kept_id, fk_conflicting = conflicting_id\<rparr>)))"

section \<open>What a verified event is\<close>

lemma verify_at_Ok:
  assumes "prost_codec E" and "state_wf p"
  shows "verify_at E p q ev = Ok i \<longleftrightarrow>
    (\<exists>s m b. apply_event E p ev = Ok s \<and> valid_event E ev m b
       \<and> event_step E (abs_state p) m b (abs_state s) \<and> i = event_id E (se_body m))"
proof
  assume "verify_at E p q ev = Ok i"
  then obtain s h where s: "apply_event E p ev = Ok s" "ls_head s = Some h" "i = hd_event_id h"
    by (auto simp: verify_at_def)
  from apply_sound [OF assms s(1)] obtain m b where
    v: "valid_event E ev m b" "event_step E (abs_state p) m b (abs_state s)" by blast
  from event_step_head(1) [OF v(2)] s(2,3) have "i = event_id E (se_body m)" by simp
  with s v show "\<exists>s m b. apply_event E p ev = Ok s \<and> valid_event E ev m b
       \<and> event_step E (abs_state p) m b (abs_state s) \<and> i = event_id E (se_body m)" by blast
next
  assume "\<exists>s m b. apply_event E p ev = Ok s \<and> valid_event E ev m b
       \<and> event_step E (abs_state p) m b (abs_state s) \<and> i = event_id E (se_body m)"
  then obtain s m b where s: "apply_event E p ev = Ok s" "event_step E (abs_state p) m b (abs_state s)"
    "i = event_id E (se_body m)" by blast
  with event_step_head(1) [OF s(2)] show "verify_at E p q ev = Ok i" by (simp add: verify_at_def)
qed

lemma fork_record_Ok:
  "validate_fork_record E p a b = Ok f \<longleftrightarrow>
   ls_ledger p = Some (fk_ledger f) \<and> fk_seq f = next_seq p
   \<and> verify_at E p (next_seq p) a = Ok (fk_kept f)
   \<and> verify_at E p (next_seq p) b = Ok (fk_conflicting f) \<and> fk_kept f \<noteq> fk_conflicting f"
  by (cases f) (auto simp: validate_fork_record_def Let_def split: if_splits)

text \<open>
  An accepted record is evidence: two bodies, both signed by a controller of the
  prefix, at one position of one ledger, and they are not the same.
\<close>

definition equivocates :: "env \<Rightarrow> ledger_state \<Rightarrow> pb_signed_event \<Rightarrow> pb_event_body \<Rightarrow> bool" where
  "equivocates E p m b \<longleftrightarrow>
     eb_seq b = next_seq p \<and> ls_ledger p = Some (eb_ledger b)
     \<and> authorized_signer p (eb_author_key b)
     \<and> ed_verify E (eb_author_key b) (sign_input (se_body m)) (se_signature m)"

lemma step_equivocates:
  assumes "state_wf p" and "event_step E (abs_state p) m b al'" and "ls_head p = Some h" and "hd_seq h + 1 \<noteq> 0"
  shows "equivocates E p m b"
proof -
  from assms(2) have link: "link_ok (abs_state p) b" and auth: "author_ok (abs_state p) b"
    and sig: "ed_verify E (eb_author_key b) (sign_input (se_body m)) (se_signature m)"
    by (auto elim!: event_stepE)
  from link assms(3) have seq: "eb_seq b = hd_seq h + 1" "ls_ledger p = Some (eb_ledger b)"
    by (auto simp: link_ok_def)
  with auth assms(4) have "\<exists>sp. signs_as (abs_state p) sp (eb_author_key b)" by (auto simp: author_ok_def)
  then have "authorized_signer p (eb_author_key b)"
    using signing_principal_None [OF assms(1)] by (simp add: authorized_signer_def)
  with seq sig assms(3) show ?thesis by (simp add: equivocates_def next_seq_def)
qed

lemma fork_sound:
  assumes "prost_codec E" and "state_wf p" and "ls_head p = Some h" and "hd_seq h + 1 \<noteq> 0"
    and "validate_fork_record E p a c = Ok f"
  shows "\<exists>m b m' b'. valid_event E a m b \<and> valid_event E c m' b' \<and> equivocates E p m b
    \<and> equivocates E p m' b' \<and> se_body m \<noteq> se_body m'
    \<and> fk_kept f = event_id E (se_body m) \<and> fk_conflicting f = event_id E (se_body m')
    \<and> fk_ledger f = eb_ledger b \<and> fk_seq f = eb_seq b"
proof -
  note f = assms(5) [unfolded fork_record_Ok]
  from f verify_at_Ok [OF assms(1,2)] obtain s m b where
    1: "valid_event E a m b" "event_step E (abs_state p) m b (abs_state s)" "fk_kept f = event_id E (se_body m)"
    by metis
  from f verify_at_Ok [OF assms(1,2)] obtain s' m' b' where
    2: "valid_event E c m' b'" "event_step E (abs_state p) m' b' (abs_state s')"
       "fk_conflicting f = event_id E (se_body m')"
    by metis
  have eq: "equivocates E p m b" "equivocates E p m' b'"
    using step_equivocates [OF assms(2) 1(2) assms(3,4)] step_equivocates [OF assms(2) 2(2) assms(3,4)] by auto
  moreover have "fk_ledger f = eb_ledger b" "fk_seq f = eb_seq b"
    using eq(1) f by (auto simp: equivocates_def)
  moreover have "se_body m \<noteq> se_body m'" using f 1(3) 2(3) by auto
  ultimately show ?thesis using 1 2 by blast
qed

definition swap_fork :: "fork \<Rightarrow> fork" where
  "swap_fork f = f\<lparr>fk_kept := fk_conflicting f, fk_conflicting := fk_kept f\<rparr>"

lemma fork_symmetric:
  "validate_fork_record E p a b = Ok f \<longleftrightarrow> validate_fork_record E p b a = Ok (swap_fork f)"
  by (auto simp: fork_record_Ok swap_fork_def)

lemma fork_needs_two_events: "validate_fork_record E p a a \<noteq> Ok f"
  by (auto simp: fork_record_Ok)

lemma fork_not_Panic:
  assumes "prost_codec E" and "state_wf p" and "started (abs_state p)"
    and "\<And>h. ls_head p = Some h \<Longrightarrow> hd_seq h + 1 \<noteq> 0"
  shows "validate_fork_record E p a b \<noteq> Panic"
proof -
  have "verify_at E p q ev \<noteq> Panic" for q ev
  proof -
    have "apply_event E p ev \<noteq> Panic" by (rule apply_not_Panic [OF assms])
    moreover have "ls_head s \<noteq> None" if "apply_event E p ev = Ok s" for s
      using apply_sound [OF assms(1,2) that] event_step_head(1) by fastforce
    ultimately show ?thesis by (cases "apply_event E p ev") (auto simp: verify_at_def)
  qed
  then show ?thesis by (auto simp: validate_fork_record_def Let_def)
qed

end
