(* ===== verification/Artifacts.thy ===== *)
theory Artifacts
  imports Sign_Facts
begin

text \<open>
  The three file artifacts, \<open>crates/mabel-core/src/artifacts.rs\<close>: their
  descriptors, and \<open>new\<close>, \<open>read\<close>, \<open>write\<close> and \<open>summary\<close> of each. A file is read
  with the validator, and its events are taken verbatim. The lemmas are the round
  trips, what a summary reports, and one gap: \<open>IdentityDescriptor::new\<close> takes a
  repeated witness, which no reader accepts.
\<close>

section \<open>Descriptors\<close>

definition K_EVENT :: field_kind where "K_EVENT = KDetached SIGNED_EVENT"

definition INVITATION_BUNDLE :: message_descriptor where
  "INVITATION_BUNDLE = MessageDescriptor ''InvitationBundle'' MAX_INVITATION_BUNDLE_BYTES
     [FieldDescriptor 1 ''ledger_prefix'' (Repeated 1 MAX_BUNDLE_EVENTS False) K_EVENT] None None"

definition ACCEPTANCE_FILE :: message_descriptor where
  "ACCEPTANCE_FILE = MessageDescriptor ''AcceptanceFile'' MAX_ACCEPTANCE_FILE_BYTES
     [required 1 ''acceptance'' (KNested ACCEPTANCE MAX_ACCEPTANCE_BYTES),
      required 2 ''signature'' K_SIG]
     None (Some CheckAcceptanceFile)"

definition IDENTITY_DESCRIPTOR :: message_descriptor where
  "IDENTITY_DESCRIPTOR = MessageDescriptor ''IdentityDescriptor'' MAX_IDENTITY_DESCRIPTOR_BYTES
     [required 1 ''inception'' K_EVENT,
      FieldDescriptor 2 ''witnesses'' (Repeated 0 MAX_WITNESSES True) K_ID] None None"

section \<open>Errors\<close>

datatype artifact_error =
    ArtifactWire wire_error
  | EmptyPrefix
  | Prefix violation
  | InvitationNotLast
  | InceptionInvalid violation

fun artifact_code :: "artifact_error \<Rightarrow> string" where
  "artifact_code (ArtifactWire e) = wire_code e"
| "artifact_code EmptyPrefix = ''empty_prefix''"
| "artifact_code (Prefix _) = ''invalid_prefix''"
| "artifact_code InvitationNotLast = ''invitation_not_last''"
| "artifact_code (InceptionInvalid _) = ''invalid_inception''"

type_synonym 'a artifact_result = "(artifact_error, 'a) outcome"

text \<open>A result that is never an error, used where another error type is expected.\<close>

primrec infallible :: "('e, 'a) outcome \<Rightarrow> ('f, 'a) outcome" where
  "infallible (Ok a) = Ok a"
| "infallible (Err e) = Panic"
| "infallible Panic = Panic"

definition cap :: "message_descriptor \<Rightarrow> nat \<Rightarrow> unit wire_result" where
  "cap D len =
     (if len > md_max_bytes D then Err (MessageTooLarge (md_name D) len (md_max_bytes D)) else Ok ())"

section \<open>Invitation bundles\<close>

record invitation_bundle =
  ib_events :: "bytes list"

record invitation_summary =
  is_ledger :: ledger_id
  is_declared_kind :: declared_kind
  is_root :: ledger_root
  is_controllers :: "signing_principal list"
  is_invitation_event :: event_id
  is_invitee :: identity_id
  is_invitee_key :: public_key
  is_role :: role

definition bundle_write :: "env \<Rightarrow> invitation_bundle \<Rightarrow> bytes artifact_result" where
  "bundle_write E b =
     obind (try_map (\<lambda>ev. expect (decode_signed_event E ev)) (ib_events b)) (\<lambda>ms.
     Ok (encode_invitation_bundle E ms))"

definition bundle_new :: "env \<Rightarrow> bytes list \<Rightarrow> invitation_bundle artifact_result" where
  "bundle_new E events =
     (if events = [] then Err EmptyPrefix
      else if length events > MAX_BUNDLE_EVENTS then
        Err (ArtifactWire (RepeatedCount (md_name INVITATION_BUNDLE) ''ledger_prefix''
               (length events) 1 MAX_BUNDLE_EVENTS))
      else
        obind (map_err ArtifactWire (for_each (signed_event E) events)) (\<lambda>_.
        let b = \<lparr>ib_events = events\<rparr> in
        obind (bundle_write E b) (\<lambda>bs.
        obind (map_err ArtifactWire (cap INVITATION_BUNDLE (length bs))) (\<lambda>_.
        Ok b))))"

definition bundle_read :: "env \<Rightarrow> bytes \<Rightarrow> invitation_bundle artifact_result" where
  "bundle_read E bs =
     obind (map_err ArtifactWire (message_fields E INVITATION_BUNDLE bs)) (\<lambda>s.
     Ok \<lparr>ib_events = scanned_repeated_bytes s 1\<rparr>)"

definition controllers :: "ledger_state \<Rightarrow> signing_principal list" where
  "controllers s =
     map (\<lambda>(i, p). \<lparr>sp_identity = i, sp_key = pr_active_key p\<rparr>)
       (filter (\<lambda>(i, p). pr_role p = Controller) (ls_principals s))"

definition bundle_summary :: "env \<Rightarrow> invitation_bundle \<Rightarrow> invitation_summary artifact_result" where
  "bundle_summary E b =
     obind (infallible (fold_events E (ib_events b))) (\<lambda>(state, violation).
     case violation of
       Some v \<Rightarrow> Err (Prefix v)
     | None \<Rightarrow>
         obind (ok_or (ls_head state) EmptyPrefix) (\<lambda>h.
         obind (ok_or (bt_get (ls_invitations state) (hd_event_id h)) InvitationNotLast) (\<lambda>iv.
         obind (expect (ls_ledger state)) (\<lambda>ledger.
         obind (expect (ls_declared_kind state)) (\<lambda>kind.
         obind (expect (ls_root state)) (\<lambda>root.
         Ok \<lparr>is_ledger = ledger, is_declared_kind = kind, is_root = root,
             is_controllers = controllers state, is_invitation_event = hd_event_id h,
             is_invitee = iv_invitee iv, is_invitee_key = iv_invitee_key iv,
             is_role = iv_role iv\<rparr>))))))"

definition controller_on_raw_root :: "invitation_summary \<Rightarrow> bool" where
  "controller_on_raw_root x \<longleftrightarrow> is_role x = Controller \<and> is_raw (is_root x)"

section \<open>Acceptance files\<close>

record acceptance_file =
  af_acceptance :: bytes
  af_signature :: bytes
  af_ledger :: ledger_id
  af_invitation_event :: event_id
  af_invitee :: identity_id
  af_invitee_key :: public_key

definition acceptance_file_read :: "env \<Rightarrow> bytes \<Rightarrow> acceptance_file artifact_result" where
  "acceptance_file_read E bs =
     obind (map_err ArtifactWire (message_fields E ACCEPTANCE_FILE bs)) (\<lambda>s.
     obind (expect (scanned_bytes s 1)) (\<lambda>blob.
     obind (expect (scanned_bytes s 2)) (\<lambda>signature.
     obind (expect (decode_acceptance E blob)) (\<lambda>a.
     if length (ac_invitee_key a) \<noteq> ID_BYTES \<or> length signature \<noteq> SIG_BYTES
        \<or> length (ac_ledger a) \<noteq> ID_BYTES \<or> length (ac_invitation_event a) \<noteq> ID_BYTES
        \<or> length (ac_invitee a) \<noteq> ID_BYTES \<or> \<not> key_is_point E (ac_invitee_key a) then Panic
     else
       Ok \<lparr>af_acceptance = blob, af_signature = signature, af_ledger = ac_ledger a,
           af_invitation_event = ac_invitation_event a, af_invitee = ac_invitee a,
           af_invitee_key = ac_invitee_key a\<rparr>))))"

definition acceptance_file_new :: "env \<Rightarrow> detached_acceptance \<Rightarrow> acceptance_file artifact_result" where
  "acceptance_file_new E d =
     acceptance_file_read E
       (encode_acceptance_file E \<lparr>ma_acceptance = da_acceptance d, ma_signature = da_signature d\<rparr>)"

definition acceptance_file_write :: "env \<Rightarrow> acceptance_file \<Rightarrow> bytes" where
  "acceptance_file_write E f =
     encode_acceptance_file E \<lparr>ma_acceptance = af_acceptance f, ma_signature = af_signature f\<rparr>"

definition acceptance_file_detached :: "acceptance_file \<Rightarrow> detached_acceptance" where
  "acceptance_file_detached f = \<lparr>da_acceptance = af_acceptance f, da_signature = af_signature f\<rparr>"

section \<open>Identity descriptors\<close>

record identity_descriptor =
  idd_inception :: bytes
  idd_witnesses :: "public_key list"
  idd_identity :: identity_id
  idd_declared_kind :: declared_kind
  idd_root :: ledger_root

definition descriptor_write :: "env \<Rightarrow> identity_descriptor \<Rightarrow> bytes artifact_result" where
  "descriptor_write E d =
     obind (expect (decode_signed_event E (idd_inception d))) (\<lambda>m.
     Ok (encode_identity_descriptor E \<lparr>id_inception = Some m, id_witnesses = idd_witnesses d\<rparr>))"

definition from_parts :: "env \<Rightarrow> bytes \<Rightarrow> public_key list \<Rightarrow> identity_descriptor artifact_result" where
  "from_parts E inception witnesses =
     obind (infallible (fold_events E [inception])) (\<lambda>(state, violation).
     case violation of
       Some v \<Rightarrow> Err (InceptionInvalid v)
     | None \<Rightarrow>
         obind (expect (ls_ledger state)) (\<lambda>ident.
         obind (expect (ls_declared_kind state)) (\<lambda>kind.
         obind (expect (ls_root state)) (\<lambda>root.
         let d = \<lparr>idd_inception = inception, idd_witnesses = witnesses, idd_identity = ident,
                  idd_declared_kind = kind, idd_root = root\<rparr> in
         obind (descriptor_write E d) (\<lambda>bs.
         obind (map_err ArtifactWire (cap IDENTITY_DESCRIPTOR (length bs))) (\<lambda>_.
         Ok d))))))"

definition descriptor_new :: "env \<Rightarrow> bytes \<Rightarrow> public_key list \<Rightarrow> identity_descriptor artifact_result" where
  "descriptor_new E inception witnesses =
     (if length witnesses > MAX_WITNESSES then
        Err (ArtifactWire (RepeatedCount (md_name IDENTITY_DESCRIPTOR) ''witnesses''
               (length witnesses) 0 MAX_WITNESSES))
      else from_parts E inception witnesses)"

definition descriptor_key :: "env \<Rightarrow> bytes \<Rightarrow> public_key artifact_result" where
  "descriptor_key E witness =
     (if length witness \<noteq> ID_BYTES then Panic
      else if key_is_point E witness then Ok witness
      else Err (ArtifactWire (InvalidPublicKey (md_name IDENTITY_DESCRIPTOR) ''witnesses'')))"

definition descriptor_read :: "env \<Rightarrow> bytes \<Rightarrow> identity_descriptor artifact_result" where
  "descriptor_read E bs =
     obind (map_err ArtifactWire (message_fields E IDENTITY_DESCRIPTOR bs)) (\<lambda>s.
     obind (expect (scanned_bytes s 1)) (\<lambda>inception.
     obind (try_map (descriptor_key E) (scanned_repeated_bytes s 2)) (\<lambda>witnesses.
     from_parts E inception witnesses)))"

definition descriptor_active_key :: "identity_descriptor \<Rightarrow> public_key option" where
  "descriptor_active_key d =
     (case idd_root d of Raw active_key _ \<Rightarrow> Some active_key | Identity _ _ \<Rightarrow> None)"

section \<open>What the descriptors accept\<close>

lemmas artifact_defs = INVITATION_BUNDLE_def ACCEPTANCE_FILE_def IDENTITY_DESCRIPTOR_def

lemma artifact_table [simp]:
  "ordered_fields INVITATION_BUNDLE" "ordered_fields ACCEPTANCE_FILE" "ordered_fields IDENTITY_DESCRIPTOR"
  "small_fields INVITATION_BUNDLE" "small_fields ACCEPTANCE_FILE" "small_fields IDENTITY_DESCRIPTOR"
  "md_max_bytes INVITATION_BUNDLE = MAX_INVITATION_BUNDLE_BYTES"
  "md_max_bytes ACCEPTANCE_FILE = MAX_ACCEPTANCE_FILE_BYTES"
  "md_max_bytes IDENTITY_DESCRIPTOR = MAX_IDENTITY_DESCRIPTOR_BYTES"
  "md_oneof INVITATION_BUNDLE = None" "md_oneof ACCEPTANCE_FILE = None" "md_oneof IDENTITY_DESCRIPTOR = None"
  "md_check INVITATION_BUNDLE = None" "md_check ACCEPTANCE_FILE = Some CheckAcceptanceFile"
  "md_check IDENTITY_DESCRIPTOR = None"
  by (simp_all add: ordered_fields_def small_fields_def artifact_defs field_defs)

lemma artifact_caps [simp]:
  "MAX_INVITATION_BUNDLE_BYTES < 18446744073709551616" "MAX_ACCEPTANCE_FILE_BYTES < 18446744073709551616"
  "MAX_IDENTITY_DESCRIPTOR_BYTES < 18446744073709551616"
  by (simp_all add: size_defs)

lemma detached_event:
  assumes "9 \<le> n"
  shows "(\<exists>s. validate_n n E SIGNED_EVENT bs 0 = Ok s) \<longleftrightarrow> signed_event E bs = Ok ()"
proof
  assume "\<exists>s. validate_n n E SIGNED_EVENT bs 0 = Ok s"
  then obtain s where s: "validate_n n E SIGNED_EVENT bs 0 = Ok s" by blast
  obtain k where n: "n = Suc k" "8 \<le> k" using assms by (cases n) auto
  from s [unfolded n(1) signed_event_step] obtain m sb where
    m: "length bs \<le> MAX_EVENT_BYTES" "length (se_signature m) = SIG_BYTES" "bs = enc_records (signed_event_records m)"
       "validate_n k E EVENT_BODY (se_body m) (0 + 1) = Ok sb" by blast
  with event_body_iff [OF n(2), of 1 E "se_body m"] show "signed_event E bs = Ok ()"
    by (auto simp: signed_event_iff valid_event_def MAX_NESTING_def)
next
  assume "signed_event E bs = Ok ()"
  then obtain m b where v: "valid_event E bs m b" using signed_event_iff by blast
  obtain k where n: "n = Suc k" "8 \<le> k" using assms by (cases n) auto
  have "length (se_body m) \<le> length bs"
    using v by (auto simp: valid_event_def signed_event_records_def f_bytes_def)
  then have body: "validate_n k E EVENT_BODY (se_body m) (0 + 1)
      = Ok \<lparr>sc_descriptor = EVENT_BODY, sc_depth = 1, sc_entries = event_body_records b\<rparr>"
    "se_body m \<noteq> []" "length (se_body m) \<le> MAX_EVENT_BYTES"
    using v event_body_iff [OF n(2), of 1 E "se_body m"] valid_body_not_Nil [of E b]
    by (auto simp: valid_event_def MAX_NESTING_def)
  have "validate_n (Suc k) E SIGNED_EVENT bs 0
      = Ok \<lparr>sc_descriptor = SIGNED_EVENT, sc_depth = 0, sc_entries = signed_event_records m\<rparr>"
    unfolding signed_event_step using v body by (auto simp: valid_event_def)
  then show "\<exists>s. validate_n n E SIGNED_EVENT bs 0 = Ok s" unfolding n(1) by blast
qed

lemma check_detached:
  assumes "9 \<le> n"
  shows "check_bytes E (validate_n n E) (FieldDescriptor k nm c K_EVENT) msg b d = Ok ()
    \<longleftrightarrow> signed_event E b = Ok ()"
  using detached_event [OF assms, of E b] by (simp add: check_bytes_def K_EVENT_def)

abbreviation bundle_scan :: "bytes list \<Rightarrow> scanned" where
  "bundle_scan es \<equiv> \<lparr>sc_descriptor = INVITATION_BUNDLE, sc_depth = 0, sc_entries = f_repeated 1 es\<rparr>"

lemma bundle_iff:
  "message_fields E INVITATION_BUNDLE bs = Ok s \<longleftrightarrow>
   length bs \<le> MAX_INVITATION_BUNDLE_BYTES
   \<and> (\<exists>es. (1 \<le> length es \<and> length es \<le> MAX_BUNDLE_EVENTS \<and> list_all (\<lambda>e. signed_event E e = Ok ()) es)
        \<and> bs = enc_records (f_repeated 1 es) \<and> s = bundle_scan es)"
proof -
  have shape: "blocks E (validate_n 19 E) msg 0 (md_fields INVITATION_BUNDLE) rs \<longleftrightarrow>
      (\<exists>es. (1 \<le> length es \<and> length es \<le> MAX_BUNDLE_EVENTS
        \<and> list_all (\<lambda>e. signed_event E e = Ok ()) es) \<and> rs = f_repeated 1 es)" for msg rs
    by (auto simp: INVITATION_BUNDLE_def blocks_unfold part_repeated K_EVENT_def check_detached [unfolded K_EVENT_def])
  have "message_fields E INVITATION_BUNDLE bs = validate_n (Suc 19) E INVITATION_BUNDLE bs 0"
    by (simp add: message_fields_def validate_def VALIDATE_FUEL_def numeral_eq_Suc)
  then show ?thesis
    by (simp only:, subst accept_plain [OF _ _ _ _ shape, where C = "\<lambda>_. True"])
       (auto simp: run_check_def MAX_NESTING_def)
qed

lemma get_repeated_f [simp]: "get_repeated (f_repeated n es) n = es"
  by (induction es) (auto simp: f_repeated_def)

lemma bundle_read_Ok:
  "bundle_read E bs = Ok b \<longleftrightarrow>
   length bs \<le> MAX_INVITATION_BUNDLE_BYTES \<and> 1 \<le> length (ib_events b)
   \<and> length (ib_events b) \<le> MAX_BUNDLE_EVENTS
   \<and> list_all (\<lambda>e. signed_event E e = Ok ()) (ib_events b)
   \<and> bs = enc_records (f_repeated 1 (ib_events b))"
  by (cases b) (auto simp: bundle_read_def bundle_iff scanned_repeated_bytes_def)

abbreviation decode_all :: "env \<Rightarrow> bytes list \<Rightarrow> pb_signed_event list artifact_result" where
  "decode_all E es \<equiv> try_map (\<lambda>ev. expect (decode_signed_event E ev)) es"

lemma decode_events:
  assumes "prost_codec E" and "list_all (\<lambda>e. signed_event E e = Ok ()) es"
  shows "\<exists>ms. decode_all E es = Ok ms
    \<and> map (\<lambda>m. enc_records (signed_event_records m)) ms = es"
  using assms(2)
proof (induction es)
  case (Cons e es)
  from Cons.prems signed_event_iff obtain m b where v: "valid_event E e m b" by fastforce
  from decode_valid_event(1) [OF assms(1) v] have "decode_signed_event E e = Some m" .
  moreover from v have "enc_records (signed_event_records m) = e" by (simp add: valid_event_def)
  moreover have "list_all (\<lambda>e. signed_event E e = Ok ()) es" using Cons.prems by simp
  from Cons.IH [OF this] obtain ms where "decode_all E es = Ok ms"
    "map (\<lambda>m. enc_records (signed_event_records m)) ms = es" by blast
  ultimately show ?case by (intro exI [of _ "m # ms"]) simp
qed simp

lemma cap_Ok [simp]: "cap D len = Ok () \<longleftrightarrow> len \<le> md_max_bytes D"
  by (simp add: cap_def)

lemma bundle_write_Ok:
  assumes "prost_codec E" and "list_all (\<lambda>e. signed_event E e = Ok ()) (ib_events b)"
  shows "bundle_write E b = Ok (enc_records (f_repeated 1 (ib_events b)))"
  using decode_events [OF assms] assms(1)
  by (auto simp: bundle_write_def prost_codec.encode_invitation_bundle invitation_bundle_records_def)

lemma bundle_new_Ok:
  assumes "prost_codec E"
  shows "bundle_new E es = Ok b \<longleftrightarrow> b = \<lparr>ib_events = es\<rparr> \<and> es \<noteq> [] \<and> length es \<le> MAX_BUNDLE_EVENTS
    \<and> list_all (\<lambda>e. signed_event E e = Ok ()) es
    \<and> length (enc_records (f_repeated 1 es)) \<le> MAX_INVITATION_BUNDLE_BYTES"
proof -
  have "bundle_write E \<lparr>ib_events = es\<rparr> = Ok (enc_records (f_repeated 1 es))"
    if "list_all (\<lambda>e. signed_event E e = Ok ()) es"
    using bundle_write_Ok [OF assms, of "\<lparr>ib_events = es\<rparr>"] that by simp
  then show ?thesis
    by (auto simp: bundle_new_def for_each_Ok list_all_iff Let_def)
qed

text \<open>A bundle that was built can be written and read back, and a read bundle writes its file.\<close>

lemma bundle_round_trip:
  assumes "prost_codec E"
  shows "bundle_new E es = Ok b \<Longrightarrow> \<exists>bs. bundle_write E b = Ok bs \<and> bundle_read E bs = Ok b"
    and "bundle_read E bs = Ok b \<Longrightarrow> bundle_write E b = Ok bs \<and> bundle_new E (ib_events b) = Ok b"
proof -
  show "\<exists>bs. bundle_write E b = Ok bs \<and> bundle_read E bs = Ok b" if "bundle_new E es = Ok b"
    using that bundle_write_Ok [OF assms, of b] by (auto simp: bundle_new_Ok [OF assms] bundle_read_Ok Suc_le_eq)
  show "bundle_write E b = Ok bs \<and> bundle_new E (ib_events b) = Ok b" if "bundle_read E bs = Ok b"
    using that bundle_write_Ok [OF assms, of b] by (auto simp: bundle_new_Ok [OF assms] bundle_read_Ok)
qed

section \<open>Acceptance files\<close>

abbreviation acceptance_file_scan :: "pb_membership_acceptance \<Rightarrow> scanned" where
  "acceptance_file_scan m \<equiv>
     \<lparr>sc_descriptor = ACCEPTANCE_FILE, sc_depth = 0, sc_entries = membership_acceptance_records m\<rparr>"

lemma acceptance_file_check:
  assumes "valid_acceptance a" and "ma_acceptance m = enc_records (acceptance_records a)"
    and "length (ma_acceptance m) \<le> MAX_ACCEPTANCE_BYTES" and "length (ma_signature m) = SIG_BYTES"
  shows "check_acceptance_file E (validate_n 19 E) (acceptance_file_scan m) = Ok ()
    \<longleftrightarrow> valid_signed_acceptance E m a"
proof -
  have "validate_n (Suc 18) E ACCEPTANCE (enc_records (acceptance_records a)) 1
      = Ok \<lparr>sc_descriptor = ACCEPTANCE, sc_depth = 1, sc_entries = acceptance_records a\<rparr>"
    unfolding acceptance_iff using assms by (auto simp: MAX_NESTING_def)
  from detached_acceptance_iff [OF this assms(1), of 19]
  have "detached_acceptance E (validate_n 19 E) (ma_acceptance m) (ma_signature m) ''AcceptanceFile'' = Ok ()
    \<longleftrightarrow> valid_signed_acceptance E m a"
    using assms by (simp add: valid_signed_acceptance_def)
  moreover have "scanned_bytes (acceptance_file_scan m) 1 = Some (ma_acceptance m)"
    "scanned_bytes (acceptance_file_scan m) 2 = Some (ma_signature m)"
    using assms acceptance_not_Nil [OF assms(1)]
    by (auto simp: scanned_defs membership_acceptance_records_def SIG_BYTES_def)
  ultimately show ?thesis by (simp add: check_acceptance_file_def)
qed

lemma acceptance_file_iff:
  "message_fields E ACCEPTANCE_FILE bs = Ok s \<longleftrightarrow>
   length bs \<le> MAX_ACCEPTANCE_FILE_BYTES
   \<and> (\<exists>m a. valid_signed_acceptance E m a \<and> length (ma_acceptance m) \<le> MAX_ACCEPTANCE_BYTES
        \<and> bs = enc_records (membership_acceptance_records m) \<and> s = acceptance_file_scan m)"
proof -
  let ?V = "validate_n 19 E"
  let ?S = "\<lambda>m. length (ma_signature m) = SIG_BYTES \<and> ma_acceptance m \<noteq> []
     \<and> length (ma_acceptance m) \<le> MAX_ACCEPTANCE_BYTES
     \<and> (\<exists>sb. ?V ACCEPTANCE (ma_acceptance m) (0 + 1) = Ok sb)"
  let ?C = "\<lambda>m. check_acceptance_file E ?V (acceptance_file_scan m) = Ok ()"
  have shape: "blocks E ?V msg 0 (md_fields ACCEPTANCE_FILE) es \<longleftrightarrow>
      (\<exists>m. ?S m \<and> es = membership_acceptance_records m)" for msg es
    unfolding ex_membership_acceptance membership_acceptance_records_def
    by (simp add: ACCEPTANCE_FILE_def block_simps kind_sizes) blast
  have V: "?V ACCEPTANCE b 1 = Ok sb \<longleftrightarrow> length b \<le> MAX_ACCEPTANCE_BYTES
      \<and> (\<exists>a. valid_acceptance a \<and> b = enc_records (acceptance_records a)
         \<and> sb = \<lparr>sc_descriptor = ACCEPTANCE, sc_depth = 1, sc_entries = acceptance_records a\<rparr>)" for b sb
    using acceptance_iff [of 18 E b 1 sb] by (simp add: MAX_NESTING_def)
  have SC: "?S m \<and> ?C m \<longleftrightarrow> (\<exists>a. valid_signed_acceptance E m a \<and> length (ma_acceptance m) \<le> MAX_ACCEPTANCE_BYTES)"
    for m
  proof
    assume "?S m \<and> ?C m"
    then obtain a where "valid_acceptance a" "ma_acceptance m = enc_records (acceptance_records a)"
      "length (ma_acceptance m) \<le> MAX_ACCEPTANCE_BYTES" "length (ma_signature m) = SIG_BYTES" "?C m"
      using V by auto
    with acceptance_file_check show "\<exists>a. valid_signed_acceptance E m a \<and> length (ma_acceptance m) \<le> MAX_ACCEPTANCE_BYTES"
      by blast
  next
    assume "\<exists>a. valid_signed_acceptance E m a \<and> length (ma_acceptance m) \<le> MAX_ACCEPTANCE_BYTES"
    then obtain a where a: "valid_signed_acceptance E m a" "length (ma_acceptance m) \<le> MAX_ACCEPTANCE_BYTES" by blast
    then have a': "valid_acceptance a" "ma_acceptance m = enc_records (acceptance_records a)"
      "length (ma_signature m) = SIG_BYTES" by (auto simp: valid_signed_acceptance_def)
    with a acceptance_file_check [OF a'(1,2) a(2) a'(3)] acceptance_not_Nil [OF a'(1)]
    show "?S m \<and> ?C m" using V by auto
  qed
  have "message_fields E ACCEPTANCE_FILE bs = validate_n (Suc 19) E ACCEPTANCE_FILE bs 0"
    by (simp add: message_fields_def validate_def VALIDATE_FUEL_def numeral_eq_Suc)
  also have "\<dots> = Ok s \<longleftrightarrow> length bs \<le> MAX_ACCEPTANCE_FILE_BYTES
     \<and> (\<exists>m. ?S m \<and> ?C m \<and> bs = enc_records (membership_acceptance_records m) \<and> s = acceptance_file_scan m)"
    by (subst accept_plain [OF _ _ _ _ shape, where C = ?C]) (auto simp: run_check_def MAX_NESTING_def)
  finally show ?thesis using SC by blast
qed

lemma acceptance_file_read_Ok:
  assumes "prost_codec E"
  shows "acceptance_file_read E bs = Ok f \<longleftrightarrow>
    length bs \<le> MAX_ACCEPTANCE_FILE_BYTES
    \<and> (\<exists>m a. valid_signed_acceptance E m a \<and> length (ma_acceptance m) \<le> MAX_ACCEPTANCE_BYTES
        \<and> bs = enc_records (membership_acceptance_records m)
        \<and> f = \<lparr>af_acceptance = ma_acceptance m, af_signature = ma_signature m, af_ledger = ac_ledger a,
              af_invitation_event = ac_invitation_event a, af_invitee = ac_invitee a,
              af_invitee_key = ac_invitee_key a\<rparr>)"
proof -
  have reads: "scanned_bytes (acceptance_file_scan m) 1 = Some (ma_acceptance m)"
    "scanned_bytes (acceptance_file_scan m) 2 = Some (ma_signature m)"
    "decode_acceptance E (ma_acceptance m) = Some a" "length (ma_signature m) = SIG_BYTES" "valid_acceptance a"
    "key_is_point E (ac_invitee_key a)"
    if "valid_signed_acceptance E m a" "length (ma_acceptance m) \<le> MAX_ACCEPTANCE_BYTES" for m a
    using that decode_valid_acceptance [OF assms that] acceptance_not_Nil [of a]
    by (auto simp: valid_signed_acceptance_def scanned_defs membership_acceptance_records_def SIG_BYTES_def)
  show ?thesis
  proof
    assume "acceptance_file_read E bs = Ok f"
    then obtain s where "message_fields E ACCEPTANCE_FILE bs = Ok s" by (auto simp: acceptance_file_read_def)
    with acceptance_file_iff obtain m a where m: "valid_signed_acceptance E m a"
      "length (ma_acceptance m) \<le> MAX_ACCEPTANCE_BYTES" "bs = enc_records (membership_acceptance_records m)"
      "s = acceptance_file_scan m" "length bs \<le> MAX_ACCEPTANCE_FILE_BYTES" by blast
    show "length bs \<le> MAX_ACCEPTANCE_FILE_BYTES \<and> (\<exists>m a. valid_signed_acceptance E m a
        \<and> length (ma_acceptance m) \<le> MAX_ACCEPTANCE_BYTES \<and> bs = enc_records (membership_acceptance_records m)
        \<and> f = \<lparr>af_acceptance = ma_acceptance m, af_signature = ma_signature m, af_ledger = ac_ledger a,
              af_invitation_event = ac_invitation_event a, af_invitee = ac_invitee a,
              af_invitee_key = ac_invitee_key a\<rparr>)"
      using m(1-3,5) \<open>acceptance_file_read E bs = Ok f\<close> \<open>message_fields E ACCEPTANCE_FILE bs = Ok s\<close>
        reads [OF m(1,2)] m(4)
      by (intro conjI exI [of _ m] exI [of _ a]) (auto simp: acceptance_file_read_def split: if_splits)
  next
    assume "length bs \<le> MAX_ACCEPTANCE_FILE_BYTES \<and> (\<exists>m a. valid_signed_acceptance E m a
        \<and> length (ma_acceptance m) \<le> MAX_ACCEPTANCE_BYTES \<and> bs = enc_records (membership_acceptance_records m)
        \<and> f = \<lparr>af_acceptance = ma_acceptance m, af_signature = ma_signature m, af_ledger = ac_ledger a,
              af_invitation_event = ac_invitation_event a, af_invitee = ac_invitee a,
              af_invitee_key = ac_invitee_key a\<rparr>)"
    then obtain m a where m: "valid_signed_acceptance E m a"
      "length (ma_acceptance m) \<le> MAX_ACCEPTANCE_BYTES"
      and f: "f = \<lparr>af_acceptance = ma_acceptance m, af_signature = ma_signature m, af_ledger = ac_ledger a,
              af_invitation_event = ac_invitation_event a, af_invitee = ac_invitee a,
              af_invitee_key = ac_invitee_key a\<rparr>"
      and s: "message_fields E ACCEPTANCE_FILE bs = Ok (acceptance_file_scan m)"
      using acceptance_file_iff by blast
    then show "acceptance_file_read E bs = Ok f"
      using reads [OF m] by (simp add: acceptance_file_read_def valid_acceptance_def)
  qed
qed

lemma acceptance_file_round_trip:
  assumes "prost_codec E" and "acceptance_file_read E bs = Ok f"
  shows "acceptance_file_write E f = bs" and "acceptance_file_new E (acceptance_file_detached f) = Ok f"
proof -
  show w: "acceptance_file_write E f = bs"
    using assms(2) unfolding acceptance_file_read_Ok [OF assms(1)]
    by (auto simp: acceptance_file_write_def prost_codec.encode_acceptance_file [OF assms(1)]
        membership_acceptance_records_def)
  show "acceptance_file_new E (acceptance_file_detached f) = Ok f"
    using w assms(2) by (simp add: acceptance_file_new_def acceptance_file_detached_def acceptance_file_write_def)
qed

lemma acceptance_file_of_built:
  assumes "prost_codec E" and "crypto_ok E" and "length l = 32" and "length e = 32" and "length i = 32"
  shows "acceptance_file_new E (build_acceptance E sk l e i) =
    Ok \<lparr>af_acceptance = da_acceptance (build_acceptance E sk l e i),
        af_signature = da_signature (build_acceptance E sk l e i), af_ledger = l, af_invitation_event = e,
        af_invitee = i, af_invitee_key = ed_public E sk\<rparr>"
proof -
  let ?d = "build_acceptance E sk l e i"
  let ?m = "\<lparr>ma_acceptance = da_acceptance ?d, ma_signature = da_signature ?d\<rparr>"
  note v = built_acceptance_valid [OF assms, of sk]
  have "length (da_signature ?d) = 64" using v(1) by (simp add: valid_signed_acceptance_def SIG_BYTES_def)
  then have "length (enc_records (membership_acceptance_records ?m)) \<le> MAX_ACCEPTANCE_FILE_BYTES"
    using f_bytes_length [of 1 "da_acceptance ?d"] f_bytes_length [of 2 "da_signature ?d"] v(2)
    by (simp add: membership_acceptance_records_def size_defs)
  then show ?thesis
    unfolding acceptance_file_new_def prost_codec.encode_acceptance_file [OF assms(1)]
    by (subst acceptance_file_read_Ok [OF assms(1)])
       (use v in \<open>auto intro!: exI [of _ ?m] exI [of _ "acceptance_of E sk l e i"] simp: acceptance_of_def\<close>)
qed

section \<open>Identity descriptors\<close>

definition descriptor_records :: "bytes \<Rightarrow> public_key list \<Rightarrow> records" where
  "descriptor_records inc ws = f_bytes 1 inc @ f_repeated 2 ws"

lemma signed_event_not_Nil: "signed_event E bs = Ok () \<Longrightarrow> bs \<noteq> []"
  by (auto simp: signed_event_iff valid_event_def signed_event_records_def f_bytes_def SIG_BYTES_def
      split: if_splits)

lemma descriptor_iff:
  "message_fields E IDENTITY_DESCRIPTOR bs = Ok s \<longleftrightarrow>
   length bs \<le> MAX_IDENTITY_DESCRIPTOR_BYTES
   \<and> (\<exists>inc ws. signed_event E inc = Ok () \<and> valid_ids 0 MAX_WITNESSES ws
        \<and> bs = enc_records (descriptor_records inc ws)
        \<and> s = \<lparr>sc_descriptor = IDENTITY_DESCRIPTOR, sc_depth = 0, sc_entries = descriptor_records inc ws\<rparr>)"
proof -
  have req: "part_ok E (validate_n 19 E) msg 0 (required 1 nm K_EVENT) p \<longleftrightarrow>
      (\<exists>inc. signed_event E inc = Ok () \<and> p = f_bytes 1 inc)" for msg nm p
  proof -
    have "wire_kind_of (fd_kind (required 1 nm K_EVENT)) = WLen" by (simp add: required_def K_EVENT_def)
    then have "part_ok E (validate_n 19 E) msg 0 (required 1 nm K_EVENT) p \<longleftrightarrow>
        (\<exists>b. p = [(1, VBytes b)] \<and> signed_event E b = Ok ())"
      unfolding part_required by (auto simp: value_ok_len) (simp_all add: required_def check_detached)
    also have "\<dots> \<longleftrightarrow> (\<exists>inc. signed_event E inc = Ok () \<and> p = f_bytes 1 inc)"
      using signed_event_not_Nil [of E] by (auto simp: f_bytes_def)
    finally show ?thesis .
  qed
  have shape: "blocks E (validate_n 19 E) msg 0 (md_fields IDENTITY_DESCRIPTOR) rs \<longleftrightarrow>
      (\<exists>x. (signed_event E (fst x) = Ok () \<and> valid_ids 0 MAX_WITNESSES (snd x))
         \<and> rs = descriptor_records (fst x) (snd x))" for msg rs
    by (simp add: IDENTITY_DESCRIPTOR_def blocks_unfold req block_iffs kind_sizes valid_ids_def
        descriptor_records_def del: One_nat_def) blast
  have "message_fields E IDENTITY_DESCRIPTOR bs = validate_n (Suc 19) E IDENTITY_DESCRIPTOR bs 0"
    by (simp add: message_fields_def validate_def VALIDATE_FUEL_def numeral_eq_Suc)
  then show ?thesis
    by (simp only:, subst accept_plain [OF _ _ _ _ shape, where C = "\<lambda>_. True"])
       (auto simp: run_check_def MAX_NESTING_def)
qed

lemma descriptor_write_Ok:
  assumes "prost_codec E" and "signed_event E (idd_inception d) = Ok ()"
  shows "descriptor_write E d = Ok (enc_records (descriptor_records (idd_inception d) (idd_witnesses d)))"
proof -
  from assms(2) signed_event_iff obtain m b where v: "valid_event E (idd_inception d) m b" by blast
  have "idd_inception d \<noteq> []" using assms(2) by (rule signed_event_not_Nil)
  then show ?thesis
    using decode_valid_event(1) [OF assms(1) v] v
    by (auto simp: descriptor_write_def prost_codec.encode_identity_descriptor [OF assms(1)] valid_event_def
        identity_descriptor_records_def descriptor_records_def f_message_def f_bytes_def)
qed

lemma fold_one: "fold_events E [ev] = Ok (s, None) \<longleftrightarrow> apply_event E empty_state ev = Ok s"
  by (auto simp: fold_events_def split: outcome.splits)

lemma from_parts_Ok:
  assumes "prost_codec E"
  shows "from_parts E inc ws = Ok d \<longleftrightarrow>
    (\<exists>s. apply_event E empty_state inc = Ok s \<and> ls_ledger s = Some (idd_identity d)
       \<and> ls_declared_kind s = Some (idd_declared_kind d) \<and> ls_root s = Some (idd_root d))
    \<and> idd_inception d = inc \<and> idd_witnesses d = ws
    \<and> length (enc_records (descriptor_records inc ws)) \<le> MAX_IDENTITY_DESCRIPTOR_BYTES"
proof -
  have w: "descriptor_write E d = Ok (enc_records (descriptor_records (idd_inception d) (idd_witnesses d)))"
    if "apply_event E empty_state (idd_inception d) = Ok s" for s d
    using descriptor_write_Ok [OF assms] apply_event_Ok_valid [OF that] signed_event_iff by blast
  show ?thesis
  proof
    assume L: "from_parts E inc ws = Ok d"
    then obtain s where s: "apply_event E empty_state inc = Ok s"
      unfolding from_parts_def
      by (cases "fold_events E [inc]") (auto simp: fold_one split: option.splits)
    with L w [of d s] show "(\<exists>s. apply_event E empty_state inc = Ok s \<and> ls_ledger s = Some (idd_identity d)
       \<and> ls_declared_kind s = Some (idd_declared_kind d) \<and> ls_root s = Some (idd_root d))
      \<and> idd_inception d = inc \<and> idd_witnesses d = ws
      \<and> length (enc_records (descriptor_records inc ws)) \<le> MAX_IDENTITY_DESCRIPTOR_BYTES"
      unfolding from_parts_def by (auto simp: fold_events_def Let_def)
  next
    assume R: "(\<exists>s. apply_event E empty_state inc = Ok s \<and> ls_ledger s = Some (idd_identity d)
       \<and> ls_declared_kind s = Some (idd_declared_kind d) \<and> ls_root s = Some (idd_root d))
      \<and> idd_inception d = inc \<and> idd_witnesses d = ws
      \<and> length (enc_records (descriptor_records inc ws)) \<le> MAX_IDENTITY_DESCRIPTOR_BYTES"
    then obtain s where s: "apply_event E empty_state inc = Ok s" by blast
    obtain i k r where d: "d = \<lparr>idd_inception = inc, idd_witnesses = ws, idd_identity = i,
        idd_declared_kind = k, idd_root = r\<rparr>" using R by (cases d) auto
    from R s w [of d s] show "from_parts E inc ws = Ok d"
      unfolding from_parts_def d by (auto simp: fold_events_def Let_def)
  qed
qed

lemma descriptor_key_Ok: "descriptor_key E w = Ok k \<longleftrightarrow> k = w \<and> length w = ID_BYTES \<and> key_is_point E w"
  by (auto simp: descriptor_key_def)

lemma try_map_descriptor_keys:
  "try_map (descriptor_key E) ws = Ok ks \<longleftrightarrow> ks = ws \<and> list_all (\<lambda>w. length w = ID_BYTES \<and> key_is_point E w) ws"
  by (induction ws arbitrary: ks) (auto simp: descriptor_key_Ok)

lemma descriptor_reads:
  assumes "inc \<noteq> []"
  shows "scanned_bytes \<lparr>sc_descriptor = D, sc_depth = 0, sc_entries = descriptor_records inc ws\<rparr> 1 = Some inc"
    and "scanned_repeated_bytes \<lparr>sc_descriptor = D, sc_depth = 0, sc_entries = descriptor_records inc ws\<rparr> 2 = ws"
  using assms by (auto simp: scanned_defs scanned_repeated_bytes_def descriptor_records_def f_bytes_def)

lemma descriptor_read_Ok:
  assumes "prost_codec E"
  shows "descriptor_read E bs = Ok d \<longleftrightarrow>
    bs = enc_records (descriptor_records (idd_inception d) (idd_witnesses d))
    \<and> valid_ids 0 MAX_WITNESSES (idd_witnesses d) \<and> list_all (key_is_point E) (idd_witnesses d)
    \<and> from_parts E (idd_inception d) (idd_witnesses d) = Ok d"
proof
  assume L: "descriptor_read E bs = Ok d"
  then obtain s where s: "message_fields E IDENTITY_DESCRIPTOR bs = Ok s" by (auto simp: descriptor_read_def)
  with descriptor_iff obtain inc ws where i: "signed_event E inc = Ok ()" "valid_ids 0 MAX_WITNESSES ws"
    "bs = enc_records (descriptor_records inc ws)"
    "s = \<lparr>sc_descriptor = IDENTITY_DESCRIPTOR, sc_depth = 0, sc_entries = descriptor_records inc ws\<rparr>" by blast
  have fp: "from_parts E inc ws = Ok d" "list_all (key_is_point E) ws"
    using L s descriptor_reads [OF signed_event_not_Nil [OF i(1)]]
    by (auto simp: descriptor_read_def i(4) try_map_descriptor_keys list_all_iff)
  then show "bs = enc_records (descriptor_records (idd_inception d) (idd_witnesses d))
    \<and> valid_ids 0 MAX_WITNESSES (idd_witnesses d) \<and> list_all (key_is_point E) (idd_witnesses d)
    \<and> from_parts E (idd_inception d) (idd_witnesses d) = Ok d"
    using i(2,3) from_parts_Ok [OF assms, of inc ws d] by auto
next
  assume R: "bs = enc_records (descriptor_records (idd_inception d) (idd_witnesses d))
    \<and> valid_ids 0 MAX_WITNESSES (idd_witnesses d) \<and> list_all (key_is_point E) (idd_witnesses d)
    \<and> from_parts E (idd_inception d) (idd_witnesses d) = Ok d"
  then have se: "signed_event E (idd_inception d) = Ok ()"
    using from_parts_Ok [OF assms, of "idd_inception d" "idd_witnesses d" d] apply_event_Ok_valid signed_event_iff
    by blast
  then have "message_fields E IDENTITY_DESCRIPTOR bs = Ok \<lparr>sc_descriptor = IDENTITY_DESCRIPTOR, sc_depth = 0,
      sc_entries = descriptor_records (idd_inception d) (idd_witnesses d)\<rparr>"
    using R from_parts_Ok [OF assms, of "idd_inception d" "idd_witnesses d" d] unfolding descriptor_iff by blast
  then show "descriptor_read E bs = Ok d"
    using R descriptor_reads [OF signed_event_not_Nil [OF se]]
    by (auto simp: descriptor_read_def valid_ids_def try_map_descriptor_keys list_all_iff)
qed

lemma descriptor_new_Ok:
  "descriptor_new E inc ws = Ok d \<longleftrightarrow> length ws \<le> MAX_WITNESSES \<and> from_parts E inc ws = Ok d"
  by (auto simp: descriptor_new_def)

lemma from_parts_writes:
  assumes "prost_codec E" and "from_parts E inc ws = Ok d"
  shows "descriptor_write E d = Ok (enc_records (descriptor_records inc ws))"
    and "idd_inception d = inc" and "idd_witnesses d = ws"
  using assms descriptor_write_Ok [OF assms(1), of d] apply_event_Ok_valid signed_event_iff
  by (fastforce simp: from_parts_Ok)+

lemma descriptor_round_trip:
  assumes "prost_codec E" and "descriptor_new E inc ws = Ok d"
    and "list_all (\<lambda>w. length w = 32 \<and> key_is_point E w) ws"
  shows "\<exists>bs. descriptor_write E d = Ok bs \<and> (descriptor_read E bs = Ok d \<longleftrightarrow> distinct ws)"
proof -
  have fp: "from_parts E inc ws = Ok d" and len: "length ws \<le> MAX_WITNESSES"
    using assms(2) by (auto simp: descriptor_new_Ok)
  note w = from_parts_writes [OF assms(1) fp]
  have "valid_ids 0 MAX_WITNESSES ws \<longleftrightarrow> distinct ws" "list_all (key_is_point E) ws"
    using assms(3) len by (auto simp: valid_ids_def ID_BYTES_def list_all_iff)
  then show ?thesis
    using fp w by (intro exI [of _ "enc_records (descriptor_records inc ws)"]) (auto simp: descriptor_read_Ok [OF assms(1)])
qed

lemma descriptor_records_inj:
  assumes "enc_records (descriptor_records inc ws) = enc_records (descriptor_records inc' ws')"
    and "length (enc_records (descriptor_records inc ws)) \<le> MAX_IDENTITY_DESCRIPTOR_BYTES"
  shows "ws = ws'"
proof -
  have "encodable (descriptor_records inc ws)" "encodable (descriptor_records inc' ws')"
    using assms by (simp_all add: encodable_def size_defs)
  moreover have "low_numbers (descriptor_records i w)" for i w
    by (simp add: descriptor_records_def low_numbers_def got_simps)
  ultimately have "descriptor_records inc ws = descriptor_records inc' ws'"
    using read_message assms(1) by (metis option.inject)
  then have "got_repeated (descriptor_records inc ws) 2 = got_repeated (descriptor_records inc' ws') 2" by simp
  moreover have "got_repeated (descriptor_records i w) 2 = w" for i w
    using got_repeated_field [of 2 w] by (simp add: descriptor_records_def got_repeated_def f_bytes_def)
  ultimately show ?thesis by simp
qed

lemma descriptor_repeat_unreadable:
  assumes "prost_codec E" and "descriptor_new E inc ws = Ok d" and "\<not> distinct ws"
  shows "\<exists>bs. descriptor_write E d = Ok bs \<and> (\<forall>d'. descriptor_read E bs \<noteq> Ok d')"
proof -
  have fp: "from_parts E inc ws = Ok d" using assms(2) by (simp add: descriptor_new_Ok)
  have "length (enc_records (descriptor_records inc ws)) \<le> MAX_IDENTITY_DESCRIPTOR_BYTES"
    using fp from_parts_Ok [OF assms(1)] by blast
  then have "descriptor_read E (enc_records (descriptor_records inc ws)) \<noteq> Ok d'" for d'
    using descriptor_records_inj assms(3) unfolding descriptor_read_Ok [OF assms(1)] valid_ids_def by metis
  with from_parts_writes(1) [OF assms(1) fp] show ?thesis by blast
qed

text \<open>The descriptor of a built raw inception carries what an invitation needs.\<close>

lemma descriptor_of_built:
  assumes "prost_codec E" and "crypto_ok E" and "build_inception E sk kind (RootRaw rk) nonce now = Ok be"
    and "good_raw E sk kind rk nonce"
  shows "\<exists>d. descriptor_new E (be_signed_event be) [] = Ok d \<and> idd_identity d = be_event_id be
    \<and> descriptor_active_key d = Some (ed_public E sk) \<and> idd_declared_kind d = kind
    \<and> embedded_ok E (idd_inception d) (idd_identity d) (ed_public E sk)"
proof -
  let ?d = "\<lparr>idd_inception = be_signed_event be, idd_witnesses = [], idd_identity = be_event_id be,
     idd_declared_kind = kind, idd_root = Raw (ed_public E sk) (reserve_commit E rk)\<rparr>"
  have len: "length (be_signed_event be) \<le> MAX_EVENT_BYTES"
    using build_raw_Ok(1) [OF assms(3)] seal_Ok [OF assms(1)] by blast
  have "length (enc_records (descriptor_records (be_signed_event be) [])) \<le> MAX_IDENTITY_DESCRIPTOR_BYTES"
    using f_bytes_length [of 1 "be_signed_event be"] len by (simp add: descriptor_records_def f_repeated_def size_defs)
  then have "descriptor_new E (be_signed_event be) [] = Ok ?d"
    using raw_inception_starts [OF assms] by (simp add: descriptor_new_Ok from_parts_Ok [OF assms(1)])
  then show ?thesis using built_raw_embedded [OF assms] by (simp add: descriptor_active_key_def)
qed

section \<open>Summaries\<close>

lemma controllers_iff:
  "state_wf s \<Longrightarrow> sp \<in> set (controllers s) \<longleftrightarrow> signs_as (abs_state s) sp (sp_key sp)"
  by (cases sp) (auto simp: controllers_def signs_as_def state_wf_def bt_get_mem)

lemma infallible_Ok [simp]: "infallible x = Ok a \<longleftrightarrow> x = Ok a"
  by (cases x) auto

lemma bundle_summary_sound:
  assumes "prost_codec E" and "crypto_ok E" and "bundle_summary E b = Ok x"
  shows "\<exists>s. fold_events E (ib_events b) = Ok (s, None) \<and> ls_ledger s = Some (is_ledger x)
    \<and> ls_root s = Some (is_root x) \<and> (\<forall>sp. sp \<in> set (is_controllers x) \<longleftrightarrow> signs_as (abs_state s) sp (sp_key sp))
    \<and> is_controllers x \<noteq> [] \<and> proven E (is_invitee x) (is_invitee_key x) \<and> is_invitee x \<noteq> is_ledger x"
proof -
  from assms(3) obtain s h iv where s: "fold_events E (ib_events b) = Ok (s, None)" "ls_head s = Some h"
    "bt_get (ls_invitations s) (hd_event_id h) = Some iv" and x: "ls_ledger s = Some (is_ledger x)"
    "ls_root s = Some (is_root x)" "is_controllers x = controllers s" "is_invitee x = iv_invitee iv"
    "is_invitee_key x = iv_invitee_key iv"
    by (auto simp: bundle_summary_def split: option.splits)
  from fold_events_run [OF s(1) assms(1)] obtain mbs where run: "run_of E (ib_events b) mbs s" by blast
  then have wf: "state_wf s" and inv: "ledger_inv E (abs_state s)"
    using reached_inv assms(2) by (auto simp: run_of_def)
  have "proven E (iv_invitee iv) (iv_invitee_key iv)" "iv_invitee iv \<noteq> is_ledger x"
    using inv s(3) x(1) by (auto simp: ledger_inv_def all_proven_def not_self_def)
  moreover obtain i p where "al_principals (abs_state s) i = Some p" "pr_role p = Controller"
    using inv s(2) by (auto simp: ledger_inv_def controlled_def is_controller_def)
  then have "\<lparr>sp_identity = i, sp_key = pr_active_key p\<rparr> \<in> set (controllers s)"
    using wf by (simp add: controllers_iff signs_as_def)
  then have "controllers s \<noteq> []" by auto
  ultimately show ?thesis using s(1) x controllers_iff [OF wf] by auto
qed

end
