(* ===== verification/Base32.thy ===== *)
theory Base32
  imports Ids_Digests
begin

text \<open>
  The unpadded base32 of RFC 4648, written out bit by bit: the codec the ids of
  \<open>id.rs\<close> are printed with. It provides the contract \<open>base32_codec\<close> for
  any choice of the other externals, so every law that contract names is one a
  strict base32 codec has.
\<close>

section \<open>Numbers as bits, most significant first\<close>

primrec bits_of :: "nat \<Rightarrow> nat \<Rightarrow> bool list" where
  "bits_of 0 n = []"
| "bits_of (Suc k) n = bits_of k (n div 2) @ [odd n]"

definition nat_of_bits :: "bool list \<Rightarrow> nat" where
  "nat_of_bits bs = foldl (\<lambda>a b. 2 * a + of_bool b) 0 bs"

lemma nat_of_bits_snoc [simp]:
  "nat_of_bits [] = 0" "nat_of_bits (bs @ [b]) = 2 * nat_of_bits bs + of_bool b"
  by (simp_all add: nat_of_bits_def)

lemma length_bits_of [simp]: "length (bits_of k n) = k"
  by (induction k arbitrary: n) auto

lemma nat_of_bits_of: "nat_of_bits (bits_of k n) = n mod 2 ^ k"
proof (induction k arbitrary: n)
  case (Suc k)
  have "2 * (n div 2 mod 2 ^ k) + n mod 2 = n mod (2 * 2 ^ k)"
    by (simp add: mod_mult2_eq)
  then show ?case using Suc by (simp add: odd_iff_mod_2_eq_one)
qed simp

lemma bits_of_nat_of_bits: "bits_of (length bs) (nat_of_bits bs) = bs"
  by (induction bs rule: rev_induct) auto

lemma nat_of_bits_less: "nat_of_bits bs < 2 ^ length bs"
  by (induction bs rule: rev_induct) (auto simp: of_bool_def)

section \<open>Full groups of a list\<close>

fun groups :: "nat \<Rightarrow> 'a list \<Rightarrow> 'a list list" where
  "groups k xs = (if k = 0 \<or> length xs < k then [] else take k xs # groups k (drop k xs))"

declare groups.simps [simp del]

lemma groups_concat:
  assumes "0 < k" and "list_all (\<lambda>g. length g = k) gs" and "length r < k"
  shows "groups k (concat gs @ r) = gs"
  using assms(2) by (induction gs) (use assms in \<open>simp_all add: groups.simps\<close>)

lemma concat_groups: "0 < k \<Longrightarrow> concat (groups k xs) = take (k * (length xs div k)) xs"
proof (induction k xs rule: groups.induct)
  case (1 k xs)
  show ?case
  proof (cases "length xs < k")
    case False
    with 1 have "concat (groups k xs) = take k xs @ take (k * (length (drop k xs) div k)) (drop k xs)"
      by (simp add: groups.simps [of k xs])
    also have "\<dots> = take (k + k * ((length xs - k) div k)) xs" by (simp add: take_add)
    also have "k + k * ((length xs - k) div k) = k * (length xs div k)"
      using False 1 by (simp add: le_div_geq)
    finally show ?thesis .
  qed (simp add: groups.simps)
qed

lemma groups_length: "g \<in> set (groups k xs) \<Longrightarrow> length g = k"
proof (induction k xs rule: groups.induct)
  case (1 k xs)
  then show ?case by (auto simp: groups.simps [of k xs] split: if_splits)
qed

section \<open>Symbols\<close>

definition sym :: "nat \<Rightarrow> byte" where
  "sym n = of_nat (if n < 26 then 65 + n else 24 + n)"

definition unsym :: "byte \<Rightarrow> nat" where
  "unsym b = (if is_upper b then unat b - 65 else unat b - 24)"

lemma unat_sym: "n < 32 \<Longrightarrow> unat (sym n) = (if n < 26 then 65 + n else 24 + n)"
  by (simp add: sym_def unat_of_nat)

lemma sym_char: "n < 32 \<Longrightarrow> base32_char (sym n)"
  by (auto simp: base32_char_def is_upper_def unat_sym)

lemma unsym_sym: "n < 32 \<Longrightarrow> unsym (sym n) = n"
  by (auto simp: unsym_def is_upper_def unat_sym)

lemma sym_unsym: "base32_char b \<Longrightarrow> sym (unsym b) = b \<and> unsym b < 32"
  by (rule conjI, rule word_unat_eq_iff [THEN iffD2])
     (auto simp: unsym_def base32_char_def is_upper_def sym_def unat_of_nat unat_byte_less)

section \<open>The codec\<close>

definition byte_bits :: "byte \<Rightarrow> bool list" where "byte_bits b = bits_of 8 (unat b)"
definition bits_byte :: "bool list \<Rightarrow> byte" where "bits_byte bs = of_nat (nat_of_bits bs)"
definition sym_bits :: "byte \<Rightarrow> bool list" where "sym_bits b = bits_of 5 (unsym b)"
definition bits_sym :: "bool list \<Rightarrow> byte" where "bits_sym bs = sym (nat_of_bits bs)"

definition pad5 :: "bool list \<Rightarrow> bool list" where
  "pad5 bits = bits @ replicate ((5 - length bits mod 5) mod 5) False"

definition rfc4648_encode :: "bytes \<Rightarrow> bytes" where
  "rfc4648_encode bs = map bits_sym (groups 5 (pad5 (concat (map byte_bits bs))))"

definition rfc4648_decode :: "bytes \<Rightarrow> bytes option" where
  "rfc4648_decode s =
     (let bits = concat (map sym_bits s);
          left = drop (8 * (length bits div 8)) bits
      in if list_all base32_char s \<and> length left < 5 \<and> True \<notin> set left
         then Some (map bits_byte (groups 8 bits)) else None)"

lemma bits_byte_bits [simp]: "bits_byte (byte_bits b) = b"
  using unat_byte_less [of b] by (simp add: bits_byte_def byte_bits_def nat_of_bits_of)

lemma byte_bits_byte: "length g = 8 \<Longrightarrow> byte_bits (bits_byte g) = g"
  using nat_of_bits_less [of g] bits_of_nat_of_bits [of g]
  by (simp add: bits_byte_def byte_bits_def unat_of_nat)

lemma bits_sym_bits: "base32_char b \<Longrightarrow> bits_sym (sym_bits b) = b"
  using sym_unsym [of b] by (simp add: bits_sym_def sym_bits_def nat_of_bits_of)

lemma sym_bits_sym: "length g = 5 \<Longrightarrow> sym_bits (bits_sym g) = g \<and> base32_char (bits_sym g)"
  using nat_of_bits_less [of g] bits_of_nat_of_bits [of g]
  by (simp add: bits_sym_def sym_bits_def unsym_sym sym_char)

lemma pad_amount:
  assumes "r < 5" and "(n + r) mod 5 = 0"
  shows "(5 - n mod 5) mod 5 = (r :: nat)"
proof -
  have "(n mod 5 + r) mod 5 = 0" using assms(2) by (simp add: mod_add_left_eq)
  moreover have "m + r = 0 \<or> m + r = 5" if "(m + r) mod 5 = 0" and "m < 5" for m
    using that assms(1) by presburger
  ultimately have "n mod 5 + r = 0 \<or> n mod 5 + r = 5" by simp
  then show ?thesis using assms(1) by auto
qed

lemma length_pad5: "length (pad5 bits) mod 5 = 0"
proof -
  have "(n + (5 - n mod 5) mod 5) mod 5 = 0" for n :: nat
  proof -
    have "(n + (5 - n mod 5) mod 5) mod 5 = (n mod 5 + (5 - n mod 5)) mod 5"
      by (metis mod_add_eq mod_mod_trivial)
    also have "n mod 5 + (5 - n mod 5) = 5"
      using mod_less_divisor [of 5 n] by linarith
    finally show ?thesis by simp
  qed
  then show ?thesis by (simp add: pad5_def)
qed

lemma length_concat_same: "(\<And>x. length (f x) = k) \<Longrightarrow> length (concat (map f xs)) = k * length xs"
  by (induction xs) auto

lemma length_byte_bits [simp]: "length (byte_bits b) = 8"
  by (simp add: byte_bits_def)

lemma length_sym_bits [simp]: "length (sym_bits b) = 5"
  by (simp add: sym_bits_def)

lemma map_on_groups: "(\<And>g. length g = k \<Longrightarrow> f g = g) \<Longrightarrow> map f (groups k xs) = groups k xs"
  by (rule map_idI) (auto dest: groups_length)

lemma encode_bits: "concat (map sym_bits (rfc4648_encode bs)) = pad5 (concat (map byte_bits bs))"
proof -
  let ?p = "pad5 (concat (map byte_bits bs))"
  have "concat (map sym_bits (rfc4648_encode bs)) = concat (groups 5 ?p)"
    by (simp add: rfc4648_encode_def map_on_groups [of 5 "sym_bits \<circ> bits_sym"] sym_bits_sym)
  also have "\<dots> = ?p"
    using length_pad5 [of "concat (map byte_bits bs)"]
    by (simp add: concat_groups mod_0_imp_dvd dvd_mult_div_cancel)
  finally show ?thesis .
qed

lemma rfc4648_decode_encode: "rfc4648_decode (rfc4648_encode bs) = Some bs"
proof -
  define r where "r = (5 - 8 * length bs mod 5) mod (5 :: nat)"
  define bits where "bits = concat (map byte_bits bs)"
  have r: "r < 5" by (simp add: r_def)
  have len: "length bits = 8 * length bs" by (simp add: bits_def length_concat_same)
  have pad: "pad5 bits = bits @ replicate r False" by (simp add: pad5_def len r_def)
  have chars: "list_all base32_char (rfc4648_encode bs)"
    by (auto simp: rfc4648_encode_def list_all_iff sym_bits_sym dest: groups_length)
  have left: "drop (8 * (length (pad5 bits) div 8)) (pad5 bits) = replicate r False"
    and left_less: "length (pad5 bits) - 8 * (length (pad5 bits) div 8) < 5"
    using r by (simp_all add: pad len)
  have "groups 8 (pad5 bits) = map byte_bits bs"
    using r unfolding pad by (subst bits_def, intro groups_concat) (auto simp: list_all_iff)
  then show ?thesis
    using chars left left_less
    by (simp add: rfc4648_decode_def encode_bits bits_def [symmetric] Let_def comp_def)
qed

lemma rfc4648_encode_decode:
  assumes "rfc4648_decode s = Some bs"
  shows "rfc4648_encode bs = s"
proof -
  define bits where "bits = concat (map sym_bits s)"
  define q where "q = length bits div 8"
  define r where "r = length bits mod 8"
  from assms have chars: "list_all base32_char s"
    and left: "length (drop (8 * q) bits) < 5" "True \<notin> set (drop (8 * q) bits)"
    and bs: "bs = map bits_byte (groups 8 bits)"
    by (auto simp: rfc4648_decode_def bits_def q_def Let_def split: if_splits)
  have len: "length bits = 5 * length s" by (simp add: bits_def length_concat_same)
  have lr: "length bits = 8 * q + r" by (simp add: q_def r_def)
  have r5: "r < 5" using left(1) lr by simp
  have "concat (map byte_bits bs) = take (8 * q) bits"
    using map_on_groups [of 8 "byte_bits \<circ> bits_byte" bits]
    by (simp add: bs byte_bits_byte concat_groups q_def)
  moreover have "pad5 (take (8 * q) bits) = take (8 * q) bits @ replicate r False"
  proof -
    have "(8 * q + r) mod 5 = 0" using len lr by (metis mod_mult_self1_is_0)
    with r5 have "(5 - (8 * q) mod 5) mod 5 = r" by (rule pad_amount)
    then show ?thesis using lr by (simp add: pad5_def)
  qed
  moreover have "drop (8 * q) bits = replicate r False"
  proof (rule replicate_eqI)
    show "y = False" if "y \<in> set (drop (8 * q) bits)" for y
      using that left(2) by (cases y) auto
  qed (use lr in simp)
  ultimately have "pad5 (concat (map byte_bits bs)) = bits"
    by (metis append_take_drop_id)
  then have "pad5 (concat (map byte_bits bs)) = concat (map sym_bits s)"
    by (simp add: bits_def)
  then have "rfc4648_encode bs = map bits_sym (map sym_bits s)"
    using groups_concat [of 5 "map sym_bits s" "[]"]
    by (simp add: rfc4648_encode_def list_all_iff)
  also have "\<dots> = s"
    using chars by (simp add: map_idI list_all_iff bits_sym_bits)
  finally show ?thesis .
qed

lemma length_groups: "0 < k \<Longrightarrow> length (groups k xs) = length xs div k"
proof (induction k xs rule: groups.induct)
  case (1 k xs)
  then show ?case by (auto simp: groups.simps [of k xs] le_div_geq)
qed

lemma rfc4648_length: "length bs = 32 \<Longrightarrow> length (rfc4648_encode bs) = 52"
  by (simp add: rfc4648_encode_def length_groups pad5_def length_concat_same)

lemma rfc4648_alphabet: "list_all base32_char (rfc4648_encode bs)"
  by (auto simp: rfc4648_encode_def list_all_iff sym_bits_sym dest: groups_length)

definition with_base32 :: "env \<Rightarrow> env" where
  "with_base32 E = E\<lparr>base32_encode := rfc4648_encode, base32_decode := rfc4648_decode\<rparr>"

interpretation rfc: base32_codec "with_base32 E"
  by unfold_locales
     (auto simp: with_base32_def rfc4648_decode_encode rfc4648_encode_decode rfc4648_length
       rfc4648_alphabet)

end
