(* ===== verification/Link.thy ===== *)
theory Link
  imports Base32
begin

text \<open>
  The \<open>mabel://\<close> link, \<open>crates/mabel-core/src/link.rs\<close>: the parser, the builder
  and the printer. A \<open>&str\<close> is its UTF-8 bytes; each refusal is a constructor that
  carries the clause of the source as \<open>clause\<close>. The lemmas show that printing and
  parsing are inverse, and that a parsed link always satisfies the rules the
  builder enforces.
\<close>

section \<open>Constants and refusals\<close>

definition LINK_PREFIX :: bytes where "LINK_PREFIX = lit ''mabel://''"
definition LINK_ENDPOINTS_KEY :: bytes where "LINK_ENDPOINTS_KEY = lit ''endpoints''"
definition MAX_LINK_ENDPOINTS :: nat where "MAX_LINK_ENDPOINTS = 4"

datatype invalid_link =
    Whitespace | NotAscii | Percent | Fragment | Scheme | Userinfo | Port | Authority | Path
  | EmptyQuery | QueryKey | RepeatedKey | NoEndpoint | EmptyEndpoint | TooManyEndpoints
  | DuplicateEndpoint | EndpointCodec | EndpointPoint

fun clause :: "invalid_link \<Rightarrow> string" where
  "clause Whitespace = ''it holds whitespace''"
| "clause NotAscii = ''it holds a character outside ASCII''"
| "clause Percent = ''it holds percent-encoding''"
| "clause Fragment = ''it holds a fragment''"
| "clause Scheme = ''it does not begin with mabel://''"
| "clause Userinfo = ''the authority holds userinfo''"
| "clause Port = ''the authority holds a port''"
| "clause Authority = ''the authority is not one identity id''"
| "clause Path = ''it holds a path segment''"
| "clause EmptyQuery = ''the query is empty''"
| "clause QueryKey = ''the query holds a key other than endpoints''"
| "clause RepeatedKey = ''the query holds endpoints more than once''"
| "clause NoEndpoint = ''endpoints names nothing''"
| "clause EmptyEndpoint = ''endpoints holds an empty element''"
| "clause TooManyEndpoints = ''endpoints names more than 4 endpoints, the link cap''"
| "clause DuplicateEndpoint = ''endpoints names one endpoint twice''"
| "clause EndpointCodec = ''an endpoint is not 52 base32 characters under the id codec''"
| "clause EndpointPoint = ''an endpoint does not decompress to an ed25519 point''"

type_synonym 'a link_result = "(invalid_link, 'a) outcome"

record mabel_link =
  ml_identity :: identity_id
  ml_endpoints :: "public_key list"

definition b_percent :: byte where "b_percent = 37"
definition b_hash :: byte where "b_hash = 35"
definition b_slash :: byte where "b_slash = 47"
definition b_query :: byte where "b_query = 63"
definition b_at :: byte where "b_at = 64"
definition b_colon :: byte where "b_colon = 58"
definition b_amp :: byte where "b_amp = 38"
definition b_equals :: byte where "b_equals = 61"
definition b_comma :: byte where "b_comma = 44"

lemmas byte_defs = b_percent_def b_hash_def b_slash_def b_query_def b_at_def b_colon_def b_amp_def
  b_equals_def b_comma_def

section \<open>Pieces\<close>

definition is_char_boundary :: "bytes \<Rightarrow> nat \<Rightarrow> bool" where
  "is_char_boundary s n \<longleftrightarrow> n = length s \<or> n < length s \<and> \<not> is_cont (s ! n)"

definition strip_prefix_ignore_case :: "bytes \<Rightarrow> bytes \<Rightarrow> bytes option" where
  "strip_prefix_ignore_case input prefix =
     (if \<not> is_char_boundary input (length prefix) then None
      else if eq_ignore_case (take (length prefix) input) prefix
      then Some (drop (length prefix) input) else None)"

definition render_id :: "env \<Rightarrow> bytes \<Rightarrow> bytes" where
  "render_id E bs = map to_lower (base32_encode E bs)"

definition decode_id :: "env \<Rightarrow> bytes \<Rightarrow> bytes option" where
  "decode_id E t =
     (if length t \<noteq> ID_STR_LEN then None
      else Option.bind (base32_decode E (map to_upper t)) (\<lambda>bs.
        if length bs = ID_BYTES then Some bs else None))"

definition parse_endpoint :: "env \<Rightarrow> bytes \<Rightarrow> public_key link_result" where
  "parse_endpoint E t =
     obind (ok_or (decode_id E t) EndpointCodec) (\<lambda>bs.
     if key_is_point E bs then Ok bs else Err EndpointPoint)"

fun parse_endpoints_loop :: "env \<Rightarrow> public_key list \<Rightarrow> bytes list \<Rightarrow> public_key list link_result" where
  "parse_endpoints_loop E eps [] = Ok eps"
| "parse_endpoints_loop E eps (element # elements) =
     (if element = [] then Err EmptyEndpoint
      else
        obind (parse_endpoint E element) (\<lambda>endpoint.
        if endpoint \<in> set eps then Err DuplicateEndpoint
        else if length eps = MAX_LINK_ENDPOINTS then Err TooManyEndpoints
        else parse_endpoints_loop E (eps @ [endpoint]) elements))"

definition parse_endpoints :: "env \<Rightarrow> bytes \<Rightarrow> public_key list link_result" where
  "parse_endpoints E v =
     (if v = [] then Err NoEndpoint else parse_endpoints_loop E [] (split_on b_comma v))"

fun split_once :: "'a \<Rightarrow> 'a list \<Rightarrow> ('a list \<times> 'a list) option" where
  "split_once c [] = None"
| "split_once c (x # xs) =
     (if x = c then Some ([], xs) else map_option (\<lambda>(a, b). (x # a, b)) (split_once c xs))"

fun parse_pairs :: "env \<Rightarrow> public_key list option \<Rightarrow> bytes list \<Rightarrow> public_key list option link_result" where
  "parse_pairs E eps [] = Ok eps"
| "parse_pairs E eps (pair # pairs) =
     obind (ok_or (split_once b_equals pair) QueryKey) (\<lambda>(key, v).
     if \<not> eq_ignore_case key LINK_ENDPOINTS_KEY then Err QueryKey
     else if eps \<noteq> None then Err RepeatedKey
     else obind (parse_endpoints E v) (\<lambda>es. parse_pairs E (Some es) pairs))"

definition strip_slash :: "bytes \<Rightarrow> bytes" where
  "strip_slash t = (if t \<noteq> [] \<and> hd t = b_slash then tl t else t)"

definition query_of :: "bytes \<Rightarrow> bytes option link_result" where
  "query_of tail =
     (let q = strip_slash tail in
      if q = [] then Ok None
      else if hd q = b_query then Ok (Some (tl q))
      else Err Path)"

definition query_endpoints :: "env \<Rightarrow> bytes option \<Rightarrow> public_key list link_result" where
  "query_endpoints E query =
     (case query of
        None \<Rightarrow> Ok []
      | Some q \<Rightarrow>
          if q = [] then Err EmptyQuery
          else obind (parse_pairs E None (split_on b_amp q)) (\<lambda>eps.
            Ok (case eps of None \<Rightarrow> [] | Some es \<Rightarrow> es)))"

section \<open>Building, parsing, printing\<close>

definition link_new :: "identity_id \<Rightarrow> public_key list \<Rightarrow> mabel_link link_result" where
  "link_new ident eps =
     (if length eps > MAX_LINK_ENDPOINTS then Err TooManyEndpoints
      else if has_repeat eps then Err DuplicateEndpoint
      else Ok \<lparr>ml_identity = ident, ml_endpoints = eps\<rparr>)"

definition link_parse :: "env \<Rightarrow> bytes \<Rightarrow> mabel_link link_result" where
  "link_parse E input =
     (if list_ex is_whitespace (chars input) then Err Whitespace
      else if \<not> is_ascii input then Err NotAscii
      else if b_percent \<in> set input then Err Percent
      else if b_hash \<in> set input then Err Fragment
      else
        obind (ok_or (strip_prefix_ignore_case input LINK_PREFIX) Scheme) (\<lambda>rest.
        let authority = takeWhile (\<lambda>b. b \<noteq> b_slash \<and> b \<noteq> b_query) rest;
            tail = dropWhile (\<lambda>b. b \<noteq> b_slash \<and> b \<noteq> b_query) rest in
        if b_at \<in> set authority then Err Userinfo
        else if b_colon \<in> set authority then Err Port
        else
          obind (map_err (\<lambda>_. Authority) (id_from_str E authority)) (\<lambda>ident.
          obind (query_of tail) (\<lambda>query.
          obind (query_endpoints E query) (\<lambda>eps.
          Ok \<lparr>ml_identity = ident, ml_endpoints = eps\<rparr>)))))"

fun contains_sub :: "bytes \<Rightarrow> bytes \<Rightarrow> bool" where
  "contains_sub [] p = (p = [])"
| "contains_sub (x # xs) p = (take (length p) (x # xs) = p \<or> contains_sub xs p)"

definition looks_like_link :: "bytes \<Rightarrow> bool" where
  "looks_like_link input \<longleftrightarrow>
     contains_sub input (lit ''://'') \<or> strip_prefix_ignore_case input (lit ''mabel:'') \<noteq> None"

fun endpoint_text :: "env \<Rightarrow> nat \<Rightarrow> public_key list \<Rightarrow> bytes" where
  "endpoint_text E index [] = []"
| "endpoint_text E index (endpoint # eps) =
     (if index = 0 then b_query # LINK_ENDPOINTS_KEY @ [b_equals] else [b_comma])
     @ render_id E endpoint @ endpoint_text E (index + 1) eps"

definition link_display :: "env \<Rightarrow> mabel_link \<Rightarrow> bytes" where
  "link_display E l =
     LINK_PREFIX @ id_display E (ml_identity l) @ endpoint_text E 0 (ml_endpoints l)"

section \<open>Facts about the pieces\<close>

lemma id_text: "render_id E i = id_display E i"
  by (simp add: render_id_def id_display_def)

lemma decode_id_iff: "decode_id E t = Some i \<longleftrightarrow> id_from_str E t = Ok i"
  by (auto simp: decode_id_def id_from_str_def bind_eq_Some_conv size_defs)

definition id_char :: "byte \<Rightarrow> bool" where
  "id_char b \<longleftrightarrow> is_lower b \<or> 50 \<le> unat b \<and> unat b \<le> 55"

lemma lower_base32: "base32_char b \<Longrightarrow> id_char (to_lower b)"
  by (auto simp: base32_char_def id_char_def to_lower_def is_upper_def is_lower_def unat_plus32)

lemma ascii_chars: "is_ascii s \<Longrightarrow> utf8_decode s = Some (map unat s)"
  by (induction s) (auto simp: is_ascii_def utf8_decode.simps(2) Let_def)

lemma ascii_no_whitespace:
  "is_ascii s \<Longrightarrow> list_ex is_whitespace (chars s) \<longleftrightarrow> (\<exists>b\<in>set s. is_whitespace (unat b))"
  by (simp add: chars_def ascii_chars list_ex_iff)

text \<open>The bytes a printed link is made of.\<close>

definition link_byte :: "byte \<Rightarrow> bool" where
  "link_byte b \<longleftrightarrow> id_char b \<or> unat b \<in> {44, 47, 58, 61, 63}"

lemma link_byte_plain:
  "link_byte b \<Longrightarrow> unat b < 128 \<and> \<not> is_whitespace (unat b) \<and> b \<noteq> b_percent \<and> b \<noteq> b_hash \<and> b \<noteq> b_amp"
  by (auto simp: link_byte_def id_char_def is_lower_def is_whitespace_def byte_defs)

lemma id_char_not:
  "id_char b \<Longrightarrow> b \<noteq> b_slash \<and> b \<noteq> b_query \<and> b \<noteq> b_at \<and> b \<noteq> b_colon \<and> b \<noteq> b_comma \<and> b \<noteq> b_equals
     \<and> b \<noteq> b_amp"
  by (auto simp: id_char_def is_lower_def byte_defs)

lemma link_bytes:
  "link_byte b_comma" "link_byte b_query" "link_byte b_equals" "\<not> id_char b_amp" "b_amp \<noteq> b_comma"
  "b_amp \<noteq> b_equals" "id_char b \<Longrightarrow> link_byte b"
  by (simp_all add: link_byte_def byte_defs id_char_def is_lower_def)

lemma lit_parts:
  "list_all link_byte LINK_PREFIX" "list_all link_byte LINK_ENDPOINTS_KEY" "list_all id_char LINK_ENDPOINTS_KEY"
  "length LINK_PREFIX = 8" "map to_lower LINK_PREFIX = LINK_PREFIX"
  by (simp_all add: LINK_PREFIX_def LINK_ENDPOINTS_KEY_def link_byte_def id_char_def is_lower_def
      to_lower_def is_upper_def)

lemma split_once_at: "c \<notin> set xs \<Longrightarrow> split_once c (xs @ c # ys) = Some (xs, ys)"
  by (induction xs) auto

definition values_text :: "env \<Rightarrow> public_key list \<Rightarrow> bytes" where
  "values_text E eps = concat (map (\<lambda>e. b_comma # render_id E e) eps)"

lemma endpoint_text_later: "0 < n \<Longrightarrow> endpoint_text E n eps = values_text E eps"
  by (induction eps arbitrary: n) (auto simp: values_text_def)

lemma endpoint_text_first:
  "endpoint_text E 0 (e # eps) = b_query # LINK_ENDPOINTS_KEY @ b_equals # render_id E e @ values_text E eps"
  by (simp add: endpoint_text_later)

text \<open>The endpoints a link may carry.\<close>

definition link_wf :: "env \<Rightarrow> mabel_link \<Rightarrow> bool" where
  "link_wf E l \<longleftrightarrow> length (ml_identity l) = 32 \<and> length (ml_endpoints l) \<le> MAX_LINK_ENDPOINTS
     \<and> distinct (ml_endpoints l) \<and> list_all (\<lambda>e. length e = 32 \<and> key_is_point E e) (ml_endpoints l)"

lemma link_new_Ok:
  "link_new i eps = Ok l \<longleftrightarrow> l = \<lparr>ml_identity = i, ml_endpoints = eps\<rparr> \<and> length eps \<le> MAX_LINK_ENDPOINTS
     \<and> distinct eps"
  by (auto simp: link_new_def)

lemma parse_endpoint_Ok:
  "parse_endpoint E t = Ok k \<longleftrightarrow> id_from_str E t = Ok k \<and> key_is_point E k"
  by (auto simp: parse_endpoint_def decode_id_iff)

lemma id_from_str_length: "id_from_str E t = Ok k \<Longrightarrow> length k = 32"
  by (auto simp: id_from_str_def split: if_splits)

lemma parse_endpoints_loop_sound:
  assumes "parse_endpoints_loop E eps els = Ok out" and "distinct eps" and "length eps \<le> MAX_LINK_ENDPOINTS"
    and "list_all (\<lambda>e. length e = 32 \<and> key_is_point E e) eps"
  shows "distinct out \<and> length out \<le> MAX_LINK_ENDPOINTS
    \<and> list_all (\<lambda>e. length e = 32 \<and> key_is_point E e) out"
  using assms
  by (induction E eps els rule: parse_endpoints_loop.induct)
     (auto simp: parse_endpoint_Ok dest: id_from_str_length split: if_splits)

lemma parse_pairs_sound:
  assumes "parse_pairs E eps pairs = Ok (Some out)"
    and "\<And>es. eps = Some es \<Longrightarrow> distinct es \<and> length es \<le> MAX_LINK_ENDPOINTS
        \<and> list_all (\<lambda>e. length e = 32 \<and> key_is_point E e) es"
  shows "distinct out \<and> length out \<le> MAX_LINK_ENDPOINTS
    \<and> list_all (\<lambda>e. length e = 32 \<and> key_is_point E e) out"
  using assms
proof (induction pairs arbitrary: eps)
  case (Cons pair pairs)
  from Cons.prems(1) obtain v es where "parse_endpoints E v = Ok es" "parse_pairs E (Some es) pairs = Ok (Some out)"
    by (auto split: if_splits)
  moreover from this(1) have "distinct es \<and> length es \<le> MAX_LINK_ENDPOINTS
      \<and> list_all (\<lambda>e. length e = 32 \<and> key_is_point E e) es"
    using parse_endpoints_loop_sound [of E "[]"] by (auto simp: parse_endpoints_def split: if_splits)
  ultimately show ?case using Cons.IH [of "Some es"] by auto
qed auto

lemma link_parse_sound:
  assumes "link_parse E input = Ok l"
  shows "link_wf E l"
proof -
  from assms obtain a query where id: "id_from_str E a = Ok (ml_identity l)"
    and eps: "query_endpoints E query = Ok (ml_endpoints l)"
    by (auto simp: link_parse_def Let_def split: if_splits)
  from eps have "distinct (ml_endpoints l) \<and> length (ml_endpoints l) \<le> MAX_LINK_ENDPOINTS
      \<and> list_all (\<lambda>e. length e = 32 \<and> key_is_point E e) (ml_endpoints l)"
    using parse_pairs_sound [of E None]
    by (fastforce simp: query_endpoints_def split: option.splits if_splits)
  then show ?thesis using id_from_str_length [OF id] by (simp add: link_wf_def)
qed

section \<open>Printing and parsing\<close>

context base32_codec
begin

lemma id_display_text:
  "length i = 32 \<Longrightarrow> length (id_display E i) = 52 \<and> list_all id_char (id_display E i)"
  using base32_alphabet [of i]
  by (auto simp: id_display_def base32_length list_all_iff lower_base32)

lemma id_display_bytes: "length i = 32 \<Longrightarrow> b \<in> set (id_display E i) \<Longrightarrow> id_char b"
  using id_display_text [of i] by (simp add: list_all_iff)

lemma id_display_not_Nil: "length i = 32 \<Longrightarrow> id_display E i \<noteq> []"
  using id_display_text [of i] by auto

lemma parse_endpoints_loop_display:
  assumes "distinct (acc @ eps)" and "length (acc @ eps) \<le> MAX_LINK_ENDPOINTS"
    and "list_all (\<lambda>e. length e = 32 \<and> key_is_point E e) eps"
  shows "parse_endpoints_loop E acc (map (render_id E) eps) = Ok (acc @ eps)"
  using assms
proof (induction eps arbitrary: acc)
  case (Cons e eps)
  then have "parse_endpoint E (render_id E e) = Ok e"
    using id_round_trip [of e] by (simp add: parse_endpoint_Ok id_text)
  then show ?case using Cons id_display_not_Nil [of e] by (simp add: id_text)
qed simp

lemma split_values:
  assumes "length e = 32" and "list_all (\<lambda>e. length e = 32) eps"
  shows "split_on b_comma (render_id E e @ values_text E eps) = map (render_id E) (e # eps)"
  using assms
proof (induction eps arbitrary: e)
  case Nil
  then show ?case using id_display_bytes [of e] id_char_not by (auto simp: values_text_def id_text intro!: split_on_id)
next
  case (Cons x eps)
  have "b_comma \<notin> set (render_id E e)"
    using id_display_bytes [of e] id_char_not Cons.prems(1) by (auto simp: id_text)
  then have "split_on b_comma (render_id E e @ b_comma # (render_id E x @ values_text E eps))
      = render_id E e # split_on b_comma (render_id E x @ values_text E eps)"
    by (rule split_on_append)
  then show ?case using Cons by (simp add: values_text_def)
qed

lemma values_bytes:
  assumes "list_all (\<lambda>e. length e = 32) eps" and "b \<in> set (values_text E eps)"
  shows "id_char b \<or> b = b_comma"
  using assms by (induction eps) (auto simp: values_text_def id_text dest: id_display_bytes)

lemma parse_query_display:
  assumes "link_wf E l" and "ml_endpoints l = e # eps"
  shows "parse_pairs E None (split_on b_amp (LINK_ENDPOINTS_KEY @ b_equals # render_id E e @ values_text E eps))
    = Ok (Some (e # eps))"
proof -
  let ?v = "render_id E e @ values_text E eps"
  let ?q = "LINK_ENDPOINTS_KEY @ b_equals # ?v"
  have e: "length e = 32" and es: "list_all (\<lambda>e. length e = 32) eps"
    and ok: "distinct (e # eps)" "length (e # eps) \<le> MAX_LINK_ENDPOINTS"
      "list_all (\<lambda>e. length e = 32 \<and> key_is_point E e) (e # eps)"
    using assms by (auto simp: link_wf_def list_all_iff)
  have key: "list_all id_char LINK_ENDPOINTS_KEY" by (rule lit_parts)
  have "b_amp \<notin> set ?v"
    using values_bytes [OF es] id_display_bytes [OF e] link_bytes by (auto simp: id_text)
  then have "b_amp \<notin> set ?q" using key link_bytes by (auto simp: list_all_iff)
  then have "split_on b_amp ?q = [?q]" by (rule split_on_id)
  moreover have "b_equals \<notin> set LINK_ENDPOINTS_KEY" using key id_char_not by (auto simp: list_all_iff)
  then have "split_once b_equals ?q = Some (LINK_ENDPOINTS_KEY, ?v)" by (rule split_once_at)
  moreover have "parse_endpoints E ?v = Ok (e # eps)"
    using split_values [OF e es] parse_endpoints_loop_display [of "[]" "e # eps"] ok
      id_display_not_Nil [OF e] by (simp add: parse_endpoints_def id_text)
  ultimately show ?thesis by (simp add: eq_ignore_case_def)
qed

lemma display_bytes:
  assumes "link_wf E l"
  shows "list_all link_byte (link_display E l)"
proof -
  have id: "list_all link_byte (id_display E i)" if "length i = 32" for i
    using id_display_bytes [OF that] by (auto simp: list_all_iff link_byte_def)
  have vals: "list_all link_byte (values_text E eps)" if "list_all (\<lambda>e. length e = 32) eps" for eps
    using values_bytes [OF that] link_bytes by (auto simp: list_all_iff)
  have "list_all link_byte (endpoint_text E 0 (ml_endpoints l))"
  proof (cases "ml_endpoints l")
    case (Cons e eps)
    then have "length e = 32" "list_all (\<lambda>e. length e = 32) eps"
      using assms by (auto simp: link_wf_def list_all_iff)
    then show ?thesis
      using id [of e] vals [of eps] lit_parts(2) unfolding Cons endpoint_text_first
      by (simp add: id_text link_bytes)
  qed simp
  then show ?thesis using assms id [of "ml_identity l"] lit_parts(1) by (simp add: link_display_def link_wf_def)
qed

lemma link_round_trip:
  assumes "link_wf E l"
  shows "link_parse E (link_display E l) = Ok l"
proof -
  let ?s = "link_display E l"
  let ?tail = "endpoint_text E 0 (ml_endpoints l)"
  let ?P = "\<lambda>b. b \<noteq> b_slash \<and> b \<noteq> b_query"
  have bytes: "\<And>b. b \<in> set ?s \<Longrightarrow> link_byte b" using display_bytes [OF assms] by (simp add: list_all_iff)
  have ascii: "is_ascii ?s" using bytes link_byte_plain by (auto simp: is_ascii_def list_all_iff)
  have plain: "\<not> list_ex is_whitespace (chars ?s)" "b_percent \<notin> set ?s" "b_hash \<notin> set ?s"
    using bytes link_byte_plain by (auto simp: ascii_no_whitespace [OF ascii])
  have id32: "length (ml_identity l) = 32" using assms by (simp add: link_wf_def)
  note idc = id_display_bytes [OF id32]
  have strip: "strip_prefix_ignore_case ?s LINK_PREFIX = Some (id_display E (ml_identity l) @ ?tail)"
  proof -
    obtain c r where c: "id_display E (ml_identity l) = c # r" using id_display_not_Nil [OF id32] by (cases "id_display E (ml_identity l)") auto
    then have "id_char c" using idc by simp
    then have "\<not> is_cont c" by (auto simp: id_char_def is_cont_def is_lower_def)
    then show ?thesis
      by (simp add: strip_prefix_ignore_case_def is_char_boundary_def link_display_def c nth_append
          eq_ignore_case_def)
  qed
  have tail: "?tail = [] \<or> hd ?tail = b_query" by (cases "ml_endpoints l") (auto simp: endpoint_text_first)
  have auth: "takeWhile ?P (id_display E (ml_identity l) @ ?tail) = id_display E (ml_identity l)"
    "dropWhile ?P (id_display E (ml_identity l) @ ?tail) = ?tail"
    using idc id_char_not tail by (auto simp: takeWhile_append2 dropWhile_append2 takeWhile_eq_Nil_iff
        dropWhile_eq_self_iff)
  have noauth: "b_at \<notin> set (id_display E (ml_identity l))" "b_colon \<notin> set (id_display E (ml_identity l))"
    using idc id_char_not by blast+
  note ident = id_round_trip [OF id32]
  show ?thesis
  proof (cases "ml_endpoints l")
    case Nil
    then have "takeWhile ?P (id_display E (ml_identity l)) = id_display E (ml_identity l)"
      "dropWhile ?P (id_display E (ml_identity l)) = []"
      using auth by simp_all
    with Nil ascii plain strip noauth ident show ?thesis
      unfolding link_parse_def by (simp add: query_of_def query_endpoints_def strip_slash_def del: takeWhile_eq_all_conv)
  next
    case (Cons e eps)
    have "b_query \<noteq> b_slash" by (simp add: byte_defs)
    then have "query_of ?tail = Ok (Some (LINK_ENDPOINTS_KEY @ b_equals # render_id E e @ values_text E eps))"
      unfolding Cons endpoint_text_first by (simp add: query_of_def strip_slash_def Let_def)
    then show ?thesis
      using ascii plain strip auth noauth ident parse_query_display [OF assms Cons] Cons
      by (simp add: link_parse_def query_endpoints_def Let_def)
  qed
qed

end

end
