(* ===== verification/Reference_Env.thy ===== *)
theory Reference_Env
  imports Fork Artifacts Link
begin

text \<open>
  One concrete choice of the externals, on which the development's hypotheses hold
  and its definitions compute: the base32 and protobuf codecs of \<open>Base32.thy\<close>
  and \<open>Proto_Codec.thy\<close>, a checksum in the place of BLAKE3, and signatures that
  name the key and the checksum of the message in the place of ed25519. Every
  concrete input of the development is evaluated here.
\<close>

section \<open>The externals\<close>

definition ref_hash :: "bytes \<Rightarrow> bytes" where
  "ref_hash bs = foldl (\<lambda>a b. 3 * a + b) 7 bs # take 31 (rev bs @ replicate 31 0)"

definition ref_public :: "bytes \<Rightarrow> public_key" where
  "ref_public sk = take 31 (sk @ replicate 31 0) @ [0]"

definition ref_sign :: "bytes \<Rightarrow> bytes \<Rightarrow> bytes" where
  "ref_sign sk msg = ref_public sk @ ref_hash msg"

definition ref_verify :: "public_key \<Rightarrow> bytes \<Rightarrow> bytes \<Rightarrow> bool" where
  "ref_verify key msg signature \<longleftrightarrow> signature = key @ ref_hash msg"

definition ref_point :: "bytes \<Rightarrow> bool" where
  "ref_point k \<longleftrightarrow> length k = 32 \<and> last k = 0"

definition ref_crypto :: env where
  "ref_crypto = \<lparr>blake3 = ref_hash, key_is_point = ref_point, ed_verify = ref_verify,
     ed_public = ref_public, ed_sign = ref_sign, base32_encode = \<lambda>_. [], base32_decode = \<lambda>_. None,
     encode_signed_event = \<lambda>_. [], encode_event_body = \<lambda>_. [], encode_acceptance = \<lambda>_. [],
     encode_profile_update = \<lambda>_. [], encode_invitation_bundle = \<lambda>_. [],
     encode_acceptance_file = \<lambda>_. [], encode_identity_descriptor = \<lambda>_. [],
     decode_signed_event = \<lambda>_. None, decode_event_body = \<lambda>_. None, decode_acceptance = \<lambda>_. None\<rparr>"

definition ref_env :: env where
  "ref_env = with_proto3 (with_base32 ref_crypto)"

lemma ref_prost: "prost_codec ref_env"
  unfolding ref_env_def by (rule proto3.prost_codec_axioms)

lemma ref_base32: "base32_codec ref_env"
proof -
  have "ref_env = with_base32 (with_proto3 ref_crypto)"
    by (simp add: ref_env_def with_base32_def with_proto3_def)
  then show ?thesis using rfc.base32_codec_axioms by metis
qed

lemma ref_lengths [simp]: "length (ref_hash bs) = 32" "length (ref_public sk) = 32" "last (ref_public sk) = 0"
  by (simp_all add: ref_hash_def ref_public_def min_def)

lemma ref_crypto_ok: "crypto_ok ref_env"
  by (simp add: crypto_ok_def ref_env_def with_proto3_def with_base32_def ref_crypto_def
      ref_sign_def ref_verify_def ref_point_def)

lemmas ref_ok = ref_prost ref_crypto_ok

lemma ref_sel [simp]:
  "ed_public ref_env = ref_public" "blake3 ref_env = ref_hash" "key_is_point ref_env = ref_point"
  "ed_sign ref_env = ref_sign" "ed_verify ref_env = ref_verify"
  by (simp_all add: ref_env_def with_proto3_def with_base32_def ref_crypto_def)

section \<open>Sample keys and events\<close>

definition alice :: bytes where "alice = replicate 32 1"
definition bob :: bytes where "bob = replicate 32 2"
definition reserve :: bytes where "reserve = replicate 32 9"
definition nonce :: bytes where "nonce = replicate 16 3"

definition is_ok :: "('e, 'a) outcome \<Rightarrow> bool" where
  "is_ok r = (case r of Ok _ \<Rightarrow> True | _ \<Rightarrow> False)"

lemma is_ok_val: "is_ok r \<Longrightarrow> r = Ok (ok_val r)"
  by (cases r) (auto simp: is_ok_def)

definition alice_inception :: built_event where
  "alice_inception = ok_val (build_inception ref_env alice Person (RootRaw reserve) nonce 1000)"

definition bob_inception :: built_event where
  "bob_inception = ok_val (build_inception ref_env bob Person (RootRaw reserve) nonce 1000)"

abbreviation alice_id :: identity_id where "alice_id \<equiv> be_event_id alice_inception"
abbreviation bob_id :: identity_id where "bob_id \<equiv> be_event_id bob_inception"

definition alice_head :: head where
  "alice_head = \<lparr>hd_seq = 0, hd_event_id = alice_id, hd_timestamp_ms = 1000\<rparr>"

definition alice_state :: ledger_state where
  "alice_state = empty_state\<lparr>ls_declared_kind := Some Person,
      ls_root := Some (Raw (ref_public alice) (reserve_commit ref_env reserve)), ls_ledger := Some alice_id,
      ls_principals := [(alice_id, \<lparr>pr_role = Controller, pr_active_key = ref_public alice\<rparr>)],
      ls_head := Some alice_head\<rparr>"

lemma alice_built: "build_inception ref_env alice Person (RootRaw reserve) nonce 1000 = Ok alice_inception"
  unfolding alice_inception_def by (rule is_ok_val) code_simp

lemma bob_built: "build_inception ref_env bob Person (RootRaw reserve) nonce 1000 = Ok bob_inception"
  unfolding bob_inception_def by (rule is_ok_val) code_simp

lemma good_samples: "good_raw ref_env alice Person reserve nonce" "good_raw ref_env bob Person reserve nonce"
  by code_simp+

lemma sample_ids: "alice_id \<noteq> bob_id" "length alice_id = 32" "length bob_id = 32"
  by code_simp+

lemma alice_starts: "apply_event ref_env empty_state (be_signed_event alice_inception) = Ok alice_state"
  using raw_inception_starts [OF ref_ok alice_built good_samples(1)]
  by (simp add: alice_state_def alice_head_def)

lemma alice_fold: "fold_events ref_env [be_signed_event alice_inception] = Ok (alice_state, None)"
  using alice_starts by (simp add: fold_events_def)

lemma alice_may_append: "may_append ref_env alice_state alice alice_id alice_head"
  using sample_ids
  by (simp add: may_append_def alice_state_def alice_head_def state_wf_def bt_wf_def empty_state_def
      authorized_signer_def signing_principal_for_def bt_find_def)

section \<open>Sample appends\<close>

definition alice_at :: position where "alice_at = position_at_head alice_id alice_head"

definition alice_trusts_bob :: built_event where
  "alice_trusts_bob = ok_val (build_trust_attestation ref_env alice alice_at bob_id 1001)"

lemma alice_trusts_bob_built:
  "build_trust_attestation ref_env alice (position_at_head alice_id alice_head) bob_id 1001
   = Ok alice_trusts_bob"
  unfolding alice_trusts_bob_def alice_at_def by (rule is_ok_val) code_simp

definition alice_invites_bob :: built_event where
  "alice_invites_bob = ok_val (build_membership_invitation ref_env alice alice_at bob_id (ref_public bob)
     Controller (be_signed_event bob_inception) 1001)"

lemma alice_invites_bob_built:
  "build_membership_invitation ref_env alice (position_at_head alice_id alice_head) bob_id (ref_public bob)
     Controller (be_signed_event bob_inception) 1001 = Ok alice_invites_bob"
  unfolding alice_invites_bob_def alice_at_def by (rule is_ok_val) code_simp

section \<open>A member admitted\<close>

lemma alice_no_invitation: "open_invitation_of alice_state i = None" "bt_get (ls_principals alice_state) bob_id = None"
  using sample_ids by (simp_all add: open_invitation_of_def alice_state_def empty_state_def bt_find_def bt_get_def)

lemma invited_state:
  "\<exists>s. apply_event ref_env alice_state (be_signed_event alice_invites_bob) = Ok s
    \<and> (state_wf s \<and> ls_ledger s = ls_ledger alice_state \<and> ls_root s = ls_root alice_state
       \<and> ls_declared_kind s = ls_declared_kind alice_state \<and> ls_principals s = ls_principals alice_state
       \<and> bt_get (ls_invitations s) (be_event_id alice_invites_bob)
           = Some \<lparr>iv_invitee = bob_id, iv_invitee_key = ref_public bob, iv_role = Controller, iv_status = Open\<rparr>)
    \<and> ls_head s = Some \<lparr>hd_seq = 1, hd_event_id = be_event_id alice_invites_bob, hd_timestamp_ms = 1001\<rparr>"
  using invitation_applies [OF ref_ok alice_may_append alice_invites_bob_built [folded ref_sel(1)]
      built_raw_embedded [OF ref_ok bob_built good_samples(2)]] sample_ids alice_no_invitation
  by (simp add: alice_head_def max_def)

end
