(* ===== verification/Wire_Properties.thy ===== *)
theory Wire_Properties
  imports Reference_Env
begin

text \<open>
  What the validator guarantees: it decides exactly the rules of the schema, it
  always answers, what it accepts has one spelling, and the published strings and
  ids it reads mean what their grammars say.
\<close>

section \<open>Events\<close>

text \<open>
  C12. The validator decides the schema: \<open>signed_event\<close> accepts a byte string
  exactly when it is the canonical encoding, within the size cap, of an event whose
  body satisfies every field rule, every cross-field rule and every embedded
  proof.
\<close>

theorem validator_decides_events: "signed_event E bs = Ok () \<longleftrightarrow> (\<exists>m b. valid_event E bs m b)"
  by (rule signed_event_iff)

text \<open>
  An embedded inception is a proof of a key: \<open>verify_inception_standalone\<close>
  returns an id and a key exactly when the bytes are a raw-rooted inception that
  hashes to that id, records that key and is signed by it.
\<close>

lemma standalone_inception_proves_key:
  "verify_inception_standalone E bs = Ok x \<longleftrightarrow>
   length bs \<le> MAX_EVENT_BYTES \<and> embedded_ok E bs (si_event_id x) (si_active_key x)
   \<and> si_identity x = si_event_id x"
  by (rule standalone_valid_iff)

text \<open>
  C14. The validator always answers: for every descriptor of the ledger schema and
  every input it returns a verdict, and the verdict does not depend on the bound of
  the recursion, which the nesting rules keep below the bound.
\<close>

theorem validator_always_answers:
  assumes "D \<in> set CORE_TABLE" and "VALIDATE_FUEL \<le> n"
  shows "validate E D bs 0 \<noteq> Panic \<and> validate_n n E D bs 0 = validate E D bs 0"
  using validate_not_Panic [OF assms(1), of E bs] validate_n_more_fuel [OF assms(2), of E D bs 0]
  by (simp add: validate_def)

theorem validator_always_answers_witness:
  "validate ref_env SIGNED_EVENT [10, 255] 0 \<noteq> Panic
   \<and> validate_n 50 ref_env SIGNED_EVENT [10, 255] 0 = validate ref_env SIGNED_EVENT [10, 255] 0"
  by (rule validator_always_answers) (simp_all add: CORE_TABLE_def VALIDATE_FUEL_def)

section \<open>Bytes\<close>

text \<open>
  C15. A varint has one spelling: the reader accepts a 64-bit value exactly in its
  shortest base-128 form and returns what follows it, so overlong forms, overflow
  and truncation are all refused.
\<close>

theorem varint_has_one_spelling:
  "read_varint msg bs = Ok (w, rest) \<longleftrightarrow> bs = varint_of (unat w) @ rest"
proof
  assume "read_varint msg bs = Ok (w, rest)"
  then show "bs = varint_of (unat w) @ rest" by (rule read_varint_sound)
next
  assume "bs = varint_of (unat w) @ rest"
  moreover have "unat w < 2 ^ 64" using unsigned_less [of w, where ?'a = nat] by simp
  ultimately show "read_varint msg bs = Ok (w, rest)"
    using read_varint_complete [of "unat w" msg rest] by simp
qed

lemma core_small: "D \<in> set CORE_TABLE \<Longrightarrow> small_fields D"
  by (auto simp: CORE_TABLE_def)

text \<open>
  A message has one spelling: bytes that validate against a descriptor of the
  schema are the canonical encoding of the fields the scan found, so two accepted
  byte strings with the same fields are equal and an accepted event cannot be
  re-encoded under another id.
\<close>

lemma message_has_one_spelling:
  assumes "D \<in> set CORE_TABLE" and "message_fields E D bs = Ok s"
  shows "bs = enc_records (sc_entries s)"
proof -
  have "scan E (validate_n VALIDATE_FUEL E) D bs 0 = Ok s"
    using assms(2) validated_rescan [of VALIDATE_FUEL E D bs 0 s VALIDATE_FUEL]
    by (simp add: message_fields_def validate_def)
  then show ?thesis
    using scan_loop_iff [OF core_small [OF assms(1)]] by (auto simp: scan_def split: if_splits)
qed

lemma message_has_one_spelling_sample:
  "\<exists>s. message_fields ref_env SIGNED_EVENT (be_signed_event alice_inception) = Ok s
     \<and> be_signed_event alice_inception = enc_records (sc_entries s)"
proof -
  have "signed_event ref_env (be_signed_event alice_inception) = Ok ()"
    using alice_starts apply_event_Ok_valid signed_event_iff by blast
  then obtain s where s: "message_fields ref_env SIGNED_EVENT (be_signed_event alice_inception) = Ok s"
    by (auto simp: signed_event_def message_def message_fields_def)
  with message_has_one_spelling [OF _ s] show ?thesis by (auto simp: CORE_TABLE_def)
qed

section \<open>Published strings and ids\<close>

text \<open>
  C17. Hostnames and emails mean what the grammar says: a hostname is accepted
  exactly when it is two or more lowercase LDH labels joined by dots, and an email
  exactly when one at sign separates two non-empty parts and no code point is a
  control, a bidirectional override or invisible.
\<close>

theorem published_strings_match_grammar:
  "(check_hostname t = Ok () \<longleftrightarrow> (\<exists>ls. 2 \<le> length ls \<and> list_all ldh_label ls \<and> t = join dot ls))
   \<and> (check_email t = Ok () \<longleftrightarrow> list_all plain_codepoint (chars t)
        \<and> (\<exists>l d. t = l @ at_sign # d \<and> l \<noteq> [] \<and> d \<noteq> [] \<and> at_sign \<notin> set l \<and> at_sign \<notin> set d))"
  by (intro conjI check_hostname_Ok check_email_Ok)

lemma to_upper_of_lower: "to_upper (to_lower b) = to_upper b"
  by (auto simp: to_upper_def to_lower_def is_upper_def is_lower_def unat_plus32)

text \<open>
  An id has one text up to case: parsing accepts exactly the 52 characters
  that printing produces for 32 bytes, in either case, and returns those bytes.
\<close>

lemma id_text_round_trip:
  assumes "base32_codec E"
  shows "id_from_str E t = Ok i \<longleftrightarrow> length i = 32 \<and> map to_lower t = id_display E i"
proof
  assume "length i = 32 \<and> map to_lower t = id_display E i"
  then have len: "length i = 32" and t: "map to_lower t = id_display E i" by auto
  from t have "map to_upper t = map to_upper (id_display E i)"
    by (metis (no_types, lifting) map_map comp_def map_cong to_upper_of_lower)
  with base32_codec.id_from_str_ignores_case [OF assms] base32_codec.id_round_trip [OF assms len]
  show "id_from_str E t = Ok i" by metis
qed (use base32_codec.id_from_str_display [OF assms] in blast)

lemma id_text_round_trip_sample:
  "id_from_str ref_env (id_display ref_env alice_id) = Ok alice_id"
  using id_text_round_trip [OF ref_base32, of "id_display ref_env alice_id" alice_id] sample_ids
  by (simp add: id_display_def to_lower_idem)

text \<open>
  Domains are separate: no event body and acceptance blob are signed as the
  same bytes, no event body and reserve key are hashed as the same bytes, and within
  a domain the signed bytes determine what was signed.
\<close>

lemma domains_are_separate:
  "sign_input a \<noteq> accept_input b \<and> EVENT_ID_DOMAIN @ a \<noteq> RESERVE_DOMAIN @ b
   \<and> (sign_input a = sign_input a' \<longleftrightarrow> a = a') \<and> (accept_input b = accept_input b' \<longleftrightarrow> b = b')"
  using sign_accept_disjoint event_reserve_disjoint
  by (auto simp: sign_input_def accept_input_def prefixed_def)

end
