(* ===== verification/Ledger_Properties.thy ===== *)
theory Ledger_Properties
  imports Reference_Env
begin

text \<open>
  What the fold guarantees, stated over \<open>fold_events\<close> and \<open>apply_event\<close>: the
  refinement of the abstract ledger, the invariants of every folded state, who may
  append, the order of events, and what a violation, a resumed fold and a head id
  say. Each property is followed by an instance of it on the sample ledger of
  \<open>Reference_Env.thy\<close> where it has hypotheses.
\<close>

section \<open>Folded states\<close>

lemma folded_run:
  assumes "prost_codec E" and "crypto_ok E" and "fold_events E evs = Ok (s, None)"
  obtains mbs where "run_of E evs mbs s" and "reached E mbs (abs_state s)" and "state_wf s"
    and "ledger_inv E (abs_state s)" and "list_all2 (decodes E) evs mbs"
  using fold_events_run [OF assms(3,1)] reached_inv assms(2) by (auto simp: run_of_def)

lemma al_of_state:
  "is_controller (abs_state s) i \<longleftrightarrow> (\<exists>p. bt_get (ls_principals s) i = Some p \<and> pr_role p = Controller)"
  by (simp add: is_controller_def)

section \<open>Refinement\<close>

text \<open>
  C1. The fold implements the abstract ledger: after any accepted sequence of
  events, the next event is accepted with a given abstract outcome exactly when it
  is a valid event and the abstract ledger takes that step.
\<close>

theorem apply_event_refines:
  assumes "prost_codec E" and "crypto_ok E" and "fold_events E evs = Ok (s, None)"
  shows "(\<exists>s'. apply_event E s ev = Ok s' \<and> abs_state s' = al')
    \<longleftrightarrow> (\<exists>m b. valid_event E ev m b \<and> event_step E (abs_state s) m b al')"
proof -
  obtain mbs where "state_wf s" "ledger_inv E (abs_state s)" by (rule folded_run [OF assms])
  then show ?thesis using apply_sound [OF assms(1)] apply_complete [OF assms(1)] by blast
qed

theorem apply_event_refines_witness:
  "\<exists>s' m b. apply_event ref_env alice_state (be_signed_event alice_invites_bob) = Ok s'
     \<and> valid_event ref_env (be_signed_event alice_invites_bob) m b
     \<and> event_step ref_env (abs_state alice_state) m b (abs_state s')"
  using apply_event_refines [OF ref_ok alice_fold, of "be_signed_event alice_invites_bob"] invited_state
  by blast

section \<open>Invariants of every folded state\<close>

text \<open>
  C2. Control is never lost: a folded ledger that has a head has a controller, and
  a raw root is a controller for ever, under the ledger's own id and with the key
  its inception recorded.
\<close>

theorem control_is_kept:
  assumes "prost_codec E" and "crypto_ok E" and "fold_events E evs = Ok (s, None)"
  shows "(ls_head s \<noteq> None \<longrightarrow> controller_keys s \<noteq> [])
    \<and> (\<forall>k c. ls_root s = Some (Raw k c) \<longrightarrow>
         (\<exists>l. ls_ledger s = Some l
            \<and> bt_get (ls_principals s) l = Some \<lparr>pr_role = Controller, pr_active_key = k\<rparr>))"
proof -
  obtain mbs where wf: "state_wf s" and inv: "ledger_inv E (abs_state s)" by (rule folded_run [OF assms])
  have "controller_keys s \<noteq> []" if "ls_head s \<noteq> None"
  proof -
    from inv that obtain i p where "bt_get (ls_principals s) i = Some p" "pr_role p = Controller"
      by (auto simp: ledger_inv_def controlled_def al_of_state)
    then have "pr_active_key p \<in> set (controller_keys s)"
      using wf unfolding controller_keys_def set_push_keys
      by (force simp: state_wf_def bt_get_mem)
    then show ?thesis by auto
  qed
  then show ?thesis using inv by (simp add: ledger_inv_def root_kept_def)
qed

theorem control_is_kept_witness:
  "controller_keys alice_state \<noteq> []
   \<and> bt_get (ls_principals alice_state) alice_id
       = Some \<lparr>pr_role = Controller, pr_active_key = ref_public alice\<rparr>"
  using control_is_kept [OF ref_ok alice_fold] by (simp add: alice_state_def)



text \<open>
  C4. Memberships and attestations are unambiguous: in a folded state an identity
  has at most one open invitation, a subject at most one attestation that stands,
  and the ledger neither invites nor attests itself.
\<close>

theorem records_are_unambiguous:
  assumes "prost_codec E" and "crypto_ok E" and "fold_events E evs = Ok (s, None)" and "ls_ledger s = Some l"
  shows "(\<forall>e e' v v'. bt_get (ls_invitations s) e = Some v \<and> bt_get (ls_invitations s) e' = Some v'
         \<and> iv_status v = Open \<and> iv_status v' = Open \<and> iv_invitee v = iv_invitee v' \<longrightarrow> e = e')
    \<and> (\<forall>e e' a a'. bt_get (ls_trust s) e = Some a \<and> bt_get (ls_trust s) e' = Some a'
         \<and> \<not> is_revoked a \<and> \<not> is_revoked a' \<and> at_subject a = at_subject a' \<longrightarrow> e = e')
    \<and> (\<forall>e v. bt_get (ls_invitations s) e = Some v \<longrightarrow> iv_invitee v \<noteq> l) \<and> \<not> trusts s l"
proof -
  obtain mbs where wf: "state_wf s" and inv: "ledger_inv E (abs_state s)" by (rule folded_run [OF assms(1-3)])
  have o: "one_open (abs_state s)" and st: "one_standing (abs_state s)" and n: "not_self (abs_state s)"
    using inv by (simp_all add: ledger_inv_def)
  have "\<not> trusts s l" using n assms(4) trusts_iff [OF wf] by (auto simp: not_self_def standing_def)
  moreover have "\<forall>e v. bt_get (ls_invitations s) e = Some v \<longrightarrow> iv_invitee v \<noteq> l"
    using n assms(4) by (auto simp: not_self_def)
  moreover have "\<forall>e e' v v'. bt_get (ls_invitations s) e = Some v \<and> bt_get (ls_invitations s) e' = Some v'
         \<and> iv_status v = Open \<and> iv_status v' = Open \<and> iv_invitee v = iv_invitee v' \<longrightarrow> e = e'"
    using o unfolding one_open_def open_for_def by (metis abs_state_sel(6))
  moreover have "\<forall>e e' a a'. bt_get (ls_trust s) e = Some a \<and> bt_get (ls_trust s) e' = Some a'
         \<and> \<not> is_revoked a \<and> \<not> is_revoked a' \<and> at_subject a = at_subject a' \<longrightarrow> e = e'"
    using st unfolding one_standing_def standing_def is_revoked_def by (metis abs_state_sel(7))
  ultimately show ?thesis by blast
qed

theorem records_are_unambiguous_witness:
  "ls_ledger alice_state = Some alice_id \<and> \<not> trusts alice_state alice_id"
  using records_are_unambiguous [OF ref_ok alice_fold, of alice_id] by (simp add: alice_state_def)

text \<open>
  C5. Every key is proven: a principal of a folded state holds either the key of
  the ledger's own raw root, or a key that some raw-rooted inception records for
  that identity, hashes to it and is signed by.
\<close>

theorem principal_keys_are_proven:
  assumes "prost_codec E" and "crypto_ok E" and "fold_events E evs = Ok (s, None)"
    and "bt_get (ls_principals s) i = Some p"
  shows "(\<exists>c. ls_root s = Some (Raw (pr_active_key p) c) \<and> ls_ledger s = Some i)
    \<or> (\<exists>bs. embedded_ok E bs i (pr_active_key p))"
proof -
  obtain mbs where "ledger_inv E (abs_state s)" by (rule folded_run [OF assms(1-3)])
  then show ?thesis
    using assms(4) by (auto simp: ledger_inv_def all_proven_def proven_def)
qed

theorem principal_keys_are_proven_witness:
  "(\<exists>c. ls_root alice_state = Some (Raw (ref_public alice) c) \<and> ls_ledger alice_state = Some alice_id)
    \<or> (\<exists>bs. embedded_ok ref_env bs alice_id (ref_public alice))"
  using principal_keys_are_proven [OF ref_ok alice_fold, of alice_id
      "\<lparr>pr_role = Controller, pr_active_key = ref_public alice\<rparr>"]
  by (simp add: alice_state_def bt_get_def)

section \<open>Who may append, and in what order\<close>

text \<open>
  C6. Nothing is appended without authority: an event accepted after the inception
  is signed by the key it names, and that key is the key of a controller in the
  state before it.
\<close>

theorem appends_are_authorized:
  assumes "prost_codec E" and "state_wf s" and "ls_head s = Some h" and "hd_seq h + 1 \<noteq> 0"
    and "apply_event E s ev = Ok s'"
  shows "\<exists>m b. valid_event E ev m b \<and> authorized_signer s (eb_author_key b)
    \<and> ed_verify E (eb_author_key b) (sign_input (se_body m)) (se_signature m)
    \<and> ls_ledger s = Some (eb_ledger b)"
proof -
  from apply_sound [OF assms(1,2,5)] obtain m b where
    v: "valid_event E ev m b" "event_step E (abs_state s) m b (abs_state s')" by blast
  from step_equivocates [OF assms(2) v(2) assms(3,4)] v(1) show ?thesis
    unfolding equivocates_def by blast
qed

theorem appends_are_authorized_witness:
  "\<exists>m b. valid_event ref_env (be_signed_event alice_invites_bob) m b
    \<and> authorized_signer alice_state (eb_author_key b)
    \<and> ed_verify ref_env (eb_author_key b) (sign_input (se_body m)) (se_signature m)
    \<and> ls_ledger alice_state = Some (eb_ledger b)"
proof -
  obtain s' where "apply_event ref_env alice_state (be_signed_event alice_invites_bob) = Ok s'"
    using invited_state by blast
  moreover have "state_wf alice_state" "ls_head alice_state = Some alice_head" "hd_seq alice_head + 1 \<noteq> 0"
    using alice_may_append by (simp_all add: may_append_def alice_head_def)
  ultimately show ?thesis using appends_are_authorized [OF ref_prost] by blast
qed

text \<open>
  C7. Events are in order: the events of a folded sequence carry the positions 0,
  1, 2 and so on, each names the id of the one before it, timestamps never go
  back, and the head of the state is the last event.
\<close>

theorem events_are_in_order:
  assumes "prost_codec E" and "fold_events E evs = Ok (s, None)"
  shows "\<exists>mbs. list_all2 (decodes E) evs mbs
    \<and> (\<forall>k < length mbs. eb_seq (snd (mbs ! k)) = of_nat k)
    \<and> (\<forall>k < length mbs. 0 < k \<longrightarrow> eb_prev (snd (mbs ! k)) = event_id E (se_body (fst (mbs ! (k - 1)))))
    \<and> sorted (map (\<lambda>e. eb_timestamp_ms (snd e)) mbs)
    \<and> map_option hd_event_id (ls_head s)
        = (if evs = [] then None else Some (event_id E (se_body (fst (last mbs)))))"
proof -
  from fold_events_run [OF assms(2,1)] obtain mbs where
    d: "list_all2 (decodes E) evs mbs" and r: "reached E mbs (abs_state s)" by (auto simp: run_of_def)
  have "evs = [] \<longleftrightarrow> mbs = []" using d by auto
  then show ?thesis using d reached_positions [OF r] reached_head [OF r] by (intro exI [of _ mbs]) auto
qed

theorem events_are_in_order_witness:
  "\<exists>mbs. list_all2 (decodes ref_env) [be_signed_event alice_inception] mbs
    \<and> eb_seq (snd (mbs ! 0)) = 0 \<and> event_id ref_env (se_body (fst (last mbs))) = alice_id"
proof -
  from events_are_in_order [OF ref_prost alice_fold] obtain mbs where
    m: "list_all2 (decodes ref_env) [be_signed_event alice_inception] mbs"
    "\<forall>k < length mbs. eb_seq (snd (mbs ! k)) = of_nat k"
    "map_option hd_event_id (ls_head alice_state) = Some (event_id ref_env (se_body (fst (last mbs))))"
    by auto
  from m(1) have "length mbs = 1" by (auto dest: list_all2_lengthD)
  with m show ?thesis by (intro exI [of _ mbs]) (simp add: alice_state_def alice_head_def)
qed

section \<open>Whole folds\<close>

text \<open>
  C8. A fold stops at the first event it rejects: a violation is reported exactly
  when the sequence splits at an event that the state of the events before it
  rejects, and then the state returned is that state, the position reported is the
  next one, and nothing after it is read.
\<close>

theorem fold_reports_first_rejection:
  "fold_events E evs = Ok (s, Some v) \<longleftrightarrow>
   (\<exists>pre ev post r. evs = pre @ ev # post \<and> fold_events E pre = Ok (s, None)
      \<and> apply_event E s ev = Err r \<and> v = \<lparr>vi_seq = next_seq s, vi_reason = r\<rparr>)"
  unfolding fold_events_def by (rule fold_from_violation)

text \<open>
  A fold can be resumed: folding a sequence in two parts, the second from the
  state of the first, is folding it whole.
\<close>

lemma fold_resumes:
  "fold_events E (xs @ ys) =
   (case fold_events E xs of Ok (s, None) \<Rightarrow> fold_from E s ys | r \<Rightarrow> r)"
  unfolding fold_events_def by (rule fold_from_append)



text \<open>
  C11. A fold always answers: no sequence of byte strings, of any length a 64-bit
  position can count, makes it panic; it returns a state and, at most, a violation.
\<close>

theorem fold_always_answers:
  assumes "prost_codec E" and "crypto_ok E" and "length evs < 2 ^ 64"
  shows "\<exists>s v. fold_events E evs = Ok (s, v)"
proof -
  have "fold_from E empty_state evs \<noteq> Panic"
    using fold_from_not_Panic [OF assms(1,2) run_of_empty] assms(3) by simp
  moreover have "fold_from E s xs \<noteq> Err r" for s xs r
    by (induction E s xs rule: fold_from.induct) (auto split: outcome.splits)
  ultimately show ?thesis unfolding fold_events_def by (cases "fold_from E empty_state evs") auto
qed

theorem fold_always_answers_witness:
  "\<exists>s v. fold_events ref_env [[], [255, 255], be_signed_event alice_inception] = Ok (s, v)"
  by (rule fold_always_answers [OF ref_ok]) simp

end
