(* ===== verification/Sync_Tables.thy ===== *)
theory Sync_Tables
  imports Artifacts
begin

text \<open>
  The limits of the sync protocol (\<open>crates/mabel-net/src/lib.rs\<close>) and the field
  tables of its frames (\<open>crates/mabel-net/src/descriptors.rs\<close>), in the order of the
  files. An event inside a frame is a detached field: its nesting budget is its own.
\<close>

section \<open>Limits\<close>

definition MAX_FRAME_BYTES :: nat where "MAX_FRAME_BYTES = 4 * 1024 * 1024"
definition MAX_PUSH_EVENTS :: nat where "MAX_PUSH_EVENTS = 512"
definition MAX_PUSH_BYTES :: nat where "MAX_PUSH_BYTES = 2 * 1024 * 1024"
definition MAX_GET_LIMIT :: nat where "MAX_GET_LIMIT = 512"
definition MAX_LIST_LIMIT :: nat where "MAX_LIST_LIMIT = 256"
definition MAX_FORKS_LIMIT :: nat where "MAX_FORKS_LIMIT = 64"
definition MAX_REJECT_MSG_BYTES :: nat where "MAX_REJECT_MSG_BYTES = 256"
definition RESPONSE_BUDGET_BYTES :: nat where "RESPONSE_BUDGET_BYTES = MAX_FRAME_BYTES - 64 * 1024"
definition SMALL_REQUEST_BYTES :: nat where "SMALL_REQUEST_BYTES = 128"

lemmas frame_defs = MAX_FRAME_BYTES_def MAX_PUSH_EVENTS_def MAX_PUSH_BYTES_def MAX_GET_LIMIT_def
  MAX_LIST_LIMIT_def MAX_FORKS_LIMIT_def MAX_REJECT_MSG_BYTES_def SMALL_REQUEST_BYTES_def

section \<open>Field kinds\<close>

definition COUNT64 :: field_kind where "COUNT64 = KVarint 1 (- 1)"
definition COUNT32 :: field_kind where "COUNT32 = KVarint 1 4294967295"
definition TIMESTAMP :: field_kind where "TIMESTAMP = KVarint 1 MAX_TIMESTAMP_MS"
definition FLAG :: field_kind where "FLAG = KVarint 1 1"

definition repeated :: "nat \<Rightarrow> string \<Rightarrow> nat \<Rightarrow> nat \<Rightarrow> field_kind \<Rightarrow> field_descriptor" where
  "repeated number name mn mx kind = FieldDescriptor number name (Repeated mn mx False) kind"

section \<open>Requests\<close>

definition HEAD_REQ :: message_descriptor where
  "HEAD_REQ = MessageDescriptor ''HeadReq'' SMALL_REQUEST_BYTES [required 1 ''ledger'' K_ID] None None"

definition GET_REQ :: message_descriptor where
  "GET_REQ = MessageDescriptor ''GetReq'' SMALL_REQUEST_BYTES
     [required 1 ''ledger'' K_ID, optional 2 ''since'' COUNT64, optional 3 ''limit'' COUNT32] None None"

definition PUSH_REQ :: message_descriptor where
  "PUSH_REQ = MessageDescriptor ''PushReq'' MAX_PUSH_BYTES
     [required 1 ''ledger'' K_ID, repeated 2 ''events'' 1 MAX_PUSH_EVENTS K_EVENT] None None"

definition LIST_REQ :: message_descriptor where
  "LIST_REQ = MessageDescriptor ''ListReq'' SMALL_REQUEST_BYTES
     [optional 1 ''offset'' COUNT32, optional 2 ''limit'' COUNT32] None None"

definition FORKS_REQ :: message_descriptor where
  "FORKS_REQ = MessageDescriptor ''ForksReq'' SMALL_REQUEST_BYTES
     [optional 1 ''ledger'' K_ID, optional 2 ''offset'' COUNT32, optional 3 ''limit'' COUNT32] None None"

definition REQUEST :: message_descriptor where
  "REQUEST = MessageDescriptor ''Request'' MAX_FRAME_BYTES
     [variant 1 ''head'' HEAD_REQ, variant 2 ''get'' GET_REQ, variant 3 ''push'' PUSH_REQ,
      variant 4 ''list'' LIST_REQ, variant 5 ''forks'' FORKS_REQ] (Some (''kind'', 1)) None"

section \<open>Responses\<close>

definition HEAD_RESP :: message_descriptor where
  "HEAD_RESP = MessageDescriptor ''HeadResp'' SMALL_REQUEST_BYTES
     [optional 1 ''head_seq'' COUNT64, required 2 ''head_event'' K_ID,
      optional 3 ''updated_ms'' TIMESTAMP] None None"

definition EVENTS_RESP :: message_descriptor where
  "EVENTS_RESP = MessageDescriptor ''EventsResp'' MAX_FRAME_BYTES
     [repeated 1 ''events'' 0 MAX_GET_LIMIT K_EVENT, optional 2 ''head_seq'' COUNT64,
      optional 3 ''more'' FLAG] None None"

definition ACCEPTED_RESP :: message_descriptor where
  "ACCEPTED_RESP = MessageDescriptor ''AcceptedResp'' SMALL_REQUEST_BYTES
     [optional 1 ''head_seq'' COUNT64, optional 2 ''stored'' COUNT32] None None"

definition K_SUMMARY_KIND :: field_kind where
  "K_SUMMARY_KIND = KEnum [(1, ''PERSON''), (2, ''ORGANIZATION''), (3, ''AGENT''), (4, ''SERVICE'')]"

definition LEDGER_SUMMARY :: message_descriptor where
  "LEDGER_SUMMARY = MessageDescriptor ''LedgerSummary'' SMALL_REQUEST_BYTES
     [required 1 ''ledger'' K_ID, required 2 ''declared_kind'' K_SUMMARY_KIND,
      optional 3 ''head_seq'' COUNT64, required 4 ''head_event'' K_ID,
      optional 5 ''event_count'' COUNT64, optional 6 ''first_seen_ms'' TIMESTAMP,
      optional 7 ''updated_ms'' TIMESTAMP, optional 8 ''fork_count'' COUNT32,
      optional 9 ''forks_truncated'' FLAG] None None"

definition LEDGERS_RESP :: message_descriptor where
  "LEDGERS_RESP = MessageDescriptor ''LedgersResp'' MAX_FRAME_BYTES
     [repeated 1 ''entries'' 0 MAX_LIST_LIMIT (KMessage LEDGER_SUMMARY),
      optional 2 ''more'' FLAG] None None"

definition FORK_RECORD :: message_descriptor where
  "FORK_RECORD = MessageDescriptor ''ForkRecord'' (2 * MAX_EVENT_BYTES + SMALL_REQUEST_BYTES)
     [required 1 ''ledger'' K_ID, required 2 ''seq'' COUNT64, required 3 ''kept'' K_EVENT,
      required 4 ''conflicting'' K_EVENT, optional 5 ''observed_ms'' TIMESTAMP,
      optional 6 ''source_endpoint'' K_ID] None None"

definition FORKS_RESP :: message_descriptor where
  "FORKS_RESP = MessageDescriptor ''ForksResp'' MAX_FRAME_BYTES
     [repeated 1 ''entries'' 0 MAX_FORKS_LIMIT (KMessage FORK_RECORD),
      optional 2 ''more'' FLAG] None None"

definition NOT_FOUND_RESP :: message_descriptor where
  "NOT_FOUND_RESP = MessageDescriptor ''NotFoundResp'' 0 [] None None"

definition K_REJECT_CODE :: field_kind where
  "K_REJECT_CODE = KEnum [(1, ''MALFORMED''), (2, ''TOO_LARGE''), (3, ''INVALID''), (4, ''FORK''),
     (5, ''UNSUPPORTED''), (6, ''NOT_ADMITTED''), (7, ''BUSY'')]"

definition REJECTED_RESP :: message_descriptor where
  "REJECTED_RESP = MessageDescriptor ''RejectedResp'' (SMALL_REQUEST_BYTES + MAX_REJECT_MSG_BYTES)
     [required 1 ''code'' K_REJECT_CODE, optional 2 ''at_seq'' COUNT64,
      optional 3 ''msg'' (KString MAX_REJECT_MSG_BYTES Utf8)] None None"

definition RESPONSE :: message_descriptor where
  "RESPONSE = MessageDescriptor ''Response'' MAX_FRAME_BYTES
     [variant 1 ''head'' HEAD_RESP, variant 2 ''events'' EVENTS_RESP,
      variant 3 ''accepted'' ACCEPTED_RESP, variant 4 ''ledgers'' LEDGERS_RESP,
      variant 5 ''forks'' FORKS_RESP, variant 6 ''not_found'' NOT_FOUND_RESP,
      variant 7 ''rejected'' REJECTED_RESP] (Some (''kind'', 1)) None"

section \<open>Facts about the tables\<close>

lemmas sync_table_defs = HEAD_REQ_def GET_REQ_def PUSH_REQ_def LIST_REQ_def FORKS_REQ_def REQUEST_def
  HEAD_RESP_def EVENTS_RESP_def ACCEPTED_RESP_def LEDGER_SUMMARY_def LEDGERS_RESP_def FORK_RECORD_def
  FORKS_RESP_def NOT_FOUND_RESP_def REJECTED_RESP_def RESPONSE_def

lemmas sync_kind_defs = COUNT64_def COUNT32_def TIMESTAMP_def FLAG_def K_SUMMARY_KIND_def
  K_REJECT_CODE_def K_ID_def

lemma sync_ordered [simp]:
  "ordered_fields HEAD_REQ" "ordered_fields GET_REQ" "ordered_fields PUSH_REQ" "ordered_fields LIST_REQ"
  "ordered_fields FORKS_REQ" "ordered_fields REQUEST" "ordered_fields HEAD_RESP"
  "ordered_fields EVENTS_RESP" "ordered_fields ACCEPTED_RESP" "ordered_fields LEDGER_SUMMARY"
  "ordered_fields LEDGERS_RESP" "ordered_fields FORK_RECORD" "ordered_fields FORKS_RESP"
  "ordered_fields NOT_FOUND_RESP" "ordered_fields REJECTED_RESP" "ordered_fields RESPONSE"
  by (simp_all add: ordered_fields_def sync_table_defs field_defs repeated_def)

lemma sync_small [simp]:
  "small_fields HEAD_REQ" "small_fields GET_REQ" "small_fields PUSH_REQ" "small_fields LIST_REQ"
  "small_fields FORKS_REQ" "small_fields REQUEST" "small_fields HEAD_RESP"
  "small_fields EVENTS_RESP" "small_fields ACCEPTED_RESP" "small_fields LEDGER_SUMMARY"
  "small_fields LEDGERS_RESP" "small_fields FORK_RECORD" "small_fields FORKS_RESP"
  "small_fields NOT_FOUND_RESP" "small_fields REJECTED_RESP" "small_fields RESPONSE"
  by (simp_all add: small_fields_def sync_table_defs field_defs repeated_def)

lemma sync_sizes [simp]:
  "md_max_bytes HEAD_REQ = SMALL_REQUEST_BYTES" "md_max_bytes GET_REQ = SMALL_REQUEST_BYTES"
  "md_max_bytes PUSH_REQ = MAX_PUSH_BYTES" "md_max_bytes LIST_REQ = SMALL_REQUEST_BYTES"
  "md_max_bytes FORKS_REQ = SMALL_REQUEST_BYTES" "md_max_bytes REQUEST = MAX_FRAME_BYTES"
  "md_max_bytes HEAD_RESP = SMALL_REQUEST_BYTES" "md_max_bytes EVENTS_RESP = MAX_FRAME_BYTES"
  "md_max_bytes ACCEPTED_RESP = SMALL_REQUEST_BYTES" "md_max_bytes LEDGER_SUMMARY = SMALL_REQUEST_BYTES"
  "md_max_bytes LEDGERS_RESP = MAX_FRAME_BYTES"
  "md_max_bytes FORK_RECORD = 2 * MAX_EVENT_BYTES + SMALL_REQUEST_BYTES"
  "md_max_bytes FORKS_RESP = MAX_FRAME_BYTES" "md_max_bytes NOT_FOUND_RESP = 0"
  "md_max_bytes REJECTED_RESP = SMALL_REQUEST_BYTES + MAX_REJECT_MSG_BYTES"
  "md_max_bytes RESPONSE = MAX_FRAME_BYTES"
  by (simp_all add: sync_table_defs)

lemma sync_checks [simp]:
  "md_check HEAD_REQ = None" "md_check GET_REQ = None" "md_check PUSH_REQ = None" "md_check LIST_REQ = None"
  "md_check FORKS_REQ = None" "md_check REQUEST = None" "md_check HEAD_RESP = None"
  "md_check EVENTS_RESP = None" "md_check ACCEPTED_RESP = None" "md_check LEDGER_SUMMARY = None"
  "md_check LEDGERS_RESP = None" "md_check FORK_RECORD = None" "md_check FORKS_RESP = None"
  "md_check NOT_FOUND_RESP = None" "md_check REJECTED_RESP = None" "md_check RESPONSE = None"
  by (simp_all add: sync_table_defs)

lemma sync_oneofs [simp]:
  "md_oneof HEAD_REQ = None" "md_oneof GET_REQ = None" "md_oneof PUSH_REQ = None" "md_oneof LIST_REQ = None"
  "md_oneof FORKS_REQ = None" "md_oneof REQUEST = Some (''kind'', 1)" "md_oneof HEAD_RESP = None"
  "md_oneof EVENTS_RESP = None" "md_oneof ACCEPTED_RESP = None" "md_oneof LEDGER_SUMMARY = None"
  "md_oneof LEDGERS_RESP = None" "md_oneof FORK_RECORD = None" "md_oneof FORKS_RESP = None"
  "md_oneof NOT_FOUND_RESP = None" "md_oneof REJECTED_RESP = None" "md_oneof RESPONSE = Some (''kind'', 1)"
  by (simp_all add: sync_table_defs)

end
