(* ===== verification/Sync_Types.thy ===== *)
theory Sync_Types
  imports Sync_Tables Link
begin

text \<open>
  What crosses the boundary between the sync server and its store
  (\<open>crates/mabel-net/src/store.rs\<close>) and what a call can fail with
  (\<open>crates/mabel-net/src/error.rs\<close>). Events cross it as encoded bytes. A peer's
  endpoint id is provenance only.
\<close>

type_synonym u32 = "32 word"
type_synonym endpoint_id = bytes

section \<open>Rejections\<close>

datatype reject_code = RejectUnspecified | Malformed | TooLarge | Invalid | ForkCode | Unsupported
  | NotAdmitted | Busy

fun reject_code_number :: "reject_code \<Rightarrow> nat" where
  "reject_code_number RejectUnspecified = 0"
| "reject_code_number Malformed = 1"
| "reject_code_number TooLarge = 2"
| "reject_code_number Invalid = 3"
| "reject_code_number ForkCode = 4"
| "reject_code_number Unsupported = 5"
| "reject_code_number NotAdmitted = 6"
| "reject_code_number Busy = 7"

definition reject_code_try_from :: "nat \<Rightarrow> reject_code option" where
  "reject_code_try_from n = map_of [(0, RejectUnspecified), (1, Malformed), (2, TooLarge), (3, Invalid),
     (4, ForkCode), (5, Unsupported), (6, NotAdmitted), (7, Busy)] n"

record rejection =
  rj_code :: reject_code
  rj_at_seq :: u64
  rj_msg :: bytes

definition rejection_new :: "reject_code \<Rightarrow> bytes \<Rightarrow> rejection" where
  "rejection_new code msg = \<lparr>rj_code = code, rj_at_seq = 0, rj_msg = msg\<rparr>"

definition rejection_at :: "reject_code \<Rightarrow> u64 \<Rightarrow> bytes \<Rightarrow> rejection" where
  "rejection_at code at_seq msg = \<lparr>rj_code = code, rj_at_seq = at_seq, rj_msg = msg\<rparr>"

datatype net_error =
    Connect
  | Connection
  | ResponseTooLarge
  | MalformedResponse wire_error
  | RejectedBy rejection
  | UnexpectedResponse string string
  | Protocol string
  | PushTooLarge nat nat

type_synonym 'a net_result = "(net_error, 'a) outcome"

section \<open>What a store answers\<close>

type_synonym provenance = "endpoint_id option"

record net_head =
  nh_head_seq :: u64
  nh_head_event :: event_id
  nh_updated_ms :: u64

record event_page =
  ep_events :: "bytes list"
  ep_head_seq :: u64
  ep_more :: bool

record push_outcome =
  po_head_seq :: u64
  po_stored :: u32

record 'a page =
  pg_items :: "'a list"
  pg_more :: bool

record ledger_summary =
  sm_ledger :: ledger_id
  sm_declared_kind :: declared_kind
  sm_head_seq :: u64
  sm_head_event :: event_id
  sm_event_count :: u64
  sm_first_seen_ms :: u64
  sm_updated_ms :: u64
  sm_fork_count :: u32
  sm_forks_truncated :: bool

record fork_record =
  fr_ledger :: ledger_id
  fr_seq :: u64
  fr_kept :: bytes
  fr_conflicting :: bytes
  fr_observed_ms :: u64
  fr_source_endpoint :: "endpoint_id option"

datatype store_error = StoreRejected rejection | Unavailable bytes

type_synonym 'a store_result = "(store_error, 'a) outcome"

definition store_invalid :: "u64 \<Rightarrow> bytes \<Rightarrow> store_error" where
  "store_invalid at_seq msg = StoreRejected (rejection_at Invalid at_seq msg)"

definition store_fork :: "u64 \<Rightarrow> bytes \<Rightarrow> store_error" where
  "store_fork at_seq msg = StoreRejected (rejection_at ForkCode at_seq msg)"

definition store_not_admitted :: "bytes \<Rightarrow> store_error" where
  "store_not_admitted msg = StoreRejected (rejection_new NotAdmitted msg)"

section \<open>Facts\<close>

lemma reject_code_round_trip [simp]: "reject_code_try_from (reject_code_number c) = Some c"
  by (cases c) (simp_all add: reject_code_try_from_def)

lemma reject_code_small: "reject_code_number c < 8"
  by (cases c) simp_all

end
