(* ===== verification/Sync_Wire.thy ===== *)
theory Sync_Wire
  imports Sync_Types
begin

unbundle bit_operations_syntax

text \<open>
  Sync frames on the wire (\<open>crates/mabel-net/src/wire.rs\<close>): the encoders, the
  reader, and the mapping from a validator failure to a reject code. An encoder that
  appends to a buffer is the bytes it appends. The reader walks records without a
  table; it is called on bytes that passed one. The text of a validator error, which
  only fills a message, is a parameter \<open>T\<close>.
\<close>

section \<open>Writing\<close>

function put_varint :: "u64 \<Rightarrow> bytes" where
  "put_varint v = (if v \<ge> 0x80 then (ucast v OR 0x80) # put_varint (drop_bit 7 v) else [ucast v])"
  by pat_completeness auto

function varint_len :: "u64 \<Rightarrow> nat" where
  "varint_len v = (if v \<ge> 0x80 then varint_len (drop_bit 7 v) + 1 else 1)"
  by pat_completeness auto

lemma unat_drop7: "unat (drop_bit 7 (v :: u64)) = unat v div 128"
  by (simp add: drop_bit_eq_div unat_div)

lemma drop7_less: "(v :: u64) \<ge> 0x80 \<Longrightarrow> unat (drop_bit 7 v) < unat v"
  by (simp add: unat_drop7 word_le_nat_alt)

termination put_varint
  by (relation "measure unat") (auto intro: drop7_less)

termination varint_len
  by (relation "measure unat") (auto intro: drop7_less)

declare put_varint.simps [simp del] varint_len.simps [simp del]

definition put_key :: "nat \<Rightarrow> u64 \<Rightarrow> bytes" where
  "put_key number wire = put_varint (push_bit 3 (of_nat number) OR wire)"

definition put_uint :: "nat \<Rightarrow> u64 \<Rightarrow> bytes" where
  "put_uint number v = (if v = 0 then [] else put_key number 0 @ put_varint v)"

definition put_flag :: "nat \<Rightarrow> bool \<Rightarrow> bytes" where
  "put_flag number v = (if v then put_key number 0 @ put_varint 1 else [])"

definition put_message :: "nat \<Rightarrow> bytes \<Rightarrow> bytes" where
  "put_message number v = put_key number 2 @ put_varint (of_nat (length v)) @ v"

definition put_bytes :: "nat \<Rightarrow> bytes \<Rightarrow> bytes" where
  "put_bytes number v = (if v = [] then [] else put_message number v)"

definition entry_len :: "nat \<Rightarrow> bytes \<Rightarrow> nat" where
  "entry_len number body =
     varint_len (push_bit 3 (of_nat number) OR 2) + varint_len (of_nat (length body)) + length body"

definition envelope :: "nat \<Rightarrow> bytes \<Rightarrow> bytes" where
  "envelope number body = put_message number body"

fun clip_end :: "bytes \<Rightarrow> nat \<Rightarrow> nat" where
  "clip_end msg 0 = 0"
| "clip_end msg (Suc n) = (if is_char_boundary msg (Suc n) then Suc n else clip_end msg n)"

definition clip :: "bytes \<Rightarrow> bytes" where
  "clip msg = (if length msg \<le> MAX_REJECT_MSG_BYTES then msg
     else take (clip_end msg MAX_REJECT_MSG_BYTES) msg)"

definition head_request :: "ledger_id \<Rightarrow> bytes" where
  "head_request ledger = envelope 1 (put_bytes 1 ledger)"

definition get_request :: "ledger_id \<Rightarrow> u64 \<Rightarrow> u32 \<Rightarrow> bytes" where
  "get_request ledger since limit =
     envelope 2 (put_bytes 1 ledger @ put_uint 2 since @ put_uint 3 (ucast limit))"

definition push_request :: "ledger_id \<Rightarrow> bytes list \<Rightarrow> bytes" where
  "push_request ledger events =
     envelope 3 (put_bytes 1 ledger @ concat (map (put_message 2) events))"

definition list_request :: "u32 \<Rightarrow> u32 \<Rightarrow> bytes" where
  "list_request offset limit = envelope 4 (put_uint 1 (ucast offset) @ put_uint 2 (ucast limit))"

definition forks_request :: "ledger_id option \<Rightarrow> u32 \<Rightarrow> u32 \<Rightarrow> bytes" where
  "forks_request ledger offset limit =
     envelope 5 ((case ledger of Some l \<Rightarrow> put_bytes 1 l | None \<Rightarrow> [])
       @ put_uint 2 (ucast offset) @ put_uint 3 (ucast limit))"

definition head_response :: "net_head \<Rightarrow> bytes" where
  "head_response h = envelope 1 (put_uint 1 (nh_head_seq h) @ put_bytes 2 (nh_head_event h)
     @ put_uint 3 (nh_updated_ms h))"

definition events_response :: "bytes list \<Rightarrow> u64 \<Rightarrow> bool \<Rightarrow> bytes" where
  "events_response events head_seq has_more =
     envelope 2 (concat (map (put_message 1) events) @ put_uint 2 head_seq @ put_flag 3 has_more)"

definition accepted_response :: "push_outcome \<Rightarrow> bytes" where
  "accepted_response outc =
     envelope 3 (put_uint 1 (po_head_seq outc) @ put_uint 2 (ucast (po_stored outc)))"

definition summary_entry :: "ledger_summary \<Rightarrow> bytes" where
  "summary_entry s =
     put_bytes 1 (sm_ledger s) @ put_uint 2 (of_nat (declared_kind_number (sm_declared_kind s)))
     @ put_uint 3 (sm_head_seq s) @ put_bytes 4 (sm_head_event s) @ put_uint 5 (sm_event_count s)
     @ put_uint 6 (sm_first_seen_ms s) @ put_uint 7 (sm_updated_ms s)
     @ put_uint 8 (ucast (sm_fork_count s)) @ put_flag 9 (sm_forks_truncated s)"

definition ledgers_response :: "bytes list \<Rightarrow> bool \<Rightarrow> bytes" where
  "ledgers_response entries has_more = envelope 4 (concat (map (put_message 1) entries) @ put_flag 2 has_more)"

definition fork_entry :: "fork_record \<Rightarrow> bytes" where
  "fork_entry r =
     put_bytes 1 (fr_ledger r) @ put_uint 2 (fr_seq r) @ put_message 3 (fr_kept r)
     @ put_message 4 (fr_conflicting r) @ put_uint 5 (fr_observed_ms r)
     @ (case fr_source_endpoint r of Some e \<Rightarrow> put_bytes 6 e | None \<Rightarrow> [])"

definition forks_response :: "bytes list \<Rightarrow> bool \<Rightarrow> bytes" where
  "forks_response entries has_more = envelope 5 (concat (map (put_message 1) entries) @ put_flag 2 has_more)"

definition not_found_response :: bytes where
  "not_found_response = envelope 6 []"

definition rejected_response :: "rejection \<Rightarrow> bytes" where
  "rejected_response r =
     envelope 7 (put_uint 1 (of_nat (reject_code_number (rj_code r))) @ put_uint 2 (rj_at_seq r)
       @ put_bytes 3 (clip (rj_msg r)))"

fun fill_loop :: "('a \<Rightarrow> bytes) \<Rightarrow> nat \<Rightarrow> nat \<Rightarrow> nat \<Rightarrow> bytes list \<Rightarrow> 'a list \<Rightarrow> bytes list \<times> bool" where
  "fill_loop encode number budget used out [] = (out, False)"
| "fill_loop encode number budget used out (item # items) =
     (let body = encode item; cost = entry_len number body in
      if used + cost > budget \<and> out \<noteq> [] then (out, True)
      else fill_loop encode number budget (used + cost) (out @ [body]) items)"

definition fill_budget :: "'a list \<Rightarrow> nat \<Rightarrow> nat \<Rightarrow> ('a \<Rightarrow> bytes) \<Rightarrow> bytes list \<times> bool" where
  "fill_budget items number budget encode = fill_loop encode number budget 0 [] items"

section \<open>Reading\<close>

fun net_varint_loop :: "u64 \<Rightarrow> nat \<Rightarrow> bytes \<Rightarrow> (u64 \<times> bytes) option" where
  "net_varint_loop v shift [] = None"
| "net_varint_loop v shift (b # bs) =
     (if shift \<ge> 64 then None
      else
        let v' = v OR push_bit shift (ucast (b AND 0x7f)) in
        if b AND 0x80 = 0 then Some (v', bs)
        else if shift + 7 > 63 then None
        else net_varint_loop v' (shift + 7) bs)"

definition net_varint :: "bytes \<Rightarrow> (u64 \<times> bytes) option" where
  "net_varint bs = net_varint_loop 0 0 bs"

lemma net_varint_loop_shorter: "net_varint_loop v s bs = Some (w, rest) \<Longrightarrow> length rest < length bs"
  by (induction v s bs rule: net_varint_loop.induct) (fastforce simp: Let_def split: if_splits)+

lemma net_varint_shorter: "net_varint bs = Some (w, rest) \<Longrightarrow> length rest < length bs"
  unfolding net_varint_def by (rule net_varint_loop_shorter)

definition read_field :: "u64 \<Rightarrow> bytes \<Rightarrow> ((nat \<times> wvalue) \<times> bytes) option" where
  "read_field key bs =
     (let number = unat (drop_bit 3 key) in
      if number \<ge> 2 ^ 32 then None
      else if key AND 7 = 0 then
        (case net_varint bs of None \<Rightarrow> None | Some (v, rest) \<Rightarrow> Some ((number, VVarint v), rest))
      else if key AND 7 = 2 then
        (case net_varint bs of None \<Rightarrow> None
         | Some (len, rest) \<Rightarrow>
             if unat len > length rest then None
             else Some ((number, VBytes (take (unat len) rest)), drop (unat len) rest))
      else None)"

lemma read_field_shorter: "read_field key bs = Some (r, rest) \<Longrightarrow> length rest < length bs"
  by (auto simp: read_field_def Let_def split: if_splits option.splits dest!: net_varint_shorter)

function read_fields :: "bytes \<Rightarrow> records option" where
  "read_fields bs =
     (if bs = [] then Some []
      else case net_varint bs of None \<Rightarrow> None
       | Some (key, rest) \<Rightarrow>
           (case read_field key rest of None \<Rightarrow> None
            | Some (r, rest') \<Rightarrow> map_option ((#) r) (read_fields rest')))"
  by pat_completeness auto
termination
  by (relation "measure length") (auto dest!: net_varint_shorter read_field_shorter)

declare read_fields.simps [simp del]

definition read_uint :: "records \<Rightarrow> nat \<Rightarrow> u64" where
  "read_uint rs number = (case get_varint rs number of None \<Rightarrow> 0 | Some v \<Rightarrow> v)"

definition read_flag :: "records \<Rightarrow> nat \<Rightarrow> bool" where
  "read_flag rs number \<longleftrightarrow> read_uint rs number \<noteq> 0"

fun kind_variant :: "records \<Rightarrow> (nat \<times> bytes) option" where
  "kind_variant [] = None"
| "kind_variant ((number, VBytes b) # rs) = Some (number, b)"
| "kind_variant ((number, VVarint _) # rs) = kind_variant rs"

definition read_id :: "bytes option \<Rightarrow> bytes option" where
  "read_id b = (case b of None \<Rightarrow> None
     | Some bs \<Rightarrow> (case id_from_slice bs of Ok i \<Rightarrow> Some i | _ \<Rightarrow> None))"

definition read_text :: "bytes option \<Rightarrow> bytes option" where
  "read_text b = (case b of None \<Rightarrow> Some [] | Some bs \<Rightarrow> if is_utf8 bs then Some bs else None)"

datatype request =
    ReqHead ledger_id
  | ReqGet ledger_id u64 u32
  | ReqPush ledger_id "bytes list"
  | ReqList u32 u32
  | ReqForks "ledger_id option" u32 u32

definition is_unknown_variant :: "bytes \<Rightarrow> bool" where
  "is_unknown_variant frame =
     (case read_fields frame of
        Some [(number, VBytes _)] \<Rightarrow> \<not> (1 \<le> number \<and> number \<le> 5)
      | _ \<Rightarrow> False)"

definition reject_code_of :: "bytes \<Rightarrow> wire_error \<Rightarrow> reject_code" where
  "reject_code_of frame e =
     (case e of
        MessageTooLarge _ _ _ \<Rightarrow> TooLarge
      | FieldTooLong _ _ _ _ \<Rightarrow> TooLarge
      | RepeatedCount _ _ count _ mx \<Rightarrow> if count > mx then TooLarge else Malformed
      | UnknownOneofVariant msg _ _ \<Rightarrow>
          if msg = md_name REQUEST \<and> is_unknown_variant frame then Unsupported else Malformed
      | _ \<Rightarrow> Malformed)"

definition malformed :: "string \<Rightarrow> rejection" where
  "malformed msg = rejection_new Malformed (lit msg)"

definition request_of :: "nat \<Rightarrow> records \<Rightarrow> (rejection, request) outcome" where
  "request_of number inner =
     (let unreadable = malformed ''Request.kind is missing a required field'' in
      if number = 1 then
        obind (ok_or (read_id (get_bytes inner 1)) unreadable) (\<lambda>ledger. Ok (ReqHead ledger))
      else if number = 2 then
        obind (ok_or (read_id (get_bytes inner 1)) unreadable) (\<lambda>ledger.
        Ok (ReqGet ledger (read_uint inner 2) (ucast (read_uint inner 3))))
      else if number = 3 then
        obind (ok_or (read_id (get_bytes inner 1)) unreadable) (\<lambda>ledger.
        Ok (ReqPush ledger (get_repeated inner 2)))
      else if number = 4 then
        Ok (ReqList (ucast (read_uint inner 1)) (ucast (read_uint inner 2)))
      else if number = 5 then
        obind (case get_bytes inner 1 of
                 Some raw \<Rightarrow> obind (ok_or (read_id (Some raw)) unreadable) (\<lambda>l. Ok (Some l))
               | None \<Rightarrow> Ok None) (\<lambda>ledger.
        Ok (ReqForks ledger (ucast (read_uint inner 2)) (ucast (read_uint inner 3))))
      else Err (rejection_new Unsupported (lit ''unrecognised Request.kind variant'')))"

definition parse_request :: "env \<Rightarrow> (wire_error \<Rightarrow> bytes) \<Rightarrow> bytes \<Rightarrow> (rejection, request) outcome" where
  "parse_request E T frame =
     (case message E REQUEST frame of
        Err e \<Rightarrow> Err (rejection_new (reject_code_of frame e) (T e))
      | Panic \<Rightarrow> Panic
      | Ok _ \<Rightarrow>
          obind (ok_or (read_fields frame) (malformed ''Request is not readable'')) (\<lambda>outer.
          obind (ok_or (kind_variant outer) (malformed ''Request.kind names no variant'')) (\<lambda>(number, body).
          obind (ok_or (read_fields body) (malformed ''Request.kind is not readable'')) (\<lambda>inner.
          request_of number inner))))"

datatype response =
    RespHead net_head
  | RespEvents event_page
  | RespAccepted push_outcome
  | RespLedgers "ledger_summary page"
  | RespForks "fork_record page"
  | RespNotFound
  | RespRejected rejection

fun response_name :: "response \<Rightarrow> string" where
  "response_name (RespHead _) = ''Head''"
| "response_name (RespEvents _) = ''Events''"
| "response_name (RespAccepted _) = ''Accepted''"
| "response_name (RespLedgers _) = ''Ledgers''"
| "response_name (RespForks _) = ''Forks''"
| "response_name RespNotFound = ''NotFound''"
| "response_name (RespRejected _) = ''Rejected''"

definition read_summary :: "bytes \<Rightarrow> ledger_summary option" where
  "read_summary entry =
     (case read_fields entry of None \<Rightarrow> None
      | Some f \<Rightarrow>
          (case (read_id (get_bytes f 1), declared_kind_try_from (unat (ucast (read_uint f 2) :: u32)),
                 read_id (get_bytes f 4)) of
             (Some ledger, Some kind, Some head_event) \<Rightarrow>
               Some \<lparr>sm_ledger = ledger, sm_declared_kind = kind, sm_head_seq = read_uint f 3,
                 sm_head_event = head_event, sm_event_count = read_uint f 5,
                 sm_first_seen_ms = read_uint f 6, sm_updated_ms = read_uint f 7,
                 sm_fork_count = ucast (read_uint f 8), sm_forks_truncated = read_flag f 9\<rparr>
           | _ \<Rightarrow> None))"

definition endpoint_from_bytes :: "env \<Rightarrow> bytes \<Rightarrow> endpoint_id option" where
  "endpoint_from_bytes E raw = (if length raw = 32 \<and> key_is_point E raw then Some raw else None)"

text \<open>A peer the handshake authenticated, or none.\<close>

definition endpoint_ok :: "env \<Rightarrow> endpoint_id option \<Rightarrow> bool" where
  "endpoint_ok E p \<longleftrightarrow> (case p of None \<Rightarrow> True | Some x \<Rightarrow> endpoint_from_bytes E x = Some x)"

definition read_fork :: "env \<Rightarrow> bytes \<Rightarrow> fork_record option" where
  "read_fork E entry =
     (case read_fields entry of None \<Rightarrow> None
      | Some f \<Rightarrow>
          (case (case get_bytes f 6 of
                   Some raw \<Rightarrow> map_option Some (endpoint_from_bytes E raw)
                 | None \<Rightarrow> Some None,
                 read_id (get_bytes f 1), get_bytes f 3, get_bytes f 4) of
             (Some source, Some ledger, Some kept, Some conflicting) \<Rightarrow>
               Some \<lparr>fr_ledger = ledger, fr_seq = read_uint f 2, fr_kept = kept,
                 fr_conflicting = conflicting, fr_observed_ms = read_uint f 5,
                 fr_source_endpoint = source\<rparr>
           | _ \<Rightarrow> None))"

definition response_of :: "env \<Rightarrow> nat \<Rightarrow> records \<Rightarrow> response net_result" where
  "response_of E number inner =
     (let missing = Protocol ''Response.kind is missing a required field'' in
      if number = 1 then
        obind (ok_or (read_id (get_bytes inner 2)) missing) (\<lambda>head_event.
        Ok (RespHead \<lparr>nh_head_seq = read_uint inner 1, nh_head_event = head_event,
              nh_updated_ms = read_uint inner 3\<rparr>))
      else if number = 2 then
        Ok (RespEvents \<lparr>ep_events = get_repeated inner 1, ep_head_seq = read_uint inner 2,
              ep_more = read_flag inner 3\<rparr>)
      else if number = 3 then
        Ok (RespAccepted \<lparr>po_head_seq = read_uint inner 1, po_stored = ucast (read_uint inner 2)\<rparr>)
      else if number = 4 then
        obind (try_map (\<lambda>entry. ok_or (read_summary entry) missing) (get_repeated inner 1)) (\<lambda>items.
        Ok (RespLedgers \<lparr>pg_items = items, pg_more = read_flag inner 2\<rparr>))
      else if number = 5 then
        obind (try_map (\<lambda>entry. ok_or (read_fork E entry) missing) (get_repeated inner 1)) (\<lambda>items.
        Ok (RespForks \<lparr>pg_items = items, pg_more = read_flag inner 2\<rparr>))
      else if number = 6 then Ok RespNotFound
      else if number = 7 then
        obind (ok_or (reject_code_try_from (unat (ucast (read_uint inner 1) :: u32)))
                 (Protocol ''RejectedResp.code is not a known code'')) (\<lambda>code.
        obind (ok_or (read_text (get_bytes inner 3))
                 (Protocol ''RejectedResp.msg is not valid UTF-8'')) (\<lambda>msg.
        Ok (RespRejected \<lparr>rj_code = code, rj_at_seq = read_uint inner 2, rj_msg = msg\<rparr>)))
      else Err (Protocol ''unrecognised Response.kind variant''))"

definition parse_response :: "env \<Rightarrow> bytes \<Rightarrow> response net_result" where
  "parse_response E frame =
     obind (map_err MalformedResponse (message E RESPONSE frame)) (\<lambda>_.
     obind (ok_or (read_fields frame) (Protocol ''Response is not readable'')) (\<lambda>outer.
     obind (ok_or (kind_variant outer) (Protocol ''Response.kind names no variant'')) (\<lambda>(number, body).
     obind (ok_or (read_fields body) (Protocol ''Response.kind is not readable'')) (\<lambda>inner.
     response_of E number inner))))"

section \<open>Reading an event without a table\<close>

definition signed_event_body :: "bytes \<Rightarrow> bytes option" where
  "signed_event_body event =
     (case read_fields event of None \<Rightarrow> None | Some f \<Rightarrow> get_bytes f 1)"

definition signed_event_id :: "env \<Rightarrow> bytes \<Rightarrow> event_id option" where
  "signed_event_id E event = map_option (event_id E) (signed_event_body event)"

definition signed_event_seq :: "bytes \<Rightarrow> u64 option" where
  "signed_event_seq event =
     (case signed_event_body event of None \<Rightarrow> None
      | Some body \<Rightarrow> map_option (\<lambda>f. read_uint f 3) (read_fields body))"

end
