(* ===== verification/Stateful.thy ===== *)
theory Stateful
  imports Mabel_Prelude
begin

text \<open>
  Operations that can fail and that change a state: an outcome beside the state it
  leaves, which a failing operation keeps as far as it got. The operator
  \<open>then_do\<close> is Rust's question mark on such an operation.
\<close>

type_synonym ('e, 'a, 's) run = "('e, 'a) outcome \<times> 's"

definition then_do :: "('e, 'a, 's) run \<Rightarrow> ('a \<Rightarrow> 's \<Rightarrow> ('e, 'b, 's) run) \<Rightarrow> ('e, 'b, 's) run" where
  "then_do r f = (case fst r of Ok a \<Rightarrow> f a (snd r) | Err e \<Rightarrow> (Err e, snd r) | Panic \<Rightarrow> (Panic, snd r))"

definition run_map_err :: "('e \<Rightarrow> 'd) \<Rightarrow> ('e, 'a, 's) run \<Rightarrow> ('d, 'a, 's) run" where
  "run_map_err g r = (map_err g (fst r), snd r)"

named_theorems run_simps

lemma then_do_simps [simp, run_simps]:
  "then_do (Ok a, s) f = f a s"
  "then_do (Err e, s) f = (Err e, s)"
  "then_do (Panic, s) f = (Panic, s)"
  by (simp_all add: then_do_def)

lemma then_do_Ok [run_simps]:
  "then_do r f = (Ok b, t) \<longleftrightarrow> (\<exists>a. fst r = Ok a \<and> f a (snd r) = (Ok b, t))"
  by (auto simp: then_do_def split: outcome.splits)

lemma then_do_fst_Ok [run_simps]:
  "fst (then_do r f) = Ok b \<longleftrightarrow> (\<exists>a. fst r = Ok a \<and> fst (f a (snd r)) = Ok b)"
  by (auto simp: then_do_def split: outcome.splits)

lemma then_do_fst_Panic [run_simps]:
  "fst (then_do r f) = Panic \<longleftrightarrow> fst r = Panic \<or> (\<exists>a. fst r = Ok a \<and> fst (f a (snd r)) = Panic)"
  by (auto simp: then_do_def split: outcome.splits)

text \<open>What every step of a sequence keeps, the sequence keeps.\<close>

lemma then_do_keeps:
  assumes "P (snd r)" and "\<And>a s. fst r = Ok a \<Longrightarrow> snd r = s \<Longrightarrow> P s \<Longrightarrow> P (snd (f a s))"
  shows "P (snd (then_do r f))"
  using assms by (auto simp: then_do_def split: outcome.splits)

lemma run_map_err_simps [simp, run_simps]:
  "run_map_err g (Ok a, s) = (Ok a, s)"
  "run_map_err g (Err e, s) = (Err (g e), s)"
  "run_map_err g (Panic, s) = (Panic, s)"
  "snd (run_map_err g r) = snd r"
  "fst (run_map_err g r) = Ok a \<longleftrightarrow> fst r = Ok a"
  "fst (run_map_err g r) = Panic \<longleftrightarrow> fst r = Panic"
  by (simp_all add: run_map_err_def)

end
