(* ===== verification/Ledger_Store.thy ===== *)
theory Ledger_Store
  imports Sync_Wire Stateful "HOL-Library.Product_Lexorder"
begin

text \<open>
  One directory per ledger (\<open>crates/mabel-node/src/ledger.rs\<close>): event files, the
  head cache, provenance and fork records. The files of a ledger are a record: the
  event files by sequence, the fork files by sequence and conflicting id, and the
  contents of \<open>head.json\<close> and \<open>meta.json\<close>. A file name is its key, since the
  zero-padded names are read back as numbers and ids, and a read or a write of a file
  succeeds. A write of one file is atomic (\<open>atomic.rs\<close>), so an append that is cut
  off leaves a prefix of its writes, which is what the crash lemmas are about. The
  clock is an argument.
\<close>

section \<open>Files\<close>

record store_head =
  sh_seq :: u64
  sh_event_id :: event_id
  sh_updated_ms :: u64

record ledger_meta =
  lm_source_endpoint :: "endpoint_id option"
  lm_first_seen_ms :: u64

record new_event =
  ne_seq :: u64
  ne_event_id :: event_id
  ne_bytes :: bytes

record stored_event =
  st_seq :: u64
  st_bytes :: bytes

record fork_file =
  ff_seq :: u64
  ff_conflicting :: event_id

record ledger_files =
  lf_dir :: bool
  lf_events :: "(u64, bytes) btree_map"
  lf_head :: "store_head option"
  lf_meta :: "ledger_meta option"
  lf_forks :: "(u64 \<times> event_id, bytes) btree_map"

definition no_files :: ledger_files where
  "no_files = \<lparr>lf_dir = False, lf_events = [], lf_head = None, lf_meta = None, lf_forks = []\<rparr>"

text \<open>Of the \<open>Io\<close> failures only the one that can happen here is left, a key file that is not there.\<close>

datatype storage_error =
    MalformedEvent u64
  | OutOfOrderAppend ledger_id u64 u64
  | ConflictingEvent ledger_id u64 event_id
  | EventIdMismatch u64 event_id event_id
  | MissingEvent ledger_id u64
  | UnknownIdentity identity_id
  | Io identity_id

type_synonym 'a file_run = "(storage_error, 'a, ledger_files) run"

section \<open>Reading\<close>

definition sequences :: "ledger_files \<Rightarrow> u64 list" where
  "sequences f = sort (map fst (lf_events f))"

definition cached_head :: "ledger_files \<Rightarrow> store_head option" where
  "cached_head f = lf_head f"

fun contiguous_loop :: "nat \<Rightarrow> u64 option \<Rightarrow> u64 list \<Rightarrow> u64 option" where
  "contiguous_loop index last_seq [] = last_seq"
| "contiguous_loop index last_seq (seq # seqs) =
     (if seq \<noteq> of_nat index then last_seq else contiguous_loop (Suc index) (Some seq) seqs)"

definition contiguous_last :: "u64 list \<Rightarrow> u64 option" where
  "contiguous_last seqs = contiguous_loop 0 None seqs"

definition event_id_of :: "env \<Rightarrow> u64 \<Rightarrow> bytes \<Rightarrow> (storage_error, event_id) outcome" where
  "event_id_of E seq bs =
     (case decode_signed_event E bs of
        None \<Rightarrow> Err (MalformedEvent seq)
      | Some event \<Rightarrow> Ok (event_id E (se_body event)))"

definition read_event :: "ledger_id \<Rightarrow> u64 \<Rightarrow> ledger_files \<Rightarrow> (storage_error, bytes) outcome" where
  "read_event l seq f = ok_or (bt_get (lf_events f) seq) (MissingEvent l seq)"

definition write_head :: "store_head \<Rightarrow> ledger_files \<Rightarrow> ledger_files" where
  "write_head h f = f\<lparr>lf_head := Some h\<rparr>"

definition rebuild_head :: "env \<Rightarrow> ledger_id \<Rightarrow> u64 \<Rightarrow> ledger_files \<Rightarrow> store_head option file_run" where
  "rebuild_head E l now f =
     (case contiguous_last (sequences f) of
        None \<Rightarrow> (Ok None, f)
      | Some last_seq \<Rightarrow>
          then_do (obind (read_event l last_seq f) (event_id_of E last_seq), f) (\<lambda>i f.
          let h = \<lparr>sh_seq = last_seq, sh_event_id = i, sh_updated_ms = now\<rparr> in
          (Ok (Some h), write_head h f)))"

definition ledger_head :: "env \<Rightarrow> ledger_id \<Rightarrow> u64 \<Rightarrow> ledger_files \<Rightarrow> store_head option file_run" where
  "ledger_head E l now f =
     (case cached_head f of Some h \<Rightarrow> (Ok (Some h), f) | None \<Rightarrow> rebuild_head E l now f)"

text \<open>The sequences from \<open>since\<close> to \<open>last\<close>, the values a \<open>while seq <= last\<close> loop takes.\<close>

definition seq_range :: "u64 \<Rightarrow> u64 \<Rightarrow> u64 list" where
  "seq_range since last_seq = map of_nat [unat since ..< Suc (unat last_seq)]"

definition ledger_read_from ::
  "env \<Rightarrow> ledger_id \<Rightarrow> u64 \<Rightarrow> u64 \<Rightarrow> nat option \<Rightarrow> ledger_files \<Rightarrow> stored_event list file_run" where
  "ledger_read_from E l now since limit f =
     then_do (ledger_head E l now f) (\<lambda>h f.
       case h of
         None \<Rightarrow> (Ok [], f)
       | Some h \<Rightarrow>
           let seqs = seq_range since (sh_seq h) in
           (try_map (\<lambda>seq. obind (read_event l seq f) (\<lambda>bs. Ok \<lparr>st_seq = seq, st_bytes = bs\<rparr>))
              (case limit of None \<Rightarrow> seqs | Some n \<Rightarrow> take n seqs), f))"

definition ledger_read_all :: "env \<Rightarrow> ledger_id \<Rightarrow> u64 \<Rightarrow> ledger_files \<Rightarrow> stored_event list file_run" where
  "ledger_read_all E l now f = ledger_read_from E l now 0 None f"

section \<open>Appending\<close>

definition create_dir :: "ledger_files \<Rightarrow> ledger_files" where
  "create_dir f = f\<lparr>lf_dir := True\<rparr>"

definition holds_other_bytes :: "u64 \<Rightarrow> bytes \<Rightarrow> ledger_files \<Rightarrow> bool" where
  "holds_other_bytes seq bs f \<longleftrightarrow>
     (case bt_get (lf_events f) seq of Some stored \<Rightarrow> stored \<noteq> bs | None \<Rightarrow> False)"

fun check_run :: "env \<Rightarrow> ledger_id \<Rightarrow> u64 \<Rightarrow> new_event list \<Rightarrow> ledger_files \<Rightarrow> (storage_error, unit) outcome" where
  "check_run E l want [] f = Ok ()"
| "check_run E l want (event # events) f =
     (if ne_seq event \<noteq> want then Err (OutOfOrderAppend l want (ne_seq event))
      else
        obind (event_id_of E (ne_seq event) (ne_bytes event)) (\<lambda>actual.
        if actual \<noteq> ne_event_id event then Err (EventIdMismatch (ne_seq event) (ne_event_id event) actual)
        else if holds_other_bytes (ne_seq event) (ne_bytes event) f
        then Err (ConflictingEvent l (ne_seq event) (ne_event_id event))
        else check_run E l (want + 1) events f))"

definition write_event :: "new_event \<Rightarrow> ledger_files \<Rightarrow> ledger_files" where
  "write_event event f = f\<lparr>lf_events := bt_insert (ne_seq event) (ne_bytes event) (lf_events f)\<rparr>"

definition write_events :: "env \<Rightarrow> ledger_id \<Rightarrow> u64 \<Rightarrow> new_event list \<Rightarrow> ledger_files \<Rightarrow> store_head file_run" where
  "write_events E l now events f =
     then_do (ledger_head E l now (create_dir f)) (\<lambda>h f.
     let expected = (case h of None \<Rightarrow> 0 | Some h \<Rightarrow> sh_seq h + 1) in
     then_do (check_run E l expected events f, f) (\<lambda>_ f.
     let f = fold write_event events f in
     if events = [] then (Panic, f)
     else (Ok \<lparr>sh_seq = ne_seq (last events), sh_event_id = ne_event_id (last events),
             sh_updated_ms = now\<rparr>, f)))"

definition ledger_append ::
  "env \<Rightarrow> ledger_id \<Rightarrow> u64 \<Rightarrow> new_event list \<Rightarrow> ledger_files \<Rightarrow> store_head option file_run" where
  "ledger_append E l now events f =
     (if events = [] then ledger_head E l now f
      else then_do (write_events E l now events f) (\<lambda>h f. (Ok (Some h), write_head h f)))"

section \<open>Provenance and forks\<close>

definition write_meta :: "ledger_meta \<Rightarrow> ledger_files \<Rightarrow> ledger_files" where
  "write_meta m f = (create_dir f)\<lparr>lf_meta := Some m\<rparr>"

definition note_first_seen :: "endpoint_id option \<Rightarrow> u64 \<Rightarrow> ledger_files \<Rightarrow> ledger_meta \<times> ledger_files" where
  "note_first_seen source now f =
     (case lf_meta f of
        Some m \<Rightarrow> (m, f)
      | None \<Rightarrow>
          let m = \<lparr>lm_source_endpoint = source, lm_first_seen_ms = now\<rparr> in (m, write_meta m f))"

definition record_fork :: "u64 \<Rightarrow> event_id \<Rightarrow> bytes \<Rightarrow> ledger_files \<Rightarrow> ledger_files" where
  "record_fork seq conflicting record f = f\<lparr>lf_forks := bt_insert (seq, conflicting) record (lf_forks f)\<rparr>"

definition ledger_forks :: "ledger_files \<Rightarrow> fork_file list" where
  "ledger_forks f = map (\<lambda>(seq, conflicting). \<lparr>ff_seq = seq, ff_conflicting = conflicting\<rparr>)
     (sort (map fst (lf_forks f)))"

end
