(* ===== verification/Node_Home.thy ===== *)
theory Node_Home
  imports Ledger_Store
begin

text \<open>
  The node home (\<open>crates/mabel-node/src/home.rs\<close>): a directory per identity with
  its local metadata and, when it keys itself, its keys, and a directory per ledger.
  A directory listing is the entries in ascending order of id. File permissions and
  the JSON text of the metadata are not part of the model.
\<close>

record identity_metadata =
  im_alias :: bytes
  im_declared_kind :: declared_kind
  im_controlled_by :: "identity_id option"
  im_created_at_ms :: u64

definition identity_meta_now :: "bytes \<Rightarrow> declared_kind \<Rightarrow> u64 \<Rightarrow> identity_metadata" where
  "identity_meta_now alias kind now =
     \<lparr>im_alias = alias, im_declared_kind = kind, im_controlled_by = None, im_created_at_ms = now\<rparr>"

definition controlled_by :: "identity_id \<Rightarrow> identity_metadata \<Rightarrow> identity_metadata" where
  "controlled_by controller m = m\<lparr>im_controlled_by := Some controller\<rparr>"

record identity_files =
  if_meta :: "identity_metadata option"
  if_active :: "bytes option"
  if_reserve :: "bytes option"

definition no_identity :: identity_files where
  "no_identity = \<lparr>if_meta = None, if_active = None, if_reserve = None\<rparr>"

record node_home =
  hm_identities :: "(identity_id, identity_files) btree_map"
  hm_ledgers :: "(ledger_id, ledger_files) btree_map"

section \<open>Identities\<close>

definition identity_dir :: "node_home \<Rightarrow> identity_id \<Rightarrow> identity_files" where
  "identity_dir h i = (case bt_get (hm_identities h) i of None \<Rightarrow> no_identity | Some f \<Rightarrow> f)"

definition put_identity :: "identity_id \<Rightarrow> identity_files \<Rightarrow> node_home \<Rightarrow> node_home" where
  "put_identity i f h = h\<lparr>hm_identities := bt_insert i f (hm_identities h)\<rparr>"

definition write_identity_meta :: "identity_id \<Rightarrow> identity_metadata \<Rightarrow> node_home \<Rightarrow> node_home" where
  "write_identity_meta i m h = put_identity i ((identity_dir h i)\<lparr>if_meta := Some m\<rparr>) h"

definition create_identity :: "identity_id \<Rightarrow> identity_metadata \<Rightarrow> node_home \<Rightarrow> node_home" where
  "create_identity i m h = write_identity_meta i m (put_identity i (identity_dir h i) h)"

definition identity_meta :: "node_home \<Rightarrow> identity_id \<Rightarrow> (storage_error, identity_metadata) outcome" where
  "identity_meta h i = ok_or (if_meta (identity_dir h i)) (UnknownIdentity i)"

definition write_identity_keys :: "identity_id \<Rightarrow> bytes \<Rightarrow> bytes \<Rightarrow> node_home \<Rightarrow> node_home" where
  "write_identity_keys i active reserve h =
     put_identity i ((identity_dir h i)\<lparr>if_active := Some active, if_reserve := Some reserve\<rparr>) h"

definition keys_itself :: "node_home \<Rightarrow> identity_id \<Rightarrow> bool" where
  "keys_itself h i \<longleftrightarrow> if_active (identity_dir h i) \<noteq> None"

definition signing_identity :: "node_home \<Rightarrow> identity_id \<Rightarrow> identity_id" where
  "signing_identity h i =
     (if keys_itself h i then i
      else case identity_meta h i of
          Ok m \<Rightarrow> (case im_controlled_by m of
              Some controller \<Rightarrow> if controller \<noteq> i then controller else i
            | None \<Rightarrow> i)
        | _ \<Rightarrow> i)"

definition can_sign_for :: "node_home \<Rightarrow> identity_id \<Rightarrow> bool" where
  "can_sign_for h i = keys_itself h (signing_identity h i)"

definition identity_own_active_key :: "node_home \<Rightarrow> identity_id \<Rightarrow> (storage_error, bytes) outcome" where
  "identity_own_active_key h i = ok_or (if_active (identity_dir h i)) (Io i)"

definition identity_active_key :: "node_home \<Rightarrow> identity_id \<Rightarrow> (storage_error, bytes) outcome" where
  "identity_active_key h i = identity_own_active_key h (signing_identity h i)"

definition identity_reserve_key :: "node_home \<Rightarrow> identity_id \<Rightarrow> (storage_error, bytes) outcome" where
  "identity_reserve_key h i = ok_or (if_reserve (identity_dir h i)) (Io i)"

definition identities :: "node_home \<Rightarrow> identity_id list" where
  "identities h = map fst (hm_identities h)"

definition keyed_identities :: "node_home \<Rightarrow> identity_id list" where
  "keyed_identities h = filter (keys_itself h) (identities h)"

section \<open>Ledgers\<close>

definition home_ledger :: "node_home \<Rightarrow> ledger_id \<Rightarrow> ledger_files" where
  "home_ledger h l = (case bt_get (hm_ledgers h) l of None \<Rightarrow> no_files | Some f \<Rightarrow> f)"

definition home_ledgers :: "node_home \<Rightarrow> ledger_id list" where
  "home_ledgers h = map fst (filter (\<lambda>e. lf_dir (snd e)) (hm_ledgers h))"

text \<open>Runs an operation on the directory of one ledger.\<close>

definition on_ledger :: "ledger_id \<Rightarrow> (ledger_files \<Rightarrow> ('e, 'a, ledger_files) run) \<Rightarrow> node_home \<Rightarrow> ('e, 'a, node_home) run" where
  "on_ledger l op h =
     (let r = op (home_ledger h l) in (fst r, h\<lparr>hm_ledgers := bt_insert l (snd r) (hm_ledgers h)\<rparr>))"

section \<open>Facts\<close>

lemma identity_dir_put [simp]: "identity_dir (put_identity i f h) j = (if j = i then f else identity_dir h j)"
  by (simp add: identity_dir_def put_identity_def bt_get_insert)

lemma home_ledger_on [simp]:
  "home_ledger (snd (on_ledger l op h)) l' = (if l' = l then snd (op (home_ledger h l)) else home_ledger h l')"
  by (simp add: home_ledger_def on_ledger_def Let_def bt_get_insert)

lemma on_ledger_identities [simp]: "hm_identities (snd (on_ledger l op h)) = hm_identities h"
  by (simp add: on_ledger_def Let_def)

lemma on_ledger_outcome [simp]: "fst (on_ledger l op h) = fst (op (home_ledger h l))"
  by (simp add: on_ledger_def Let_def)

lemma can_sign_cong: "hm_identities h = hm_identities h' \<Longrightarrow> can_sign_for h i = can_sign_for h' i"
  by (simp add: can_sign_for_def signing_identity_def keys_itself_def identity_meta_def identity_dir_def)

lemma can_sign_iff:
  "can_sign_for h i \<longleftrightarrow> keys_itself h i
   \<or> (\<exists>m c. if_meta (identity_dir h i) = Some m \<and> im_controlled_by m = Some c \<and> keys_itself h c)"
  by (cases "if_meta (identity_dir h i)")
     (auto simp: can_sign_for_def signing_identity_def identity_meta_def split: option.splits if_splits)

lemma active_key_iff: "(\<exists>k. identity_active_key h i = Ok k) \<longleftrightarrow> can_sign_for h i"
  by (simp add: identity_active_key_def identity_own_active_key_def can_sign_for_def keys_itself_def)

end
