(* ===== verification/Node_Storage.thy ===== *)
theory Node_Storage
  imports Node_Home Fork "HOL-Library.Option_ord"
begin

text \<open>
  What a node holds and every rule that decides whether it grows
  (\<open>crates/mabel-node/src/storage.rs\<close>), and the store the sync server answers from
  (\<open>store.rs\<close>). The storage is one record: the home, the caps, the policy, the index
  over the files and the advertisement verdicts. Each method is one function on it;
  the locks make a method atomic. The text of a rejection is chosen by a
  \<open>storage_note\<close> and written by the parameter \<open>W\<close>; \<open>now\<close> is the clock.
\<close>

section \<open>Policy, caps and verdicts\<close>

record admission_policy =
  ap_witness_for :: "identity_id list"
  ap_accept_legacy :: bool

definition witnessing_for :: "identity_id list \<Rightarrow> admission_policy" where
  "witnessing_for w = \<lparr>ap_witness_for = w, ap_accept_legacy = False\<rparr>"

datatype advertisement_gap = NoLocalCopy | AdvertisesNothing | AdvertisesOtherEndpoints

record witness_for_entry =
  wf_identity :: identity_id
  wf_gap :: "advertisement_gap option"

definition advertised :: "witness_for_entry \<Rightarrow> bool" where
  "advertised e \<longleftrightarrow> wf_gap e = None"

record storage_caps =
  cp_events_per_ledger :: u64
  cp_bytes_per_ledger :: u64
  cp_ledgers :: nat
  cp_fork_records :: u32
  cp_storage_capacity :: u64

definition MAX_EVENTS_PER_LEDGER :: u64 where
  "MAX_EVENTS_PER_LEDGER = 4096"

definition MAX_BYTES_PER_LEDGER :: u64 where
  "MAX_BYTES_PER_LEDGER = 4 * 1024 * 1024"

definition MAX_LEDGERS :: nat where
  "MAX_LEDGERS = 10000"

definition MAX_FORK_RECORDS :: u32 where
  "MAX_FORK_RECORDS = 8"

definition DEFAULT_STORAGE_CAPACITY :: u64 where
  "DEFAULT_STORAGE_CAPACITY = 2 * 1024 * 1024 * 1024"

definition default_caps :: storage_caps where
  "default_caps = \<lparr>cp_events_per_ledger = MAX_EVENTS_PER_LEDGER, cp_bytes_per_ledger = MAX_BYTES_PER_LEDGER,
     cp_ledgers = MAX_LEDGERS, cp_fork_records = MAX_FORK_RECORDS,
     cp_storage_capacity = DEFAULT_STORAGE_CAPACITY\<rparr>"

section \<open>The index\<close>

record entry =
  en_state :: ledger_state
  en_head_seq :: u64
  en_head_event :: event_id
  en_bytes :: u64
  en_first_seen_ms :: u64
  en_updated_ms :: u64
  en_source_endpoint :: "endpoint_id option"
  en_forks :: "fork_record list"

definition event_count :: "entry \<Rightarrow> u64" where
  "event_count e = en_head_seq e + 1"

definition entry_declared_kind :: "entry \<Rightarrow> declared_kind" where
  "entry_declared_kind e = (case ls_declared_kind (en_state e) of None \<Rightarrow> KindUnspecified | Some k \<Rightarrow> k)"

definition forks_truncated :: "entry \<Rightarrow> u32 \<Rightarrow> bool" where
  "forks_truncated e fork_cap \<longleftrightarrow> of_nat (length (en_forks e)) \<ge> fork_cap"

definition entry_summary :: "entry \<Rightarrow> ledger_id \<Rightarrow> u32 \<Rightarrow> ledger_summary" where
  "entry_summary e l fork_cap = \<lparr>sm_ledger = l, sm_declared_kind = entry_declared_kind e,
     sm_head_seq = en_head_seq e, sm_head_event = en_head_event e, sm_event_count = event_count e,
     sm_first_seen_ms = en_first_seen_ms e, sm_updated_ms = en_updated_ms e,
     sm_fork_count = of_nat (length (en_forks e)), sm_forks_truncated = forks_truncated e fork_cap\<rparr>"

record ledger_report =
  lr_summary :: ledger_summary
  lr_source_endpoint :: "endpoint_id option"
  lr_witnesses :: "identity_id list"

definition entry_report :: "entry \<Rightarrow> ledger_id \<Rightarrow> u32 \<Rightarrow> ledger_report" where
  "entry_report e l fork_cap = \<lparr>lr_summary = entry_summary e l fork_cap, lr_source_endpoint = en_source_endpoint e,
     lr_witnesses = witness_identities (en_state e)\<rparr>"

definition entry_head :: "entry \<Rightarrow> net_head" where
  "entry_head e = \<lparr>nh_head_seq = en_head_seq e, nh_head_event = en_head_event e, nh_updated_ms = en_updated_ms e\<rparr>"

record index =
  ix_ledgers :: "(ledger_id, entry) btree_map"
  ix_storage_used :: u64

definition empty_index :: index where
  "empty_index = \<lparr>ix_ledgers = [], ix_storage_used = 0\<rparr>"

record totals =
  tt_ledger_count :: u64
  tt_fork_count :: u64
  tt_storage_used :: u64

record stored_page =
  sp_report :: ledger_report
  sp_events :: "bytes list"
  sp_more :: bool

record ledger_storage =
  sg_home :: node_home
  sg_caps :: storage_caps
  sg_policy :: admission_policy
  sg_index :: index
  sg_endpoint :: endpoint_id
  sg_entries :: "witness_for_entry list"

definition sg_entry :: "ledger_storage \<Rightarrow> ledger_id \<Rightarrow> entry option" where
  "sg_entry S l = bt_get (ix_ledgers (sg_index S)) l"

definition sg_files :: "ledger_storage \<Rightarrow> ledger_id \<Rightarrow> ledger_files" where
  "sg_files S l = home_ledger (sg_home S) l"

text \<open>Runs an operation on the directory of one ledger of the home.\<close>

definition on_files :: "ledger_id \<Rightarrow> (ledger_files \<Rightarrow> ('e, 'a, ledger_files) run) \<Rightarrow> ledger_storage
    \<Rightarrow> ('e, 'a, ledger_storage) run" where
  "on_files l op S = (let r = on_ledger l op (sg_home S) in (fst r, S\<lparr>sg_home := snd r\<rparr>))"

section \<open>Messages\<close>

datatype storage_note =
    NoteReason reason
  | NoteStorage storage_error
  | NoteNoSeq
  | NoteOutOfRun u64 u64
  | NoteMustStartAtZero
  | NoteOtherLedger
  | NoteGap u64 u64
  | NoteWitnessesNobody ledger_id
  | NoteNotAdvertised ledger_id identity_id advertisement_gap
  | NoteNotNamed ledger_id nat
  | NoteNoBody
  | NoteEventsCap u64 u64
  | NoteBytesCap u64 u64
  | NoteLedgersCap nat
  | NoteCapacity u64 u64
  | NoteOutsideBody
  | NoteOtherInception
  | NoteKeptInvalid u64 ledger_id violation
  | NoteForked u64

type_synonym note_texts = "storage_note \<Rightarrow> bytes"

definition store_malformed :: "note_texts \<Rightarrow> u64 \<Rightarrow> storage_note \<Rightarrow> store_error" where
  "store_malformed W at_seq note = StoreRejected (rejection_at Malformed at_seq (W note))"

definition too_large :: "note_texts \<Rightarrow> storage_note \<Rightarrow> store_error" where
  "too_large W note = StoreRejected (rejection_new TooLarge (W note))"

definition unavailable :: "note_texts \<Rightarrow> storage_error \<Rightarrow> store_error" where
  "unavailable W e = Unavailable (W (NoteStorage e))"

section \<open>Advertisement\<close>

definition gap_for :: "index \<Rightarrow> identity_id \<Rightarrow> endpoint_id \<Rightarrow> advertisement_gap option" where
  "gap_for ix witness endpoint =
     (case bt_get (ix_ledgers ix) witness of
        None \<Rightarrow> Some NoLocalCopy
      | Some e \<Rightarrow>
          if endpoints (en_state e) = [] then Some AdvertisesNothing
          else if endpoint \<notin> set (endpoints (en_state e)) then Some AdvertisesOtherEndpoints
          else None)"

definition recheck :: "ledger_storage \<Rightarrow> ledger_storage" where
  "recheck S = S\<lparr>sg_entries := map (\<lambda>i. \<lparr>wf_identity = i, wf_gap = gap_for (sg_index S) i (sg_endpoint S)\<rparr>)
     (ap_witness_for (sg_policy S))\<rparr>"

definition note_endpoint :: "endpoint_id \<Rightarrow> ledger_storage \<Rightarrow> ledger_storage" where
  "note_endpoint endpoint S =
     (if sg_endpoint S = endpoint then S else recheck (S\<lparr>sg_endpoint := endpoint\<rparr>))"

section \<open>Loading\<close>

definition decode_fork_record :: "env \<Rightarrow> bytes \<Rightarrow> fork_record option" where
  "decode_fork_record E raw =
     (case read_fields raw of None \<Rightarrow> None
      | Some fs \<Rightarrow>
          (case (case get_bytes fs 6 of
                   Some bs \<Rightarrow> map_option Some (endpoint_from_bytes E bs)
                 | None \<Rightarrow> Some None,
                 read_id (get_bytes fs 1), get_bytes fs 3, get_bytes fs 4) of
             (Some source, Some l, Some kept, Some conflicting) \<Rightarrow>
               Some \<lparr>fr_ledger = l, fr_seq = read_uint fs 2, fr_kept = kept, fr_conflicting = conflicting,
                 fr_observed_ms = read_uint fs 5, fr_source_endpoint = source\<rparr>
           | _ \<Rightarrow> None))"

definition fork_order :: "env \<Rightarrow> fork_record \<Rightarrow> u64 \<times> event_id option" where
  "fork_order E r = (fr_seq r, signed_event_id E (fr_conflicting r))"

text \<open>The events of a directory that verify, with what the loop of \<open>load_entry\<close> counts over them.\<close>

fun load_loop :: "env \<Rightarrow> ledger_state \<Rightarrow> u64 \<Rightarrow> u64 \<Rightarrow> event_id \<Rightarrow> stored_event list
    \<Rightarrow> (storage_error, ledger_state \<times> u64 \<times> u64 \<times> event_id) outcome" where
  "load_loop E s nbytes head_seq head_event [] = Ok (s, nbytes, head_seq, head_event)"
| "load_loop E s nbytes head_seq head_event (ev # evs) =
     (case apply_event E s (st_bytes ev) of
        Err _ \<Rightarrow> Ok (s, nbytes, head_seq, head_event)
      | Panic \<Rightarrow> Panic
      | Ok s' \<Rightarrow>
          obind (expect (ls_head s')) (\<lambda>h.
          load_loop E s' (nbytes + of_nat (length (st_bytes ev))) (st_seq ev) (hd_event_id h) evs))"

definition load_forks :: "env \<Rightarrow> ledger_files \<Rightarrow> fork_record list" where
  "load_forks E f = sort_key (fork_order E)
     (List.map_filter (\<lambda>file. case bt_get (lf_forks f) (ff_seq file, ff_conflicting file) of
          Some raw \<Rightarrow> decode_fork_record E raw | None \<Rightarrow> None) (ledger_forks f))"

definition load_entry :: "env \<Rightarrow> u64 \<Rightarrow> ledger_id \<Rightarrow> ledger_files \<Rightarrow> entry option file_run" where
  "load_entry E now l f =
     then_do (ledger_read_all E l now f) (\<lambda>stored f.
     if stored = [] then (Ok None, f)
     else
       then_do (load_loop E empty_state 0 0 (replicate 32 0) stored, f) (\<lambda>(s, nbytes, head_seq, head_event) f.
       if is_empty s then (Ok None, f)
       else
         let updated = (case cached_head f of None \<Rightarrow> now | Some h \<Rightarrow> sh_updated_ms h) in
         (Ok (Some \<lparr>en_state = s, en_head_seq = head_seq, en_head_event = head_event, en_bytes = nbytes,
            en_first_seen_ms = (case lf_meta f of None \<Rightarrow> updated | Some m \<Rightarrow> lm_first_seen_ms m),
            en_updated_ms = updated,
            en_source_endpoint = (case lf_meta f of None \<Rightarrow> None | Some m \<Rightarrow> lm_source_endpoint m),
            en_forks = load_forks E f\<rparr>), f)))"

fun reload_loop :: "env \<Rightarrow> u64 \<Rightarrow> index \<Rightarrow> ledger_id list \<Rightarrow> ledger_storage
    \<Rightarrow> (storage_error, index, ledger_storage) run" where
  "reload_loop E now ix [] S = (Ok ix, S)"
| "reload_loop E now ix (l # ls) S =
     then_do (on_files l (load_entry E now l) S) (\<lambda>loaded S.
     case loaded of
       None \<Rightarrow> reload_loop E now ix ls S
     | Some e \<Rightarrow> reload_loop E now
         \<lparr>ix_ledgers = bt_insert l e (ix_ledgers ix), ix_storage_used = ix_storage_used ix + en_bytes e\<rparr> ls S)"

definition reload :: "env \<Rightarrow> u64 \<Rightarrow> ledger_storage \<Rightarrow> (storage_error, unit, ledger_storage) run" where
  "reload E now S =
     then_do (reload_loop E now empty_index (home_ledgers (sg_home S)) S) (\<lambda>ix S.
     (Ok (), recheck (S\<lparr>sg_index := ix\<rparr>)))"

definition storage_open :: "env \<Rightarrow> u64 \<Rightarrow> node_home \<Rightarrow> endpoint_id \<Rightarrow> storage_caps \<Rightarrow> admission_policy
    \<Rightarrow> (storage_error, unit, ledger_storage) run" where
  "storage_open E now h endpoint caps policy =
     reload E now \<lparr>sg_home = h, sg_caps = caps, sg_policy = policy, sg_index = empty_index,
       sg_endpoint = endpoint, sg_entries = []\<rparr>"

definition saturating_sub :: "u64 \<Rightarrow> u64 \<Rightarrow> u64" where
  "saturating_sub a b = (if b \<le> a then a - b else 0)"

definition drop_entry :: "ledger_id \<Rightarrow> index \<Rightarrow> index" where
  "drop_entry l ix =
     (case bt_get (ix_ledgers ix) l of
        None \<Rightarrow> ix
      | Some previous \<Rightarrow> \<lparr>ix_ledgers = bt_remove l (ix_ledgers ix),
          ix_storage_used = saturating_sub (ix_storage_used ix) (en_bytes previous)\<rparr>)"

definition add_entry :: "ledger_id \<Rightarrow> entry \<Rightarrow> index \<Rightarrow> index" where
  "add_entry l e ix = \<lparr>ix_ledgers = bt_insert l e (ix_ledgers ix),
     ix_storage_used = ix_storage_used ix + en_bytes e\<rparr>"

definition note_ledger :: "env \<Rightarrow> u64 \<Rightarrow> ledger_id \<Rightarrow> ledger_storage \<Rightarrow> (storage_error, unit, ledger_storage) run" where
  "note_ledger E now l S =
     then_do (on_files l (load_entry E now l) S) (\<lambda>loaded S.
     let ix = drop_entry l (sg_index S);
         ix = (case loaded of None \<Rightarrow> ix | Some e \<Rightarrow> add_entry l e ix);
         S = S\<lparr>sg_index := ix\<rparr>
     in (Ok (), if l \<in> set (ap_witness_for (sg_policy S)) then recheck S else S))"

section \<open>Reads\<close>

definition adopt :: "env \<Rightarrow> u64 \<Rightarrow> ledger_id \<Rightarrow> ledger_storage \<Rightarrow> net_head option \<times> ledger_storage" where
  "adopt E now l S =
     (case on_files l (load_entry E now l) S of
        (Ok (Some e), S) \<Rightarrow> (Some (entry_head e), S\<lparr>sg_index := add_entry l e (sg_index S)\<rparr>)
      | (_, S) \<Rightarrow> (None, S))"

definition storage_head :: "env \<Rightarrow> u64 \<Rightarrow> ledger_id \<Rightarrow> ledger_storage \<Rightarrow> net_head option \<times> ledger_storage" where
  "storage_head E now l S =
     (case sg_entry S l of Some e \<Rightarrow> (Some (entry_head e), S) | None \<Rightarrow> adopt E now l S)"

definition storage_page :: "env \<Rightarrow> u64 \<Rightarrow> ledger_id \<Rightarrow> u64 \<Rightarrow> nat \<Rightarrow> ledger_storage
    \<Rightarrow> (storage_error, stored_page option, ledger_storage) run" where
  "storage_page E now l since limit S =
     (case storage_head E now l S of
        (None, S) \<Rightarrow> (Ok None, S)
      | (Some _, S) \<Rightarrow>
          (case sg_entry S l of
             None \<Rightarrow> (Ok None, S)
           | Some e \<Rightarrow>
               let seqs = take limit (seq_range since (en_head_seq e)) in
               then_do (try_map (\<lambda>seq. read_event l seq (sg_files S l)) seqs, S) (\<lambda>events S.
               (Ok (Some \<lparr>sp_report = entry_report e l (cp_fork_records (sg_caps S)), sp_events = events,
                  sp_more = (since + of_nat (length events) \<le> en_head_seq e)\<rparr>), S))))"

definition storage_read_from :: "env \<Rightarrow> u64 \<Rightarrow> ledger_id \<Rightarrow> u64 \<Rightarrow> nat \<Rightarrow> ledger_storage
    \<Rightarrow> (storage_error, event_page option, ledger_storage) run" where
  "storage_read_from E now l since limit S =
     then_do (storage_page E now l since limit S) (\<lambda>page S.
     (Ok (map_option (\<lambda>p. \<lparr>ep_events = sp_events p, ep_head_seq = sm_head_seq (lr_summary (sp_report p)),
        ep_more = sp_more p\<rparr>) page), S))"

definition names_witness :: "ledger_state \<Rightarrow> identity_id list \<Rightarrow> bool" where
  "names_witness s witnesses \<longleftrightarrow> list_ex (\<lambda>w. w \<in> set witnesses) (witness_identities s)"

definition enumerable :: "ledger_storage \<Rightarrow> ledger_id \<Rightarrow> entry \<Rightarrow> bool" where
  "enumerable S l e \<longleftrightarrow>
     (if can_sign_for (sg_home S) l then True
      else ap_witness_for (sg_policy S) \<noteq> [] \<and> names_witness (en_state e) (ap_witness_for (sg_policy S)))"

definition storage_list :: "nat \<Rightarrow> nat \<Rightarrow> ledger_storage \<Rightarrow> ledger_summary page" where
  "storage_list offset limit S =
     (let rows = filter (\<lambda>(l, e). enumerable S l e) (ix_ledgers (sg_index S));
          items = map (\<lambda>(l, e). entry_summary e l (cp_fork_records (sg_caps S))) (take limit (drop offset rows))
      in \<lparr>pg_items = items, pg_more = (offset + length items < length rows)\<rparr>)"

definition storage_reports :: "nat \<Rightarrow> nat \<Rightarrow> ledger_storage \<Rightarrow> ledger_report page" where
  "storage_reports offset limit S =
     (let rows = ix_ledgers (sg_index S);
          items = map (\<lambda>(l, e). entry_report e l (cp_fork_records (sg_caps S))) (take limit (drop offset rows))
      in \<lparr>pg_items = items, pg_more = (offset + length items < length rows)\<rparr>)"

definition storage_report :: "ledger_id \<Rightarrow> ledger_storage \<Rightarrow> ledger_report option" where
  "storage_report l S = map_option (\<lambda>e. entry_report e l (cp_fork_records (sg_caps S))) (sg_entry S l)"

definition storage_forks :: "ledger_id option \<Rightarrow> nat \<Rightarrow> nat \<Rightarrow> ledger_storage \<Rightarrow> fork_record page" where
  "storage_forks wanted offset limit S =
     (let rows = concat (map (\<lambda>(l, e). en_forks e)
            (filter (\<lambda>(l, e). case wanted of None \<Rightarrow> True | Some w \<Rightarrow> w = l) (ix_ledgers (sg_index S))));
          items = take limit (drop offset rows)
      in \<lparr>pg_items = items, pg_more = (offset + length items < length rows)\<rparr>)"

definition storage_totals :: "ledger_storage \<Rightarrow> totals" where
  "storage_totals S = \<lparr>tt_ledger_count = of_nat (length (ix_ledgers (sg_index S))),
     tt_fork_count = sum_list (map (\<lambda>(l, e). of_nat (length (en_forks e))) (ix_ledgers (sg_index S))),
     tt_storage_used = ix_storage_used (sg_index S)\<rparr>"

section \<open>Admission\<close>

definition legacy_admits :: "ledger_storage \<Rightarrow> ledger_state option \<Rightarrow> ledger_state \<Rightarrow> bool" where
  "legacy_admits S pre post \<longleftrightarrow>
     (if ap_witness_for (sg_policy S) = [] \<or> \<not> ap_accept_legacy (sg_policy S) then False
      else (case pre of None \<Rightarrow> False | Some s \<Rightarrow> sg_endpoint S \<in> set (ls_witness_endpoints s))
        \<or> sg_endpoint S \<in> set (ls_witness_endpoints post))"

definition refusal :: "note_texts \<Rightarrow> ledger_id \<Rightarrow> ledger_state \<Rightarrow> witness_for_entry list \<Rightarrow> store_error" where
  "refusal W l post entries =
     (if entries = [] then store_not_admitted (W (NoteWitnessesNobody l))
      else case find (\<lambda>e. wf_gap e \<noteq> None \<and> wf_identity e \<in> set (witness_identities post)) entries of
          Some e \<Rightarrow> store_not_admitted (W (NoteNotAdvertised l (wf_identity e) (the (wf_gap e))))
        | None \<Rightarrow> store_not_admitted (W (NoteNotNamed l (length entries))))"

definition storage_admit :: "note_texts \<Rightarrow> ledger_storage \<Rightarrow> ledger_id \<Rightarrow> ledger_state option \<Rightarrow> ledger_state
    \<Rightarrow> (store_error, unit) outcome" where
  "storage_admit W S l pre post =
     (if can_sign_for (sg_home S) l then Ok ()
      else if (case pre of None \<Rightarrow> False | Some s \<Rightarrow> names_witness s (ap_witness_for (sg_policy S))) then Ok ()
      else if names_witness post (map wf_identity (filter advertised (sg_entries S))) then Ok ()
      else if legacy_admits S pre post then Ok ()
      else Err (refusal W l post (sg_entries S)))"

section \<open>Pushes\<close>

definition seq_of :: "note_texts \<Rightarrow> bytes \<Rightarrow> (store_error, u64) outcome" where
  "seq_of W ev = ok_or (signed_event_seq ev) (store_malformed W 0 NoteNoSeq)"

fun check_contiguous :: "note_texts \<Rightarrow> u64 \<Rightarrow> bytes list \<Rightarrow> (store_error, unit) outcome" where
  "check_contiguous W want [] = Ok ()"
| "check_contiguous W want (ev # evs) =
     obind (seq_of W ev) (\<lambda>seq.
     if seq \<noteq> want then Err (store_malformed W seq (NoteOutOfRun seq want))
     else check_contiguous W (want + 1) evs)"

fun apply_run :: "env \<Rightarrow> ledger_state \<Rightarrow> nat \<Rightarrow> bytes list
    \<Rightarrow> (store_error, ledger_state \<times> nat \<times> reason option) outcome" where
  "apply_run E s offset [] = Ok (s, offset, None)"
| "apply_run E s offset (ev # evs) =
     (case apply_event E s ev of
        Ok s' \<Rightarrow> apply_run E s' (Suc offset) evs
      | Err r \<Rightarrow> Ok (s, offset, Some r)
      | Panic \<Rightarrow> Panic)"

definition check_caps :: "note_texts \<Rightarrow> ledger_storage \<Rightarrow> ledger_id \<Rightarrow> u64 \<Rightarrow> u64 \<Rightarrow> (store_error, unit) outcome" where
  "check_caps W S l events nbytes =
     (let caps = sg_caps S; e = sg_entry S l;
          held_events = (case e of None \<Rightarrow> 0 | Some e \<Rightarrow> event_count e);
          held_bytes = (case e of None \<Rightarrow> 0 | Some e \<Rightarrow> en_bytes e);
          used = ix_storage_used (sg_index S)
      in if held_events + events > cp_events_per_ledger caps
         then Err (too_large W (NoteEventsCap (held_events + events) (cp_events_per_ledger caps)))
         else if held_bytes + nbytes > cp_bytes_per_ledger caps
         then Err (too_large W (NoteBytesCap (held_bytes + nbytes) (cp_bytes_per_ledger caps)))
         else if e = None \<and> length (ix_ledgers (sg_index S)) \<ge> cp_ledgers caps
         then Err (too_large W (NoteLedgersCap (cp_ledgers caps)))
         else if used + nbytes > cp_storage_capacity caps
         then Err (too_large W (NoteCapacity (used + nbytes) (cp_storage_capacity caps)))
         else Ok ())"

fun build_batch :: "env \<Rightarrow> note_texts \<Rightarrow> u64 \<Rightarrow> bytes list \<Rightarrow> (store_error, new_event list) outcome" where
  "build_batch E W seq [] = Ok []"
| "build_batch E W seq (ev # evs) =
     obind (ok_or (signed_event_id E ev) (store_invalid seq (W NoteNoBody))) (\<lambda>i.
     obind (build_batch E W (seq + 1) evs) (\<lambda>rest.
     Ok (\<lparr>ne_seq = seq, ne_event_id = i, ne_bytes = ev\<rparr> # rest)))"

definition event_bytes :: "bytes list \<Rightarrow> u64" where
  "event_bytes events = sum_list (map (\<lambda>ev. of_nat (length ev)) events)"

definition store_run :: "env \<Rightarrow> note_texts \<Rightarrow> u64 \<Rightarrow> ledger_id \<Rightarrow> ledger_state \<Rightarrow> bytes list \<Rightarrow> provenance
    \<Rightarrow> ledger_storage \<Rightarrow> (store_error, push_outcome, ledger_storage) run" where
  "store_run E W now l s events prov S =
     (let head_seq = map_option en_head_seq (sg_entry S l) in
      if events = [] then
        (Ok \<lparr>po_head_seq = (case head_seq of None \<Rightarrow> 0 | Some q \<Rightarrow> q), po_stored = 0\<rparr>, S)
      else
        then_do (check_caps W S l (of_nat (length events)) (event_bytes events), S) (\<lambda>_ S.
        then_do (build_batch E W (case head_seq of None \<Rightarrow> 0 | Some q \<Rightarrow> q + 1) events, S) (\<lambda>batch S.
        then_do (if sg_entry S l = None
                 then on_files l (\<lambda>f. let (m, f) = note_first_seen prov now f
                                      in (Ok (lm_first_seen_ms m, lm_source_endpoint m), f)) S
                 else (Ok (now, None), S)) (\<lambda>(first_seen, source) S.
        then_do (run_map_err (unavailable W) (on_files l (ledger_append E l now batch) S)) (\<lambda>written S.
        then_do (expect written, S) (\<lambda>written S.
        let previous = (case sg_entry S l of
              Some e \<Rightarrow> e
            | None \<Rightarrow> \<lparr>en_state = empty_state, en_head_seq = sh_seq written, en_head_event = sh_event_id written,
                en_bytes = 0, en_first_seen_ms = first_seen, en_updated_ms = sh_updated_ms written,
                en_source_endpoint = source, en_forks = []\<rparr>);
            e = previous\<lparr>en_state := s, en_head_seq := sh_seq written, en_head_event := sh_event_id written,
                en_bytes := en_bytes previous + event_bytes events, en_updated_ms := sh_updated_ms written\<rparr>;
            S = S\<lparr>sg_index := \<lparr>ix_ledgers = bt_insert l e (ix_ledgers (sg_index S)),
                ix_storage_used = ix_storage_used (sg_index S) + event_bytes events\<rparr>\<rparr>;
            S = (if l \<in> set (ap_witness_for (sg_policy S)) then recheck S else S)
        in (Ok \<lparr>po_head_seq = sh_seq written, po_stored = of_nat (length events)\<rparr>, S)))))))"

definition ingest :: "env \<Rightarrow> note_texts \<Rightarrow> u64 \<Rightarrow> ledger_id \<Rightarrow> u64 \<Rightarrow> bytes list \<Rightarrow> provenance
    \<Rightarrow> ledger_storage \<Rightarrow> (store_error, push_outcome, ledger_storage) run" where
  "ingest E W now l first_seq events prov S =
     (if first_seq \<noteq> 0 then (Err (store_malformed W first_seq NoteMustStartAtZero), S)
      else
        then_do (apply_run E empty_state 0 events, S) (\<lambda>(s, valid, bad) S.
        if valid = 0 then
          then_do (expect bad, S) (\<lambda>r S. (Err (store_invalid 0 (W (NoteReason r))), S))
        else if ls_ledger s \<noteq> Some l then (Err (store_invalid 0 (W NoteOtherLedger)), S)
        else
          then_do (storage_admit W S l None s, S) (\<lambda>_ S.
          then_do (store_run E W now l s (take valid events) prov S) (\<lambda>stored S.
          case bad of
            Some r \<Rightarrow> (Err (store_invalid (of_nat valid) (W (NoteReason r))), S)
          | None \<Rightarrow> (Ok stored, S)))))"

text \<open>The state folded from the events before \<open>seq\<close>.\<close>

fun fold_prefix :: "env \<Rightarrow> ledger_state \<Rightarrow> bytes list \<Rightarrow> (storage_error, ledger_state) outcome" where
  "fold_prefix E s [] = Ok s"
| "fold_prefix E s (ev # evs) =
     (case apply_event E s ev of Ok s' \<Rightarrow> fold_prefix E s' evs | Err _ \<Rightarrow> Ok s | Panic \<Rightarrow> Panic)"

definition folded_to :: "env \<Rightarrow> u64 \<Rightarrow> ledger_id \<Rightarrow> u64 \<Rightarrow> ledger_files \<Rightarrow> ledger_state file_run" where
  "folded_to E now l seq f =
     then_do (ledger_read_from E l now 0 (Some (unat seq)) f) (\<lambda>stored f.
     (fold_prefix E empty_state (map st_bytes stored), f))"

fun fork_refusal :: "note_texts \<Rightarrow> ledger_id \<Rightarrow> u64 \<Rightarrow> fork_error \<Rightarrow> store_error" where
  "fork_refusal W l seq (Conflicting v) = store_invalid seq (W (NoteReason (vi_reason v)))"
| "fork_refusal W l seq (SameEvent _) = store_invalid seq (W NoteOutsideBody)"
| "fork_refusal W l seq ForkEmptyPrefix = store_invalid seq (W NoteOtherInception)"
| "fork_refusal W l seq (Kept v) = Unavailable (W (NoteKeptInvalid seq l v))"

definition record_divergence :: "env \<Rightarrow> note_texts \<Rightarrow> u64 \<Rightarrow> ledger_id \<Rightarrow> u64 \<Rightarrow> bytes \<Rightarrow> bytes \<Rightarrow> provenance
    \<Rightarrow> ledger_storage \<Rightarrow> (store_error, push_outcome, ledger_storage) run" where
  "record_divergence E W now l seq kept conflicting prov S =
     then_do (run_map_err (unavailable W) (on_files l (folded_to E now l seq) S)) (\<lambda>prefix S.
     then_do (map_err (fork_refusal W l seq) (validate_fork_record E prefix kept conflicting), S) (\<lambda>fk S.
     then_do (expect (sg_entry S l), S) (\<lambda>e S.
     let known = list_ex (\<lambda>r. fr_seq r = seq \<and> signed_event_id E (fr_conflicting r) = Some (fk_conflicting fk))
           (en_forks e);
         S = (if \<not> known \<and> \<not> forks_truncated e (cp_fork_records (sg_caps S)) then
                let r = \<lparr>fr_ledger = l, fr_seq = seq, fr_kept = kept, fr_conflicting = conflicting,
                       fr_observed_ms = now, fr_source_endpoint = prov\<rparr>;
                    S = snd (on_files l (\<lambda>f. (Ok () :: (storage_error, unit) outcome, record_fork seq (fk_conflicting fk) (fork_entry r) f)) S);
                    e = e\<lparr>en_forks := sort_key (fork_order E) (en_forks e @ [r])\<rparr>
                in S\<lparr>sg_index := (sg_index S)\<lparr>ix_ledgers := bt_insert l e (ix_ledgers (sg_index S))\<rparr>\<rparr>
              else S)
     in (Err (store_fork seq (W (NoteForked seq))), S))))"

datatype overlap = Fresh nat | Diverged u64 bytes bytes

fun overlap_loop :: "ledger_id \<Rightarrow> ledger_files \<Rightarrow> u64 \<Rightarrow> u64 \<Rightarrow> nat \<Rightarrow> bytes list
    \<Rightarrow> (storage_error, overlap) outcome" where
  "overlap_loop l f head_seq seq offset [] = Ok (Fresh offset)"
| "overlap_loop l f head_seq seq offset (ev # evs) =
     (if seq > head_seq then Ok (Fresh offset)
      else
        obind (read_event l seq f) (\<lambda>stored.
        if stored \<noteq> ev then Ok (Diverged seq stored ev)
        else overlap_loop l f head_seq (seq + 1) (Suc offset) evs))"

definition splice :: "env \<Rightarrow> note_texts \<Rightarrow> u64 \<Rightarrow> ledger_id \<Rightarrow> u64 \<Rightarrow> bytes list \<Rightarrow> provenance
    \<Rightarrow> ledger_storage \<Rightarrow> (store_error, push_outcome, ledger_storage) run" where
  "splice E W now l first_seq events prov S =
     then_do (expect (sg_entry S l), S) (\<lambda>e S.
     if first_seq > en_head_seq e + 1
     then (Err (store_malformed W first_seq (NoteGap (en_head_seq e) first_seq)), S)
     else
       then_do (map_err (unavailable W)
         (overlap_loop l (sg_files S l) (en_head_seq e) first_seq 0 events), S) (\<lambda>ov S.
       case ov of
         Diverged seq stored ev \<Rightarrow> record_divergence E W now l seq stored ev prov S
       | Fresh fresh \<Rightarrow>
           let suffix = drop fresh events in
           if suffix = [] then (Ok \<lparr>po_head_seq = en_head_seq e, po_stored = 0\<rparr>, S)
           else
             then_do (apply_run E (en_state e) 0 suffix, S) (\<lambda>(s, valid, bad) S.
             then_do (storage_admit W S l (Some (en_state e)) s, S) (\<lambda>_ S.
             then_do (store_run E W now l s (take valid suffix) prov S) (\<lambda>stored S.
             case bad of
               Some r \<Rightarrow> (Err (store_invalid (first_seq + of_nat (fresh + valid)) (W (NoteReason r))), S)
             | None \<Rightarrow> (Ok stored, S))))))"

definition storage_push :: "env \<Rightarrow> note_texts \<Rightarrow> u64 \<Rightarrow> ledger_id \<Rightarrow> bytes list \<Rightarrow> provenance
    \<Rightarrow> ledger_storage \<Rightarrow> (store_error, push_outcome, ledger_storage) run" where
  "storage_push E W now l events prov S =
     (if events = [] then
        (case sg_entry S l of
           Some e \<Rightarrow> (Ok \<lparr>po_head_seq = en_head_seq e, po_stored = 0\<rparr>, S)
         | None \<Rightarrow> (Err (refusal W l empty_state (sg_entries S)), S))
      else
        then_do (seq_of W (hd events), S) (\<lambda>first_seq S.
        then_do (check_contiguous W first_seq events, S) (\<lambda>_ S.
        if sg_entry S l \<noteq> None then splice E W now l first_seq events prov S
        else ingest E W now l first_seq events prov S)))"

end
