(* ===== verification/Sync_Encode.thy ===== *)
theory Sync_Encode
  imports Sync_Wire
begin

unbundle bit_operations_syntax

text \<open>
  The hand-written encoders of the sync layer write the canonical record layout, and
  its reader, which is laxer than the validator, reads that layout back. Both facts
  are about records; the frames are in \<open>Sync_Frames.thy\<close>.
\<close>

section \<open>Varints and keys\<close>

lemma byte_or_128: "(b :: byte) OR 128 = of_nat (unat b mod 128 + 128)"
proof -
  have div: "unat b div 128 = 0 \<or> unat b div 128 = 1" using unat_byte_less [of b] by linarith
  have "unat b = unat b mod 128 OR (unat b div 128) * 2 ^ 7"
    using nat_or_disjoint [of "unat b mod 128" 7 "unat b div 128"] by simp
  then have "unat b OR 128 = unat b mod 128 OR ((unat b div 128) * 2 ^ 7 OR 1 * 2 ^ 7)"
    using or.assoc [of "unat b mod 128" "(unat b div 128) * 2 ^ 7" 128] by simp
  also have "(unat b div 128) * 2 ^ 7 OR 1 * 2 ^ 7 = 1 * (2 ^ 7 :: nat)" using div by auto
  also have "unat b mod 128 OR 1 * 2 ^ 7 = unat b mod 128 + 128"
    by (subst nat_or_disjoint) simp_all
  finally have "unat (b OR 128) = unat b mod 128 + 128" by (simp add: unsigned_or_eq)
  then show ?thesis by (metis word_of_nat_unat_eq)
qed

lemma unat_low8: "unat (ucast (v :: u64) :: byte) = unat v mod 256"
  by (simp add: unsigned_ucast_eq take_bit_eq_mod)

lemma put_varint_eq: "put_varint v = varint_of (unat v)"
proof (induction v rule: put_varint.induct)
  case (1 v)
  show ?case
  proof (cases "v \<ge> 0x80")
    case True
    then have big: "\<not> unat v < 128" by (simp add: word_le_nat_alt)
    have "(ucast v :: byte) OR 128 = of_nat (unat v mod 128 + 128)"
      by (subst byte_or_128) (simp add: unat_low8 mod_mod_cancel)
    with 1 [OF True] True big show ?thesis
      unfolding put_varint.simps [of v] varint_of.simps [of "unat v"] by (simp add: unat_drop7)
  next
    case False
    then have small: "unat v < 128" by (simp add: word_le_nat_alt)
    have "(ucast v :: byte) = of_nat (unat v)" by simp
    with False small show ?thesis
      unfolding put_varint.simps [of v] varint_of.simps [of "unat v"] by simp
  qed
qed

lemma varint_len_eq: "varint_len v = length (varint_of (unat v))"
proof (induction v rule: varint_len.induct)
  case (1 v)
  then show ?case
    unfolding varint_len.simps [of v] varint_of.simps [of "unat v"] by (auto simp: unat_drop7 word_le_nat_alt)
qed

lemma unat_key:
  assumes "n < 2 ^ 29" and "unat w < 8"
  shows "unat (push_bit 3 (word_of_nat n :: u64) OR w) = 8 * n + unat w"
proof -
  have "unat (word_of_nat n :: u64) = n" using assms(1) by (intro unat_word_of_nat64) simp
  then have "unat (w OR push_bit 3 (word_of_nat n)) = unat w + n * 2 ^ 3"
    using assms by (subst unat_or_push) simp_all
  then show ?thesis by (simp add: or.commute)
qed

lemma put_key_eq: "n < 2 ^ 29 \<Longrightarrow> unat w < 8 \<Longrightarrow> put_key n w = varint_of (8 * n + unat w)"
  by (simp add: put_key_def put_varint_eq unat_key)

section \<open>Fields\<close>

lemma put_uint_eq: "n < 2 ^ 29 \<Longrightarrow> put_uint n v = enc_records (f_varint n v)"
  by (simp add: put_uint_def f_varint_def put_key_eq put_varint_eq)

lemma put_flag_eq: "n < 2 ^ 29 \<Longrightarrow> put_flag n b = enc_records (f_varint n (if b then 1 else 0))"
  by (simp add: put_flag_def f_varint_def put_key_eq put_varint_eq)

lemma put_message_eq:
  "n < 2 ^ 29 \<Longrightarrow> length b < 2 ^ 64 \<Longrightarrow> put_message n b = enc_record (n, VBytes b)"
  by (simp add: put_message_def put_key_eq put_varint_eq unat_of_nat)

lemma put_bytes_eq: "n < 2 ^ 29 \<Longrightarrow> length b < 2 ^ 64 \<Longrightarrow> put_bytes n b = enc_records (f_bytes n b)"
  by (simp add: put_bytes_def f_bytes_def put_message_eq)

lemma put_messages_eq:
  "n < 2 ^ 29 \<Longrightarrow> list_all (\<lambda>b. length b < 2 ^ 64) bs \<Longrightarrow>
   concat (map (put_message n) bs) = enc_records (f_repeated n bs)"
  by (induction bs) (auto simp: f_repeated_def put_message_eq)

lemma envelope_eq: "n < 2 ^ 29 \<Longrightarrow> length b < 2 ^ 64 \<Longrightarrow> envelope n b = enc_records [(n, VBytes b)]"
  by (simp add: envelope_def put_message_eq)

lemma entry_len_eq:
  "n < 2 ^ 29 \<Longrightarrow> length b < 2 ^ 64 \<Longrightarrow> entry_len n b = length (enc_record (n, VBytes b))"
  by (simp add: entry_len_def varint_len_eq unat_key unat_of_nat)

section \<open>Sizes\<close>

lemma varint_of_bound: "n < 128 ^ k \<Longrightarrow> 0 < k \<Longrightarrow> length (varint_of n) \<le> k"
proof (induction k arbitrary: n)
  case (Suc k)
  show ?case
  proof (cases "n < 128")
    case False
    with Suc.prems have "n div 128 < 128 ^ k" and "0 < k"
      by (auto simp: less_mult_imp_div_less mult.commute intro!: gr0I)
    with Suc.IH [of "n div 128"] False show ?thesis by (subst varint_of.simps) simp
  qed (simp add: varint_of.simps)
qed simp

lemma varint_of_64: "length (varint_of (unat (v :: u64))) \<le> 10"
proof (rule varint_of_bound)
  have "unat v < 2 ^ 64" using unsigned_less [of v, where ?'a = nat] by simp
  also have "(2 :: nat) ^ 64 \<le> 128 ^ 10" by simp
  finally show "unat v < 128 ^ 10" .
qed simp

lemma f_varint_short:
  assumes "n < 16"
  shows "length (enc_records (f_varint n v)) \<le> 11"
    and "unat v < 128 ^ k \<Longrightarrow> 0 < k \<Longrightarrow> length (enc_records (f_varint n v)) \<le> Suc k"
proof -
  have key: "length (varint_of (8 * n)) = 1" using assms by (subst varint_of.simps) simp
  show "length (enc_records (f_varint n v)) \<le> 11" using key varint_of_64 [of v] by (simp add: f_varint_def)
  show "length (enc_records (f_varint n v)) \<le> Suc k" if "unat v < 128 ^ k" "0 < k"
    using key varint_of_bound [OF that] by (simp add: f_varint_def)
qed

lemma enc_bytes_length:
  assumes "n < 15" and "length b < 128 ^ k" and "0 < k"
  shows "length (enc_record (n, VBytes b)) \<le> Suc k + length b"
proof -
  have "length (varint_of (8 * n + 2)) = 1" using assms(1) by (subst varint_of.simps) simp
  then show ?thesis using varint_of_bound [OF assms(2,3)] by simp
qed

lemma f_bytes_short:
  "n < 15 \<Longrightarrow> length b < 128 ^ k \<Longrightarrow> 0 < k \<Longrightarrow> length (enc_records (f_bytes n b)) \<le> Suc k + length b"
  using enc_bytes_length [of n b k] by (simp add: f_bytes_def)

section \<open>Reading back\<close>

lemma net_varint_agrees:
  "read_varint_loop msg v s bs = Ok (w, rest) \<Longrightarrow> s \<le> 63 \<Longrightarrow> net_varint_loop v s bs = Some (w, rest)"
  by (induction msg v s bs rule: read_varint_loop.induct) (auto simp: Let_def split: if_splits)

lemma net_varint_of: "n < 2 ^ 64 \<Longrightarrow> net_varint (varint_of n @ rest) = Some (word_of_nat n, rest)"
  using read_varint_complete [of n "[]" rest] net_varint_agrees [of "[]" 0 0 "varint_of n @ rest"]
  by (simp add: net_varint_def read_varint_def)

definition small_record :: "nat \<times> wvalue \<Rightarrow> bool" where
  "small_record r \<longleftrightarrow> fst r < 2 ^ 29 \<and> fits r"

lemma read_field_of:
  assumes "small_record (k, v)"
  shows "read_field (word_of_nat (8 * k + wire_kind_number (value_kind v))) (value_bytes v @ rest)
    = Some ((k, v), rest)"
proof -
  let ?w = "wire_kind_number (value_kind v)" and ?key = "word_of_nat (8 * k + wire_kind_number (value_kind v)) :: u64"
  have kw: "k < 2 ^ 29" "?w < 8"
    using assms by (auto simp: small_record_def value_kind_def split: wvalue.splits)
  have key: "unat ?key = 8 * k + ?w" by (rule unat_word_of_nat64) (use kw in simp)
  then have num: "unat (drop_bit 3 ?key) = k" and wire: "unat (?key AND 7) = ?w"
    using kw by (simp_all add: unat_key_number unat_key_wire)
  show ?thesis
  proof (cases v)
    case (VVarint x)
    then have "?key AND 7 = 0" using wire by (simp add: value_kind_def unat_eq_zero)
    then show ?thesis
      using VVarint num kw net_varint_of [of "unat x" rest] unsigned_less [of x, where ?'a = nat]
      by (simp add: read_field_def value_bytes_def Let_def)
  next
    case (VBytes b)
    have "unat (?key AND 7) = unat (2 :: u64)" using wire VBytes by (simp add: value_kind_def)
    then have "?key AND 7 = 2" by (rule unsigned_word_eqI)
    then show ?thesis
      using VBytes num kw assms net_varint_of [of "length b" "b @ rest"] unat_word_of_nat64 [of "length b"]
      by (simp add: read_field_def value_bytes_def Let_def small_record_def fits_def)
  qed
qed

lemma read_fields_of: "list_all small_record rs \<Longrightarrow> read_fields (enc_records rs) = Some rs"
proof (induction rs)
  case Nil
  then show ?case by (simp add: read_fields.simps)
next
  case (Cons r rs)
  obtain k v where r: "r = (k, v)" by force
  let ?n = "8 * k + wire_kind_number (value_kind v)"
  have "?n < 2 ^ 64" using Cons.prems r by (auto simp: small_record_def value_kind_def split: wvalue.splits)
  then have "net_varint (enc_records (r # rs)) = Some (word_of_nat ?n, value_bytes v @ enc_records rs)"
    using net_varint_of [of ?n "value_bytes v @ enc_records rs"] by (simp add: r enc_record_split)
  moreover have "enc_records (r # rs) \<noteq> []" by (simp add: r enc_record_split)
  ultimately show ?case
    using Cons read_field_of [of k v "enc_records rs"] by (subst read_fields.simps) (simp add: r)
qed

lemma small_record_iffs:
  "small_record (n, VVarint v) \<longleftrightarrow> n < 2 ^ 29"
  "small_record (n, VBytes b) \<longleftrightarrow> n < 2 ^ 29 \<and> length b < 2 ^ 64"
  "list_all small_record (f_varint n v) \<longleftrightarrow> (v \<noteq> 0 \<longrightarrow> n < 2 ^ 29)"
  "list_all small_record (f_bytes n b) \<longleftrightarrow> (b \<noteq> [] \<longrightarrow> n < 2 ^ 29 \<and> length b < 2 ^ 64)"
  "list_all small_record (f_repeated n bs) \<longleftrightarrow> (bs \<noteq> [] \<longrightarrow> n < 2 ^ 29) \<and> list_all (\<lambda>b. length b < 2 ^ 64) bs"
  by (cases bs; auto simp: small_record_def fits_def f_varint_def f_bytes_def f_repeated_def list_all_iff)+

section \<open>Reading fields of a layout\<close>

lemma get_repeated_other [simp]:
  "get_repeated (f_bytes k b) n = (if k = n \<and> b \<noteq> [] then [b] else [])"
  "get_repeated (f_varint k v) n = []"
  by (auto simp: f_bytes_def f_varint_def)

lemma get_repeated_list [simp]:
  "get_bytes (f_repeated k bs) n = (if k = n \<and> bs \<noteq> [] then Some (hd bs) else None)"
  "get_varint (f_repeated k bs) n = None"
  by (induction bs) (auto simp: f_repeated_def)

lemma read_uint_append [simp]:
  "read_uint (f_varint k v @ rs) n = (if k = n \<and> v \<noteq> 0 then v else read_uint rs n)"
  "read_uint (f_bytes k b @ rs) n = read_uint rs n"
  "read_uint (f_repeated k bs @ rs) n = read_uint rs n"
  "read_uint (f_varint k v) n = (if k = n then v else 0)"
  "read_uint (f_bytes k b) n = 0"
  "read_uint (f_repeated k bs) n = 0"
  "read_uint [] n = 0"
  by (auto simp: read_uint_def)

lemma read_id_Some [simp]: "read_id b = Some i \<longleftrightarrow> b = Some i \<and> length i = 32"
  by (auto simp: read_id_def id_from_slice_def size_defs split: option.splits outcome.splits if_splits)

lemma kind_variant_single [simp]: "kind_variant [(n, VBytes b)] = Some (n, b)"
  by simp

end
