(* ===== verification/Store_Facts.thy ===== *)
theory Store_Facts
  imports Node_Storage Sync_Encode
begin

text \<open>
  Facts below the storage invariant: a directory whose event files are the positions
  0, 1, 2 and so on of a list, what an append to such a directory does, also when it
  is cut off, and that the two readers of an event, \<open>prost\<close> and the sync layer's own,
  agree on every valid event.
\<close>

section \<open>Event files of a chain\<close>

definition event_files :: "bytes list \<Rightarrow> (u64, bytes) btree_map" where
  "event_files evs = map (\<lambda>k. (of_nat k, evs ! k)) [0 ..< length evs]"

abbreviation countable_events :: "bytes list \<Rightarrow> bool" where
  "countable_events evs \<equiv> length evs < 2 ^ 64"

lemma event_files_Nil [simp]: "event_files [] = []"
  by (simp add: event_files_def)

lemma event_files_snoc: "event_files (evs @ [ev]) = event_files evs @ [(of_nat (length evs), ev)]"
  by (simp add: event_files_def nth_append)

lemma event_files_eq_Nil [simp]: "event_files evs = [] \<longleftrightarrow> evs = []"
  by (simp add: event_files_def)

lemma event_files_insert:
  assumes "countable_events evs"
  shows "bt_insert (of_nat (length evs)) ev (event_files evs) = event_files (evs @ [ev])"
proof -
  have "(of_nat k :: u64) < of_nat (length evs)" if "k < length evs" for k
    using that assms by (simp add: word_less_nat_alt unat_word_of_nat64)
  then show ?thesis
    unfolding event_files_snoc by (intro bt_insert_last) (auto simp: event_files_def)
qed

lemma event_files_get:
  assumes "countable_events evs"
  shows "bt_get (event_files evs) q = (if unat q < length evs then Some (evs ! unat q) else None)"
  using assms
proof (induction evs rule: rev_induct)
  case (snoc ev evs)
  from snoc.prems have len: "countable_events evs" "unat (of_nat (length evs) :: u64) = length evs"
    by (simp_all add: unat_word_of_nat64)
  then have eq: "q = of_nat (length evs) \<longleftrightarrow> unat q = length evs" by (metis unsigned_word_eqI)
  have "bt_get (event_files (evs @ [ev])) q = (if q = of_nat (length evs) then Some ev else bt_get (event_files evs) q)"
    unfolding event_files_insert [OF len(1), symmetric] by (rule bt_get_insert)
  then show ?case using snoc.IH len(1) eq by (auto simp: nth_append)
qed simp

lemma of_nat_sorted: "n \<le> 2 ^ 64 \<Longrightarrow> sorted (map (of_nat :: nat \<Rightarrow> u64) [0 ..< n])"
  by (auto simp: sorted_iff_nth_mono word_le_nat_alt unat_word_of_nat64)

lemma event_files_sequences:
  assumes "countable_events evs" and "lf_events f = event_files evs"
  shows "sequences f = map of_nat [0 ..< length evs]"
proof -
  have "map fst (event_files evs) = map of_nat [0 ..< length evs]" by (simp add: event_files_def comp_def)
  then show ?thesis using assms of_nat_sorted [of "length evs"] by (simp add: sequences_def sorted_sort_id)
qed

lemma contiguous_loop_run:
  "contiguous_loop i last_seq (map of_nat [i ..< n]) = (if i < n then Some (of_nat (n - 1)) else last_seq)"
proof (induction "n - i" arbitrary: i last_seq)
  case (Suc d)
  then have "i < n" and "d = n - Suc i" by simp_all
  moreover have "n - 1 = i" if "\<not> Suc i < n" using that \<open>i < n\<close> by simp
  ultimately show ?case using Suc.hyps(1) [of "Suc i" "Some (of_nat i)"] by (auto simp: upt_conv_Cons simp del: of_nat_diff)
qed simp

lemma contiguous_last_run: "contiguous_last (map of_nat [0 ..< n]) = (if 0 < n then Some (of_nat (n - 1)) else None)"
  by (simp add: contiguous_last_def contiguous_loop_run)

section \<open>Ranges\<close>

lemma seq_range_0: "n < 2 ^ 64 \<Longrightarrow> seq_range 0 (of_nat n) = map of_nat [0 ..< Suc n]"
  by (simp add: seq_range_def unat_word_of_nat64)

lemma seq_range_files:
  assumes "countable_events evs" and "evs \<noteq> []" and "lf_events f = event_files evs"
  shows "try_map (\<lambda>q. read_event l q f) (take n (seq_range since (of_nat (length evs - 1))))
    = Ok (take n (drop (unat since) evs))"
proof -
  have last: "unat (of_nat (length evs - 1) :: u64) = length evs - 1" using assms(1) by (intro unat_word_of_nat64) simp
  then have range: "seq_range since (of_nat (length evs - 1)) = map of_nat [unat since ..< length evs]"
    using assms(2) by (simp add: seq_range_def)
  have read: "read_event l (of_nat k) f = Ok (evs ! k)" if "k < length evs" for k
    using that assms(1,3) by (simp add: read_event_def event_files_get unat_word_of_nat64)
  have "try_map (\<lambda>q. read_event l q f) (map of_nat ks) = Ok (map ((!) evs) ks)" if "\<forall>k\<in>set ks. k < length evs" for ks
    using that by (induction ks) (auto simp: read)
  moreover have "\<forall>k\<in>set (take n [unat since ..< length evs]). k < length evs" using in_set_takeD by fastforce
  ultimately have "try_map (\<lambda>q. read_event l q f) (map of_nat (take n [unat since ..< length evs]))
      = Ok (map ((!) evs) (take n [unat since ..< length evs]))" by blast
  moreover have "map ((!) evs) (take n [unat since ..< length evs]) = take n (drop (unat since) evs)"
    by (rule nth_equalityI) auto
  ultimately show ?thesis unfolding range take_map by simp
qed

section \<open>One event, two readers\<close>

lemma short_records:
  "length (enc_records rs) < 2 ^ 64 \<Longrightarrow> \<forall>r\<in>set rs. fst r < 2 ^ 29 \<Longrightarrow> list_all small_record rs"
proof (induction rs)
  case (Cons r rs)
  then have len: "length (enc_record r) < 2 ^ 64" and rest: "list_all small_record rs" by simp_all
  obtain n v where "r = (n, v)" by force
  then have "small_record r"
    using len Cons.prems(2) by (cases v) (auto simp: small_record_iffs)
  with rest show ?case by simp
qed simp

lemma layout_numbers:
  "r \<in> set (f_bytes n b) \<Longrightarrow> fst r = n" "r \<in> set (f_varint n v) \<Longrightarrow> fst r = n"
  "r \<in> set (f_message n rs) \<Longrightarrow> fst r = n"
  by (auto simp: f_bytes_def f_varint_def f_message_def split: if_splits)

lemma payload_numbers: "r \<in> set (payload_records p) \<Longrightarrow> 10 \<le> fst r \<and> fst r < 20"
  by (cases p rule: payload_records.cases) (auto simp: f_message_def)

lemma body_numbers: "r \<in> set (event_body_records b) \<Longrightarrow> fst r < 2 ^ 29"
  using payload_numbers [of r "eb_payload b"]
  by (auto simp: event_body_records_def dest!: layout_numbers)

lemma signed_numbers: "r \<in> set (signed_event_records m) \<Longrightarrow> fst r < 2 ^ 29"
  by (auto simp: signed_event_records_def dest!: layout_numbers)

lemma read_payload: "read_uint (payload_records p) 3 = 0"
  by (cases p rule: payload_records.cases) (simp_all add: read_uint_def f_message_def)

lemma valid_event_bodies:
  assumes "valid_event E ev m b"
  shows "signed_event_body ev = Some (se_body m)"
    and "signed_event_id E ev = Some (event_id E (se_body m))"
    and "signed_event_seq ev = Some (eb_seq b)"
proof -
  have ev: "ev = enc_records (signed_event_records m)" and body: "se_body m = enc_records (event_body_records b)"
    and len: "length ev \<le> MAX_EVENT_BYTES" and key: "length (eb_author_key b) = ID_BYTES"
    using assms unfolding valid_event_def valid_body_def by blast+
  have "length ev < 2 ^ 64" using len by (simp add: size_defs)
  then have "list_all small_record (signed_event_records m)"
    using signed_numbers by (intro short_records) (auto simp: ev)
  then have fields: "read_fields ev = Some (signed_event_records m)" unfolding ev by (rule read_fields_of)
  have "se_body m \<noteq> []" using key by (auto simp: body event_body_records_def f_bytes_def ID_BYTES_def)
  then show b: "signed_event_body ev = Some (se_body m)"
    by (simp add: signed_event_body_def fields signed_event_records_def)
  then show "signed_event_id E ev = Some (event_id E (se_body m))" by (simp add: signed_event_id_def)
  have "length (se_body m) \<le> length ev" by (simp add: ev signed_event_records_def f_bytes_def)
  then have "list_all small_record (event_body_records b)"
    using body_numbers \<open>length ev < 2 ^ 64\<close> by (intro short_records) (auto simp: body)
  then have "read_fields (se_body m) = Some (event_body_records b)" unfolding body by (rule read_fields_of)
  then show "signed_event_seq ev = Some (eb_seq b)"
    by (simp add: signed_event_seq_def b event_body_records_def read_payload)
qed

section \<open>Runs of events\<close>

lemma apply_run_Ok:
  "apply_run E s k evs = Ok (s', v, bad) \<longleftrightarrow>
   (\<exists>n \<le> length evs. v = k + n \<and> fold_from E s (take n evs) = Ok (s', None)
      \<and> (case bad of None \<Rightarrow> n = length evs | Some r \<Rightarrow> n < length evs \<and> apply_event E s' (evs ! n) = Err r))"
proof (induction evs arbitrary: s k)
  case (Cons ev evs)
  have split: "(\<exists>n \<le> Suc (length evs). P n) \<longleftrightarrow> P 0 \<or> (\<exists>n \<le> length evs. P (Suc n))" for P
    by (metis Suc_le_mono le0 not0_implies_Suc)
  show ?case
    by (cases "apply_event E s ev") (auto simp: split Cons.IH split: option.splits)
qed (auto split: option.splits)

lemma apply_run_outcome:
  "apply_run E s k evs \<noteq> Err e" "apply_run E s k evs = Panic \<longleftrightarrow> fold_from E s evs = Panic"
  by (induction E s k evs rule: apply_run.induct) (auto split: outcome.splits)

definition valid_bytes :: "env \<Rightarrow> bytes \<Rightarrow> bool" where
  "valid_bytes E ev \<longleftrightarrow> (\<exists>m b. valid_event E ev m b)"

lemma fold_valid: "fold_from E s evs = Ok (s', None) \<Longrightarrow> list_all (valid_bytes E) evs"
proof (induction evs arbitrary: s)
  case (Cons ev evs)
  then show ?case
    using apply_event_Ok_valid [of E s ev] by (cases "apply_event E s ev") (auto simp: valid_bytes_def)
qed simp

fun batch_of :: "env \<Rightarrow> u64 \<Rightarrow> bytes list \<Rightarrow> new_event list" where
  "batch_of E seq [] = []"
| "batch_of E seq (ev # evs) =
     \<lparr>ne_seq = seq, ne_event_id = the (signed_event_id E ev), ne_bytes = ev\<rparr> # batch_of E (seq + 1) evs"

lemma batch_of_Nil [simp]: "batch_of E q evs = [] \<longleftrightarrow> evs = []"
  by (cases evs) simp_all

lemma batch_of_length [simp]: "length (batch_of E q evs) = length evs"
  by (induction E q evs rule: batch_of.induct) simp_all

lemma batch_of_last:
  "evs \<noteq> [] \<Longrightarrow> ne_seq (last (batch_of E q evs)) = q + of_nat (length evs - 1)
   \<and> ne_event_id (last (batch_of E q evs)) = the (signed_event_id E (last evs))"
  by (induction E q evs rule: batch_of.induct) (auto simp: algebra_simps neq_Nil_conv)

lemma build_batch_valid: "list_all (valid_bytes E) evs \<Longrightarrow> build_batch E W q evs = Ok (batch_of E q evs)"
  by (induction E W q evs rule: build_batch.induct) (auto simp: valid_bytes_def dest!: valid_event_bodies(2))

lemma check_run_batch:
  assumes "prost_codec E" and "list_all (valid_bytes E) evs"
    and "\<And>k. k < length evs \<Longrightarrow> bt_get (lf_events f) (q + of_nat k) = None \<or> bt_get (lf_events f) (q + of_nat k) = Some (evs ! k)"
  shows "check_run E l q (batch_of E q evs) f = Ok ()"
  using assms(2,3)
proof (induction evs arbitrary: q)
  case (Cons ev evs)
  from Cons.prems(1) obtain m b where v: "valid_event E ev m b" by (auto simp: valid_bytes_def)
  have "event_id_of E q ev = Ok (the (signed_event_id E ev))"
    using decode_valid_event(1) [OF assms(1) v] valid_event_bodies(2) [OF v] by (simp add: event_id_of_def)
  moreover have "\<not> holds_other_bytes q ev f"
    using Cons.prems(2) [of 0] by (auto simp: holds_other_bytes_def)
  moreover have "check_run E l (q + 1) (batch_of E (q + 1) evs) f = Ok ()"
  proof (rule Cons.IH)
    fix k assume "k < length evs"
    then show "bt_get (lf_events f) (q + 1 + of_nat k) = None \<or> bt_get (lf_events f) (q + 1 + of_nat k) = Some (evs ! k)"
      using Cons.prems(2) [of "Suc k"] by (simp add: add.assoc)
  qed (use Cons.prems in simp)
  ultimately show ?case by simp
qed simp

lemma write_batch:
  "lf_events f = event_files old \<Longrightarrow> length old + length evs < 2 ^ 64 \<Longrightarrow>
   fold write_event (batch_of E (of_nat (length old)) evs) f = f\<lparr>lf_events := event_files (old @ evs)\<rparr>"
proof (induction evs arbitrary: old f)
  case (Cons ev evs)
  let ?f = "write_event \<lparr>ne_seq = of_nat (length old), ne_event_id = the (signed_event_id E ev), ne_bytes = ev\<rparr> f"
  have "?f = f\<lparr>lf_events := event_files (old @ [ev])\<rparr>"
    using Cons.prems event_files_insert [of old ev] by (simp add: write_event_def)
  moreover from this have "fold write_event (batch_of E (of_nat (length (old @ [ev]))) evs) ?f
      = ?f\<lparr>lf_events := event_files ((old @ [ev]) @ evs)\<rparr>"
    using Cons.prems(2) by (intro Cons.IH) simp_all
  ultimately show ?case by (simp add: add.commute)
qed simp

lemma take_batch: "take n (batch_of E q evs) = batch_of E q (take n evs)"
  by (induction E q evs arbitrary: n rule: batch_of.induct) (auto simp: take_Cons split: nat.splits)

section \<open>Directories that hold a chain\<close>

text \<open>The event files are those of a list of valid events and the head cache, if any, names the last.\<close>

definition head_for :: "env \<Rightarrow> u64 \<Rightarrow> bytes list \<Rightarrow> store_head" where
  "head_for E now evs = \<lparr>sh_seq = of_nat (length evs - 1), sh_event_id = the (signed_event_id E (last evs)),
     sh_updated_ms = now\<rparr>"

definition in_sync :: "env \<Rightarrow> bytes list \<Rightarrow> ledger_files \<Rightarrow> bool" where
  "in_sync E evs f \<longleftrightarrow> lf_events f = event_files evs \<and> countable_events evs \<and> list_all (valid_bytes E) evs
     \<and> (case lf_head f of None \<Rightarrow> True | Some h \<Rightarrow> evs \<noteq> [] \<and> h = head_for E (sh_updated_ms h) evs)"

lemma head_in_sync:
  assumes "prost_codec E" and "in_sync E evs f"
  shows "\<exists>t. ledger_head E l now f = (if evs = [] then (Ok None, f)
      else (Ok (Some (head_for E t evs)), f\<lparr>lf_head := Some (head_for E t evs)\<rparr>))"
proof (cases "lf_head f")
  case (Some h)
  then have "evs \<noteq> []" "h = head_for E (sh_updated_ms h) evs" using assms(2) by (auto simp: in_sync_def)
  moreover have "f\<lparr>lf_head := Some h\<rparr> = f" using Some by simp
  ultimately show ?thesis using Some
    by (intro exI [of _ "sh_updated_ms h"]) (simp add: ledger_head_def cached_head_def)
next
  case None
  have ev: "lf_events f = event_files evs" "countable_events evs" "list_all (valid_bytes E) evs"
    using assms(2) by (auto simp: in_sync_def)
  have last_seq: "contiguous_last (sequences f) = (if evs = [] then None else Some (of_nat (length evs - 1)))"
    using ev by (simp add: event_files_sequences contiguous_last_run del: of_nat_diff)
  show ?thesis
  proof (cases "evs = []")
    case False
    from ev(3) False obtain m b where v: "valid_event E (last evs) m b"
      by (auto simp: valid_bytes_def list_all_iff dest: bspec [of _ _ "last evs"])
    have "unat (of_nat (length evs - 1) :: u64) = length evs - 1" using ev(2) by (intro unat_word_of_nat64) simp
    then have "read_event l (of_nat (length evs - 1)) f = Ok (last evs)"
      using False ev by (simp add: read_event_def event_files_get last_conv_nth)
    moreover have "event_id_of E q (last evs) = Ok (the (signed_event_id E (last evs)))" for q
      using decode_valid_event(1) [OF assms(1) v] valid_event_bodies(2) [OF v] by (simp add: event_id_of_def)
    ultimately show ?thesis
      using False None last_seq
      by (intro exI [of _ now]) (simp add: ledger_head_def cached_head_def rebuild_head_def write_head_def head_for_def Let_def)
  qed (use None last_seq in \<open>simp add: ledger_head_def cached_head_def rebuild_head_def\<close>)
qed

definition stored_run :: "bytes list \<Rightarrow> nat list \<Rightarrow> stored_event list" where
  "stored_run evs ks = map (\<lambda>k. \<lparr>st_seq = of_nat k, st_bytes = evs ! k\<rparr>) ks"

lemma stored_run_bytes: "map st_bytes (stored_run evs (take n [m ..< length evs])) = take n (drop m evs)"
  by (rule nth_equalityI) (auto simp: stored_run_def)

lemma read_stored:
  assumes "lf_events f = event_files evs" and "countable_events evs" and "\<forall>k\<in>set ks. k < length evs"
  shows "try_map (\<lambda>q. obind (read_event l q f) (\<lambda>bs. Ok \<lparr>st_seq = q, st_bytes = bs\<rparr>)) (map of_nat ks)
    = Ok (stored_run evs ks)"
  using assms(3)
proof (induction ks)
  case (Cons k ks)
  then have "read_event l (of_nat k) f = Ok (evs ! k)"
    using assms(1,2) by (simp add: read_event_def event_files_get unat_word_of_nat64)
  then show ?case using Cons by (simp add: stored_run_def)
qed (simp add: stored_run_def)

lemma in_sync_head: "in_sync E evs f \<Longrightarrow> evs \<noteq> [] \<Longrightarrow> in_sync E evs (f\<lparr>lf_head := Some (head_for E t evs)\<rparr>)"
  by (simp add: in_sync_def head_for_def)

lemma read_from_in_sync:
  assumes "prost_codec E" and "in_sync E evs f"
  shows "\<exists>f'. ledger_read_from E l now since limit f
      = (Ok (stored_run evs (take (case limit of None \<Rightarrow> length evs | Some n \<Rightarrow> n) [unat since ..< length evs])), f')
     \<and> (f' = f \<or> (\<exists>t. evs \<noteq> [] \<and> f' = f\<lparr>lf_head := Some (head_for E t evs)\<rparr>))"
proof -
  from head_in_sync [OF assms, of l now] obtain t where h: "ledger_head E l now f = (if evs = [] then (Ok None, f)
      else (Ok (Some (head_for E t evs)), f\<lparr>lf_head := Some (head_for E t evs)\<rparr>))" by blast
  have ev: "lf_events f = event_files evs" "countable_events evs" using assms(2) by (auto simp: in_sync_def)
  show ?thesis
  proof (cases "evs = []")
    case True
    then show ?thesis by (simp add: ledger_read_from_def h stored_run_def)
  next
    case False
    let ?f = "f\<lparr>lf_head := Some (head_for E t evs)\<rparr>" and ?n = "case limit of None \<Rightarrow> length evs | Some n \<Rightarrow> n"
    have "unat (of_nat (length evs - 1) :: u64) = length evs - 1" using ev(2) by (intro unat_word_of_nat64) simp
    then have range: "seq_range since (sh_seq (head_for E t evs)) = map of_nat [unat since ..< length evs]"
      using False by (simp add: seq_range_def head_for_def)
    let ?qs = "map of_nat [unat since ..< length evs] :: u64 list"
    have "take ?n ?qs = (case limit of None \<Rightarrow> ?qs | Some n \<Rightarrow> take n ?qs)" by (simp split: option.split)
    moreover have "\<forall>k\<in>set (take ?n [unat since ..< length evs]). k < length evs" using in_set_takeD by fastforce
    ultimately show ?thesis
      using False read_stored [of ?f evs "take ?n [unat since ..< length evs]" l] ev
      by (simp add: ledger_read_from_def h range take_map) blast
  qed
qed

section \<open>Appends\<close>

lemma write_events_in_sync:
  assumes "prost_codec E" and "in_sync E old f" and "list_all (valid_bytes E) evs" and "evs \<noteq> []"
    and "length old + length evs < 2 ^ 64"
  shows "\<exists>f0. write_events E l now (batch_of E (of_nat (length old)) evs) f
      = (Ok (head_for E now (old @ evs)), fold write_event (batch_of E (of_nat (length old)) evs) f0)
    \<and> (f0 = create_dir f \<or> (\<exists>t. old \<noteq> [] \<and> f0 = create_dir f\<lparr>lf_head := Some (head_for E t old)\<rparr>))"
proof -
  have sync: "in_sync E old (create_dir f)" using assms(2) by (simp add: in_sync_def create_dir_def)
  from head_in_sync [OF assms(1) this, of l now] obtain t where h: "ledger_head E l now (create_dir f) =
      (if old = [] then (Ok None, create_dir f)
       else (Ok (Some (head_for E t old)), (create_dir f)\<lparr>lf_head := Some (head_for E t old)\<rparr>))" by blast
  let ?f0 = "if old = [] then create_dir f else (create_dir f)\<lparr>lf_head := Some (head_for E t old)\<rparr>"
  have ev: "lf_events ?f0 = event_files old" "countable_events old"
    using sync by (auto simp: in_sync_def)
  have expected: "(case (if old = [] then None else Some (head_for E t old)) of None \<Rightarrow> 0 | Some h \<Rightarrow> sh_seq h + 1)
      = (of_nat (length old) :: u64)"
    by (cases old) (simp_all add: head_for_def)
  have "bt_get (lf_events ?f0) (of_nat (length old) + of_nat k) = None" if "k < length evs" for k
  proof -
    have "unat (of_nat (length old + k) :: u64) = length old + k" using that assms(5) by (intro unat_word_of_nat64) simp
    then show ?thesis using ev event_files_get [of old "of_nat (length old + k)"] by simp
  qed
  then have check: "check_run E l (of_nat (length old)) (batch_of E (of_nat (length old)) evs) ?f0 = Ok ()"
    by (intro check_run_batch [OF assms(1,3)]) simp
  have last: "ne_seq (last (batch_of E (of_nat (length old)) evs)) = of_nat (length (old @ evs) - 1)"
    "ne_event_id (last (batch_of E (of_nat (length old)) evs)) = the (signed_event_id E (last (old @ evs)))"
    using batch_of_last [OF assms(4)] assms(4) by (simp_all add: of_nat_diff Suc_le_eq)
  have "write_events E l now (batch_of E (of_nat (length old)) evs) f
      = (Ok (head_for E now (old @ evs)), fold write_event (batch_of E (of_nat (length old)) evs) ?f0)"
    using check expected assms(4) unfolding write_events_def h
    by (cases "old = []") (use last in \<open>simp_all add: Let_def head_for_def\<close>)
  then show ?thesis by (intro exI [of _ ?f0]) auto
qed

lemma append_in_sync:
  assumes "prost_codec E" and "in_sync E old f" and "list_all (valid_bytes E) evs" and "evs \<noteq> []"
    and "length old + length evs < 2 ^ 64"
  shows "ledger_append E l now (batch_of E (of_nat (length old)) evs) f =
    (Ok (Some (head_for E now (old @ evs))),
     f\<lparr>lf_dir := True, lf_events := event_files (old @ evs), lf_head := Some (head_for E now (old @ evs))\<rparr>)"
proof -
  from write_events_in_sync [OF assms, of l now] obtain f0 where
    w: "write_events E l now (batch_of E (of_nat (length old)) evs) f
      = (Ok (head_for E now (old @ evs)), fold write_event (batch_of E (of_nat (length old)) evs) f0)"
    and f0: "f0 = create_dir f \<or> (\<exists>t. old \<noteq> [] \<and> f0 = create_dir f\<lparr>lf_head := Some (head_for E t old)\<rparr>)" by blast
  have "lf_events f0 = event_files old" using f0 assms(2) by (auto simp: in_sync_def create_dir_def)
  then have "fold write_event (batch_of E (of_nat (length old)) evs) f0 = f0\<lparr>lf_events := event_files (old @ evs)\<rparr>"
    using assms(5) by (rule write_batch)
  with w f0 assms(4) show ?thesis by (auto simp: ledger_append_def write_head_def create_dir_def)
qed

lemma in_sync_append:
  "in_sync E old f \<Longrightarrow> list_all (valid_bytes E) evs \<Longrightarrow> evs \<noteq> [] \<Longrightarrow> length old + length evs < 2 ^ 64 \<Longrightarrow>
   in_sync E (old @ evs) (f\<lparr>lf_dir := True, lf_events := event_files (old @ evs),
     lf_head := Some (head_for E now (old @ evs))\<rparr>)"
  by (simp add: in_sync_def head_for_def)

section \<open>Appends that are cut off\<close>

text \<open>
  The file writes of an append, in order: the directory, the head cache when it has to
  be rebuilt, one file per event, and last the head cache. Each is atomic, so a process
  that dies leaves the writes before some point done and none after it.
\<close>

definition append_writes :: "env \<Rightarrow> ledger_id \<Rightarrow> u64 \<Rightarrow> new_event list \<Rightarrow> ledger_files
    \<Rightarrow> (ledger_files \<Rightarrow> ledger_files) list" where
  "append_writes E l now events f =
     create_dir
     # (case (cached_head f, fst (ledger_head E l now (create_dir f))) of
          (None, Ok (Some h)) \<Rightarrow> [write_head h] | _ \<Rightarrow> [])
     @ (case fst (write_events E l now events f) of
          Ok h \<Rightarrow> map write_event events @ [write_head h] | _ \<Rightarrow> [])"

definition cut_append :: "nat \<Rightarrow> env \<Rightarrow> ledger_id \<Rightarrow> u64 \<Rightarrow> new_event list \<Rightarrow> ledger_files \<Rightarrow> ledger_files" where
  "cut_append n E l now events f = fold id (take n (append_writes E l now events f)) f"

lemma cut_append_whole:
  assumes "events \<noteq> []" and "length (append_writes E l now events f) \<le> n"
  shows "cut_append n E l now events f = snd (ledger_append E l now events f)"
proof -
  let ?h = "ledger_head E l now (create_dir f)"
  have rebuilt: "snd ?h = fold id (case (cached_head f, fst ?h) of
      (None, Ok (Some h)) \<Rightarrow> [write_head h] | _ \<Rightarrow> []) (create_dir f)"
    by (auto simp: ledger_head_def rebuild_head_def cached_head_def create_dir_def Let_def then_do_def
        split: option.split outcome.split)
  show ?thesis
  proof (cases "fst ?h")
    case (Ok h)
    let ?expected = "case h of None \<Rightarrow> 0 | Some h \<Rightarrow> sh_seq h + 1"
    show ?thesis
      using assms Ok rebuilt
      by (cases "check_run E l ?expected events (snd ?h)")
         (simp_all add: cut_append_def append_writes_def ledger_append_def write_events_def then_do_def Let_def fold_map)
  qed (use assms rebuilt in \<open>simp_all add: cut_append_def append_writes_def ledger_append_def write_events_def then_do_def\<close>)
qed

text \<open>What a directory serves: the events up to its head.\<close>

definition serves :: "env \<Rightarrow> bytes list \<Rightarrow> ledger_files \<Rightarrow> bool" where
  "serves E evs f \<longleftrightarrow> (\<forall>l now. \<exists>r. fst (ledger_read_all E l now f) = Ok r \<and> map st_bytes r = evs)"

lemma stored_run_all: "map st_bytes (stored_run (evs @ rest) [0 ..< length evs]) = evs"
  by (rule nth_equalityI) (simp_all add: stored_run_def nth_append)

lemma in_sync_serves: "prost_codec E \<Longrightarrow> in_sync E evs f \<Longrightarrow> serves E evs f"
  unfolding serves_def
proof (intro allI)
  fix l now
  assume "prost_codec E" "in_sync E evs f"
  from read_from_in_sync [OF this, of l now 0 None]
  show "\<exists>r. fst (ledger_read_all E l now f) = Ok r \<and> map st_bytes r = evs"
    using stored_run_all [of evs "[]"] by (auto simp: ledger_read_all_def)
qed

lemma ahead_serves:
  assumes "lf_head f = Some (head_for E t evs)" and "evs \<noteq> []" and "lf_events f = event_files (evs @ rest)"
    and "countable_events (evs @ rest)"
  shows "serves E evs f"
  unfolding serves_def
proof (intro allI)
  fix l now
  have "unat (of_nat (length evs - 1) :: u64) = length evs - 1" using assms(4) by (intro unat_word_of_nat64) simp
  then have "seq_range 0 (sh_seq (head_for E t evs)) = map of_nat [0 ..< length evs]"
    using assms(2) by (simp add: seq_range_def head_for_def)
  moreover have "\<forall>k\<in>set [0 ..< length evs]. k < length (evs @ rest)" by auto
  ultimately have "fst (ledger_read_all E l now f) = Ok (stored_run (evs @ rest) [0 ..< length evs])"
    using assms read_stored [OF assms(3,4), of "[0 ..< length evs]" l]
    by (simp add: ledger_read_all_def ledger_read_from_def ledger_head_def cached_head_def)
  then show "\<exists>r. fst (ledger_read_all E l now f) = Ok r \<and> map st_bytes r = evs" using stored_run_all by blast
qed

lemma batch_cut_serves:
  assumes "prost_codec E" and "in_sync E old g" and "old \<noteq> [] \<longleftrightarrow> lf_head g \<noteq> None"
    and "list_all (valid_bytes E) evs" and "length old + length evs < 2 ^ 64"
  shows "\<exists>k \<le> length evs. serves E (old @ take k evs) (fold write_event (batch_of E (of_nat (length old)) (take j evs)) g)
    \<and> (old \<noteq> [] \<longrightarrow> k = 0)"
proof -
  have g: "lf_events g = event_files old" "list_all (valid_bytes E) old" using assms(2) by (auto simp: in_sync_def)
  have f: "fold write_event (batch_of E (of_nat (length old)) (take j evs)) g = g\<lparr>lf_events := event_files (old @ take j evs)\<rparr>"
    using g(1) assms(5) by (intro write_batch) simp_all
  have valid: "list_all (valid_bytes E) (take j evs)" using assms(4) by (auto simp: list_all_iff dest: in_set_takeD)
  show ?thesis
  proof (cases "old = []")
    case True
    then have "lf_head g = None" using assms(3) by simp
    then have "in_sync E (take j evs) (g\<lparr>lf_events := event_files (old @ take j evs)\<rparr>)"
      using True valid assms(5) by (simp add: in_sync_def)
    from in_sync_serves [OF assms(1) this] show ?thesis
      unfolding f using True by (intro exI [of _ "min j (length evs)"]) (auto simp: min_def)
  next
    case False
    with assms(2,3) obtain t where "lf_head g = Some (head_for E t old)" by (fastforce simp: in_sync_def split: option.splits)
    then have "serves E old (g\<lparr>lf_events := event_files (old @ take j evs)\<rparr>)"
      using False assms(5) by (intro ahead_serves [where rest = "take j evs" and t = t]) simp_all
    then show ?thesis unfolding f by (intro exI [of _ 0]) simp
  qed
qed

lemma cut_append_serves:
  assumes "prost_codec E" and "in_sync E old f" and "list_all (valid_bytes E) evs" and "evs \<noteq> []"
    and "length old + length evs < 2 ^ 64"
  shows "\<exists>k \<le> length evs. serves E (old @ take k evs) (cut_append n E l now (batch_of E (of_nat (length old)) evs) f)
    \<and> (old \<noteq> [] \<longrightarrow> k = 0 \<or> k = length evs)"
proof -
  let ?batch = "batch_of E (of_nat (length old)) evs"
  let ?R = "case (cached_head f, fst (ledger_head E l now (create_dir f))) of (None, Ok (Some h)) \<Rightarrow> [write_head h] | _ \<Rightarrow> []"
  have sync: "in_sync E old (create_dir f)" using assms(2) by (simp add: in_sync_def create_dir_def)
  from head_in_sync [OF assms(1) this, of l now] obtain t where h: "ledger_head E l now (create_dir f) =
      (if old = [] then (Ok None, create_dir f)
       else (Ok (Some (head_for E t old)), (create_dir f)\<lparr>lf_head := Some (head_for E t old)\<rparr>))" by blast
  let ?g = "fold id ?R (create_dir f)"
  have R: "?R = [] \<or> ?R = [write_head (head_for E t old)] \<and> old \<noteq> []"
    using h by (auto split: option.split)
  have g: "in_sync E old (fold id (take m ?R) (create_dir f))" for m
    using R sync in_sync_head [OF sync] by (cases m) (auto simp: write_head_def)
  have head: "old \<noteq> [] \<longleftrightarrow> lf_head ?g \<noteq> None"
  proof -
    have "lf_head (create_dir f) = lf_head f" by (simp add: create_dir_def)
    then show ?thesis
      using sync by (cases "lf_head f") (auto simp: h cached_head_def write_head_def in_sync_def split: option.splits)
  qed
  have w: "append_writes E l now ?batch f = create_dir # ?R @ map write_event ?batch @ [write_head (head_for E now (old @ evs))]"
    using write_events_in_sync [OF assms, of l now] by (auto simp: append_writes_def)
  consider (start) "n = 0" | (rebuild) "0 < n" "n - 1 \<le> length ?R"
    | (events) "length ?R < n - 1" "n - 1 \<le> length ?R + length evs" | (whole) "length ?R + length evs < n - 1"
    by linarith
  then show ?thesis
  proof cases
    case start
    then have "cut_append n E l now ?batch f = f" by (simp add: cut_append_def)
    then show ?thesis using in_sync_serves [OF assms(1,2)] by (intro exI [of _ 0]) simp
  next
    case rebuild
    then have "take n (append_writes E l now ?batch f) = create_dir # take (n - 1) ?R"
      unfolding w by (cases n) simp_all
    then have "cut_append n E l now ?batch f = fold id (take (n - 1) ?R) (create_dir f)" by (simp add: cut_append_def)
    then show ?thesis using in_sync_serves [OF assms(1) g] by (intro exI [of _ 0]) simp
  next
    case events
    let ?j = "n - 1 - length ?R"
    have "take n (append_writes E l now ?batch f) = create_dir # ?R @ map write_event (take ?j ?batch)"
      unfolding w using events by (cases n) (simp_all add: take_map)
    then have "cut_append n E l now ?batch f = fold write_event (batch_of E (of_nat (length old)) (take ?j evs)) ?g"
      by (simp add: cut_append_def fold_map take_batch)
    then show ?thesis using batch_cut_serves [OF assms(1) g [of "length ?R"] _ assms(3,5), of ?j] head by auto
  next
    case whole
    then have "cut_append n E l now ?batch f = snd (ledger_append E l now ?batch f)"
      using assms(4) by (intro cut_append_whole) (simp_all add: w)
    then show ?thesis
      using in_sync_serves [OF assms(1) in_sync_append [OF assms(2-5)]]
      by (intro exI [of _ "length evs"]) (simp add: append_in_sync [OF assms])
  qed
qed

end
