(* ===== verification/Storage_Inv.thy ===== *)
theory Storage_Inv
  imports Store_Facts
begin

text \<open>
  The invariant of the node storage and that a push keeps it. An indexed ledger is a
  chain that folds: its event files are that chain, the head cache and the entry name
  its last event, the entry's state is its fold, its fork records are verified against
  its prefixes and mirrored by the fork files, and the counters are the sums they
  stand for and are under the caps. A ledger that is not indexed has no files.
\<close>

section \<open>Counting\<close>

definition total_length :: "bytes list \<Rightarrow> nat" where
  "total_length evs = sum_list (map length evs)"

lemma event_bytes_total: "event_bytes evs = of_nat (total_length evs)"
  by (induction evs) (simp_all add: event_bytes_def total_length_def)

lemma event_bytes_append: "event_bytes (xs @ ys) = event_bytes xs + event_bytes ys"
  by (simp add: event_bytes_def)

lemma total_length_append: "total_length (xs @ ys) = total_length xs + total_length ys"
  by (simp add: total_length_def)

lemma valid_total:
  assumes "list_all (valid_bytes E) evs"
  shows "total_length evs \<le> MAX_EVENT_BYTES * length evs"
  using assms
proof (induction evs)
  case (Cons ev evs)
  then have "length ev \<le> MAX_EVENT_BYTES" by (auto simp: valid_bytes_def valid_event_def)
  with Cons show ?case by (simp add: total_length_def)
qed (simp add: total_length_def)

lemma sum_bt_insert:
  fixes g :: "'v \<Rightarrow> 'n :: comm_monoid_add"
  shows "bt_wf m \<Longrightarrow> sum_list (map (\<lambda>x. g (snd x)) (bt_insert k v m)) + (case bt_get m k of None \<Rightarrow> 0 | Some u \<Rightarrow> g u)
    = sum_list (map (\<lambda>x. g (snd x)) m) + g v"
proof (induction m)
  case (Cons x m)
  obtain k' v' where x: "x = (k', v')" by force
  have wf: "bt_wf m" "\<And>y. y \<in> set m \<Longrightarrow> k' < fst y" using Cons.prems by (auto simp: bt_wf_def x)
  then have "bt_get m k = None" if "k \<le> k'" using that by (fastforce simp: bt_get_def map_of_eq_None_iff)
  with Cons.IH [OF wf(1)] show ?case
    by (auto simp: x bt_get_def algebra_simps split: option.splits)
qed (simp add: bt_get_def)

lemma length_bt_insert: "length (bt_insert k v m) = length m + (if bt_get m k = None then 1 else 0)" if "bt_wf m"
  using that
proof (induction m)
  case (Cons x m)
  obtain k' v' where x: "x = (k', v')" by force
  have wf: "bt_wf m" "\<And>y. y \<in> set m \<Longrightarrow> k' < fst y" using Cons.prems by (auto simp: bt_wf_def x)
  then have "bt_get m k = None" if "k \<le> k'" using that by (fastforce simp: bt_get_def map_of_eq_None_iff)
  with Cons.IH [OF wf(1)] show ?case by (auto simp: x bt_get_def dest: less_imp_le)
qed simp

section \<open>Facts of a folded chain\<close>

lemma reached_id:
  assumes "reached E mbs al" and "crypto_ok E"
  shows "al_id al = (if mbs = [] then None else Some (event_id E (se_body (fst (hd mbs)))))"
  using assms(1)
proof (induction rule: reached.induct)
  case (step mbs al m b al')
  have "started al" using reached_inv [OF step.hyps(1) assms(2)] by (simp add: ledger_inv_def)
  from event_step_good [OF step.hyps(2) this assms(2)] obtain p al1 where
    g: "good_step E al (event_id E (se_body m)) b p al1"
    "al' = al1\<lparr>al_head := Some \<lparr>hd_seq = eb_seq b, hd_event_id = event_id E (se_body m),
       hd_timestamp_ms = eb_timestamp_ms b\<rparr>\<rparr>" .
  show ?case
  proof (cases "is_inception p")
    case True
    then have "al_head al = None" using good_stepE(5) [OF g(1)] by simp
    then have "mbs = []" using reached_head [OF step.hyps(1)] by (auto split: if_splits)
    then show ?thesis using step_seeds_root(2) [OF good_stepE(1) [OF g(1)] True] g(2) by simp
  next
    case False
    then have "mbs \<noteq> []" using good_stepE(6) [OF g(1) False] reached_head [OF step.hyps(1)] by auto
    then show ?thesis using step_keeps_root(2) [OF good_stepE(1) [OF g(1)] False] g(2) step.IH by simp
  qed
qed simp

lemma fold_facts:
  assumes "prost_codec E" and "crypto_ok E" and "fold_events E evs = Ok (s, None)" and "evs \<noteq> []"
  shows "list_all (valid_bytes E) evs"
    and "\<exists>h. ls_head s = Some h \<and> hd_seq h = of_nat (length evs - 1) \<and> hd_event_id h = the (signed_event_id E (last evs))"
    and "ls_ledger s = signed_event_id E (hd evs)" and "signed_event_id E (hd evs) \<noteq> None"
    and "length (the (ls_ledger s)) = 32"
    and "state_wf s" and "started (abs_state s)"
proof -
  from fold_events_run [OF assms(3,1)] obtain mbs where
    d: "list_all2 (decodes E) evs mbs" and r: "reached E mbs (abs_state s)" and wf: "state_wf s" by (auto simp: run_of_def)
  have ne: "mbs \<noteq> []" and len: "length mbs = length evs" using d assms(4) by (auto dest: list_all2_lengthD)
  show "list_all (valid_bytes E) evs" using assms(3) unfolding fold_events_def by (rule fold_valid)
  have first: "valid_event E (hd evs) (fst (hd mbs)) (snd (hd mbs))"
    using d ne by (cases evs; cases mbs) (auto simp: decodes_def)
  have last: "valid_event E (last evs) (fst (last mbs)) (snd (last mbs))"
    using d ne assms(4) by (auto simp: last_conv_nth len decodes_def list_all2_conv_all_nth)
  show "\<exists>h. ls_head s = Some h \<and> hd_seq h = of_nat (length evs - 1) \<and> hd_event_id h = the (signed_event_id E (last evs))"
    using reached_head [OF r] ne len valid_event_bodies(2) [OF last] by simp
  show id: "ls_ledger s = signed_event_id E (hd evs)" "signed_event_id E (hd evs) \<noteq> None"
    using reached_id [OF r assms(2)] ne valid_event_bodies(2) [OF first] by simp_all
  show "length (the (ls_ledger s)) = 32"
    using id valid_event_bodies(2) [OF first] length_event_id [OF assms(2)] by simp
  show "state_wf s" "started (abs_state s)" using wf reached_inv [OF r assms(2)] by (simp_all add: ledger_inv_def)
qed

lemma fold_events_append:
  assumes "fold_events E xs = Ok (s, None)"
  shows "fold_events E (xs @ ys) = fold_from E s ys"
  using assms by (simp add: fold_events_def fold_from_append)

lemma fold_events_not_Panic:
  assumes "prost_codec E" and "crypto_ok E" and "fold_events E xs = Ok (s, None)" and "length xs + length ys < 2 ^ 64"
  shows "fold_from E s ys \<noteq> Panic"
  using fold_events_run [OF assms(3,1)] fold_from_not_Panic [OF assms(1,2)] assms(4) by blast

section \<open>The invariant\<close>

definition sane_caps :: "storage_caps \<Rightarrow> bool" where
  "sane_caps c \<longleftrightarrow> cp_events_per_ledger c \<le> 2 ^ 63 \<and> cp_bytes_per_ledger c \<le> 2 ^ 63 \<and> cp_storage_capacity c \<le> 2 ^ 63"

definition fork_holds :: "env \<Rightarrow> ledger_id \<Rightarrow> bytes list \<Rightarrow> fork_record \<Rightarrow> bool" where
  "fork_holds E l evs r \<longleftrightarrow> fr_ledger r = l \<and> unat (fr_seq r) < length evs \<and> fr_kept r = evs ! unat (fr_seq r)
     \<and> endpoint_ok E (fr_source_endpoint r)
     \<and> (\<exists>p fk. fold_events E (take (unat (fr_seq r)) evs) = Ok (p, None)
          \<and> validate_fork_record E p (fr_kept r) (fr_conflicting r) = Ok fk)"

definition fork_key :: "env \<Rightarrow> fork_record \<Rightarrow> u64 \<times> event_id" where
  "fork_key E r = (fr_seq r, the (signed_event_id E (fr_conflicting r)))"

definition forks_hold :: "env \<Rightarrow> u32 \<Rightarrow> ledger_id \<Rightarrow> ledger_files \<Rightarrow> bytes list \<Rightarrow> fork_record list \<Rightarrow> bool" where
  "forks_hold E fork_cap l f evs rs \<longleftrightarrow>
     lf_forks f = map (\<lambda>r. (fork_key E r, fork_entry r)) rs \<and> bt_wf (lf_forks f)
     \<and> length rs \<le> unat fork_cap \<and> list_all (fork_holds E l evs) rs"

definition entry_holds :: "env \<Rightarrow> storage_caps \<Rightarrow> ledger_id \<Rightarrow> ledger_files \<Rightarrow> entry \<Rightarrow> bytes list \<Rightarrow> bool" where
  "entry_holds E c l f e evs \<longleftrightarrow>
     evs \<noteq> [] \<and> length evs \<le> unat (cp_events_per_ledger c) \<and> total_length evs \<le> unat (cp_bytes_per_ledger c)
     \<and> fold_events E evs = Ok (en_state e, None) \<and> ls_ledger (en_state e) = Some l
     \<and> lf_dir f \<and> lf_events f = event_files evs \<and> lf_head f = Some (head_for E (en_updated_ms e) evs)
     \<and> lf_meta f = Some \<lparr>lm_source_endpoint = en_source_endpoint e, lm_first_seen_ms = en_first_seen_ms e\<rparr>
     \<and> en_head_seq e = of_nat (length evs - 1) \<and> en_head_event e = the (signed_event_id E (last evs))
     \<and> en_bytes e = event_bytes evs \<and> forks_hold E (cp_fork_records c) l f evs (en_forks e)"

definition ledger_holds :: "env \<Rightarrow> ledger_storage \<Rightarrow> ledger_id \<Rightarrow> bool" where
  "ledger_holds E S l \<longleftrightarrow>
     (case sg_entry S l of
        None \<Rightarrow> sg_files S l = no_files
      | Some e \<Rightarrow> \<exists>evs. entry_holds E (sg_caps S) l (sg_files S l) e evs)"

definition rechecked :: "ledger_storage \<Rightarrow> bool" where
  "rechecked S \<longleftrightarrow> sg_entries S = sg_entries (recheck S)"

definition counted :: "storage_caps \<Rightarrow> index \<Rightarrow> bool" where
  "counted c ix \<longleftrightarrow>
     length (ix_ledgers ix) \<le> cp_ledgers c
     \<and> ix_storage_used ix = sum_list (map (\<lambda>x. en_bytes (snd x)) (ix_ledgers ix))
     \<and> sum_list (map (\<lambda>x. unat (en_bytes (snd x))) (ix_ledgers ix)) \<le> unat (cp_storage_capacity c)"

definition storage_inv :: "env \<Rightarrow> ledger_storage \<Rightarrow> bool" where
  "storage_inv E S \<longleftrightarrow> sane_caps (sg_caps S) \<and> bt_wf (hm_ledgers (sg_home S)) \<and> bt_wf (ix_ledgers (sg_index S))
     \<and> (\<forall>l. ledger_holds E S l) \<and> counted (sg_caps S) (sg_index S) \<and> rechecked S"

section \<open>Where the storage moves\<close>

text \<open>A step that writes the files and the entry of one ledger and nothing else.\<close>

definition puts :: "ledger_id \<Rightarrow> ledger_files \<Rightarrow> entry \<Rightarrow> ledger_storage \<Rightarrow> ledger_storage \<Rightarrow> bool" where
  "puts l f e S S' \<longleftrightarrow>
     sg_caps S' = sg_caps S \<and> sg_policy S' = sg_policy S \<and> sg_endpoint S' = sg_endpoint S
     \<and> hm_identities (sg_home S') = hm_identities (sg_home S) \<and> bt_wf (hm_ledgers (sg_home S'))
     \<and> (\<forall>l'. sg_files S' l' = (if l' = l then f else sg_files S l'))
     \<and> ix_ledgers (sg_index S') = bt_insert l e (ix_ledgers (sg_index S))"

lemma puts_entry: "puts l f e S S' \<Longrightarrow> sg_entry S' l' = (if l' = l then Some e else sg_entry S l')"
  by (simp add: puts_def sg_entry_def bt_get_insert)

lemma puts_inv:
  assumes "storage_inv E S" and "puts l f e S S'" and "entry_holds E (sg_caps S) l f e evs"
    and "counted (sg_caps S) (sg_index S')" and "rechecked S'"
  shows "storage_inv E S'"
proof -
  have "ledger_holds E S' l'" for l'
  proof (cases "l' = l")
    case True
    then show ?thesis
      using assms(2,3) puts_entry [OF assms(2), of l'] by (auto simp: ledger_holds_def puts_def)
  next
    case False
    moreover have "ledger_holds E S l'" using assms(1) by (simp add: storage_inv_def)
    ultimately show ?thesis
      using assms(2) puts_entry [OF assms(2), of l'] by (simp add: ledger_holds_def puts_def split: option.splits)
  qed
  then show ?thesis
    using assms by (simp add: storage_inv_def puts_def bt_wf_insert)
qed

lemma gap_cong:
  assumes "map_option en_state (bt_get (ix_ledgers ix) i) = map_option en_state (bt_get (ix_ledgers ix') i)"
  shows "gap_for ix i q = gap_for ix' i q"
  using assms by (cases "bt_get (ix_ledgers ix) i"; cases "bt_get (ix_ledgers ix') i") (auto simp: gap_for_def)

lemma puts_rechecked:
  assumes "rechecked S" and "puts l f e S S'" and "sg_entries S' = sg_entries S"
    and "l \<notin> set (ap_witness_for (sg_policy S)) \<or> map_option en_state (sg_entry S l) = Some (en_state e)"
  shows "rechecked S'"
proof -
  have "gap_for (sg_index S') i (sg_endpoint S') = gap_for (sg_index S) i (sg_endpoint S)"
    if "i \<in> set (ap_witness_for (sg_policy S))" for i
  proof -
    have "gap_for (sg_index S') i q = gap_for (sg_index S) i q" for q
      using puts_entry [OF assms(2), of i] assms(4) that
      by (intro gap_cong) (auto simp: sg_entry_def split: if_splits)
    then show ?thesis using assms(2) by (simp add: puts_def)
  qed
  then show ?thesis using assms(1-3) by (simp add: rechecked_def recheck_def puts_def)
qed

lemma recheck_rechecked: "rechecked (recheck S)"
  by (simp add: rechecked_def recheck_def)

lemma recheck_sel [simp]:
  "sg_caps (recheck S) = sg_caps S" "sg_policy (recheck S) = sg_policy S" "sg_home (recheck S) = sg_home S"
  "sg_index (recheck S) = sg_index S" "sg_endpoint (recheck S) = sg_endpoint S"
  "sg_files (recheck S) l = sg_files S l" "sg_entry (recheck S) l = sg_entry S l"
  by (simp_all add: recheck_def sg_files_def sg_entry_def)

lemma puts_recheck [simp]: "puts l f e S (recheck S') \<longleftrightarrow> puts l f e S S'"
  by (simp add: puts_def)

lemma sg_index_update [simp]: "sg_files (S\<lparr>sg_index := ix\<rparr>) l = sg_files S l" "sg_entry (S\<lparr>sg_index := ix\<rparr>) l = bt_get (ix_ledgers ix) l"
  by (simp_all add: sg_files_def sg_entry_def)

lemma on_files_sel:
  "fst (on_files l op S) = fst (op (sg_files S l))"
  "sg_files (snd (on_files l op S)) l' = (if l' = l then snd (op (sg_files S l)) else sg_files S l')"
  "sg_entry (snd (on_files l op S)) l' = sg_entry S l'" "sg_index (snd (on_files l op S)) = sg_index S"
  "sg_caps (snd (on_files l op S)) = sg_caps S" "sg_policy (snd (on_files l op S)) = sg_policy S"
  "sg_endpoint (snd (on_files l op S)) = sg_endpoint S" "sg_entries (snd (on_files l op S)) = sg_entries S"
  "hm_identities (sg_home (snd (on_files l op S))) = hm_identities (sg_home S)"
  "bt_wf (hm_ledgers (sg_home S)) \<Longrightarrow> bt_wf (hm_ledgers (sg_home (snd (on_files l op S))))"
  by (simp_all add: on_files_def Let_def sg_files_def sg_entry_def) (simp add: on_ledger_def Let_def bt_wf_insert)

section \<open>What a ledger holds\<close>

definition stored_events :: "ledger_storage \<Rightarrow> ledger_id \<Rightarrow> bytes list" where
  "stored_events S l =
     (case sg_entry S l of
        None \<Rightarrow> []
      | Some e \<Rightarrow> map snd (take (Suc (unat (en_head_seq e))) (lf_events (sg_files S l))))"

lemma event_files_bytes: "map snd (event_files evs) = evs"
  by (rule nth_equalityI) (simp_all add: event_files_def)

lemma entry_countable: "sane_caps c \<Longrightarrow> entry_holds E c l f e evs \<Longrightarrow> length evs \<le> 2 ^ 63"
proof -
  assume "sane_caps c" "entry_holds E c l f e evs"
  then have "unat (cp_events_per_ledger c) \<le> unat (2 ^ 63 :: u64)" "length evs \<le> unat (cp_events_per_ledger c)"
    by (auto simp: sane_caps_def entry_holds_def word_le_nat_alt)
  then show ?thesis by simp
qed

lemma stored_of_entry:
  assumes "sane_caps (sg_caps S)" and "sg_entry S l = Some e" and "entry_holds E (sg_caps S) l (sg_files S l) e evs"
  shows "stored_events S l = evs"
proof -
  have len: "length evs \<le> 2 ^ 63" "evs \<noteq> []" "lf_events (sg_files S l) = event_files evs"
    "en_head_seq e = of_nat (length evs - 1)"
    using entry_countable [OF assms(1,3)] assms(3) by (simp_all add: entry_holds_def)
  then have "Suc (unat (en_head_seq e)) = length evs" using unat_word_of_nat64 [of "length evs - 1"] by simp
  moreover have "take (length evs) (event_files evs) = event_files evs" by (simp add: event_files_def)
  ultimately show ?thesis using assms(2) event_files_bytes len(3) by (simp add: stored_events_def)
qed

lemma held_cases:
  assumes "storage_inv E S"
  obtains (absent) "sg_entry S l = None" and "sg_files S l = no_files" and "stored_events S l = []"
  | (held) e where "sg_entry S l = Some e" and "entry_holds E (sg_caps S) l (sg_files S l) e (stored_events S l)"
proof (cases "sg_entry S l")
  case None
  then have "sg_files S l = no_files" using assms by (auto simp: storage_inv_def ledger_holds_def dest!: spec [of _ l])
  then show ?thesis using None that(1) by (simp add: stored_events_def)
next
  case (Some e)
  then have "\<exists>evs. entry_holds E (sg_caps S) l (sg_files S l) e evs"
    using assms by (auto simp: storage_inv_def ledger_holds_def dest!: spec [of _ l])
  with stored_of_entry [OF _ Some] Some assms that(2) show ?thesis by (auto simp: storage_inv_def)
qed

lemma held_in_sync:
  assumes "storage_inv E S" and "prost_codec E" and "crypto_ok E"
  shows "in_sync E (stored_events S l) (sg_files S l)"
  using assms(1)
proof (cases rule: held_cases [where l = l])
  case absent
  then show ?thesis by (simp add: in_sync_def no_files_def)
next
  case (held e)
  then have "length (stored_events S l) \<le> 2 ^ 63" using entry_countable assms(1) by (auto simp: storage_inv_def)
  moreover have "list_all (valid_bytes E) (stored_events S l)"
    using fold_facts(1) [OF assms(2,3)] held by (auto simp: entry_holds_def)
  ultimately show ?thesis using held by (auto simp: in_sync_def entry_holds_def head_for_def)
qed

section \<open>Caps\<close>

lemma of_nat_sum_le:
  assumes "a + b < 2 ^ 64"
  shows "(of_nat a :: u64) + of_nat b > c \<longleftrightarrow> a + b > unat c"
proof -
  have "unat (of_nat (a + b) :: u64) = a + b" using assms by (rule unat_word_of_nat64)
  then show ?thesis by (simp add: word_less_nat_alt)
qed

lemma sum_words: "sum_list (map (\<lambda>x. en_bytes (snd x)) xs) = of_nat (sum_list (map (\<lambda>x. unat (en_bytes (snd x))) xs))"
  by (induction xs) simp_all

lemma unat_le_63: "(c :: u64) \<le> 2 ^ 63 \<Longrightarrow> unat c \<le> 2 ^ 63"
  using word_le_nat_alt [of c "2 ^ 63"] by simp

lemma check_caps_Ok:
  assumes "storage_inv E S" and "list_all (valid_bytes E) evs" and "length evs < 2 ^ 32"
    and "check_caps W S l (of_nat (length evs)) (event_bytes evs) = Ok ()"
  shows "length (stored_events S l @ evs) \<le> unat (cp_events_per_ledger (sg_caps S))"
    and "total_length (stored_events S l @ evs) \<le> unat (cp_bytes_per_ledger (sg_caps S))"
    and "sg_entry S l = None \<Longrightarrow> length (ix_ledgers (sg_index S)) < cp_ledgers (sg_caps S)"
    and "sum_list (map (\<lambda>x. unat (en_bytes (snd x))) (ix_ledgers (sg_index S))) + total_length evs
      \<le> unat (cp_storage_capacity (sg_caps S))"
proof -
  let ?old = "stored_events S l" and ?c = "sg_caps S"
  let ?held = "case sg_entry S l of None \<Rightarrow> 0 | Some e \<Rightarrow> event_count e"
  let ?bytes = "case sg_entry S l of None \<Rightarrow> 0 | Some e \<Rightarrow> en_bytes e"
  let ?used = "sum_list (map (\<lambda>x. unat (en_bytes (snd x))) (ix_ledgers (sg_index S)))"
  have sane: "unat (cp_events_per_ledger ?c) \<le> 2 ^ 63" "unat (cp_bytes_per_ledger ?c) \<le> 2 ^ 63"
    "unat (cp_storage_capacity ?c) \<le> 2 ^ 63"
    using assms(1) unat_le_63 by (auto simp: storage_inv_def sane_caps_def)
  have "total_length evs \<le> MAX_EVENT_BYTES * length evs" by (rule valid_total [OF assms(2)])
  also have "\<dots> \<le> MAX_EVENT_BYTES * 2 ^ 32" using assms(3) by (intro mult_le_mono) simp_all
  finally have size: "total_length evs < 2 ^ 62" by (simp add: size_defs)
  have count: "?held = of_nat (length ?old)" "length ?old \<le> unat (cp_events_per_ledger ?c)"
    "?bytes = of_nat (total_length ?old)" "total_length ?old \<le> unat (cp_bytes_per_ledger ?c)"
    using assms(1) by (atomize (full), cases rule: held_cases [where l = l])
      (auto simp: entry_holds_def event_count_def event_bytes_total total_length_def neq_Nil_conv)
  have used: "ix_storage_used (sg_index S) = of_nat ?used" "?used \<le> unat (cp_storage_capacity ?c)"
    using assms(1) by (simp_all add: storage_inv_def counted_def sum_words)
  have "\<not> ?held + of_nat (length evs) > cp_events_per_ledger ?c"
    "\<not> ?bytes + event_bytes evs > cp_bytes_per_ledger ?c"
    "\<not> (sg_entry S l = None \<and> length (ix_ledgers (sg_index S)) \<ge> cp_ledgers ?c)"
    "\<not> ix_storage_used (sg_index S) + event_bytes evs > cp_storage_capacity ?c"
    using assms(4) unfolding check_caps_def Let_def by (auto split: if_splits)
  note ok = this [unfolded count used event_bytes_total]
  show "length (?old @ evs) \<le> unat (cp_events_per_ledger ?c)"
    using ok(1) of_nat_sum_le [of "length ?old" "length evs"] count(2) sane(1) assms(3) by simp
  show "total_length (?old @ evs) \<le> unat (cp_bytes_per_ledger ?c)"
    using ok(2) of_nat_sum_le [of "total_length ?old" "total_length evs"] count(4) sane(2) size
    by (simp add: total_length_append)
  show "length (ix_ledgers (sg_index S)) < cp_ledgers ?c" if "sg_entry S l = None" using ok(3) that by simp
  show "?used + total_length evs \<le> unat (cp_storage_capacity ?c)"
    using ok(4) of_nat_sum_le [of ?used "total_length evs"] used(2) sane(3) size by simp
qed

section \<open>Storing a run\<close>

lemma forks_hold_more:
  assumes "forks_hold E fork_cap l f old rs" and "lf_forks f' = lf_forks f"
  shows "forks_hold E fork_cap l f' (old @ evs) rs"
proof -
  have "fork_holds E l (old @ evs) r" if "fork_holds E l old r" for r
    using that by (auto simp: fork_holds_def nth_append)
  then show ?thesis using assms by (auto simp: forks_hold_def list_all_iff)
qed

lemma counted_puts:
  assumes "storage_inv E S" and "puts l f e S S'"
    and "ix_storage_used (sg_index S') = ix_storage_used (sg_index S) + d"
    and "en_bytes e = (case sg_entry S l of None \<Rightarrow> 0 | Some p \<Rightarrow> en_bytes p) + d"
    and "unat (en_bytes e) = (case sg_entry S l of None \<Rightarrow> 0 | Some p \<Rightarrow> unat (en_bytes p)) + unat d"
    and "sg_entry S l = None \<Longrightarrow> length (ix_ledgers (sg_index S)) < cp_ledgers (sg_caps S)"
    and "sum_list (map (\<lambda>x. unat (en_bytes (snd x))) (ix_ledgers (sg_index S))) + unat d \<le> unat (cp_storage_capacity (sg_caps S))"
  shows "counted (sg_caps S) (sg_index S')"
proof -
  let ?m = "ix_ledgers (sg_index S)"
  have wf: "bt_wf ?m" and c: "counted (sg_caps S) (sg_index S)" using assms(1) by (simp_all add: storage_inv_def)
  have m: "ix_ledgers (sg_index S') = bt_insert l e ?m" using assms(2) by (simp add: puts_def)
  note sums = sum_bt_insert [OF wf, of en_bytes l e] sum_bt_insert [OF wf, of "\<lambda>x. unat (en_bytes x)" l e]
  have "sum_list (map (\<lambda>x. en_bytes (snd x)) (bt_insert l e ?m)) = sum_list (map (\<lambda>x. en_bytes (snd x)) ?m) + d"
    using sums(1) assms(4) by (cases "sg_entry S l") (auto simp: sg_entry_def)
  moreover have "sum_list (map (\<lambda>x. unat (en_bytes (snd x))) (bt_insert l e ?m))
      = sum_list (map (\<lambda>x. unat (en_bytes (snd x))) ?m) + unat d"
    using sums(2) assms(5) by (cases "sg_entry S l") (auto simp: sg_entry_def)
  moreover have "length (bt_insert l e ?m) \<le> cp_ledgers (sg_caps S)"
    using c assms(6) length_bt_insert [OF wf, of l e] by (auto simp: counted_def sg_entry_def)
  ultimately show ?thesis using c assms(3,7) by (simp add: counted_def m)
qed

lemma store_run_Err:
  "check_caps W S l (of_nat (length evs)) (event_bytes evs) = Err x \<Longrightarrow> evs \<noteq> [] \<Longrightarrow>
   store_run E W now l s evs prov S = (Err x, S)"
  by (simp add: store_run_def Let_def)

lemma store_run_grows:
  assumes "prost_codec E" and "crypto_ok E" and "storage_inv E S"
    and "fold_events E (stored_events S l @ evs) = Ok (s, None)" and "ls_ledger s = Some l" and "evs \<noteq> []"
    and "length evs < 2 ^ 32" and "check_caps W S l (of_nat (length evs)) (event_bytes evs) = Ok ()"
  shows "\<exists>S' f e. store_run E W now l s evs prov S
        = (Ok \<lparr>po_head_seq = of_nat (length (stored_events S l @ evs) - 1), po_stored = of_nat (length evs)\<rparr>, S')
      \<and> puts l f e S S' \<and> entry_holds E (sg_caps S) l f e (stored_events S l @ evs)
      \<and> counted (sg_caps S) (sg_index S') \<and> rechecked S'"
proof -
  let ?old = "stored_events S l" and ?c = "sg_caps S" and ?head = "head_for E now (stored_events S l @ evs)"
  let ?batch = "batch_of E (of_nat (length ?old)) evs"
  let ?note = "\<lambda>f. let (m, f) = note_first_seen prov now f in (Ok (lm_first_seen_ms m, lm_source_endpoint m)
      :: (store_error, u64 \<times> endpoint_id option) outcome, f)"
  let ?S1 = "if sg_entry S l = None then snd (on_files l ?note S) else S"
  let ?S2 = "snd (on_files l (ledger_append E l now ?batch) ?S1)"
  let ?previous = "case sg_entry S l of Some e \<Rightarrow> e
      | None \<Rightarrow> \<lparr>en_state = empty_state, en_head_seq = sh_seq ?head, en_head_event = sh_event_id ?head, en_bytes = 0,
          en_first_seen_ms = now, en_updated_ms = sh_updated_ms ?head, en_source_endpoint = prov, en_forks = []\<rparr>"
  let ?e = "?previous\<lparr>en_state := s, en_head_seq := sh_seq ?head, en_head_event := sh_event_id ?head,
      en_bytes := en_bytes ?previous + event_bytes evs, en_updated_ms := sh_updated_ms ?head\<rparr>"
  let ?S3 = "?S2\<lparr>sg_index := \<lparr>ix_ledgers = bt_insert l ?e (ix_ledgers (sg_index S)),
      ix_storage_used = ix_storage_used (sg_index S) + event_bytes evs\<rparr>\<rparr>"
  let ?S4 = "if l \<in> set (ap_witness_for (sg_policy S)) then recheck ?S3 else ?S3"
  let ?f = "(sg_files ?S1 l)\<lparr>lf_dir := True, lf_events := event_files (?old @ evs), lf_head := Some ?head\<rparr>"
  have all: "list_all (valid_bytes E) (?old @ evs)" using fold_facts(1) [OF assms(1,2,4)] assms(6) by simp
  then have valid: "list_all (valid_bytes E) evs" by simp
  note caps = check_caps_Ok [OF assms(3) valid assms(7,8)]
  have len: "length ?old + length evs < 2 ^ 64"
    using caps(1) assms(3) unat_le_63 [of "cp_events_per_ledger ?c"] by (simp add: storage_inv_def sane_caps_def)
  have total: "total_length (?old @ evs) < 2 ^ 64"
    using caps(2) assms(3) unat_le_63 [of "cp_bytes_per_ledger ?c"] by (simp add: storage_inv_def sane_caps_def)
  note sync = held_in_sync [OF assms(3,1,2), of l]
  have sync1: "in_sync E ?old (sg_files ?S1 l)"
    using sync by (auto simp: on_files_sel note_first_seen_def write_meta_def create_dir_def in_sync_def Let_def
        split: option.split)
  have append: "ledger_append E l now ?batch (sg_files ?S1 l) = (Ok (Some ?head), ?f)"
    by (rule append_in_sync [OF assms(1) sync1 valid assms(6) len])
  have files: "sg_files ?S2 l' = (if l' = l then ?f else sg_files S l')" for l'
    using append by (simp add: on_files_sel)
  have batch: "build_batch E W (case map_option en_head_seq (sg_entry S l) of None \<Rightarrow> 0 | Some q \<Rightarrow> q + 1) evs = Ok ?batch"
    using assms(3)
  proof (cases rule: held_cases [where l = l])
    case (held e)
    then have "en_head_seq e + 1 = of_nat (length ?old)" by (auto simp: entry_holds_def neq_Nil_conv)
    with held build_batch_valid [OF valid] show ?thesis by simp
  qed (simp add: build_batch_valid [OF valid])
  have first: "fst (on_files l ?note S) = Ok (now, prov)" if "sg_entry S l = None"
    using assms(3) that by (cases rule: held_cases [where l = l])
      (simp_all add: on_files_sel note_first_seen_def no_files_def Let_def)
  have run: "store_run E W now l s evs prov S = (Ok \<lparr>po_head_seq = sh_seq ?head, po_stored = of_nat (length evs)\<rparr>, ?S4)"
    using assms(6,8) batch append first
    by (cases "sg_entry S l") (simp_all add: store_run_def Let_def then_do_def run_map_err_def on_files_sel)
  have puts: "puts l ?f ?e S ?S4"
    using assms(3) files by (auto simp: puts_def on_files_sel storage_inv_def)
  have bytes: "en_bytes ?e = event_bytes (?old @ evs)"
    "en_bytes ?e = (case sg_entry S l of None \<Rightarrow> 0 | Some p \<Rightarrow> en_bytes p) + event_bytes evs"
    "(case sg_entry S l of None \<Rightarrow> 0 | Some p \<Rightarrow> unat (en_bytes p)) = total_length ?old"
    using assms(3) total by (atomize (full), cases rule: held_cases [where l = l])
      (auto simp: entry_holds_def event_bytes_append event_bytes_total total_length_append unat_word_of_nat64,
       simp add: total_length_def)
  have holds: "entry_holds E ?c l ?f ?e (?old @ evs)"
    using assms(3)
  proof (cases rule: held_cases [where l = l])
    case absent
    then have "sg_files ?S1 l = no_files\<lparr>lf_dir := True, lf_meta := Some \<lparr>lm_source_endpoint = prov, lm_first_seen_ms = now\<rparr>\<rparr>"
      by (simp add: on_files_sel note_first_seen_def no_files_def write_meta_def create_dir_def Let_def)
    then show ?thesis
      using absent assms(4-6) caps(1,2) bytes(1)
      by (simp add: entry_holds_def head_for_def forks_hold_def no_files_def)
  next
    case (held e)
    then have "forks_hold E (cp_fork_records ?c) l ?f (?old @ evs) (en_forks e)"
      by (intro forks_hold_more [of _ _ _ "sg_files S l"]) (simp_all add: entry_holds_def)
    then show ?thesis
      using held assms(4-6) caps(1,2) bytes(1) by (simp add: entry_holds_def head_for_def)
  qed
  have counted: "counted ?c (sg_index ?S4)"
  proof (rule counted_puts [OF assms(3) puts])
    have evs: "total_length evs < 2 ^ 64" using total by (simp add: total_length_append)
    have nat: "unat (en_bytes ?e) = total_length (?old @ evs)" "unat (event_bytes evs) = total_length evs"
      unfolding bytes(1) using total evs by (simp_all only: event_bytes_total unat_word_of_nat64)
    show "unat (en_bytes ?e) = (case sg_entry S l of None \<Rightarrow> 0 | Some p \<Rightarrow> unat (en_bytes p)) + unat (event_bytes evs)"
      by (simp only: nat bytes(3) total_length_append)
    show "sum_list (map (\<lambda>x. unat (en_bytes (snd x))) (ix_ledgers (sg_index S))) + unat (event_bytes evs)
        \<le> unat (cp_storage_capacity ?c)"
      using caps(4) by (simp only: nat(2))
  qed (use bytes(2) caps(3) in simp_all)
  have rechecked: "rechecked ?S4"
  proof (cases "l \<in> set (ap_witness_for (sg_policy S))")
    case False
    show ?thesis
    proof (rule puts_rechecked [OF _ puts])
      show "rechecked S" using assms(3) by (simp add: storage_inv_def)
      show "sg_entries ?S4 = sg_entries S" using False by (simp add: on_files_sel)
    qed (use False in blast)
  qed (simp add: recheck_rechecked)
  have seq: "sh_seq ?head = of_nat (length (?old @ evs) - 1)" by (simp add: head_for_def)
  show ?thesis
  proof (intro exI conjI)
    show "store_run E W now l s evs prov S
        = (Ok \<lparr>po_head_seq = of_nat (length (?old @ evs) - 1), po_stored = of_nat (length evs)\<rparr>, ?S4)"
      using run by (simp only: seq)
  qed (fact puts holds counted rechecked)+
qed

end
