(* ===== verification/Storage_Push.thy ===== *)
theory Storage_Push
  imports Storage_Inv
begin

text \<open>
  A push, branch by branch: what it answers, that it keeps the storage invariant, and
  that the events of a ledger only ever grow at the end.
\<close>

section \<open>Steps that change nothing that can be seen\<close>

definition same :: "ledger_storage \<Rightarrow> ledger_storage \<Rightarrow> bool" where
  "same S S' \<longleftrightarrow>
     sg_caps S' = sg_caps S \<and> sg_policy S' = sg_policy S \<and> sg_endpoint S' = sg_endpoint S
     \<and> sg_entries S' = sg_entries S \<and> sg_index S' = sg_index S
     \<and> hm_identities (sg_home S') = hm_identities (sg_home S)
     \<and> (bt_wf (hm_ledgers (sg_home S)) \<longrightarrow> bt_wf (hm_ledgers (sg_home S'))) \<and> (\<forall>l. sg_files S' l = sg_files S l)"

lemma same_refl [simp, intro]: "same S S"
  by (simp add: same_def)

lemma same_trans: "same S S' \<Longrightarrow> same S' S'' \<Longrightarrow> same S S''"
  by (simp add: same_def)

lemma same_entry: "same S S' \<Longrightarrow> sg_entry S' l = sg_entry S l"
  by (simp add: same_def sg_entry_def)

lemma same_holds: "same S S' \<Longrightarrow> ledger_holds E S' l = ledger_holds E S l"
  by (simp add: same_def ledger_holds_def sg_entry_def split: option.split)

lemma same_inv: "storage_inv E S \<Longrightarrow> same S S' \<Longrightarrow> storage_inv E S'"
  using same_holds [of S S'] by (simp add: storage_inv_def same_def rechecked_def recheck_def)

lemma same_stored: "same S S' \<Longrightarrow> stored_events S' l = stored_events S l"
  by (simp add: stored_events_def same_def sg_entry_def split: option.split)

lemma on_files_same: "snd (op (sg_files S l)) = sg_files S l \<Longrightarrow> same S (snd (on_files l op S))"
  by (simp add: same_def on_files_sel)

section \<open>Folding a stored prefix\<close>

lemma fold_events_prefix:
  assumes "fold_events E (xs @ ys) = Ok (s, None)"
  obtains p where "fold_events E xs = Ok (p, None)" and "fold_from E p ys = Ok (s, None)"
  using assms by (auto simp: fold_events_def fold_from_append split: outcome.splits option.splits prod.splits)

lemma fold_prefix_eq: "fold_from E s evs = Ok (p, None) \<Longrightarrow> fold_prefix E s evs = Ok p"
  by (induction E s evs rule: fold_prefix.induct) (auto split: outcome.splits)

lemma cached_head_same: "lf_head f = Some h \<Longrightarrow> ledger_head E l now f = (Ok (Some h), f)"
  by (simp add: ledger_head_def cached_head_def)

lemma read_from_cached: "lf_head f = Some h \<Longrightarrow> snd (ledger_read_from E l now since limit f) = f"
  by (simp add: ledger_read_from_def cached_head_same Let_def)

lemma folded_to_stored:
  assumes "prost_codec E" and "crypto_ok E" and "storage_inv E S" and "sg_entry S l = Some e"
    and "unat seq < length (stored_events S l)"
  shows "\<exists>p. folded_to E now l seq (sg_files S l) = (Ok p, sg_files S l)
    \<and> fold_events E (take (unat seq) (stored_events S l)) = Ok (p, None)"
proof -
  let ?evs = "stored_events S l" and ?f = "sg_files S l"
  have holds: "entry_holds E (sg_caps S) l ?f e ?evs"
    using assms(3,4) by (cases rule: held_cases [where l = l]) auto
  then have "fold_events E (take (unat seq) ?evs @ drop (unat seq) ?evs) = Ok (en_state e, None)"
    by (simp add: entry_holds_def)
  then obtain p where p: "fold_events E (take (unat seq) ?evs) = Ok (p, None)" by (rule fold_events_prefix)
  from read_from_in_sync [OF assms(1) held_in_sync [OF assms(3,1,2)], of l now 0 "Some (unat seq)" l]
  have "fst (ledger_read_from E l now 0 (Some (unat seq)) ?f) = Ok (stored_run ?evs (take (unat seq) [0 ..< length ?evs]))"
    by auto
  moreover have "snd (ledger_read_from E l now 0 (Some (unat seq)) ?f) = ?f"
    using holds by (intro read_from_cached) (auto simp: entry_holds_def)
  ultimately have "folded_to E now l seq ?f = (fold_prefix E empty_state (take (unat seq) ?evs), ?f)"
    using stored_run_bytes [of ?evs "unat seq" 0] by (simp add: folded_to_def then_do_def)
  with p show ?thesis by (auto simp: fold_events_def dest: fold_prefix_eq)
qed

section \<open>Recording a fork\<close>

lemma bt_wf_unique:
  assumes "bt_wf m" and "bt_wf m'" and "set m = set m'"
  shows "m = m'"
proof -
  have keys: "map fst m = map fst m'"
    using assms by (intro strict_sorted_equal) (auto simp: bt_wf_def)
  have "map_of m k = Some v \<longleftrightarrow> map_of m' k = Some v" for k v
    using bt_get_mem [OF assms(1)] bt_get_mem [OF assms(2)] assms(3) by (simp add: bt_get_def)
  then have eq: "map_of m = map_of m'" by (intro ext) (metis option.exhaust)
  have entries: "map (\<lambda>k. (k, the (map_of xs k))) (map fst xs) = xs" if "bt_wf xs" for xs :: "('a \<times> 'b) list"
  proof -
    have "(fst x, the (map_of xs (fst x))) = x" if "x \<in> set xs" for x
    proof -
      have "map_of xs (fst x) = Some (snd x)"
        using that by (intro map_of_is_SomeI bt_wf_distinct [OF \<open>bt_wf xs\<close>]) simp
      then show ?thesis by simp
    qed
    then show ?thesis by (simp add: map_idI)
  qed
  have "m = map (\<lambda>k. (k, the (map_of m k))) (map fst m)" by (rule entries [OF assms(1), symmetric])
  also have "\<dots> = m'" unfolding keys eq by (rule entries [OF assms(2)])
  finally show ?thesis .
qed

lemma set_bt_insert_new: "bt_get m k = None \<Longrightarrow> set (bt_insert k v m) = insert (k, v) (set m)"
  by (induction k v m rule: bt_insert.induct) (auto simp: bt_get_def split: if_splits)

lemma fork_conflict_id:
  assumes "prost_codec E" and "state_wf p" and "validate_fork_record E p kept conflicting = Ok fk"
  shows "signed_event_id E conflicting = Some (fk_conflicting fk)"
  using assms(3) verify_at_Ok [OF assms(1,2), of _ conflicting]
  by (auto simp: fork_record_Ok dest: valid_event_bodies(2))

lemma fork_holds_id:
  assumes "prost_codec E" and "crypto_ok E" and "fork_holds E l evs r"
  shows "signed_event_id E (fr_conflicting r) = Some (snd (fork_key E r))"
proof -
  from assms(3) obtain p fk where p: "fold_events E (take (unat (fr_seq r)) evs) = Ok (p, None)"
    "validate_fork_record E p (fr_kept r) (fr_conflicting r) = Ok fk" by (auto simp: fork_holds_def)
  have "state_wf p" using fold_events_run [OF p(1) assms(1)] by (auto simp: run_of_def)
  from fork_conflict_id [OF assms(1) this p(2)] show ?thesis by (simp add: fork_key_def)
qed

lemma sorted_fork_keys:
  assumes "\<forall>r\<in>set rs. fork_order E r = (fst (fork_key E r), Some (snd (fork_key E r)))"
    and "sorted (map (fork_order E) rs)" and "distinct (map (fork_key E) rs)"
  shows "sorted_wrt (<) (map (fork_key E) rs)"
  using assms
proof (induction rs)
  case (Cons r rs)
  have "fork_key E r < fork_key E r'" if "r' \<in> set rs" for r'
  proof -
    have "fork_order E r \<le> fork_order E r'" "fork_key E r \<noteq> fork_key E r'" using Cons.prems that by auto
    then have "fork_key E r \<le> fork_key E r'" using Cons.prems(1) that by (auto simp: less_eq_prod_def)
    then show ?thesis using \<open>fork_key E r \<noteq> fork_key E r'\<close> by simp
  qed
  then show ?case using Cons by simp
qed simp

lemma forks_hold_add:
  assumes "prost_codec E" and "crypto_ok E" and "forks_hold E fork_cap l f evs rs" and "fork_holds E l evs r"
    and "fork_key E r \<notin> fork_key E ` set rs" and "length rs < unat fork_cap"
    and "lf_forks f' = bt_insert (fork_key E r) (fork_entry r) (lf_forks f)"
  shows "forks_hold E fork_cap l f' evs (sort_key (fork_order E) (rs @ [r]))"
proof -
  let ?rs = "sort_key (fork_order E) (rs @ [r])" and ?g = "\<lambda>r. (fork_key E r, fork_entry r)"
  have f: "lf_forks f = map ?g rs" "bt_wf (lf_forks f)" "list_all (fork_holds E l evs) rs"
    using assms(3) unfolding forks_hold_def by blast+
  have all: "\<forall>r\<in>set ?rs. fork_holds E l evs r" using f(3) assms(4) by (auto simp: list_all_iff)
  have "fork_order E x = (fst (fork_key E x), Some (snd (fork_key E x)))" if "x \<in> set ?rs" for x
    using fork_holds_id [OF assms(1,2)] all that by (auto simp: fork_order_def fork_key_def)
  moreover have "distinct (map (fork_key E) rs)" using bt_wf_distinct [OF f(2)] by (simp add: f(1) comp_def)
  then have "distinct (map (fork_key E) (rs @ [r]))" using assms(5) by simp
  then have "distinct (map (fork_key E) ?rs)"
    by (metis distinct_map distinct_sort set_sort)
  ultimately have "sorted_wrt (<) (map (fork_key E) ?rs)" by (intro sorted_fork_keys) simp_all
  then have wf: "bt_wf (map ?g ?rs)" by (simp add: bt_wf_def comp_def)
  have new: "bt_get (lf_forks f) (fork_key E r) = None"
    using assms(5) by (auto simp: f(1) bt_get_def map_of_eq_None_iff)
  have "set (bt_insert (fork_key E r) (fork_entry r) (lf_forks f)) = insert (?g r) (set (lf_forks f))"
    using new by (rule set_bt_insert_new)
  then have "lf_forks f' = map ?g ?rs"
    using wf f(2) assms(7) by (intro bt_wf_unique) (auto simp: bt_wf_insert f(1))
  then show ?thesis using wf all assms(6) by (simp add: forks_hold_def list_all_iff)
qed

lemma forks_truncated_iff:
  assumes "length (en_forks e) \<le> unat (fork_cap :: u32)"
  shows "forks_truncated e fork_cap \<longleftrightarrow> unat fork_cap \<le> length (en_forks e)"
proof -
  have "length (en_forks e) < 2 ^ 32" using assms unsigned_less [of fork_cap, where ?'a = nat] by simp
  then have "unat (of_nat (length (en_forks e)) :: u32) = length (en_forks e)"
    by (simp add: unat_of_nat take_bit_nat_eq_self)
  then show ?thesis by (simp add: forks_truncated_def word_le_nat_alt)
qed

lemma stored_fork_not_Panic:
  assumes "prost_codec E" and "crypto_ok E" and "fold_events E (take n evs) = Ok (p, None)" and "length evs \<le> 2 ^ 63"
  shows "validate_fork_record E p a b \<noteq> Panic"
proof (cases "take n evs = []")
  case True
  then have "p = empty_state" using assms(3) unfolding True by (simp add: fold_events_def)
  then show ?thesis by (simp add: validate_fork_record_def empty_state_def)
next
  case False
  note facts = fold_facts [OF assms(1-3) False]
  have "hd_seq h + 1 \<noteq> 0" if "ls_head p = Some h" for h
  proof -
    have "hd_seq h = of_nat (length (take n evs) - 1)" using facts(2) that by simp
    then have "hd_seq h + 1 = of_nat (length (take n evs))" using False by (simp add: of_nat_diff Suc_le_eq)
    moreover have "unat (of_nat (length (take n evs)) :: u64) = length (take n evs)"
      using assms(4) by (intro unat_word_of_nat64) simp
    ultimately show ?thesis using False by (metis length_0_conv unsigned_0)
  qed
  then show ?thesis using fork_not_Panic [OF assms(1) facts(6,7)] by blast
qed

lemma record_divergence_cases:
  assumes "prost_codec E" and "crypto_ok E" and "storage_inv E S" and "sg_entry S l = Some e"
    and "unat seq < length (stored_events S l)" and "endpoint_ok E prov"
  defines "kept \<equiv> stored_events S l ! unat seq"
  obtains (refused) x S' where "record_divergence E W now l seq kept conflicting prov S = (Err x, S')" and "same S S'"
  | (recorded) S' f e' r where
      "record_divergence E W now l seq kept conflicting prov S = (Err (store_fork seq (W (NoteForked seq))), S')"
      and "puts l f e' S S'" and "sg_entries S' = sg_entries S" and "en_state e' = en_state e"
      and "entry_holds E (sg_caps S) l f e' (stored_events S l)" and "en_bytes e' = en_bytes e"
      and "ix_storage_used (sg_index S') = ix_storage_used (sg_index S)"
      and "r \<in> set (en_forks e')" and "fr_conflicting r = conflicting" and "fr_seq r = seq"
proof -
  let ?evs = "stored_events S l" and ?S1 = "snd (on_files l (folded_to E now l seq) S)"
  from folded_to_stored [OF assms(1-5), of now] obtain p where
    fold: "folded_to E now l seq (sg_files S l) = (Ok p, sg_files S l)"
    and p: "fold_events E (take (unat seq) ?evs) = Ok (p, None)" by blast
  have S1: "same S ?S1" using fold by (intro on_files_same) simp
  have holds: "entry_holds E (sg_caps S) l (sg_files S l) e ?evs"
    using assms(3,4) by (cases rule: held_cases [where l = l]) auto
  have pair: "run_map_err (unavailable W) (on_files l (folded_to E now l seq) S) = (Ok p, ?S1)"
    using fold by (simp add: run_map_err_def on_files_sel)
  have div: "record_divergence E W now l seq kept conflicting prov S =
      then_do (map_err (fork_refusal W l seq) (validate_fork_record E p kept conflicting), ?S1) (\<lambda>fk S.
      then_do (expect (sg_entry S l), S) (\<lambda>e S.
      let known = list_ex (\<lambda>r. fr_seq r = seq \<and> signed_event_id E (fr_conflicting r) = Some (fk_conflicting fk)) (en_forks e);
         S = (if \<not> known \<and> \<not> forks_truncated e (cp_fork_records (sg_caps S)) then
                let r = \<lparr>fr_ledger = l, fr_seq = seq, fr_kept = kept, fr_conflicting = conflicting,
                       fr_observed_ms = now, fr_source_endpoint = prov\<rparr>;
                    S = snd (on_files l (\<lambda>f. (Ok () :: (storage_error, unit) outcome, record_fork seq (fk_conflicting fk) (fork_entry r) f)) S);
                    e = e\<lparr>en_forks := sort_key (fork_order E) (en_forks e @ [r])\<rparr>
                in S\<lparr>sg_index := (sg_index S)\<lparr>ix_ledgers := bt_insert l e (ix_ledgers (sg_index S))\<rparr>\<rparr>
              else S)
      in (Err (store_fork seq (W (NoteForked seq))), S)))"
    by (simp only: record_divergence_def pair then_do_simps)
  show thesis
  proof (cases "validate_fork_record E p kept conflicting")
    case (Err x)
    then show thesis using div S1 by (intro refused) simp_all
  next
    case Panic
    moreover have "length (stored_events S l) \<le> 2 ^ 63"
      using entry_countable [OF _ holds] assms(3) by (simp add: storage_inv_def)
    ultimately show thesis using stored_fork_not_Panic [OF assms(1,2) p] assms(5) by simp
  next
    case (Ok fk)
    let ?r = "\<lparr>fr_ledger = l, fr_seq = seq, fr_kept = kept, fr_conflicting = conflicting,
        fr_observed_ms = now, fr_source_endpoint = prov\<rparr>"
    let ?known = "list_ex (\<lambda>r. fr_seq r = seq \<and> signed_event_id E (fr_conflicting r) = Some (fk_conflicting fk)) (en_forks e)"
    let ?new = "\<not> ?known \<and> \<not> forks_truncated e (cp_fork_records (sg_caps S))"
    let ?e = "e\<lparr>en_forks := sort_key (fork_order E) (en_forks e @ [?r])\<rparr>"
    let ?S2 = "snd (on_files l (\<lambda>f. (Ok () :: (storage_error, unit) outcome, record_fork seq (fk_conflicting fk) (fork_entry ?r) f)) ?S1)"
    let ?S3 = "?S2\<lparr>sg_index := (sg_index ?S2)\<lparr>ix_ledgers := bt_insert l ?e (ix_ledgers (sg_index ?S2))\<rparr>\<rparr>"
    let ?f = "record_fork seq (fk_conflicting fk) (fork_entry ?r) (sg_files S l)"
    have entry: "sg_entry ?S1 l = Some e" "sg_caps ?S1 = sg_caps S" using assms(4) by (simp_all add: on_files_sel)
    have result: "record_divergence E W now l seq kept conflicting prov S
        = (Err (store_fork seq (W (NoteForked seq))), if ?new then ?S3 else ?S1)"
      unfolding div Ok using entry by (simp add: Let_def)
    show thesis
    proof (cases ?new)
      case False
      then show thesis using result S1 by (intro refused) auto
    next
      case True
      have wf: "state_wf p" using fold_events_run [OF p assms(1)] by (auto simp: run_of_def)
      have id: "signed_event_id E conflicting = Some (fk_conflicting fk)" by (rule fork_conflict_id [OF assms(1) wf Ok])
      have fh: "forks_hold E (cp_fork_records (sg_caps S)) l (sg_files S l) ?evs (en_forks e)"
        using holds by (simp add: entry_holds_def)
      then have few: "length (en_forks e) < unat (cp_fork_records (sg_caps S))"
        using True forks_truncated_iff [of e "cp_fork_records (sg_caps S)"] by (auto simp: forks_hold_def)
      have r: "fork_holds E l ?evs ?r" using p Ok assms(5,6) by (auto simp: fork_holds_def kept_def)
      have "fork_key E ?r \<notin> fork_key E ` set (en_forks e)"
      proof
        assume "fork_key E ?r \<in> fork_key E ` set (en_forks e)"
        then obtain x where x: "x \<in> set (en_forks e)" "fork_key E x = fork_key E ?r" by auto
        then have "fork_holds E l ?evs x" using fh by (auto simp: forks_hold_def list_all_iff)
        from fork_holds_id [OF assms(1,2) this] x id have ?known by (auto simp: list_ex_iff fork_key_def)
        then show False using True by simp
      qed
      then have "forks_hold E (cp_fork_records (sg_caps S)) l ?f ?evs (en_forks ?e)"
        using forks_hold_add [OF assms(1,2) fh r _ few, of ?f] id by (simp add: record_fork_def fork_key_def)
      then have "entry_holds E (sg_caps S) l ?f ?e ?evs"
        using holds by (simp add: entry_holds_def record_fork_def)
      moreover have "puts l ?f ?e S ?S3"
        using S1 assms(3) fold by (auto simp: puts_def same_def on_files_sel storage_inv_def)
      ultimately show thesis
        using result True by (intro recorded [of ?S3 ?f ?e ?r]) (simp_all add: on_files_sel)
    qed
  qed
qed

section \<open>The overlap\<close>

lemma overlap_loop_spec:
  assumes "lf_events f = event_files old" and "old \<noteq> []" and "length old \<le> 2 ^ 63"
    and "head_seq = of_nat (length old - 1)" and "unat seq \<le> length old"
  shows "(\<exists>n \<le> length evs. overlap_loop l f head_seq seq offset evs = Ok (Fresh (offset + n))
        \<and> take n evs = take n (drop (unat seq) old) \<and> unat seq + n \<le> length old
        \<and> (n = length evs \<or> unat seq + n = length old))
    \<or> (\<exists>k < length evs. overlap_loop l f head_seq seq offset evs
          = Ok (Diverged (seq + of_nat k) (old ! (unat seq + k)) (evs ! k))
        \<and> unat seq + k < length old \<and> evs ! k \<noteq> old ! (unat seq + k) \<and> unat (seq + of_nat k) = unat seq + k)"
  using assms(5)
proof (induction evs arbitrary: seq offset)
  case (Cons ev evs)
  have last: "unat head_seq = length old - 1" using assms(3,4) unat_word_of_nat64 [of "length old - 1"] by simp
  show ?case
  proof (cases "unat seq = length old")
    case True
    then have "seq > head_seq" using assms(2) by (simp add: word_less_nat_alt last)
    then show ?thesis using True by (intro disjI1 exI [of _ 0]) simp
  next
    case False
    then have lt: "unat seq < length old" using Cons.prems by simp
    then have ge: "\<not> seq > head_seq" by (simp add: word_less_nat_alt last)
    have read: "read_event l seq f = Ok (old ! unat seq)"
      using lt assms(1,3) by (simp add: read_event_def event_files_get)
    show ?thesis
    proof (cases "old ! unat seq = ev")
      case True
      have suc: "unat (seq + 1) = Suc (unat seq)"
        using lt assms(3) unat_word_of_nat64 [of "Suc (unat seq)"] by (simp add: add.commute)
      have step: "overlap_loop l f head_seq seq offset (ev # evs) = overlap_loop l f head_seq (seq + 1) (Suc offset) evs"
        using ge read True by simp
      from Cons.IH [of "seq + 1" "Suc offset"] suc lt have "(\<exists>n \<le> length evs.
            overlap_loop l f head_seq (seq + 1) (Suc offset) evs = Ok (Fresh (Suc offset + n))
          \<and> take n evs = take n (drop (Suc (unat seq)) old) \<and> Suc (unat seq) + n \<le> length old
          \<and> (n = length evs \<or> Suc (unat seq) + n = length old))
        \<or> (\<exists>k < length evs. overlap_loop l f head_seq (seq + 1) (Suc offset) evs
            = Ok (Diverged (seq + 1 + of_nat k) (old ! (Suc (unat seq) + k)) (evs ! k))
          \<and> Suc (unat seq) + k < length old \<and> evs ! k \<noteq> old ! (Suc (unat seq) + k)
          \<and> unat (seq + 1 + of_nat k) = Suc (unat seq) + k)" by simp
      then show ?thesis
      proof (rule disjE)
        assume "\<exists>n \<le> length evs. overlap_loop l f head_seq (seq + 1) (Suc offset) evs = Ok (Fresh (Suc offset + n))
          \<and> take n evs = take n (drop (Suc (unat seq)) old) \<and> Suc (unat seq) + n \<le> length old
          \<and> (n = length evs \<or> Suc (unat seq) + n = length old)"
        then obtain n where n: "n \<le> length evs"
          "overlap_loop l f head_seq (seq + 1) (Suc offset) evs = Ok (Fresh (Suc offset + n))"
          "take n evs = take n (drop (Suc (unat seq)) old)" "Suc (unat seq) + n \<le> length old"
          "n = length evs \<or> Suc (unat seq) + n = length old" by blast
        have "drop (unat seq) old = ev # drop (Suc (unat seq)) old" using lt True by (simp add: Cons_nth_drop_Suc [symmetric])
        with n step show ?thesis by (intro disjI1 exI [of _ "Suc n"]) auto
      next
        assume "\<exists>k < length evs. overlap_loop l f head_seq (seq + 1) (Suc offset) evs
            = Ok (Diverged (seq + 1 + of_nat k) (old ! (Suc (unat seq) + k)) (evs ! k))
          \<and> Suc (unat seq) + k < length old \<and> evs ! k \<noteq> old ! (Suc (unat seq) + k)
          \<and> unat (seq + 1 + of_nat k) = Suc (unat seq) + k"
        then obtain k where "k < length evs" "overlap_loop l f head_seq (seq + 1) (Suc offset) evs
            = Ok (Diverged (seq + 1 + of_nat k) (old ! (Suc (unat seq) + k)) (evs ! k))"
          "Suc (unat seq) + k < length old" "evs ! k \<noteq> old ! (Suc (unat seq) + k)"
          "unat (seq + 1 + of_nat k) = Suc (unat seq) + k" by blast
        with step show ?thesis by (intro disjI2 exI [of _ "Suc k"]) (simp add: add.assoc)
      qed
    next
      case False
      then show ?thesis using ge read lt by (intro disjI2 exI [of _ 0]) auto
    qed
  qed
qed simp

section \<open>Branches of a push\<close>

text \<open>A step that adds events at the end of one ledger.\<close>

definition grows :: "env \<Rightarrow> ledger_id \<Rightarrow> bytes list \<Rightarrow> entry \<Rightarrow> ledger_storage \<Rightarrow> ledger_storage \<Rightarrow> bool" where
  "grows E l new e S S' \<longleftrightarrow> new \<noteq> [] \<and> counted (sg_caps S) (sg_index S') \<and> rechecked S'
     \<and> (\<exists>f. puts l f e S S' \<and> entry_holds E (sg_caps S) l f e (stored_events S l @ new))"

text \<open>A step that records a fork and adds no event.\<close>

definition forks_on :: "env \<Rightarrow> ledger_id \<Rightarrow> ledger_storage \<Rightarrow> ledger_storage \<Rightarrow> bool" where
  "forks_on E l S S' \<longleftrightarrow> sg_entries S' = sg_entries S
     \<and> ix_storage_used (sg_index S') = ix_storage_used (sg_index S)
     \<and> (\<exists>f e e'. puts l f e' S S' \<and> sg_entry S l = Some e \<and> en_state e' = en_state e \<and> en_bytes e' = en_bytes e
          \<and> entry_holds E (sg_caps S) l f e' (stored_events S l))"

lemma store_tail:
  fixes W :: note_texts and now :: u64 and prov :: provenance
  assumes "prost_codec E" and "crypto_ok E" and "storage_inv E S"
    and "fold_events E (stored_events S l) = Ok (s0, None)" and "apply_run E s0 0 suffix = Ok (s, m, bad)"
    and "0 < m \<Longrightarrow> ls_ledger s = Some l" and "length suffix < 2 ^ 32"
  defines "run \<equiv> store_run E W now l s (take m suffix) prov S"
  shows "(\<exists>r. run = (r, S) \<and> r \<noteq> Panic \<and> ((\<exists>a. r = Ok a) \<longrightarrow> m = 0)) \<or> (\<exists>S' e. 0 < m \<and> grows E l (take m suffix) e S S' \<and> en_state e = s
      \<and> run = (Ok \<lparr>po_head_seq = of_nat (length (stored_events S l) + m - 1), po_stored = of_nat m\<rparr>, S'))"
proof -
  from assms(5) have m: "m \<le> length suffix" "fold_from E s0 (take m suffix) = Ok (s, None)"
    by (auto simp: apply_run_Ok)
  show ?thesis
  proof (cases "m = 0")
    case True
    then show ?thesis by (auto simp: run_def store_run_def Let_def)
  next
    case False
    then have new: "take m suffix \<noteq> []" "length (take m suffix) = m" "length (take m suffix) < 2 ^ 32"
      using m(1) assms(7) by auto
    have fold: "fold_events E (stored_events S l @ take m suffix) = Ok (s, None)"
      using m(2) by (simp add: fold_events_append [OF assms(4)])
    show ?thesis
    proof (cases "check_caps W S l (of_nat (length (take m suffix))) (event_bytes (take m suffix))")
      case (Ok u)
      have "check_caps W S l (of_nat (length (take m suffix))) (event_bytes (take m suffix)) = Ok ()" using Ok by simp
      from store_run_grows [OF assms(1-3) fold _ new(1,3) this, of now prov] assms(6) False obtain S' f e where
        "run = (Ok \<lparr>po_head_seq = of_nat (length (stored_events S l @ take m suffix) - 1),
            po_stored = of_nat (length (take m suffix))\<rparr>, S')"
        "puts l f e S S'" "entry_holds E (sg_caps S) l f e (stored_events S l @ take m suffix)"
        "counted (sg_caps S) (sg_index S')" "rechecked S'" by (auto simp: run_def)
      moreover from this fold have "en_state e = s" by (simp add: entry_holds_def)
      ultimately show ?thesis using False new by (auto simp: grows_def)
    next
      case (Err x)
      from store_run_Err [OF this new(1), of E now s prov] show ?thesis by (simp add: run_def)
    next
      case Panic
      then show ?thesis by (auto simp: check_caps_def Let_def split: if_splits)
    qed
  qed
qed

text \<open>What a push does to the storage \<open>S\<close>, given its outcome \<open>r\<close> and the storage \<open>S'\<close> it leaves.\<close>

definition keeps :: "bytes list \<Rightarrow> ledger_id \<Rightarrow> ledger_storage \<Rightarrow> (store_error, push_outcome) outcome \<Rightarrow> ledger_storage \<Rightarrow> bool" where
  "keeps events l S r S' \<longleftrightarrow> same S S'
     \<and> (\<forall>a. r = Ok a \<longrightarrow> po_stored a = 0 \<and> (\<exists>k. events = take (length events) (drop k (stored_events S l))))"

definition extends :: "env \<Rightarrow> note_texts \<Rightarrow> bytes list \<Rightarrow> ledger_id \<Rightarrow> ledger_storage
    \<Rightarrow> (store_error, push_outcome) outcome \<Rightarrow> ledger_storage \<Rightarrow> bool" where
  "extends E W events l S r S' \<longleftrightarrow>
     (\<exists>k n m e. 0 < m \<and> n + m \<le> length events \<and> take n events = drop k (stored_events S l)
        \<and> grows E l (take m (drop n events)) e S S'
        \<and> storage_admit W S l (map_option en_state (sg_entry S l)) (en_state e) = Ok ()
        \<and> (if n + m = length events
           then r = Ok \<lparr>po_head_seq = of_nat (length (stored_events S l) + m - 1), po_stored = of_nat m\<rparr>
           else \<exists>x. r = Err x))"

definition push_effect :: "env \<Rightarrow> note_texts \<Rightarrow> bytes list \<Rightarrow> ledger_id \<Rightarrow> ledger_storage
    \<Rightarrow> (store_error, push_outcome) outcome \<Rightarrow> ledger_storage \<Rightarrow> bool" where
  "push_effect E W events l S r S' \<longleftrightarrow> r \<noteq> Panic
     \<and> (keeps events l S r S' \<or> forks_on E l S S' \<and> (\<exists>x. r = Err x) \<or> extends E W events l S r S')"

lemma keeps_Err: "same S S' \<Longrightarrow> push_effect E W events l S (Err x) S'"
  by (simp add: push_effect_def keeps_def)

lemma push_effect_run:
  fixes W :: note_texts and now :: u64 and prov :: provenance and q :: "reason \<Rightarrow> u64"
  assumes "prost_codec E" and "crypto_ok E" and "storage_inv E S" and "length events < 2 ^ 32"
    and "fold_events E (stored_events S l) = Ok (s0, None)" and "n \<le> length events"
    and "take n events = drop k (stored_events S l)" and "apply_run E s0 0 (drop n events) = Ok (s, m, bad)"
    and "0 < m \<Longrightarrow> ls_ledger s = Some l" and "drop n events \<noteq> []"
    and "storage_admit W S l (map_option en_state (sg_entry S l)) s = Ok ()"
  defines "r \<equiv> then_do (store_run E W now l s (take m (drop n events)) prov S) (\<lambda>stored S.
      case bad of Some x \<Rightarrow> (Err (store_invalid (q x) (W (NoteReason x))), S) | None \<Rightarrow> (Ok stored, S))"
  shows "push_effect E W events l S (fst r) (snd r)"
proof -
  have run: "m \<le> length (drop n events)" "bad = None \<longleftrightarrow> m = length (drop n events)"
    using assms(8) by (auto simp: apply_run_Ok split: option.splits)
  have "length (drop n events) < 2 ^ 32" using assms(4) by simp
  from store_tail [OF assms(1-3,5,8,9) this, of W now prov] consider
      (unchanged) a where "store_run E W now l s (take m (drop n events)) prov S = (a, S)" "a \<noteq> Panic" "(\<exists>b. a = Ok b) \<longrightarrow> m = 0"
    | (grown) S' e where "0 < m" "grows E l (take m (drop n events)) e S S'" "en_state e = s"
      "store_run E W now l s (take m (drop n events)) prov S
        = (Ok \<lparr>po_head_seq = of_nat (length (stored_events S l) + m - 1), po_stored = of_nat m\<rparr>, S')"
    by blast
  then show ?thesis
  proof cases
    case a: (unchanged a)
    show ?thesis
    proof (cases a)
      case (Ok b)
      with a(3) run assms(10) obtain x where "bad = Some x" by (cases bad) auto
      with a Ok show ?thesis by (simp add: r_def keeps_Err)
    qed (use a in \<open>simp_all add: r_def keeps_Err\<close>)
  next
    case g: (grown S' e)
    have "extends E W events l S (fst r) (snd r)"
      unfolding extends_def
    proof (intro exI conjI)
      show "0 < m" "n + m \<le> length events" "take n events = drop k (stored_events S l)"
        using g(1) run(1) assms(6,7) by simp_all
      show "grows E l (take m (drop n events)) e S (snd r)"
        using g by (cases bad) (simp_all add: r_def)
      show "storage_admit W S l (map_option en_state (sg_entry S l)) (en_state e) = Ok ()" using assms(11) g(3) by simp
      show "if n + m = length events
           then fst r = Ok \<lparr>po_head_seq = of_nat (length (stored_events S l) + m - 1), po_stored = of_nat m\<rparr>
           else \<exists>x. fst r = Err x"
        using g(4) run assms(6) by (cases bad) (auto simp: r_def)
    qed
    then show ?thesis using g(4) by (cases bad) (auto simp: push_effect_def r_def)
  qed
qed

lemma apply_run_total:
  assumes "prost_codec E" and "crypto_ok E" and "fold_events E old = Ok (s0, None)" and "length old + length evs < 2 ^ 64"
  obtains s m bad where "apply_run E s0 0 evs = Ok (s, m, bad)"
  using fold_events_not_Panic [OF assms] apply_run_outcome [of E s0 0 evs] by (cases "apply_run E s0 0 evs") auto

lemma ingest_effect:
  fixes W :: note_texts and now first_seq :: u64 and prov :: provenance
  assumes "prost_codec E" and "crypto_ok E" and "storage_inv E S" and "length events < 2 ^ 32" and "events \<noteq> []"
    and "sg_entry S l = None"
  defines "r \<equiv> ingest E W now l first_seq events prov S"
  shows "push_effect E W events l S (fst r) (snd r)"
proof (cases "first_seq = 0")
  case True
  have old: "stored_events S l = []" "fold_events E [] = Ok (empty_state, None)"
    using assms(6) by (simp_all add: stored_events_def fold_events_def)
  obtain s m bad where run: "apply_run E empty_state 0 events = Ok (s, m, bad)"
    by (rule apply_run_total [OF assms(1,2) old(2)]) (use assms(4) in auto)
  have bad: "m = 0 \<Longrightarrow> bad \<noteq> None" using run assms(5) by (auto simp: apply_run_Ok split: option.splits)
  show ?thesis
  proof (cases "m = 0 \<or> ls_ledger s \<noteq> Some l \<or> storage_admit W S l None s \<noteq> Ok ()")
    case False
    then have "r = then_do (store_run E W now l s (take m (drop 0 events)) prov S) (\<lambda>stored S.
        case bad of Some x \<Rightarrow> (Err (store_invalid (of_nat m) (W (NoteReason x))), S) | None \<Rightarrow> (Ok stored, S))"
      using True run by (simp add: r_def ingest_def)
    then show ?thesis
      using push_effect_run [OF assms(1-4), of l empty_state 0 0 s m bad W now prov "\<lambda>_. of_nat m"]
        old run False assms(5,6) by simp
  next
    case refused: True
    have "\<exists>x. r = (Err x, S)"
    proof (cases "m = 0")
      case True
      then show ?thesis using bad \<open>first_seq = 0\<close> run by (cases bad) (auto simp: r_def ingest_def)
    next
      case False
      then show ?thesis
        using refused \<open>first_seq = 0\<close> run
        by (cases "storage_admit W S l None s") (auto simp: r_def ingest_def storage_admit_def split: if_splits)
    qed
    then show ?thesis by (auto simp: keeps_Err)
  qed
qed (simp add: r_def ingest_def keeps_Err)

lemma admit_not_Panic: "storage_admit W S l pre post \<noteq> Panic"
  by (simp add: storage_admit_def)

lemma kept_ledger:
  assumes "prost_codec E" and "crypto_ok E" and "fold_events E old = Ok (s0, None)" and "old \<noteq> []"
    and "fold_from E s0 evs = Ok (s, None)"
  shows "ls_ledger s = ls_ledger s0"
  using fold_facts(3) [OF assms(1-4)] fold_facts(3) [OF assms(1,2), of "old @ evs" s]
    fold_events_append [OF assms(3), of evs] assms(4,5) by simp

lemma splice_effect:
  fixes W :: note_texts and now first_seq :: u64 and prov :: provenance
  assumes "prost_codec E" and "crypto_ok E" and "storage_inv E S" and "length events < 2 ^ 32"
    and "sg_entry S l = Some e" and "endpoint_ok E prov"
  defines "r \<equiv> splice E W now l first_seq events prov S"
  shows "push_effect E W events l S (fst r) (snd r)"
proof (cases "first_seq > en_head_seq e + 1")
  case True
  then show ?thesis using assms(5) by (simp add: r_def splice_def keeps_Err)
next
  case False
  let ?old = "stored_events S l" and ?f = "sg_files S l"
  have holds: "entry_holds E (sg_caps S) l ?f e ?old"
    using assms(3,5) by (cases rule: held_cases [where l = l]) auto
  then have old: "?old \<noteq> []" "lf_events ?f = event_files ?old" "en_head_seq e = of_nat (length ?old - 1)"
    "fold_events E ?old = Ok (en_state e, None)" "ls_ledger (en_state e) = Some l"
    by (simp_all add: entry_holds_def)
  have len: "length ?old \<le> 2 ^ 63" using entry_countable [OF _ holds] assms(3) by (simp add: storage_inv_def)
  have "en_head_seq e + 1 = of_nat (length ?old)" using old(1,3) by (simp add: of_nat_diff Suc_le_eq)
  then have first: "unat first_seq \<le> length ?old"
    using False len unat_word_of_nat64 [of "length ?old"] by (simp add: word_less_nat_alt)
  let ?loop = "overlap_loop l ?f (en_head_seq e) first_seq 0 events"
  show ?thesis
    using overlap_loop_spec [OF old(2,1) len old(3) first, of events l 0]
  proof (rule disjE)
    assume "\<exists>k < length events. ?loop = Ok (Diverged (first_seq + of_nat k) (?old ! (unat first_seq + k)) (events ! k))
        \<and> unat first_seq + k < length ?old \<and> events ! k \<noteq> ?old ! (unat first_seq + k)
        \<and> unat (first_seq + of_nat k) = unat first_seq + k"
    then obtain k where loop: "?loop = Ok (Diverged (first_seq + of_nat k) (?old ! (unat first_seq + k)) (events ! k))"
      "unat first_seq + k < length ?old" "unat (first_seq + of_nat k) = unat first_seq + k" by blast
    have seq: "unat (first_seq + of_nat k) < length ?old" using loop(2,3) by simp
    have r: "r = record_divergence E W now l (first_seq + of_nat k) (?old ! unat (first_seq + of_nat k)) (events ! k) prov S"
      using False assms(5) loop(1,3) by (simp add: r_def splice_def)
    have "push_effect E W events l S (fst r) (snd r)" if d: "r = (Err x, S')" and "same S S' \<or> forks_on E l S S'" for x S'
      using that by (auto simp: keeps_def push_effect_def)
    moreover have "\<exists>x S'. r = (Err x, S') \<and> (same S S' \<or> forks_on E l S S')"
      unfolding r using assms(5)
      by (rule_tac record_divergence_cases [OF assms(1-3,5) seq assms(6), of W now "events ! k"])
        (blast, auto simp: forks_on_def)
    ultimately show ?thesis by blast
  next
    assume "\<exists>n \<le> length events. ?loop = Ok (Fresh (0 + n)) \<and> take n events = take n (drop (unat first_seq) ?old)
        \<and> unat first_seq + n \<le> length ?old \<and> (n = length events \<or> unat first_seq + n = length ?old)"
    then obtain n where loop: "n \<le> length events" "?loop = Ok (Fresh n)" "take n events = take n (drop (unat first_seq) ?old)"
      "n = length events \<or> unat first_seq + n = length ?old" by auto
    show ?thesis
    proof (cases "drop n events = []")
      case True
      then have "r = (Ok \<lparr>po_head_seq = en_head_seq e, po_stored = 0\<rparr>, S)"
        using False assms(5) loop(2) by (simp add: r_def splice_def)
      moreover have "\<exists>k. events = take (length events) (drop k ?old)"
        using True loop(1,3) by (intro exI [of _ "unat first_seq"]) simp
      ultimately show ?thesis by (simp add: push_effect_def keeps_def)
    next
      case new: False
      then have over: "take n events = drop (unat first_seq) ?old" using loop(1,3,4) by auto
      have "length (drop n events) < 2 ^ 32" using assms(4) by simp
      then have "length ?old + length (drop n events) < 2 ^ 64" using len by simp
      from apply_run_total [OF assms(1,2) old(4) this] obtain s m bad where
        run: "apply_run E (en_state e) 0 (drop n events) = Ok (s, m, bad)" .
      then have "fold_from E (en_state e) (take m (drop n events)) = Ok (s, None)" by (auto simp: apply_run_Ok)
      then have ledger: "ls_ledger s = Some l" using kept_ledger [OF assms(1,2) old(4,1)] old(5) by simp
      let ?admit = "storage_admit W S l (Some (en_state e)) s"
      have r: "r = then_do (?admit, S) (\<lambda>_ S. then_do (store_run E W now l s (take m (drop n events)) prov S) (\<lambda>stored S.
          case bad of Some x \<Rightarrow> (Err (store_invalid (first_seq + of_nat (n + m)) (W (NoteReason x))), S) | None \<Rightarrow> (Ok stored, S)))"
        using False assms(5) loop(2) new run by (simp add: r_def splice_def Let_def)
      show ?thesis
      proof (cases ?admit)
        case (Ok u)
        then show ?thesis
          using push_effect_run [OF assms(1-4) old(4) loop(1) over run, of W now prov "\<lambda>_. first_seq + of_nat (n + m)"]
            ledger new assms(5) by (simp add: r)
      next
        case (Err x)
        then show ?thesis by (simp add: r keeps_Err)
      qed (simp add: admit_not_Panic)
    qed
  qed
qed

lemma check_contiguous_not_Panic: "check_contiguous W q evs \<noteq> Panic"
  by (induction W q evs rule: check_contiguous.induct) (auto simp: seq_of_def)

lemma push_has_effect:
  assumes "prost_codec E" and "crypto_ok E" and "storage_inv E S" and "length events < 2 ^ 32" and "endpoint_ok E prov"
  shows "push_effect E W events l S (fst (storage_push E W now l events prov S)) (snd (storage_push E W now l events prov S))"
proof (cases "events = []")
  case True
  then show ?thesis
    by (cases "sg_entry S l") (auto simp: storage_push_def keeps_Err, simp add: push_effect_def keeps_def)
next
  case False
  have seq: "seq_of W (hd events) \<noteq> Panic" by (simp add: seq_of_def)
  show ?thesis
  proof (cases "\<exists>q. seq_of W (hd events) = Ok q \<and> check_contiguous W q events = Ok ()")
    case True
    then obtain q where "seq_of W (hd events) = Ok q" "check_contiguous W q events = Ok ()" by blast
    then show ?thesis
      using False splice_effect [OF assms(1-4) _ assms(5), of l _ W now q] ingest_effect [OF assms(1-4) False, of l W now q prov]
      by (cases "sg_entry S l") (simp_all add: storage_push_def)
  next
    case refused: False
    have "\<exists>x. storage_push E W now l events prov S = (Err x, S)"
    proof (cases "seq_of W (hd events)")
      case (Ok q)
      with refused False check_contiguous_not_Panic [of W q events] show ?thesis
        by (cases "check_contiguous W q events") (auto simp: storage_push_def)
    qed (use seq False in \<open>simp_all add: storage_push_def\<close>)
    then show ?thesis by (auto simp: keeps_Err)
  qed
qed

end
