(* ===== verification/Sync_Entries.thy ===== *)
theory Sync_Entries
  imports Sync_Encode
begin

text \<open>
  The two records that travel inside a page, a ledger summary and a fork record: the
  layout their encoders write and that their readers invert it.
\<close>

section \<open>Optional ids and 32-bit counts\<close>

definition id_field :: "bytes option \<Rightarrow> bytes" where
  "id_field i = (case i of None \<Rightarrow> [] | Some b \<Rightarrow> b)"

definition opt_id :: "bytes option \<Rightarrow> bool" where
  "opt_id i \<longleftrightarrow> (case i of None \<Rightarrow> True | Some b \<Rightarrow> length b = 32)"

lemma unat_ucast32: "unat (ucast (x :: u32) :: u64) = unat x"
proof -
  have "unat x < 2 ^ 32" using unsigned_less [of x, where ?'a = nat] by simp
  then have "unat x < 2 ^ 64" by simp
  then show ?thesis by (simp add: unsigned_ucast_eq take_bit_nat_eq_self)
qed

lemma ucast_down_up32 [simp]: "ucast (ucast (x :: u32) :: u64) = x"
  by (rule bit_word_eqI) (simp add: bit_ucast_iff)

lemma ucast32_eq_0 [simp]: "(ucast (x :: u32) :: u64) = 0 \<longleftrightarrow> x = 0"
  using ucast_down_up32 [of x] by (metis ucast_0)

lemma read_flag_bool:
  "read_flag (f_varint k (if b then 1 else 0) @ rs) n \<longleftrightarrow> (if k = n \<and> b then True else read_flag rs n)"
  "read_flag (f_varint k (if b then 1 else 0)) n \<longleftrightarrow> k = n \<and> b"
  by (auto simp: read_flag_def)

section \<open>Fork records\<close>

definition fork_parts :: "fork_record \<Rightarrow> records" where
  "fork_parts r = f_bytes 1 (fr_ledger r) @ f_varint 2 (fr_seq r) @ [(3, VBytes (fr_kept r))]
     @ [(4, VBytes (fr_conflicting r))] @ f_varint 5 (fr_observed_ms r) @ f_bytes 6 (id_field (fr_source_endpoint r))"

definition fork_record_ok :: "env \<Rightarrow> fork_record \<Rightarrow> bool" where
  "fork_record_ok E r \<longleftrightarrow> length (fr_ledger r) = 32 \<and> length (fr_kept r) < 2 ^ 64 \<and> length (fr_conflicting r) < 2 ^ 64
     \<and> (case fr_source_endpoint r of None \<Rightarrow> True | Some x \<Rightarrow> endpoint_from_bytes E x = Some x)"

lemma endpoint_Some: "endpoint_from_bytes E x = Some y \<longleftrightarrow> y = x \<and> length x = 32 \<and> key_is_point E x"
  by (auto simp: endpoint_from_bytes_def)

lemma fork_entry_eq:
  assumes "fork_record_ok E r"
  shows "fork_entry r = enc_records (fork_parts r)"
  using assms
  by (cases "fr_source_endpoint r")
     (auto simp: fork_entry_def fork_parts_def fork_record_ok_def id_field_def endpoint_Some put_bytes_eq put_uint_eq
       put_message_eq f_bytes_def)

lemma fork_parts_small:
  assumes "fork_record_ok E r"
  shows "list_all small_record (fork_parts r)"
  using assms
  by (auto simp: fork_parts_def fork_record_ok_def small_record_iffs id_field_def endpoint_Some split: option.splits)

lemma read_fork_entry:
  assumes "fork_record_ok E r"
  shows "read_fork E (fork_entry r) = Some r"
proof -
  have fields: "read_fields (fork_entry r) = Some (fork_parts r)"
    unfolding fork_entry_eq [OF assms] by (rule read_fields_of [OF fork_parts_small [OF assms]])
  have ids: "fr_ledger r \<noteq> []" using assms by (auto simp: fork_record_ok_def)
  have six: "get_bytes (fork_parts r) 6 = fr_source_endpoint r"
    using assms by (auto simp: fork_parts_def id_field_def fork_record_ok_def endpoint_Some split: option.splits)
  have others: "get_bytes (fork_parts r) 1 = Some (fr_ledger r)" "get_bytes (fork_parts r) 3 = Some (fr_kept r)"
    "get_bytes (fork_parts r) 4 = Some (fr_conflicting r)"
    using ids by (simp_all add: fork_parts_def)
  have nums: "read_uint (fork_parts r) 2 = fr_seq r" "read_uint (fork_parts r) 5 = fr_observed_ms r"
    by (simp_all add: fork_parts_def read_uint_def)
  have id: "read_id (Some (fr_ledger r)) = Some (fr_ledger r)"
    using assms by (simp add: fork_record_ok_def read_id_def id_from_slice_def size_defs)
  have point: "fr_source_endpoint r = Some x \<Longrightarrow> endpoint_from_bytes E x = Some x" for x
    using assms by (simp add: fork_record_ok_def)
  show ?thesis
    unfolding read_fork_def fields by (cases "fr_source_endpoint r") (simp_all add: six others others(1) [unfolded One_nat_def] nums id point)
qed

end
