(* ===== verification/Storage_Reach.thy ===== *)
theory Storage_Reach
  imports Storage_Push Sync_Entries
begin

text \<open>
  Every storage a node can reach keeps the invariant: a push, a read, a reload, a
  ledger that is noted again and a new endpoint are the steps of a relation on
  storages, and loading a directory the invariant describes gives the entry that is
  indexed for it, so that a restart serves what was served before.
\<close>

section \<open>Pushes\<close>

lemma puts_stored:
  assumes "storage_inv E S" and "puts l f e S S'" and "entry_holds E (sg_caps S) l f e evs"
  shows "stored_events S' l' = (if l' = l then evs else stored_events S l')"
proof (cases "l' = l")
  case True
  have "sane_caps (sg_caps S')" "sg_entry S' l = Some e" "entry_holds E (sg_caps S') l (sg_files S' l) e evs"
    using assms puts_entry [OF assms(2), of l] by (auto simp: storage_inv_def puts_def)
  from stored_of_entry [OF this] True show ?thesis by simp
next
  case False
  then show ?thesis
    using assms(2) puts_entry [OF assms(2), of l'] by (auto simp: stored_events_def puts_def split: option.split)
qed

lemma grows_inv: "storage_inv E S \<Longrightarrow> grows E l new e S S' \<Longrightarrow> storage_inv E S'"
  by (auto simp: grows_def intro: puts_inv)

lemma grows_stored:
  "storage_inv E S \<Longrightarrow> grows E l new e S S' \<Longrightarrow>
   stored_events S' l' = (if l' = l then stored_events S l @ new else stored_events S l')"
  unfolding grows_def using puts_stored by blast

lemma forks_on_inv:
  assumes "storage_inv E S" and "forks_on E l S S'"
  shows "storage_inv E S'"
proof -
  from assms(2) obtain f e e' where p: "puts l f e' S S'" "sg_entry S l = Some e" "en_state e' = en_state e"
    "en_bytes e' = en_bytes e" "entry_holds E (sg_caps S) l f e' (stored_events S l)"
    and same: "sg_entries S' = sg_entries S" "ix_storage_used (sg_index S') = ix_storage_used (sg_index S)"
    by (auto simp: forks_on_def)
  have "counted (sg_caps S) (sg_index S')"
    using assms(1) p same by (intro counted_puts [OF assms(1) p(1), where d = 0]) (auto simp: storage_inv_def counted_def)
  moreover have "rechecked S'"
    using assms(1) p same by (intro puts_rechecked [OF _ p(1)]) (auto simp: storage_inv_def)
  ultimately show ?thesis using puts_inv [OF assms(1) p(1,5)] by blast
qed

lemma forks_on_stored: "storage_inv E S \<Longrightarrow> forks_on E l S S' \<Longrightarrow> stored_events S' l' = stored_events S l'"
  unfolding forks_on_def using puts_stored by (metis (no_types))

lemma push_effect_inv:
  assumes "storage_inv E S" and "push_effect E W events l S r S'"
  shows "storage_inv E S'"
  using assms same_inv grows_inv forks_on_inv unfolding push_effect_def keeps_def extends_def by blast

lemma push_effect_stored:
  assumes "storage_inv E S" and "push_effect E W events l S r S'"
  shows "\<exists>new. stored_events S' = (stored_events S)(l := stored_events S l @ new)
      \<and> (\<forall>a. r = Ok a \<longrightarrow> po_stored a = of_nat (length new) \<and> (\<exists>k. events = take (length events) (drop k (stored_events S' l))))"
proof -
  from assms(2) consider (keeps) "keeps events l S r S'" | (forks) "forks_on E l S S'" "\<exists>x. r = Err x"
    | (extends) "extends E W events l S r S'" by (auto simp: push_effect_def)
  then show ?thesis
  proof cases
    case keeps
    then have "stored_events S' = (stored_events S)(l := stored_events S l @ [])"
      using same_stored by (auto simp: keeps_def)
    with keeps show ?thesis by (intro exI [of _ "[]"]) (auto simp: keeps_def)
  next
    case forks
    then have "stored_events S' = (stored_events S)(l := stored_events S l @ [])"
      using forks_on_stored [OF assms(1)] by auto
    with forks show ?thesis by (intro exI [of _ "[]"]) auto
  next
    case extends
    then obtain k n m e where x: "n + m \<le> length events" "take n events = drop k (stored_events S l)"
      "grows E l (take m (drop n events)) e S S'"
      "if n + m = length events
       then r = Ok \<lparr>po_head_seq = of_nat (length (stored_events S l) + m - 1), po_stored = of_nat m\<rparr>
       else \<exists>x. r = Err x" by (auto simp: extends_def)
    let ?new = "take m (drop n events)"
    have stored: "stored_events S' = (stored_events S)(l := stored_events S l @ ?new)"
      using grows_stored [OF assms(1) x(3)] by auto
    have "\<exists>k. events = take (length events) (drop k (stored_events S' l))" if "n + m = length events"
    proof -
      have "k \<le> length (stored_events S l) \<or> drop k (stored_events S l) = drop (length (stored_events S l)) (stored_events S l)"
        by auto
      then obtain j where j: "j \<le> length (stored_events S l)" "take n events = drop j (stored_events S l)"
        using x(2) by (metis order_refl)
      have "drop j (stored_events S l @ ?new) = take n events @ drop n events" using j that by simp
      then show ?thesis using stored by (intro exI [of _ j]) simp
    qed
    with x stored show ?thesis by (intro exI [of _ ?new]) (auto split: if_splits)
  qed
qed

section \<open>Loading\<close>

lemma decode_fork_record_eq: "decode_fork_record E raw = read_fork E raw"
  by (simp add: decode_fork_record_def read_fork_def)

lemma apply_head: "apply_event E s ev = Ok s' \<Longrightarrow> ls_head s' \<noteq> None"
  by (auto simp: apply_event_def commit_def Let_def split: if_splits)

lemma load_loop_fold:
  "fold_from E s (map st_bytes evs) = Ok (s', None) \<Longrightarrow> evs \<noteq> [] \<Longrightarrow>
   load_loop E s nbytes head_seq head_event evs
   = Ok (s', nbytes + event_bytes (map st_bytes evs), st_seq (last evs), hd_event_id (the (ls_head s')))"
proof (induction evs arbitrary: s nbytes head_seq head_event)
  case (Cons ev evs)
  then obtain s1 where s1: "apply_event E s (st_bytes ev) = Ok s1" "fold_from E s1 (map st_bytes evs) = Ok (s', None)"
    by (auto split: outcome.splits)
  moreover obtain h where "ls_head s1 = Some h" using apply_head [OF s1(1)] by blast
  ultimately show ?case using Cons.IH [OF s1(2)] by (cases evs) (simp_all add: event_bytes_def add.assoc)
qed simp

lemma fork_holds_record:
  assumes "prost_codec E" and "fork_holds E l evs r" and "length l = 32"
  shows "fork_record_ok E r"
proof -
  from assms(2) obtain p fk where p: "fold_events E (take (unat (fr_seq r)) evs) = Ok (p, None)"
    "validate_fork_record E p (fr_kept r) (fr_conflicting r) = Ok fk" "fr_ledger r = l"
    and source: "endpoint_ok E (fr_source_endpoint r)" by (auto simp: fork_holds_def)
  have wf: "state_wf p" using fold_events_run [OF p(1) assms(1)] by (auto simp: run_of_def)
  have "length ev < 2 ^ 64" if "verify_at E p q ev = Ok i" for q ev i
    using verify_at_Ok [OF assms(1) wf] that by (fastforce simp: valid_event_def size_defs)
  then have "length (fr_kept r) < 2 ^ 64" "length (fr_conflicting r) < 2 ^ 64"
    using p(2) unfolding fork_record_Ok by blast+
  then show ?thesis using source p(3) assms(3) by (simp add: fork_record_ok_def endpoint_ok_def)
qed

lemma load_forks_held:
  assumes "prost_codec E" and "crypto_ok E" and "forks_hold E fork_cap l f evs rs" and "length l = 32"
  shows "load_forks E f = rs"
proof -
  have f: "lf_forks f = map (\<lambda>r. (fork_key E r, fork_entry r)) rs" "bt_wf (lf_forks f)" "\<forall>r\<in>set rs. fork_holds E l evs r"
    using assms(3) by (auto simp: forks_hold_def list_all_iff)
  have keys: "sorted_wrt (<) (map (fork_key E) rs)" using f(1,2) by (simp add: bt_wf_def comp_def)
  then have "sort (map fst (lf_forks f)) = map (fork_key E) rs"
    by (simp add: f(1) comp_def sorted_sort_id strict_sorted_imp_sorted)
  then have files: "ledger_forks f = map (\<lambda>r. \<lparr>ff_seq = fst (fork_key E r), ff_conflicting = snd (fork_key E r)\<rparr>) rs"
    by (simp add: ledger_forks_def case_prod_beta)
  have read: "bt_get (lf_forks f) (fork_key E r) = Some (fork_entry r)" if "r \<in> set rs" for r
    using that bt_get_mem [OF f(2)] by (auto simp: f(1))
  have raw: "decode_fork_record E (fork_entry r) = Some r" if "r \<in> set rs" for r
    using read_fork_entry [OF fork_holds_record [OF assms(1) _ assms(4)]] f(3) that by (auto simp: decode_fork_record_eq)
  have "List.map_filter (\<lambda>file. case bt_get (lf_forks f) (ff_seq file, ff_conflicting file) of
      Some raw \<Rightarrow> decode_fork_record E raw | None \<Rightarrow> None) (ledger_forks f) = rs"
    unfolding files using read raw by (induction rs) (simp_all add: map_filter_simps)
  moreover have "sort_key (fork_order E) rs = rs"
  proof (rule sort_key_id_if_sorted)
    have order: "fork_order E r = (fst (fork_key E r), Some (snd (fork_key E r)))" if "r \<in> set rs" for r
      using fork_holds_id [OF assms(1,2)] f(3) that by (auto simp: fork_order_def fork_key_def)
    then have eq: "map (fork_order E) rs = map (\<lambda>k. (fst k, Some (snd k))) (map (fork_key E) rs)" by simp
    show "sorted (map (fork_order E) rs)"
      unfolding eq using keys by (auto simp: sorted_wrt_map less_prod_def elim!: sorted_wrt_mono_rel [rotated])
  qed
  ultimately show ?thesis by (simp add: load_forks_def)
qed

lemma load_absent: "load_entry E now l no_files = (Ok None, no_files)"
  by (simp add: load_entry_def ledger_read_all_def ledger_read_from_def ledger_head_def cached_head_def rebuild_head_def
      sequences_def no_files_def contiguous_last_def)

lemma load_held:
  assumes "prost_codec E" and "crypto_ok E" and "sane_caps c" and "entry_holds E c l f e evs"
  shows "load_entry E now l f = (Ok (Some e), f)"
proof -
  have e: "evs \<noteq> []" "fold_events E evs = Ok (en_state e, None)" "ls_ledger (en_state e) = Some l"
    "lf_events f = event_files evs" "lf_head f = Some (head_for E (en_updated_ms e) evs)"
    "lf_meta f = Some \<lparr>lm_source_endpoint = en_source_endpoint e, lm_first_seen_ms = en_first_seen_ms e\<rparr>"
    "en_head_seq e = of_nat (length evs - 1)" "en_head_event e = the (signed_event_id E (last evs))"
    "en_bytes e = event_bytes evs" "forks_hold E (cp_fork_records c) l f evs (en_forks e)"
    using assms(4) by (auto simp: entry_holds_def)
  note facts = fold_facts [OF assms(1,2) e(2,1)]
  have "length evs < 2 ^ 64" using entry_countable [OF assms(3,4)] by simp
  then have sync: "in_sync E evs f" using e(1,4,5) facts(1) by (simp add: in_sync_def head_for_def)
  let ?run = "stored_run evs [0 ..< length evs]"
  have read: "ledger_read_all E l now f = (Ok ?run, f)"
    using read_from_in_sync [OF assms(1) sync, of l now 0 None] read_from_cached [OF e(5), of E l now 0 None]
    by (auto simp: ledger_read_all_def)
  have run: "map st_bytes ?run = evs" "?run \<noteq> []" "st_seq (last ?run) = of_nat (length evs - 1)"
    using stored_run_all [of evs "[]"] e(1) by (simp_all add: stored_run_def last_map)
  have loop: "load_loop E empty_state 0 0 (replicate 32 0) ?run = Ok (en_state e, en_bytes e, en_head_seq e, en_head_event e)"
    using load_loop_fold [of E empty_state ?run "en_state e"] e facts(2) run by (auto simp: fold_events_def)
  have "load_forks E f = en_forks e" using load_forks_held [OF assms(1,2) e(10)] facts(5) e(3) by simp
  then show ?thesis
    using read loop run(2) facts(2) e(5,6) by (auto simp: load_entry_def cached_head_def is_empty_def head_for_def)
qed

lemma loads:
  assumes "prost_codec E" and "crypto_ok E" and "storage_inv E S"
  shows "load_entry E now l (sg_files S l) = (Ok (sg_entry S l), sg_files S l)"
  using assms(3)
proof (cases rule: held_cases [where l = l])
  case (held e)
  then show ?thesis using load_held [OF assms(1,2)] assms(3) by (auto simp: storage_inv_def)
qed (simp add: load_absent)

section \<open>Rebuilding the index\<close>

lemma bt_get_unique:
  assumes "bt_wf m" and "bt_wf m'" and "\<And>k. bt_get m k = bt_get m' k"
  shows "m = m'"
proof (rule bt_wf_unique [OF assms(1,2)])
  show "set m = set m'" using bt_get_mem [OF assms(1)] bt_get_mem [OF assms(2)] assms(3) by auto
qed

definition adds :: "ledger_storage \<Rightarrow> ledger_id \<Rightarrow> index \<Rightarrow> index" where
  "adds S l ix = (case sg_entry S l of None \<Rightarrow> ix | Some e \<Rightarrow> add_entry l e ix)"

lemma reload_loop_adds:
  assumes "prost_codec E" and "crypto_ok E" and "storage_inv E S"
  shows "(\<forall>l. sg_files T l = sg_files S l) \<Longrightarrow>
    \<exists>T'. reload_loop E now ix ls T = (Ok (fold (adds S) ls ix), T') \<and> same T T'"
proof (induction ls arbitrary: ix T)
  case (Cons l ls)
  let ?T = "snd (on_files l (load_entry E now l) T)"
  have load: "load_entry E now l (sg_files T l) = (Ok (sg_entry S l), sg_files T l)"
    using loads [OF assms] Cons.prems by simp
  then have T: "fst (on_files l (load_entry E now l) T) = Ok (sg_entry S l)" by (simp add: on_files_sel)
  have same: "same T ?T" using load by (intro on_files_same) simp
  then have "\<forall>l. sg_files ?T l = sg_files S l" using Cons.prems by (simp add: same_def)
  from Cons.IH [OF this, of "adds S l ix"] obtain T' where
    "reload_loop E now (adds S l ix) ls ?T = (Ok (fold (adds S) ls (adds S l ix)), T')" "same ?T T'" by blast
  moreover have "reload_loop E now ix (l # ls) T = reload_loop E now (adds S l ix) ls ?T"
    using T by (cases "sg_entry S l") (simp_all add: then_do_def adds_def add_entry_def)
  ultimately show ?case using same_trans [OF same] by auto
qed (auto intro!: exI)

lemma adds_get: "bt_get (ix_ledgers (fold (adds S) ls ix)) l = (if l \<in> set ls \<and> sg_entry S l \<noteq> None then sg_entry S l
    else bt_get (ix_ledgers ix) l)"
  by (induction ls arbitrary: ix) (auto simp: adds_def add_entry_def bt_get_insert split: option.splits)

lemma adds_wf: "bt_wf (ix_ledgers ix) \<Longrightarrow> bt_wf (ix_ledgers (fold (adds S) ls ix))"
  by (induction ls arbitrary: ix) (auto simp: adds_def add_entry_def bt_wf_insert split: option.splits)

lemma adds_used:
  assumes "bt_wf (ix_ledgers ix)" and "distinct ls" and "\<forall>l\<in>set ls. bt_get (ix_ledgers ix) l = None"
    and "ix_storage_used ix = sum_list (map (\<lambda>x. en_bytes (snd x)) (ix_ledgers ix))"
  shows "ix_storage_used (fold (adds S) ls ix) = sum_list (map (\<lambda>x. en_bytes (snd x)) (ix_ledgers (fold (adds S) ls ix)))"
  using assms
proof (induction ls arbitrary: ix)
  case (Cons l ls)
  have "ix_storage_used (adds S l ix) = sum_list (map (\<lambda>x. en_bytes (snd x)) (ix_ledgers (adds S l ix)))"
    using Cons.prems sum_bt_insert [OF Cons.prems(1), of en_bytes l]
    by (auto simp: adds_def add_entry_def split: option.splits)
  moreover have "bt_wf (ix_ledgers (adds S l ix))" using adds_wf [OF Cons.prems(1), of S "[l]"] by simp
  moreover have "\<forall>l'\<in>set ls. bt_get (ix_ledgers (adds S l ix)) l' = None"
    using Cons.prems adds_get [of S "[l]" ix] by auto
  ultimately show ?case using Cons.IH Cons.prems by simp
qed simp

lemma home_ledgers_iff: "bt_wf (hm_ledgers h) \<Longrightarrow> l \<in> set (home_ledgers h) \<longleftrightarrow> lf_dir (home_ledger h l)"
  using bt_get_mem [of "hm_ledgers h" l]
  by (cases "bt_get (hm_ledgers h) l") (force simp: home_ledgers_def home_ledger_def no_files_def)+

lemma home_ledgers_distinct: "bt_wf (hm_ledgers h) \<Longrightarrow> distinct (home_ledgers h)"
  by (auto simp: home_ledgers_def dest!: bt_wf_distinct intro: distinct_map_filter)

lemma adds_index:
  assumes "storage_inv E S"
  shows "fold (adds S) (home_ledgers (sg_home S)) empty_index = sg_index S"
proof -
  let ?ls = "home_ledgers (sg_home S)" and ?ix = "fold (adds S) (home_ledgers (sg_home S)) empty_index"
  have wf: "bt_wf (hm_ledgers (sg_home S))" "bt_wf (ix_ledgers (sg_index S))" using assms by (simp_all add: storage_inv_def)
  have dir: "sg_entry S l \<noteq> None \<Longrightarrow> l \<in> set ?ls" for l
    using assms home_ledgers_iff [OF wf(1), of l] by (cases rule: held_cases [where l = l]) (auto simp: entry_holds_def sg_files_def)
  have "ix_ledgers ?ix = ix_ledgers (sg_index S)"
  proof (rule bt_get_unique)
    show "bt_get (ix_ledgers ?ix) l = bt_get (ix_ledgers (sg_index S)) l" for l
      using dir [of l] adds_get [of S ?ls empty_index l] by (cases "sg_entry S l") (auto simp: empty_index_def sg_entry_def)
  qed (use wf adds_wf [of empty_index S ?ls] in \<open>simp_all add: empty_index_def\<close>)
  moreover from this have "ix_storage_used ?ix = ix_storage_used (sg_index S)"
    using adds_used [of empty_index ?ls S] home_ledgers_distinct [OF wf(1)] assms
    by (simp add: empty_index_def storage_inv_def counted_def)
  ultimately show ?thesis by simp
qed

text \<open>Storages with the same files and index, under whatever policy.\<close>

definition alike :: "ledger_storage \<Rightarrow> ledger_storage \<Rightarrow> bool" where
  "alike S S' \<longleftrightarrow> sg_caps S' = sg_caps S \<and> sg_index S' = sg_index S \<and> (\<forall>l. sg_files S' l = sg_files S l)
     \<and> (bt_wf (hm_ledgers (sg_home S)) \<longrightarrow> bt_wf (hm_ledgers (sg_home S')))"

lemma alike_inv:
  assumes "storage_inv E S" and "alike S S'" and "rechecked S'"
  shows "storage_inv E S'"
proof -
  have "ledger_holds E S' l = ledger_holds E S l" for l
    using assms(2) by (simp add: alike_def ledger_holds_def sg_entry_def split: option.split)
  then show ?thesis using assms by (simp add: storage_inv_def alike_def)
qed

lemma alike_stored: "alike S S' \<Longrightarrow> stored_events S' l = stored_events S l"
  by (simp add: stored_events_def alike_def sg_entry_def split: option.split)

lemma reload_from:
  assumes "prost_codec E" and "crypto_ok E" and "storage_inv E S" and "sg_home T = sg_home S"
  shows "\<exists>T'. reload E now T = (Ok (), recheck (T'\<lparr>sg_index := sg_index S\<rparr>)) \<and> same T T'"
proof -
  have "\<forall>l. sg_files T l = sg_files S l" using assms(4) by (simp add: sg_files_def)
  from reload_loop_adds [OF assms(1-3) this, of now empty_index "home_ledgers (sg_home S)"] obtain T' where
    "reload_loop E now empty_index (home_ledgers (sg_home S)) T = (Ok (sg_index S), T')" "same T T'"
    by (auto simp: adds_index [OF assms(3)])
  then show ?thesis using assms(4) by (auto simp: reload_def)
qed

lemma recheck_same:
  assumes "storage_inv E S" and "same S (T\<lparr>sg_entries := sg_entries S\<rparr>)"
  shows "same S (recheck T)"
  using assms by (simp add: storage_inv_def rechecked_def same_def recheck_def sg_files_def)

lemma reload_same:
  assumes "prost_codec E" and "crypto_ok E" and "storage_inv E S"
  shows "fst (reload E now S) = Ok () \<and> same S (snd (reload E now S))"
proof -
  from reload_from [OF assms refl, of now] obtain T' where
    "reload E now S = (Ok (), recheck (T'\<lparr>sg_index := sg_index S\<rparr>))" "same S T'" by blast
  then show ?thesis using recheck_same [OF assms(3), of "T'\<lparr>sg_index := sg_index S\<rparr>"] by (simp add: same_def sg_files_def)
qed

text \<open>A node that starts again on the home it left: with the endpoint and the policy of before it serves the same.\<close>

lemma open_again:
  assumes "prost_codec E" and "crypto_ok E" and "storage_inv E S"
  shows "\<exists>S'. storage_open E now (sg_home S) endpoint (sg_caps S) policy = (Ok (), S') \<and> storage_inv E S'
     \<and> alike S S' \<and> sg_policy S' = policy \<and> sg_endpoint S' = endpoint
     \<and> (endpoint = sg_endpoint S \<and> policy = sg_policy S \<longrightarrow> same S S')"
proof -
  let ?T = "\<lparr>sg_home = sg_home S, sg_caps = sg_caps S, sg_policy = policy, sg_index = empty_index,
      sg_endpoint = endpoint, sg_entries = []\<rparr>"
  have "sg_home ?T = sg_home S" by simp
  from reload_from [OF assms this, of now] obtain T' where
    T': "reload E now ?T = (Ok (), recheck (T'\<lparr>sg_index := sg_index S\<rparr>))" "same ?T T'" by blast
  let ?S' = "recheck (T'\<lparr>sg_index := sg_index S\<rparr>)"
  have alike: "alike S ?S'" using T'(2) by (simp add: alike_def same_def sg_files_def)
  then have "storage_inv E ?S'" by (rule alike_inv [OF assms(3)]) (rule recheck_rechecked)
  moreover have "same S ?S'" if "endpoint = sg_endpoint S \<and> policy = sg_policy S"
    using that T'(2) by (intro recheck_same [OF assms(3)]) (simp add: same_def sg_files_def)
  moreover have "sg_policy ?S' = policy" "sg_endpoint ?S' = endpoint" using T'(2) by (simp_all add: same_def)
  ultimately show ?thesis using T'(1) alike by (auto simp: storage_open_def)
qed

section \<open>Reads and notes\<close>

lemma load_same:
  assumes "prost_codec E" and "crypto_ok E" and "storage_inv E S"
  shows "fst (on_files l (load_entry E now l) S) = Ok (sg_entry S l)"
    and "same S (snd (on_files l (load_entry E now l) S))"
  using loads [OF assms, of now l] by (auto simp: on_files_sel intro: on_files_same)

lemma head_same:
  assumes "prost_codec E" and "crypto_ok E" and "storage_inv E S"
  shows "\<exists>S'. storage_head E now l S = (map_option entry_head (sg_entry S l), S') \<and> same S S'"
proof (cases "sg_entry S l")
  case None
  then show ?thesis
    using load_same [OF assms, of l now]
    by (cases "on_files l (load_entry E now l) S") (auto simp: storage_head_def adopt_def)
qed (auto simp: storage_head_def)

lemma page_same:
  assumes "prost_codec E" and "crypto_ok E" and "storage_inv E S"
  shows "fst (storage_page E now l since limit S) = Ok (map_option (\<lambda>e.
      let page = take limit (drop (unat since) (stored_events S l)) in
      \<lparr>sp_report = entry_report e l (cp_fork_records (sg_caps S)), sp_events = page,
         sp_more = (since + of_nat (length page) \<le> en_head_seq e)\<rparr>) (sg_entry S l))"
    and "same S (snd (storage_page E now l since limit S))"
proof -
  from head_same [OF assms, of now l] obtain S' where
    h: "storage_head E now l S = (map_option entry_head (sg_entry S l), S')" "same S S'" by blast
  have "fst (storage_page E now l since limit S) = Ok (map_option (\<lambda>e.
      let page = take limit (drop (unat since) (stored_events S l)) in
      \<lparr>sp_report = entry_report e l (cp_fork_records (sg_caps S)), sp_events = page,
         sp_more = (since + of_nat (length page) \<le> en_head_seq e)\<rparr>) (sg_entry S l))
    \<and> same S (snd (storage_page E now l since limit S))"
    using assms(3)
  proof (cases rule: held_cases [where l = l])
    case absent
    then show ?thesis using h by (simp add: storage_page_def)
  next
    case (held e)
    have e: "sg_entry S' l = Some e" "sg_files S' l = sg_files S l" "sg_caps S' = sg_caps S"
      using h(2) held(1) same_entry [OF h(2)] by (simp_all add: same_def)
    have len: "length (stored_events S l) \<le> 2 ^ 63"
      using entry_countable [OF _ held(2)] assms(3) by (simp add: storage_inv_def)
    have "try_map (\<lambda>q. read_event l q (sg_files S l)) (take limit (seq_range since (en_head_seq e)))
        = Ok (take limit (drop (unat since) (stored_events S l)))"
      using seq_range_files [of "stored_events S l" "sg_files S l" l limit since] held(2) len by (simp add: entry_holds_def)
    then show ?thesis using h held(1) e by (simp add: storage_page_def Let_def)
  qed
  then show "fst (storage_page E now l since limit S) = Ok (map_option (\<lambda>e.
      let page = take limit (drop (unat since) (stored_events S l)) in
      \<lparr>sp_report = entry_report e l (cp_fork_records (sg_caps S)), sp_events = page,
         sp_more = (since + of_nat (length page) \<le> en_head_seq e)\<rparr>) (sg_entry S l))"
    "same S (snd (storage_page E now l since limit S))" by simp_all
qed

lemma read_same:
  assumes "prost_codec E" and "crypto_ok E" and "storage_inv E S"
  shows "same S (snd (storage_read_from E now l since limit S))"
  using page_same [OF assms, of now l since limit] by (simp add: storage_read_from_def then_do_def)

lemma bt_reinsert: "bt_wf m \<Longrightarrow> bt_get m k = Some v \<Longrightarrow> bt_insert k v (bt_remove k m) = m"
  by (rule bt_get_unique) (auto simp: bt_simps)

lemma note_same:
  assumes "prost_codec E" and "crypto_ok E" and "storage_inv E S"
  shows "fst (note_ledger E now l S) = Ok ()" and "same S (snd (note_ledger E now l S))"
proof -
  let ?T = "snd (on_files l (load_entry E now l) S)"
  note load = load_same [OF assms, of l now]
  have ix: "(case sg_entry S l of None \<Rightarrow> drop_entry l (sg_index S) | Some e \<Rightarrow> add_entry l e (drop_entry l (sg_index S)))
      = sg_index S"
  proof (cases "sg_entry S l")
    case (Some e)
    have wf: "bt_wf (ix_ledgers (sg_index S))" and c: "counted (sg_caps S) (sg_index S)"
      using assms(3) by (simp_all add: storage_inv_def)
    have get: "bt_get (ix_ledgers (sg_index S)) l = Some e" using Some by (simp add: sg_entry_def)
    let ?sum = "sum_list (map (\<lambda>x. unat (en_bytes (snd x))) (ix_ledgers (sg_index S)))"
    have used: "unat (ix_storage_used (sg_index S)) = ?sum"
      using c assms(3) unat_le_63 [of "cp_storage_capacity (sg_caps S)"] unat_word_of_nat64 [of ?sum]
      by (simp add: counted_def sum_words storage_inv_def sane_caps_def)
    have "(l, e) \<in> set (ix_ledgers (sg_index S))" using bt_get_mem [OF wf] get by simp
    then have "unat (en_bytes e) \<le> ?sum" by (force intro: member_le_sum_list)
    then have "en_bytes e \<le> ix_storage_used (sg_index S)" by (simp only: used word_le_nat_alt)
    then show ?thesis
      using Some get bt_reinsert [OF wf get] by (simp add: drop_entry_def add_entry_def saturating_sub_def)
  qed (simp add: drop_entry_def sg_entry_def)
  let ?U = "?T\<lparr>sg_index := sg_index S\<rparr>"
  have run: "note_ledger E now l S = (Ok (), if l \<in> set (ap_witness_for (sg_policy S)) then recheck ?U else ?U)"
    using load(1) ix by (cases "sg_entry S l") (simp_all add: note_ledger_def then_do_def Let_def on_files_sel)
  have "same S ?U" using load(2) by (simp add: same_def sg_files_def)
  moreover have "same S (recheck ?U)" using \<open>same S ?U\<close> by (intro recheck_same [OF assms(3)]) (simp add: same_def sg_files_def)
  ultimately show "fst (note_ledger E now l S) = Ok ()" "same S (snd (note_ledger E now l S))" by (simp_all add: run)
qed

lemma endpoint_alike: "alike S (note_endpoint endpoint S)"
  by (simp add: note_endpoint_def alike_def sg_files_def)

lemma endpoint_inv: "storage_inv E S \<Longrightarrow> storage_inv E (note_endpoint endpoint S)"
  by (rule alike_inv [OF _ endpoint_alike]) (auto simp: note_endpoint_def storage_inv_def recheck_rechecked)

lemma identities_alike: "alike S (S\<lparr>sg_home := (sg_home S)\<lparr>hm_identities := ids\<rparr>\<rparr>)"
  by (simp add: alike_def sg_files_def home_ledger_def)

section \<open>The storages a node reaches\<close>

text \<open>
  A storage starts on a home without ledgers; the steps are the operations the sync
  server and the node call, on any argument, a restart among them. Identities and
  their keys come and go through the home without touching the ledgers.
\<close>

inductive storage_step :: "env \<Rightarrow> note_texts \<Rightarrow> ledger_storage \<Rightarrow> ledger_storage \<Rightarrow> bool" for E W where
  push: "length events < 2 ^ 32 \<Longrightarrow> endpoint_ok E prov \<Longrightarrow>
    storage_step E W S (snd (storage_push E W now l events prov S))"
| head: "storage_step E W S (snd (storage_head E now l S))"
| read: "storage_step E W S (snd (storage_read_from E now l since limit S))"
| note_one: "storage_step E W S (snd (note_ledger E now l S))"
| reload: "storage_step E W S (snd (reload E now S))"
| restart: "storage_step E W S (snd (storage_open E now (sg_home S) endpoint (sg_caps S) policy))"
| endpoint: "storage_step E W S (note_endpoint endpoint S)"
| identities: "storage_step E W S (S\<lparr>sg_home := (sg_home S)\<lparr>hm_identities := ids\<rparr>\<rparr>)"

inductive storage_reachable :: "env \<Rightarrow> note_texts \<Rightarrow> ledger_storage \<Rightarrow> bool" for E W where
  fresh: "hm_ledgers h = [] \<Longrightarrow> sane_caps caps \<Longrightarrow>
    storage_reachable E W (snd (storage_open E now h endpoint caps policy))"
| step: "storage_reachable E W S \<Longrightarrow> storage_step E W S S' \<Longrightarrow> storage_reachable E W S'"

lemma fresh_inv:
  assumes "hm_ledgers h = []" and "sane_caps caps"
  shows "storage_inv E (snd (storage_open E now h endpoint caps policy))"
  using assms recheck_rechecked
  by (simp add: storage_open_def reload_def home_ledgers_def storage_inv_def ledger_holds_def sg_entry_def sg_files_def
      home_ledger_def empty_index_def counted_def)

lemma step_inv:
  assumes "prost_codec E" and "crypto_ok E" and "storage_inv E S" and "storage_step E W S S'"
  shows "storage_inv E S'"
  using assms(4)
proof (cases rule: storage_step.cases)
  case (push events prov now l)
  then show ?thesis using push_effect_inv [OF assms(3) push_has_effect [OF assms(1-3)]] by simp
next
  case (head now l)
  then show ?thesis using head_same [OF assms(1-3), of now l] same_inv [OF assms(3)] by auto
next
  case (restart now endpoint policy)
  then show ?thesis using open_again [OF assms(1-3), of now endpoint policy] by auto
next
  case (identities ids)
  then show ?thesis
    using assms(3) by (intro alike_inv [OF assms(3)]) (simp_all add: identities_alike storage_inv_def rechecked_def recheck_def)
qed (use same_inv [OF assms(3)] read_same [OF assms(1-3)] note_same(2) [OF assms(1-3)] reload_same [OF assms(1-3)]
    endpoint_inv [OF assms(3)] in auto)

lemma reachable_inv:
  assumes "prost_codec E" and "crypto_ok E" and "storage_reachable E W S"
  shows "storage_inv E S"
  using assms(3) by induction (auto intro: fresh_inv step_inv [OF assms(1,2)])

lemma kept_extends:
  "same S S' \<Longrightarrow> \<exists>new. stored_events S' l = stored_events S l @ new"
  "alike S S' \<Longrightarrow> \<exists>new. stored_events S' l = stored_events S l @ new"
  by (simp_all add: same_stored alike_stored)

lemma step_extends:
  assumes "prost_codec E" and "crypto_ok E" and "storage_inv E S" and "storage_step E W S S'"
  shows "\<exists>new. stored_events S' l = stored_events S l @ new"
  using assms(4)
proof (cases rule: storage_step.cases)
  case (push events prov now l')
  from push_effect_stored [OF assms(3) push_has_effect [OF assms(1-3) push(2,3), of W l' now]] obtain new where
    "stored_events S' = (stored_events S)(l' := stored_events S l' @ new)" using push(1) by blast
  then show ?thesis by auto
next
  case (head now l')
  then show ?thesis using head_same [OF assms(1-3), of now l'] by (auto intro: kept_extends)
next
  case (restart now endpoint policy)
  then show ?thesis using open_again [OF assms(1-3), of now endpoint policy] by (auto intro: kept_extends(2))
qed (use read_same [OF assms(1-3)] note_same(2) [OF assms(1-3)] reload_same [OF assms(1-3)] endpoint_alike identities_alike
    in \<open>auto intro: kept_extends\<close>)

end
