(* ===== verification/Storage_Accept.thy ===== *)
theory Storage_Accept
  imports Storage_Reach
begin

text \<open>
  What a push accepts: a run of a chain that continues what is stored, from any
  position at or before its end, and what a push that disagrees with the stored events
  leaves behind.
\<close>

section \<open>Runs of a chain\<close>

lemma chain_seqs:
  assumes "prost_codec E" and "fold_events E evs = Ok (s, None)" and "k < length evs"
  shows "signed_event_seq (evs ! k) = Some (of_nat k)"
proof -
  from fold_events_run [OF assms(2,1)] obtain mbs where
    d: "list_all2 (decodes E) evs mbs" and r: "reached E mbs (abs_state s)" by (auto simp: run_of_def)
  have "k < length mbs" using d assms(3) by (auto dest: list_all2_lengthD)
  then have "eb_seq (snd (mbs ! k)) = of_nat k" using reached_positions(1) [OF r] by simp
  moreover have "decodes E (evs ! k) (mbs ! k)" using d assms(3) by (rule list_all2_nthD)
  ultimately show ?thesis using valid_event_bodies(3) by (auto simp: decodes_def)
qed

lemma check_contiguous_run:
  "\<forall>j < length evs. signed_event_seq (evs ! j) = Some (q + of_nat j) \<Longrightarrow> check_contiguous W q evs = Ok ()"
proof (induction evs arbitrary: q)
  case (Cons ev evs)
  have "signed_event_seq ev = Some q" using Cons.prems by (auto dest: spec [of _ 0])
  moreover have "signed_event_seq (evs ! j) = Some (q + 1 + of_nat j)" if "j < length evs" for j
    using Cons.prems [rule_format, of "Suc j"] that by (simp add: algebra_simps)
  then have "check_contiguous W (q + 1) evs = Ok ()" by (intro Cons.IH) simp
  ultimately show ?case by (simp add: seq_of_def)
qed simp

lemma chain_contiguous:
  assumes "prost_codec E" and "fold_events E evs = Ok (s, None)" and "drop k evs \<noteq> []"
  shows "seq_of W (hd (drop k evs)) = Ok (of_nat k)" and "check_contiguous W (of_nat k) (drop k evs) = Ok ()"
proof -
  have k: "k < length evs" using assms(3) by simp
  then show "seq_of W (hd (drop k evs)) = Ok (of_nat k)"
    using chain_seqs [OF assms(1,2)] by (simp add: seq_of_def hd_drop_conv_nth)
  show "check_contiguous W (of_nat k) (drop k evs) = Ok ()"
    using chain_seqs [OF assms(1,2), of "k + _"] by (intro check_contiguous_run) auto
qed

lemma apply_run_all:
  assumes "fold_from E s0 evs = Ok (s, None)"
  shows "apply_run E s0 0 evs = Ok (s, length evs, None)"
  using assms by (auto simp: apply_run_Ok)

section \<open>Accepted pushes\<close>

lemma stored_run_lemma:
  assumes "prost_codec E" and "crypto_ok E" and "storage_inv E S"
    and "fold_events E (stored_events S l @ new) = Ok (s, None)" and "ls_ledger s = Some l" and "new \<noteq> []"
    and "length new < 2 ^ 32" and "check_caps W S l (of_nat (length new)) (event_bytes new) = Ok ()"
  obtains S' where "store_run E W now l s new prov S
      = (Ok \<lparr>po_head_seq = of_nat (length (stored_events S l @ new) - 1), po_stored = of_nat (length new)\<rparr>, S')"
    and "stored_events S' l = stored_events S l @ new"
  using store_run_grows [OF assms, of now prov] puts_stored [OF assms(3)] by auto

lemma push_accepts:
  fixes now :: u64 and prov :: provenance
  assumes "prost_codec E" and "crypto_ok E" and "storage_inv E S"
    and "fold_events E (stored_events S l @ new) = Ok (s, None)" and "ls_ledger s = Some l"
    and "k \<le> length (stored_events S l)" and "drop k (stored_events S l @ new) \<noteq> []" and "length new < 2 ^ 32"
    and "new \<noteq> [] \<Longrightarrow> storage_admit W S l (map_option en_state (sg_entry S l)) s = Ok ()"
    and "new \<noteq> [] \<Longrightarrow> check_caps W S l (of_nat (length new)) (event_bytes new) = Ok ()"
  defines "r \<equiv> storage_push E W now l (drop k (stored_events S l @ new)) prov S"
  shows "fst r = Ok \<lparr>po_head_seq = of_nat (length (stored_events S l @ new) - 1), po_stored = of_nat (length new)\<rparr>
    \<and> stored_events (snd r) l = stored_events S l @ new"
proof -
  let ?old = "stored_events S l" and ?events = "drop k (stored_events S l @ new)"
  note run = chain_contiguous [OF assms(1,4,7)]
  from assms(3) show ?thesis
  proof (cases rule: held_cases [where l = l])
    case absent
    then have new: "new \<noteq> []" "k = 0" "?events = new" using assms(6,7) by auto
    have push: "r = ingest E W now l 0 new prov S"
      using absent new run assms(7) by (simp add: r_def storage_push_def)
    have applied: "apply_run E empty_state 0 new = Ok (s, length new, None)"
      using assms(4) absent by (intro apply_run_all) (simp add: fold_events_def)
    obtain S' where "store_run E W now l s new prov S
        = (Ok \<lparr>po_head_seq = of_nat (length (?old @ new) - 1), po_stored = of_nat (length new)\<rparr>, S')"
      "stored_events S' l = ?old @ new"
      by (rule stored_run_lemma [OF assms(1-5) new(1) assms(8) assms(10) [OF new(1)]])
    then show ?thesis using push applied assms(5,9) new(1) absent by (simp add: ingest_def)
  next
    case (held e)
    then have old: "?old \<noteq> []" "lf_events (sg_files S l) = event_files ?old" "en_head_seq e = of_nat (length ?old - 1)"
      "fold_events E ?old = Ok (en_state e, None)" by (simp_all add: entry_holds_def)
    have len: "length ?old \<le> 2 ^ 63" using entry_countable [OF _ held(2)] assms(3) by (simp add: storage_inv_def)
    have "en_head_seq e + 1 = of_nat (length ?old)" using old(1,3) by (simp add: of_nat_diff Suc_le_eq)
    moreover have k: "unat (of_nat k :: u64) = k" using assms(6) len by (intro unat_word_of_nat64) simp
    ultimately have first: "\<not> of_nat k > en_head_seq e + 1" "unat (of_nat k :: u64) \<le> length ?old"
      using assms(6) len unat_word_of_nat64 [of "length ?old"] by (simp_all add: word_less_nat_alt)
    let ?loop = "overlap_loop l (sg_files S l) (en_head_seq e) (of_nat k) 0 ?events"
    have agree: "?events ! j = ?old ! (k + j)" if "k + j < length ?old" for j using that by (auto simp: nth_append)
    obtain n where n: "?loop = Ok (Fresh n)" "drop n ?events = new"
    proof -
      from overlap_loop_spec [OF old(2,1) len old(3) first(2), of ?events l 0] agree obtain n where
        "?loop = Ok (Fresh n)" "k + n \<le> length ?old" "n \<le> length ?events" "n = length ?events \<or> k + n = length ?old"
        unfolding k by auto
      moreover from this have "drop n ?events = new" by auto
      ultimately show thesis using that by blast
    qed
    define events where "events = ?events"
    note n = n [folded events_def]
    have push: "r = splice E W now l (of_nat k) events prov S"
      using held run assms(7) unfolding r_def events_def by (simp add: storage_push_def del: drop_append drop_eq_Nil)
    show ?thesis
    proof (cases "new = []")
      case True
      then show ?thesis using push held first n old(3) by (simp add: splice_def)
    next
      case False
      have applied: "apply_run E (en_state e) 0 new = Ok (s, length new, None)"
        using assms(4) by (intro apply_run_all) (simp add: fold_events_append [OF old(4)])
      obtain S' where "store_run E W now l s new prov S
          = (Ok \<lparr>po_head_seq = of_nat (length (?old @ new) - 1), po_stored = of_nat (length new)\<rparr>, S')"
        "stored_events S' l = ?old @ new"
        by (rule stored_run_lemma [OF assms(1-5) False assms(8) assms(10) [OF False]])
      then show ?thesis using push held first n applied assms(9) False by (simp add: splice_def Let_def del: drop_eq_Nil)
    qed
  qed
qed

section \<open>Pushes that disagree\<close>

lemma divergence_recorded:
  fixes W :: note_texts and now :: u64 and prov :: provenance
  assumes "prost_codec E" and "crypto_ok E" and "storage_inv E S" and "sg_entry S l = Some e"
    and "unat seq < length (stored_events S l)" and "fold_events E (take (unat seq) (stored_events S l)) = Ok (p, None)"
    and "validate_fork_record E p (stored_events S l ! unat seq) conflicting = Ok fk"
  defines "r \<equiv> record_divergence E W now l seq (stored_events S l ! unat seq) conflicting prov S"
  shows "fst r = Err (store_fork seq (W (NoteForked seq)))"
    and "\<exists>e'. sg_entry (snd r) l = Some e' \<and> (forks_truncated e (cp_fork_records (sg_caps S))
      \<or> (\<exists>x\<in>set (en_forks e'). fr_seq x = seq \<and> signed_event_id E (fr_conflicting x) = Some (fk_conflicting fk)))"
proof -
  let ?S1 = "snd (on_files l (folded_to E now l seq) S)"
  from folded_to_stored [OF assms(1-5), of now] assms(6) have
    fold: "folded_to E now l seq (sg_files S l) = (Ok p, sg_files S l)" by auto
  then have pair: "run_map_err (unavailable W) (on_files l (folded_to E now l seq) S) = (Ok p, ?S1)"
    by (simp add: run_map_err_def on_files_sel)
  have S1: "sg_entry ?S1 l = Some e" "sg_caps ?S1 = sg_caps S" using assms(4) by (simp_all add: on_files_sel)
  have wf: "state_wf p" using fold_events_run [OF assms(6,1)] by (auto simp: run_of_def)
  note id = fork_conflict_id [OF assms(1) wf assms(7)]
  note run = record_divergence_def pair then_do_simps assms(7) map_err.simps S1 expect.simps
  show "fst r = Err (store_fork seq (W (NoteForked seq)))"
    unfolding r_def by (simp only: run) (simp add: Let_def)
  show "\<exists>e'. sg_entry (snd r) l = Some e' \<and> (forks_truncated e (cp_fork_records (sg_caps S))
      \<or> (\<exists>x\<in>set (en_forks e'). fr_seq x = seq \<and> signed_event_id E (fr_conflicting x) = Some (fk_conflicting fk)))"
    unfolding r_def by (simp only: run) (auto simp: Let_def S1 bt_get_insert id list_ex_iff)
qed

lemma overlap_diverges:
  assumes "lf_events f = event_files old" and "length old \<le> 2 ^ 63" and "head_seq = of_nat (length old - 1)"
  shows "j < length evs \<Longrightarrow> unat seq + j < length old \<Longrightarrow> take j evs = take j (drop (unat seq) old) \<Longrightarrow>
    evs ! j \<noteq> old ! (unat seq + j) \<Longrightarrow>
    overlap_loop l f head_seq seq offset evs = Ok (Diverged (seq + of_nat j) (old ! (unat seq + j)) (evs ! j))"
proof (induction j arbitrary: evs seq offset)
  case (0 evs seq offset)
  then obtain ev rest where evs: "evs = ev # rest" by (cases evs) auto
  have "\<not> seq > head_seq" using 0 assms(2,3) unat_word_of_nat64 [of "length old - 1"] by (simp add: word_less_nat_alt)
  moreover have "read_event l seq f = Ok (old ! unat seq)"
    using 0 assms(1,2) by (simp add: read_event_def event_files_get)
  ultimately show ?case using 0 evs by auto
next
  case (Suc j evs seq offset)
  then obtain ev rest where evs: "evs = ev # rest" by (cases evs) auto
  have lt: "unat seq < length old" using Suc.prems by simp
  have suc: "unat (seq + 1) = Suc (unat seq)"
    using lt assms(2) unat_word_of_nat64 [of "Suc (unat seq)"] by (simp add: add.commute)
  have cons: "drop (unat seq) old = old ! unat seq # drop (Suc (unat seq)) old" using lt by (simp add: Cons_nth_drop_Suc)
  have "\<not> seq > head_seq" using lt assms(2,3) unat_word_of_nat64 [of "length old - 1"] by (simp add: word_less_nat_alt)
  moreover have "read_event l seq f = Ok ev"
    using Suc.prems(3) lt assms(1,2) by (simp add: read_event_def event_files_get cons evs)
  ultimately have "overlap_loop l f head_seq seq offset evs = overlap_loop l f head_seq (seq + 1) (Suc offset) rest"
    by (simp add: evs)
  also have "\<dots> = Ok (Diverged (seq + 1 + of_nat j) (old ! (unat (seq + 1) + j)) (rest ! j))"
    using Suc.prems by (intro Suc.IH) (simp_all add: evs suc cons)
  finally show ?case by (simp add: suc evs add.assoc)
qed

lemma push_diverges:
  assumes "storage_inv E S" and "sg_entry S l = Some e" and "seq_of W (hd events) = Ok q"
    and "check_contiguous W q events = Ok ()" and "j < length events" and "unat q + j < length (stored_events S l)"
    and "take j events = take j (drop (unat q) (stored_events S l))" and "events ! j \<noteq> stored_events S l ! (unat q + j)"
  shows "storage_push E W now l events prov S
    = record_divergence E W now l (q + of_nat j) (stored_events S l ! (unat q + j)) (events ! j) prov S"
    and "unat (q + of_nat j) = unat q + j"
proof -
  let ?old = "stored_events S l"
  have holds: "entry_holds E (sg_caps S) l (sg_files S l) e ?old"
    using assms(1,2) by (cases rule: held_cases [where l = l]) auto
  then have old: "lf_events (sg_files S l) = event_files ?old" "en_head_seq e = of_nat (length ?old - 1)"
    by (simp_all add: entry_holds_def)
  have len: "length ?old \<le> 2 ^ 63" using entry_countable [OF _ holds] assms(1) by (simp add: storage_inv_def)
  have "unat (of_nat (unat q + j) :: u64) = unat q + j" using assms(6) len by (intro unat_word_of_nat64) simp
  then show "unat (q + of_nat j) = unat q + j" by simp
  have "?old \<noteq> []" using assms(6) by auto
  then have "en_head_seq e + 1 = of_nat (length ?old)" using old(2) by (simp add: of_nat_diff Suc_le_eq)
  then have "\<not> q > en_head_seq e + 1" using assms(6) len unat_word_of_nat64 [of "length ?old"] by (simp add: word_less_nat_alt)
  moreover note overlap_diverges [OF old(1) len old(2) assms(5-8), of l 0]
  moreover have "events \<noteq> []" using assms(5) by auto
  ultimately show "storage_push E W now l events prov S
      = record_divergence E W now l (q + of_nat j) (?old ! (unat q + j)) (events ! j) prov S"
    using assms(2-4) by (simp add: storage_push_def splice_def)
qed

lemma divergence_keeps:
  assumes "prost_codec E" and "crypto_ok E" and "storage_inv E S" and "sg_entry S l = Some e"
    and "unat seq < length (stored_events S l)" and "endpoint_ok E prov"
  shows "stored_events (snd (record_divergence E W now l seq (stored_events S l ! unat seq) conflicting prov S)) = stored_events S"
proof (cases rule: record_divergence_cases [OF assms, of W now conflicting, case_names refused recorded])
  case (refused x S')
  then show ?thesis using same_stored [of S S'] by auto
next
  case (recorded S' f e' r)
  then show ?thesis using puts_stored [OF assms(3)] by auto
qed

end
