(* ===== verification/Storage_Sample.thy ===== *)
theory Storage_Sample
  imports Storage_Accept Reference_Env
begin

text \<open>
  A home that holds the keys of one identity, the storage opened on it, and that
  storage after the identity's first event was pushed: the inputs the instances of the
  storage properties are stated at.
\<close>

definition no_text :: note_texts where
  "no_text = (\<lambda>_. [])"

definition sample_home :: node_home where
  "sample_home = write_identity_keys alice_id alice reserve \<lparr>hm_identities = [], hm_ledgers = []\<rparr>"

definition sample_storage :: ledger_storage where
  "sample_storage = snd (storage_open ref_env 0 sample_home (ref_public bob) default_caps (witnessing_for []))"

abbreviation first_event :: bytes where "first_event \<equiv> be_signed_event alice_inception"

definition sample_pushed :: ledger_storage where
  "sample_pushed = snd (storage_push ref_env no_text 7 alice_id [first_event] None sample_storage)"

lemma default_sane: "sane_caps default_caps"
  by (simp add: sane_caps_def default_caps_def MAX_EVENTS_PER_LEDGER_def MAX_BYTES_PER_LEDGER_def
      DEFAULT_STORAGE_CAPACITY_def)

lemma sample_fields:
  "sg_entry sample_storage l = None" "stored_events sample_storage l = []" "sg_caps sample_storage = default_caps"
  "sg_index sample_storage = empty_index" "can_sign_for (sg_home sample_storage) alice_id"
  "sg_policy sample_storage = witnessing_for []" "sg_home sample_storage = sample_home"
  by (simp_all add: sample_storage_def sample_home_def storage_open_def reload_def home_ledgers_def sg_entry_def
      stored_events_def empty_index_def write_identity_keys_def put_identity_def can_sign_for_def signing_identity_def
      keys_itself_def identity_dir_def bt_get_def)

lemma sample_reachable: "storage_reachable ref_env W sample_storage"
  unfolding sample_storage_def
  by (rule storage_reachable.fresh [OF _ default_sane])
     (simp add: sample_home_def write_identity_keys_def put_identity_def)

lemma sample_endpoint: "endpoint_ok ref_env None"
  by (simp add: endpoint_ok_def)

lemma pushed_reachable: "storage_reachable ref_env no_text sample_pushed"
  unfolding sample_pushed_def
  by (rule storage_reachable.step [OF sample_reachable storage_step.push [OF _ sample_endpoint]]) simp

lemma first_event_short: "length first_event < 200"
  by code_simp

lemma sample_room:
  "check_caps no_text sample_storage alice_id (of_nat (length [first_event])) (event_bytes [first_event]) = Ok ()"
proof -
  have "unat (of_nat (length first_event) :: u64) = length first_event"
    using first_event_short by (intro unat_word_of_nat64) simp
  then show ?thesis
    using first_event_short sample_fields
    by (simp add: check_caps_def Let_def event_bytes_def empty_index_def default_caps_def MAX_EVENTS_PER_LEDGER_def
        MAX_BYTES_PER_LEDGER_def MAX_LEDGERS_def DEFAULT_STORAGE_CAPACITY_def word_less_nat_alt)
qed

lemma sample_admits: "storage_admit W sample_storage alice_id pre post = Ok ()"
  using sample_fields by (simp add: storage_admit_def)

lemma alice_ledger: "ls_ledger alice_state = Some alice_id"
  by (simp add: alice_state_def)

lemma pushed_first:
  "fst (storage_push ref_env no_text 7 alice_id [first_event] None sample_storage) = Ok \<lparr>po_head_seq = 0, po_stored = 1\<rparr>"
  "stored_events sample_pushed alice_id = [first_event]"
proof -
  have "fold_events ref_env (stored_events sample_storage alice_id @ [first_event]) = Ok (alice_state, None)"
    using alice_fold sample_fields by simp
  from push_accepts [OF ref_ok reachable_inv [OF ref_ok sample_reachable] this alice_ledger, of 0 no_text 7 None]
  show "fst (storage_push ref_env no_text 7 alice_id [first_event] None sample_storage) = Ok \<lparr>po_head_seq = 0, po_stored = 1\<rparr>"
    "stored_events sample_pushed alice_id = [first_event]"
    using sample_admits sample_room sample_fields by (simp_all add: sample_pushed_def)
qed

lemma pushed_entry: "\<exists>e. sg_entry sample_pushed alice_id = Some e \<and> en_state e = alice_state"
  using reachable_inv [OF ref_ok pushed_reachable]
  by (cases rule: held_cases [where l = alice_id]) (use pushed_first(2) alice_fold in \<open>auto simp: entry_holds_def\<close>)

section \<open>Two events at one position\<close>

lemma trusted_state:
  "\<exists>s. apply_event ref_env alice_state (be_signed_event alice_trusts_bob) = Ok s
    \<and> ls_ledger s = Some alice_id \<and> map_option hd_event_id (ls_head s) = Some (be_event_id alice_trusts_bob)"
proof -
  have nt: "\<not> trusts alice_state bob_id"
    by (simp add: trusts_def unrevoked_def alice_state_def empty_state_def bt_find_def)
  have ne: "bob_id \<noteq> alice_id" using sample_ids by simp
  from attestation_applies [OF ref_ok alice_may_append alice_trusts_bob_built sample_ids(3) ne nt]
  show ?thesis by (auto simp: alice_ledger)
qed

lemma sample_fork:
  "\<exists>f. validate_fork_record ref_env alice_state (be_signed_event alice_trusts_bob)
     (be_signed_event alice_invites_bob) = Ok f"
proof -
  obtain a where a: "apply_event ref_env alice_state (be_signed_event alice_trusts_bob) = Ok a"
    "map_option hd_event_id (ls_head a) = Some (be_event_id alice_trusts_bob)" using trusted_state by blast
  obtain b where b: "apply_event ref_env alice_state (be_signed_event alice_invites_bob) = Ok b"
    "map_option hd_event_id (ls_head b) = Some (be_event_id alice_invites_bob)"
    using invited_state by auto
  have "be_event_id alice_trusts_bob \<noteq> be_event_id alice_invites_bob" by code_simp
  then show ?thesis
    using a b alice_ledger by (auto simp: validate_fork_record_def verify_at_def Let_def)
qed

abbreviation kept_event :: bytes where "kept_event \<equiv> be_signed_event alice_trusts_bob"

abbreviation other_event :: bytes where "other_event \<equiv> be_signed_event alice_invites_bob"

definition sample_grown :: ledger_storage where
  "sample_grown = snd (storage_push ref_env no_text 8 alice_id [first_event, kept_event] None sample_storage)"

lemma grown_reachable: "storage_reachable ref_env no_text sample_grown"
  unfolding sample_grown_def
  by (rule storage_reachable.step [OF sample_reachable storage_step.push [OF _ sample_endpoint]]) simp

lemma kept_event_short: "length kept_event < 400"
  by code_simp

lemma other_event_differs: "kept_event \<noteq> other_event"
  by code_simp

lemma other_event_seq: "signed_event_seq other_event = Some 1"
proof -
  obtain s where "fold_events ref_env [first_event, other_event] = Ok (s, None)"
    using alice_starts invited_state by (auto simp: fold_events_def)
  from chain_seqs [OF ref_prost this, of 1] show ?thesis by simp
qed

lemma grown_room: "check_caps no_text sample_storage alice_id 2 (event_bytes [first_event, kept_event]) = Ok ()"
proof -
  have "unat (of_nat (length first_event + length kept_event) :: u64) = length first_event + length kept_event"
    using first_event_short kept_event_short by (intro unat_word_of_nat64) simp
  then show ?thesis
    using first_event_short kept_event_short sample_fields
    by (simp add: check_caps_def Let_def event_bytes_def empty_index_def default_caps_def MAX_EVENTS_PER_LEDGER_def
        MAX_BYTES_PER_LEDGER_def MAX_LEDGERS_def DEFAULT_STORAGE_CAPACITY_def word_less_nat_alt)
qed

lemma grown_stored: "stored_events sample_grown alice_id = [first_event, kept_event]"
proof -
  obtain s where s: "apply_event ref_env alice_state kept_event = Ok s" "ls_ledger s = Some alice_id"
    using trusted_state by blast
  then have "fold_events ref_env (stored_events sample_storage alice_id @ [first_event, kept_event]) = Ok (s, None)"
    using alice_starts sample_fields by (simp add: fold_events_def)
  from push_accepts [OF ref_ok reachable_inv [OF ref_ok sample_reachable] this s(2), of 0 no_text 8 None]
  show ?thesis using sample_admits grown_room sample_fields by (simp add: sample_grown_def)
qed

lemma grown_entry: "\<exists>e. sg_entry sample_grown alice_id = Some e"
  using reachable_inv [OF ref_ok grown_reachable]
  by (cases rule: held_cases [where l = alice_id]) (use grown_stored in auto)

end
