(* ===== verification/Sync_Frames.thy ===== *)
theory Sync_Frames
  imports Sync_Entries
begin

text \<open>
  What the sync tables accept, and that the parsers of \<open>wire.rs\<close> invert its encoders:
  a frame parses as a request or a response exactly when it is the encoding of one
  that keeps the protocol's limits.
\<close>

section \<open>Fields of the sync tables\<close>

lemma count64_iff: "(v :: u64) = 0 \<or> 1 \<le> v \<and> v \<le> - 1 \<longleftrightarrow> True"
  by (simp add: one_le_word)

lemma count32_iff:
  "(v :: u64) = 0 \<or> 1 \<le> v \<and> v \<le> 4294967295 \<longleftrightarrow> (\<exists>x :: u32. v = ucast x)"
proof
  assume "v = 0 \<or> 1 \<le> v \<and> v \<le> 4294967295"
  then have "unat v < 2 ^ 32" by (auto simp: word_le_nat_alt)
  then have "unat (ucast (ucast v :: u32) :: u64) = unat v"
    by (simp only: unat_ucast32) (simp add: unsigned_ucast_eq take_bit_nat_eq_self)
  then have "v = ucast (ucast v :: u32)" by (rule unsigned_word_eqI [symmetric])
  then show "\<exists>x :: u32. v = ucast x" ..
next
  assume "\<exists>x :: u32. v = ucast x"
  then obtain x :: u32 where "unat v = unat x" using unat_ucast32 by auto
  moreover have "unat x < 2 ^ 32" using unsigned_less [of x, where ?'a = nat] by simp
  ultimately have "v \<le> 4294967295" by (simp add: word_le_nat_alt)
  then show "v = 0 \<or> 1 \<le> v \<and> v \<le> 4294967295" by (auto simp: one_le_word)
qed

lemma flag_iff: "(v :: u64) = 0 \<or> 1 \<le> v \<and> v \<le> 1 \<longleftrightarrow> (\<exists>b. v = of_bool b)"
proof -
  have "1 \<le> v \<and> v \<le> 1 \<longleftrightarrow> v = 1" by (auto intro: antisym)
  then show ?thesis by (metis of_bool_eq(1) of_bool_eq(2))
qed

lemma ex_bool_eq: "(\<exists>v. (\<exists>b. v = f b) \<and> Q v) \<longleftrightarrow> (\<exists>b. Q (f b))"
  by blast

lemma part_count64: "part_ok E V msg d (optional n nm COUNT64) p \<longleftrightarrow> (\<exists>v. True \<and> p = f_varint n v)"
  unfolding COUNT64_def block_iffs count64_iff by blast

lemma part_count32:
  "part_ok E V msg d (optional n nm COUNT32) p \<longleftrightarrow> (\<exists>x :: u32. True \<and> p = f_varint n (ucast x))"
  unfolding COUNT32_def block_iffs count32_iff by blast

lemma part_flag: "part_ok E V msg d (optional n nm FLAG) p \<longleftrightarrow> (\<exists>b. True \<and> p = f_varint n (of_bool b))"
  unfolding FLAG_def block_iffs flag_iff by blast

lemma part_timestamp:
  "part_ok E V msg d (optional n nm TIMESTAMP) p \<longleftrightarrow> (\<exists>v. v \<le> MAX_TIMESTAMP_MS \<and> p = f_varint n v)"
proof -
  have "v = 0 \<or> 1 \<le> v \<and> v \<le> MAX_TIMESTAMP_MS \<longleftrightarrow> v \<le> MAX_TIMESTAMP_MS" for v
    by (auto simp: one_le_word)
  then show ?thesis by (simp add: TIMESTAMP_def block_iffs)
qed

lemma part_required_count64:
  "part_ok E V msg d (required n nm COUNT64) p \<longleftrightarrow> (\<exists>v. v \<noteq> 0 \<and> p = f_varint n v)"
  by (auto simp: COUNT64_def block_iffs one_le_word)

lemma part_required_id:
  "part_ok E V msg d (required n nm K_ID) p \<longleftrightarrow> (\<exists>b. length b = 32 \<and> p = f_bytes n b)"
  by (simp add: K_ID_def size_defs block_iffs)

lemma part_optional_id:
  "part_ok E V msg d (optional n nm K_ID) p \<longleftrightarrow> (\<exists>i. opt_id i \<and> p = f_bytes n (id_field i))"
proof -
  have "part_ok E V msg d (optional n nm K_ID) p \<longleftrightarrow> (\<exists>b. (b = [] \<or> length b = 32) \<and> p = f_bytes n b)"
    by (simp add: K_ID_def size_defs block_iffs)
  also have "\<dots> \<longleftrightarrow> (\<exists>i. opt_id i \<and> p = f_bytes n (id_field i))"
    by (auto simp: opt_id_def id_field_def split: option.splits
        intro: exI [of _ None] exI [of _ "Some _"])
  finally show ?thesis .
qed

lemma part_events:
  assumes "9 \<le> k"
  shows "part_ok E (validate_n k E) msg d (repeated n nm mn mx K_EVENT) p \<longleftrightarrow>
    (\<exists>es. (mn \<le> length es \<and> length es \<le> mx \<and> list_all (\<lambda>e. signed_event E e = Ok ()) es)
      \<and> p = f_repeated n es)"
  using check_detached [OF assms] by (auto simp: repeated_def part_repeated K_EVENT_def)

lemma part_event:
  assumes "9 \<le> k"
  shows "part_ok E (validate_n k E) msg d (required n nm K_EVENT) p \<longleftrightarrow>
    (\<exists>b. signed_event E b = Ok () \<and> p = f_bytes n b)"
proof -
  have "wire_kind_of (fd_kind (required n nm K_EVENT)) = WLen" by (simp add: required_def K_EVENT_def)
  then have "part_ok E (validate_n k E) msg d (required n nm K_EVENT) p \<longleftrightarrow>
      (\<exists>b. p = [(n, VBytes b)] \<and> signed_event E b = Ok ())"
    unfolding part_required by (auto simp: value_ok_len) (simp_all add: required_def check_detached [OF assms])
  also have "\<dots> \<longleftrightarrow> (\<exists>b. signed_event E b = Ok () \<and> p = f_bytes n b)"
    using signed_event_not_Nil [of E] by (auto simp: f_bytes_def)
  finally show ?thesis .
qed

lemma part_messages:
  "part_ok E V msg d (repeated n nm mn mx (KMessage D)) p \<longleftrightarrow>
   (\<exists>es. (mn \<le> length es \<and> length es \<le> mx \<and> list_all (\<lambda>b. \<exists>s. V D b (d + 1) = Ok s) es)
     \<and> p = f_repeated n es)"
  by (auto simp: repeated_def part_repeated check_bytes_def)

lemmas sync_parts = part_count64 part_count32 part_flag part_timestamp part_required_count64
  part_required_id part_optional_id part_messages

section \<open>Messages\<close>

lemma plain_table:
  assumes "small_fields D" and "ordered_fields D" and "md_max_bytes D < 2 ^ 64"
    and "md_oneof D = None" and "md_check D = None"
  shows "(\<exists>s. validate_n (Suc n) E D bs d = Ok s) \<longleftrightarrow> length bs \<le> md_max_bytes D \<and> d \<le> MAX_NESTING
    \<and> (\<exists>es. blocks E (validate_n n E) (md_name D) d (md_fields D) es \<and> bs = enc_records es)"
  unfolding validate_plain_iff [OF assms(1-4)] blocks_concat assms(5)
  by (auto simp: run_check_def)

lemma oneof_table:
  assumes "small_fields D" and "ordered_fields D" and "md_max_bytes D < 2 ^ 64"
    and "md_oneof D = Some (nm, t)" and "variants_ok (md_fields D)" and "md_check D = None"
  shows "(\<exists>s. validate_n (Suc n) E D bs d = Ok s) \<longleftrightarrow> length bs \<le> md_max_bytes D \<and> d \<le> MAX_NESTING
    \<and> (\<exists>k b. choice_ok E (validate_n n E) (md_name D) d (md_fields D) k b
         \<and> bs = enc_records [(k, VBytes b)])"
proof -
  have "validate_n (Suc n) E D bs d = Ok s \<longleftrightarrow> length bs \<le> md_max_bytes D \<and> d \<le> MAX_NESTING
    \<and> (\<exists>ps k b. list_all2 (part_ok E (validate_n n E) (md_name D) d) [] ps
         \<and> choice_ok E (validate_n n E) (md_name D) d (md_fields D) k b
         \<and> bs = enc_records (concat ps @ [(k, VBytes b)])
         \<and> s = \<lparr>sc_descriptor = D, sc_depth = d, sc_entries = concat ps @ [(k, VBytes b)]\<rparr>)
    \<and> run_check E (validate_n n E) (md_check D) s = Ok ()" for s
    by (rule validate_oneof_iff [OF assms(1-4) _ _ assms(5)]) simp_all
  then show ?thesis unfolding assms(6) by (auto simp: run_check_def)
qed

lemmas sync_fields =
  HEAD_REQ_def [THEN arg_cong, of md_fields, unfolded message_descriptor.sel]
  GET_REQ_def [THEN arg_cong, of md_fields, unfolded message_descriptor.sel]
  PUSH_REQ_def [THEN arg_cong, of md_fields, unfolded message_descriptor.sel]
  LIST_REQ_def [THEN arg_cong, of md_fields, unfolded message_descriptor.sel]
  FORKS_REQ_def [THEN arg_cong, of md_fields, unfolded message_descriptor.sel]
  REQUEST_def [THEN arg_cong, of md_fields, unfolded message_descriptor.sel]
  HEAD_RESP_def [THEN arg_cong, of md_fields, unfolded message_descriptor.sel]
  EVENTS_RESP_def [THEN arg_cong, of md_fields, unfolded message_descriptor.sel]
  ACCEPTED_RESP_def [THEN arg_cong, of md_fields, unfolded message_descriptor.sel]
  LEDGER_SUMMARY_def [THEN arg_cong, of md_fields, unfolded message_descriptor.sel]
  LEDGERS_RESP_def [THEN arg_cong, of md_fields, unfolded message_descriptor.sel]
  FORK_RECORD_def [THEN arg_cong, of md_fields, unfolded message_descriptor.sel]
  FORKS_RESP_def [THEN arg_cong, of md_fields, unfolded message_descriptor.sel]
  NOT_FOUND_RESP_def [THEN arg_cong, of md_fields, unfolded message_descriptor.sel]
  REJECTED_RESP_def [THEN arg_cong, of md_fields, unfolded message_descriptor.sel]
  RESPONSE_def [THEN arg_cong, of md_fields, unfolded message_descriptor.sel]

lemma frame_caps [simp]:
  "MAX_FRAME_BYTES < 18446744073709551616" "MAX_PUSH_BYTES < 18446744073709551616"
  "SMALL_REQUEST_BYTES < 18446744073709551616"
  "2 * MAX_EVENT_BYTES + SMALL_REQUEST_BYTES < 18446744073709551616"
  "SMALL_REQUEST_BYTES + MAX_REJECT_MSG_BYTES < 18446744073709551616"
  by (simp_all add: frame_defs size_defs)

lemma one_nesting [simp]: "0 \<le> MAX_NESTING" "Suc 0 \<le> MAX_NESTING" "1 \<le> MAX_NESTING" "2 \<le> MAX_NESTING"
  by (simp_all add: MAX_NESTING_def)

section \<open>Requests\<close>

fun encode_request :: "request \<Rightarrow> bytes" where
  "encode_request (ReqHead ledger) = head_request ledger"
| "encode_request (ReqGet ledger since limit) = get_request ledger since limit"
| "encode_request (ReqPush ledger events) = push_request ledger events"
| "encode_request (ReqList offset limit) = list_request offset limit"
| "encode_request (ReqForks ledger offset limit) = forks_request ledger offset limit"

fun request_parts :: "request \<Rightarrow> nat \<times> records" where
  "request_parts (ReqHead l) = (1, f_bytes 1 l)"
| "request_parts (ReqGet l since limit) =
     (2, f_bytes 1 l @ f_varint 2 since @ f_varint 3 (ucast limit))"
| "request_parts (ReqPush l es) = (3, f_bytes 1 l @ f_repeated 2 es)"
| "request_parts (ReqList offset limit) = (4, f_varint 1 (ucast offset) @ f_varint 2 (ucast limit))"
| "request_parts (ReqForks l offset limit) =
     (5, f_bytes 1 (id_field l) @ f_varint 2 (ucast offset) @ f_varint 3 (ucast limit))"

fun request_ok :: "env \<Rightarrow> request \<Rightarrow> bool" where
  "request_ok E (ReqHead l) \<longleftrightarrow> length l = 32"
| "request_ok E (ReqGet l since limit) \<longleftrightarrow> length l = 32"
| "request_ok E (ReqPush l es) \<longleftrightarrow> length l = 32 \<and> 1 \<le> length es \<and> length es \<le> MAX_PUSH_EVENTS
     \<and> list_all (\<lambda>e. signed_event E e = Ok ()) es
     \<and> length (enc_records (snd (request_parts (ReqPush l es)))) \<le> MAX_PUSH_BYTES"
| "request_ok E (ReqList offset limit) \<longleftrightarrow> True"
| "request_ok E (ReqForks l offset limit) \<longleftrightarrow> opt_id l"

definition frame_of :: "nat \<times> records \<Rightarrow> bytes" where
  "frame_of p = enc_records [(fst p, VBytes (enc_records (snd p)))]"

lemma signed_event_length: "signed_event E b = Ok () \<Longrightarrow> length b \<le> MAX_EVENT_BYTES"
  by (auto simp: signed_event_iff valid_event_def)

lemma signed_events_short:
  "list_all (\<lambda>e. signed_event E e = Ok ()) es \<Longrightarrow> list_all (\<lambda>b. length b < 2 ^ 64) es"
  using signed_event_length by (fastforce simp: list_all_iff size_defs)

lemma id_length: "length b = 32 \<Longrightarrow> n < 15 \<Longrightarrow> length (enc_records (f_bytes n b)) \<le> 34"
  using f_bytes_short [of n b 1] by simp

lemma opt_id_length: "opt_id i \<Longrightarrow> n < 15 \<Longrightarrow> length (enc_records (f_bytes n (id_field i))) \<le> 34"
  using id_length [of "id_field i" n] by (cases i) (auto simp: opt_id_def id_field_def f_bytes_def)

lemma request_length:
  assumes "request_ok E r" and "fst (request_parts r) \<noteq> 3"
  shows "length (enc_records (snd (request_parts r))) \<le> SMALL_REQUEST_BYTES"
proof -
  note v = f_varint_short(1)
  show ?thesis
    using assms
  proof (cases r)
    case (ReqHead l)
    then show ?thesis using assms id_length [of l 1] by (simp add: frame_defs)
  next
    case (ReqGet l s n)
    then show ?thesis
      using assms id_length [of l 1] v [of 2 s] v [of 3 "ucast n"] by (simp add: frame_defs)
  next
    case (ReqList s n)
    then show ?thesis using v [of 1 "ucast s"] v [of 2 "ucast n"] by (simp add: frame_defs)
  next
    case (ReqForks l s n)
    then show ?thesis
      using assms opt_id_length [of l 1] v [of 2 "ucast s"] v [of 3 "ucast n"] by (simp add: frame_defs)
  qed auto
qed

lemma push_length:
  "request_ok E r \<Longrightarrow> length (enc_records (snd (request_parts r))) \<le> MAX_PUSH_BYTES"
  using request_length [of E r] by (cases r) (auto simp: frame_defs intro: order.trans)

lemma request_frame_length:
  assumes "request_ok E r"
  shows "length (frame_of (request_parts r)) \<le> MAX_FRAME_BYTES"
proof -
  have "fst (request_parts r) < 15" by (cases r) simp_all
  then have "length (enc_record (fst (request_parts r), VBytes (enc_records (snd (request_parts r)))))
      \<le> Suc 4 + length (enc_records (snd (request_parts r)))"
    using push_length [OF assms] by (intro enc_bytes_length) (simp_all add: frame_defs)
  then show ?thesis using push_length [OF assms] by (simp add: frame_of_def frame_defs)
qed

lemma ex_request:
  "(\<exists>r. (fst (request_parts r) = 1 \<and> P r) \<and> Q r) \<longleftrightarrow> (\<exists>l. P (ReqHead l) \<and> Q (ReqHead l))"
  "(\<exists>r. (fst (request_parts r) = 2 \<and> P r) \<and> Q r) \<longleftrightarrow> (\<exists>l s n. P (ReqGet l s n) \<and> Q (ReqGet l s n))"
  "(\<exists>r. (fst (request_parts r) = 3 \<and> P r) \<and> Q r) \<longleftrightarrow> (\<exists>l es. P (ReqPush l es) \<and> Q (ReqPush l es))"
  "(\<exists>r. (fst (request_parts r) = 4 \<and> P r) \<and> Q r) \<longleftrightarrow> (\<exists>s n. P (ReqList s n) \<and> Q (ReqList s n))"
  "(\<exists>r. (fst (request_parts r) = 5 \<and> P r) \<and> Q r) \<longleftrightarrow> (\<exists>l s n. P (ReqForks l s n) \<and> Q (ReqForks l s n))"
proof -
  have k: "fst (request_parts r) = 1 \<longleftrightarrow> (\<exists>l. r = ReqHead l)"
    "fst (request_parts r) = 2 \<longleftrightarrow> (\<exists>l s n. r = ReqGet l s n)"
    "fst (request_parts r) = 3 \<longleftrightarrow> (\<exists>l es. r = ReqPush l es)"
    "fst (request_parts r) = 4 \<longleftrightarrow> (\<exists>s n. r = ReqList s n)"
    "fst (request_parts r) = 5 \<longleftrightarrow> (\<exists>l s n. r = ReqForks l s n)" for r
    by (cases r; simp)+
  show "(\<exists>r. (fst (request_parts r) = 1 \<and> P r) \<and> Q r) \<longleftrightarrow> (\<exists>l. P (ReqHead l) \<and> Q (ReqHead l))"
    "(\<exists>r. (fst (request_parts r) = 2 \<and> P r) \<and> Q r) \<longleftrightarrow> (\<exists>l s n. P (ReqGet l s n) \<and> Q (ReqGet l s n))"
    "(\<exists>r. (fst (request_parts r) = 3 \<and> P r) \<and> Q r) \<longleftrightarrow> (\<exists>l es. P (ReqPush l es) \<and> Q (ReqPush l es))"
    "(\<exists>r. (fst (request_parts r) = 4 \<and> P r) \<and> Q r) \<longleftrightarrow> (\<exists>s n. P (ReqList s n) \<and> Q (ReqList s n))"
    "(\<exists>r. (fst (request_parts r) = 5 \<and> P r) \<and> Q r) \<longleftrightarrow> (\<exists>l s n. P (ReqForks l s n) \<and> Q (ReqForks l s n))"
    unfolding k by blast+
qed

lemma request_shapes:
  "blocks E V msg d (md_fields HEAD_REQ) es \<longleftrightarrow>
     (\<exists>r. (fst (request_parts r) = 1 \<and> request_ok E r) \<and> es = snd (request_parts r))"
  "blocks E V msg d (md_fields GET_REQ) es \<longleftrightarrow>
     (\<exists>r. (fst (request_parts r) = 2 \<and> request_ok E r) \<and> es = snd (request_parts r))"
  "9 \<le> k \<Longrightarrow> blocks E (validate_n k E) msg d (md_fields PUSH_REQ) es \<and> length (enc_records es) \<le> MAX_PUSH_BYTES \<longleftrightarrow>
     (\<exists>r. (fst (request_parts r) = 3 \<and> request_ok E r) \<and> es = snd (request_parts r))"
  "blocks E V msg d (md_fields LIST_REQ) es \<longleftrightarrow>
     (\<exists>r. (fst (request_parts r) = 4 \<and> request_ok E r) \<and> es = snd (request_parts r))"
  "blocks E V msg d (md_fields FORKS_REQ) es \<longleftrightarrow>
     (\<exists>r. (fst (request_parts r) = 5 \<and> request_ok E r) \<and> es = snd (request_parts r))"
  unfolding ex_request sync_fields blocks_unfold sync_parts part_events ex_part
  by (auto, blast)

lemma small_table:
  assumes "small_fields D" and "ordered_fields D" and "md_max_bytes D = SMALL_REQUEST_BYTES"
    and "md_oneof D = None" and "md_check D = None" and "d \<le> MAX_NESTING"
    and "\<And>es. blocks E (validate_n n E) (md_name D) d (md_fields D) es \<longleftrightarrow>
           (\<exists>r. (fst (request_parts r) = k \<and> request_ok E r) \<and> es = snd (request_parts r))"
    and "k \<noteq> 3"
  shows "(\<exists>s. validate_n (Suc n) E D bs d = Ok s) \<longleftrightarrow>
    (\<exists>r. (fst (request_parts r) = k \<and> request_ok E r) \<and> bs = enc_records (snd (request_parts r)))"
proof -
  have "md_max_bytes D < 2 ^ 64" by (simp add: assms(3))
  note plain_table [OF assms(1,2) this assms(4,5), of n E bs d, unfolded assms(3,7)]
  with request_length [of E] assms(6,8) show ?thesis by blast
qed

lemma request_bodies:
  assumes "9 \<le> n"
  shows "(\<exists>s. validate_n (Suc n) E HEAD_REQ b 1 = Ok s) \<longleftrightarrow>
      (\<exists>r. (fst (request_parts r) = 1 \<and> request_ok E r) \<and> b = enc_records (snd (request_parts r)))" (is ?H)
    and "(\<exists>s. validate_n (Suc n) E GET_REQ b 1 = Ok s) \<longleftrightarrow>
      (\<exists>r. (fst (request_parts r) = 2 \<and> request_ok E r) \<and> b = enc_records (snd (request_parts r)))" (is ?G)
    and "(\<exists>s. validate_n (Suc n) E PUSH_REQ b 1 = Ok s) \<longleftrightarrow>
      (\<exists>r. (fst (request_parts r) = 3 \<and> request_ok E r) \<and> b = enc_records (snd (request_parts r)))" (is ?P)
    and "(\<exists>s. validate_n (Suc n) E LIST_REQ b 1 = Ok s) \<longleftrightarrow>
      (\<exists>r. (fst (request_parts r) = 4 \<and> request_ok E r) \<and> b = enc_records (snd (request_parts r)))" (is ?L)
    and "(\<exists>s. validate_n (Suc n) E FORKS_REQ b 1 = Ok s) \<longleftrightarrow>
      (\<exists>r. (fst (request_parts r) = 5 \<and> request_ok E r) \<and> b = enc_records (snd (request_parts r)))" (is ?F)
proof -
  show ?H by (rule small_table [OF _ _ _ _ _ _ request_shapes(1)]) simp_all
  show ?G by (rule small_table [OF _ _ _ _ _ _ request_shapes(2)]) simp_all
  show ?L by (rule small_table [OF _ _ _ _ _ _ request_shapes(4)]) simp_all
  show ?F by (rule small_table [OF _ _ _ _ _ _ request_shapes(5)]) simp_all
  have "(\<exists>s. validate_n (Suc n) E PUSH_REQ b 1 = Ok s) \<longleftrightarrow>
      (\<exists>es. (blocks E (validate_n n E) (md_name PUSH_REQ) 1 (md_fields PUSH_REQ) es
         \<and> length (enc_records es) \<le> MAX_PUSH_BYTES) \<and> b = enc_records es)"
    by (subst plain_table) auto
  then show ?P unfolding request_shapes(3) [OF assms] by blast
qed

lemma request_table:
  "message E REQUEST frame = Ok () \<longleftrightarrow> (\<exists>r. request_ok E r \<and> frame = frame_of (request_parts r))"
proof -
  have ok: "message E REQUEST frame = Ok () \<longleftrightarrow> (\<exists>s. validate_n (Suc (Suc 18)) E REQUEST frame 0 = Ok s)"
    by (simp add: message_def validate_def VALIDATE_FUEL_def numeral_eq_Suc)
  have vs: "variants_ok (md_fields REQUEST)" by (simp add: variants_ok_def sync_fields variant_def)
  have "choice_ok E (validate_n (Suc 18) E) msg 0 (md_fields REQUEST) k b \<longleftrightarrow>
      (\<exists>r. request_ok E r \<and> k = fst (request_parts r) \<and> b = enc_records (snd (request_parts r)))" for msg k b
  proof -
    have number: "fst (request_parts r) = 1 \<or> fst (request_parts r) = 2 \<or> fst (request_parts r) = 3
        \<or> fst (request_parts r) = 4 \<or> fst (request_parts r) = 5" for r by (cases r) simp_all
    have "(9 :: nat) \<le> 18" by simp
    note bodies = request_bodies [OF this, of E b]
    show ?thesis
    proof
      assume "choice_ok E (validate_n (Suc 18) E) msg 0 (md_fields REQUEST) k b"
      then show "\<exists>r. request_ok E r \<and> k = fst (request_parts r) \<and> b = enc_records (snd (request_parts r))"
        unfolding sync_fields choice_ok_Cons add_0 bodies by (elim disjE) (auto simp: choice_ok_Nil)
    next
      assume "\<exists>r. request_ok E r \<and> k = fst (request_parts r) \<and> b = enc_records (snd (request_parts r))"
      then obtain r where "(fst (request_parts r) = k \<and> request_ok E r) \<and> b = enc_records (snd (request_parts r))"
        by blast
      then have "\<exists>r. (fst (request_parts r) = k \<and> request_ok E r) \<and> b = enc_records (snd (request_parts r))"
        and "k = 1 \<or> k = 2 \<or> k = 3 \<or> k = 4 \<or> k = 5" using number [of r] by blast+
      then show "choice_ok E (validate_n (Suc 18) E) msg 0 (md_fields REQUEST) k b"
        unfolding sync_fields choice_ok_Cons add_0 bodies by (elim disjE) simp_all
    qed
  qed
  then have "message E REQUEST frame = Ok () \<longleftrightarrow> length frame \<le> MAX_FRAME_BYTES \<and>
      (\<exists>r. request_ok E r \<and> frame = frame_of (request_parts r))"
    unfolding ok frame_of_def by (subst oneof_table [OF _ _ _ _ vs]) auto
  then show ?thesis using request_frame_length by auto
qed

section \<open>Requests survive the wire\<close>

lemma push_short: "request_ok E r \<Longrightarrow> length (enc_records (snd (request_parts r))) < 2 ^ 64"
  by (rule le_less_trans [OF push_length]) simp_all

lemma request_body_encoded:
  assumes "request_ok E r"
  shows "encode_request r = envelope (fst (request_parts r)) (enc_records (snd (request_parts r)))"
  using assms
proof (cases r)
  case (ReqPush l es)
  then show ?thesis
    using assms signed_events_short [of E es]
    by (simp add: push_request_def put_bytes_eq put_messages_eq)
next
  case (ReqForks l offset limit)
  then show ?thesis
    using assms
    by (cases l) (simp_all add: forks_request_def put_bytes_eq put_uint_eq opt_id_def id_field_def f_bytes_def)
qed (simp_all add: head_request_def get_request_def list_request_def put_bytes_eq put_uint_eq)

lemma encode_request_eq: "request_ok E r \<Longrightarrow> encode_request r = frame_of (request_parts r)"
proof -
  assume r: "request_ok E r"
  have "fst (request_parts r) < 2 ^ 29" by (cases r) simp_all
  then show ?thesis by (simp only: request_body_encoded [OF r] envelope_eq push_short [OF r] frame_of_def)
qed

lemma request_parts_small:
  assumes "request_ok E r"
  shows "list_all small_record (snd (request_parts r))"
    and "list_all small_record [(fst (request_parts r), VBytes (enc_records (snd (request_parts r))))]"
proof -
  show "list_all small_record (snd (request_parts r))"
    using assms signed_events_short [of E]
    by (cases r) (auto simp: small_record_iffs opt_id_def id_field_def split: option.splits)
  have "length (enc_records (snd (request_parts r))) < 2 ^ 64" by (rule push_short [OF assms])
  then show "list_all small_record [(fst (request_parts r), VBytes (enc_records (snd (request_parts r))))]"
    by (cases r) (simp_all add: small_record_iffs)
qed

lemma request_of_parts:
  assumes "request_ok E r"
  shows "request_of (fst (request_parts r)) (snd (request_parts r)) = Ok r"
  using assms
  by (cases r) (auto simp: request_of_def Let_def opt_id_def id_field_def split: option.splits)

lemma parse_encoded_request:
  assumes "request_ok E r"
  shows "parse_request E T (frame_of (request_parts r)) = Ok r"
proof -
  have "message E REQUEST (frame_of (request_parts r)) = Ok ()" using assms by (auto simp: request_table)
  then show ?thesis
    unfolding parse_request_def frame_of_def read_fields_of [OF request_parts_small(2) [OF assms]]
    using read_fields_of [OF request_parts_small(1) [OF assms]] request_of_parts [OF assms] by simp
qed

lemma parse_request_iff: "parse_request E T frame = Ok r \<longleftrightarrow> request_ok E r \<and> frame = encode_request r"
proof
  assume parsed: "parse_request E T frame = Ok r"
  then have "message E REQUEST frame = Ok ()"
    by (auto simp: parse_request_def split: outcome.splits)
  then obtain r' where r': "request_ok E r'" "frame = frame_of (request_parts r')"
    by (auto simp: request_table)
  with parse_encoded_request [OF r'(1), of T] parsed have "r = r'" by simp
  with r' encode_request_eq show "request_ok E r \<and> frame = encode_request r" by simp
next
  assume "request_ok E r \<and> frame = encode_request r"
  then show "parse_request E T frame = Ok r"
    using encode_request_eq parse_encoded_request by metis
qed

end
