(* ===== verification/Storage_Properties.thy ===== *)
theory Storage_Properties
  imports Storage_Sample Sync_Frames
begin

text \<open>
  What the storage of a node and its sync frames guarantee, over every storage that
  the operations of \<open>storage.rs\<close> can reach from an empty home. Each property is
  followed by an instance of it on the storages of \<open>Storage_Sample.thy\<close>.
\<close>

section \<open>What is stored\<close>




text \<open>
  C34. A push only ever adds at the end: whatever a peer pushes, no stored event
  is changed or removed and no other ledger is touched; and when the answer is a
  success, it counts the events that were added and everything that was pushed is
  in the stored chain.
\<close>

theorem push_only_extends:
  assumes "prost_codec E" and "crypto_ok E" and "storage_reachable E W S" and "length events < 2 ^ 32"
    and "endpoint_ok E prov"
  shows "\<exists>new. let r = storage_push E W now l events prov S in
    fst r \<noteq> Panic \<and> stored_events (snd r) = (stored_events S)(l := stored_events S l @ new)
    \<and> (\<forall>a. fst r = Ok a \<longrightarrow> po_stored a = of_nat (length new)
         \<and> (\<exists>k. events = take (length events) (drop k (stored_events (snd r) l))))"
proof -
  note inv = reachable_inv [OF assms(1-3)]
  note effect = push_has_effect [OF assms(1,2) inv assms(4,5), of W l now]
  then have "fst (storage_push E W now l events prov S) \<noteq> Panic" by (simp add: push_effect_def)
  with push_effect_stored [OF inv effect] show ?thesis by (auto simp: Let_def)
qed

theorem push_only_extends_witness:
  "\<exists>new. stored_events sample_pushed = (stored_events sample_storage)(alice_id := stored_events sample_storage alice_id @ new)
     \<and> (1 :: u32) = of_nat (length new)"
  using push_only_extends [OF ref_ok sample_reachable _ sample_endpoint, of "[first_event]" no_text 7 alice_id]
  by (auto simp: pushed_first(1) sample_pushed_def Let_def)



text \<open>
  C36. A restart loses nothing: opening the storage again on the home that any
  reachable storage left behind succeeds, and with the same endpoint, caps and
  policy it gives a storage with the same index, entry by entry, the same files and
  the same verdicts on the identities it witnesses for.
\<close>

theorem restart_recovers_storage:
  assumes "prost_codec E" and "crypto_ok E" and "storage_reachable E W S"
  shows "\<exists>S'. storage_open E now (sg_home S) (sg_endpoint S) (sg_caps S) (sg_policy S) = (Ok (), S')
    \<and> sg_index S' = sg_index S \<and> sg_entries S' = sg_entries S \<and> (\<forall>l. sg_files S' l = sg_files S l)"
  using open_again [OF assms(1,2) reachable_inv [OF assms], of now "sg_endpoint S" "sg_policy S"]
  by (auto simp: same_def)

theorem restart_recovers_storage_witness:
  "\<exists>S'. storage_open ref_env 20 (sg_home sample_pushed) (sg_endpoint sample_pushed) (sg_caps sample_pushed)
      (sg_policy sample_pushed) = (Ok (), S') \<and> sg_index S' = sg_index sample_pushed"
  using restart_recovers_storage [OF ref_ok pushed_reachable] by blast

text \<open>
  C37. An append that is cut off by a crash is harmless: for a directory that holds
  a chain, after any number of the file writes of an append of valid events, reading
  the directory gives the old events with a prefix of the new ones; a directory that
  held something serves either all of the new events or none.
\<close>

theorem cut_append_serves_prefix:
  assumes "prost_codec E" and "in_sync E old f" and "list_all (valid_bytes E) evs" and "evs \<noteq> []"
    and "length old + length evs < 2 ^ 64"
  shows "\<exists>k \<le> length evs.
      (\<forall>now'. \<exists>r. fst (ledger_read_all E l now' (cut_append n E l now (batch_of E (of_nat (length old)) evs) f)) = Ok r
        \<and> map st_bytes r = old @ take k evs)
    \<and> (old \<noteq> [] \<longrightarrow> k = 0 \<or> k = length evs)"
  using cut_append_serves [OF assms, of n l now] by (auto simp: serves_def)

lemma first_event_valid: "list_all (valid_bytes ref_env) [first_event]"
  using alice_fold unfolding fold_events_def by (rule fold_valid)

theorem cut_append_serves_prefix_witness:
  "\<exists>k \<le> 1. \<exists>r. fst (ledger_read_all ref_env alice_id 3
      (cut_append 2 ref_env alice_id 2 (batch_of ref_env 0 [first_event]) no_files)) = Ok r
    \<and> map st_bytes r = take k [first_event]"
  using cut_append_serves_prefix [OF ref_prost _ first_event_valid, of "[]" no_files alice_id 2 2]
  by (auto simp: in_sync_def no_files_def)

section \<open>Who is stored\<close>

lemma advertised_gap:
  assumes "rechecked S"
  shows "w \<in> set (map wf_identity (filter advertised (sg_entries S))) \<longleftrightarrow>
    w \<in> set (ap_witness_for (sg_policy S)) \<and> gap_for (sg_index S) w (sg_endpoint S) = None"
  unfolding assms [unfolded rechecked_def] by (auto simp: recheck_def advertised_def image_iff)

text \<open>
  C38. Nothing is stored that was not admitted: when a push adds events to a
  ledger, the home can sign for it, or the state before the push names a witness this
  node witnesses for, or the state after it names one whose own stored ledger
  advertises this node's endpoint, or the legacy rule admits it. A node that
  witnesses for nobody stores only the ledgers it can sign for.
\<close>

theorem stored_only_if_admitted:
  assumes "prost_codec E" and "crypto_ok E" and "storage_reachable E W S" and "length events < 2 ^ 32"
    and "endpoint_ok E prov" and "S' = snd (storage_push E W now l events prov S)"
    and "stored_events S' l \<noteq> stored_events S l"
  shows "(\<exists>s. fold_events E (stored_events S' l) = Ok (s, None) \<and>
     (can_sign_for (sg_home S) l
      \<or> (\<exists>e. sg_entry S l = Some e \<and> names_witness (en_state e) (ap_witness_for (sg_policy S)))
      \<or> (\<exists>w\<in>set (witness_identities s). w \<in> set (ap_witness_for (sg_policy S))
           \<and> gap_for (sg_index S) w (sg_endpoint S) = None)
      \<or> legacy_admits S (map_option en_state (sg_entry S l)) s))
    \<and> (ap_witness_for (sg_policy S) = [] \<longrightarrow> can_sign_for (sg_home S) l)"
proof -
  note inv = reachable_inv [OF assms(1-3)]
  note effect = push_has_effect [OF assms(1,2) inv assms(4,5), of W l now, folded assms(6)]
  have "\<not> same S S'" "\<not> forks_on E l S S'"
    using assms(7) same_stored [of S S' l] forks_on_stored [OF inv, of l S' l] by auto
  with effect obtain m n e where grown: "grows E l (take m (drop n events)) e S S'"
    and admit: "storage_admit W S l (map_option en_state (sg_entry S l)) (en_state e) = Ok ()"
    by (auto simp: push_effect_def keeps_def extends_def)
  have "fold_events E (stored_events S l @ take m (drop n events)) = Ok (en_state e, None)"
    using grown by (auto simp: grows_def entry_holds_def)
  then have fold: "fold_events E (stored_events S' l) = Ok (en_state e, None)"
    using grows_stored [OF inv grown, of l] by simp
  have rechecked: "rechecked S" using inv by (simp add: storage_inv_def)
  have ok: "can_sign_for (sg_home S) l
      \<or> (\<exists>e. sg_entry S l = Some e \<and> names_witness (en_state e) (ap_witness_for (sg_policy S)))
      \<or> (\<exists>w\<in>set (witness_identities (en_state e)). w \<in> set (ap_witness_for (sg_policy S))
           \<and> gap_for (sg_index S) w (sg_endpoint S) = None)
      \<or> legacy_admits S (map_option en_state (sg_entry S l)) (en_state e)"
    using admit advertised_gap [OF rechecked]
    by (cases "sg_entry S l") (auto simp: storage_admit_def names_witness_def list_ex_iff split: if_splits)
  moreover from ok have "ap_witness_for (sg_policy S) = [] \<longrightarrow> can_sign_for (sg_home S) l"
    by (auto simp: names_witness_def list_ex_iff legacy_admits_def)
  ultimately show ?thesis using fold by blast
qed

theorem stored_only_if_admitted_witness:
  "stored_events sample_pushed alice_id \<noteq> stored_events sample_storage alice_id
   \<and> can_sign_for (sg_home sample_storage) alice_id"
  using stored_only_if_admitted [OF ref_ok sample_reachable _ sample_endpoint sample_pushed_def] pushed_first(2) sample_fields
  by (simp add: witnessing_for_def)

text \<open>
  C39. A fork is recorded and never adopted: a push that agrees with the stored
  events up to a position and there carries a different event, both verified against
  the events before it, answers FORK at that position; the stored events of every
  ledger stay as they were, and the entry holds a record of the conflicting event,
  unless the ledger's fork records are already at the cap.
\<close>

theorem fork_is_recorded:
  assumes "prost_codec E" and "crypto_ok E" and "storage_reachable E W S" and "endpoint_ok E prov"
    and "sg_entry S l = Some e" and "seq_of W (hd events) = Ok q" and "check_contiguous W q events = Ok ()"
    and "j < length events" and "unat q + j < length (stored_events S l)"
    and "take j events = take j (drop (unat q) (stored_events S l))"
    and "fold_events E (take (unat q + j) (stored_events S l)) = Ok (p, None)"
    and "validate_fork_record E p (stored_events S l ! (unat q + j)) (events ! j) = Ok fk"
    and "events ! j \<noteq> stored_events S l ! (unat q + j)"
  shows "let r = storage_push E W now l events prov S; at = q + of_nat j in
    fst r = Err (store_fork at (W (NoteForked at))) \<and> stored_events (snd r) = stored_events S
    \<and> (\<exists>e'. sg_entry (snd r) l = Some e' \<and> (forks_truncated e (cp_fork_records (sg_caps S))
         \<or> (\<exists>x\<in>set (en_forks e'). fr_seq x = at \<and> signed_event_id E (fr_conflicting x) = Some (fk_conflicting fk))))"
proof -
  note inv = reachable_inv [OF assms(1-3)]
  note push = push_diverges(1) [OF inv assms(5-10,13), of now prov] push_diverges(2) [OF inv assms(5-10,13)]
  have at: "unat (q + of_nat j) < length (stored_events S l)"
    "fold_events E (take (unat (q + of_nat j)) (stored_events S l)) = Ok (p, None)"
    "validate_fork_record E p (stored_events S l ! unat (q + of_nat j)) (events ! j) = Ok fk"
    using assms(9,11,12) by (simp_all only: push(2))
  show ?thesis
    unfolding Let_def push(1)
    using divergence_recorded [OF assms(1,2) inv assms(5) at, of W now prov]
      divergence_keeps [OF assms(1,2) inv assms(5) at(1) assms(4), of W now "events ! j"]
    by (simp add: push(2))
qed

theorem fork_is_recorded_witness:
  "\<exists>e at. let r = storage_push ref_env no_text 9 alice_id [other_event] None sample_grown in
     sg_entry sample_grown alice_id = Some e \<and> fst r = Err (store_fork at []) \<and> stored_events (snd r) = stored_events sample_grown"
proof -
  obtain e fk where e: "sg_entry sample_grown alice_id = Some e"
    and fk: "validate_fork_record ref_env alice_state kept_event other_event = Ok fk"
    using grown_entry sample_fork by blast
  have "seq_of no_text (hd [other_event]) = Ok 1" "check_contiguous no_text 1 [other_event] = Ok ()"
    by (simp_all add: seq_of_def other_event_seq)
  from fork_is_recorded [OF ref_ok grown_reachable sample_endpoint e this, of 0 alice_state fk 9]
  show ?thesis using e fk grown_stored alice_fold other_event_differs by (auto simp: no_text_def Let_def)
qed

section \<open>Frames\<close>

text \<open>
  C40. The request frames of the sync protocol have one reading and one spelling: a
  frame parses as a request exactly when the request keeps the protocol's limits and
  the frame is the encoding of it, so a request survives the wire and two frames that
  mean the same are the same bytes.
\<close>

theorem request_frames_round_trip:
  "parse_request E T frame = Ok r \<longleftrightarrow> request_ok E r \<and> frame = encode_request r"
  by (rule parse_request_iff)

end
