(* ===== verification/Sync_Responses.thy ===== *)
theory Sync_Responses
  imports Sync_Frames
begin

text \<open>
  The response frames: what the response tables accept, and that the client's parser
  reads back what the server's encoders write. A reason text is clipped on a character
  boundary, so it stays UTF-8.
\<close>

section \<open>Clipped text\<close>

lemma utf8_take:
  "utf8_decode s \<noteq> None \<Longrightarrow> n \<le> length s \<Longrightarrow> n = length s \<or> \<not> is_cont (s ! n) \<Longrightarrow> utf8_decode (take n s) \<noteq> None"
proof (induction s arbitrary: n rule: utf8_decode.induct)
  case (2 b bs)
  note IH = 2(1-4) and dec = 2(5) and le = 2(6) and edge = 2(7)
  show ?case
  proof (cases "n = 0")
    case False
    then obtain k where n: "n = Suc k" by (cases n) auto
    let ?n = "unat b"
    consider (one) "?n < 128" | (two) "194 \<le> ?n" "?n < 224" | (three) "224 \<le> ?n" "?n < 240" | (four) "240 \<le> ?n" "?n < 245"
      using dec by (auto simp: utf8_decode.simps(2) Let_def split: if_splits)
    then show ?thesis
    proof cases
      case one
      then have "utf8_decode (take k bs) \<noteq> None" using IH(1) [of ?n k] dec le edge n by (auto simp: utf8_decode.simps(2))
      then show ?thesis using one n by (simp add: utf8_decode.simps(2))
    next
      case two
      with dec obtain c r where r: "bs = c # r" "is_cont c" "utf8_decode r \<noteq> None"
        by (auto simp: utf8_decode.simps(2) Let_def split: list.splits if_splits)
      then obtain j where j: "k = Suc j" using edge le n by (cases k) auto
      have "utf8_decode (take j r) \<noteq> None" using IH(2) [of ?n c r j] two r le edge n j by auto
      then show ?thesis using two r n j by (simp add: utf8_decode.simps(2))
    next
      case three
      with dec obtain c d r where r: "bs = c # d # r" "is_cont c" "is_cont d" "utf8_decode r \<noteq> None"
        by (auto simp: utf8_decode.simps(2) Let_def split: list.splits if_splits)
      then obtain j where j: "k = Suc (Suc j)" using edge le n by (cases k; cases "k - 1") auto
      have "utf8_decode (take j r) \<noteq> None" using IH(3) [of ?n c "d # r" d r _ j] three dec r le edge n j
        by (auto simp: utf8_decode.simps(2) Let_def split: if_splits)
      then show ?thesis using three r n j dec by (simp add: utf8_decode.simps(2) Let_def split: if_splits)
    next
      case four
      with dec obtain c d e r where r: "bs = c # d # e # r" "is_cont c" "is_cont d" "is_cont e" "utf8_decode r \<noteq> None"
        by (auto simp: utf8_decode.simps(2) Let_def split: list.splits if_splits)
      then obtain j where j: "k = Suc (Suc (Suc j))" using edge le n by (cases k; cases "k - 1"; cases "k - 2") auto
      have "utf8_decode (take j r) \<noteq> None" using IH(4) [of ?n c "d # e # r" d "e # r" e r _ j] four dec r le edge n j
        by (auto simp: utf8_decode.simps(2) Let_def split: if_splits)
      then show ?thesis using four r n j dec by (simp add: utf8_decode.simps(2) Let_def split: if_splits)
    qed
  qed simp
qed simp

lemma clip_end_le: "clip_end msg n \<le> n"
  by (induction n) auto

lemma clip_end_boundary: "clip_end msg n = 0 \<or> is_char_boundary msg (clip_end msg n)"
  by (induction n) auto

lemma clip_utf8: "is_utf8 msg \<Longrightarrow> is_utf8 (clip msg)"
proof -
  assume "is_utf8 msg"
  moreover have "is_utf8 (take (clip_end msg MAX_REJECT_MSG_BYTES) msg)" if "MAX_REJECT_MSG_BYTES < length msg"
  proof -
    let ?n = "clip_end msg MAX_REJECT_MSG_BYTES"
    have "?n < length msg" using clip_end_le [of msg MAX_REJECT_MSG_BYTES] that by simp
    moreover have "?n = 0 \<or> \<not> is_cont (msg ! ?n)"
      using clip_end_boundary [of msg MAX_REJECT_MSG_BYTES] \<open>?n < length msg\<close> by (auto simp: is_char_boundary_def)
    ultimately show ?thesis
      using utf8_take [of msg ?n] \<open>is_utf8 msg\<close> by (cases "?n = 0") (auto simp: is_utf8_def)
  qed
  ultimately show ?thesis by (auto simp: clip_def)
qed

lemma clip_length: "length (clip msg) \<le> MAX_REJECT_MSG_BYTES"
  using clip_end_le [of msg MAX_REJECT_MSG_BYTES] by (auto simp: clip_def min_def)

lemma clip_short [simp]: "length msg \<le> MAX_REJECT_MSG_BYTES \<Longrightarrow> clip msg = msg"
  by (simp add: clip_def)

section \<open>Layout\<close>

definition flag_of :: "bool \<Rightarrow> u64" where
  "flag_of b = (if b then 1 else 0)"

lemma flag_of_bool: "flag_of b = of_bool b"
  by (simp add: flag_of_def)

definition summary_parts :: "ledger_summary \<Rightarrow> records" where
  "summary_parts s = f_bytes 1 (sm_ledger s) @ f_varint 2 (of_nat (declared_kind_number (sm_declared_kind s)))
     @ f_varint 3 (sm_head_seq s) @ f_bytes 4 (sm_head_event s) @ f_varint 5 (sm_event_count s)
     @ f_varint 6 (sm_first_seen_ms s) @ f_varint 7 (sm_updated_ms s) @ f_varint 8 (ucast (sm_fork_count s))
     @ f_varint 9 (flag_of (sm_forks_truncated s))"

fun response_parts :: "response \<Rightarrow> nat \<times> records" where
  "response_parts (RespHead h) =
     (1, f_varint 1 (nh_head_seq h) @ f_bytes 2 (nh_head_event h) @ f_varint 3 (nh_updated_ms h))"
| "response_parts (RespEvents p) =
     (2, f_repeated 1 (ep_events p) @ f_varint 2 (ep_head_seq p) @ f_varint 3 (flag_of (ep_more p)))"
| "response_parts (RespAccepted a) = (3, f_varint 1 (po_head_seq a) @ f_varint 2 (ucast (po_stored a)))"
| "response_parts (RespLedgers p) =
     (4, f_repeated 1 (map summary_entry (pg_items p)) @ f_varint 2 (flag_of (pg_more p)))"
| "response_parts (RespForks p) =
     (5, f_repeated 1 (map fork_entry (pg_items p)) @ f_varint 2 (flag_of (pg_more p)))"
| "response_parts RespNotFound = (6, [])"
| "response_parts (RespRejected r) =
     (7, f_varint 1 (of_nat (reject_code_number (rj_code r))) @ f_varint 2 (rj_at_seq r) @ f_bytes 3 (rj_msg r))"

definition summary_ok :: "ledger_summary \<Rightarrow> bool" where
  "summary_ok s \<longleftrightarrow> length (sm_ledger s) = 32 \<and> length (sm_head_event s) = 32
     \<and> sm_declared_kind s \<noteq> KindUnspecified
     \<and> sm_first_seen_ms s \<le> MAX_TIMESTAMP_MS \<and> sm_updated_ms s \<le> MAX_TIMESTAMP_MS"

definition fork_ok :: "env \<Rightarrow> fork_record \<Rightarrow> bool" where
  "fork_ok E r \<longleftrightarrow> fork_record_ok E r \<and> fr_seq r \<noteq> 0 \<and> fr_observed_ms r \<le> MAX_TIMESTAMP_MS
     \<and> signed_event E (fr_kept r) = Ok () \<and> signed_event E (fr_conflicting r) = Ok ()"

fun response_ok :: "env \<Rightarrow> response \<Rightarrow> bool" where
  "response_ok E (RespHead h) \<longleftrightarrow> length (nh_head_event h) = 32 \<and> nh_updated_ms h \<le> MAX_TIMESTAMP_MS"
| "response_ok E (RespEvents p) \<longleftrightarrow> length (ep_events p) \<le> MAX_GET_LIMIT
     \<and> list_all (\<lambda>e. signed_event E e = Ok ()) (ep_events p)"
| "response_ok E (RespAccepted a) \<longleftrightarrow> True"
| "response_ok E (RespLedgers p) \<longleftrightarrow> length (pg_items p) \<le> MAX_LIST_LIMIT \<and> list_all summary_ok (pg_items p)"
| "response_ok E (RespForks p) \<longleftrightarrow> length (pg_items p) \<le> MAX_FORKS_LIMIT \<and> list_all (fork_ok E) (pg_items p)"
| "response_ok E RespNotFound \<longleftrightarrow> True"
| "response_ok E (RespRejected r) \<longleftrightarrow> rj_code r \<noteq> RejectUnspecified \<and> is_utf8 (rj_msg r)
     \<and> length (rj_msg r) \<le> MAX_REJECT_MSG_BYTES"

section \<open>Entries\<close>

lemma declared_kind_numbers:
  "k \<noteq> KindUnspecified \<longleftrightarrow> (of_nat (declared_kind_number k) :: u64) \<in> {1, 2, 3, 4}"
  "declared_kind_number k < 5" "declared_kind_try_from (declared_kind_number k) = Some k"
  by (cases k; simp add: declared_kind_try_from_def)+

lemma timestamp_short:
  assumes "v \<le> MAX_TIMESTAMP_MS" and "n < 16"
  shows "length (enc_records (f_varint n v)) \<le> 7"
proof -
  have "unat v \<le> unat MAX_TIMESTAMP_MS" using assms(1) by (simp add: word_le_nat_alt)
  then have "unat v < 128 ^ 6" by (simp add: MAX_TIMESTAMP_MS_def)
  from f_varint_short(2) [OF assms(2) this] show ?thesis by simp
qed

lemma small_varint:
  assumes "unat v < 128" and "n < 16"
  shows "length (enc_records (f_varint n v)) \<le> 2"
  using f_varint_short(2) [OF assms(2), of v 1] assms(1) by simp

lemma flag_short: "n < 16 \<Longrightarrow> length (enc_records (f_varint n (flag_of b))) \<le> 2"
  by (rule small_varint) (simp_all add: flag_of_def)

lemma flag_of_set [simp]: "flag_of b \<noteq> 0 \<longleftrightarrow> b"
  by (simp add: flag_of_def)

lemma count32_short: "n < 16 \<Longrightarrow> length (enc_records (f_varint n (ucast (x :: u32)))) \<le> 6"
proof -
  assume n: "n < 16"
  have "unat (ucast x :: u64) < 2 ^ 32" unfolding unat_ucast32 using unsigned_less [of x, where ?'a = nat] by simp
  then have "unat (ucast x :: u64) < 128 ^ 5" by simp
  from f_varint_short(2) [OF n this] show ?thesis by simp
qed

lemma put_flag_of: "n < 2 ^ 29 \<Longrightarrow> put_flag n b = enc_records (f_varint n (flag_of b))"
  by (simp add: put_flag_eq flag_of_def)

lemma summary_entry_eq: "summary_ok s \<Longrightarrow> summary_entry s = enc_records (summary_parts s)"
  by (simp add: summary_entry_def summary_parts_def summary_ok_def put_bytes_eq put_uint_eq put_flag_of)

lemma summary_length:
  assumes "summary_ok s"
  shows "length (enc_records (summary_parts s)) \<le> SMALL_REQUEST_BYTES"
proof -
  have "unat (of_nat (declared_kind_number (sm_declared_kind s)) :: u64) < 128"
    by (cases "sm_declared_kind s") simp_all
  then show ?thesis
    using assms id_length [of "sm_ledger s" 1] id_length [of "sm_head_event s" 4] f_varint_short(1) [of 3 "sm_head_seq s"]
      f_varint_short(1) [of 5 "sm_event_count s"] timestamp_short [of "sm_first_seen_ms s" 6]
      timestamp_short [of "sm_updated_ms s" 7] count32_short [of 8 "sm_fork_count s"]
      small_varint [of "of_nat (declared_kind_number (sm_declared_kind s))" 2]
      flag_short [of 9 "sm_forks_truncated s"]
    by (simp add: summary_parts_def summary_ok_def frame_defs)
qed

lemma blocks_I:
  "part_ok E V msg d f p \<Longrightarrow> blocks E V msg d fs q \<Longrightarrow> blocks E V msg d (f # fs) (p @ q)"
  "part_ok E V msg d f p \<Longrightarrow> blocks E V msg d [f] p"
  by auto

lemma part_kind:
  "k \<noteq> KindUnspecified \<Longrightarrow>
   part_ok E V msg d (required n nm K_SUMMARY_KIND) (f_varint n (of_nat (declared_kind_number k)))"
  using declared_kind_numbers(1) [of k] unfolding K_SUMMARY_KIND_def part_required_enum
  by (intro exI [of _ "of_nat (declared_kind_number k)"]) auto

lemma part_flag_of: "part_ok E V msg d (optional n nm FLAG) (f_varint n (flag_of b))"
  unfolding part_flag flag_of_bool by blast

lemma summary_blocks:
  assumes "summary_ok s"
  shows "blocks E V msg d (md_fields LEDGER_SUMMARY) (summary_parts s)"
  unfolding sync_fields summary_parts_def
proof (intro blocks_I)
  show "part_ok E V msg d (required 1 ''ledger'' K_ID) (f_bytes 1 (sm_ledger s))"
    "part_ok E V msg d (required 4 ''head_event'' K_ID) (f_bytes 4 (sm_head_event s))"
    "part_ok E V msg d (optional 3 ''head_seq'' COUNT64) (f_varint 3 (sm_head_seq s))"
    "part_ok E V msg d (optional 5 ''event_count'' COUNT64) (f_varint 5 (sm_event_count s))"
    "part_ok E V msg d (optional 6 ''first_seen_ms'' TIMESTAMP) (f_varint 6 (sm_first_seen_ms s))"
    "part_ok E V msg d (optional 7 ''updated_ms'' TIMESTAMP) (f_varint 7 (sm_updated_ms s))"
    "part_ok E V msg d (optional 8 ''fork_count'' COUNT32) (f_varint 8 (ucast (sm_fork_count s)))"
    unfolding sync_parts using assms unfolding summary_ok_def by blast+
  show "part_ok E V msg d (required 2 ''declared_kind'' K_SUMMARY_KIND)
      (f_varint 2 (of_nat (declared_kind_number (sm_declared_kind s))))"
    using assms by (intro part_kind) (simp add: summary_ok_def)
qed (rule part_flag_of)

lemma summary_valid:
  assumes "summary_ok s" and "d \<le> MAX_NESTING"
  shows "\<exists>x. validate_n (Suc n) E LEDGER_SUMMARY (summary_entry s) d = Ok x"
  using assms summary_length [OF assms(1)] summary_blocks [OF assms(1), of E "validate_n n E" _ d]
  by (subst plain_table) (auto simp: summary_entry_eq)

lemma read_summary_entry:
  assumes "summary_ok s"
  shows "read_summary (summary_entry s) = Some s"
proof -
  have small: "list_all small_record (summary_parts s)"
    using assms by (simp add: summary_parts_def summary_ok_def small_record_iffs)
  then have fields: "read_fields (summary_entry s) = Some (summary_parts s)"
    unfolding summary_entry_eq [OF assms] by (rule read_fields_of)
  have ids: "sm_ledger s \<noteq> []" "sm_head_event s \<noteq> []" using assms by (auto simp: summary_ok_def)
  have got: "get_bytes (summary_parts s) 1 = Some (sm_ledger s)" "get_bytes (summary_parts s) 4 = Some (sm_head_event s)"
    using ids by (simp_all add: summary_parts_def)
  have nums: "read_uint (summary_parts s) 2 = of_nat (declared_kind_number (sm_declared_kind s))"
    "read_uint (summary_parts s) 3 = sm_head_seq s" "read_uint (summary_parts s) 5 = sm_event_count s"
    "read_uint (summary_parts s) 6 = sm_first_seen_ms s" "read_uint (summary_parts s) 7 = sm_updated_ms s"
    "read_uint (summary_parts s) 8 = ucast (sm_fork_count s)" "read_flag (summary_parts s) 9 = sm_forks_truncated s"
    by (simp_all add: summary_parts_def read_flag_def)
  have kind: "declared_kind_try_from (unat (ucast (of_nat (declared_kind_number k) :: u64) :: u32)) = Some k" for k
    by (cases k) (simp_all add: declared_kind_try_from_def)
  have id: "read_id (Some (sm_ledger s)) = Some (sm_ledger s)" "read_id (Some (sm_head_event s)) = Some (sm_head_event s)"
    using assms by (simp_all add: summary_ok_def)
  show ?thesis
    unfolding read_summary_def fields by (simp add: got got(1) [unfolded One_nat_def] nums kind id)
qed

section \<open>Fork entries\<close>

lemma fork_ok_parts:
  assumes "fork_ok E r"
  shows "fork_parts r = f_bytes 1 (fr_ledger r) @ f_varint 2 (fr_seq r) @ f_bytes 3 (fr_kept r)
     @ f_bytes 4 (fr_conflicting r) @ f_varint 5 (fr_observed_ms r) @ f_bytes 6 (id_field (fr_source_endpoint r))"
    and "opt_id (fr_source_endpoint r)"
  using assms signed_event_not_Nil [of E]
  by (auto simp: fork_ok_def fork_parts_def f_bytes_def fork_record_ok_def opt_id_def endpoint_Some split: option.splits)

lemma fork_length:
  assumes "fork_ok E r"
  shows "length (enc_records (fork_parts r)) \<le> 2 * MAX_EVENT_BYTES + SMALL_REQUEST_BYTES"
proof -
  have "length (fr_kept r) \<le> 4096" "length (fr_conflicting r) \<le> 4096"
    using assms signed_event_length [of E] by (auto simp: fork_ok_def size_defs)
  then have "length (enc_records (f_bytes 3 (fr_kept r))) \<le> 3 + length (fr_kept r)"
    "length (enc_records (f_bytes 4 (fr_conflicting r))) \<le> 3 + length (fr_conflicting r)"
    using f_bytes_short [of 3 "fr_kept r" 2] f_bytes_short [of 4 "fr_conflicting r" 2] by simp_all
  then show ?thesis
    using assms \<open>length (fr_kept r) \<le> 4096\<close> \<open>length (fr_conflicting r) \<le> 4096\<close>
      id_length [of "fr_ledger r" 1] opt_id_length [OF fork_ok_parts(2) [OF assms], of 6]
      f_varint_short(1) [of 2 "fr_seq r"] timestamp_short [of "fr_observed_ms r" 5]
    by (simp add: fork_ok_parts(1) [OF assms] fork_ok_def fork_record_ok_def frame_defs size_defs)
qed

lemma fork_blocks:
  assumes "fork_ok E r" and "9 \<le> k"
  shows "blocks E (validate_n k E) msg d (md_fields FORK_RECORD) (fork_parts r)"
  unfolding sync_fields fork_ok_parts(1) [OF assms(1)]
proof (intro blocks_I)
  show "part_ok E (validate_n k E) msg d (required 1 ''ledger'' K_ID) (f_bytes 1 (fr_ledger r))"
    "part_ok E (validate_n k E) msg d (required 2 ''seq'' COUNT64) (f_varint 2 (fr_seq r))"
    "part_ok E (validate_n k E) msg d (required 3 ''kept'' K_EVENT) (f_bytes 3 (fr_kept r))"
    "part_ok E (validate_n k E) msg d (required 4 ''conflicting'' K_EVENT) (f_bytes 4 (fr_conflicting r))"
    "part_ok E (validate_n k E) msg d (optional 5 ''observed_ms'' TIMESTAMP) (f_varint 5 (fr_observed_ms r))"
    "part_ok E (validate_n k E) msg d (optional 6 ''source_endpoint'' K_ID) (f_bytes 6 (id_field (fr_source_endpoint r)))"
    unfolding sync_parts part_event [OF assms(2)]
    using assms(1) fork_ok_parts(2) [OF assms(1)] unfolding fork_ok_def fork_record_ok_def by blast+
qed

lemma fork_valid:
  assumes "fork_ok E r" and "d \<le> MAX_NESTING" and "9 \<le> k"
  shows "\<exists>x. validate_n (Suc k) E FORK_RECORD (fork_entry r) d = Ok x"
proof -
  have "fork_entry r = enc_records (fork_parts r)" using assms(1) by (intro fork_entry_eq [of E]) (simp add: fork_ok_def)
  then show ?thesis
    using assms fork_length [OF assms(1)] fork_blocks [OF assms(1,3), of _ d] by (subst plain_table) auto
qed

section \<open>Responses\<close>

text \<open>The table of each kind of response.\<close>

definition response_table :: "nat \<Rightarrow> message_descriptor" where
  "response_table k = (if k = 1 then HEAD_RESP else if k = 2 then EVENTS_RESP else if k = 3 then ACCEPTED_RESP
     else if k = 4 then LEDGERS_RESP else if k = 5 then FORKS_RESP else if k = 6 then NOT_FOUND_RESP else REJECTED_RESP)"

lemma two_nesting [simp]: "Suc (Suc 0) \<le> MAX_NESTING"
  by (simp add: MAX_NESTING_def)

lemma part_entries:
  assumes "mn \<le> length es" and "length es \<le> mx" and "\<And>e. e \<in> set es \<Longrightarrow> \<exists>x. V D e (d + 1) = Ok x"
  shows "part_ok E V msg d (repeated n nm mn mx (KMessage D)) (f_repeated n es)"
  unfolding part_messages using assms by (intro exI [of _ es]) (auto simp: list_all_iff)

lemma part_code:
  "c \<noteq> RejectUnspecified \<Longrightarrow>
   part_ok E V msg d (required n nm K_REJECT_CODE) (f_varint n (of_nat (reject_code_number c)))"
  unfolding K_REJECT_CODE_def part_required_enum
  by (intro exI [of _ "of_nat (reject_code_number c)"]) (cases c; simp)

lemma response_blocks:
  assumes "response_ok E r" and "9 \<le> k"
  shows "blocks E (validate_n (Suc k) E) msg 1 (md_fields (response_table (fst (response_parts r)))) (snd (response_parts r))"
proof (cases r)
  case (RespHead h)
  have "blocks E V msg 1 (md_fields HEAD_RESP)
      (f_varint 1 (nh_head_seq h) @ f_bytes 2 (nh_head_event h) @ f_varint 3 (nh_updated_ms h))" for V
    unfolding sync_fields using assms(1) RespHead by (intro blocks_I) (auto simp: sync_parts)
  then show ?thesis using RespHead by (simp add: response_table_def)
next
  case (RespEvents p)
  have "9 \<le> Suc k" using assms(2) by simp
  note part = part_events [OF this]
  have "blocks E (validate_n (Suc k) E) msg 1 (md_fields EVENTS_RESP)
      (f_repeated 1 (ep_events p) @ f_varint 2 (ep_head_seq p) @ f_varint 3 (flag_of (ep_more p)))"
    unfolding sync_fields using assms(1) RespEvents by (intro blocks_I part_flag_of) (auto simp: sync_parts part)
  then show ?thesis using RespEvents by (simp add: response_table_def)
next
  case (RespAccepted a)
  have "blocks E V msg 1 (md_fields ACCEPTED_RESP) (f_varint 1 (po_head_seq a) @ f_varint 2 (ucast (po_stored a)))" for V
    unfolding sync_fields by (intro blocks_I) (auto simp: sync_parts)
  then show ?thesis using RespAccepted by (simp add: response_table_def)
next
  case (RespLedgers p)
  have "blocks E (validate_n (Suc k) E) msg 1 (md_fields LEDGERS_RESP)
      (f_repeated 1 (map summary_entry (pg_items p)) @ f_varint 2 (flag_of (pg_more p)))"
    unfolding sync_fields using assms(1) RespLedgers
    by (intro blocks_I part_flag_of part_entries) (auto simp: list_all_iff simp del: validate_n.simps intro!: summary_valid)
  then show ?thesis using RespLedgers by (simp add: response_table_def)
next
  case (RespForks p)
  have "blocks E (validate_n (Suc k) E) msg 1 (md_fields FORKS_RESP)
      (f_repeated 1 (map fork_entry (pg_items p)) @ f_varint 2 (flag_of (pg_more p)))"
    unfolding sync_fields using assms RespForks
    by (intro blocks_I part_flag_of part_entries) (auto simp: list_all_iff simp del: validate_n.simps intro!: fork_valid)
  then show ?thesis using RespForks by (simp add: response_table_def)
next
  case RespNotFound
  then show ?thesis by (simp add: response_table_def sync_fields)
next
  case (RespRejected x)
  have "blocks E V msg 1 (md_fields REJECTED_RESP)
      (f_varint 1 (of_nat (reject_code_number (rj_code x))) @ f_varint 2 (rj_at_seq x) @ f_bytes 3 (rj_msg x))" for V
    unfolding sync_fields using assms(1) RespRejected
    by (intro blocks_I part_code) (auto simp: sync_parts part_optional_string check_string_def)
  then show ?thesis using RespRejected by (simp add: response_table_def)
qed

lemma response_table_facts:
  "small_fields (response_table k)" "ordered_fields (response_table k)" "md_max_bytes (response_table k) < 2 ^ 64"
  "md_oneof (response_table k) = None" "md_check (response_table k) = None"
  by (simp_all add: response_table_def)

lemma response_small:
  assumes "response_ok E r" and "fst (response_parts r) \<notin> {2, 4, 5}"
  shows "length (enc_records (snd (response_parts r))) \<le> md_max_bytes (response_table (fst (response_parts r)))"
    and "length (enc_records (snd (response_parts r))) \<le> 384"
proof -
  have "length (enc_records (snd (response_parts r))) \<le> md_max_bytes (response_table (fst (response_parts r)))
      \<and> length (enc_records (snd (response_parts r))) \<le> 384"
  proof (cases r)
    case (RespHead h)
    then show ?thesis
      using assms(1) f_varint_short(1) [of 1 "nh_head_seq h"] id_length [of "nh_head_event h" 2]
        timestamp_short [of "nh_updated_ms h" 3] by (simp add: response_table_def frame_defs)
  next
    case (RespAccepted a)
    then show ?thesis
      using f_varint_short(1) [of 1 "po_head_seq a"] count32_short [of 2 "po_stored a"]
      by (simp add: response_table_def frame_defs)
  next
    case (RespRejected x)
    have "unat (of_nat (reject_code_number (rj_code x)) :: u64) < 128" by (cases "rj_code x") simp_all
    moreover have "length (enc_records (f_bytes 3 (rj_msg x))) \<le> 3 + length (rj_msg x)"
      using assms(1) RespRejected f_bytes_short [of 3 "rj_msg x" 2] by (simp add: frame_defs)
    ultimately show ?thesis
      using assms(1) RespRejected f_varint_short(1) [of 2 "rj_at_seq x"]
        small_varint [of "of_nat (reject_code_number (rj_code x))" 1] by (simp add: response_table_def frame_defs)
  qed (use assms(2) in \<open>auto simp: response_table_def\<close>)
  then show "length (enc_records (snd (response_parts r))) \<le> md_max_bytes (response_table (fst (response_parts r)))"
    "length (enc_records (snd (response_parts r))) \<le> 384" by simp_all
qed

lemma body_of_frame: "length (enc_records (snd p)) \<le> length (frame_of p)"
  by (simp add: frame_of_def)

lemma response_body:
  assumes "response_ok E r" and "length (frame_of (response_parts r)) \<le> MAX_FRAME_BYTES" and "9 \<le> k"
  shows "\<exists>x. validate_n (Suc (Suc k)) E (response_table (fst (response_parts r))) (enc_records (snd (response_parts r))) 1 = Ok x"
proof -
  have "length (enc_records (snd (response_parts r))) \<le> md_max_bytes (response_table (fst (response_parts r)))"
  proof (cases "fst (response_parts r) \<in> {2, 4, 5}")
    case True
    then show ?thesis
      using assms(2) body_of_frame [of "response_parts r"] by (auto simp: response_table_def intro: order.trans)
  qed (rule response_small(1) [OF assms(1)])
  then show ?thesis
    using response_blocks [OF assms(1,3)] by (subst plain_table [OF response_table_facts]) auto
qed

lemma response_number: "fst (response_parts r) \<in> {1, 2, 3, 4, 5, 6, 7}"
  by (cases r) simp_all

lemma response_choice:
  assumes "\<exists>x. V (response_table k) b (0 + 1) = Ok x" and "k \<in> {1, 2, 3, 4, 5, 6, 7}"
  shows "choice_ok E V msg 0 (md_fields RESPONSE) k b"
  unfolding sync_fields choice_ok_Cons using assms by (auto simp: response_table_def)

lemma response_accepted:
  assumes "response_ok E r" and "length (frame_of (response_parts r)) \<le> MAX_FRAME_BYTES"
  shows "message E RESPONSE (frame_of (response_parts r)) = Ok ()"
proof -
  have ok: "message E RESPONSE frame = Ok () \<longleftrightarrow> (\<exists>s. validate_n (Suc (Suc (Suc 17))) E RESPONSE frame 0 = Ok s)" for frame
    by (simp add: message_def validate_def VALIDATE_FUEL_def numeral_eq_Suc)
  have vs: "variants_ok (md_fields RESPONSE)" by (simp add: variants_ok_def sync_fields variant_def)
  have "choice_ok E (validate_n (Suc (Suc 17)) E) msg 0 (md_fields RESPONSE) (fst (response_parts r))
      (enc_records (snd (response_parts r)))" for msg
    using response_body [OF assms, of 17] response_number [of r] by (intro response_choice) simp_all
  then show ?thesis
    unfolding ok using assms(2) by (subst oneof_table [OF _ _ _ _ vs]) (auto simp: frame_of_def)
qed

section \<open>Responses survive the wire\<close>

fun encode_response :: "response \<Rightarrow> bytes" where
  "encode_response (RespHead h) = head_response h"
| "encode_response (RespEvents p) = events_response (ep_events p) (ep_head_seq p) (ep_more p)"
| "encode_response (RespAccepted a) = accepted_response a"
| "encode_response (RespLedgers p) = ledgers_response (map summary_entry (pg_items p)) (pg_more p)"
| "encode_response (RespForks p) = forks_response (map fork_entry (pg_items p)) (pg_more p)"
| "encode_response RespNotFound = not_found_response"
| "encode_response (RespRejected r) = rejected_response r"

lemma entries_short:
  "summary_ok s \<Longrightarrow> length (summary_entry s) < 2 ^ 64" "fork_ok E f \<Longrightarrow> length (fork_entry f) < 2 ^ 64"
proof -
  show "length (summary_entry s) < 2 ^ 64" if "summary_ok s"
    using summary_length [OF that] by (simp add: summary_entry_eq [OF that] frame_defs)
  show "length (fork_entry f) < 2 ^ 64" if "fork_ok E f"
    using fork_length [OF that] that fork_entry_eq [of E f] by (simp add: fork_ok_def frame_defs size_defs)
qed

lemma response_short:
  assumes "response_ok E r"
  shows "length (enc_records (snd (response_parts r))) < 2 ^ 64"
proof (cases "fst (response_parts r) \<in> {2, 4, 5}")
  case False
  then show ?thesis using response_small(2) [OF assms False] by simp
next
  case True
  have rep: "length (enc_records (f_repeated 1 es)) \<le> 8400 * length es" if "\<forall>e\<in>set es. length e \<le> 8320" for es
    using that
  proof (induction es)
    case (Cons e es)
    then have "length (enc_record (1, VBytes e)) \<le> 3 + length e" using enc_bytes_length [of 1 e 2] by simp
    then show ?case using Cons by (simp add: f_repeated_def)
  qed (simp add: f_repeated_def)
  note v = f_varint_short(1)
  show ?thesis
  proof (cases r)
    case (RespEvents p)
    then have "\<forall>e\<in>set (ep_events p). length e \<le> 8320" "length (ep_events p) \<le> 512"
      using assms signed_event_length [of E] by (fastforce simp: list_all_iff size_defs frame_defs)+
    then show ?thesis
      using rep [of "ep_events p"] RespEvents v [of 2 "ep_head_seq p"] v [of 3 "flag_of (ep_more p)"] by simp
  next
    case (RespLedgers p)
    then have "\<forall>e\<in>set (map summary_entry (pg_items p)). length e \<le> 8320" "length (pg_items p) \<le> 256"
      using assms summary_length by (fastforce simp: list_all_iff frame_defs summary_entry_eq)+
    then show ?thesis
      using rep [of "map summary_entry (pg_items p)"] RespLedgers v [of 2 "flag_of (pg_more p)"] by simp
  next
    case (RespForks p)
    then have "\<forall>e\<in>set (map fork_entry (pg_items p)). length e \<le> 8320" "length (pg_items p) \<le> 64"
      using assms fork_length fork_entry_eq by (fastforce simp: list_all_iff frame_defs size_defs fork_ok_def)+
    then show ?thesis
      using rep [of "map fork_entry (pg_items p)"] RespForks v [of 2 "flag_of (pg_more p)"] by simp
  qed (use True in simp_all)
qed

lemma encode_response_eq:
  assumes "response_ok E r"
  shows "encode_response r = frame_of (response_parts r)"
proof -
  have "encode_response r = envelope (fst (response_parts r)) (enc_records (snd (response_parts r)))"
  proof (cases r)
    case (RespEvents p)
    then have "list_all (\<lambda>b. length b < 2 ^ 64) (ep_events p)" using assms signed_events_short [of E "ep_events p"] by simp
    then show ?thesis using RespEvents by (simp add: events_response_def put_messages_eq put_uint_eq put_flag_of)
  next
    case (RespLedgers p)
    then have "list_all (\<lambda>b. length b < 2 ^ 64) (map summary_entry (pg_items p))"
      using assms entries_short(1) by (simp add: list_all_iff)
    from put_messages_eq [OF _ this, of 1] show ?thesis using RespLedgers by (simp add: ledgers_response_def put_flag_of)
  next
    case (RespForks p)
    then have "list_all (\<lambda>b. length b < 2 ^ 64) (map fork_entry (pg_items p))"
      using assms entries_short(2) [of E] by (simp add: list_all_iff)
    from put_messages_eq [OF _ this, of 1] show ?thesis using RespForks by (simp add: forks_response_def put_flag_of)
  next
    case (RespRejected x)
    then show ?thesis using assms by (simp add: rejected_response_def put_uint_eq put_bytes_eq frame_defs)
  qed (use assms in \<open>simp_all add: head_response_def accepted_response_def not_found_response_def put_uint_eq put_bytes_eq\<close>)
  moreover have "fst (response_parts r) < 2 ^ 29" by (cases r) simp_all
  ultimately show ?thesis by (simp only: envelope_eq response_short [OF assms] frame_of_def)
qed

lemma response_parts_small:
  assumes "response_ok E r"
  shows "list_all small_record (snd (response_parts r))"
    and "list_all small_record [(fst (response_parts r), VBytes (enc_records (snd (response_parts r))))]"
proof -
  have "list_all (\<lambda>b. length b < 2 ^ 64) (map summary_entry ss)" if "list_all summary_ok ss" for ss
    using that entries_short(1) by (simp add: list_all_iff)
  moreover have "list_all (\<lambda>b. length b < 2 ^ 64) (map fork_entry fs)" if "list_all (fork_ok E) fs" for fs
    using that entries_short(2) [of E] by (simp add: list_all_iff)
  ultimately show "list_all small_record (snd (response_parts r))"
    using assms signed_events_short [of E] by (cases r) (simp_all add: small_record_iffs frame_defs)
  show "list_all small_record [(fst (response_parts r), VBytes (enc_records (snd (response_parts r))))]"
    using response_short [OF assms] response_number [of r] by (auto simp: small_record_iffs)
qed

lemma try_map_all: "(\<And>x. x \<in> set xs \<Longrightarrow> f (g x) = Ok x) \<Longrightarrow> try_map f (map g xs) = Ok xs"
  by (induction xs) auto

lemma response_of_parts:
  assumes "response_ok E r"
  shows "response_of E (fst (response_parts r)) (snd (response_parts r)) = Ok r"
proof (cases r)
  case (RespHead h)
  then show ?thesis using assms by (auto simp: response_of_def Let_def)
next
  case (RespLedgers p)
  then have "try_map (\<lambda>e. ok_or (read_summary e) m) (map summary_entry (pg_items p)) = Ok (pg_items p)" for m :: net_error
    using assms by (intro try_map_all) (simp add: list_all_iff read_summary_entry)
  then show ?thesis using RespLedgers by (simp add: response_of_def Let_def read_flag_def)
next
  case (RespForks p)
  then have "try_map (\<lambda>e. ok_or (read_fork E e) m) (map fork_entry (pg_items p)) = Ok (pg_items p)" for m :: net_error
    using assms by (intro try_map_all) (simp add: list_all_iff fork_ok_def read_fork_entry)
  then show ?thesis using RespForks by (simp add: response_of_def Let_def read_flag_def)
next
  case (RespRejected x)
  have "unat (ucast (of_nat (reject_code_number c) :: u64) :: u32) = reject_code_number c" for c
    by (cases c) simp_all
  moreover have "(of_nat (reject_code_number c) :: u64) \<noteq> 0" if "c \<noteq> RejectUnspecified" for c
    using that by (cases c) simp_all
  ultimately show ?thesis
    using RespRejected assms by (auto simp: response_of_def Let_def read_text_def)
qed (simp_all add: response_of_def Let_def read_flag_def)

lemma parse_encoded_response:
  assumes "response_ok E r" and "length (encode_response r) \<le> MAX_FRAME_BYTES"
  shows "parse_response E (encode_response r) = Ok r"
proof -
  note frame = encode_response_eq [OF assms(1)]
  have "message E RESPONSE (frame_of (response_parts r)) = Ok ()"
    using assms by (intro response_accepted) (simp_all add: frame)
  then show ?thesis
    unfolding parse_response_def frame frame_of_def read_fields_of [OF response_parts_small(2) [OF assms(1)]]
    using read_fields_of [OF response_parts_small(1) [OF assms(1)]] response_of_parts [OF assms(1)] by simp
qed

end
