(* ===== verification/Sync_Total.thy ===== *)
theory Sync_Total
  imports Sync_Frames Validate_Total
begin

text \<open>
  The validator answers on every frame of the sync protocol: the tables of a request
  and of a response reach the tables of the core crate at depth 0, through detached
  events, and the fuel covers both.
\<close>

fun sub_total :: "validator \<Rightarrow> nat \<Rightarrow> field_kind \<Rightarrow> bool" where
  "sub_total V d (KNested D _) = (\<forall>b. V D b (d + 1) \<noteq> Panic)"
| "sub_total V d (KMessage D) = (\<forall>b. V D b (d + 1) \<noteq> Panic)"
| "sub_total V d (KDetached D) = (\<forall>b. V D b 0 \<noteq> Panic)"
| "sub_total V d _ = True"

lemma check_bytes_total:
  assumes "wire_kind_of (fd_kind f) = WLen" and "sub_total V d (fd_kind f)"
  shows "check_bytes E V f msg b d \<noteq> Panic"
proof -
  have rule: "check_string E r msg n t \<noteq> Panic" for r n t
    by (cases r) (auto simp: check_string_def check_display_name_not_Panic check_hostname_not_Panic
        check_email_not_Panic)
  have len: "check_length f msg b mx \<noteq> Panic" for mx by (simp add: check_length_def)
  show ?thesis
    using assms rule len by (cases "fd_kind f") (auto simp: check_bytes_def split: option.splits)
qed

lemma scan_loop_total:
  assumes "\<forall>f\<in>set (md_fields D). sub_total V d (fd_kind f)"
  shows "scan_loop E V D d pre l bs \<noteq> Panic"
proof (induction "length bs" arbitrary: pre l bs rule: less_induct)
  case less
  have val: "read_value E V D f d bs' \<noteq> Panic" if "md_field D k = Some f" for f k bs'
    using that md_field_number [OF that] assms check_bytes_total [of f V d E "md_name D"]
      check_varint_not_Panic [of f "md_name D"]
    by (auto simp: read_value_def split: wire_kind.splits)
  have rec: "scan_loop E V D d pre' l' bs2 \<noteq> Panic"
    if "read_varint (md_name D) bs = Ok (key, bs1)" "read_value E V D f d bs1 = Ok (v, bs2)"
    for key bs1 f v bs2 pre' l'
    using less read_varint_shorter [OF that(1)] read_value_shorter [OF that(2)] by simp
  show ?case
    using val rec by (subst scan_loop.simps) (auto simp: Let_def)
qed

lemma plain_total:
  assumes "\<forall>f\<in>set (md_fields D). sub_total (validate_n n E) d (fd_kind f)" and "md_check D = None"
  shows "validate_n (Suc n) E D bs d \<noteq> Panic"
  unfolding validate_n.simps(2)
  using scan_loop_total [OF assms(1), of E "[]" 0 bs] assms(2) by (auto simp: scan_def run_check_def)

lemma detached_total: "16 \<le> n \<Longrightarrow> validate_n n E SIGNED_EVENT b 0 \<noteq> Panic"
  by (rule validate_n_not_Panic) (simp_all add: CORE_TABLE_def)

lemmas sync_kinds = sync_kind_defs field_defs repeated_def K_EVENT_def

lemma request_total: "message E REQUEST frame \<noteq> Panic"
proof -
  have sub: "validate_n (Suc 18) E D b 1 \<noteq> Panic" if "D \<in> {HEAD_REQ, GET_REQ, PUSH_REQ, LIST_REQ, FORKS_REQ}" for D b
    using that detached_total [of 18 E] by (intro plain_total) (auto simp: sync_fields sync_kinds)
  have "validate_n (Suc (Suc 18)) E REQUEST frame 0 \<noteq> Panic"
    using sub by (intro plain_total) (simp_all add: sync_fields variant_def del: validate_n.simps)
  then show ?thesis by (auto simp: message_def validate_def VALIDATE_FUEL_def numeral_eq_Suc)
qed

lemma response_total: "message E RESPONSE frame \<noteq> Panic"
proof -
  have entry: "validate_n (Suc 17) E D b d \<noteq> Panic" if "D \<in> {LEDGER_SUMMARY, FORK_RECORD}" for D b d
    using that detached_total [of 17 E] by (intro plain_total) (auto simp: sync_fields sync_kinds)
  have sub: "validate_n (Suc (Suc 17)) E D b 1 \<noteq> Panic"
    if "D \<in> {HEAD_RESP, EVENTS_RESP, ACCEPTED_RESP, LEDGERS_RESP, FORKS_RESP, NOT_FOUND_RESP, REJECTED_RESP}" for D b
    using that detached_total [of "Suc 17" E] entry
    by (intro plain_total) (auto simp: sync_fields sync_kinds simp del: validate_n.simps)
  have "validate_n (Suc (Suc (Suc 17))) E RESPONSE frame 0 \<noteq> Panic"
    using sub by (intro plain_total) (simp_all add: sync_fields variant_def del: validate_n.simps)
  then show ?thesis by (auto simp: message_def validate_def VALIDATE_FUEL_def numeral_eq_Suc)
qed

lemma parse_request_total: "parse_request E T frame \<noteq> Panic"
  using request_total [of E frame]
  by (auto simp: parse_request_def request_of_def Let_def split: outcome.splits option.splits)

lemma try_ok_or_total: "try_map (\<lambda>x. ok_or (f x) e) xs \<noteq> Panic"
  by (induction xs) auto

lemma parse_response_total: "parse_response E frame \<noteq> Panic"
  using response_total [of E frame]
  by (cases "message E RESPONSE frame")
    (auto simp: parse_response_def response_of_def Let_def try_ok_or_total split: option.splits)

text \<open>What the reader refuses a request with can be sent.\<close>

lemma ok_or_eq_Err: "ok_or x e = Err d \<longleftrightarrow> x = None \<and> d = e"
  by (cases x) auto

lemma ascii_utf8: "is_ascii s \<Longrightarrow> is_utf8 s"
  using ascii_chars by (simp add: is_utf8_def)

end
