(* ===== verification/Sync_Server.thy ===== *)
theory Sync_Server
  imports Sync_Responses Sync_Total Stateful
begin

text \<open>
  The sync server (\<open>crates/mabel-net/src/server.rs\<close>) over the store it is given
  (the trait \<open>Store\<close> of \<open>store.rs\<close>). A store is a record of its methods, each a
  function on the store's state. A semaphore is the number of its permits that are
  taken when it is asked. A connection is the list of the streams the peer opens on it,
  each with what arrived on it. The sections after the model show, for any store that
  keeps the contract of the trait, that every answer is a frame the client's parser
  accepts and what it means.
\<close>

section \<open>Stores\<close>

record 's sync_store =
  so_head :: "ledger_id \<Rightarrow> 's \<Rightarrow> (store_error, net_head option, 's) run"
  so_read_from :: "ledger_id \<Rightarrow> u64 \<Rightarrow> nat \<Rightarrow> 's \<Rightarrow> (store_error, event_page option, 's) run"
  so_push :: "ledger_id \<Rightarrow> bytes list \<Rightarrow> provenance \<Rightarrow> 's \<Rightarrow> (store_error, push_outcome, 's) run"
  so_list :: "nat \<Rightarrow> nat \<Rightarrow> 's \<Rightarrow> (store_error, ledger_summary page, 's) run"
  so_forks :: "ledger_id option \<Rightarrow> nat \<Rightarrow> nat \<Rightarrow> 's \<Rightarrow> (store_error, fork_record page, 's) run"

section \<open>The server\<close>

definition MAX_CONNECTIONS :: nat where "MAX_CONNECTIONS = 32"
definition MAX_REQUESTS_PER_CONNECTION :: nat where "MAX_REQUESTS_PER_CONNECTION = 64"
definition MAX_CONCURRENT_VERIFICATIONS :: nat where "MAX_CONCURRENT_VERIFICATIONS = 8"

record server_config =
  sv_max_connections :: nat
  sv_max_requests :: nat
  sv_max_verifications :: nat
  sv_max_frame_bytes :: nat
  sv_budget_bytes :: nat

definition default_config :: server_config where
  "default_config = \<lparr>sv_max_connections = MAX_CONNECTIONS, sv_max_requests = MAX_REQUESTS_PER_CONNECTION,
     sv_max_verifications = MAX_CONCURRENT_VERIFICATIONS, sv_max_frame_bytes = MAX_FRAME_BYTES,
     sv_budget_bytes = RESPONSE_BUDGET_BYTES\<rparr>"

definition clamp :: "u32 \<Rightarrow> nat \<Rightarrow> nat" where
  "clamp limit mx = (if limit = 0 then mx else min (unat limit) mx)"

fun dispatch :: "server_config \<Rightarrow> 's sync_store \<Rightarrow> request \<Rightarrow> provenance \<Rightarrow> 's \<Rightarrow> (store_error, bytes, 's) run" where
  "dispatch cfg st (ReqHead l) prov s =
     then_do (so_head st l s) (\<lambda>found s.
     (Ok (case found of Some h \<Rightarrow> head_response h | None \<Rightarrow> not_found_response), s))"
| "dispatch cfg st (ReqGet l since limit) prov s =
     then_do (so_read_from st l since (clamp limit MAX_GET_LIMIT) s) (\<lambda>found s.
     case found of
       None \<Rightarrow> (Ok not_found_response, s)
     | Some page \<Rightarrow>
         let (events, truncated) = fill_budget (ep_events page) 1 (sv_budget_bytes cfg) (\<lambda>event. event) in
         (Ok (events_response events (ep_head_seq page) (ep_more page \<or> truncated)), s))"
| "dispatch cfg st (ReqPush l events) prov s =
     then_do (so_push st l events prov s) (\<lambda>outc s. (Ok (accepted_response outc), s))"
| "dispatch cfg st (ReqList offset limit) prov s =
     then_do (so_list st (unat offset) (clamp limit MAX_LIST_LIMIT) s) (\<lambda>page s.
     let (entries, truncated) = fill_budget (pg_items page) 1 (sv_budget_bytes cfg) summary_entry in
     (Ok (ledgers_response entries (pg_more page \<or> truncated)), s))"
| "dispatch cfg st (ReqForks l offset limit) prov s =
     then_do (so_forks st l (unat offset) (clamp limit MAX_FORKS_LIMIT) s) (\<lambda>page s.
     let (entries, truncated) = fill_budget (pg_items page) 1 (sv_budget_bytes cfg) fork_entry in
     (Ok (forks_response entries (pg_more page \<or> truncated)), s))"

type_synonym 's answered = "(unit, bytes, 's) run"

definition answer :: "server_config \<Rightarrow> 's sync_store \<Rightarrow> request \<Rightarrow> provenance \<Rightarrow> 's \<Rightarrow> 's answered" where
  "answer cfg st request prov s =
     (case dispatch cfg st request prov s of
        (Ok frame, s) \<Rightarrow> (Ok frame, s)
      | (Err (StoreRejected rejection), s) \<Rightarrow> (Ok (rejected_response rejection), s)
      | (Err (Unavailable reason), s) \<Rightarrow>
          (Ok (rejected_response (rejection_new Busy (lit ''the store cannot answer right now''))), s)
      | (Panic, s) \<Rightarrow> (Panic, s))"

text \<open>\<open>taken\<close> is the number of verification permits in use.\<close>

definition handle_frame :: "env \<Rightarrow> (wire_error \<Rightarrow> bytes) \<Rightarrow> server_config \<Rightarrow> 's sync_store \<Rightarrow> nat \<Rightarrow> bytes
    \<Rightarrow> provenance \<Rightarrow> 's \<Rightarrow> 's answered" where
  "handle_frame E T cfg st taken frame prov s =
     (if sv_max_verifications cfg \<le> taken
      then (Ok (rejected_response (rejection_new Busy (lit ''the verification queue is full, retry''))), s)
      else case parse_request E T frame of
          Ok request \<Rightarrow> answer cfg st request prov s
        | Err rejection \<Rightarrow> (Ok (rejected_response rejection), s)
        | Panic \<Rightarrow> (Panic, s))"

text \<open>What a stream of the peer brings: the bytes up to its end, or none when it failed before it.\<close>

definition serve_stream :: "env \<Rightarrow> (wire_error \<Rightarrow> bytes) \<Rightarrow> server_config \<Rightarrow> 's sync_store \<Rightarrow> nat \<Rightarrow> bytes option
    \<Rightarrow> provenance \<Rightarrow> 's \<Rightarrow> (unit, bytes option, 's) run" where
  "serve_stream E T cfg st taken arrived prov s =
     (case arrived of
        None \<Rightarrow> (Ok None, s)
      | Some frame \<Rightarrow>
          if length frame > sv_max_frame_bytes cfg
          then (Ok (Some (rejected_response (rejection_new TooLarge (lit ''the request frame is over the 4 MiB cap'')))), s)
          else then_do (handle_frame E T cfg st taken frame prov s) (\<lambda>response s. (Ok (Some response), s)))"

text \<open>The clock moves from one stream to the next, and the store reads it.\<close>

record peer_stream =
  pr_arrived :: "bytes option"
  pr_taken :: nat
  pr_writable :: bool
  pr_now :: u64

datatype close_reason = PeerGone | ConnectionLimit | RequestLimit

fun accept_loop :: "env \<Rightarrow> (wire_error \<Rightarrow> bytes) \<Rightarrow> server_config \<Rightarrow> (u64 \<Rightarrow> 's sync_store) \<Rightarrow> provenance \<Rightarrow> nat \<Rightarrow> peer_stream list
    \<Rightarrow> 's \<Rightarrow> (unit, bytes list \<times> close_reason, 's) run" where
  "accept_loop E T cfg st prov served [] s =
     (Ok ([], if served < sv_max_requests cfg then PeerGone else RequestLimit), s)"
| "accept_loop E T cfg st prov served (stream # streams) s =
     (if \<not> served < sv_max_requests cfg then (Ok ([], RequestLimit), s)
      else
        then_do (serve_stream E T cfg (st (pr_now stream)) (pr_taken stream) (pr_arrived stream) prov s) (\<lambda>response s.
        case response of
          None \<Rightarrow> accept_loop E T cfg st prov (Suc served) streams s
        | Some frame \<Rightarrow>
            if \<not> pr_writable stream then (Ok ([], PeerGone), s)
            else
              then_do (accept_loop E T cfg st prov (Suc served) streams s) (\<lambda>(frames, reason) s.
              (Ok (frame # frames, reason), s))))"

text \<open>\<open>connected\<close> is the number of connections being served.\<close>

definition accept :: "env \<Rightarrow> (wire_error \<Rightarrow> bytes) \<Rightarrow> server_config \<Rightarrow> (u64 \<Rightarrow> 's sync_store) \<Rightarrow> nat \<Rightarrow> endpoint_id \<Rightarrow> peer_stream list
    \<Rightarrow> 's \<Rightarrow> (unit, bytes list \<times> close_reason, 's) run" where
  "accept E T cfg st connected remote streams s =
     (if sv_max_connections cfg \<le> connected then (Ok ([], ConnectionLimit), s)
      else accept_loop E T cfg st (Some remote) 0 streams s)"

section \<open>Filling a page\<close>

definition cost :: "bytes list \<Rightarrow> nat" where
  "cost es = sum_list (map (entry_len 1) es)"

lemma fill_loop_spec:
  "\<exists>k \<le> length items. fill_loop encode 1 budget used out items
      = (out @ map encode (take k items), k < length items)
    \<and> (used + cost (map encode (take k items)) \<le> max budget used
        \<or> out = [] \<and> k = 1 \<and> budget < used + cost (map encode (take k items)))
    \<and> (items \<noteq> [] \<and> out = [] \<longrightarrow> 0 < k)
    \<and> (k < length items \<longrightarrow> budget < used + cost (map encode (take (Suc k) items)))"
proof (induction items arbitrary: used out)
  case Nil
  then show ?case by (simp add: cost_def)
next
  case (Cons item items)
  let ?body = "encode item" and ?c = "entry_len 1 (encode item)"
  show ?case
  proof (cases "used + ?c > budget \<and> out \<noteq> []")
    case True
    then show ?thesis by (intro exI [of _ 0]) (simp add: cost_def)
  next
    case False
    from Cons.IH [of "used + ?c" "out @ [?body]"] obtain k where k: "k \<le> length items"
      "fill_loop encode 1 budget (used + ?c) (out @ [?body]) items
        = ((out @ [?body]) @ map encode (take k items), k < length items)"
      "used + ?c + cost (map encode (take k items)) \<le> max budget (used + ?c)"
      "k < length items \<longrightarrow> budget < used + ?c + cost (map encode (take (Suc k) items))" by auto
    have step: "fill_loop encode 1 budget used out (item # items) = fill_loop encode 1 budget (used + ?c) (out @ [?body]) items"
      using False by (cases "out = []") (auto simp: Let_def)
    have total: "used + cost (map encode (take (Suc k) (item # items))) = used + ?c + cost (map encode (take k items))"
      by (simp add: cost_def)
    show ?thesis
    proof (intro exI [of _ "Suc k"] conjI)
      show "used + cost (map encode (take (Suc k) (item # items))) \<le> max budget used
        \<or> out = [] \<and> Suc k = 1 \<and> budget < used + cost (map encode (take (Suc k) (item # items)))"
      proof (cases "used + ?c \<le> budget")
        case True
        then show ?thesis using k(3) total by simp
      next
        case over: False
        then have "out = []" using False by auto
        moreover have "cost (map encode (take k items)) = 0" using k(3) over by simp
        moreover have "k = 0"
        proof (rule ccontr)
          assume "k \<noteq> 0"
          then obtain x where "take k items \<noteq> []" "x \<in> set (take k items)"
            using k(1) by (cases "take k items") auto
          then have "entry_len 1 (encode x) \<le> cost (map encode (take k items))"
            unfolding cost_def by (intro member_le_sum_list) auto
          moreover have "0 < entry_len 1 (encode x)" unfolding entry_len_def by (simp add: varint_len.simps)
          ultimately show False using \<open>cost (map encode (take k items)) = 0\<close> by simp
        qed
        ultimately show ?thesis using over total by simp
      qed
      show "Suc k < length (item # items) \<longrightarrow> budget < used + cost (map encode (take (Suc (Suc k)) (item # items)))"
        using k(4) by (simp add: cost_def add.assoc)
    qed (use k step in simp_all)
  qed
qed

lemma filled:
  assumes "fill_budget items 1 budget encode = (out, truncated)"
  obtains k where "k \<le> length items" and "out = map encode (take k items)" and "truncated \<longleftrightarrow> k < length items"
    and "cost out \<le> budget \<or> length out = 1" and "items \<noteq> [] \<longrightarrow> 0 < k"
    and "k < length items \<longrightarrow> budget < cost (map encode (take (Suc k) items))"
proof -
  from fill_loop_spec [of items encode budget 0 "[]"] obtain k where k: "k \<le> length items"
    "fill_budget items 1 budget encode = (map encode (take k items), k < length items)"
    "cost (map encode (take k items)) \<le> budget \<or> k = 1" "items \<noteq> [] \<longrightarrow> 0 < k"
    "k < length items \<longrightarrow> budget < cost (map encode (take (Suc k) items))"
    by (auto simp: fill_budget_def)
  show thesis
  proof (rule that [OF k(1)])
    show "cost out \<le> budget \<or> length out = 1" using k assms by auto
  qed (use k assms in auto)
qed

section \<open>Frames that fit\<close>

fun entries_of :: "response \<Rightarrow> bytes list" where
  "entries_of (RespEvents p) = ep_events p"
| "entries_of (RespLedgers p) = map summary_entry (pg_items p)"
| "entries_of (RespForks p) = map fork_entry (pg_items p)"
| "entries_of _ = []"

lemma entries_length:
  assumes "response_ok E r" and "e \<in> set (entries_of r)"
  shows "length e \<le> 2 * MAX_EVENT_BYTES + SMALL_REQUEST_BYTES"
  using assms signed_event_length [of E] summary_length fork_length [of E] fork_entry_eq [of E]
  by (cases r) (fastforce simp: list_all_iff frame_defs size_defs fork_ok_def summary_entry_eq)+

lemma cost_eq:
  "\<forall>e\<in>set es. length e < 2 ^ 64 \<Longrightarrow> length (enc_records (f_repeated 1 es)) = cost es"
  by (induction es) (simp_all add: cost_def f_repeated_def entry_len_eq)

lemma frame_overhead: "k < 15 \<Longrightarrow> length b < 2 ^ 64 \<Longrightarrow> length (enc_records [(k, VBytes b)]) \<le> 11 + length b"
  using enc_bytes_length [of k b 10] by simp

lemma response_size:
  assumes "response_ok E r"
  shows "length (encode_response r) \<le> cost (entries_of r) + 500"
proof -
  have short: "\<forall>e\<in>set (entries_of r). length e < 2 ^ 64"
    using entries_length [OF assms] by (fastforce simp: frame_defs size_defs)
  note rep = cost_eq [OF short] and v = f_varint_short(1)
  have "length (enc_records (snd (response_parts r))) \<le> cost (entries_of r) + 450"
  proof (cases "fst (response_parts r) \<in> {2, 4, 5}")
    case True
    then show ?thesis
    proof (cases r)
      case (RespEvents p)
      then show ?thesis using rep v [of 2 "ep_head_seq p"] v [of 3 "flag_of (ep_more p)"] by simp
    next
      case (RespLedgers p)
      then show ?thesis using rep v [of 2 "flag_of (pg_more p)"] by simp
    next
      case (RespForks p)
      then show ?thesis using rep v [of 2 "flag_of (pg_more p)"] by simp
    qed simp_all
  next
    case False
    then show ?thesis using response_small(2) [OF assms False] by simp
  qed
  moreover have "fst (response_parts r) < 15" by (cases r) simp_all
  ultimately show ?thesis
    using frame_overhead [OF _ response_short [OF assms]] by (fastforce simp: encode_response_eq [OF assms] frame_of_def)
qed

text \<open>An answer as the client has to see it.\<close>

definition sendable :: "env \<Rightarrow> response \<Rightarrow> bool" where
  "sendable E r \<longleftrightarrow> response_ok E r \<and> (cost (entries_of r) \<le> RESPONSE_BUDGET_BYTES \<or> length (entries_of r) = 1)"

lemma sendable_fits:
  assumes "sendable E r"
  shows "length (encode_response r) \<le> MAX_FRAME_BYTES"
proof -
  have ok: "response_ok E r" using assms by (simp add: sendable_def)
  have "cost (entries_of r) \<le> RESPONSE_BUDGET_BYTES + 20000"
  proof (cases "length (entries_of r) = 1")
    case True
    then obtain e where e: "entries_of r = [e]" by (auto simp: length_Suc_conv)
    then have len: "length e \<le> 9000" using entries_length [OF ok, of e] by (simp add: frame_defs size_defs)
    then have "cost (entries_of r) \<le> 11 + length e"
      using frame_overhead [of 1 e] by (simp add: e cost_def entry_len_eq)
    then show ?thesis using len by simp
  qed (use assms in \<open>simp add: sendable_def\<close>)
  then show ?thesis using response_size [OF ok] by (simp add: frame_defs RESPONSE_BUDGET_BYTES_def)
qed

lemma sendable_parses: "sendable E r \<Longrightarrow> parse_response E (encode_response r) = Ok r"
  using parse_encoded_response sendable_fits unfolding sendable_def by blast

text \<open>A frame of the server that carries an answer.\<close>

definition answers :: "env \<Rightarrow> bytes \<Rightarrow> bool" where
  "answers E frame \<longleftrightarrow> (\<exists>r. sendable E r \<and> frame = encode_response r)"

lemma answers_I: "sendable E r \<Longrightarrow> answers E (encode_response r)"
  by (auto simp: answers_def)

lemma plain_sendable:
  "sendable E RespNotFound" "sendable E (RespAccepted a)"
  "length (nh_head_event h) = 32 \<Longrightarrow> nh_updated_ms h \<le> MAX_TIMESTAMP_MS \<Longrightarrow> sendable E (RespHead h)"
  by (simp_all add: sendable_def cost_def)

definition rejection_ok :: "rejection \<Rightarrow> bool" where
  "rejection_ok r \<longleftrightarrow> rj_code r \<noteq> RejectUnspecified \<and> is_utf8 (rj_msg r)"

lemma rejected_clip: "rejected_response r = encode_response (RespRejected (r\<lparr>rj_msg := clip (rj_msg r)\<rparr>))"
  using clip_length [of "rj_msg r"] by (simp add: rejected_response_def)

lemma rejected_sendable: "rejection_ok r \<Longrightarrow> sendable E (RespRejected (r\<lparr>rj_msg := clip (rj_msg r)\<rparr>))"
  by (simp add: sendable_def rejection_ok_def clip_utf8 clip_length cost_def)

lemma rejected_answers: "rejection_ok r \<Longrightarrow> answers E (rejected_response r)"
  unfolding rejected_clip by (intro answers_I rejected_sendable)

lemma rejection_new_ok: "code \<noteq> RejectUnspecified \<Longrightarrow> is_ascii (lit msg) \<Longrightarrow> rejection_ok (rejection_new code (lit msg))"
  by (simp add: rejection_ok_def rejection_new_def ascii_utf8)

lemma parse_refusal:
  assumes "\<forall>e. is_utf8 (T e)" and "parse_request E T frame = Err r"
  shows "rejection_ok r"
proof -
  have code: "reject_code_of frame e \<noteq> RejectUnspecified" for e
    by (simp add: reject_code_of_def split: wire_error.split)
  have texts: "rejection_ok (malformed ''Request is not readable'')"
    "rejection_ok (malformed ''Request.kind names no variant'')"
    "rejection_ok (malformed ''Request.kind is not readable'')"
    "rejection_ok (malformed ''Request.kind is missing a required field'')"
    "rejection_ok (rejection_new Unsupported (lit ''unrecognised Request.kind variant''))"
    unfolding malformed_def by (rule rejection_new_ok; simp add: is_ascii_def lit_def)+
  have new: "rejection_ok (rejection_new (reject_code_of frame e) (T e))" for e
    using code assms(1) by (simp add: rejection_ok_def rejection_new_def)
  show ?thesis
    using assms(2) texts new unfolding parse_request_def request_of_def Let_def
    by (auto simp: obind_eq_Err ok_or_eq_Err split: outcome.splits option.splits if_splits)
qed

lemma clamp_le: "clamp limit mx \<le> mx"
  by (simp add: clamp_def)

lemma clamp_pos: "0 < mx \<Longrightarrow> 0 < clamp limit mx"
  by (simp add: clamp_def unat_gt_0)

section \<open>The contract of a store\<close>

text \<open>
  What the documentation of the trait asks of an implementation: a read changes no
  ledger and returns the run it names, a push only appends, a page keeps the limit it
  is given and what it names can be told to a peer. \<open>chain s l\<close> is what the store holds
  of \<open>l\<close>; the store reads the clock, which is before the last timestamp the protocol
  carries.
\<close>

locale store_contract =
  fixes E :: env and st :: "u64 \<Rightarrow> 's sync_store" and inv :: "'s \<Rightarrow> bool" and chain :: "'s \<Rightarrow> ledger_id \<Rightarrow> bytes list"
  assumes chain_events: "inv s \<Longrightarrow> ev \<in> set (chain s l) \<Longrightarrow> signed_event E ev = Ok ()"
    and chain_countable: "inv s \<Longrightarrow> length (chain s l) \<le> 2 ^ 63"
    and head_law: "inv s \<Longrightarrow> now \<le> MAX_TIMESTAMP_MS \<Longrightarrow>
      \<exists>h s'. so_head (st now) l s = (Ok h, s') \<and> inv s' \<and> chain s' = chain s \<and> (h = None \<longleftrightarrow> chain s l = [])
        \<and> (\<forall>x. h = Some x \<longrightarrow> nh_head_seq x = of_nat (length (chain s l) - 1)
             \<and> length (nh_head_event x) = 32 \<and> nh_updated_ms x \<le> MAX_TIMESTAMP_MS)"
    and read_law: "inv s \<Longrightarrow> now \<le> MAX_TIMESTAMP_MS \<Longrightarrow> 0 < limit \<Longrightarrow>
      \<exists>s'. so_read_from (st now) l since limit s =
          (Ok (if chain s l = [] then None
               else Some \<lparr>ep_events = take limit (drop (unat since) (chain s l)),
                 ep_head_seq = of_nat (length (chain s l) - 1),
                 ep_more = (unat since + limit < length (chain s l))\<rparr>), s')
        \<and> inv s' \<and> chain s' = chain s"
    and push_law: "inv s \<Longrightarrow> now \<le> MAX_TIMESTAMP_MS \<Longrightarrow> request_ok E (ReqPush l events) \<Longrightarrow> endpoint_ok E prov \<Longrightarrow>
      \<exists>r s'. so_push (st now) l events prov s = (r, s') \<and> inv s' \<and> r \<noteq> Panic
        \<and> (\<forall>x. r = Err (StoreRejected x) \<longrightarrow> rejection_ok x)
        \<and> (\<exists>new. chain s' = (chain s)(l := chain s l @ new))"
    and list_law: "inv s \<Longrightarrow> now \<le> MAX_TIMESTAMP_MS \<Longrightarrow>
      \<exists>p s'. so_list (st now) offset limit s = (Ok p, s') \<and> inv s' \<and> chain s' = chain s
        \<and> length (pg_items p) \<le> limit \<and> list_all summary_ok (pg_items p)"
    and forks_law: "inv s \<Longrightarrow> now \<le> MAX_TIMESTAMP_MS \<Longrightarrow>
      \<exists>p s'. so_forks (st now) wanted offset limit s = (Ok p, s') \<and> inv s' \<and> chain s' = chain s
        \<and> length (pg_items p) \<le> limit \<and> list_all (fork_ok E) (pg_items p)"
begin

lemma get_dispatch:
  assumes "inv s" and "now \<le> MAX_TIMESTAMP_MS" and "chain s l \<noteq> []"
  obtains k s' where "dispatch default_config (st now) (ReqGet l since limit) prov s
      = (Ok (encode_response (RespEvents \<lparr>ep_events = take k (drop (unat since) (chain s l)),
          ep_head_seq = of_nat (length (chain s l) - 1), ep_more = (unat since + k < length (chain s l))\<rparr>)), s')"
    and "sendable E (RespEvents \<lparr>ep_events = take k (drop (unat since) (chain s l)),
          ep_head_seq = of_nat (length (chain s l) - 1), ep_more = (unat since + k < length (chain s l))\<rparr>)"
    and "unat since < length (chain s l) \<longrightarrow> 0 < k" and "inv s'" and "chain s' = chain s"
    and "unat since + k < length (chain s l) \<longrightarrow> clamp limit MAX_GET_LIMIT \<le> k
          \<or> RESPONSE_BUDGET_BYTES < cost (take (Suc k) (drop (unat since) (chain s l)))"
proof -
  let ?n = "clamp limit MAX_GET_LIMIT" and ?c = "chain s l"
  let ?page = "take ?n (drop (unat since) ?c)"
  have n: "0 < ?n" "?n \<le> MAX_GET_LIMIT" by (simp_all add: clamp_le clamp_pos frame_defs)
  from read_law [OF assms(1,2) n(1), of l since] assms(3) obtain s' where
    s': "so_read_from (st now) l since ?n s = (Ok (Some \<lparr>ep_events = ?page, ep_head_seq = of_nat (length ?c - 1),
        ep_more = (unat since + ?n < length ?c)\<rparr>), s')" "inv s'" "chain s' = chain s" by auto
  obtain out truncated where fill: "fill_budget ?page 1 RESPONSE_BUDGET_BYTES (\<lambda>event. event) = (out, truncated)"
    by (cases "fill_budget ?page 1 RESPONSE_BUDGET_BYTES (\<lambda>event. event)")
  from fill obtain j where j: "j \<le> length ?page" "out = take j ?page" "truncated \<longleftrightarrow> j < length ?page"
    "cost out \<le> RESPONSE_BUDGET_BYTES \<or> length out = 1" "?page \<noteq> [] \<longrightarrow> 0 < j"
    "j < length ?page \<longrightarrow> RESPONSE_BUDGET_BYTES < cost (take (Suc j) ?page)" by (elim filled) simp
  define k where "k = (if unat since < length ?c then j else ?n)"
  have out: "out = take k (drop (unat since) ?c)" using j(1,2) by (auto simp: k_def)
  have more: "(unat since + ?n < length ?c \<or> truncated) \<longleftrightarrow> unat since + k < length ?c"
    using j(1,3) by (auto simp: k_def)
  have valid: "list_all (\<lambda>e. signed_event E e = Ok ()) out" "length out \<le> MAX_GET_LIMIT"
    using chain_events [OF assms(1)] j n(2) by (auto simp: list_all_iff dest!: in_set_takeD in_set_dropD)
  show thesis
  proof (rule that)
    show "dispatch default_config (st now) (ReqGet l since limit) prov s
      = (Ok (encode_response (RespEvents \<lparr>ep_events = take k (drop (unat since) (chain s l)),
          ep_head_seq = of_nat (length (chain s l) - 1), ep_more = (unat since + k < length (chain s l))\<rparr>)), s')"
      using fill out more s'(1) by (simp add: default_config_def)
    show "unat since < length (chain s l) \<longrightarrow> 0 < k" using j(5) n(1) by (auto simp: k_def)
    show "unat since + k < length (chain s l) \<longrightarrow> ?n \<le> k
        \<or> RESPONSE_BUDGET_BYTES < cost (take (Suc k) (drop (unat since) (chain s l)))"
    proof (intro impI)
      assume "unat since + k < length (chain s l)"
      then have "unat since + j < length ?c" "k = j" by (auto simp: k_def split: if_splits)
      then show "?n \<le> k \<or> RESPONSE_BUDGET_BYTES < cost (take (Suc k) (drop (unat since) (chain s l)))"
        using j(6) by (cases "?n \<le> j") (auto simp: min_absorb1)
    qed
  qed (use s' valid j(4) out in \<open>simp_all add: sendable_def\<close>)
qed

lemma page_dispatch:
  assumes "fill_budget items 1 RESPONSE_BUDGET_BYTES encode = (out, truncated)"
    and "entries_of r = out" and "\<And>k. out = map encode (take k items) \<Longrightarrow> k \<le> length items \<Longrightarrow> response_ok E r"
  shows "sendable E r"
  using assms(1) by (elim filled) (use assms(2,3) in \<open>auto simp: sendable_def\<close>)

lemma dispatch_answers:
  assumes "inv s" and "now \<le> MAX_TIMESTAMP_MS" and "request_ok E req" and "endpoint_ok E prov"
  shows "\<exists>r s'. dispatch default_config (st now) req prov s = (r, s') \<and> inv s' \<and> r \<noteq> Panic
    \<and> (\<forall>frame. r = Ok frame \<longrightarrow> answers E frame) \<and> (\<forall>x. r = Err (StoreRejected x) \<longrightarrow> rejection_ok x)
    \<and> (\<exists>l new. chain s' = (chain s)(l := chain s l @ new) \<and> (new = [] \<or> (\<exists>es. req = ReqPush l es)))"
    (is "\<exists>r s'. ?goal r s'")
proof -
  have same: "\<exists>l new. c = c(l := c l @ new) \<and> (new = [] \<or> P l)" for c :: "ledger_id \<Rightarrow> bytes list" and P
    by (intro exI [of _ "[]"]) auto
  show ?thesis
  proof (cases req)
    case (ReqHead l)
    from head_law [OF assms(1,2), of l] obtain h s' where h: "so_head (st now) l s = (Ok h, s')" "inv s'" "chain s' = chain s"
      "\<forall>x. h = Some x \<longrightarrow> length (nh_head_event x) = 32 \<and> nh_updated_ms x \<le> MAX_TIMESTAMP_MS" by blast
    then have "answers E (case h of Some h \<Rightarrow> head_response h | None \<Rightarrow> not_found_response)"
      using answers_I [OF plain_sendable(3)] answers_I [OF plain_sendable(1)] by (auto split: option.split)
    then show ?thesis using h(1-3) same [of "chain s"] ReqHead by auto
  next
    case (ReqGet l since limit)
    show ?thesis
    proof (cases "chain s l = []")
      case True
      then obtain s' where "so_read_from (st now) l since (clamp limit MAX_GET_LIMIT) s = (Ok None, s')" "inv s'" "chain s' = chain s"
        using read_law [OF assms(1,2), of "clamp limit MAX_GET_LIMIT" l since] by (auto simp: clamp_pos frame_defs)
      then show ?thesis using ReqGet same [of "chain s"] answers_I [OF plain_sendable(1)] by auto
    next
      case False
      from get_dispatch [OF assms(1,2) False, of since limit prov] obtain r s' where
        "dispatch default_config (st now) req prov s = (Ok (encode_response r), s')" "sendable E r" "inv s'" "chain s' = chain s"
        using ReqGet by metis
      then show ?thesis using ReqGet same [of "chain s"] answers_I [of E r] by auto
    qed
  next
    case (ReqPush l es)
    from push_law [OF assms(1,2) _ assms(4), of l es] assms(3) ReqPush obtain r s' where
      r: "so_push (st now) l es prov s = (r, s')" "inv s'" "r \<noteq> Panic" "\<forall>x. r = Err (StoreRejected x) \<longrightarrow> rejection_ok x"
      "\<exists>new. chain s' = (chain s)(l := chain s l @ new)" by blast
    have "answers E (accepted_response a)" for a using answers_I [OF plain_sendable(2) [of E a]] by simp
    then show ?thesis using r ReqPush by (cases r) auto
  next
    case (ReqList offset limit)
    from list_law [OF assms(1,2), of "unat offset" "clamp limit MAX_LIST_LIMIT"] obtain p s' where
      p: "so_list (st now) (unat offset) (clamp limit MAX_LIST_LIMIT) s = (Ok p, s')" "inv s'" "chain s' = chain s"
      "length (pg_items p) \<le> MAX_LIST_LIMIT" "list_all summary_ok (pg_items p)"
      using clamp_le [of limit MAX_LIST_LIMIT] by fastforce
    obtain out truncated where fill: "fill_budget (pg_items p) 1 RESPONSE_BUDGET_BYTES summary_entry = (out, truncated)"
      by (cases "fill_budget (pg_items p) 1 RESPONSE_BUDGET_BYTES summary_entry")
    from fill obtain k where k: "out = map summary_entry (take k (pg_items p))"
      "cost out \<le> RESPONSE_BUDGET_BYTES \<or> length out = 1" by (elim filled)
    then have "sendable E (RespLedgers \<lparr>pg_items = take k (pg_items p), pg_more = m\<rparr>)" for m
      using p(4,5) by (auto simp: sendable_def list_all_iff dest: in_set_takeD)
    from answers_I [OF this] show ?thesis using p(1-3) fill k(1) ReqList same [of "chain s"] by (auto simp: default_config_def)
  next
    case (ReqForks wanted offset limit)
    from forks_law [OF assms(1,2), of wanted "unat offset" "clamp limit MAX_FORKS_LIMIT"] obtain p s' where
      p: "so_forks (st now) wanted (unat offset) (clamp limit MAX_FORKS_LIMIT) s = (Ok p, s')" "inv s'" "chain s' = chain s"
      "length (pg_items p) \<le> MAX_FORKS_LIMIT" "list_all (fork_ok E) (pg_items p)"
      using clamp_le [of limit MAX_FORKS_LIMIT] by fastforce
    obtain out truncated where fill: "fill_budget (pg_items p) 1 RESPONSE_BUDGET_BYTES fork_entry = (out, truncated)"
      by (cases "fill_budget (pg_items p) 1 RESPONSE_BUDGET_BYTES fork_entry")
    from fill obtain k where k: "out = map fork_entry (take k (pg_items p))"
      "cost out \<le> RESPONSE_BUDGET_BYTES \<or> length out = 1" by (elim filled)
    then have "sendable E (RespForks \<lparr>pg_items = take k (pg_items p), pg_more = m\<rparr>)" for m
      using p(4,5) by (auto simp: sendable_def list_all_iff dest: in_set_takeD)
    from answers_I [OF this] show ?thesis using p(1-3) fill k(1) ReqForks same [of "chain s"] by (auto simp: default_config_def)
  qed
qed

lemma frame_answers:
  assumes "inv s" and "now \<le> MAX_TIMESTAMP_MS" and "endpoint_ok E prov" and "\<forall>e. is_utf8 (T e)"
  shows "\<exists>response s'. handle_frame E T default_config (st now) taken frame prov s = (Ok response, s') \<and> inv s'
    \<and> answers E response \<and> (\<forall>l. \<exists>new. chain s' l = chain s l @ new)"
proof -
  have busy: "answers E (rejected_response (rejection_new Busy (lit ''the verification queue is full, retry'')))"
    "answers E (rejected_response (rejection_new Busy (lit ''the store cannot answer right now'')))"
    by (rule rejected_answers, rule rejection_new_ok; simp add: is_ascii_def lit_def)+
  show ?thesis
  proof (cases "parse_request E T frame")
    case (Ok req)
    then have "request_ok E req" by (simp add: parse_request_iff)
    from dispatch_answers [OF assms(1,2) this assms(3)] obtain r s' where
      r: "dispatch default_config (st now) req prov s = (r, s')" "inv s'" "r \<noteq> Panic"
      "\<forall>frame. r = Ok frame \<longrightarrow> answers E frame" "\<forall>x. r = Err (StoreRejected x) \<longrightarrow> rejection_ok x"
      "\<exists>l new. chain s' = (chain s)(l := chain s l @ new)" by blast
    have grown: "\<exists>new. chain s' l = chain s l @ new" for l using r(6) by auto
    have "\<exists>response. answer default_config (st now) req prov s = (Ok response, s') \<and> answers E response"
      using r(1,3-5) busy(2) rejected_answers by (auto simp: answer_def split: outcome.split store_error.split)
    then show ?thesis using Ok busy(1) assms(1) r(2) grown by (auto simp: handle_frame_def)
  next
    case (Err x)
    then show ?thesis
      using busy(1) assms(1) rejected_answers [OF parse_refusal [OF assms(4) Err]] by (auto simp: handle_frame_def)
  qed (simp add: parse_request_total)
qed

lemma stream_answers:
  assumes "inv s" and "now \<le> MAX_TIMESTAMP_MS" and "endpoint_ok E prov" and "\<forall>e. is_utf8 (T e)"
  shows "\<exists>response s'. serve_stream E T default_config (st now) taken arrived prov s = (Ok response, s') \<and> inv s'
    \<and> (\<forall>frame. response = Some frame \<longrightarrow> answers E frame) \<and> (\<forall>l. \<exists>new. chain s' l = chain s l @ new)"
proof (cases arrived)
  case (Some frame)
  have large: "answers E (rejected_response (rejection_new TooLarge (lit ''the request frame is over the 4 MiB cap'')))"
    by (rule rejected_answers, rule rejection_new_ok; simp add: is_ascii_def lit_def)
  from frame_answers [OF assms, of taken frame] show ?thesis
    using Some large assms(1) by (auto simp: serve_stream_def)
qed (use assms(1) in \<open>simp add: serve_stream_def\<close>)

lemma loop_answers:
  assumes "endpoint_ok E prov" and "\<forall>e. is_utf8 (T e)"
  shows "inv s \<Longrightarrow> \<forall>stream\<in>set streams. pr_now stream \<le> MAX_TIMESTAMP_MS \<Longrightarrow>
    \<exists>frames reason s'. accept_loop E T default_config st prov served streams s = (Ok (frames, reason), s') \<and> inv s'
      \<and> list_all (answers E) frames \<and> length frames \<le> sv_max_requests default_config - served
      \<and> (\<forall>l. \<exists>new. chain s' l = chain s l @ new)"
proof (induction streams arbitrary: s served)
  case (Cons stream streams)
  show ?case
  proof (cases "served < sv_max_requests default_config")
    case True
    from stream_answers [OF Cons.prems(1) _ assms, of "pr_now stream" "pr_taken stream" "pr_arrived stream"] Cons.prems(2)
    obtain response s1 where s1: "serve_stream E T default_config (st (pr_now stream)) (pr_taken stream) (pr_arrived stream) prov s
        = (Ok response, s1)" "inv s1" "\<forall>frame. response = Some frame \<longrightarrow> answers E frame"
      "\<forall>l. \<exists>new. chain s1 l = chain s l @ new" by auto
    from Cons.IH [OF s1(2), of "Suc served"] Cons.prems(2) obtain frames reason s2 where
      s2: "accept_loop E T default_config st prov (Suc served) streams s1 = (Ok (frames, reason), s2)" "inv s2"
      "list_all (answers E) frames" "length frames \<le> sv_max_requests default_config - Suc served"
      "\<forall>l. \<exists>new. chain s2 l = chain s1 l @ new" by auto
    have "\<forall>l. \<exists>new. chain s2 l = chain s l @ new" using s1(4) s2(5) by (metis append.assoc)
    then show ?thesis using True s1 s2 by (cases response) auto
  qed (use Cons.prems(1) in auto)
qed auto

end

end
