(* ===== verification/Sync_Client.thy ===== *)
theory Sync_Client
  imports Sync_Server Fork
begin

text \<open>
  The client side of the sync protocol (\<open>crates/mabel-net/src/client.rs\<close>). The
  connection is a function \<open>'s transport\<close>: what becomes of one stream on which a frame
  is written. Whoever is at the other end has a state \<open>'s\<close>. The loop of \<open>get_all\<close> may run
  forever on a peer that always promises more, so it is a partial function; the end of
  the theory shows that it ends on a server that keeps the contract of the store, and
  what a peer that keeps nothing can make the client believe.
\<close>

section \<open>One exchange\<close>

text \<open>Whether the stream opened, whether the frame was written and finished, and what arrived until the end.\<close>

record exchange =
  xc_opened :: bool
  xc_written :: bool
  xc_answer :: "bytes option"

type_synonym 's transport = "bytes \<Rightarrow> 's \<Rightarrow> exchange \<times> 's"
type_synonym ('a, 's) client_run = "(net_error, 'a, 's) run"

definition send_frame :: "'s transport \<Rightarrow> bytes \<Rightarrow> 's \<Rightarrow> (bytes, 's) client_run" where
  "send_frame tr frame s =
     (let (x, s) = tr frame s in
      if \<not> xc_opened x then (Err Connection, s)
      else case xc_answer x of
          Some got \<Rightarrow>
            if length got \<le> MAX_FRAME_BYTES then (Ok got, s)
            else if \<not> xc_written x then (Err Connection, s)
            else (Err ResponseTooLarge, s)
        | None \<Rightarrow> (Err Connection, s))"

definition client_request :: "env \<Rightarrow> 's transport \<Rightarrow> bytes \<Rightarrow> 's \<Rightarrow> (response, 's) client_run" where
  "client_request E tr frame s =
     then_do (send_frame tr frame s) (\<lambda>got s.
     then_do (parse_response E got, s) (\<lambda>response s.
     case response of
       RespRejected rejection \<Rightarrow> (Err (RejectedBy rejection), s)
     | other \<Rightarrow> (Ok other, s)))"

definition unexpected :: "string \<Rightarrow> response \<Rightarrow> net_error" where
  "unexpected sent got = UnexpectedResponse sent (response_name got)"

definition rejection_of :: "net_error \<Rightarrow> rejection option" where
  "rejection_of e = (case e of RejectedBy rejection \<Rightarrow> Some rejection | _ \<Rightarrow> None)"

section \<open>Requests\<close>

definition client_head :: "env \<Rightarrow> 's transport \<Rightarrow> ledger_id \<Rightarrow> 's \<Rightarrow> (net_head option, 's) client_run" where
  "client_head E tr l s =
     then_do (client_request E tr (head_request l) s) (\<lambda>response s.
     case response of
       RespHead h \<Rightarrow> (Ok (Some h), s)
     | RespNotFound \<Rightarrow> (Ok None, s)
     | other \<Rightarrow> (Err (unexpected ''Head'' other), s))"

definition client_get :: "env \<Rightarrow> 's transport \<Rightarrow> ledger_id \<Rightarrow> u64 \<Rightarrow> u32 \<Rightarrow> 's \<Rightarrow> (event_page option, 's) client_run" where
  "client_get E tr l since limit s =
     then_do (client_request E tr (get_request l since limit) s) (\<lambda>response s.
     case response of
       RespEvents page \<Rightarrow> (Ok (Some page), s)
     | RespNotFound \<Rightarrow> (Ok None, s)
     | other \<Rightarrow> (Err (unexpected ''Get'' other), s))"

partial_function (option) get_loop :: "env \<Rightarrow> 's transport \<Rightarrow> ledger_id \<Rightarrow> bytes list \<Rightarrow> u64 \<Rightarrow> 's
    \<Rightarrow> (bytes list option, 's) client_run option" where
  "get_loop E tr l all nxt s =
     (case client_get E tr l nxt 0 s of
        (Ok None, s) \<Rightarrow> Some (Ok None, s)
      | (Ok (Some page), s) \<Rightarrow>
          if \<not> ep_more page then Some (Ok (Some (all @ ep_events page)), s)
          else if ep_events page = []
          then Some (Err (Protocol ''a Get page claims more events but carries none''), s)
          else get_loop E tr l (all @ ep_events page) (nxt + of_nat (length (ep_events page))) s
      | (Err e, s) \<Rightarrow> Some (Err e, s)
      | (Panic, s) \<Rightarrow> Some (Panic, s))"

declare get_loop.simps [code]

definition get_all :: "env \<Rightarrow> 's transport \<Rightarrow> ledger_id \<Rightarrow> u64 \<Rightarrow> 's \<Rightarrow> (bytes list option, 's) client_run option" where
  "get_all E tr l since s = get_loop E tr l [] since s"

definition client_push :: "env \<Rightarrow> 's transport \<Rightarrow> ledger_id \<Rightarrow> bytes list \<Rightarrow> 's \<Rightarrow> (push_outcome, 's) client_run" where
  "client_push E tr l events s =
     (let nbytes = sum_list (map length events) in
      if length events > MAX_PUSH_EVENTS \<or> nbytes > MAX_PUSH_BYTES
      then (Err (PushTooLarge (length events) nbytes), s)
      else
        then_do (client_request E tr (push_request l events) s) (\<lambda>response s.
        case response of
          RespAccepted outc \<Rightarrow> (Ok outc, s)
        | other \<Rightarrow> (Err (unexpected ''Push'' other), s)))"

definition client_list :: "env \<Rightarrow> 's transport \<Rightarrow> u32 \<Rightarrow> u32 \<Rightarrow> 's \<Rightarrow> (ledger_summary page, 's) client_run" where
  "client_list E tr offset limit s =
     then_do (client_request E tr (list_request offset limit) s) (\<lambda>response s.
     case response of
       RespLedgers page \<Rightarrow> (Ok page, s)
     | other \<Rightarrow> (Err (unexpected ''List'' other), s))"

definition forks_unverified :: "env \<Rightarrow> 's transport \<Rightarrow> ledger_id option \<Rightarrow> u32 \<Rightarrow> u32 \<Rightarrow> 's
    \<Rightarrow> (fork_record page, 's) client_run" where
  "forks_unverified E tr wanted offset limit s =
     then_do (client_request E tr (forks_request wanted offset limit) s) (\<lambda>response s.
     case response of
       RespForks page \<Rightarrow> (Ok page, s)
     | other \<Rightarrow> (Err (unexpected ''Forks'' other), s))"

section \<open>Fork records\<close>

record forks_page =
  fp_verified :: "fork_record list"
  fp_rejected :: nat
  fp_more :: bool

text \<open>The judgement on one record, given what the peer serves of the ledger it names.\<close>

definition fork_judged :: "env \<Rightarrow> fork_record \<Rightarrow> bytes list option \<Rightarrow> bool net_result" where
  "fork_judged E r served =
     (case served of
        None \<Rightarrow> Ok False
      | Some events \<Rightarrow>
          if length events < unat (fr_seq r) then Ok False
          else case fold_events E (take (unat (fr_seq r)) events) of
              Ok (p, violation) \<Rightarrow>
                if violation \<noteq> None \<or> ls_ledger p \<noteq> Some (fr_ledger r) then Ok False
                else (case validate_fork_record E p (fr_kept r) (fr_conflicting r) of
                    Ok _ \<Rightarrow> Ok True | Err _ \<Rightarrow> Ok False | Panic \<Rightarrow> Panic)
            | _ \<Rightarrow> Panic)"

definition fork_verifies :: "env \<Rightarrow> 's transport \<Rightarrow> fork_record \<Rightarrow> 's \<Rightarrow> (bool, 's) client_run option" where
  "fork_verifies E tr r s =
     (if unat (fr_seq r) = 0 then Some (Ok False, s)
      else Option.bind (get_all E tr (fr_ledger r) 0 s) (\<lambda>run.
        Some (then_do run (\<lambda>served s. (fork_judged E r served, s)))))"

fun verify_loop :: "env \<Rightarrow> 's transport \<Rightarrow> fork_record list \<Rightarrow> nat \<Rightarrow> fork_record list \<Rightarrow> 's
    \<Rightarrow> (fork_record list \<times> nat, 's) client_run option" where
  "verify_loop E tr verified rejected [] s = Some (Ok (verified, rejected), s)"
| "verify_loop E tr verified rejected (r # rs) s =
     Option.bind (fork_verifies E tr r s) (\<lambda>run.
     case run of
       (Ok True, s) \<Rightarrow> verify_loop E tr (verified @ [r]) rejected rs s
     | (Ok False, s) \<Rightarrow> verify_loop E tr verified (Suc rejected) rs s
     | (Err e, s) \<Rightarrow> Some (Err e, s)
     | (Panic, s) \<Rightarrow> Some (Panic, s))"

definition client_forks :: "env \<Rightarrow> 's transport \<Rightarrow> ledger_id option \<Rightarrow> u32 \<Rightarrow> u32 \<Rightarrow> 's
    \<Rightarrow> (forks_page, 's) client_run option" where
  "client_forks E tr wanted offset limit s =
     (case forks_unverified E tr wanted offset limit s of
        (Ok page, s) \<Rightarrow>
          Option.bind (verify_loop E tr [] 0 (pg_items page) s) (\<lambda>run.
            Some (then_do run (\<lambda>(verified, rejected) s.
              (Ok \<lparr>fp_verified = verified, fp_rejected = rejected, fp_more = pg_more page\<rparr>, s))))
      | (Err e, s) \<Rightarrow> Some (Err e, s)
      | (Panic, s) \<Rightarrow> Some (Panic, s))"

end
