(* ===== verification/Sync_Download.thy ===== *)
theory Sync_Download
  imports Sync_Client
begin

text \<open>
  A client connected to a server. Whatever the peer is, the fork records the client
  hands on are evidence. When the peer is a server over a store that keeps its contract,
  the pages of a download add up to what the store holds, before the server's limit on
  the requests of one connection is reached.
\<close>

section \<open>Verified fork records\<close>

definition evidence :: "env \<Rightarrow> fork_record \<Rightarrow> bool" where
  "evidence E r \<longleftrightarrow> (\<exists>evs p fk. length evs = unat (fr_seq r) \<and> evs \<noteq> [] \<and> fold_events E evs = Ok (p, None)
     \<and> ls_ledger p = Some (fr_ledger r) \<and> validate_fork_record E p (fr_kept r) (fr_conflicting r) = Ok fk)"

lemma verifies_evidence:
  assumes "fork_verifies E tr r s = Some (Ok True, s')"
  shows "evidence E r"
proof -
  from assms obtain run where n: "unat (fr_seq r) \<noteq> 0" and
    "then_do run (\<lambda>served s. (fork_judged E r served, s)) = (Ok True, s')"
    by (auto simp: fork_verifies_def bind_eq_Some_conv split: if_splits)
  then obtain served where "fork_judged E r served = Ok True" by (auto simp: then_do_Ok)
  then obtain events p fk where "unat (fr_seq r) \<le> length events"
    "fold_events E (take (unat (fr_seq r)) events) = Ok (p, None)" "ls_ledger p = Some (fr_ledger r)"
    "validate_fork_record E p (fr_kept r) (fr_conflicting r) = Ok fk"
    by (auto simp: fork_judged_def not_less split: option.splits if_splits outcome.splits)
  then show ?thesis
    unfolding evidence_def using n by (intro exI [of _ "take (unat (fr_seq r)) events"]) auto
qed

lemma verify_loop_split:
  assumes "verify_loop E tr verified rejected rs s = Some (Ok (verified', rejected'), s')"
  shows "\<exists>new. verified' = verified @ new \<and> set new \<subseteq> set rs \<and> list_all (evidence E) new
     \<and> rejected' + length new = rejected + length rs"
  using assms
proof (induction rs arbitrary: verified rejected s)
  case (Cons r rs)
  from Cons.prems obtain run where run: "fork_verifies E tr r s = Some run"
    by (auto simp: bind_eq_Some_conv)
  with Cons.prems obtain b s1 where b: "fork_verifies E tr r s = Some (Ok b, s1)"
    by (cases run; cases "fst run") auto
  show ?case
  proof (cases b)
    case True
    then have "verify_loop E tr (verified @ [r]) rejected rs s1 = Some (Ok (verified', rejected'), s')"
      using Cons.prems b by simp
    from Cons.IH [OF this] obtain new where "verified' = verified @ r # new" "set new \<subseteq> set rs"
      "list_all (evidence E) new" "rejected' + length new = rejected + length rs" by auto
    then show ?thesis using verifies_evidence b True by (intro exI [of _ "r # new"]) auto
  next
    case False
    then have "verify_loop E tr verified (Suc rejected) rs s1 = Some (Ok (verified', rejected'), s')"
      using Cons.prems b by simp
    from Cons.IH [OF this] show ?thesis by auto
  qed
qed auto

lemma forks_evidence:
  assumes "client_forks E tr wanted offset limit s = Some (Ok page, s')" and "r \<in> set (fp_verified page)"
  shows "evidence E r"
proof -
  obtain r0 s1 where first: "forks_unverified E tr wanted offset limit s = (r0, s1)" by fastforce
  with assms(1) obtain p where "r0 = Ok p" by (cases r0) (auto simp: client_forks_def)
  with assms(1) first obtain run where run: "verify_loop E tr [] 0 (pg_items p) s1 = Some run"
    "then_do run (\<lambda>(verified, rejected) s.
        (Ok \<lparr>fp_verified = verified, fp_rejected = rejected, fp_more = pg_more p\<rparr>, s)) = (Ok page, s')"
    by (auto simp: client_forks_def bind_eq_Some_conv simp del: split_paired_Ex)
  then obtain verified rejected where v: "fst run = Ok (verified, rejected)" "fp_verified page = verified"
    by (auto simp: then_do_Ok)
  then have "verify_loop E tr [] 0 (pg_items p) s1 = Some (Ok (verified, rejected), snd run)"
    using run(1) by (cases run) simp
  from verify_loop_split [OF this] v(2) assms(2) show ?thesis by (auto simp: list_all_iff)
qed

section \<open>A connection to a server\<close>

text \<open>
  What the client sees of the server's loop: the stream is served while the connection
  has requests left. \<open>clock\<close> and \<open>busy\<close> are the time and the verifications in progress
  when the server comes to the request with that number.
\<close>

definition dial :: "env \<Rightarrow> (wire_error \<Rightarrow> bytes) \<Rightarrow> server_config \<Rightarrow> (u64 \<Rightarrow> 's sync_store) \<Rightarrow> provenance
    \<Rightarrow> (nat \<Rightarrow> u64) \<Rightarrow> (nat \<Rightarrow> nat) \<Rightarrow> (nat \<times> 's) transport" where
  "dial E T cfg st prov clock busy frame c =
     (let (served, s) = c in
      if \<not> served < sv_max_requests cfg
      then (\<lparr>xc_opened = False, xc_written = False, xc_answer = None\<rparr>, (served, s))
      else
        let r = serve_stream E T cfg (st (clock served)) (busy served) (Some frame) prov s in
        (\<lparr>xc_opened = True, xc_written = True, xc_answer = (case fst r of Ok response \<Rightarrow> response | _ \<Rightarrow> None)\<rparr>,
         (Suc served, snd r)))"

text \<open>A request over the connection is one turn of the server's loop.\<close>

lemma dial_accept:
  assumes "dial E T cfg st prov clock busy frame (served, s) = (x, c)" and "xc_answer x = Some response"
  shows "accept_loop E T cfg st prov served
      (\<lparr>pr_arrived = Some frame, pr_taken = busy served, pr_writable = True, pr_now = clock served\<rparr> # streams) s
    = then_do (accept_loop E T cfg st prov (fst c) streams (snd c)) (\<lambda>(frames, reason) s. (Ok (response # frames, reason), s))"
  using assms
  by (cases "serve_stream E T cfg (st (clock served)) (busy served) (Some frame) prov s")
    (auto simp: dial_def split: if_splits outcome.splits)

lemma cost_append [simp]: "cost (xs @ ys) = cost xs + cost ys"
  by (simp add: cost_def)

lemma cost_split: "cost (drop n c) = cost (take k (drop n c)) + cost (drop (n + k) c)"
  by (metis append_take_drop_id cost_append drop_drop add.commute)

lemma cost_take_Suc:
  assumes "\<forall>e\<in>set c. length e \<le> 4096"
  shows "cost (take (Suc k) c) \<le> cost (take k c) + 4107"
proof (cases "k < length c")
  case True
  then have "length (c ! k) \<le> 4096" using assms by simp
  moreover from this have "length (enc_records [(1, VBytes (c ! k))]) \<le> 11 + length (c ! k)"
    by (intro frame_overhead) simp_all
  ultimately have "entry_len 1 (c ! k) \<le> 4107" by (simp add: entry_len_eq)
  then show ?thesis using True by (simp add: take_Suc_conv_app_nth cost_def)
qed simp

text \<open>
  The client counts the bytes of the events of a push, the server the bytes of the
  encoded request: a full push of full events passes the first count and never the second.
\<close>

lemma full_push_refused:
  assumes "length es = MAX_PUSH_EVENTS" and "\<forall>e\<in>set es. length e = MAX_EVENT_BYTES"
  shows "\<not> (length es > MAX_PUSH_EVENTS \<or> sum_list (map length es) > MAX_PUSH_BYTES)"
    and "\<not> request_ok E (ReqPush l es)"
proof -
  have sum: "sum_list (map length es) = MAX_PUSH_BYTES"
  proof -
    have "sum_list (map length xs) = MAX_EVENT_BYTES * length xs" if "\<forall>e\<in>set xs. length e = MAX_EVENT_BYTES" for xs :: "bytes list"
      using that by (induction xs) simp_all
    from this [OF assms(2)] show ?thesis using assms(1) by (simp add: frame_defs size_defs)
  qed
  then show "\<not> (length es > MAX_PUSH_EVENTS \<or> sum_list (map length es) > MAX_PUSH_BYTES)" using assms(1) by simp
  have more: "sum_list (map length xs) + length xs \<le> length (enc_records (f_repeated 2 xs))" for xs
    by (induction xs) (simp_all add: f_repeated_def varint_of.simps [of 18])
  show "\<not> request_ok E (ReqPush l es)"
    using more [of es] sum assms(1) by (simp add: frame_defs)
qed

text \<open>
  How many requests a download takes at most: a page that is not the last one has the
  most events a page may have, or nearly the bytes of a whole frame.
\<close>

definition PAGE_BYTES :: nat where
  "PAGE_BYTES = RESPONSE_BUDGET_BYTES - 4107"

definition pages :: "bytes list \<Rightarrow> nat" where
  "pages c = Suc (length c div MAX_GET_LIMIT + cost c div PAGE_BYTES)"

lemma div_step: "0 < (n :: nat) \<Longrightarrow> b + n \<le> a \<Longrightarrow> Suc (b div n) \<le> a div n"
  using div_le_mono [of "b + n" a n] by (simp add: div_add_self2)

lemma pages_step:
  assumes "\<forall>e\<in>set c. length e \<le> 4096" and "k \<le> length c"
    and "MAX_GET_LIMIT \<le> k \<or> RESPONSE_BUDGET_BYTES < cost (take (Suc k) c)"
  shows "Suc (pages (drop k c)) \<le> pages c"
proof -
  have split: "cost c = cost (take k c) + cost (drop k c)" using cost_split [of 0 c k] by simp
  from assms(3) show ?thesis
  proof (rule disjE)
    assume "MAX_GET_LIMIT \<le> k"
    then have "Suc ((length c - k) div MAX_GET_LIMIT) \<le> length c div MAX_GET_LIMIT"
      using assms(2) by (intro div_step) (simp_all add: frame_defs)
    moreover have "cost (drop k c) div PAGE_BYTES \<le> cost c div PAGE_BYTES" using split by (simp add: div_le_mono)
    ultimately show ?thesis by (simp add: pages_def)
  next
    assume "RESPONSE_BUDGET_BYTES < cost (take (Suc k) c)"
    then have "PAGE_BYTES \<le> cost (take k c)" using cost_take_Suc [OF assms(1), of k] by (simp add: PAGE_BYTES_def)
    then have "Suc (cost (drop k c) div PAGE_BYTES) \<le> cost c div PAGE_BYTES"
      using split by (intro div_step) (simp_all add: PAGE_BYTES_def RESPONSE_BUDGET_BYTES_def frame_defs)
    moreover have "(length c - k) div MAX_GET_LIMIT \<le> length c div MAX_GET_LIMIT" by (simp add: div_le_mono)
    ultimately show ?thesis by (simp add: pages_def)
  qed
qed

section \<open>Downloads\<close>

context store_contract
begin

lemma dial_request:
  assumes "served < sv_max_requests default_config" and "busy served < sv_max_verifications default_config"
    and "request_ok E req" and "dispatch default_config (st (clock served)) req prov s = (Ok (encode_response r), s')"
    and "sendable E r" and "\<forall>x. r \<noteq> RespRejected x"
  shows "client_request E (dial E T default_config st prov clock busy) (encode_request req) (served, s) = (Ok r, (Suc served, s'))"
proof -
  have parse: "parse_request E T (encode_request req) = Ok req" using assms(3) by (simp add: parse_request_iff)
  have fits: "length (encode_request req) \<le> MAX_FRAME_BYTES"
    using request_frame_length [OF assms(3)] by (simp add: encode_request_eq [OF assms(3)])
  have "handle_frame E T default_config (st (clock served)) (busy served) (encode_request req) prov s = (Ok (encode_response r), s')"
    using assms(2,4) parse by (simp add: handle_frame_def answer_def del: encode_request.simps encode_response.simps)
  then have "serve_stream E T default_config (st (clock served)) (busy served) (Some (encode_request req)) prov s
      = (Ok (Some (encode_response r)), s')"
    using fits by (simp add: serve_stream_def default_config_def del: encode_request.simps encode_response.simps)
  then have "send_frame (dial E T default_config st prov clock busy) (encode_request req) (served, s)
      = (Ok (encode_response r), (Suc served, s'))"
    using assms(1) sendable_fits [OF assms(5)]
    by (simp add: send_frame_def dial_def del: encode_request.simps encode_response.simps)
  then show ?thesis
    using sendable_parses [OF assms(5)] assms(6)
    by (cases r) (simp_all add: client_request_def del: encode_request.simps encode_response.simps)
qed

lemma get_page:
  assumes "inv s" and "clock served \<le> MAX_TIMESTAMP_MS" and "chain s l \<noteq> []" and "length l = 32"
    and "served < sv_max_requests default_config" and "busy served < sv_max_verifications default_config"
  obtains k s' where "client_get E (dial E T default_config st prov clock busy) l since 0 (served, s)
      = (Ok (Some \<lparr>ep_events = take k (drop (unat since) (chain s l)),
          ep_head_seq = of_nat (length (chain s l) - 1), ep_more = (unat since + k < length (chain s l))\<rparr>), (Suc served, s'))"
    and "unat since < length (chain s l) \<longrightarrow> 0 < k" and "inv s'" and "chain s' = chain s"
    and "unat since + k < length (chain s l) \<longrightarrow> MAX_GET_LIMIT \<le> k
          \<or> RESPONSE_BUDGET_BYTES < cost (take (Suc k) (drop (unat since) (chain s l)))"
proof -
  from get_dispatch [OF assms(1,2,3), of since 0 prov] obtain k s' where
    d: "dispatch default_config (st (clock served)) (ReqGet l since 0) prov s
      = (Ok (encode_response (RespEvents \<lparr>ep_events = take k (drop (unat since) (chain s l)),
          ep_head_seq = of_nat (length (chain s l) - 1), ep_more = (unat since + k < length (chain s l))\<rparr>)), s')"
    and send: "sendable E (RespEvents \<lparr>ep_events = take k (drop (unat since) (chain s l)),
          ep_head_seq = of_nat (length (chain s l) - 1), ep_more = (unat since + k < length (chain s l))\<rparr>)"
    and rest: "unat since < length (chain s l) \<longrightarrow> 0 < k" "inv s'" "chain s' = chain s"
      "unat since + k < length (chain s l) \<longrightarrow> clamp 0 MAX_GET_LIMIT \<le> k
          \<or> RESPONSE_BUDGET_BYTES < cost (take (Suc k) (drop (unat since) (chain s l)))" .
  have "request_ok E (ReqGet l since 0)" using assms(4) by simp
  from dial_request [where busy = busy and clock = clock, OF assms(5,6) this d send, of T] rest show thesis
    by (intro that [of k s']) (simp_all add: client_get_def clamp_def)
qed

lemma get_absent:
  assumes "inv s" and "clock served \<le> MAX_TIMESTAMP_MS" and "chain s l = []" and "length l = 32"
    and "served < sv_max_requests default_config" and "busy served < sv_max_verifications default_config"
  shows "\<exists>s'. get_loop E (dial E T default_config st prov clock busy) l all since (served, s) = Some (Ok None, (Suc served, s'))
    \<and> inv s' \<and> chain s' = chain s"
proof -
  have "0 < clamp 0 MAX_GET_LIMIT" by (simp add: clamp_def frame_defs)
  from read_law [OF assms(1,2) this, of l since] assms(3) obtain s' where
    s': "so_read_from (st (clock served)) l since (clamp 0 MAX_GET_LIMIT) s = (Ok None, s')" "inv s'" "chain s' = chain s" by auto
  then have d: "dispatch default_config (st (clock served)) (ReqGet l since 0) prov s = (Ok (encode_response RespNotFound), s')"
    by simp
  have "request_ok E (ReqGet l since 0)" using assms(4) by simp
  from dial_request [where busy = busy and clock = clock, OF assms(5,6) this d plain_sendable(1), of T] s' show ?thesis
    by (subst get_loop.simps) (simp add: client_get_def)
qed

lemma events_short:
  "inv s \<Longrightarrow> \<forall>e\<in>set (chain s l). length e \<le> 4096"
  using chain_events signed_event_length by (fastforce simp: size_defs)

lemma loop_downloads:
  assumes "length l = 32" and "\<forall>i. clock i \<le> MAX_TIMESTAMP_MS" and "\<forall>i. busy i < sv_max_verifications default_config"
  shows "inv s \<Longrightarrow> chain s l \<noteq> [] \<Longrightarrow>
    served + pages (drop (unat since) (chain s l)) \<le> sv_max_requests default_config \<Longrightarrow>
    \<exists>served' s'. get_loop E (dial E T default_config st prov clock busy) l all since (served, s)
      = Some (Ok (Some (all @ drop (unat since) (chain s l))), (served', s'))
      \<and> inv s' \<and> chain s' = chain s"
proof (induction "length (chain s l) - unat since" arbitrary: all since served s rule: less_induct)
  case less
  let ?c = "chain s l" and ?tr = "dial E T default_config st prov clock busy"
  have "served < sv_max_requests default_config" using less.prems(3) by (simp add: pages_def)
  from get_page [where clock = clock and busy = busy, OF less.prems(1) assms(2) [rule_format] less.prems(2) assms(1) this assms(3) [rule_format],
    of T prov since]
  obtain k s' where page: "client_get E ?tr l since 0 (served, s) = (Ok (Some \<lparr>ep_events = take k (drop (unat since) ?c),
          ep_head_seq = of_nat (length ?c - 1), ep_more = (unat since + k < length ?c)\<rparr>), (Suc served, s'))"
    and k: "unat since < length ?c \<longrightarrow> 0 < k" "inv s'" "chain s' = chain s"
    "unat since + k < length ?c \<longrightarrow> MAX_GET_LIMIT \<le> k \<or> RESPONSE_BUDGET_BYTES < cost (take (Suc k) (drop (unat since) ?c))" .
  show ?case
  proof (cases "unat since + k < length ?c")
    case False
    then have "take k (drop (unat since) ?c) = drop (unat since) ?c" by simp
    then show ?thesis using page False k by (subst get_loop.simps) auto
  next
    case True
    let ?next = "since + of_nat (length (take k (drop (unat since) ?c)))"
    have len: "length (take k (drop (unat since) ?c)) = k" "0 < k" using True k(1) by auto
    have nxt: "unat ?next = unat since + k"
      using True chain_countable [OF less.prems(1), of l] len unat_word_of_nat64 [of "unat since + k"] by simp
    have tail: "drop (unat ?next) ?c = drop k (drop (unat since) ?c)" unfolding nxt by (simp add: add.commute)
    have "Suc (pages (drop (unat ?next) ?c)) \<le> pages (drop (unat since) ?c)"
      unfolding tail using k(4) True events_short [OF less.prems(1), of l]
      by (intro pages_step) (auto dest: in_set_dropD)
    then have "Suc served + pages (drop (unat ?next) (chain s' l)) \<le> sv_max_requests default_config"
      using less.prems(3) k(3) by simp
    moreover have "length (chain s' l) - unat ?next < length ?c - unat since" using True len k(3) nxt by simp
    ultimately obtain served' s'' where
      "get_loop E ?tr l (all @ take k (drop (unat since) ?c)) ?next (Suc served, s')
        = Some (Ok (Some ((all @ take k (drop (unat since) ?c)) @ drop (unat ?next) (chain s' l))), (served', s''))"
      "inv s''" "chain s'' = chain s'"
      using less.hyps [of s' ?next "Suc served" "all @ take k (drop (unat since) ?c)"] k(2,3) less.prems(2) by auto
    moreover have "take k (drop (unat since) ?c) @ drop (unat ?next) ?c = drop (unat since) ?c"
      unfolding tail by (rule append_take_drop_id)
    ultimately show ?thesis
      using page True len k(3) by (subst get_loop.simps) auto
  qed
qed

end

end
