(* ===== verification/Node_Store.thy ===== *)
theory Node_Store
  imports Sync_Download Storage_Reach
begin

text \<open>
  The store the sync server of a node answers from (\<open>crates/mabel-node/src/store.rs\<close>):
  each method runs a method of the storage on a blocking task, and a task that dies is
  an answer that the store is unavailable. The storage keeps the contract of the trait
  \<open>Store\<close> as long as its clock stays before the last timestamp of the protocol.
\<close>

section \<open>The store\<close>

definition blocking :: "(store_error, 'a, 's) run \<Rightarrow> (store_error, 'a, 's) run" where
  "blocking r = (case fst r of Panic \<Rightarrow> (Err (Unavailable (lit ''the storage task did not finish'')), snd r) | _ \<Rightarrow> r)"

definition node_store :: "env \<Rightarrow> note_texts \<Rightarrow> u64 \<Rightarrow> ledger_storage sync_store" where
  "node_store E W now = \<lparr>
     so_head = (\<lambda>l S. blocking (let (h, S) = storage_head E now l S in (Ok h, S))),
     so_read_from = (\<lambda>l since limit S. blocking (run_map_err (unavailable W) (storage_read_from E now l since limit S))),
     so_push = (\<lambda>l events prov S. blocking (storage_push E W now l events prov S)),
     so_list = (\<lambda>offset limit S. blocking (Ok (storage_list offset limit S), S)),
     so_forks = (\<lambda>wanted offset limit S. blocking (Ok (storage_forks wanted offset limit S), S))\<rparr>"

lemma blocking_total [simp]: "fst r \<noteq> Panic \<Longrightarrow> blocking r = r"
  by (cases "fst r") (simp_all add: blocking_def)

section \<open>The clock\<close>

definition timely_entry :: "entry \<Rightarrow> bool" where
  "timely_entry e \<longleftrightarrow> en_first_seen_ms e \<le> MAX_TIMESTAMP_MS \<and> en_updated_ms e \<le> MAX_TIMESTAMP_MS
     \<and> list_all (\<lambda>r. fr_observed_ms r \<le> MAX_TIMESTAMP_MS) (en_forks e)"

definition timely :: "ledger_storage \<Rightarrow> bool" where
  "timely S \<longleftrightarrow> list_all (\<lambda>x. timely_entry (snd x)) (ix_ledgers (sg_index S))"

lemma timely_index: "sg_index S' = sg_index S \<Longrightarrow> timely S' \<longleftrightarrow> timely S"
  by (simp add: timely_def)

lemma timely_insert:
  "list_all (\<lambda>x. P (snd x)) m \<Longrightarrow> P e \<Longrightarrow> list_all (\<lambda>x. P (snd x)) (bt_insert l e m)"
  by (induction l e m rule: bt_insert.induct) auto

lemma timely_get: "timely S \<Longrightarrow> sg_entry S l = Some e \<Longrightarrow> timely_entry e"
  unfolding timely_def sg_entry_def bt_get_def by (auto simp: list_all_iff dest!: map_of_SomeD)

lemma build_batch_some: "build_batch E W q evs = Ok batch \<Longrightarrow> batch = [] \<longleftrightarrow> evs = []"
  by (cases evs) auto

lemma append_now:
  assumes "fst (ledger_append E l now batch f) = Ok (Some h)" and "batch \<noteq> []"
  shows "sh_updated_ms h = now"
  using assms by (auto simp: ledger_append_def write_events_def then_do_def Let_def split: outcome.splits if_splits)

lemma first_seen_now: "fst (note_first_seen prov now no_files) = \<lparr>lm_source_endpoint = prov, lm_first_seen_ms = now\<rparr>"
  by (simp add: note_first_seen_def no_files_def Let_def)

lemma store_run_timely:
  assumes "storage_inv E S" and "timely S" and "now \<le> MAX_TIMESTAMP_MS"
  shows "timely (snd (store_run E W now l s events prov S))"
proof (cases "events = []")
  case False
  let ?first = "if sg_entry S l = None
     then on_files l (\<lambda>f. let (m, f) = note_first_seen prov now f
          in (Ok (lm_first_seen_ms m, lm_source_endpoint m) :: (store_error, _) outcome, f)) S
     else (Ok (now, None), S)"
  have index: "sg_index (snd ?first) = sg_index S" by (simp add: on_files_sel)
  have seen: "first \<le> MAX_TIMESTAMP_MS" if "fst ?first = Ok (first, source)" for first source
  proof (cases "sg_entry S l")
    case None
    from assms(1) have "sg_files S l = no_files" by (cases rule: held_cases [where l = l]) (simp_all add: None)
    then show ?thesis using that None assms(3) first_seen_now [of prov now] by (auto simp: on_files_sel case_prod_beta Let_def)
  qed (use that assms(3) in simp)
  have kept: "timely (snd (on_files l op S'))" if "timely S'" for op :: "ledger_files \<Rightarrow> ('x, 'y, ledger_files) run" and S'
    using that by (simp add: timely_def on_files_sel)
  have entry: "timely (if w then recheck (S'\<lparr>sg_index := \<lparr>ix_ledgers = bt_insert l e (ix_ledgers (sg_index S')), ix_storage_used = u\<rparr>\<rparr>)
      else S'\<lparr>sg_index := \<lparr>ix_ledgers = bt_insert l e (ix_ledgers (sg_index S')), ix_storage_used = u\<rparr>\<rparr>)"
    if "timely S'" "timely_entry e" for S' e u w
    using that timely_insert [of timely_entry _ e l] by (simp add: timely_def)
  have written: "sh_updated_ms h = now"
    if "build_batch E W q events = Ok batch" "fst (on_files l (ledger_append E l now batch) S') = Ok (Some h)" for q batch S' h
    using that append_now [of E l now batch _ h] build_batch_some [OF that(1)] False by (simp add: on_files_sel)
  show ?thesis
    unfolding store_run_def Let_def if_not_P [OF False]
    apply (rule then_do_keeps, simp add: assms(2))
    apply (rule then_do_keeps, simp add: assms(2))
    apply (rule then_do_keeps)
    subgoal using index assms(2) by (auto simp: timely_def Let_def)
    subgoal for u S1 batch S2 fs S3
      apply (cases fs)
      apply (simp only: prod.case)
      apply (rule then_do_keeps, simp add: kept)
      apply (rule then_do_keeps, simp)
      apply (simp only: snd_conv)
      apply (rule entry, assumption)
      using seen written [of _ batch S3] timely_get [OF assms(2), of l] index assms(3)
      apply (auto simp: timely_entry_def on_files_sel sg_entry_def Let_def split: option.splits)
      done
    done
qed (use assms(2) in \<open>simp add: store_run_def\<close>)

lemma on_files_timely [simp]: "timely (snd (on_files l op S)) \<longleftrightarrow> timely S"
  by (simp add: timely_def on_files_sel)

lemma divergence_timely:
  assumes "timely S" and "now \<le> MAX_TIMESTAMP_MS"
  shows "timely (snd (record_divergence E W now l seq kept conflicting prov S))"
proof -
  have added: "timely ((snd (on_files l op S'))\<lparr>sg_index := (sg_index (snd (on_files l op S')))
      \<lparr>ix_ledgers := bt_insert l (e\<lparr>en_forks := sort_key k (en_forks e @ [r])\<rparr>) (ix_ledgers (sg_index (snd (on_files l op S'))))\<rparr>\<rparr>)"
    if "timely S'" "sg_entry S' l = Some e" "fr_observed_ms r = now"
    for op :: "ledger_files \<Rightarrow> (storage_error, unit, ledger_files) run" and S' e r and k :: "fork_record \<Rightarrow> u64 \<times> event_id option"
  proof -
    have "timely_entry (e\<lparr>en_forks := sort_key k (en_forks e @ [r])\<rparr>)"
      using timely_get [OF that(1,2)] that(3) assms(2) by (auto simp: timely_entry_def list_all_iff)
    then show ?thesis using that(1) timely_insert [of timely_entry] by (simp add: timely_def on_files_sel)
  qed
  show ?thesis
    unfolding record_divergence_def Let_def
    apply (rule then_do_keeps, simp add: assms(1))
    apply (rule then_do_keeps, simp)
    apply (rule then_do_keeps, simp)
    apply (auto intro!: added)
    done
qed

lemma push_timely:
  assumes "storage_inv E S" and "timely S" and "now \<le> MAX_TIMESTAMP_MS"
  shows "timely (snd (storage_push E W now l events prov S))"
proof -
  note run = store_run_timely [OF assms] and div = divergence_timely [OF assms(2,3)]
  have ingest: "timely (snd (ingest E W now l q events prov S))" for q
    unfolding ingest_def using assms(2) run
    by (auto simp: then_do_def Let_def split: outcome.splits option.splits prod.splits)
  have splice: "timely (snd (splice E W now l q events prov S))" for q
    unfolding splice_def using assms(2) run div
    by (auto simp: then_do_def Let_def split: outcome.splits option.splits prod.splits overlap.splits)
  show ?thesis
    unfolding storage_push_def using assms(2) ingest splice
    by (auto simp: then_do_def split: outcome.splits option.splits)
qed

section \<open>What is told to a peer\<close>

lemma reached_kind:
  assumes "reached E mbs al" and "crypto_ok E"
  shows "mbs \<noteq> [] \<Longrightarrow> \<exists>k. al_kind al = Some k \<and> k \<noteq> KindUnspecified"
  using assms(1)
proof (induction rule: reached.induct)
  case (step mbs al m b al')
  have "started al" using reached_inv [OF step.hyps(1) assms(2)] by (simp add: ledger_inv_def)
  from event_step_good [OF step.hyps(2) this assms(2)] obtain p al1 where
    g: "good_step E al (event_id E (se_body m)) b p al1"
    "al' = al1\<lparr>al_head := Some \<lparr>hd_seq = eb_seq b, hd_event_id = event_id E (se_body m),
       hd_timestamp_ms = eb_timestamp_ms b\<rparr>\<rparr>" .
  note facts = good_stepE [OF g(1)]
  show ?case
  proof (cases "is_inception p")
    case True
    have "\<exists>k. al_kind al1 = Some k \<and> k \<noteq> KindUnspecified"
      using facts(1)
    proof cases
      case (seed_raw i kind r)
      then show ?thesis
        using facts(2) by (auto simp: valid_inception_head_def declared_kind_try_from_def split: if_splits)
    next
      case (seed_identity i kind q)
      then show ?thesis
        using facts(2) by (auto simp: valid_inception_head_def declared_kind_try_from_def split: if_splits)
    qed (use True in simp_all)
    then show ?thesis using g(2) by simp
  next
    case False
    then have "mbs \<noteq> []" using facts(6) reached_head [OF step.hyps(1)] by auto
    moreover have "al_kind al1 = al_kind al" using facts(1) False by cases auto
    ultimately show ?thesis using step.IH g(2) by simp
  qed
qed simp

lemma held_told:
  assumes "prost_codec E" and "crypto_ok E" and "entry_holds E c l f e evs" and "timely_entry e"
  shows "summary_ok (entry_summary e l fork_cap)" and "list_all (fork_ok E) (en_forks e)"
    and "list_all (\<lambda>ev. signed_event E ev = Ok ()) evs" and "length (en_head_event e) = 32"
proof -
  have e: "evs \<noteq> []" "fold_events E evs = Ok (en_state e, None)" "ls_ledger (en_state e) = Some l"
    "en_head_event e = the (signed_event_id E (last evs))" "list_all (fork_holds E l evs) (en_forks e)"
    using assms(3) by (auto simp: entry_holds_def forks_hold_def)
  note facts = fold_facts [OF assms(1,2) e(2,1)]
  from fold_events_run [OF e(2) assms(1)] obtain mbs where mbs: "list_all2 (decodes E) evs mbs"
    "reached E mbs (abs_state (en_state e))" by (auto simp: run_of_def)
  then have "mbs \<noteq> []" using e(1) by auto
  from reached_kind [OF mbs(2) assms(2) this] obtain k where "ls_declared_kind (en_state e) = Some k" "k \<noteq> KindUnspecified"
    by (auto simp: abs_state_def)
  moreover show "length (en_head_event e) = 32"
  proof -
    have "valid_bytes E (last evs)" using facts(1) e(1) by (simp add: list_all_iff)
    then obtain m b where "valid_event E (last evs) m b" by (auto simp: valid_bytes_def)
    from valid_event_bodies(2) [OF this] show ?thesis using e(4) length_event_id [OF assms(2)] by simp
  qed
  ultimately show "summary_ok (entry_summary e l fork_cap)"
    using assms(4) facts(5) e(3) by (simp add: summary_ok_def entry_summary_def entry_declared_kind_def timely_entry_def)
  show "list_all (\<lambda>ev. signed_event E ev = Ok ()) evs"
    using facts(1) by (auto simp: list_all_iff signed_event_iff valid_bytes_def)
  show "list_all (fork_ok E) (en_forks e)"
    unfolding list_all_iff
  proof
    fix r
    assume r: "r \<in> set (en_forks e)"
    then have holds: "fork_holds E l evs r" using e(5) by (auto simp: list_all_iff)
    then obtain p fk where p: "fold_events E (take (unat (fr_seq r)) evs) = Ok (p, None)"
      "validate_fork_record E p (fr_kept r) (fr_conflicting r) = Ok fk" by (auto simp: fork_holds_def)
    have wf: "state_wf p" using fold_events_run [OF p(1) assms(1)] by (auto simp: run_of_def)
    have "fr_seq r \<noteq> 0" using p by (auto simp: fold_events_def fork_record_Ok empty_state_def)
    moreover have "signed_event E (fr_kept r) = Ok ()" "signed_event E (fr_conflicting r) = Ok ()"
      using p(2) unfolding fork_record_Ok verify_at_Ok [OF assms(1) wf] by (auto simp: signed_event_iff)
    moreover have "fr_observed_ms r \<le> MAX_TIMESTAMP_MS" using assms(4) r by (auto simp: timely_entry_def list_all_iff)
    ultimately show "fork_ok E r"
      using fork_holds_record [OF assms(1) holds] facts(5) e(3) by (simp add: fork_ok_def)
  qed
qed

section \<open>Refusals\<close>

definition polite :: "(store_error, 'a) outcome \<Rightarrow> bool" where
  "polite r \<longleftrightarrow> (\<forall>x. r = Err (StoreRejected x) \<longrightarrow> rejection_ok x)"

named_theorems polite_intros

lemma polite_simps [simp]: "polite (Ok a)" "polite Panic" "polite (Err (StoreRejected x)) \<longleftrightarrow> rejection_ok x"
  "polite (Err (Unavailable t))"
  by (auto simp: polite_def)

lemma polite_map_err [polite_intros]: "(\<And>e. r = Err e \<Longrightarrow> polite (Err (g e) :: (store_error, 'a) outcome)) \<Longrightarrow> polite (map_err g r)"
  for r :: "('e, 'a) outcome"
  by (cases r) simp_all

lemma polite_unavailable [simp]: "polite (map_err (unavailable W) r)" "polite (fst (run_map_err (unavailable W) q))"
  by (auto intro!: polite_map_err simp: unavailable_def run_map_err_def)

lemma polite_then_do [polite_intros]:
  "polite (fst r) \<Longrightarrow> (\<And>a. fst r = Ok a \<Longrightarrow> polite (fst (f a (snd r)))) \<Longrightarrow> polite (fst (then_do r f))"
  by (cases "fst r") (auto simp: then_do_def polite_def)

lemma polite_obind [polite_intros]:
  "polite r \<Longrightarrow> (\<And>a. r = Ok a \<Longrightarrow> polite (f a)) \<Longrightarrow> polite (obind r f)"
  by (cases r) (auto simp: polite_def)

lemma polite_expect [simp]: "polite (expect x)"
  by (cases x) simp_all

lemma polite_errors:
  assumes "\<forall>n. is_utf8 (W n)"
  shows "polite (Err (store_malformed W q n))" "polite (Err (too_large W n))" "polite (Err (store_invalid q (W n)))"
    "polite (Err (store_fork q (W n)))" "polite (Err (store_not_admitted (W n)))"
  using assms by (simp_all add: store_malformed_def too_large_def store_invalid_def store_fork_def store_not_admitted_def
      rejection_at_def rejection_new_def rejection_ok_def)

lemma polite_parts:
  assumes "\<forall>n. is_utf8 (W n)"
  shows "polite (seq_of W ev)" "polite (check_contiguous W q evs)" "polite (check_caps W S l n b)"
    "polite (build_batch E W q evs)" "polite (Err (refusal W l post entries) :: (store_error, 'a) outcome)"
    "polite (storage_admit W S l pre post)" "polite (map_err (fork_refusal W l q) fk)"
proof -
  note errors = polite_errors [OF assms]
  show seq: "polite (seq_of W ev)" for ev by (cases "signed_event_seq ev") (simp_all add: seq_of_def errors)
  show "polite (check_contiguous W q evs)"
    by (induction evs arbitrary: q) (auto intro!: polite_obind simp: seq errors)
  show "polite (check_caps W S l n b)" by (auto simp: check_caps_def Let_def errors)
  show "polite (build_batch E W q evs)"
  proof (induction evs arbitrary: q)
    case (Cons ev evs)
    have "polite (ok_or (signed_event_id E ev) (store_invalid q (W NoteNoBody)))"
      by (cases "signed_event_id E ev") (simp_all add: errors)
    then show ?case using Cons.IH by (auto intro!: polite_obind)
  qed simp
  show "polite (Err (refusal W l post entries) :: (store_error, 'a) outcome)"
    by (auto simp: refusal_def errors split: option.split)
  show "polite (storage_admit W S l pre post)"
    by (auto simp: storage_admit_def refusal_def errors split: option.split)
  show "polite (map_err (fork_refusal W l q) fk)"
  proof (rule polite_map_err)
    fix e
    show "polite (Err (fork_refusal W l q e))" by (cases e) (simp_all add: errors)
  qed
qed

lemma push_polite:
  assumes "\<forall>n. is_utf8 (W n)"
  shows "polite (fst (storage_push E W now l events prov S))"
proof -
  note parts = polite_parts [OF assms] polite_errors [OF assms]
  have apply_run: "polite (apply_run E s n evs)" for s n evs
    by (induction E s n evs rule: apply_run.induct) (auto split: outcome.split)
  have run: "polite (fst (store_run E W now l s evs prov S))" for s evs S
    by (auto simp: store_run_def Let_def parts on_files_sel intro!: polite_then_do split: prod.split)
  have div: "polite (fst (record_divergence E W now l q kept conflicting prov S))" for q kept conflicting S
    by (auto simp: record_divergence_def Let_def parts intro!: polite_then_do)
  have ingest: "polite (fst (ingest E W now l q events prov S))" for q S
    by (auto simp: ingest_def parts apply_run run intro!: polite_then_do split: option.split)
  have splice: "polite (fst (splice E W now l q events prov S))" for q S
    by (auto simp: splice_def Let_def parts apply_run run div intro!: polite_then_do split: option.split overlap.split)
  show ?thesis
    by (auto simp: storage_push_def parts ingest splice intro!: polite_then_do split: option.split)
qed

section \<open>The storage keeps the contract\<close>

definition node_inv :: "env \<Rightarrow> note_texts \<Rightarrow> ledger_storage \<Rightarrow> bool" where
  "node_inv E W S \<longleftrightarrow> prost_codec E \<and> crypto_ok E \<and> (\<forall>n. is_utf8 (W n)) \<and> storage_inv E S \<and> timely S"

lemma node_inv_same: "node_inv E W S \<Longrightarrow> same S S' \<Longrightarrow> node_inv E W S' \<and> stored_events S' = stored_events S"
  using same_inv same_stored by (fastforce simp: node_inv_def same_def timely_def)

lemma node_entry:
  assumes "node_inv E W S" and "sg_entry S l = Some e"
  shows "entry_holds E (sg_caps S) l (sg_files S l) e (stored_events S l)" and "timely_entry e"
    and "length (stored_events S l) \<le> 2 ^ 63"
proof -
  have inv: "storage_inv E S" using assms(1) by (simp add: node_inv_def)
  then show holds: "entry_holds E (sg_caps S) l (sg_files S l) e (stored_events S l)"
    by (cases rule: held_cases [where l = l]) (simp_all add: assms(2))
  show "timely_entry e" using assms by (auto simp: node_inv_def intro: timely_get)
  show "length (stored_events S l) \<le> 2 ^ 63" using entry_countable [OF _ holds] inv by (simp add: storage_inv_def)
qed

lemma node_told:
  assumes "node_inv E W S" and "sg_entry S l = Some e"
  shows "summary_ok (entry_summary e l fork_cap)" and "list_all (fork_ok E) (en_forks e)"
    and "list_all (\<lambda>ev. signed_event E ev = Ok ()) (stored_events S l)" and "length (en_head_event e) = 32"
  using held_told [OF _ _ node_entry(1,2) [OF assms]] assms(1) by (simp_all add: node_inv_def)

lemma node_rows:
  assumes "node_inv E W S" and "(l, e) \<in> set (ix_ledgers (sg_index S))"
  shows "summary_ok (entry_summary e l fork_cap)" and "list_all (fork_ok E) (en_forks e)"
proof -
  have "sg_entry S l = Some e"
    using assms bt_get_mem [of "ix_ledgers (sg_index S)" l e] by (simp add: node_inv_def storage_inv_def sg_entry_def)
  then show "summary_ok (entry_summary e l fork_cap)" "list_all (fork_ok E) (en_forks e)"
    using node_told(1,2) [OF assms(1)] by simp_all
qed

lemma empty_absent: "node_inv E W S \<Longrightarrow> stored_events S l = [] \<longleftrightarrow> sg_entry S l = None"
  using node_entry(1) by (cases "sg_entry S l") (auto simp: stored_events_def entry_holds_def)

lemma page_more:
  fixes since :: u64
  assumes "length c \<le> 2 ^ 63" and "c \<noteq> []" and "0 < limit"
  shows "since + of_nat (length (take limit (drop (unat since) c))) \<le> of_nat (length c - 1)
    \<longleftrightarrow> unat since + limit < length c"
proof -
  have last: "unat (of_nat (length c - 1) :: u64) = length c - 1" using assms(1) by (intro unat_word_of_nat64) simp
  show ?thesis
  proof (cases "unat since < length c")
    case True
    let ?k = "length (take limit (drop (unat since) c))"
    have k: "unat since + ?k \<le> length c" using True by simp
    have "unat (since + of_nat ?k) = unat since + ?k"
      using k assms(1) unat_word_of_nat64 [of "unat since + ?k"] by simp
    then show ?thesis using True assms(2,3) unfolding word_le_nat_alt last by auto
  next
    case False
    then show ?thesis using assms(2) unfolding word_le_nat_alt last by (cases c) auto
  qed
qed

lemma node_head:
  assumes "node_inv E W S"
  shows "\<exists>h S'. so_head (node_store E W now) l S = (Ok h, S') \<and> node_inv E W S' \<and> stored_events S' = stored_events S
    \<and> (h = None \<longleftrightarrow> stored_events S l = [])
    \<and> (\<forall>x. h = Some x \<longrightarrow> nh_head_seq x = of_nat (length (stored_events S l) - 1)
         \<and> length (nh_head_event x) = 32 \<and> nh_updated_ms x \<le> MAX_TIMESTAMP_MS)"
proof -
  have env: "prost_codec E" "crypto_ok E" "storage_inv E S" using assms by (simp_all add: node_inv_def)
  from head_same [OF env, of now l] obtain S' where
    S': "storage_head E now l S = (map_option entry_head (sg_entry S l), S')" "same S S'" by blast
  have "nh_head_seq (entry_head e) = of_nat (length (stored_events S l) - 1)
      \<and> length (nh_head_event (entry_head e)) = 32 \<and> nh_updated_ms (entry_head e) \<le> MAX_TIMESTAMP_MS" if "sg_entry S l = Some e" for e
    using node_entry [OF assms that] node_told(4) [OF assms that]
    by (simp add: entry_head_def entry_holds_def timely_entry_def)
  then show ?thesis
    using S' node_inv_same [OF assms S'(2)] empty_absent [OF assms, of l] by (auto simp: node_store_def)
qed

lemma node_read:
  assumes "node_inv E W S" and "0 < limit"
  shows "\<exists>S'. so_read_from (node_store E W now) l since limit S =
      (Ok (if stored_events S l = [] then None
           else Some \<lparr>ep_events = take limit (drop (unat since) (stored_events S l)),
             ep_head_seq = of_nat (length (stored_events S l) - 1),
             ep_more = (unat since + limit < length (stored_events S l))\<rparr>), S')
    \<and> node_inv E W S' \<and> stored_events S' = stored_events S"
proof -
  have env: "prost_codec E" "crypto_ok E" "storage_inv E S" using assms by (simp_all add: node_inv_def)
  note page = page_same [OF env, of now l since limit]
  let ?S' = "snd (storage_page E now l since limit S)"
  have "so_read_from (node_store E W now) l since limit S = (Ok (map_option (\<lambda>e.
      \<lparr>ep_events = take limit (drop (unat since) (stored_events S l)), ep_head_seq = en_head_seq e,
       ep_more = (since + of_nat (length (take limit (drop (unat since) (stored_events S l)))) \<le> en_head_seq e)\<rparr>) (sg_entry S l)), ?S')"
    using page(1) by (cases "sg_entry S l")
      (simp_all add: node_store_def storage_read_from_def then_do_def Let_def entry_report_def entry_summary_def)
  note run = this and kept = node_inv_same [OF assms(1) page(2)]
  show ?thesis
  proof (cases "sg_entry S l")
    case None
    then show ?thesis using run kept empty_absent [OF assms(1), of l] by auto
  next
    case (Some e)
    have e: "stored_events S l \<noteq> []" "en_head_seq e = of_nat (length (stored_events S l) - 1)"
      using node_entry(1) [OF assms(1) Some] by (simp_all add: entry_holds_def)
    show ?thesis
      using run kept unfolding Some option.map e(2) page_more [OF node_entry(3) [OF assms(1) Some] e(1) assms(2)]
      by (auto simp: e(1))
  qed
qed

lemma node_push:
  assumes "node_inv E W S" and "now \<le> MAX_TIMESTAMP_MS" and "request_ok E (ReqPush l events)" and "endpoint_ok E prov"
  shows "\<exists>r S'. so_push (node_store E W now) l events prov S = (r, S') \<and> node_inv E W S' \<and> r \<noteq> Panic
    \<and> (\<forall>x. r = Err (StoreRejected x) \<longrightarrow> rejection_ok x)
    \<and> (\<exists>new. stored_events S' = (stored_events S)(l := stored_events S l @ new))"
proof -
  have env: "prost_codec E" "crypto_ok E" "storage_inv E S" "timely S" "\<forall>n. is_utf8 (W n)"
    using assms by (simp_all add: node_inv_def)
  let ?r = "storage_push E W now l events prov S"
  have "length events < 2 ^ 32" using assms(3) by (simp add: frame_defs)
  note effect = push_has_effect [OF env(1-3) this assms(4), of W l now]
  have "fst ?r \<noteq> Panic" using effect by (simp add: push_effect_def)
  moreover have "node_inv E W (snd ?r)"
    using env push_effect_inv [OF env(3) effect] push_timely [OF env(3,4) assms(2)] by (simp add: node_inv_def)
  moreover have "\<forall>x. fst ?r = Err (StoreRejected x) \<longrightarrow> rejection_ok x"
    using push_polite [OF env(5), of E now l events prov S] by (simp add: polite_def)
  moreover have "\<exists>new. stored_events (snd ?r) = (stored_events S)(l := stored_events S l @ new)"
    using push_effect_stored [OF env(3) effect] by blast
  ultimately show ?thesis by (cases ?r) (auto simp: node_store_def)
qed

interpretation node: store_contract E "node_store E W" "node_inv E W" stored_events for E W
proof
  fix S l ev now limit since events prov offset wanted
  assume inv: "node_inv E W S"
  show "signed_event E ev = Ok ()" if "ev \<in> set (stored_events S l)"
    using that node_told(3) [OF inv] empty_absent [OF inv, of l] by (cases "sg_entry S l") (auto simp: list_all_iff)
  show "length (stored_events S l) \<le> 2 ^ 63"
    using node_entry(3) [OF inv] empty_absent [OF inv, of l] by (cases "sg_entry S l") auto
  show "\<exists>p S'. so_list (node_store E W now) offset limit S = (Ok p, S') \<and> node_inv E W S' \<and> stored_events S' = stored_events S
      \<and> length (pg_items p) \<le> limit \<and> list_all summary_ok (pg_items p)"
    using inv node_rows(1) [OF inv]
    by (auto simp: node_store_def storage_list_def Let_def list_all_iff dest!: in_set_takeD in_set_dropD)
  show "\<exists>p S'. so_forks (node_store E W now) wanted offset limit S = (Ok p, S') \<and> node_inv E W S' \<and> stored_events S' = stored_events S
      \<and> length (pg_items p) \<le> limit \<and> list_all (fork_ok E) (pg_items p)"
    using inv node_rows(2) [OF inv]
    by (fastforce simp: node_store_def storage_forks_def Let_def list_all_iff dest!: in_set_takeD in_set_dropD)
qed (rule node_head node_read node_push; assumption)+

end
