(* ===== verification/Sync_Properties.thy ===== *)
theory Sync_Properties
  imports Node_Store Storage_Sample
begin

text \<open>
  What two nodes that speak the sync protocol can rely on: the server over the storage
  of a node, the client, and the two together.
\<close>

section \<open>The node's store\<close>

lemma reachable_node:
  "prost_codec E \<Longrightarrow> crypto_ok E \<Longrightarrow> storage_reachable E W S \<Longrightarrow> timely S \<Longrightarrow> \<forall>n. is_utf8 (W n) \<Longrightarrow> node_inv E W S"
  using reachable_inv by (auto simp: node_inv_def)

lemma parsed_answers: "answers E frame \<Longrightarrow> length frame \<le> MAX_FRAME_BYTES \<and> (\<exists>r. parse_response E frame = Ok r)"
  using sendable_fits sendable_parses by (auto simp: answers_def)

lemma empty_utf8: "is_utf8 []"
  by (simp add: is_utf8_def)

lemma sample_timely: "timely sample_storage"
  using sample_fields by (simp add: timely_def empty_index_def)

lemma grown_timely: "timely sample_grown"
  unfolding sample_grown_def
  by (rule push_timely [OF reachable_inv [OF ref_ok sample_reachable] sample_timely]) (simp add: MAX_TIMESTAMP_MS_def)

text \<open>
  C9. A server always answers in the protocol: whatever bytes a peer sends on the
  streams of a connection, a node answers at most as many frames as a connection may
  ask for, each within the frame cap and each one that the client's parser reads; no
  stream stops the server, and afterwards every ledger holds what it held with
  something appended.
\<close>

theorem server_answers_in_protocol:
  assumes "prost_codec E" and "crypto_ok E" and "storage_reachable E W S" and "timely S"
    and "\<forall>n. is_utf8 (W n)" and "\<forall>e. is_utf8 (T e)" and "endpoint_from_bytes E remote = Some remote"
    and "\<forall>stream\<in>set streams. pr_now stream \<le> MAX_TIMESTAMP_MS"
  shows "\<exists>frames reason S'. accept E T default_config (node_store E W) connected remote streams S = (Ok (frames, reason), S')
    \<and> length frames \<le> MAX_REQUESTS_PER_CONNECTION
    \<and> list_all (\<lambda>frame. length frame \<le> MAX_FRAME_BYTES \<and> (\<exists>r. parse_response E frame = Ok r)) frames
    \<and> timely S' \<and> (\<forall>l. \<exists>new. stored_events S' l = stored_events S l @ new)"
proof -
  note inv = reachable_node [OF assms(1-5)]
  have "endpoint_ok E (Some remote)" using assms(7) by (simp add: endpoint_ok_def)
  from node.loop_answers [OF this assms(6) inv assms(8), of 0] obtain frames reason S' where
    r: "accept_loop E T default_config (node_store E W) (Some remote) 0 streams S = (Ok (frames, reason), S')"
    "node_inv E W S'" "list_all (answers E) frames" "length frames \<le> sv_max_requests default_config"
    "\<forall>l. \<exists>new. stored_events S' l = stored_events S l @ new" by auto
  moreover have "list_all (\<lambda>frame. length frame \<le> MAX_FRAME_BYTES \<and> (\<exists>r. parse_response E frame = Ok r)) frames"
    using r(3) parsed_answers by (auto simp: list_all_iff)
  ultimately show ?thesis
    using assms(4) by (cases "sv_max_connections default_config \<le> connected")
      (auto simp: accept_def node_inv_def default_config_def)
qed

theorem server_answers_in_protocol_witness:
  "\<exists>frames reason S'. accept ref_env (\<lambda>_. []) default_config (node_store ref_env no_text) 3 (ref_public bob)
      [\<lparr>pr_arrived = Some [7, 7], pr_taken = 0, pr_writable = True, pr_now = 11\<rparr>,
       \<lparr>pr_arrived = Some (get_request alice_id 0 0), pr_taken = 0, pr_writable = True, pr_now = 12\<rparr>] sample_grown
      = (Ok (frames, reason), S') \<and> length frames \<le> 64 \<and> timely S'"
proof -
  have "endpoint_from_bytes ref_env (ref_public bob) = Some (ref_public bob)" by code_simp
  from server_answers_in_protocol [OF ref_ok grown_reachable grown_timely _ _ this, of "\<lambda>_. []"
    "[\<lparr>pr_arrived = Some [7, 7], pr_taken = 0, pr_writable = True, pr_now = 11\<rparr>,
       \<lparr>pr_arrived = Some (get_request alice_id 0 0), pr_taken = 0, pr_writable = True, pr_now = 12\<rparr>]" 3]
  show ?thesis by (auto simp: no_text_def empty_utf8 MAX_TIMESTAMP_MS_def MAX_REQUESTS_PER_CONNECTION_def)
qed

section \<open>A download\<close>

lemma cost_total:
  assumes "\<forall>e\<in>set c. length e \<le> 4096"
  shows "cost c \<le> total_length c + 11 * length c"
  using assms
proof (induction c)
  case (Cons e c)
  then have "length (enc_records [(1, VBytes e)]) \<le> 11 + length e" by (intro frame_overhead) auto
  then have "entry_len 1 e \<le> 11 + length e" using Cons.prems by (simp add: entry_len_eq)
  then show ?case using Cons by (simp add: cost_def total_length_def)
qed (simp add: cost_def)





section \<open>Fork records from a stranger\<close>

text \<open>
  C23. A fork record the client hands on is evidence, whoever served it: for any peer
  and anything it answers, a record that \<open>forks\<close> returns as verified names a ledger for
  which there is a chain up to the recorded position, and both of the events it
  carries are accepted there and are different events.
\<close>

theorem served_forks_are_evidence:
  assumes "prost_codec E" and "client_forks E tr wanted offset limit s = Some (Ok page, s')"
    and "r \<in> set (fp_verified page)"
  shows "\<exists>evs p a b. length evs = unat (fr_seq r) \<and> fold_events E evs = Ok (p, None) \<and> ls_ledger p = Some (fr_ledger r)
    \<and> apply_event E p (fr_kept r) = Ok a \<and> apply_event E p (fr_conflicting r) = Ok b
    \<and> signed_event_id E (fr_kept r) \<noteq> signed_event_id E (fr_conflicting r)"
proof -
  from forks_evidence [OF assms(2,3)] obtain evs p fk where p: "length evs = unat (fr_seq r)"
    "fold_events E evs = Ok (p, None)" "ls_ledger p = Some (fr_ledger r)"
    "validate_fork_record E p (fr_kept r) (fr_conflicting r) = Ok fk" by (auto simp: evidence_def)
  have wf: "state_wf p" using fold_events_run [OF p(2) assms(1)] by (auto simp: run_of_def)
  have verified: "\<exists>a. apply_event E p ev = Ok a \<and> signed_event_id E ev = Some i" if "verify_at E p q ev = Ok i" for ev q i
  proof -
    from that obtain a m b where "apply_event E p ev = Ok a" "valid_event E ev m b" "i = event_id E (se_body m)"
      unfolding verify_at_Ok [OF assms(1) wf] by blast
    then show ?thesis using valid_event_bodies(2) [of E ev m b] by simp
  qed
  from p(4) have "verify_at E p (next_seq p) (fr_kept r) = Ok (fk_kept fk)"
    "verify_at E p (next_seq p) (fr_conflicting r) = Ok (fk_conflicting fk)" "fk_kept fk \<noteq> fk_conflicting fk"
    by (auto simp: fork_record_Ok)
  with verified [of "next_seq p"] obtain a b where "apply_event E p (fr_kept r) = Ok a" "apply_event E p (fr_conflicting r) = Ok b"
    "signed_event_id E (fr_kept r) \<noteq> signed_event_id E (fr_conflicting r)" by (metis option.inject)
  with p(1-3) show ?thesis by blast
qed

definition sample_record :: fork_record where
  "sample_record = \<lparr>fr_ledger = alice_id, fr_seq = 1, fr_kept = kept_event, fr_conflicting = other_event,
     fr_observed_ms = 5, fr_source_endpoint = None\<rparr>"

text \<open>A peer that serves one record and the ledger it names, in answer to anything.\<close>

definition sample_peer :: "nat transport" where
  "sample_peer frame n = (\<lparr>xc_opened = True, xc_written = True,
     xc_answer = Some (encode_response (if n = 0 then RespForks \<lparr>pg_items = [sample_record], pg_more = False\<rparr>
       else RespEvents \<lparr>ep_events = [first_event, kept_event], ep_head_seq = 1, ep_more = False\<rparr>))\<rparr>, Suc n)"

lemma forked_events_valid:
  "signed_event ref_env first_event = Ok ()" "signed_event ref_env kept_event = Ok ()" "signed_event ref_env other_event = Ok ()"
proof -
  obtain s where "fold_from ref_env empty_state [first_event, kept_event] = Ok (s, None)"
    using alice_starts trusted_state by auto
  from fold_valid [OF this] show "signed_event ref_env first_event = Ok ()" "signed_event ref_env kept_event = Ok ()"
    by (auto simp: valid_bytes_def signed_event_iff)
  obtain s where "fold_from ref_env empty_state [first_event, other_event] = Ok (s, None)"
    using alice_starts invited_state by auto
  from fold_valid [OF this] show "signed_event ref_env other_event = Ok ()" by (auto simp: valid_bytes_def signed_event_iff)
qed

lemma sample_sendable:
  "sendable ref_env (RespForks \<lparr>pg_items = [sample_record], pg_more = False\<rparr>)"
  "sendable ref_env (RespEvents \<lparr>ep_events = [first_event, kept_event], ep_head_seq = 1, ep_more = False\<rparr>)"
proof -
  have "length other_event \<le> 4096" using signed_event_length [OF forked_events_valid(3)] by (simp add: size_defs)
  then show "sendable ref_env (RespForks \<lparr>pg_items = [sample_record], pg_more = False\<rparr>)"
    using forked_events_valid sample_ids first_event_short kept_event_short
    by (simp add: sendable_def fork_ok_def fork_record_ok_def sample_record_def MAX_TIMESTAMP_MS_def frame_defs)
  have "cost [first_event, kept_event] \<le> 1000"
    using cost_total [of "[first_event, kept_event]"] first_event_short kept_event_short by (simp add: total_length_def)
  then show "sendable ref_env (RespEvents \<lparr>ep_events = [first_event, kept_event], ep_head_seq = 1, ep_more = False\<rparr>)"
    using forked_events_valid by (simp add: sendable_def frame_defs RESPONSE_BUDGET_BYTES_def)
qed

lemma sample_verified:
  "client_forks ref_env sample_peer None 0 0 0
   = Some (Ok \<lparr>fp_verified = [sample_record], fp_rejected = 0, fp_more = False\<rparr>, 2)"
proof -
  have ask: "client_request ref_env sample_peer frame n =
      (Ok (if n = 0 then RespForks \<lparr>pg_items = [sample_record], pg_more = False\<rparr>
        else RespEvents \<lparr>ep_events = [first_event, kept_event], ep_head_seq = 1, ep_more = False\<rparr>), Suc n)" for frame n
    using sample_sendable [THEN sendable_fits] sample_sendable [THEN sendable_parses]
    by (simp add: client_request_def send_frame_def sample_peer_def del: encode_response.simps)
  obtain fk where "validate_fork_record ref_env alice_state kept_event other_event = Ok fk" using sample_fork by blast
  then have judged: "fork_judged ref_env sample_record (Some [first_event, kept_event]) = Ok True"
    using alice_fold alice_ledger by (simp add: fork_judged_def sample_record_def)
  have "get_all ref_env sample_peer alice_id 0 (Suc 0) = Some (Ok (Some [first_event, kept_event]), 2)"
    unfolding get_all_def by (subst get_loop.simps) (simp add: client_get_def ask)
  then have "fork_verifies ref_env sample_peer sample_record (Suc 0) = Some (Ok True, 2)"
    using judged by (simp add: fork_verifies_def sample_record_def)
  then show ?thesis by (simp add: client_forks_def forks_unverified_def ask)
qed

theorem served_forks_are_evidence_witness:
  "\<exists>evs p. length evs = unat (fr_seq sample_record) \<and> fold_events ref_env evs = Ok (p, None) \<and> ls_ledger p = Some alice_id"
  using served_forks_are_evidence [OF ref_prost sample_verified, of sample_record] by (auto simp: sample_record_def)

end
