(* ===== verification/Graph_Model.thy ===== *)
theory Graph_Model
  imports Ledger_State
begin

text \<open>
  What a crawl of the trust graph writes down (\<open>crates/mabel-node/src/graph/model.rs\<close>)
  and the rendering of ids in it (\<open>wallet/ids.rs\<close>, \<open>api/documents.rs\<close>). A document id is
  its text, so the order of ids in a generation is the order of their texts. A depth is a
  natural number: it counts the edges of a path without repetition.
\<close>

type_synonym document_id = bytes

section \<open>Rendered ids\<close>

definition document_id_parse :: "bytes \<Rightarrow> document_id option" where
  "document_id_parse raw =
     (if length raw \<noteq> ID_STR_LEN then None
      else let lowercase = map to_lower raw in
        if list_all (\<lambda>b. is_lower b \<or> 50 \<le> unat b \<and> unat b \<le> 55) lowercase then Some lowercase else None)"

text \<open>
  Rust unwraps \<open>Id::parse\<close> of the text. The lemma \<open>ids_bytes_parse\<close> below shows that the text
  of 32 bytes parses as itself, so the rendering is the text.
\<close>

definition ids_bytes :: "env \<Rightarrow> bytes \<Rightarrow> document_id" where
  "ids_bytes E value = map to_lower (base32_encode E value)"

definition ids_identity :: "env \<Rightarrow> identity_id \<Rightarrow> document_id" where
  "ids_identity E i = ids_bytes E i"

definition ids_event :: "env \<Rightarrow> event_id \<Rightarrow> document_id" where
  "ids_event E i = ids_bytes E i"

definition ids_key :: "env \<Rightarrow> public_key \<Rightarrow> document_id" where
  "ids_key E k = ids_bytes E k"

section \<open>Staleness\<close>

definition STALE_AFTER_MS :: u64 where "STALE_AFTER_MS = 24 * 60 * 60 * 1000"

definition saturating_sub :: "u64 \<Rightarrow> u64 \<Rightarrow> u64" where
  "saturating_sub a b = (if b \<le> a then a - b else 0)"

definition is_stale :: "u64 \<Rightarrow> u64 \<Rightarrow> bool" where
  "is_stale at now \<longleftrightarrow> saturating_sub now at > STALE_AFTER_MS"

section \<open>Sources\<close>

datatype source_class = ClassLocal | ClassCallerHint | ClassPeerHint | ClassNodeWitness | ClassChainNamed | ClassDns

text \<open>The cap of a class, none for the class that dials nothing.\<close>

fun class_cap :: "source_class \<Rightarrow> nat option" where
  "class_cap ClassLocal = None"
| "class_cap ClassCallerHint = Some 4"
| "class_cap ClassPeerHint = Some 4"
| "class_cap ClassDns = Some 4"
| "class_cap ClassNodeWitness = Some 8"
| "class_cap ClassChainNamed = Some 8"

fun class_reserved :: "source_class \<Rightarrow> nat" where
  "class_reserved ClassNodeWitness = 4"
| "class_reserved _ = 0"

datatype fetch_source =
    LocalCopy
  | CallerHint document_id
  | PeerHint document_id
  | NodeWitness document_id document_id
  | LedgerEndpoint document_id
  | WitnessIdentity document_id document_id
  | LegacyWitnessHint document_id
  | DnsEndpoint bytes document_id

fun source_endpoint :: "fetch_source \<Rightarrow> document_id option" where
  "source_endpoint LocalCopy = None"
| "source_endpoint (CallerHint e) = Some e"
| "source_endpoint (PeerHint e) = Some e"
| "source_endpoint (NodeWitness _ e) = Some e"
| "source_endpoint (LedgerEndpoint e) = Some e"
| "source_endpoint (WitnessIdentity _ e) = Some e"
| "source_endpoint (LegacyWitnessHint e) = Some e"
| "source_endpoint (DnsEndpoint _ e) = Some e"

fun source_witness :: "fetch_source \<Rightarrow> document_id option" where
  "source_witness (NodeWitness w _) = Some w"
| "source_witness (WitnessIdentity w _) = Some w"
| "source_witness _ = None"

fun source_order :: "fetch_source \<Rightarrow> nat" where
  "source_order LocalCopy = 1"
| "source_order (CallerHint _) = 2"
| "source_order (PeerHint _) = 3"
| "source_order (NodeWitness _ _) = 4"
| "source_order (LedgerEndpoint _) = 5"
| "source_order (WitnessIdentity _ _) = 6"
| "source_order (LegacyWitnessHint _) = 7"
| "source_order (DnsEndpoint _ _) = 8"

fun class_of_source :: "fetch_source \<Rightarrow> source_class" where
  "class_of_source LocalCopy = ClassLocal"
| "class_of_source (CallerHint _) = ClassCallerHint"
| "class_of_source (PeerHint _) = ClassPeerHint"
| "class_of_source (NodeWitness _ _) = ClassNodeWitness"
| "class_of_source (LedgerEndpoint _) = ClassChainNamed"
| "class_of_source (WitnessIdentity _ _) = ClassChainNamed"
| "class_of_source (LegacyWitnessHint _) = ClassChainNamed"
| "class_of_source (DnsEndpoint _ _) = ClassDns"

fun may_bind :: "fetch_source \<Rightarrow> bool" where
  "may_bind (LegacyWitnessHint _) = False"
| "may_bind _ = True"

fun may_record_hint :: "fetch_source \<Rightarrow> bool" where
  "may_record_hint LocalCopy = False"
| "may_record_hint (CallerHint _) = False"
| "may_record_hint _ = True"

section \<open>Documents\<close>

datatype node_status = StatusOk | StatusUnreachable | StatusInvalid | StatusEquivocation

record equivocation_branch =
  eb_source :: fetch_source
  eb_event :: document_id

record equivocation =
  eq_at_seq :: u64
  eq_branches :: "equivocation_branch list"

record graph_edge =
  ge_subject :: document_id
  ge_attestation_event :: document_id
  ge_seq :: u64

record root_depth =
  rd_root :: document_id
  rd_depth :: nat

record discovered_via =
  dv_identity :: document_id
  dv_attestation_event :: document_id

record graph_node =
  gn_identity_id :: document_id
  gn_declared_kind :: "declared_kind option"
  gn_display_name :: "bytes option"
  gn_hostname :: "bytes option"
  gn_email :: "bytes option"
  gn_head_seq :: "u64 option"
  gn_head_event :: "document_id option"
  gn_depth :: nat
  gn_roots :: "root_depth list"
  gn_discovered_via :: "discovered_via option"
  gn_source :: "fetch_source option"
  gn_fetched_at_ms :: "u64 option"
  gn_status :: node_status
  gn_equivocation :: "equivocation option"
  gn_detail :: "bytes option"
  gn_edges :: "graph_edge list"

definition node_stale :: "graph_node \<Rightarrow> u64 \<Rightarrow> bool" where
  "node_stale n now = (case gn_fetched_at_ms n of Some at \<Rightarrow> is_stale at now | None \<Rightarrow> True)"

definition edge_to :: "graph_node \<Rightarrow> document_id \<Rightarrow> graph_edge option" where
  "edge_to n subject = find (\<lambda>e. ge_subject e = subject) (gn_edges n)"

datatype truncated_by = ByDepth | ByNodes | ByFetches | ByTime

fun truncated_by_as_str :: "truncated_by \<Rightarrow> string" where
  "truncated_by_as_str ByDepth = ''depth''"
| "truncated_by_as_str ByNodes = ''nodes''"
| "truncated_by_as_str ByFetches = ''fetches''"
| "truncated_by_as_str ByTime = ''time''"

record graph_summary =
  gy_sync_id :: bytes
  gy_last_sync_ms :: u64
  gy_depth :: nat
  gy_roots :: "document_id list"
  gy_node_count :: nat
  gy_edge_count :: nat
  gy_fetch_count :: nat
  gy_truncated :: bool
  gy_truncated_by :: "truncated_by option"
  gy_equivocations :: "document_id list"

definition summary_stale :: "graph_summary \<Rightarrow> u64 \<Rightarrow> bool" where
  "summary_stale s now = is_stale (gy_last_sync_ms s) now"

record path_hop =
  ph_from :: document_id
  ph_to :: document_id
  ph_attestation_event :: document_id

type_synonym graph_path = "path_hop list"

definition path_degrees :: "graph_path \<Rightarrow> nat" where
  "path_degrees p = length p"

record reverse_edge =
  re_identity :: document_id
  re_attestation_event :: document_id
  re_seq :: u64

record reverse_edges =
  rs_best_effort :: bool
  rs_entries :: "reverse_edge list"

definition reverse_edges_new :: "reverse_edge list \<Rightarrow> reverse_edges" where
  "reverse_edges_new entries = \<lparr>rs_best_effort = True, rs_entries = entries\<rparr>"

section \<open>Facts about rendered ids\<close>

lemma to_lower_base32: "base32_char b \<Longrightarrow> is_lower (to_lower b) \<or> 50 \<le> unat (to_lower b) \<and> unat (to_lower b) \<le> 55"
  by (auto simp: base32_char_def to_lower_def is_upper_def is_lower_def unat_plus32)

context base32_codec
begin

lemma ids_bytes_parse:
  assumes "length value = 32"
  shows "document_id_parse (map to_lower (base32_encode E value)) = Some (ids_bytes E value)"
proof -
  have "list_all (\<lambda>b. is_lower b \<or> 50 \<le> unat b \<and> unat b \<le> 55) (map to_lower (base32_encode E value))"
    using base32_alphabet [of "value"] to_lower_base32 by (simp add: list_all_iff)
  then show ?thesis using assms
    by (simp add: document_id_parse_def ids_bytes_def base32_length size_defs to_lower_idem comp_def)
qed

lemma ids_bytes_inj: "ids_bytes E a = ids_bytes E b \<Longrightarrow> a = b"
  by (metis base32_alphabet base32_encode_inj ids_bytes_def map_upper_lower)

end

lemma is_stale_iff: "is_stale at now \<longleftrightarrow> unat STALE_AFTER_MS + unat at < unat now"
  by (auto simp: is_stale_def saturating_sub_def STALE_AFTER_MS_def word_less_nat_alt word_le_nat_alt unat_sub)

end
