(* ===== verification/Loaded_Ledger.thy ===== *)
theory Loaded_Ledger
  imports Graph_Model Ledger_Store Node_Home Fold_Facts
begin

text \<open>
  One ledger, folded, wherever its events came from
  (\<open>crates/mabel-node/src/wallet/ledger.rs\<close>): the fold that keeps the position of every
  event beside the state, and the documents the node shows of it. The fold agrees with the
  core crate's, which is what every later argument about a loaded ledger rests on.
\<close>

section \<open>The fold\<close>

record loaded_ledger =
  ld_ledger :: ledger_id
  ld_events :: "bytes list"
  ld_state :: ledger_state
  ld_seq_of :: "(event_id, u64) btree_map"
  ld_event_ids :: "event_id option list"
  ld_created_at_ms :: u64
  ld_head_seq :: u64
  ld_head_event :: event_id
  ld_violation :: "violation option"
  ld_failed_event :: "event_id option"

definition decoded_id :: "env \<Rightarrow> bytes \<Rightarrow> event_id option" where
  "decoded_id E bs = map_option (\<lambda>m. event_id E (se_body m)) (decode_signed_event E bs)"

definition timestamp_of :: "env \<Rightarrow> bytes \<Rightarrow> u64" where
  "timestamp_of E bs =
     (case decode_signed_event E bs of
        None \<Rightarrow> 0
      | Some m \<Rightarrow> (case decode_event_body E (se_body m) of None \<Rightarrow> 0 | Some body \<Rightarrow> eb_timestamp_ms body))"

definition loaded_new :: "ledger_id \<Rightarrow> bytes list \<Rightarrow> loaded_ledger" where
  "loaded_new l events = \<lparr>ld_ledger = l, ld_events = events, ld_state = empty_state, ld_seq_of = [],
     ld_event_ids = [], ld_created_at_ms = 0, ld_head_seq = 0, ld_head_event = replicate 32 0,
     ld_violation = None, ld_failed_event = None\<rparr>"

text \<open>One turn of the loop. The id of every event is kept; the state moves until the first rejection.\<close>

definition loaded_note :: "env \<Rightarrow> nat \<Rightarrow> bytes \<Rightarrow> loaded_ledger \<Rightarrow> loaded_ledger" where
  "loaded_note E index bs ld =
     (let i = decoded_id E bs; ld = ld\<lparr>ld_event_ids := ld_event_ids ld @ [i]\<rparr> in
      case i of None \<Rightarrow> ld | Some i \<Rightarrow> ld\<lparr>ld_head_seq := of_nat index, ld_head_event := i\<rparr>)"

definition loaded_step :: "env \<Rightarrow> nat \<Rightarrow> bytes \<Rightarrow> loaded_ledger \<Rightarrow> (reason, loaded_ledger) outcome" where
  "loaded_step E index bs ld =
     (let i = decoded_id E bs; ld = loaded_note E index bs ld in
      if ld_violation ld \<noteq> None then Ok ld
      else case apply_event E (ld_state ld) bs of
          Ok s \<Rightarrow>
            let ld = ld\<lparr>ld_state := s\<rparr>;
                ld = (case i of None \<Rightarrow> ld | Some i \<Rightarrow> ld\<lparr>ld_seq_of := bt_insert i (of_nat index) (ld_seq_of ld)\<rparr>)
            in Ok (if (of_nat index :: u64) = 0 then ld\<lparr>ld_created_at_ms := timestamp_of E bs\<rparr> else ld)
        | Err r \<Rightarrow> Ok (ld\<lparr>ld_violation := Some \<lparr>vi_seq = of_nat index, vi_reason = r\<rparr>, ld_failed_event := i\<rparr>)
        | Panic \<Rightarrow> Panic)"

fun loaded_loop :: "env \<Rightarrow> nat \<Rightarrow> bytes list \<Rightarrow> loaded_ledger \<Rightarrow> (reason, loaded_ledger) outcome" where
  "loaded_loop E index [] ld = Ok ld"
| "loaded_loop E index (bs # events) ld = obind (loaded_step E index bs ld) (loaded_loop E (Suc index) events)"

definition loaded_fold :: "env \<Rightarrow> ledger_id \<Rightarrow> bytes list \<Rightarrow> (reason, loaded_ledger) outcome" where
  "loaded_fold E l events = loaded_loop E 0 events (loaded_new l events)"

definition loaded_is_empty :: "loaded_ledger \<Rightarrow> bool" where
  "loaded_is_empty ld \<longleftrightarrow> ld_events ld = []"

definition loaded_event_count :: "loaded_ledger \<Rightarrow> nat" where
  "loaded_event_count ld = length (ld_events ld)"

definition valid_to_seq :: "loaded_ledger \<Rightarrow> u64" where
  "valid_to_seq ld = (case ls_head (ld_state ld) of None \<Rightarrow> 0 | Some h \<Rightarrow> hd_seq h)"

section \<open>The documents\<close>

definition document_kind_parse :: "string \<Rightarrow> declared_kind option" where
  "document_kind_parse raw =
     map_of [(''person'', Person), (''organization'', Organization), (''agent'', Agent), (''service'', Service)] raw"

definition loaded_declared_kind :: "loaded_ledger \<Rightarrow> declared_kind" where
  "loaded_declared_kind ld =
     (case ls_declared_kind (ld_state ld) of
        None \<Rightarrow> Person
      | Some k \<Rightarrow> (case document_kind_parse (declared_kind_name k) of None \<Rightarrow> Person | Some k \<Rightarrow> k))"

definition loaded_witnesses :: "env \<Rightarrow> loaded_ledger \<Rightarrow> document_id list" where
  "loaded_witnesses E ld = map (ids_identity E) (witness_identities (ld_state ld))"

definition loaded_endpoints :: "env \<Rightarrow> loaded_ledger \<Rightarrow> document_id list" where
  "loaded_endpoints E ld = map (ids_key E) (endpoints (ld_state ld))"

definition loaded_witness_endpoints :: "env \<Rightarrow> loaded_ledger \<Rightarrow> document_id list" where
  "loaded_witness_endpoints E ld = map (ids_key E) (ls_witness_endpoints (ld_state ld))"

definition seq_or_zero :: "loaded_ledger \<Rightarrow> event_id \<Rightarrow> u64" where
  "seq_or_zero ld i = (case bt_get (ld_seq_of ld) i of None \<Rightarrow> 0 | Some s \<Rightarrow> s)"

record trust_entry =
  te_attestation_event :: document_id
  te_attestation_seq :: u64
  te_subject :: document_id
  te_revoked :: bool
  te_revocation_event :: "document_id option"
  te_revocation_seq :: "u64 option"

definition loaded_trust :: "env \<Rightarrow> loaded_ledger \<Rightarrow> trust_entry list" where
  "loaded_trust E ld =
     sort_key te_attestation_seq (map (\<lambda>(i, a).
       \<lparr>te_attestation_event = ids_event E i, te_attestation_seq = seq_or_zero ld i,
        te_subject = ids_identity E (at_subject a), te_revoked = is_revoked a,
        te_revocation_event = map_option (ids_event E) (at_revoked_by a),
        te_revocation_seq = Option.bind (at_revoked_by a) (bt_get (ld_seq_of ld))\<rparr>)
       (ls_trust (ld_state ld)))"

datatype root_name = RawName | IdentityName
datatype role_name = RoleMember | RoleController

definition loaded_root :: "loaded_ledger \<Rightarrow> root_name" where
  "loaded_root ld = (case ls_root (ld_state ld) of Some (Identity _ _) \<Rightarrow> IdentityName | _ \<Rightarrow> RawName)"

fun role_name_of :: "role \<Rightarrow> role_name option" where
  "role_name_of Member = Some RoleMember"
| "role_name_of Controller = Some RoleController"
| "role_name_of RoleUnspecified = None"

record principal_entry =
  pe_identity :: document_id
  pe_active_key :: document_id
  pe_role :: role_name
  pe_is_root :: bool

definition loaded_principals :: "env \<Rightarrow> loaded_ledger \<Rightarrow> principal_entry list" where
  "loaded_principals E ld =
     List.map_filter (\<lambda>(i, p). map_option (\<lambda>r.
       \<lparr>pe_identity = ids_identity E i, pe_active_key = ids_key E (pr_active_key p), pe_role = r,
        pe_is_root = (Some i = root_identity (ld_state ld))\<rparr>) (role_name_of (pr_role p)))
       (ls_principals (ld_state ld))"

record invitation_entry =
  ie_invitation_event :: document_id
  ie_invitation_seq :: u64
  ie_invitee :: document_id
  ie_invitee_key :: document_id
  ie_role :: role_name
  ie_status :: invitation_status

definition loaded_invitations :: "env \<Rightarrow> loaded_ledger \<Rightarrow> invitation_entry list" where
  "loaded_invitations E ld =
     sort_key ie_invitation_seq (List.map_filter (\<lambda>(i, v). map_option (\<lambda>r.
       \<lparr>ie_invitation_event = ids_event E i, ie_invitation_seq = seq_or_zero ld i,
        ie_invitee = ids_identity E (iv_invitee v), ie_invitee_key = ids_key E (iv_invitee_key v),
        ie_role = r, ie_status = iv_status v\<rparr>) (role_name_of (iv_role v)))
       (ls_invitations (ld_state ld)))"

definition open_invitation_count :: "loaded_ledger \<Rightarrow> nat" where
  "open_invitation_count ld = length (filter (\<lambda>(_, v). iv_status v = Open) (ls_invitations (ld_state ld)))"

record membership_view =
  mv_ledger_id :: document_id
  mv_declared_kind :: declared_kind
  mv_root :: root_name
  mv_head_seq :: u64
  mv_head_event :: document_id
  mv_principals :: "principal_entry list"
  mv_invitations :: "invitation_entry list"

definition membership_document :: "env \<Rightarrow> loaded_ledger \<Rightarrow> membership_view" where
  "membership_document E ld =
     \<lparr>mv_ledger_id = ids_identity E (ld_ledger ld), mv_declared_kind = loaded_declared_kind ld,
      mv_root = loaded_root ld, mv_head_seq = ld_head_seq ld, mv_head_event = ids_event E (ld_head_event ld),
      mv_principals = loaded_principals E ld, mv_invitations = loaded_invitations E ld\<rparr>"

section \<open>What the crawl keeps of a ledger\<close>

text \<open>\<open>LedgerSummary\<close> and \<open>TrustEdge\<close> of \<open>graph/fetcher.rs\<close>.\<close>

record trust_edge =
  tr_subject :: identity_id
  tr_attestation_event :: event_id
  tr_seq :: u64

record chain_summary =
  cy_ledger :: ledger_id
  cy_declared_kind :: declared_kind
  cy_display_name :: "bytes option"
  cy_hostname :: "bytes option"
  cy_email :: "bytes option"
  cy_head_seq :: u64
  cy_head_event :: event_id
  cy_endpoints :: "public_key list"
  cy_witness_identities :: "identity_id list"
  cy_legacy_witnesses :: "public_key list"
  cy_trust :: "trust_edge list"

definition summary_of :: "loaded_ledger \<Rightarrow> chain_summary" where
  "summary_of ld =
     (let s = ld_state ld in
      \<lparr>cy_ledger = ld_ledger ld, cy_declared_kind = loaded_declared_kind ld,
       cy_display_name = Option.bind (ls_profile s) pf_display_name,
       cy_hostname = Option.bind (ls_profile s) pf_hostname,
       cy_email = Option.bind (ls_profile s) pf_email,
       cy_head_seq = ld_head_seq ld, cy_head_event = ld_head_event ld,
       cy_endpoints = endpoints s, cy_witness_identities = witness_identities s,
       cy_legacy_witnesses = ls_witness_endpoints s,
       cy_trust = sort_key tr_seq (sort_key tr_subject (map (\<lambda>(i, a).
         \<lparr>tr_subject = at_subject a, tr_attestation_event = i, tr_seq = seq_or_zero ld i\<rparr>)
         (filter (\<lambda>(i, a). \<not> is_revoked a) (ls_trust s))))\<rparr>)"

section \<open>The fold is the core crate's\<close>

lemma loaded_note_sel [simp]:
  "ld_state (loaded_note E k bs ld) = ld_state ld" "ld_violation (loaded_note E k bs ld) = ld_violation ld"
  "ld_ledger (loaded_note E k bs ld) = ld_ledger ld" "ld_events (loaded_note E k bs ld) = ld_events ld"
  by (simp_all add: loaded_note_def Let_def split: option.splits)

lemma loaded_step_cases:
  assumes "loaded_step E k bs ld = Ok ld'"
  shows "ld_ledger ld' = ld_ledger ld" and "ld_events ld' = ld_events ld"
    and "if ld_violation ld \<noteq> None then ld_state ld' = ld_state ld \<and> ld_violation ld' = ld_violation ld
      else case apply_event E (ld_state ld) bs of
          Ok s \<Rightarrow> ld_state ld' = s \<and> ld_violation ld' = None
        | Err r \<Rightarrow> ld_state ld' = ld_state ld \<and> ld_violation ld' = Some \<lparr>vi_seq = of_nat k, vi_reason = r\<rparr>
        | Panic \<Rightarrow> False"
  using assms by (auto simp: loaded_step_def Let_def split: if_splits outcome.splits option.splits)

lemma apply_next: "apply_event E s bs = Ok s' \<Longrightarrow> next_seq s' = next_seq s + 1"
  by (auto simp: apply_event_def Let_def commit_def next_seq_def split: if_splits)

text \<open>The positions agree with the fold's as long as the state has applied \<open>k\<close> events.\<close>

lemma loaded_loop_fold:
  assumes "loaded_loop E k events ld = Ok ld'"
  shows "ld_ledger ld' = ld_ledger ld" and "ld_events ld' = ld_events ld"
    and "ld_violation ld \<noteq> None \<Longrightarrow> ld_state ld' = ld_state ld \<and> ld_violation ld' = ld_violation ld"
    and "ld_violation ld = None \<Longrightarrow> next_seq (ld_state ld) = of_nat k
      \<Longrightarrow> fold_from E (ld_state ld) events = Ok (ld_state ld', ld_violation ld')"
  using assms
proof (induction events arbitrary: k ld)
  case (Cons bs events)
  {
    case 1
    then show ?case using Cons.IH(1) loaded_step_cases(1) by fastforce
  next
    case 2
    then show ?case using Cons.IH(2) loaded_step_cases(2) by fastforce
  next
    case 3
    then obtain ld1 where "loaded_step E k bs ld = Ok ld1" "loaded_loop E (Suc k) events ld1 = Ok ld'" by auto
    with 3 loaded_step_cases(3) [of E k bs ld ld1] Cons.IH(3) [of ld1 "Suc k"] show ?case by auto
  next
    case 4
    then obtain ld1 where step: "loaded_step E k bs ld = Ok ld1" and rest: "loaded_loop E (Suc k) events ld1 = Ok ld'" by auto
    show ?case
    proof (cases "apply_event E (ld_state ld) bs")
      case (Ok s)
      with step 4 have s: "ld_state ld1 = s" "ld_violation ld1 = None" using loaded_step_cases(3) [OF step] by auto
      have "next_seq s = next_seq (ld_state ld) + 1" using Ok by (rule apply_next)
      with s 4 Cons.IH(4) [OF _ _ rest] Ok show ?thesis by simp
    next
      case (Err r)
      with step 4 have s: "ld_state ld1 = ld_state ld" "ld_violation ld1 = Some \<lparr>vi_seq = of_nat k, vi_reason = r\<rparr>"
        using loaded_step_cases(3) [OF step] by auto
      with Cons.IH(3) [OF _ rest] Err 4 show ?thesis by simp
    next
      case Panic
      with loaded_step_cases(3) [OF step] 4 show ?thesis by simp
    qed
  }
qed auto

lemma loaded_fold_events:
  assumes "loaded_fold E l events = Ok ld"
  shows "fold_events E events = Ok (ld_state ld, ld_violation ld)" and "ld_ledger ld = l" and "ld_events ld = events"
  using loaded_loop_fold [OF assms [unfolded loaded_fold_def]]
  by (simp_all add: fold_events_def loaded_new_def next_seq_def empty_state_def)

lemma loaded_fold_total:
  assumes "fold_events E events \<noteq> Panic"
  shows "\<exists>ld. loaded_fold E l events = Ok ld"
proof -
  have "loaded_loop E k evs ld \<noteq> Panic \<and> (\<forall>e. loaded_loop E k evs ld \<noteq> Err e)"
    if "ld_violation ld = None \<Longrightarrow> fold_from E (ld_state ld) evs \<noteq> Panic" for k evs ld
    using that
  proof (induction evs arbitrary: k ld)
    case (Cons bs evs)
    show ?case
    proof (cases "loaded_step E k bs ld")
      case (Ok ld1)
      from loaded_step_cases(3) [OF Ok] Cons.prems have "ld_violation ld1 = None \<Longrightarrow> fold_from E (ld_state ld1) evs \<noteq> Panic"
        by (auto split: if_splits outcome.splits)
      with Cons.IH [of ld1] Ok show ?thesis by simp
    qed (use Cons.prems in \<open>auto simp: loaded_step_def Let_def split: if_splits outcome.splits\<close>)
  qed simp
  from this [of "loaded_new l events" events 0] assms show ?thesis
    by (cases "loaded_fold E l events") (simp_all add: loaded_fold_def fold_events_def loaded_new_def)
qed

text \<open>An edge of the summary is an attestation that stands.\<close>

lemma summary_trust: "t \<in> set (cy_trust (summary_of ld)) \<Longrightarrow>
    \<exists>a. (tr_attestation_event t, a) \<in> set (ls_trust (ld_state ld)) \<and> at_subject a = tr_subject t \<and> \<not> is_revoked a"
  by (auto simp: summary_of_def Let_def)

lemma summary_ledger [simp]: "cy_ledger (summary_of ld) = ld_ledger ld"
  by (simp add: summary_of_def Let_def)

end
