(* ===== verification/Peer_Hints.thy ===== *)
theory Peer_Hints
  imports Graph_Model
begin

text \<open>
  \<open>peers.json\<close> (\<open>crates/mabel-node/src/peers.rs\<close>): where to look for a ledger, as a cache
  with a cap, an age-out and an eviction rule. The JSON reader of old files is left out.
\<close>

section \<open>Hints\<close>

definition MAX_HINTS :: nat where "MAX_HINTS = 8"
definition HINT_MAX_AGE_MS :: u64 where "HINT_MAX_AGE_MS = 30 * 24 * 60 * 60 * 1000"
definition MAX_FAILURES :: "32 word" where "MAX_FAILURES = 3"

record peer_hint =
  hi_endpoint :: public_key
  hi_first_seen_ms :: u64
  hi_last_success_ms :: u64
  hi_failures :: "32 word"

definition hint_served :: "public_key \<Rightarrow> u64 \<Rightarrow> peer_hint" where
  "hint_served endpoint now =
     \<lparr>hi_endpoint = endpoint, hi_first_seen_ms = now, hi_last_success_ms = now, hi_failures = 0\<rparr>"

definition hint_undated :: "public_key \<Rightarrow> peer_hint" where
  "hint_undated endpoint =
     \<lparr>hi_endpoint = endpoint, hi_first_seen_ms = 0, hi_last_success_ms = 0, hi_failures = 0\<rparr>"

definition aged_out :: "peer_hint \<Rightarrow> u64 \<Rightarrow> bool" where
  "aged_out h now =
     (let stamp = (if hi_last_success_ms h > hi_first_seen_ms h then hi_last_success_ms h else hi_first_seen_ms h) in
      if stamp = 0 then False else saturating_sub now stamp > HINT_MAX_AGE_MS)"

definition hint_live :: "peer_hint \<Rightarrow> u64 \<Rightarrow> bool" where
  "hint_live h now \<longleftrightarrow> hi_failures h < MAX_FAILURES \<and> \<not> aged_out h now"

section \<open>The file\<close>

type_synonym peers = "(ledger_id, peer_hint list) btree_map"

definition hints_of :: "peers \<Rightarrow> ledger_id \<Rightarrow> peer_hint list" where
  "hints_of p l = (case bt_get p l of None \<Rightarrow> [] | Some hs \<Rightarrow> hs)"

text \<open>The first hint with the endpoint is refreshed in place.\<close>

definition refresh :: "u64 \<Rightarrow> peer_hint \<Rightarrow> peer_hint" where
  "refresh now h = h\<lparr>hi_last_success_ms := now, hi_failures := 0,
     hi_first_seen_ms := (if hi_first_seen_ms h = 0 then now else hi_first_seen_ms h)\<rparr>"

fun update_first :: "('a \<Rightarrow> bool) \<Rightarrow> ('a \<Rightarrow> 'a) \<Rightarrow> 'a list \<Rightarrow> 'a list" where
  "update_first P f [] = []"
| "update_first P f (x # xs) = (if P x then f x # xs else x # update_first P f xs)"

text \<open>The index of the hint with the oldest success, then the oldest first sight, then the least index.\<close>

definition older :: "peer_hint \<Rightarrow> peer_hint \<Rightarrow> bool" where
  "older a b \<longleftrightarrow> hi_last_success_ms a < hi_last_success_ms b
     \<or> hi_last_success_ms a = hi_last_success_ms b \<and> hi_first_seen_ms a < hi_first_seen_ms b"

fun oldest :: "nat \<Rightarrow> nat \<Rightarrow> peer_hint \<Rightarrow> peer_hint list \<Rightarrow> nat" where
  "oldest index best b [] = best"
| "oldest index best b (h # hs) = (if older h b then oldest (Suc index) index h hs else oldest (Suc index) best b hs)"

definition oldest_index :: "peer_hint list \<Rightarrow> nat option" where
  "oldest_index hs = (case hs of [] \<Rightarrow> None | h # hs \<Rightarrow> Some (oldest 1 0 h hs))"

definition remove_at :: "nat \<Rightarrow> 'a list \<Rightarrow> 'a list" where
  "remove_at i xs = take i xs @ drop (Suc i) xs"

lemma oldest_less: "best < index + length hs \<Longrightarrow> oldest index best b hs < index + length hs"
  by (induction index best b hs rule: oldest.induct) fastforce+

lemma oldest_index_less: "oldest_index hs = Some i \<Longrightarrow> i < length hs"
  using oldest_less [of 0 1] by (auto simp: oldest_index_def split: list.splits)

lemma length_remove_at [simp]: "i < length xs \<Longrightarrow> length (remove_at i xs) = length xs - 1"
  by (simp add: remove_at_def)

function evict :: "peer_hint list \<Rightarrow> peer_hint list" where
  "evict hs =
     (if length hs > MAX_HINTS
      then (case oldest_index hs of Some i \<Rightarrow> evict (remove_at i hs) | None \<Rightarrow> hs)
      else hs)"
  by pat_completeness auto
termination by (relation "measure length") (auto dest: oldest_index_less)

declare evict.simps [simp del]

definition record_success :: "ledger_id \<Rightarrow> public_key \<Rightarrow> u64 \<Rightarrow> peers \<Rightarrow> peers" where
  "record_success l endpoint now p =
     (let hs = hints_of p l in
      if \<exists>h\<in>set hs. hi_endpoint h = endpoint
      then bt_insert l (update_first (\<lambda>h. hi_endpoint h = endpoint) (refresh now) hs) p
      else bt_insert l (evict (hs @ [hint_served endpoint now])) p)"

definition saturating_inc :: "32 word \<Rightarrow> 32 word" where
  "saturating_inc w = (if w = - 1 then w else w + 1)"

fun position_of :: "('a \<Rightarrow> bool) \<Rightarrow> 'a list \<Rightarrow> nat option" where
  "position_of P [] = None"
| "position_of P (x # xs) = (if P x then Some 0 else map_option Suc (position_of P xs))"

definition record_failure :: "ledger_id \<Rightarrow> public_key \<Rightarrow> peers \<Rightarrow> bool \<times> peers" where
  "record_failure l endpoint p =
     (case bt_get p l of
        None \<Rightarrow> (False, p)
      | Some hs \<Rightarrow> (case position_of (\<lambda>h. hi_endpoint h = endpoint) hs of
            None \<Rightarrow> (False, p)
          | Some i \<Rightarrow>
              let h = hs ! i; h = h\<lparr>hi_failures := saturating_inc (hi_failures h)\<rparr>; hs = hs[i := h] in
              if hi_failures h < MAX_FAILURES then (False, bt_insert l hs p)
              else let hs = remove_at i hs in
                (True, if hs = [] then bt_remove l p else bt_insert l hs p)))"

text \<open>Freshest success first; the sort is stable, so equal stamps keep the order of the file.\<close>

definition hints_at :: "peers \<Rightarrow> ledger_id \<Rightarrow> u64 \<Rightarrow> public_key list" where
  "hints_at p l now =
     (case bt_get p l of
        None \<Rightarrow> []
      | Some hs \<Rightarrow> map hi_endpoint (sort_key (\<lambda>h. - 1 - hi_last_success_ms h) (filter (\<lambda>h. hint_live h now) hs)))"

definition peers_hold :: "peers \<Rightarrow> ledger_id \<Rightarrow> public_key \<Rightarrow> bool" where
  "peers_hold p l endpoint =
     (case bt_get p l of None \<Rightarrow> False | Some hs \<Rightarrow> \<exists>h\<in>set hs. hi_endpoint h = endpoint)"

definition prune :: "u64 \<Rightarrow> peers \<Rightarrow> bool \<times> peers" where
  "prune now p =
     (let kept = map (\<lambda>(l, hs). (l, filter (\<lambda>h. \<not> aged_out h now) hs)) p;
          dropped = (\<exists>e\<in>set p. length (filter (\<lambda>h. \<not> aged_out h now) (snd e)) \<noteq> length (snd e));
          q = filter (\<lambda>e. snd e \<noteq> []) kept
      in (dropped \<or> length q \<noteq> length kept, q))"

section \<open>What every file keeps\<close>

text \<open>A hint list is not empty, is under the cap, names an endpoint once, and no hint is at the failure limit.\<close>

definition hints_ok :: "peer_hint list \<Rightarrow> bool" where
  "hints_ok hs \<longleftrightarrow> hs \<noteq> [] \<and> length hs \<le> MAX_HINTS \<and> distinct (map hi_endpoint hs) \<and> (\<forall>h\<in>set hs. hi_failures h < MAX_FAILURES)"

definition peers_ok :: "peers \<Rightarrow> bool" where
  "peers_ok p \<longleftrightarrow> bt_wf p \<and> (\<forall>l hs. bt_get p l = Some hs \<longrightarrow> hints_ok hs)"

inductive peers_reach :: "peers \<Rightarrow> bool" where
  start: "peers_reach []"
| success: "peers_reach p \<Longrightarrow> peers_reach (record_success l endpoint now p)"
| failure: "peers_reach p \<Longrightarrow> peers_reach (snd (record_failure l endpoint p))"
| pruned: "peers_reach p \<Longrightarrow> peers_reach (snd (prune now p))"

lemma set_remove_at: "set (remove_at i xs) \<subseteq> set xs"
  by (auto simp: remove_at_def dest: in_set_takeD in_set_dropD)

lemma distinct_remove_at: "distinct (map f xs) \<Longrightarrow> distinct (map f (remove_at i xs))"
proof -
  assume d: "distinct (map f xs)"
  have "distinct (take i (map f xs) @ drop (Suc i) (map f xs))"
    using d set_take_disj_set_drop_if_distinct [OF d, of i "Suc i"] by simp
  then show ?thesis by (simp add: remove_at_def take_map drop_map)
qed

lemma evict_spec:
  "distinct (map hi_endpoint hs) \<Longrightarrow> set (evict hs) \<subseteq> set hs \<and> distinct (map hi_endpoint (evict hs))
     \<and> length (evict hs) = min (length hs) MAX_HINTS"
proof (induction hs rule: evict.induct)
  case (1 hs)
  show ?case
  proof (cases "length hs > MAX_HINTS")
    case True
    then obtain h t where "hs = h # t" by (cases hs) auto
    then obtain i where i: "oldest_index hs = Some i" by (simp add: oldest_index_def)
    then have eq: "evict hs = evict (remove_at i hs)" using True by (subst evict.simps) simp
    have len: "length (remove_at i hs) = length hs - 1" using oldest_index_less [OF i] by simp
    show ?thesis
      using "1.IH" [OF True i distinct_remove_at [OF "1.prems"]] set_remove_at [of i hs] len True unfolding eq by auto
  qed (use 1 in \<open>simp add: evict.simps\<close>)
qed

lemma update_first_spec:
  "\<forall>x. g (f x) = g x \<Longrightarrow> map g (update_first P f xs) = map g xs"
  "\<forall>x\<in>set xs. Q x \<Longrightarrow> \<forall>x. Q (f x) \<Longrightarrow> \<forall>x\<in>set (update_first P f xs). Q x"
  "length (update_first P f xs) = length xs"
  by (induction xs) auto

lemma position_of_Some: "position_of P xs = Some i \<Longrightarrow> i < length xs \<and> P (xs ! i)"
  by (induction xs arbitrary: i) (auto split: if_splits)

lemma served_fresh [simp]: "hi_failures (hint_served e now) = 0" "hi_endpoint (hint_served e now) = e"
  "hi_endpoint (refresh now h) = hi_endpoint h" "hi_failures (refresh now h) = 0"
  by (simp_all add: hint_served_def refresh_def)

lemma success_ok:
  assumes "peers_ok p"
  shows "peers_ok (record_success l e now p)"
proof -
  let ?hs = "hints_of p l"
  have old: "length ?hs \<le> MAX_HINTS" "distinct (map hi_endpoint ?hs)" "\<forall>h\<in>set ?hs. hi_failures h < MAX_FAILURES"
    using assms by (cases "bt_get p l"; auto simp: peers_ok_def hints_ok_def hints_of_def)+
  have put: "peers_ok (bt_insert l hs p)" if "hints_ok hs" for hs
    using that assms by (auto simp: peers_ok_def bt_get_insert bt_wf_insert)
  show ?thesis
  proof (cases "\<exists>h\<in>set ?hs. hi_endpoint h = e")
    case True
    then have "?hs \<noteq> []" by auto
    have "hints_ok (update_first (\<lambda>h. hi_endpoint h = e) (refresh now) ?hs)"
      unfolding hints_ok_def using old \<open>?hs \<noteq> []\<close> update_first_spec(3) [of "\<lambda>h. hi_endpoint h = e" "refresh now" ?hs]
      by (intro conjI update_first_spec(2)) (auto simp: update_first_spec(1) MAX_FAILURES_def)
    with True put show ?thesis by (simp add: record_success_def Let_def)
  next
    case False
    then have "distinct (map hi_endpoint (?hs @ [hint_served e now]))" using old by auto
    from evict_spec [OF this] old have "hints_ok (evict (?hs @ [hint_served e now]))"
      by (auto simp: hints_ok_def MAX_HINTS_def MAX_FAILURES_def)
    with False put show ?thesis by (simp add: record_success_def Let_def)
  qed
qed

lemma failure_ok:
  assumes "peers_ok p"
  shows "peers_ok (snd (record_failure l e p))"
proof (cases "bt_get p l")
  case (Some hs)
  have hs: "hints_ok hs" using assms Some by (simp add: peers_ok_def)
  show ?thesis
  proof (cases "position_of (\<lambda>h. hi_endpoint h = e) hs")
    case (Some i)
    define h where "h = (hs ! i)\<lparr>hi_failures := saturating_inc (hi_failures (hs ! i))\<rparr>"
    have i: "i < length hs" using position_of_Some [OF Some] by simp
    have same: "map hi_endpoint (hs[i := h]) = map hi_endpoint hs"
      using i by (simp add: map_update h_def list_update_same_conv)
    have put: "peers_ok (bt_insert l hs' p)" if "hints_ok hs'" for hs'
      using that assms by (auto simp: peers_ok_def bt_get_insert bt_wf_insert)
    have others: "\<forall>x\<in>set (remove_at i (hs[i := h])). hi_failures x < MAX_FAILURES"
      using hs i by (auto simp: remove_at_def hints_ok_def dest: in_set_takeD in_set_dropD)
    have "hints_ok (hs[i := h])" if "hi_failures h < MAX_FAILURES"
      using hs that same set_update_subset_insert [of hs i h] by (auto simp: hints_ok_def)
    moreover have "hints_ok (remove_at i (hs[i := h]))" if "remove_at i (hs[i := h]) \<noteq> []"
      using hs i that others distinct_remove_at [of hi_endpoint "hs[i := h]" i] same by (auto simp: hints_ok_def)
    moreover have "peers_ok (bt_remove l p)" using assms by (auto simp: peers_ok_def bt_get_remove bt_wf_remove split: if_splits)
    moreover have "snd (record_failure l e p) = (if hi_failures h < MAX_FAILURES then bt_insert l (hs[i := h]) p
        else if remove_at i (hs[i := h]) = [] then bt_remove l p else bt_insert l (remove_at i (hs[i := h])) p)"
      using \<open>bt_get p l = Some hs\<close> Some by (simp add: record_failure_def Let_def h_def)
    ultimately show ?thesis using put by simp
  qed (use assms Some in \<open>simp add: record_failure_def\<close>)
qed (use assms in \<open>simp add: record_failure_def\<close>)

lemma bt_wf_filter: "bt_wf m \<Longrightarrow> bt_wf (filter P m)"
  by (induction m) (auto simp: bt_wf_def)

lemma prune_ok:
  assumes "peers_ok p"
  shows "peers_ok (snd (prune now p))"
proof -
  let ?f = "filter (\<lambda>h. \<not> aged_out h now)"
  have wf: "bt_wf (map (\<lambda>(l, hs). (l, ?f hs)) p)"
    using assms by (simp add: peers_ok_def bt_wf_def comp_def split_def)
  then have wf2: "bt_wf (snd (prune now p))" by (simp add: prune_def Let_def bt_wf_filter)
  have "hints_ok hs" if "(l, hs) \<in> set (snd (prune now p))" for l hs
  proof -
    from that obtain hs' where "(l, hs') \<in> set p" and hs: "hs = ?f hs'" "hs \<noteq> []"
      by (auto simp: prune_def Let_def)
    with assms have "hints_ok hs'" by (auto simp: peers_ok_def bt_get_mem)
    with hs show ?thesis
      using le_trans [OF length_filter_le, of hs' MAX_HINTS] distinct_map_filter [of hi_endpoint hs']
      by (simp add: hints_ok_def)
  qed
  with wf2 show ?thesis by (auto simp: peers_ok_def bt_get_mem)
qed

lemma peers_reach_ok: "peers_reach p \<Longrightarrow> peers_ok p"
  by (induction rule: peers_reach.induct) (auto simp: success_ok failure_ok prune_ok peers_ok_def [of "[]"])

section \<open>A success is remembered\<close>

lemma oldest_not_last:
  "\<forall>x\<in>set (b # hs). \<not> older h x \<Longrightarrow> best < index + length hs \<Longrightarrow> best < index \<Longrightarrow> oldest index best b (hs @ [h]) < index + length hs"
  by (induction index best b hs rule: oldest.induct) fastforce+

lemma evict_keeps_last:
  assumes "length hs \<le> MAX_HINTS" and "\<forall>x\<in>set hs. \<not> older h x"
  shows "h \<in> set (evict (hs @ [h]))"
proof (cases "length hs < MAX_HINTS")
  case True
  then show ?thesis by (simp add: evict.simps)
next
  case False
  with assms(1) have len: "length hs = MAX_HINTS" by simp
  then obtain b t where hs: "hs = b # t" by (cases hs) (auto simp: MAX_HINTS_def)
  define i where "i = oldest 1 0 b (t @ [h])"
  have i: "i < length hs" using oldest_not_last [of b t h 0 1] assms(2) hs by (simp add: i_def)
  have "oldest_index (hs @ [h]) = Some i" by (simp add: hs oldest_index_def i_def)
  then have "evict (hs @ [h]) = evict (remove_at i (hs @ [h]))" using len by (subst evict.simps) simp
  also have "\<dots> = remove_at i (hs @ [h])" using i len by (simp add: evict.simps)
  finally show ?thesis using i by (simp add: remove_at_def)
qed

lemma fresh_live: "hi_last_success_ms h = now \<Longrightarrow> hi_first_seen_ms h \<le> now \<Longrightarrow> hi_failures h = 0 \<Longrightarrow> hint_live h now"
  by (auto simp: hint_live_def aged_out_def saturating_sub_def Let_def MAX_FAILURES_def HINT_MAX_AGE_MS_def)

text \<open>Every stamp of the ledger's hints is in the past.\<close>

definition stamped_by :: "u64 \<Rightarrow> peers \<Rightarrow> ledger_id \<Rightarrow> bool" where
  "stamped_by now p l \<longleftrightarrow> (\<forall>h\<in>set (hints_of p l). hi_last_success_ms h \<le> now \<and> hi_first_seen_ms h \<le> now)"

lemma success_listed:
  assumes "peers_ok p" and "stamped_by now p l"
  shows "e \<in> set (hints_at (record_success l e now p) l now)"
proof -
  let ?hs = "hints_of p l"
  have len: "length ?hs \<le> MAX_HINTS" using assms(1) by (cases "bt_get p l") (auto simp: peers_ok_def hints_ok_def hints_of_def)
  have "\<exists>hs h. bt_get (record_success l e now p) l = Some hs \<and> h \<in> set hs \<and> hi_endpoint h = e \<and> hint_live h now"
  proof (cases "\<exists>h\<in>set ?hs. hi_endpoint h = e")
    case True
    have found: "\<exists>h\<in>set (update_first (\<lambda>h. hi_endpoint h = e) (refresh now) xs). hi_endpoint h = e \<and> hint_live h now"
      if "\<exists>h\<in>set xs. hi_endpoint h = e" "\<forall>h\<in>set xs. hi_first_seen_ms h \<le> now" for xs
      using that
    proof (induction xs)
      case (Cons x xs)
      have "hint_live (refresh now x) now" if "hi_first_seen_ms x \<le> now"
        by (rule fresh_live) (use that in \<open>simp_all add: refresh_def\<close>)
      with Cons show ?case by auto
    qed simp
    from found [OF True] assms(2) True show ?thesis
      by (auto simp: record_success_def Let_def bt_get_insert stamped_by_def)
  next
    case False
    have "\<forall>x\<in>set ?hs. \<not> older (hint_served e now) x"
      using assms(2) by (auto simp: older_def hint_served_def stamped_by_def)
    from evict_keeps_last [OF len this] have "hint_served e now \<in> set (evict (?hs @ [hint_served e now]))" .
    moreover have "hint_live (hint_served e now) now" by (rule fresh_live) (simp_all add: hint_served_def)
    ultimately show ?thesis using False by (auto simp: record_success_def Let_def bt_get_insert)
  qed
  then show ?thesis by (force simp: hints_at_def)
qed

end
