(* ===== verification/Graph_Search.thy ===== *)
theory Graph_Search
  imports BTree_Map
begin

text \<open>
  The breadth-first search of the graph reader, which the code writes three times
  (\<open>distances_from\<close> and \<open>distances_to\<close> of \<open>graph/store.rs\<close>, \<open>distances\<close> of \<open>graph/crawl.rs\<close>):
  a map of what was seen with its depth, and a frontier. The graph is a map from a node
  to the list of its neighbours. The search computes distances in the relation the map
  stands for.
\<close>

section \<open>The search\<close>

definition neighbours :: "('k, 'k list) btree_map \<Rightarrow> 'k \<Rightarrow> 'k list" where
  "neighbours adj x = (case bt_get adj x of None \<Rightarrow> [] | Some ys \<Rightarrow> ys)"

type_synonym 'k seen = "('k, nat) btree_map"

definition bfs_visit :: "nat \<Rightarrow> 'k::linorder seen \<times> 'k list \<Rightarrow> 'k \<Rightarrow> 'k seen \<times> 'k list" where
  "bfs_visit depth acc x =
     (if bt_get (fst acc) x \<noteq> None then acc else (bt_insert x depth (fst acc), snd acc @ [x]))"

definition bfs_level :: "('k::linorder, 'k list) btree_map \<Rightarrow> nat \<Rightarrow> 'k seen \<Rightarrow> 'k list \<Rightarrow> 'k seen \<times> 'k list" where
  "bfs_level adj depth seen frontier =
     foldl (\<lambda>acc x. foldl (bfs_visit depth) acc (neighbours adj x)) (seen, []) frontier"

definition adj_targets :: "('k, 'k list) btree_map \<Rightarrow> 'k set" where
  "adj_targets adj = (\<Union>e\<in>set adj. set (snd e))"

definition seen_keys :: "'k seen \<Rightarrow> 'k set" where
  "seen_keys seen = {x. bt_get seen x \<noteq> None}"

lemma neighbours_targets: "set (neighbours adj x) \<subseteq> adj_targets adj"
  by (cases "bt_get adj x") (force simp: neighbours_def adj_targets_def bt_get_def dest: map_of_SomeD)+

text \<open>One level: the targets not seen before, in the order they are met, each with the depth.\<close>

lemma bfs_visits:
  assumes "foldl (bfs_visit d) (seen, nxt) xs = (seen', nxt')"
  shows "\<exists>new. nxt' = nxt @ new \<and> set new = set xs - seen_keys seen
    \<and> (\<forall>x. bt_get seen' x = (if x \<in> set new then Some d else bt_get seen x))"
  using assms
proof (induction xs arbitrary: seen nxt)
  case (Cons y xs)
  show ?case
  proof (cases "bt_get seen y")
    case None
    then have "bfs_visit d (seen, nxt) y = (bt_insert y d seen, nxt @ [y])" by (simp add: bfs_visit_def)
    with Cons.prems have "foldl (bfs_visit d) (bt_insert y d seen, nxt @ [y]) xs = (seen', nxt')" by simp
    from Cons.IH [OF this] obtain new where "nxt' = (nxt @ [y]) @ new"
      and "set new = set xs - seen_keys (bt_insert y d seen)"
      and "\<forall>x. bt_get seen' x = (if x \<in> set new then Some d else bt_get (bt_insert y d seen) x)" by blast
    with None show ?thesis by (intro exI [of _ "y # new"]) (auto simp: seen_keys_def bt_get_insert)
  next
    case (Some k)
    then have "bfs_visit d (seen, nxt) y = (seen, nxt)" by (simp add: bfs_visit_def)
    with Cons.prems have "foldl (bfs_visit d) (seen, nxt) xs = (seen', nxt')" by simp
    from Cons.IH [OF this] Some show ?thesis by (auto simp: seen_keys_def)
  qed
qed (auto simp: seen_keys_def)

lemma bfs_level_concat:
  "bfs_level adj d seen frontier = foldl (bfs_visit d) (seen, []) (concat (map (neighbours adj) frontier))"
proof -
  have "foldl (\<lambda>acc x. foldl (bfs_visit d) acc (neighbours adj x)) acc xs
      = foldl (bfs_visit d) acc (concat (map (neighbours adj) xs))" for acc xs
    by (induction xs arbitrary: acc) auto
  then show ?thesis by (simp add: bfs_level_def)
qed

lemma bfs_level_spec:
  assumes "bfs_level adj d seen frontier = (seen', nxt)"
  shows "set nxt = (\<Union>x\<in>set frontier. set (neighbours adj x)) - seen_keys seen"
    and "bt_get seen' x = (if x \<in> set nxt then Some d else bt_get seen x)"
  using bfs_visits [OF assms [unfolded bfs_level_concat]] by auto

function bfs_loop :: "('k::linorder, 'k list) btree_map \<Rightarrow> nat \<Rightarrow> 'k seen \<Rightarrow> 'k list \<Rightarrow> 'k seen" where
  "bfs_loop adj depth seen frontier =
     (if frontier = [] then seen
      else let r = bfs_level adj (depth + 1) seen frontier in bfs_loop adj (depth + 1) (fst r) (snd r))"
  by pat_completeness auto

text \<open>A level that finds something leaves fewer targets unseen; one that finds nothing is the last.\<close>

termination
proof (relation "measure (\<lambda>(adj, depth, seen, frontier).
    card (adj_targets adj - seen_keys seen) + (if frontier = [] then 0 else 1))")
  fix adj :: "('k::linorder, 'k list) btree_map" and depth seen frontier r
  assume "frontier \<noteq> []" and r: "r = bfs_level adj (depth + 1) seen frontier"
  obtain seen' nxt where rr: "r = (seen', nxt)" by (cases r)
  note spec = bfs_level_spec [OF trans [OF r [symmetric] rr]]
  have fin: "finite (adj_targets adj)" by (simp add: adj_targets_def)
  have sub: "set nxt \<subseteq> adj_targets adj - seen_keys seen" using spec(1) neighbours_targets by fastforce
  have keys: "seen_keys seen' = seen_keys seen \<union> set nxt" using spec(2) by (auto simp: seen_keys_def)
  have "nxt = [] \<or> card (adj_targets adj - seen_keys seen') < card (adj_targets adj - seen_keys seen)"
    using sub fin keys by (cases nxt) (auto intro!: psubset_card_mono)
  moreover have "card (adj_targets adj - seen_keys seen') \<le> card (adj_targets adj - seen_keys seen)"
    using fin keys by (auto intro!: card_mono)
  ultimately show "((adj, depth + 1, fst r, snd r), adj, depth, seen, frontier)
      \<in> measure (\<lambda>(adj, depth, seen, frontier). card (adj_targets adj - seen_keys seen) + (if frontier = [] then 0 else 1))"
    using \<open>frontier \<noteq> []\<close> rr by auto
qed simp

declare bfs_loop.simps [simp del]

definition bfs :: "('k::linorder, 'k list) btree_map \<Rightarrow> 'k \<Rightarrow> 'k seen" where
  "bfs adj from = bfs_loop adj 0 (bt_insert from 0 []) [from]"

section \<open>Distances\<close>

text \<open>The length of the shortest path in a relation, from any of a set of starts.\<close>

definition distance :: "('k \<times> 'k) set \<Rightarrow> 'k set \<Rightarrow> 'k \<Rightarrow> nat \<Rightarrow> bool" where
  "distance R S x k \<longleftrightarrow> (\<exists>s\<in>S. (s, x) \<in> R ^^ k) \<and> (\<forall>j<k. \<forall>s\<in>S. (s, x) \<notin> R ^^ j)"

lemma distance_unique: "distance R S x k \<Longrightarrow> distance R S x j \<Longrightarrow> k = j"
  by (meson distance_def linorder_neqE_nat)

lemma distance_ex: "s \<in> S \<Longrightarrow> (s, x) \<in> R ^^ j \<Longrightarrow> \<exists>k\<le>j. distance R S x k"
  using exists_least_iff [of "\<lambda>k. \<exists>s\<in>S. (s, x) \<in> R ^^ k"] unfolding distance_def
  by (metis linorder_le_less_linear)

lemma distance_0: "distance R S x 0 \<longleftrightarrow> x \<in> S"
  by (auto simp: distance_def)

lemma distance_Suc: "distance R S y (Suc k) \<Longrightarrow> \<exists>x. distance R S x k \<and> (x, y) \<in> R"
proof -
  assume d: "distance R S y (Suc k)"
  then obtain s x where "s \<in> S" and sx: "(s, x) \<in> R ^^ k" and xy: "(x, y) \<in> R" by (auto simp: distance_def)
  have "(t, x) \<notin> R ^^ j" if "j < k" "t \<in> S" for j t
    using d xy that by (metis Suc_less_eq distance_def relpow_Suc_I)
  with \<open>s \<in> S\<close> sx have "distance R S x k" by (auto simp: distance_def)
  with xy show ?thesis by blast
qed

lemma distance_step: "distance R S x k \<Longrightarrow> (x, y) \<in> R \<Longrightarrow> \<exists>j\<le>Suc k. distance R S y j"
  by (meson distance_def distance_ex relpow_Suc_I)

lemma distance_below: "distance R S x k \<Longrightarrow> j \<le> k \<Longrightarrow> \<exists>y. distance R S y j"
proof (induction k arbitrary: x)
  case (Suc k)
  then show ?case by (metis distance_Suc le_Suc_eq)
qed auto

lemma relpow_converse:
  fixes R :: "('a \<times> 'a) set"
  shows "(x, y) \<in> (R\<inverse>) ^^ k \<longleftrightarrow> (y, x) \<in> R ^^ k"
proof (induction k arbitrary: x y)
  case (Suc k)
  have "(x, y) \<in> (R\<inverse>) ^^ Suc k \<longleftrightarrow> (\<exists>z. (x, z) \<in> (R\<inverse>) ^^ k \<and> (y, z) \<in> R)" by auto
  also have "\<dots> \<longleftrightarrow> (\<exists>z. (y, z) \<in> R \<and> (z, x) \<in> R ^^ k)" using Suc by blast
  also have "\<dots> \<longleftrightarrow> (y, x) \<in> R ^^ Suc k" by (metis relpow_Suc_D2 relpow_Suc_I2)
  finally show ?case .
qed auto

lemma distance_converse: "distance (R\<inverse>) {t} x k \<longleftrightarrow> (x, t) \<in> R ^^ k \<and> (\<forall>j<k. (x, t) \<notin> R ^^ j)"
  by (simp add: distance_def relpow_converse)

lemma distance_single: "distance R {s} x k \<longleftrightarrow> (s, x) \<in> R ^^ k \<and> (\<forall>j<k. (s, x) \<notin> R ^^ j)"
  by (simp add: distance_def)

section \<open>The search computes distances\<close>

text \<open>
  The loop at depth \<open>d\<close>: what is seen is what is no further than \<open>d\<close>, and the frontier is at \<open>d\<close>.
  A level moves both to the next depth.
\<close>

definition bfs_at :: "('k \<times> 'k) set \<Rightarrow> 'k \<Rightarrow> nat \<Rightarrow> 'k seen \<Rightarrow> 'k list \<Rightarrow> bool" where
  "bfs_at R s d seen frontier \<longleftrightarrow> (\<forall>x k. bt_get seen x = Some k \<longleftrightarrow> k \<le> d \<and> distance R {s} x k)
     \<and> (\<forall>x. x \<in> set frontier \<longleftrightarrow> distance R {s} x d)"

lemma bfs_level_at:
  assumes adj: "\<forall>x. set (neighbours adj x) = {y. (x, y) \<in> R}" and at: "bfs_at R s d seen frontier"
    and level: "bfs_level adj (Suc d) seen frontier = (seen', nxt)"
  shows "bfs_at R s (Suc d) seen' nxt"
proof -
  have keys: "x \<in> seen_keys seen \<longleftrightarrow> (\<exists>k\<le>d. distance R {s} x k)" for x
    using at by (auto simp: seen_keys_def bfs_at_def)
  have nxt: "y \<in> set nxt \<longleftrightarrow> distance R {s} y (Suc d)" for y
  proof
    assume "y \<in> set nxt"
    then obtain x where x: "distance R {s} x d" "(x, y) \<in> R" and new: "y \<notin> seen_keys seen"
      using bfs_level_spec(1) [OF level] adj at by (auto simp: bfs_at_def)
    obtain j where j: "j \<le> Suc d" "distance R {s} y j" using distance_step [OF x] by metis
    with new keys [of y] have "\<not> j \<le> d" by blast
    with j(1) have "j = Suc d" by simp
    with j(2) show "distance R {s} y (Suc d)" by simp
  next
    assume d: "distance R {s} y (Suc d)"
    obtain x where "distance R {s} x d" "(x, y) \<in> R" using distance_Suc [OF d] by metis
    moreover from d have "y \<notin> seen_keys seen" using keys distance_unique by fastforce
    ultimately show "y \<in> set nxt" using bfs_level_spec(1) [OF level] adj at by (auto simp: bfs_at_def)
  qed
  have "bt_get seen' x = Some k \<longleftrightarrow> k \<le> Suc d \<and> distance R {s} x k" for x k
  proof (cases "distance R {s} x (Suc d)")
    case True
    then have "bt_get seen' x = Some (Suc d)" using nxt bfs_level_spec(2) [OF level] by simp
    moreover have "distance R {s} x k \<longleftrightarrow> k = Suc d" using True distance_unique by metis
    ultimately show ?thesis by auto
  next
    case False
    then have "bt_get seen' x = bt_get seen x" using nxt bfs_level_spec(2) [OF level] by simp
    with False at show ?thesis by (metis bfs_at_def le_SucI le_Suc_eq)
  qed
  with nxt show ?thesis by (simp add: bfs_at_def)
qed

lemma bfs_loop_at:
  assumes "\<forall>x. set (neighbours adj x) = {y. (x, y) \<in> R}" and "bfs_at R s d seen frontier"
  shows "bt_get (bfs_loop adj d seen frontier) x = Some k \<longleftrightarrow> distance R {s} x k"
  using assms
proof (induction adj d seen frontier rule: bfs_loop.induct)
  case (1 adj d seen frontier)
  show ?case
  proof (cases "frontier = []")
    case True
    with 1(3) have "\<not> distance R {s} y d" for y by (simp add: bfs_at_def)
    then have far: "distance R {s} y j \<Longrightarrow> j \<le> d" for y j by (meson distance_below nat_le_linear)
    have "bfs_loop adj d seen frontier = seen" using True by (subst bfs_loop.simps) simp
    with 1(3) far show ?thesis by (auto simp: bfs_at_def)
  next
    case False
    have "bfs_at R s (Suc d) (fst (bfs_level adj (Suc d) seen frontier)) (snd (bfs_level adj (Suc d) seen frontier))"
      by (rule bfs_level_at [OF 1(2,3)]) simp
    with 1(1) [OF False refl 1(2)] False show ?thesis by (simp add: Let_def bfs_loop.simps [of adj d])
  qed
qed

text \<open>
  What the search relies on: the neighbours a map lists for a node are its successors in
  a relation.
\<close>

locale adjacency =
  fixes adj :: "('k::linorder, 'k list) btree_map" and R :: "('k \<times> 'k) set"
  assumes neighbours_R: "set (neighbours adj x) = {y. (x, y) \<in> R}"
begin

lemma bfs_distance: "bt_get (bfs adj s) x = Some k \<longleftrightarrow> distance R {s} x k"
  unfolding bfs_def
proof (rule bfs_loop_at)
  show "bfs_at R s 0 (bt_insert s 0 []) [s]" by (auto simp: bfs_at_def distance_0 bt_get_def split: if_splits)
qed (simp add: neighbours_R)

lemma bfs_reaches: "bt_get (bfs adj s) x \<noteq> None \<longleftrightarrow> (s, x) \<in> R\<^sup>*"
proof
  assume "bt_get (bfs adj s) x \<noteq> None"
  then obtain k where "distance R {s} x k" using bfs_distance by auto
  then show "(s, x) \<in> R\<^sup>*" by (auto simp: distance_def relpow_imp_rtrancl)
next
  assume "(s, x) \<in> R\<^sup>*"
  then obtain j where "(s, x) \<in> R ^^ j" using rtrancl_imp_relpow by blast
  then obtain k where "distance R {s} x k" using distance_ex [of s "{s}"] by fastforce
  then show "bt_get (bfs adj s) x \<noteq> None" using bfs_distance by auto
qed

end

lemma bfs_loop_wf: "bt_wf seen \<Longrightarrow> bt_wf (bfs_loop adj d seen frontier)"
proof (induction adj d seen frontier rule: bfs_loop.induct)
  case (1 adj d seen frontier)
  have visits: "bt_wf (fst acc) \<Longrightarrow> bt_wf (fst (foldl (bfs_visit k) acc xs))" for acc k xs
  proof (induction xs arbitrary: acc)
    case (Cons x xs)
    have "bt_wf (fst (bfs_visit k acc x))" using Cons.prems by (auto simp: bfs_visit_def intro: bt_wf_insert)
    then show ?case using Cons.IH by simp
  qed simp
  have level: "bt_wf (fst (bfs_level adj (d + 1) seen frontier))" 
    unfolding bfs_level_concat by (rule visits) (simp add: 1(2))
  show ?case
  proof (cases "frontier = []")
    case True
    with 1(2) show ?thesis by (simp add: bfs_loop.simps)
  next
    case False
    with 1(1) [OF False refl level] show ?thesis by (simp add: bfs_loop.simps [of adj d] Let_def)
  qed
qed

lemma bfs_wf: "bt_wf (bfs adj s)"
  unfolding bfs_def by (intro bfs_loop_wf bt_wf_insert) simp

end
