(* ===== verification/Graph_Store.thy ===== *)
theory Graph_Store
  imports Graph_Model Graph_Search
begin

text \<open>
  One crawl and what is read off it (\<open>Generation\<close> of
  \<open>crates/mabel-node/src/graph/store.rs\<close>), and the directory the generations are kept in
  (\<open>GraphStore\<close>). A generation on disk is its summary and its node files; a file holds
  the document that was written to it, and a read or a write succeeds.
\<close>

record generation =
  gen_summary :: graph_summary
  gen_nodes :: "(document_id, graph_node) btree_map"

definition KEPT_GENERATIONS :: nat where "KEPT_GENERATIONS = 2"
definition MAX_PATHS :: nat where "MAX_PATHS = 3"

section \<open>Reading a generation\<close>

definition generation_node :: "generation \<Rightarrow> document_id \<Rightarrow> graph_node option" where
  "generation_node g i = bt_get (gen_nodes g) i"

definition generation_stale :: "generation \<Rightarrow> u64 \<Rightarrow> bool" where
  "generation_stale g now = summary_stale (gen_summary g) now"

text \<open>A stable sort by one field, as \<open>sort_by\<close> does.\<close>

definition reverse_edges_of :: "generation \<Rightarrow> document_id \<Rightarrow> reverse_edges" where
  "reverse_edges_of g i =
     reverse_edges_new (sort_key re_identity (concat (map (\<lambda>n.
       map (\<lambda>e. \<lparr>re_identity = gn_identity_id n, re_attestation_event = ge_attestation_event e, re_seq = ge_seq e\<rparr>)
         (filter (\<lambda>e. ge_subject e = i) (gn_edges n)))
       (map snd (gen_nodes g)))))"

text \<open>What the loop over a node's edges takes: the subjects that are nodes of the generation.\<close>

definition outgoing :: "(document_id, graph_node) btree_map \<Rightarrow> (document_id, document_id list) btree_map" where
  "outgoing nodes =
     map (\<lambda>(i, n). (i, filter (\<lambda>s. bt_get nodes s \<noteq> None) (map ge_subject (gn_edges n)))) nodes"

definition distances_from :: "generation \<Rightarrow> document_id \<Rightarrow> (document_id, nat) btree_map" where
  "distances_from g from = bfs (outgoing (gen_nodes g)) from"

text \<open>\<open>entry(subject).or_default().push(identity)\<close>\<close>

definition push_incoming :: "document_id \<Rightarrow> (document_id, document_id list) btree_map \<Rightarrow> document_id
    \<Rightarrow> (document_id, document_id list) btree_map" where
  "push_incoming i m subject =
     bt_insert subject ((case bt_get m subject of None \<Rightarrow> [] | Some xs \<Rightarrow> xs) @ [i]) m"

definition incoming :: "(document_id, graph_node) btree_map \<Rightarrow> (document_id, document_id list) btree_map" where
  "incoming nodes =
     foldl (\<lambda>m n. foldl (push_incoming (gn_identity_id n)) m
         (filter (\<lambda>s. bt_get nodes s \<noteq> None) (map ge_subject (gn_edges n))))
       [] (map snd nodes)"

definition distances_to :: "generation \<Rightarrow> document_id \<Rightarrow> (document_id, nat) btree_map" where
  "distances_to g to = bfs (incoming (gen_nodes g)) to"

definition degrees :: "generation \<Rightarrow> document_id \<Rightarrow> document_id \<Rightarrow> nat option" where
  "degrees g from to =
     (if from = to then (if bt_get (gen_nodes g) from \<noteq> None then Some 0 else None)
      else bt_get (distances_from g from) to)"

text \<open>
  The walk is recursive in the distance that is left. The paths found so far are passed
  along; the edges of a node are tried in ascending order of subject.
\<close>

definition walk_edge :: "(document_id \<Rightarrow> graph_path \<Rightarrow> graph_path list \<Rightarrow> graph_path list) \<Rightarrow> document_id \<Rightarrow> nat
    \<Rightarrow> (document_id, nat) btree_map \<Rightarrow> graph_path \<Rightarrow> nat \<Rightarrow> graph_path list \<Rightarrow> graph_edge \<Rightarrow> graph_path list" where
  "walk_edge rec at left remaining hops limit found edge =
     (if limit \<le> length found then found
      else if bt_get remaining (ge_subject edge) \<noteq> Some left then found
      else rec (ge_subject edge)
        (hops @ [\<lparr>ph_from = at, ph_to = ge_subject edge, ph_attestation_event = ge_attestation_event edge\<rparr>]) found)"

fun walk :: "generation \<Rightarrow> (document_id, nat) btree_map \<Rightarrow> nat \<Rightarrow> nat \<Rightarrow> document_id \<Rightarrow> graph_path
    \<Rightarrow> graph_path list \<Rightarrow> graph_path list" where
  "walk g remaining limit 0 at hops found = (if limit \<le> length found then found else found @ [hops])"
| "walk g remaining limit (Suc left) at hops found =
     (if limit \<le> length found then found
      else case bt_get (gen_nodes g) at of
        None \<Rightarrow> found
      | Some n \<Rightarrow> foldl (walk_edge (walk g remaining limit left) at left remaining hops limit) found
          (sort_key ge_subject (gn_edges n)))"

definition paths_up_to :: "generation \<Rightarrow> document_id \<Rightarrow> document_id \<Rightarrow> nat \<Rightarrow> graph_path list" where
  "paths_up_to g from to limit =
     (if limit = 0 \<or> bt_get (gen_nodes g) from = None \<or> bt_get (gen_nodes g) to = None then []
      else if from = to then [[]]
      else let remaining = distances_to g to in
        case bt_get remaining from of
          None \<Rightarrow> []
        | Some d \<Rightarrow> walk g remaining limit d from [] [])"

definition paths :: "generation \<Rightarrow> document_id \<Rightarrow> document_id \<Rightarrow> graph_path list" where
  "paths g from to = paths_up_to g from to MAX_PATHS"

section \<open>The directory of generations\<close>

record current_pointer =
  cu_sync_id :: bytes
  cu_written_at_ms :: u64

text \<open>\<open>summary.json\<close> and \<open>nodes/\<close>, by the identity in the file name.\<close>

record generation_files =
  gf_summary :: "graph_summary option"
  gf_nodes :: "(document_id, graph_node) btree_map"

record graph_store =
  gs_current :: "current_pointer option"
  gs_generations :: "(bytes, generation_files) btree_map"

datatype graph_store_error = BadSyncId bytes

definition check_sync_id :: "bytes \<Rightarrow> (graph_store_error, unit) outcome" where
  "check_sync_id s =
     (if s \<noteq> [] \<and> length s \<le> 64 \<and> list_all (\<lambda>b. is_lower b \<or> is_digit b \<or> b = 45) s then Ok ()
      else Err (BadSyncId s))"

definition generation_dir :: "graph_store \<Rightarrow> bytes \<Rightarrow> generation_files" where
  "generation_dir G s =
     (case bt_get (gs_generations G) s of None \<Rightarrow> \<lparr>gf_summary = None, gf_nodes = []\<rparr> | Some f \<Rightarrow> f)"

definition write_generation :: "generation \<Rightarrow> graph_store \<Rightarrow> (graph_store_error, graph_store) outcome" where
  "write_generation g G =
     (let s = gy_sync_id (gen_summary g) in
      obind (check_sync_id s) (\<lambda>_.
      let f = generation_dir G s;
          nodes = foldl (\<lambda>m e. bt_insert (fst e) (snd e) m) (gf_nodes f) (gen_nodes g)
      in Ok (G\<lparr>gs_generations := bt_insert s \<lparr>gf_summary = Some (gen_summary g), gf_nodes = nodes\<rparr> (gs_generations G)\<rparr>)))"

definition set_current :: "bytes \<Rightarrow> u64 \<Rightarrow> graph_store \<Rightarrow> (graph_store_error, graph_store) outcome" where
  "set_current s written G =
     obind (check_sync_id s) (\<lambda>_. Ok (G\<lparr>gs_current := Some \<lparr>cu_sync_id = s, cu_written_at_ms = written\<rparr>\<rparr>))"

definition generation_ids :: "graph_store \<Rightarrow> bytes list" where
  "generation_ids G = sort (filter (\<lambda>s. check_sync_id s = Ok ()) (map fst (gs_generations G)))"

definition collect_one :: "bytes \<Rightarrow> graph_store \<Rightarrow> bytes \<Rightarrow> graph_store" where
  "collect_one keep G s = (if s = keep then G else G\<lparr>gs_generations := bt_remove s (gs_generations G)\<rparr>)"

definition collect :: "bytes \<Rightarrow> graph_store \<Rightarrow> graph_store" where
  "collect keep G =
     (let ids = generation_ids G in foldl (collect_one keep) G (take (length ids - KEPT_GENERATIONS) ids))"

definition publish :: "generation \<Rightarrow> graph_store \<Rightarrow> (graph_store_error, graph_store) outcome" where
  "publish g G =
     obind (write_generation g G) (\<lambda>G.
     obind (set_current (gy_sync_id (gen_summary g)) (gy_last_sync_ms (gen_summary g)) G) (\<lambda>G.
     Ok (collect (gy_sync_id (gen_summary g)) G)))"

text \<open>The node files are read in any order; a file is filed under the identity it names.\<close>

definition read_generation :: "graph_store \<Rightarrow> bytes \<Rightarrow> (graph_store_error, generation option) outcome" where
  "read_generation G s =
     obind (check_sync_id s) (\<lambda>_.
     case gf_summary (generation_dir G s) of
       None \<Rightarrow> Ok None
     | Some summary \<Rightarrow> Ok (Some \<lparr>gen_summary = summary,
         gen_nodes = foldl (\<lambda>m n. bt_insert (gn_identity_id n) n m) [] (map snd (gf_nodes (generation_dir G s)))\<rparr>))"

definition current_generation :: "graph_store \<Rightarrow> (graph_store_error, generation option) outcome" where
  "current_generation G =
     (case gs_current G of None \<Rightarrow> Ok None | Some p \<Rightarrow> read_generation G (cu_sync_id p))"

end
