(* ===== verification/Dial_Budget.thy ===== *)
theory Dial_Budget
  imports Loaded_Ledger Peer_Hints Graph_Store Stateful
begin

text \<open>
  One dial budget and one visited set per operation
  (\<open>crates/mabel-node/src/graph/resolve.rs\<close>), over what the node home holds: the ledgers,
  \<open>peers.json\<close>, the witnesses of \<open>node.json\<close> and the generations of the graph. A mutex makes a method of the resolution
  atomic. The clock is an argument: \<open>now\<close> is the wall clock of \<open>now_ms\<close>, and an instant is a
  number of milliseconds.
\<close>

section \<open>The order of source classes\<close>

fun class_rank :: "source_class \<Rightarrow> nat" where
  "class_rank ClassLocal = 0"
| "class_rank ClassCallerHint = 1"
| "class_rank ClassPeerHint = 2"
| "class_rank ClassNodeWitness = 3"
| "class_rank ClassChainNamed = 4"
| "class_rank ClassDns = 5"

lemma class_rank_inj: "class_rank a = class_rank b \<Longrightarrow> a = b"
  by (cases a; cases b) auto

instantiation source_class :: linorder
begin

definition less_eq_source_class :: "source_class \<Rightarrow> source_class \<Rightarrow> bool" where
  "less_eq_source_class a b \<longleftrightarrow> class_rank a \<le> class_rank b"

definition less_source_class :: "source_class \<Rightarrow> source_class \<Rightarrow> bool" where
  "less_source_class a b \<longleftrightarrow> class_rank a < class_rank b"

instance
  by standard (auto simp: less_eq_source_class_def less_source_class_def intro: class_rank_inj)

end

section \<open>The budget\<close>

definition MAX_DIALS :: nat where "MAX_DIALS = 16"
definition RESOLVE_BUDGET :: nat where "RESOLVE_BUDGET = 20 * 1000"
definition RUN_BUDGET :: nat where "RUN_BUDGET = 60 * 1000"

record dial_budget =
  db_dialled :: "(public_key, unit) btree_map"
  db_spent :: "(source_class, nat) btree_map"

definition budget_new :: dial_budget where
  "budget_new = \<lparr>db_dialled = [], db_spent = []\<rparr>"

definition spent :: "dial_budget \<Rightarrow> source_class \<Rightarrow> nat" where
  "spent b c = (case bt_get (db_spent b) c of None \<Rightarrow> 0 | Some n \<Rightarrow> n)"

definition ceiling :: "dial_budget \<Rightarrow> source_class \<Rightarrow> nat" where
  "ceiling b c =
     (let reserved = class_reserved ClassNodeWitness in
      if c = ClassNodeWitness then MAX_DIALS else MAX_DIALS - (reserved - spent b ClassNodeWitness))"

definition dialled :: "dial_budget \<Rightarrow> nat" where
  "dialled b = length (db_dialled b)"

definition exhausted :: "dial_budget \<Rightarrow> bool" where
  "exhausted b \<longleftrightarrow> dialled b \<ge> MAX_DIALS"

definition budget_admit :: "source_class \<Rightarrow> public_key \<Rightarrow> dial_budget \<Rightarrow> bool \<times> dial_budget" where
  "budget_admit c endpoint b =
     (if c = ClassLocal then (True, b)
      else if bt_get (db_dialled b) endpoint \<noteq> None then (True, b)
      else if (case class_cap c of None \<Rightarrow> False | Some most \<Rightarrow> spent b c \<ge> most) then (False, b)
      else if dialled b \<ge> ceiling b c then (False, b)
      else (True, b\<lparr>db_dialled := bt_insert endpoint () (db_dialled b),
             db_spent := bt_insert c (spent b c + 1) (db_spent b)\<rparr>))"

section \<open>What a wallet holds\<close>

record witness_entry =
  we_identity :: identity_id
  we_endpoints :: "public_key list"

record wallet_core =
  wl_home :: node_home
  wl_peers :: peers
  wl_witnesses :: "witness_entry list"
  wl_graph :: graph_store

datatype service_error = StorageService storage_error | UnknownLedger ledger_id

definition config_witness_endpoints :: "witness_entry list \<Rightarrow> identity_id \<Rightarrow> public_key list" where
  "config_witness_endpoints ws witness =
     (case find (\<lambda>w. we_identity w = witness) ws of None \<Rightarrow> [] | Some w \<Rightarrow> we_endpoints w)"

definition on_home :: "(node_home \<Rightarrow> ('e, 'a, node_home) run) \<Rightarrow> wallet_core \<Rightarrow> ('e, 'a, wallet_core) run" where
  "on_home op c = (let r = op (wl_home c) in (fst r, c\<lparr>wl_home := snd r\<rparr>))"

definition core_holds :: "env \<Rightarrow> u64 \<Rightarrow> ledger_id \<Rightarrow> wallet_core \<Rightarrow> (service_error, bool, wallet_core) run" where
  "core_holds E now l c =
     then_do (run_map_err StorageService (on_home (on_ledger l (ledger_head E l now)) c)) (\<lambda>h c. (Ok (h \<noteq> None), c))"

definition loaded_open :: "env \<Rightarrow> u64 \<Rightarrow> ledger_id \<Rightarrow> wallet_core \<Rightarrow> (service_error, loaded_ledger, wallet_core) run" where
  "loaded_open E now l c =
     then_do (run_map_err StorageService (on_home (on_ledger l (ledger_read_all E l now)) c)) (\<lambda>stored c.
       (case loaded_fold E l (map st_bytes stored) of Ok ld \<Rightarrow> Ok ld | _ \<Rightarrow> Panic, c))"

definition core_load :: "env \<Rightarrow> u64 \<Rightarrow> ledger_id \<Rightarrow> wallet_core \<Rightarrow> (service_error, loaded_ledger, wallet_core) run" where
  "core_load E now l c =
     then_do (loaded_open E now l c) (\<lambda>ld c. (if loaded_is_empty ld then Err (UnknownLedger l) else Ok ld, c))"

section \<open>The resolution\<close>

record resolution =
  rl_started :: nat
  rl_budget :: nat
  rl_caller_hints :: "public_key list"
  rl_dials :: dial_budget
  rl_resolved :: "(identity_id, public_key list) btree_map"
  rl_resolving :: "(identity_id, unit) btree_map"
  rl_resolutions :: nat

definition resolution_with_budget :: "nat \<Rightarrow> nat \<Rightarrow> resolution" where
  "resolution_with_budget budget instant =
     \<lparr>rl_started = instant, rl_budget = budget, rl_caller_hints = [], rl_dials = budget_new,
      rl_resolved = [], rl_resolving = [], rl_resolutions = 0\<rparr>"

definition with_caller_hints :: "public_key list \<Rightarrow> resolution \<Rightarrow> resolution" where
  "with_caller_hints es r = r\<lparr>rl_caller_hints := es\<rparr>"

definition resolution_expired :: "resolution \<Rightarrow> nat \<Rightarrow> bool" where
  "resolution_expired r instant \<longleftrightarrow> instant - rl_started r \<ge> rl_budget r"

definition resolution_admit :: "source_class \<Rightarrow> public_key \<Rightarrow> resolution \<Rightarrow> bool \<times> resolution" where
  "resolution_admit c endpoint r =
     (let a = budget_admit c endpoint (rl_dials r) in (fst a, r\<lparr>rl_dials := snd a\<rparr>))"

definition push_endpoint :: "public_key list \<Rightarrow> public_key \<Rightarrow> public_key list" where
  "push_endpoint es e = (if e \<in> set es then es else es @ [e])"

text \<open>The sources of one witness, in the order the code asks them; nothing here dials.\<close>

definition loaded_sources :: "(service_error, loaded_ledger) outcome \<Rightarrow> identity_id \<Rightarrow> public_key list" where
  "loaded_sources r witness =
     (case r of
        Ok ld \<Rightarrow>
          if \<not> loaded_is_empty ld \<and> ld_violation ld = None \<and> ls_ledger (ld_state ld) = Some witness
          then endpoints (ld_state ld) @ ls_witness_endpoints (ld_state ld) else []
      | _ \<Rightarrow> [])"

definition resolve_witness :: "env \<Rightarrow> u64 \<Rightarrow> resolution \<Rightarrow> identity_id \<Rightarrow> wallet_core
    \<Rightarrow> (service_error, public_key list, wallet_core) run" where
  "resolve_witness E now r witness c =
     (let loaded = core_load E now witness c; c' = snd loaded in
      case fst loaded of
        Panic \<Rightarrow> (Panic, c')
      | ld \<Rightarrow> (Ok (foldl push_endpoint [] (rl_caller_hints r @ hints_at (wl_peers c) witness now
            @ loaded_sources ld witness @ config_witness_endpoints (wl_witnesses c') witness)), c'))"

type_synonym resolving = "resolution \<times> wallet_core"

definition witness_endpoints :: "env \<Rightarrow> u64 \<Rightarrow> identity_id \<Rightarrow> resolving \<Rightarrow> (service_error, public_key list, resolving) run" where
  "witness_endpoints E now witness s =
     (let r = fst s; c = snd s in
      case bt_get (rl_resolved r) witness of
        Some es \<Rightarrow> (Ok es, s)
      | None \<Rightarrow>
          if bt_get (rl_resolving r) witness \<noteq> None then (Ok [], s)
          else
            let r = r\<lparr>rl_resolving := bt_insert witness () (rl_resolving r), rl_resolutions := rl_resolutions r + 1\<rparr>;
                found = resolve_witness E now r witness c;
                r = r\<lparr>rl_resolving := bt_remove witness (rl_resolving r)\<rparr>
            in case fst found of
                 Ok es \<Rightarrow> (Ok es, (r\<lparr>rl_resolved := bt_insert witness es (rl_resolved r)\<rparr>, snd found))
               | Err e \<Rightarrow> (Err e, (r, snd found))
               | Panic \<Rightarrow> (Panic, (r, snd found)))"

section \<open>What the budget keeps\<close>

definition budget_ok :: "dial_budget \<Rightarrow> bool" where
  "budget_ok b \<longleftrightarrow> dialled b + (class_reserved ClassNodeWitness - spent b ClassNodeWitness) \<le> MAX_DIALS
     \<and> spent b ClassLocal = 0 \<and> (\<forall>c most. class_cap c = Some most \<longrightarrow> spent b c \<le> most)"

lemma budget_new_ok: "budget_ok budget_new"
  by (simp add: budget_ok_def budget_new_def dialled_def spent_def MAX_DIALS_def)

lemma budget_admit_cases:
  obtains (same) "snd (budget_admit c e b) = b"
  | (charged) most where "fst (budget_admit c e b)" "bt_get (db_dialled b) e = None" "c \<noteq> ClassLocal" "class_cap c = Some most" "spent b c < most"
      "dialled b < ceiling b c" "dialled (snd (budget_admit c e b)) = Suc (dialled b)"
      "\<And>c'. spent (snd (budget_admit c e b)) c' = (if c' = c then Suc (spent b c) else spent b c')"
proof (cases "snd (budget_admit c e b) = b")
  case False
  then have new: "bt_get (db_dialled b) e = None" "c \<noteq> ClassLocal" "dialled b < ceiling b c"
    and most: "\<not> (case class_cap c of None \<Rightarrow> False | Some most \<Rightarrow> spent b c \<ge> most)"
    by (cases "bt_get (db_dialled b) e"; auto simp: budget_admit_def split: if_splits)+
  from new(2) obtain most where "class_cap c = Some most" by (cases c) auto
  moreover have "budget_admit c e b = (True, b\<lparr>db_dialled := bt_insert e () (db_dialled b),
             db_spent := bt_insert c (spent b c + 1) (db_spent b)\<rparr>)"
    using new most by (simp add: budget_admit_def)
  ultimately show thesis using new most
    by (intro charged [of most]) (auto simp: dialled_def bt_insert_length spent_def bt_get_insert)
qed (rule same)

lemma budget_admit_ok:
  assumes "budget_ok b"
  shows "budget_ok (snd (budget_admit c e b))"
proof (cases rule: budget_admit_cases [of c e b])
  case (charged most)
  then show ?thesis using assms
    by (cases "c = ClassNodeWitness") (auto simp: budget_ok_def ceiling_def Let_def MAX_DIALS_def)
qed (use assms in simp)

text \<open>An operation admits endpoints one after another, whatever it does in between.\<close>

fun admit_all :: "(source_class \<times> public_key) list \<Rightarrow> dial_budget \<Rightarrow> dial_budget" where
  "admit_all [] b = b"
| "admit_all ((c, e) # requests) b = admit_all requests (snd (budget_admit c e b))"

lemma admit_all_ok: "budget_ok b \<Longrightarrow> budget_ok (admit_all requests b)"
  by (induction requests b rule: admit_all.induct) (auto intro: budget_admit_ok)

lemma admitted_again: "fst (budget_admit c e b) \<Longrightarrow> c \<noteq> ClassLocal \<Longrightarrow> budget_admit c' e (snd (budget_admit c e b)) = (True, snd (budget_admit c e b))"
  by (auto simp: budget_admit_def bt_get_insert split: if_splits)

lemma reserve_holds:
  assumes "budget_ok b" and "spent b ClassNodeWitness < class_reserved ClassNodeWitness"
  shows "fst (budget_admit ClassNodeWitness e b)"
  using assms by (auto simp: budget_admit_def budget_ok_def ceiling_def Let_def)

end
