(* ===== verification/Dns_Check.thy ===== *)
theory Dns_Check
  imports Link Graph_Model
begin

text \<open>
  The hostname check (\<open>crates/mabel-node/src/verification/verify.rs\<close>): which DNS records
  speak for an identity, and what a lookup of a claimed hostname concludes. The resolver is
  another machine: a function from a name to its answer, which is enough because one check
  asks for each name once. The sentence of a verdict is a value of \<open>check_note\<close>.
\<close>

section \<open>Records\<close>

type_synonym txt_record = "bytes list"

definition TXT_LABEL :: bytes where "TXT_LABEL = lit ''_mabel''"
definition TXT_PREFIX :: bytes where "TXT_PREFIX = lit ''mabel=''"
definition TXT_ENDPOINTS_PREFIX :: bytes where "TXT_ENDPOINTS_PREFIX = lit ''mabel-endpoints=''"
definition MAX_LABEL_ENDPOINTS :: nat where "MAX_LABEL_ENDPOINTS = MAX_ENDPOINTS"
definition MAX_CNAME_LINKS :: nat where "MAX_CNAME_LINKS = 4"

definition txt_value :: "txt_record \<Rightarrow> bytes" where
  "txt_value r = concat r"

text \<open>The text after a prefix, which is empty when it is not UTF-8.\<close>

definition claim_after :: "bytes \<Rightarrow> bytes \<Rightarrow> bytes option" where
  "claim_after prefix v =
     (if length v < length prefix then None
      else if \<not> eq_ignore_case (take (length prefix) v) prefix then None
      else Some (let rest = drop (length prefix) v in if is_utf8 rest then rest else []))"

definition mabel_claim :: "bytes \<Rightarrow> bytes option" where
  "mabel_claim v = claim_after TXT_PREFIX v"

definition endpoints_claim :: "bytes \<Rightarrow> bytes option" where
  "endpoints_claim v = claim_after TXT_ENDPOINTS_PREFIX v"

definition comma :: byte where "comma = 44"

definition claimed_endpoint :: "env \<Rightarrow> bytes \<Rightarrow> public_key option" where
  "claimed_endpoint E element =
     (if length element \<noteq> ID_STR_LEN then None
      else case base32_decode E (map to_upper element) of
        None \<Rightarrow> None
      | Some bs \<Rightarrow> if length bs = ID_BYTES \<and> key_is_point E bs then Some bs else None)"

fun record_endpoints_loop :: "env \<Rightarrow> public_key list \<Rightarrow> bytes list \<Rightarrow> public_key list option" where
  "record_endpoints_loop E es [] = Some es"
| "record_endpoints_loop E es (element # elements) =
     (case claimed_endpoint E element of
        None \<Rightarrow> None
      | Some e \<Rightarrow>
          if e \<in> set es \<or> length es = MAX_LABEL_ENDPOINTS then None
          else record_endpoints_loop E (es @ [e]) elements)"

definition record_endpoints :: "env \<Rightarrow> bytes \<Rightarrow> public_key list option" where
  "record_endpoints E listed = record_endpoints_loop E [] (split_on comma listed)"

definition listed_endpoints :: "env \<Rightarrow> txt_record \<Rightarrow> public_key list" where
  "listed_endpoints E r =
     (case endpoints_claim (txt_value r) of
        None \<Rightarrow> []
      | Some listed \<Rightarrow> (case record_endpoints E listed of None \<Rightarrow> [] | Some es \<Rightarrow> es))"

definition push_new :: "'a list \<Rightarrow> 'a \<Rightarrow> 'a list" where
  "push_new xs x = (if x \<in> set xs then xs else xs @ [x])"

definition endpoints_at_label :: "env \<Rightarrow> txt_record list \<Rightarrow> public_key list" where
  "endpoints_at_label E records =
     (let es = foldl (\<lambda>es r. foldl push_new es (listed_endpoints E r)) [] records in
      if length es > MAX_LABEL_ENDPOINTS then [] else sort_key (render_id E) es)"

definition claimed_identity :: "env \<Rightarrow> txt_record \<Rightarrow> identity_id option" where
  "claimed_identity E r =
     (case mabel_claim (txt_value r) of
        None \<Rightarrow> None
      | Some claimed \<Rightarrow> (case id_from_str E claimed of Ok i \<Rightarrow> Some i | _ \<Rightarrow> None))"

definition endpoints_for_claim :: "env \<Rightarrow> txt_record list \<Rightarrow> identity_id \<Rightarrow> public_key list" where
  "endpoints_for_claim E records i =
     (if \<exists>r\<in>set records. claimed_identity E r = Some i then endpoints_at_label E records else [])"

record caller_zone =
  cz_identity :: "identity_id option"
  cz_claims :: nat
  cz_endpoints :: "public_key list"

fun caller_zone_loop :: "env \<Rightarrow> txt_record list \<Rightarrow> caller_zone \<Rightarrow> caller_zone" where
  "caller_zone_loop E [] z = z"
| "caller_zone_loop E (r # records) z =
     caller_zone_loop E records
       (case mabel_claim (txt_value r) of
          None \<Rightarrow> z
        | Some claimed \<Rightarrow>
            let z = z\<lparr>cz_claims := cz_claims z + 1\<rparr> in
            if cz_identity z = None
            then (case id_from_str E claimed of Ok i \<Rightarrow> z\<lparr>cz_identity := Some i\<rparr> | _ \<Rightarrow> z)
            else z)"

definition caller_zone_of :: "env \<Rightarrow> txt_record list \<Rightarrow> caller_zone" where
  "caller_zone_of E records =
     (let z = caller_zone_loop E records \<lparr>cz_identity = None, cz_claims = 0, cz_endpoints = []\<rparr> in
      if cz_identity z \<noteq> None then z\<lparr>cz_endpoints := endpoints_at_label E records\<rparr> else z)"

section \<open>The check\<close>

datatype verification_status = Verified | Unverified | Mismatched | Unreachable | Unclaimed | Unchecked

fun verification_status_as_str :: "verification_status \<Rightarrow> string" where
  "verification_status_as_str Verified = ''verified''"
| "verification_status_as_str Unverified = ''unverified''"
| "verification_status_as_str Mismatched = ''mismatched''"
| "verification_status_as_str Unreachable = ''unreachable''"
| "verification_status_as_str Unclaimed = ''unclaimed''"
| "verification_status_as_str Unchecked = ''unchecked''"

definition is_decisive :: "verification_status \<Rightarrow> bool" where
  "is_decisive s \<longleftrightarrow> s = Verified \<or> s = Mismatched"

datatype check_note = NotQueried string | ResolverError bytes | NoRecord bytes | ChainTooLong bytes
  | ChainLoops bytes bytes | CarriesIdentity bytes identity_id | NamesAnother bytes | NameOthers nat bytes

record verification_outcome =
  vo_hostname :: bytes
  vo_status :: verification_status
  vo_detail :: check_note

text \<open>The claim a node checks again before it asks.\<close>

definition check_claimed_hostname :: "bytes \<Rightarrow> unit text_result" where
  "check_claimed_hostname text =
     (if text = [] then Err ''it is empty''
      else if length text > MAX_HOSTNAME_BYTES then Err ''it is over 246 bytes''
      else if \<not> is_ascii text then Err ''it holds a character outside ASCII''
      else if list_ex is_upper text then Err ''it holds an uppercase letter''
      else if last text = dot then Err ''it ends with a dot''
      else if dot \<notin> set text then Err ''it holds no dot''
      else for_each (\<lambda>label.
        if label = [] then Err ''it holds an empty label''
        else if length label > MAX_HOSTNAME_LABEL_BYTES then Err ''it holds a label over 63 bytes''
        else if \<not> is_alphanumeric (hd label) \<or> \<not> is_alphanumeric (last label)
        then Err ''a label does not start and end with a letter or digit''
        else if \<not> list_all (\<lambda>b. is_alphanumeric b \<or> b = hyphen) label
        then Err ''a label holds a character outside [a-z0-9-]''
        else Ok ()) (split_on dot text))"

definition query_name :: "bytes \<Rightarrow> bytes" where
  "query_name hostname =
     (let trimmed = (if hostname \<noteq> [] \<and> last hostname = dot then butlast hostname else hostname) in
      TXT_LABEL @ [dot] @ trimmed @ [dot])"

definition absolute :: "bytes \<Rightarrow> bytes" where
  "absolute target =
     (let lowered = map to_lower target in
      if lowered \<noteq> [] \<and> last lowered = dot then lowered else lowered @ [dot])"

fun classify_loop :: "env \<Rightarrow> bytes \<Rightarrow> bytes \<Rightarrow> identity_id \<Rightarrow> nat \<Rightarrow> txt_record list \<Rightarrow> verification_outcome" where
  "classify_loop E hostname name i claims [] =
     (if claims = 0 then \<lparr>vo_hostname = hostname, vo_status = Unverified, vo_detail = NoRecord name\<rparr>
      else if claims = 1 then \<lparr>vo_hostname = hostname, vo_status = Mismatched, vo_detail = NamesAnother name\<rparr>
      else \<lparr>vo_hostname = hostname, vo_status = Mismatched, vo_detail = NameOthers claims name\<rparr>)"
| "classify_loop E hostname name i claims (r # records) =
     (case mabel_claim (txt_value r) of
        None \<Rightarrow> classify_loop E hostname name i claims records
      | Some claimed \<Rightarrow>
          if id_from_str E claimed = Ok i
          then \<lparr>vo_hostname = hostname, vo_status = Verified, vo_detail = CarriesIdentity name i\<rparr>
          else classify_loop E hostname name i (claims + 1) records)"

definition classify :: "env \<Rightarrow> bytes \<Rightarrow> bytes \<Rightarrow> txt_record list \<Rightarrow> identity_id \<Rightarrow> verification_outcome" where
  "classify E hostname name records i = classify_loop E hostname name i 0 records"

record resolver =
  rv_txt :: "bytes \<Rightarrow> bytes + txt_record list"
  rv_cname :: "bytes \<Rightarrow> bytes + bytes option"

text \<open>The loop; \<open>links\<close> is how many CNAME links it may still follow.\<close>

fun hostname_loop :: "env \<Rightarrow> resolver \<Rightarrow> bytes \<Rightarrow> identity_id \<Rightarrow> bytes \<Rightarrow> nat \<Rightarrow> bytes list \<Rightarrow> bytes \<Rightarrow> verification_outcome" where
  "hostname_loop E R hostname i start links visited name =
     (case rv_txt R name of
        Inl e \<Rightarrow> \<lparr>vo_hostname = hostname, vo_status = Unreachable, vo_detail = ResolverError e\<rparr>
      | Inr records \<Rightarrow>
          if records \<noteq> [] then classify E hostname name records i
          else case rv_cname R name of
              Inl e \<Rightarrow> \<lparr>vo_hostname = hostname, vo_status = Unreachable, vo_detail = ResolverError e\<rparr>
            | Inr None \<Rightarrow> \<lparr>vo_hostname = hostname, vo_status = Unverified, vo_detail = NoRecord name\<rparr>
            | Inr (Some t) \<Rightarrow>
                let target = absolute t in
                case links of
                  0 \<Rightarrow> \<lparr>vo_hostname = hostname, vo_status = Unreachable, vo_detail = ChainTooLong start\<rparr>
                | Suc links' \<Rightarrow>
                    if target \<in> set visited
                    then \<lparr>vo_hostname = hostname, vo_status = Unreachable, vo_detail = ChainLoops start target\<rparr>
                    else hostname_loop E R hostname i start links' (visited @ [target]) target)"

declare hostname_loop.simps [simp del]

definition verify_hostname :: "env \<Rightarrow> resolver \<Rightarrow> bytes \<Rightarrow> identity_id \<Rightarrow> verification_outcome" where
  "verify_hostname E R hostname i =
     (case check_claimed_hostname hostname of
        Ok _ \<Rightarrow>
          let start = query_name hostname in hostname_loop E R hostname i start MAX_CNAME_LINKS [start] start
      | Err reason \<Rightarrow> \<lparr>vo_hostname = hostname, vo_status = Unreachable, vo_detail = NotQueried reason\<rparr>
      | Panic \<Rightarrow> \<lparr>vo_hostname = hostname, vo_status = Unreachable, vo_detail = NotQueried []\<rparr>)"

section \<open>The two hostname checks agree\<close>

lemma claimed_hostname_core:
  "check_claimed_hostname text =
     (if text = [] then Err ''it is empty''
      else if length text > MAX_HOSTNAME_BYTES then Err ''it is over 246 bytes'' else check_hostname text)"
proof -
  have "check_label = (\<lambda>label.
        if label = [] then Err ''it holds an empty label''
        else if length label > MAX_HOSTNAME_LABEL_BYTES then Err ''it holds a label over 63 bytes''
        else if \<not> is_alphanumeric (hd label) \<or> \<not> is_alphanumeric (last label)
        then Err ''a label does not start and end with a letter or digit''
        else if \<not> list_all (\<lambda>b. is_alphanumeric b \<or> b = hyphen) label
        then Err ''a label holds a character outside [a-z0-9-]''
        else Ok ())"
    by (rule ext) (simp add: check_label_def)
  then show ?thesis by (simp add: check_claimed_hostname_def check_hostname_def)
qed

section \<open>What a verdict means\<close>

text \<open>The name a name is an alias of: it has no TXT record of its own and a CNAME.\<close>

definition alias_of :: "resolver \<Rightarrow> bytes \<Rightarrow> bytes option" where
  "alias_of R name =
     (if rv_txt R name = Inr [] then (case rv_cname R name of Inr (Some t) \<Rightarrow> Some (absolute t) | _ \<Rightarrow> None) else None)"

fun alias_chain :: "resolver \<Rightarrow> nat \<Rightarrow> bytes \<Rightarrow> bytes \<Rightarrow> bool" where
  "alias_chain R 0 name target = (target = name)"
| "alias_chain R (Suc n) name target = (\<exists>next. alias_of R name = Some next \<and> alias_chain R n next target)"

definition speaks_for :: "env \<Rightarrow> resolver \<Rightarrow> identity_id \<Rightarrow> bytes \<Rightarrow> bool" where
  "speaks_for E R i name \<longleftrightarrow> (\<exists>records r. rv_txt R name = Inr records \<and> r \<in> set records \<and> claimed_identity E r = Some i)"

lemma claimed_identity_Some:
  "claimed_identity E r = Some i \<longleftrightarrow> (\<exists>claimed. mabel_claim (txt_value r) = Some claimed \<and> id_from_str E claimed = Ok i)"
  by (auto simp: claimed_identity_def split: option.splits outcome.splits)

lemma classify_verified:
  "vo_status (classify E hostname name records i) = Verified \<longleftrightarrow> (\<exists>r\<in>set records. claimed_identity E r = Some i)"
proof -
  have "vo_status (classify_loop E hostname name i claims records) = Verified
      \<longleftrightarrow> (\<exists>r\<in>set records. claimed_identity E r = Some i)" for claims
    by (induction records arbitrary: claims) (auto simp: claimed_identity_Some split: option.splits)
  then show ?thesis by (simp add: classify_def)
qed

text \<open>Names that are aliases of one another speak for nobody.\<close>

lemma alias_cycle:
  assumes "\<forall>v\<in>V. \<exists>x\<in>V. alias_of R v = Some x" and "name \<in> V" and "alias_chain R n name target"
  shows "target \<in> V" and "\<not> speaks_for E R i target"
proof -
  show "target \<in> V" using assms(2,3)
  proof (induction n arbitrary: name)
    case (Suc n)
    then show ?case using assms(1) by fastforce
  qed simp
  then have "alias_of R target \<noteq> None" using assms(1) by auto
  then show "\<not> speaks_for E R i target" by (auto simp: alias_of_def speaks_for_def split: if_splits)
qed

lemma speaks_no_alias: "speaks_for E R i name \<Longrightarrow> alias_of R name = None"
  by (auto simp: alias_of_def speaks_for_def)

lemma ex_le_Suc: "(\<exists>n\<le>Suc k. P n) \<longleftrightarrow> P 0 \<or> (\<exists>n\<le>k. P (Suc n))"
proof
  assume "\<exists>n\<le>Suc k. P n"
  then obtain n where "n \<le> Suc k" "P n" by blast
  then show "P 0 \<or> (\<exists>n\<le>k. P (Suc n))" by (cases n) auto
qed auto

lemma hostname_loop_verified:
  assumes "\<forall>v\<in>set visited. v \<noteq> name \<longrightarrow> (\<exists>x\<in>set visited. alias_of R v = Some x)" and "name \<in> set visited"
  shows "vo_status (hostname_loop E R hostname i start links visited name) = Verified
    \<longleftrightarrow> (\<exists>n\<le>links. \<exists>target. alias_chain R n name target \<and> speaks_for E R i target)"
  using assms
proof (induction links arbitrary: visited name)
  case 0
  then show ?case
    by (subst hostname_loop.simps) (auto simp: speaks_for_def classify_verified split: sum.splits option.splits)
next
  case (Suc links)
  have split: "(\<exists>n\<le>Suc links. \<exists>target. alias_chain R n name target \<and> speaks_for E R i target)
      \<longleftrightarrow> speaks_for E R i name \<or> (\<exists>next. alias_of R name = Some next
        \<and> (\<exists>n\<le>links. \<exists>target. alias_chain R n next target \<and> speaks_for E R i target))"
    unfolding ex_le_Suc by auto
  show ?case
  proof (cases "alias_of R name")
    case None
    then show ?thesis unfolding split
      by (subst hostname_loop.simps)
         (auto simp: alias_of_def speaks_for_def classify_verified split: sum.splits option.splits if_splits)
  next
    case (Some target)
    then have not: "\<not> speaks_for E R i name" using speaks_no_alias by fastforce
    from Some have step: "hostname_loop E R hostname i start (Suc links) visited name =
        (if target \<in> set visited
         then \<lparr>vo_hostname = hostname, vo_status = Unreachable, vo_detail = ChainLoops start target\<rparr>
         else hostname_loop E R hostname i start links (visited @ [target]) target)"
      by (subst hostname_loop.simps) (auto simp: alias_of_def Let_def split: sum.splits option.splits if_splits)
    show ?thesis
    proof (cases "target \<in> set visited")
      case True
      then have "\<forall>v\<in>set visited. \<exists>x\<in>set visited. alias_of R v = Some x" using Suc.prems Some by metis
      from alias_cycle(2) [OF this True] True Some not show ?thesis unfolding split step by auto
    next
      case False
      have "vo_status (hostname_loop E R hostname i start links (visited @ [target]) target) = Verified
          \<longleftrightarrow> (\<exists>n\<le>links. \<exists>t. alias_chain R n target t \<and> speaks_for E R i t)"
        by (rule Suc.IH) (use Suc.prems Some in \<open>fastforce+\<close>)
      with False Some not show ?thesis unfolding split step by auto
    qed
  qed
qed

lemma verify_hostname_iff:
  "vo_status (verify_hostname E R hostname i) = Verified \<longleftrightarrow> check_claimed_hostname hostname = Ok ()
     \<and> (\<exists>n\<le>MAX_CNAME_LINKS. \<exists>name. alias_chain R n (query_name hostname) name \<and> speaks_for E R i name)"
  using hostname_loop_verified [of "[query_name hostname]" "query_name hostname" R E hostname i "query_name hostname" MAX_CNAME_LINKS]
  by (auto simp: verify_hostname_def Let_def split: outcome.splits)

section \<open>The endpoints of a label\<close>

lemma push_all: "distinct xs \<Longrightarrow> distinct (foldl push_new xs ys) \<and> set (foldl push_new xs ys) = set xs \<union> set ys"
  by (induction ys arbitrary: xs) (auto simp: push_new_def)

lemma label_union:
  "distinct (foldl (\<lambda>es r. foldl push_new es (listed_endpoints E r)) [] records)
   \<and> set (foldl (\<lambda>es r. foldl push_new es (listed_endpoints E r)) [] records) = (\<Union>r\<in>set records. set (listed_endpoints E r))"
proof -
  have "distinct es \<Longrightarrow> distinct (foldl (\<lambda>es r. foldl push_new es (listed_endpoints E r)) es records)
      \<and> set (foldl (\<lambda>es r. foldl push_new es (listed_endpoints E r)) es records) = set es \<union> (\<Union>r\<in>set records. set (listed_endpoints E r))" for es
    by (induction records arbitrary: es) (auto simp: push_all)
  from this [of "[]"] show ?thesis by simp
qed

context base32_codec
begin

lemma label_order:
  assumes "set records = set records'"
  shows "endpoints_at_label E records = endpoints_at_label E records'"
proof -
  let ?all = "\<lambda>rs. foldl (\<lambda>es r. foldl push_new es (listed_endpoints E r)) [] rs"
  note u = label_union [of E records] label_union [of E records']
  have same: "set (?all records) = set (?all records')" using u assms by simp
  then have len: "length (?all records) = length (?all records')" using u by (metis distinct_card)
  have inj: "inj_on (render_id E) A" for A
    using ids_bytes_inj by (auto simp: inj_on_def render_id_def ids_bytes_def)
  have "sort_key (render_id E) (?all records) = sort_key (render_id E) (?all records')"
    by (rule map_sorted_distinct_set_unique [where f = "render_id E"]) (use u same inj in \<open>auto simp: distinct_map\<close>)
  with len show ?thesis by (simp add: endpoints_at_label_def Let_def)
qed

end

lemma label_bounds:
  "distinct (endpoints_at_label E records)" "length (endpoints_at_label E records) \<le> MAX_LABEL_ENDPOINTS"
  "sorted (map (render_id E) (endpoints_at_label E records))"
  using label_union [of E records] by (simp_all add: endpoints_at_label_def Let_def)

text \<open>An endpoint of a label is listed, as a point, by a record that breaks no rule.\<close>

lemma label_mem: "e \<in> set (endpoints_at_label E records) \<Longrightarrow> \<exists>r\<in>set records. e \<in> set (listed_endpoints E r)"
  using label_union [of E records] by (auto simp: endpoints_at_label_def Let_def split: if_splits)

lemma record_endpoints_loop_spec:
  "record_endpoints_loop E es elements = Some out \<Longrightarrow> distinct es \<Longrightarrow> \<forall>e\<in>set es. key_is_point E e
    \<Longrightarrow> distinct out \<and> (\<forall>e\<in>set out. key_is_point E e) \<and> length out = length es + length elements"
proof (induction E es elements rule: record_endpoints_loop.induct)
  case (2 E es element elements)
  then obtain e where e: "claimed_endpoint E element = Some e" "e \<notin> set es"
    and rest: "record_endpoints_loop E (es @ [e]) elements = Some out" and "length es \<noteq> MAX_LABEL_ENDPOINTS"
    by (auto split: option.splits if_splits)
  then have "key_is_point E e" by (auto simp: claimed_endpoint_def split: option.splits if_splits)
  with "2.IH" [OF e(1) _ rest] e \<open>length es \<noteq> MAX_LABEL_ENDPOINTS\<close> "2.prems" show ?case by simp
qed simp

end
