(* ===== verification/Graph_Fetch.thy ===== *)
theory Graph_Fetch
  imports Dial_Budget Dns_Check
begin

text \<open>
  Reading one ledger from every source that might hold it
  (\<open>crates/mabel-node/src/graph/fetcher.rs\<close>): the order of the sources, the loop that asks
  them, and the decision over what they served. The network is a record of two functions
  on its state \<open>'w\<close>: what an endpoint serves for a ledger before the deadline, and the TXT
  records of a name; both are other machines. The texts of failures
  are chosen by a parameter \<open>W\<close>.
\<close>

section \<open>Outcomes\<close>

record fetch_outcome =
  fo_ledger :: ledger_id
  fo_status :: node_status
  fo_summary :: "chain_summary option"
  fo_source :: "fetch_source option"
  fo_sources_tried :: "fetch_source list"
  fo_equivocation :: "equivocation option"
  fo_fetched_at_ms :: u64
  fo_detail :: "bytes option"

definition outcome_unreachable :: "u64 \<Rightarrow> ledger_id \<Rightarrow> fetch_source list \<Rightarrow> fetch_outcome" where
  "outcome_unreachable now l tried =
     \<lparr>fo_ledger = l, fo_status = StatusUnreachable, fo_summary = None, fo_source = None, fo_sources_tried = tried,
      fo_equivocation = None, fo_fetched_at_ms = now, fo_detail = None\<rparr>"

definition outcome_invalid :: "u64 \<Rightarrow> ledger_id \<Rightarrow> fetch_source list \<Rightarrow> bytes \<Rightarrow> fetch_outcome" where
  "outcome_invalid now l tried detail =
     (outcome_unreachable now l tried)\<lparr>fo_status := StatusInvalid, fo_detail := Some detail\<rparr>"

definition outcome_verified :: "u64 \<Rightarrow> chain_summary \<Rightarrow> fetch_source \<Rightarrow> fetch_source list \<Rightarrow> fetch_outcome" where
  "outcome_verified now summary src tried =
     \<lparr>fo_ledger = cy_ledger summary, fo_status = StatusOk, fo_summary = Some summary, fo_source = Some src,
      fo_sources_tried = tried, fo_equivocation = None, fo_fetched_at_ms = now, fo_detail = None\<rparr>"

definition with_equivocation :: "equivocation \<Rightarrow> fetch_outcome \<Rightarrow> fetch_outcome" where
  "with_equivocation e f = f\<lparr>fo_status := StatusEquivocation, fo_equivocation := Some e\<rparr>"

section \<open>Comparing copies\<close>

fun first_difference :: "nat \<Rightarrow> bytes list \<Rightarrow> bytes list \<Rightarrow> nat option" where
  "first_difference seq (a # as) (b # bs) = (if a = b then first_difference (Suc seq) as bs else Some seq)"
| "first_difference seq _ _ = None"

definition event_at :: "env \<Rightarrow> nat \<Rightarrow> loaded_ledger \<Rightarrow> document_id" where
  "event_at E seq ld =
     (if seq < length (ld_event_ids ld)
      then (case ld_event_ids ld ! seq of None \<Rightarrow> ids_bytes E (replicate 32 0) | Some i \<Rightarrow> ids_event E i)
      else ids_bytes E (replicate 32 0))"

definition divergence :: "env \<Rightarrow> loaded_ledger \<Rightarrow> loaded_ledger \<Rightarrow> (u64 \<times> document_id \<times> document_id) option" where
  "divergence E left right =
     map_option (\<lambda>seq. (of_nat seq, event_at E seq left, event_at E seq right))
       (first_difference 0 (ld_events left) (ld_events right))"

type_synonym candidate = "fetch_source \<times> loaded_ledger"

text \<open>One turn of the loop over the later candidates: the copy kept so far and the first divergence.\<close>

definition decide_step :: "env \<Rightarrow> candidate \<Rightarrow> candidate \<times> equivocation option \<Rightarrow> candidate \<Rightarrow> candidate \<times> equivocation option" where
  "decide_step E first acc next =
     (case divergence E (snd first) (snd next) of
        Some (at_seq, first_event, other_event) \<Rightarrow>
          (fst acc, case snd acc of
             Some e \<Rightarrow> Some e
           | None \<Rightarrow> Some \<lparr>eq_at_seq = at_seq, eq_branches =
               [\<lparr>eb_source = fst first, eb_event = first_event\<rparr>, \<lparr>eb_source = fst next, eb_event = other_event\<rparr>]\<rparr>)
      | None \<Rightarrow>
          if loaded_event_count (snd next) > loaded_event_count (snd (fst acc)) then (next, snd acc) else acc)"

definition decide :: "env \<Rightarrow> u64 \<Rightarrow> ledger_id \<Rightarrow> fetch_source list \<Rightarrow> candidate list \<Rightarrow> bytes option \<Rightarrow> fetch_outcome" where
  "decide E now l tried candidates invalid =
     (case candidates of
        [] \<Rightarrow> (case invalid of
            Some detail \<Rightarrow> outcome_invalid now l tried detail
          | None \<Rightarrow> outcome_unreachable now l tried)
      | first # rest \<Rightarrow>
          let (kept, equivocation) = foldl (decide_step E first) (first, None) rest;
              kept = (if equivocation \<noteq> None then first else kept);
              out = outcome_verified now (summary_of (snd kept)) (fst kept) tried
          in case equivocation of Some e \<Rightarrow> with_equivocation e out | None \<Rightarrow> out)"

section \<open>The plan\<close>

record planned_source =
  ps_source :: fetch_source
  ps_endpoint :: "public_key option"

definition planned_local :: planned_source where
  "planned_local = \<lparr>ps_source = LocalCopy, ps_endpoint = None\<rparr>"

definition planned_endpoint :: "env \<Rightarrow> public_key \<Rightarrow> (document_id \<Rightarrow> fetch_source) \<Rightarrow> planned_source" where
  "planned_endpoint E endpoint kind = \<lparr>ps_source = kind (ids_key E endpoint), ps_endpoint = Some endpoint\<rparr>"

definition planned_of_witness :: "env \<Rightarrow> identity_id \<Rightarrow> public_key \<Rightarrow> (document_id \<Rightarrow> document_id \<Rightarrow> fetch_source) \<Rightarrow> planned_source" where
  "planned_of_witness E witness endpoint kind =
     \<lparr>ps_source = kind (ids_identity E witness) (ids_key E endpoint), ps_endpoint = Some endpoint\<rparr>"

definition push_admitted :: "planned_source list \<times> resolution \<Rightarrow> planned_source \<Rightarrow> planned_source list \<times> resolution" where
  "push_admitted acc next =
     (let planned = fst acc; r = snd acc in
      if \<exists>asked\<in>set planned. ps_endpoint asked = ps_endpoint next then acc
      else case ps_endpoint next of
          None \<Rightarrow> (planned @ [next], r)
        | Some endpoint \<Rightarrow>
            let a = resolution_admit (class_of_source (ps_source next)) endpoint r in
            if fst a then (planned @ [next], snd a) else (planned, snd a))"

text \<open>The endpoints of one witness after another, as the two loops of sources 4 and 6 take them.\<close>

fun witness_sources :: "env \<Rightarrow> u64 \<Rightarrow> (document_id \<Rightarrow> document_id \<Rightarrow> fetch_source)
    \<Rightarrow> (planned_source list \<times> resolution \<Rightarrow> planned_source \<Rightarrow> planned_source list \<times> resolution)
    \<Rightarrow> identity_id list \<Rightarrow> planned_source list \<Rightarrow> resolving \<Rightarrow> (service_error, planned_source list, resolving) run" where
  "witness_sources E now kind push [] planned s = (Ok planned, s)"
| "witness_sources E now kind push (w # ws) planned s =
     then_do (witness_endpoints E now w s) (\<lambda>es s.
     let acc = foldl push (planned, fst s) (map (\<lambda>e. planned_of_witness E w e kind) es) in
     witness_sources E now kind push ws (fst acc) (snd acc, snd s))"

definition plan_sources :: "env \<Rightarrow> u64 \<Rightarrow> ledger_id \<Rightarrow> public_key list \<Rightarrow> resolving
    \<Rightarrow> (service_error, planned_source list, resolving) run" where
  "plan_sources E now l learned s =
     (let held = core_holds E now l (snd s) in
      then_do (fst held, (fst s, snd held)) (\<lambda>holds s.
      let planned = (if holds then [planned_local] else []);
          acc = foldl push_admitted (planned, fst s)
            (map (\<lambda>e. planned_endpoint E e CallerHint) (rl_caller_hints (fst s)));
          acc = foldl push_admitted acc
            (map (\<lambda>e. planned_endpoint E e PeerHint) (hints_at (wl_peers (snd s)) l now @ learned))
      in witness_sources E now NodeWitness push_admitted (map we_identity (wl_witnesses (snd s))) (fst acc) (snd acc, snd s)))"

definition push_unasked :: "planned_source list \<Rightarrow> planned_source list \<times> resolution \<Rightarrow> planned_source \<Rightarrow> planned_source list \<times> resolution" where
  "push_unasked planned acc next =
     (if \<exists>asked\<in>set planned. ps_endpoint asked = ps_endpoint next then acc else push_admitted acc next)"

definition chain_named_sources :: "env \<Rightarrow> u64 \<Rightarrow> planned_source list \<Rightarrow> chain_summary \<Rightarrow> resolving
    \<Rightarrow> (service_error, planned_source list, resolving) run" where
  "chain_named_sources E now planned summary s =
     (let acc = foldl (push_unasked planned) ([], fst s)
        (map (\<lambda>e. planned_endpoint E e LedgerEndpoint) (cy_endpoints summary)) in
      then_do (witness_sources E now WitnessIdentity (push_unasked planned) (cy_witness_identities summary)
        (fst acc) (snd acc, snd s)) (\<lambda>extra s.
      let acc = foldl (push_unasked planned) (extra, fst s)
        (map (\<lambda>e. planned_endpoint E e LegacyWitnessHint) (cy_legacy_witnesses summary)) in
      (Ok (fst acc), (snd acc, snd s))))"

section \<open>Asking\<close>

text \<open>
  What an endpoint serves is the whole chain, or nothing within the deadline. A home
  without a resolver asks no DNS.
\<close>

record 'w network =
  nw_instant :: "'w \<Rightarrow> nat"
  nw_serve :: "public_key \<Rightarrow> ledger_id \<Rightarrow> 'w \<Rightarrow> bytes list option \<times> 'w"
  nw_txt :: "(bytes \<Rightarrow> 'w \<Rightarrow> txt_record list option \<times> 'w) option"

datatype fetch_note = PlanFailed service_error | LocalUnreadable service_error | LocalUnverified ledger_id
  | ServedViolation public_key ledger_id violation | ServedWrongLedger public_key ledger_id

text \<open>\<open>verified\<close> of \<open>wallet/sync.rs\<close>.\<close>

definition verified :: "env \<Rightarrow> public_key \<Rightarrow> ledger_id \<Rightarrow> bytes list \<Rightarrow> (fetch_note, loaded_ledger) outcome" where
  "verified E peer l events =
     (case fold_events E events of
        Ok (state, violation) \<Rightarrow>
          (case violation of
             Some v \<Rightarrow> Err (ServedViolation peer l v)
           | None \<Rightarrow>
               if ls_ledger state \<noteq> Some l then Err (ServedWrongLedger peer l)
               else (case loaded_fold E l events of Ok ld \<Rightarrow> Ok ld | _ \<Rightarrow> Panic))
      | _ \<Rightarrow> Panic)"

text \<open>\<open>candidate\<close> of \<open>wallet/sync.rs\<close>, with an unreachable peer and one that holds nothing alike.\<close>

definition candidate_of :: "env \<Rightarrow> 'w network \<Rightarrow> public_key \<Rightarrow> ledger_id \<Rightarrow> 'w \<Rightarrow> (fetch_note, loaded_ledger option, 'w) run" where
  "candidate_of E N peer l w =
     (let served = nw_serve N peer l w in
      (case fst served of
         None \<Rightarrow> Ok None
       | Some events \<Rightarrow> if events = [] then Ok None else obind (verified E peer l events) (\<lambda>ld. Ok (Some ld)),
       snd served))"

record 'w fetching =
  fe_resolving :: resolving
  fe_world :: 'w

definition read_local :: "env \<Rightarrow> u64 \<Rightarrow> ledger_id \<Rightarrow> wallet_core \<Rightarrow> (fetch_note, loaded_ledger option, wallet_core) run" where
  "read_local E now l c =
     then_do (run_map_err LocalUnreadable (core_load E now l c)) (\<lambda>ld c.
       (if loaded_is_empty ld then Ok None
        else if ld_violation ld \<noteq> None \<or> ls_ledger (ld_state ld) \<noteq> Some l then Err (LocalUnverified l)
        else Ok (Some ld), c))"

definition read_source :: "env \<Rightarrow> 'w network \<Rightarrow> u64 \<Rightarrow> ledger_id \<Rightarrow> planned_source \<Rightarrow> 'w fetching
    \<Rightarrow> (fetch_note, loaded_ledger option, 'w fetching) run" where
  "read_source E N now l p s =
     (case ps_endpoint p of
        None \<Rightarrow>
          (let r = read_local E now l (snd (fe_resolving s)) in
           (fst r, s\<lparr>fe_resolving := (fst (fe_resolving s), snd r)\<rparr>))
      | Some endpoint \<Rightarrow>
          (let r = candidate_of E N endpoint l (fe_world s) in (fst r, s\<lparr>fe_world := snd r\<rparr>)))"

text \<open>What the loop over the sources has gathered.\<close>

record gathered =
  ga_tried :: "fetch_source list"
  ga_candidates :: "candidate list"
  ga_failed :: "public_key list"
  ga_invalid :: "bytes option"

definition first_of :: "'a option \<Rightarrow> 'a \<Rightarrow> 'a option" where
  "first_of x y = (case x of Some a \<Rightarrow> Some a | None \<Rightarrow> Some y)"

definition note_failed :: "planned_source \<Rightarrow> gathered \<Rightarrow> gathered" where
  "note_failed p g = (case ps_endpoint p of None \<Rightarrow> g | Some e \<Rightarrow> g\<lparr>ga_failed := ga_failed g @ [e]\<rparr>)"

definition fetch_expired :: "'w network \<Rightarrow> 'w fetching \<Rightarrow> bool" where
  "fetch_expired N s \<longleftrightarrow> resolution_expired (fst (fe_resolving s)) (nw_instant N (fe_world s))"

text \<open>
  The loop of \<open>fetch\<close>: the list of sources grows as copies verify, so the recursion is over
  fuel and \<open>None\<close> marks its end. \<open>queue\<close> is the part of \<open>planned\<close> that is still to be asked.
\<close>

fun fetch_loop :: "env \<Rightarrow> (fetch_note \<Rightarrow> bytes) \<Rightarrow> 'w network \<Rightarrow> u64 \<Rightarrow> ledger_id \<Rightarrow> nat
    \<Rightarrow> planned_source list \<Rightarrow> planned_source list \<Rightarrow> gathered \<Rightarrow> 'w fetching \<Rightarrow> (unit, gathered, 'w fetching) run option" where
  "fetch_loop E W N now l fuel planned [] g s = Some (Ok g, s)"
| "fetch_loop E W N now l 0 planned (p # queue) g s = None"
| "fetch_loop E W N now l (Suc fuel) planned (p # queue) g s =
     (if fetch_expired N s then Some (Ok g, s)
      else
        let g = g\<lparr>ga_tried := ga_tried g @ [ps_source p]\<rparr>; r = read_source E N now l p s; s = snd r in
        case fst r of
          Ok (Some ld) \<Rightarrow>
            (let named = chain_named_sources E now planned (summary_of ld) (fe_resolving s);
                 s = s\<lparr>fe_resolving := snd named\<rparr>;
                 g' = g\<lparr>ga_candidates := ga_candidates g @ [(ps_source p, ld)]\<rparr> in
             case fst named of
               Ok extra \<Rightarrow> fetch_loop E W N now l fuel (planned @ extra) (queue @ extra) g' s
             | Err e \<Rightarrow> fetch_loop E W N now l fuel planned queue
                 (g'\<lparr>ga_invalid := first_of (ga_invalid g) (W (PlanFailed e))\<rparr>) s
             | Panic \<Rightarrow> Some (Panic, s))
        | Ok None \<Rightarrow> fetch_loop E W N now l fuel planned queue (note_failed p g) s
        | Err note \<Rightarrow> fetch_loop E W N now l fuel planned queue
            (g\<lparr>ga_invalid := first_of (ga_invalid g) (W note)\<rparr>) s
        | Panic \<Rightarrow> Some (Panic, s))"

text \<open>Source 8: the endpoints of the records, each charged to the budget.\<close>

fun dns_planned :: "env \<Rightarrow> bytes \<Rightarrow> public_key list \<Rightarrow> resolution \<Rightarrow> planned_source list \<times> resolution" where
  "dns_planned E hostname [] r = ([], r)"
| "dns_planned E hostname (e # es) r =
     (let a = resolution_admit ClassDns e r; rest = dns_planned E hostname es (snd a) in
      if fst a then (\<lparr>ps_source = DnsEndpoint hostname (ids_key E e), ps_endpoint = Some e\<rparr> # fst rest, snd rest)
      else rest)"

text \<open>The hostname a local copy claims, or the one the stored generation recorded.\<close>

definition claimed_hostname :: "env \<Rightarrow> u64 \<Rightarrow> ledger_id \<Rightarrow> wallet_core \<Rightarrow> (unit, bytes option, wallet_core) run" where
  "claimed_hostname E now l c =
     (let loaded = core_load E now l c;
          known = (case fst loaded of
             Ok ld \<Rightarrow> if loaded_is_empty ld then None else Option.bind (ls_profile (ld_state ld)) pf_hostname
           | _ \<Rightarrow> None)
      in (if fst loaded = Panic then Panic
          else Ok (case known of
            Some h \<Rightarrow> Some h
          | None \<Rightarrow> (case current_generation (wl_graph c) of
                Ok (Some g) \<Rightarrow> Option.bind (generation_node g (ids_identity E l)) gn_hostname
              | _ \<Rightarrow> None)), snd loaded))"

definition dns_sources :: "env \<Rightarrow> 'w network \<Rightarrow> u64 \<Rightarrow> ledger_id \<Rightarrow> 'w fetching \<Rightarrow> (unit, planned_source list, 'w fetching) run" where
  "dns_sources E N now l s =
     (case nw_txt N of
        None \<Rightarrow> (Ok [], s)
      | Some lookup_txt \<Rightarrow>
          let known = claimed_hostname E now l (snd (fe_resolving s)) in
          then_do (fst known, s\<lparr>fe_resolving := (fst (fe_resolving s), snd known)\<rparr>) (\<lambda>hostname s.
            case hostname of
              None \<Rightarrow> (Ok [], s)
            | Some h \<Rightarrow>
                let answered = lookup_txt (query_name h) (fe_world s); s = s\<lparr>fe_world := snd answered\<rparr> in
                case fst answered of
                  None \<Rightarrow> (Ok [], s)
                | Some records \<Rightarrow>
                    let p = dns_planned E h (endpoints_for_claim E records l) (fst (fe_resolving s)) in
                    (Ok (fst p), s\<lparr>fe_resolving := (snd p, snd (fe_resolving s))\<rparr>)))"

fun dns_loop :: "env \<Rightarrow> (fetch_note \<Rightarrow> bytes) \<Rightarrow> 'w network \<Rightarrow> u64 \<Rightarrow> ledger_id
    \<Rightarrow> planned_source list \<Rightarrow> gathered \<Rightarrow> 'w fetching \<Rightarrow> (unit, gathered, 'w fetching) run" where
  "dns_loop E W N now l [] g s = (Ok g, s)"
| "dns_loop E W N now l (p # ps) g s =
     (if fetch_expired N s then (Ok g, s)
      else
        let g = g\<lparr>ga_tried := ga_tried g @ [ps_source p]\<rparr>; r = read_source E N now l p s; s = snd r in
        case fst r of
          Ok (Some ld) \<Rightarrow> dns_loop E W N now l ps (g\<lparr>ga_candidates := ga_candidates g @ [(ps_source p, ld)]\<rparr>) s
        | Ok None \<Rightarrow> dns_loop E W N now l ps (note_failed p g) s
        | Err note \<Rightarrow> dns_loop E W N now l ps (g\<lparr>ga_invalid := first_of (ga_invalid g) (W note)\<rparr>) s
        | Panic \<Rightarrow> (Panic, s))"

section \<open>Remembering who answered\<close>

text \<open>\<open>ids::parse_endpoint\<close>: the key a rendered endpoint stands for.\<close>

definition parse_endpoint_id :: "env \<Rightarrow> document_id \<Rightarrow> public_key option" where
  "parse_endpoint_id E i =
     (case base32_decode E (map to_upper i) of
        None \<Rightarrow> None
      | Some bs \<Rightarrow> if length bs = 32 \<and> key_is_point E bs then Some bs else None)"

fun fail_all :: "ledger_id \<Rightarrow> public_key list \<Rightarrow> public_key list \<Rightarrow> peers \<Rightarrow> peers" where
  "fail_all l caller [] p = p"
| "fail_all l caller (e # es) p =
     fail_all l caller es (if e \<in> set caller then p else snd (record_failure l e p))"

definition record_hints :: "env \<Rightarrow> u64 \<Rightarrow> ledger_id \<Rightarrow> fetch_outcome \<Rightarrow> public_key list \<Rightarrow> peers \<Rightarrow> peers" where
  "record_hints E now l f failed p =
     (let served = Option.bind (Option.bind (case fo_source f of Some s \<Rightarrow> if may_record_hint s then Some s else None | None \<Rightarrow> None)
            source_endpoint) (parse_endpoint_id E);
          caller = List.map_filter (\<lambda>s. if may_record_hint s then None
            else Option.bind (source_endpoint s) (parse_endpoint_id E)) (fo_sources_tried f);
          p = fail_all l caller failed p;
          p = (case served of None \<Rightarrow> p | Some e \<Rightarrow> record_success l e now p)
      in snd (prune now p))"

section \<open>A whole fetch\<close>

definition FETCH_FUEL :: nat where "FETCH_FUEL = 17"

definition no_sources :: gathered where
  "no_sources = \<lparr>ga_tried = [], ga_candidates = [], ga_failed = [], ga_invalid = None\<rparr>"

definition reached_copy :: "gathered \<Rightarrow> bool" where
  "reached_copy g \<longleftrightarrow> (\<exists>c\<in>set (ga_candidates g). source_endpoint (fst c) \<noteq> None)"

definition finish_fetch :: "env \<Rightarrow> u64 \<Rightarrow> ledger_id \<Rightarrow> gathered \<Rightarrow> 'w fetching \<Rightarrow> (unit, fetch_outcome, 'w fetching) run" where
  "finish_fetch E now l g s =
     (let f = decide E now l (ga_tried g) (ga_candidates g) (ga_invalid g);
          (r, c) = fe_resolving s
      in (Ok f, s\<lparr>fe_resolving := (r, c\<lparr>wl_peers := record_hints E now l f (ga_failed g) (wl_peers c)\<rparr>)\<rparr>))"

definition net_fetch :: "env \<Rightarrow> (fetch_note \<Rightarrow> bytes) \<Rightarrow> 'w network \<Rightarrow> u64 \<Rightarrow> ledger_id \<Rightarrow> public_key list \<Rightarrow> 'w fetching
    \<Rightarrow> (unit, fetch_outcome, 'w fetching) run option" where
  "net_fetch E W N now l learned s =
     (let plan = plan_sources E now l learned (fe_resolving s); s = s\<lparr>fe_resolving := snd plan\<rparr> in
      case fst plan of
        Panic \<Rightarrow> Some (Panic, s)
      | Err e \<Rightarrow> Some (Ok (outcome_invalid now l [] (W (PlanFailed e))), s)
      | Ok planned \<Rightarrow>
          (case fetch_loop E W N now l FETCH_FUEL planned planned no_sources s of
             None \<Rightarrow> None
           | Some r \<Rightarrow> Some (then_do r (\<lambda>g s.
               if \<not> reached_copy g \<and> \<not> fetch_expired N s then
                 then_do (dns_sources E N now l s) (\<lambda>named s.
                 then_do (dns_loop E W N now l named g s) (finish_fetch E now l))
               else finish_fetch E now l g s))))"

end
