(* ===== verification/Graph_Crawl.thy ===== *)
theory Graph_Crawl
  imports Graph_Fetch
begin

text \<open>
  The breadth-first crawl and its caps (\<open>crates/mabel-node/src/graph/crawl.rs\<close>). The fetcher
  is the trait \<open>LedgerFetcher\<close> as the walk uses it: a function from the requests of one batch
  to their outcomes, in the order of the requests, on the state \<open>'r\<close> the fetches share. How the
  fetches of a batch interleave is inside that function. \<open>expired\<close> is the shared deadline, and
  \<open>random\<close> the bytes the name of a generation is minted from.
\<close>

section \<open>Options\<close>

definition DEFAULT_DEPTH :: nat where "DEFAULT_DEPTH = 2"
definition MIN_DEPTH :: nat where "MIN_DEPTH = 1"
definition MAX_DEPTH :: nat where "MAX_DEPTH = 4"
definition MAX_NODES :: nat where "MAX_NODES = 500"
definition MAX_FETCHES :: nat where "MAX_FETCHES = 300"
definition IN_FLIGHT :: nat where "IN_FLIGHT = 8"

record crawl_options =
  co_depth :: nat
  co_max_nodes :: nat
  co_max_fetches :: nat
  co_in_flight :: nat
  co_budget :: nat
  co_started_at_ms :: u64
  co_sync_id :: "bytes option"
  co_caller_hints :: "public_key list"

definition crawl_options_new :: "u64 \<Rightarrow> crawl_options" where
  "crawl_options_new now =
     \<lparr>co_depth = DEFAULT_DEPTH, co_max_nodes = MAX_NODES, co_max_fetches = MAX_FETCHES, co_in_flight = IN_FLIGHT,
      co_budget = RUN_BUDGET, co_started_at_ms = now, co_sync_id = None, co_caller_hints = []\<rparr>"

definition with_depth :: "nat \<Rightarrow> crawl_options \<Rightarrow> crawl_options" where
  "with_depth d opts = opts\<lparr>co_depth := d\<rparr>"

definition bounded_depth :: "crawl_options \<Rightarrow> nat" where
  "bounded_depth opts =
     (if co_depth opts < MIN_DEPTH then MIN_DEPTH
      else if co_depth opts > MAX_DEPTH then MAX_DEPTH else co_depth opts)"

section \<open>The name of a generation\<close>

fun decimal :: "nat \<Rightarrow> bytes" where
  "decimal n = (if n < 10 then [of_nat (48 + n)] else decimal (n div 10) @ [of_nat (48 + n mod 10)])"

declare decimal.simps [simp del]

definition zero_padded :: "nat \<Rightarrow> nat \<Rightarrow> bytes" where
  "zero_padded width n = replicate (width - length (decimal n)) 48 @ decimal n"

definition mint_sync_id :: "env \<Rightarrow> bytes \<Rightarrow> u64 \<Rightarrow> bytes" where
  "mint_sync_id E random now =
     zero_padded 13 (unat now) @ [45] @ map to_lower (base32_encode E random)"

section \<open>The walk\<close>

record crawl_state =
  cs_outcomes :: "(identity_id, nat \<times> fetch_outcome) btree_map"
  cs_provenance :: "(identity_id, discovered_via) btree_map"
  cs_hints :: "(identity_id, public_key list) btree_map"
  cs_fetches :: nat
  cs_stop :: "truncated_by option"
  cs_cut :: bool

type_synonym 'r fetcher = "(identity_id \<times> public_key list) list \<Rightarrow> 'r \<Rightarrow> (unit, fetch_outcome list, 'r) run"

text \<open>\<open>slice::chunks\<close>, for a width of at least 1.\<close>

fun chunks :: "nat \<Rightarrow> 'a list \<Rightarrow> 'a list list" where
  "chunks n [] = []"
| "chunks n (x # xs) = (x # take (n - 1) xs) # chunks n (drop (n - 1) xs)"

definition stop_for :: "truncated_by \<Rightarrow> crawl_state \<Rightarrow> crawl_state" where
  "stop_for reason cs = cs\<lparr>cs_stop := (case cs_stop cs of Some r \<Rightarrow> Some r | None \<Rightarrow> Some reason)\<rparr>"

definition cap_nodes :: "crawl_options \<Rightarrow> identity_id list \<times> crawl_state \<Rightarrow> identity_id list \<times> crawl_state" where
  "cap_nodes opts p =
     (if length (cs_outcomes (snd p)) + length (fst p) > co_max_nodes opts
      then (take (co_max_nodes opts - length (cs_outcomes (snd p))) (fst p), stop_for ByNodes (snd p)) else p)"

definition cap_fetches :: "crawl_options \<Rightarrow> identity_id list \<times> crawl_state \<Rightarrow> identity_id list \<times> crawl_state" where
  "cap_fetches opts p =
     (if cs_fetches (snd p) + length (fst p) > co_max_fetches opts
      then (take (co_max_fetches opts - cs_fetches (snd p)) (fst p), stop_for ByFetches (snd p)) else p)"

definition learned_for :: "crawl_state \<Rightarrow> identity_id \<Rightarrow> public_key list" where
  "learned_for cs l = (case bt_get (cs_hints cs) l of None \<Rightarrow> [] | Some es \<Rightarrow> es)"

definition file_outcome :: "nat \<Rightarrow> (identity_id, nat \<times> fetch_outcome) btree_map \<Rightarrow> fetch_outcome
    \<Rightarrow> (identity_id, nat \<times> fetch_outcome) btree_map" where
  "file_outcome depth m f = bt_insert (fo_ledger f) (depth, f) m"

text \<open>The batches of one level. The flag says that the deadline passed and the walk is over.\<close>

fun crawl_batches :: "'r fetcher \<Rightarrow> ('r \<Rightarrow> bool) \<Rightarrow> nat \<Rightarrow> identity_id list list \<Rightarrow> crawl_state \<Rightarrow> 'r
    \<Rightarrow> (unit, bool \<times> crawl_state, 'r) run" where
  "crawl_batches fetch expired depth [] cs r = (Ok (False, cs), r)"
| "crawl_batches fetch expired depth (batch # batches) cs r =
     (if expired r then (Ok (True, stop_for ByTime cs), r)
      else then_do (fetch (map (\<lambda>l. (l, learned_for cs l)) batch) r) (\<lambda>outs r.
        crawl_batches fetch expired depth batches
          (cs\<lparr>cs_fetches := cs_fetches cs + length batch,
              cs_outcomes := foldl (file_outcome depth) (cs_outcomes cs) outs\<rparr>) r))"

text \<open>One attested subject: it is skipped, cut at the depth cap, or put on the next level.\<close>

definition note_edge :: "env \<Rightarrow> nat \<Rightarrow> nat \<Rightarrow> identity_id \<Rightarrow> public_key option
    \<Rightarrow> (identity_id, unit) btree_map \<times> crawl_state \<Rightarrow> trust_edge \<Rightarrow> (identity_id, unit) btree_map \<times> crawl_state" where
  "note_edge E depth depth_cap ledger src acc edge =
     (let next = fst acc; cs = snd acc; subject = tr_subject edge in
      if bt_get (cs_outcomes cs) subject \<noteq> None then acc
      else if depth \<ge> depth_cap then (next, cs\<lparr>cs_cut := True\<rparr>)
      else
        let cs = (if bt_get (cs_provenance cs) subject \<noteq> None then cs
                  else cs\<lparr>cs_provenance := bt_insert subject \<lparr>dv_identity = ids_identity E ledger,
                    dv_attestation_event = ids_event E (tr_attestation_event edge)\<rparr> (cs_provenance cs)\<rparr>);
            cs = (case src of
                    None \<Rightarrow> cs
                  | Some e \<Rightarrow> cs\<lparr>cs_hints := bt_insert subject (push_endpoint (learned_for cs subject) e) (cs_hints cs)\<rparr>)
        in (bt_insert subject () next, cs))"

definition note_ledger_edges :: "env \<Rightarrow> nat \<Rightarrow> nat \<Rightarrow> (identity_id, unit) btree_map \<times> crawl_state \<Rightarrow> identity_id
    \<Rightarrow> (identity_id, unit) btree_map \<times> crawl_state" where
  "note_ledger_edges E depth depth_cap acc ledger =
     (case bt_get (cs_outcomes (snd acc)) ledger of
        None \<Rightarrow> acc
      | Some (_, f) \<Rightarrow>
          let src = Option.bind (Option.bind (fo_source f) source_endpoint) (parse_endpoint_id E) in
          (case fo_summary f of
             None \<Rightarrow> acc
           | Some summary \<Rightarrow> foldl (note_edge E depth depth_cap ledger src) acc (cy_trust summary)))"

fun crawl_levels :: "env \<Rightarrow> 'r fetcher \<Rightarrow> ('r \<Rightarrow> bool) \<Rightarrow> crawl_options \<Rightarrow> nat \<Rightarrow> nat \<Rightarrow> identity_id list
    \<Rightarrow> crawl_state \<Rightarrow> 'r \<Rightarrow> (unit, crawl_state, 'r) run" where
  "crawl_levels E fetch expired opts 0 depth frontier cs r = (Ok cs, r)"
| "crawl_levels E fetch expired opts (Suc levels) depth frontier cs r =
     (if frontier = [] then (Ok cs, r)
      else
        let (level, cs) = cap_fetches opts (cap_nodes opts (frontier, cs));
            stop_after_level = (cs_stop cs \<noteq> None)
        in then_do (crawl_batches fetch expired depth (chunks (max 1 (co_in_flight opts)) level) cs r) (\<lambda>(over, cs) r.
             if over then (Ok cs, r)
             else
               let (next, cs) = foldl (note_ledger_edges E depth (bounded_depth opts)) ([], cs) level in
               if stop_after_level then (Ok cs, r)
               else crawl_levels E fetch expired opts levels (depth + 1) (map fst next) cs r))"

section \<open>The generation\<close>

definition node_of :: "env \<Rightarrow> (identity_id, discovered_via) btree_map \<Rightarrow> identity_id \<Rightarrow> nat \<Rightarrow> fetch_outcome \<Rightarrow> graph_node" where
  "node_of E provenance ledger depth f =
     (let summary = fo_summary f in
      \<lparr>gn_identity_id = ids_identity E ledger, gn_declared_kind = map_option cy_declared_kind summary,
       gn_display_name = Option.bind summary cy_display_name, gn_hostname = Option.bind summary cy_hostname,
       gn_email = Option.bind summary cy_email, gn_head_seq = map_option cy_head_seq summary,
       gn_head_event = map_option (\<lambda>y. ids_event E (cy_head_event y)) summary, gn_depth = depth, gn_roots = [],
       gn_discovered_via = bt_get provenance ledger, gn_source = fo_source f,
       gn_fetched_at_ms = (if fo_status f = StatusOk \<or> fo_status f = StatusEquivocation then Some (fo_fetched_at_ms f) else None),
       gn_status = fo_status f, gn_equivocation = fo_equivocation f, gn_detail = fo_detail f,
       gn_edges = (case summary of
           None \<Rightarrow> []
         | Some y \<Rightarrow> map (\<lambda>t. \<lparr>ge_subject = ids_identity E (tr_subject t),
             ge_attestation_event = ids_event E (tr_attestation_event t), ge_seq = tr_seq t\<rparr>) (cy_trust y))\<rparr>)"

definition distances :: "(document_id, graph_node) btree_map \<Rightarrow> document_id \<Rightarrow> (document_id, nat) btree_map" where
  "distances nodes from = bfs (outgoing nodes) from"

definition push_root :: "document_id \<Rightarrow> (document_id, root_depth list) btree_map \<Rightarrow> document_id \<times> nat
    \<Rightarrow> (document_id, root_depth list) btree_map" where
  "push_root root reach e =
     bt_insert (fst e) ((case bt_get reach (fst e) of None \<Rightarrow> [] | Some rs \<Rightarrow> rs) @ [\<lparr>rd_root = root, rd_depth = snd e\<rparr>]) reach"

definition reach_of :: "env \<Rightarrow> (document_id, graph_node) btree_map \<Rightarrow> identity_id list \<Rightarrow> (document_id, root_depth list) btree_map" where
  "reach_of E nodes roots =
     foldl (\<lambda>reach root. if bt_get nodes (ids_identity E root) = None then reach
       else foldl (push_root (ids_identity E root)) reach (distances nodes (ids_identity E root))) [] roots"

definition set_roots :: "(document_id, graph_node) btree_map \<Rightarrow> document_id \<times> root_depth list \<Rightarrow> (document_id, graph_node) btree_map" where
  "set_roots nodes e =
     (case bt_get nodes (fst e) of
        None \<Rightarrow> nodes
      | Some n \<Rightarrow> bt_insert (fst e) (n\<lparr>gn_roots := sort_key rd_root (snd e)\<rparr>) nodes)"

definition fill_roots :: "env \<Rightarrow> (document_id, graph_node) btree_map \<Rightarrow> identity_id list \<Rightarrow> (document_id, graph_node) btree_map" where
  "fill_roots E nodes roots = foldl set_roots nodes (reach_of E nodes roots)"

definition plain_nodes :: "env \<Rightarrow> (identity_id, nat \<times> fetch_outcome) btree_map \<Rightarrow> (identity_id, discovered_via) btree_map
    \<Rightarrow> (document_id, graph_node) btree_map" where
  "plain_nodes E outcomes provenance =
     foldl (\<lambda>nodes (l, d, f). bt_insert (ids_identity E l) (node_of E provenance l d f) nodes) [] outcomes"

definition build_nodes :: "env \<Rightarrow> (identity_id, nat \<times> fetch_outcome) btree_map \<Rightarrow> (identity_id, discovered_via) btree_map
    \<Rightarrow> identity_id list \<Rightarrow> (document_id, graph_node) btree_map" where
  "build_nodes E outcomes provenance roots = fill_roots E (plain_nodes E outcomes provenance) roots"

definition build_summary :: "env \<Rightarrow> bytes \<Rightarrow> crawl_options \<Rightarrow> nat \<Rightarrow> identity_id list \<Rightarrow> (document_id, graph_node) btree_map
    \<Rightarrow> nat \<Rightarrow> truncated_by option \<Rightarrow> graph_summary" where
  "build_summary E random opts depth roots nodes fetch_count truncated =
     \<lparr>gy_sync_id = (case co_sync_id opts of Some s \<Rightarrow> s | None \<Rightarrow> mint_sync_id E random (co_started_at_ms opts)),
      gy_last_sync_ms = co_started_at_ms opts, gy_depth = depth, gy_roots = map (ids_identity E) roots,
      gy_node_count = length nodes, gy_edge_count = sum_list (map (\<lambda>e. length (gn_edges (snd e))) nodes),
      gy_fetch_count = fetch_count, gy_truncated = (truncated \<noteq> None), gy_truncated_by = truncated,
      gy_equivocations = map gn_identity_id (filter (\<lambda>n. gn_equivocation n \<noteq> None) (map snd nodes))\<rparr>"

definition root_set :: "identity_id list \<Rightarrow> identity_id list" where
  "root_set roots = map fst (foldl (\<lambda>m l. bt_insert l () m) [] roots)"

definition crawl_with :: "env \<Rightarrow> bytes \<Rightarrow> 'r fetcher \<Rightarrow> ('r \<Rightarrow> bool) \<Rightarrow> identity_id list \<Rightarrow> crawl_options \<Rightarrow> 'r
    \<Rightarrow> (unit, generation, 'r) run" where
  "crawl_with E random fetch expired roots opts r =
     (let depth_cap = bounded_depth opts; rs = root_set roots in
      then_do (crawl_levels E fetch expired opts (depth_cap + 1) 0 rs
        \<lparr>cs_outcomes = [], cs_provenance = [], cs_hints = [], cs_fetches = 0, cs_stop = None, cs_cut = False\<rparr> r) (\<lambda>cs r.
      let nodes = build_nodes E (cs_outcomes cs) (cs_provenance cs) rs;
          truncated = (case cs_stop cs of Some reason \<Rightarrow> Some reason | None \<Rightarrow> if cs_cut cs then Some ByDepth else None)
      in (Ok \<lparr>gen_summary = build_summary E random opts depth_cap rs nodes (cs_fetches cs) truncated, gen_nodes = nodes\<rparr>, r)))"

section \<open>The crawl of a node\<close>

text \<open>The fetches of a batch over one home and one network, one after another.\<close>

definition fetch_candidate :: "env \<Rightarrow> (fetch_note \<Rightarrow> bytes) \<Rightarrow> 'w network \<Rightarrow> u64 \<Rightarrow> ledger_id \<Rightarrow> public_key list \<Rightarrow> 'w fetching
    \<Rightarrow> (unit, fetch_outcome, 'w fetching) run" where
  "fetch_candidate E W N now l learned s =
     (case net_fetch E W N now l learned s of Some r \<Rightarrow> r | None \<Rightarrow> (Panic, s))"

fun join_all :: "env \<Rightarrow> (fetch_note \<Rightarrow> bytes) \<Rightarrow> 'w network \<Rightarrow> u64 \<Rightarrow> 'w fetching fetcher" where
  "join_all E W N now [] s = (Ok [], s)"
| "join_all E W N now ((l, learned) # requests) s =
     then_do (fetch_candidate E W N now l learned s) (\<lambda>f s.
     then_do (join_all E W N now requests s) (\<lambda>fs s. (Ok (f # fs), s)))"

definition crawl :: "env \<Rightarrow> (fetch_note \<Rightarrow> bytes) \<Rightarrow> 'w network \<Rightarrow> u64 \<Rightarrow> bytes \<Rightarrow> identity_id list \<Rightarrow> crawl_options \<Rightarrow> wallet_core \<Rightarrow> 'w
    \<Rightarrow> (unit, generation, 'w fetching) run" where
  "crawl E W N now random roots opts core w =
     (let r = with_caller_hints (co_caller_hints opts) (resolution_with_budget (co_budget opts) (nw_instant N w)) in
      crawl_with E random (join_all E W N now) (fetch_expired N) roots opts \<lparr>fe_resolving = (r, core), fe_world = w\<rparr>)"

end
