(* ===== verification/Fetch_Facts.thy ===== *)
theory Fetch_Facts
  imports Graph_Fetch Fold_Facts
begin

text \<open>
  What a fetch guarantees: it asks no endpoint twice and no more of them than the budget
  allows, so its loop ends; what it keeps is a chain that folds without a violation to the
  ledger that was asked for; and a chain that disagrees with the first one is on record.
\<close>

section \<open>The plan stays within the budget\<close>

definition dialled_keys :: "resolution \<Rightarrow> public_key set" where
  "dialled_keys r = {e. bt_get (db_dialled (rl_dials r)) e \<noteq> None}"

text \<open>A plan names no endpoint twice, and every endpoint of it was admitted.\<close>

definition plan_ok :: "planned_source list \<Rightarrow> resolution \<Rightarrow> bool" where
  "plan_ok planned r \<longleftrightarrow> distinct (map ps_endpoint planned) \<and> budget_ok (rl_dials r)
     \<and> (\<forall>p\<in>set planned. \<forall>e. ps_endpoint p = Some e \<longrightarrow> e \<in> dialled_keys r)"

definition dialable :: "planned_source \<Rightarrow> bool" where
  "dialable p \<longleftrightarrow> ps_endpoint p \<noteq> None \<and> class_of_source (ps_source p) \<noteq> ClassLocal"

lemma admit_keys: "dialled_keys r \<subseteq> dialled_keys (snd (resolution_admit c e r))"
  by (auto simp: dialled_keys_def resolution_admit_def budget_admit_def Let_def bt_get_insert split: if_splits)

lemma admit_key: "fst (resolution_admit c e r) \<Longrightarrow> c \<noteq> ClassLocal \<Longrightarrow> e \<in> dialled_keys (snd (resolution_admit c e r))"
  by (auto simp: dialled_keys_def resolution_admit_def budget_admit_def Let_def bt_get_insert split: if_splits)

lemma admit_budget: "budget_ok (rl_dials r) \<Longrightarrow> budget_ok (rl_dials (snd (resolution_admit c e r)))"
  by (simp add: resolution_admit_def Let_def budget_admit_ok)

lemma plan_small:
  assumes "plan_ok planned r"
  shows "length planned \<le> Suc MAX_DIALS"
proof -
  let ?d = "db_dialled (rl_dials r)"
  have keys: "dialled_keys r \<subseteq> fst ` set ?d"
    by (force simp: dialled_keys_def bt_get_def dest: map_of_SomeD)
  have "length planned = card (set (map ps_endpoint planned))" using assms by (metis distinct_card length_map plan_ok_def)
  also have "\<dots> \<le> card (insert None (Some ` fst ` set ?d))"
  proof (rule card_mono)
    have "ps_endpoint p = None \<or> ps_endpoint p \<in> Some ` fst ` set ?d" if "p \<in> set planned" for p
    proof (cases "ps_endpoint p")
      case (Some e)
      then have "e \<in> fst ` set ?d" using assms that keys by (auto simp: plan_ok_def)
      with Some show ?thesis by simp
    qed simp
    then show "set (map ps_endpoint planned) \<subseteq> insert None (Some ` fst ` set ?d)" by auto
  qed simp
  also have "\<dots> \<le> Suc (card (Some ` fst ` set ?d))" by (simp add: card_insert_if)
  also have "\<dots> = Suc (card (fst ` set ?d))" by (simp add: card_image)
  also have "\<dots> \<le> Suc (length ?d)" by (metis Suc_le_mono card_length list.set_map length_map)
  also have "\<dots> \<le> Suc MAX_DIALS" using assms by (simp add: plan_ok_def budget_ok_def dialled_def)
  finally show ?thesis .
qed

lemma push_unasked_ok:
  assumes "plan_ok (base @ fst acc) (snd acc)" and "dialable next"
  shows "plan_ok (base @ fst (push_unasked base acc next)) (snd (push_unasked base acc next))"
proof (cases "\<exists>asked\<in>set (base @ fst acc). ps_endpoint asked = ps_endpoint next")
  case True
  then have "push_unasked base acc next = acc" by (auto simp: push_unasked_def push_admitted_def Let_def)
  with assms show ?thesis by simp
next
  case False
  obtain e where e: "ps_endpoint next = Some e" using assms(2) by (auto simp: dialable_def)
  let ?a = "resolution_admit (class_of_source (ps_source next)) e (snd acc)"
  have "push_unasked base acc next = (if fst ?a then (fst acc @ [next], snd ?a) else (fst acc, snd ?a))"
    using False e by (auto simp: push_unasked_def push_admitted_def Let_def)
  moreover have "plan_ok (base @ fst acc) (snd ?a)"
    using assms(1) admit_keys [of "snd acc"] admit_budget by (fastforce simp: plan_ok_def)
  moreover have "plan_ok (base @ fst acc @ [next]) (snd ?a)" if "fst ?a"
    using calculation(2) False e admit_key [OF that] assms(2) by (auto simp: plan_ok_def dialable_def)
  ultimately show ?thesis by simp
qed

lemma push_all_ok:
  "plan_ok (base @ fst acc) (snd acc) \<Longrightarrow> \<forall>p\<in>set ps. dialable p \<Longrightarrow>
    plan_ok (base @ fst (foldl (push_unasked base) acc ps)) (snd (foldl (push_unasked base) acc ps))"
proof (induction ps arbitrary: acc)
  case (Cons p ps)
  have "plan_ok (base @ fst (push_unasked base acc p)) (snd (push_unasked base acc p))"
    by (rule push_unasked_ok) (use Cons.prems in auto)
  with Cons show ?case by simp
qed simp

lemma push_admitted_unasked: "push_admitted = push_unasked []"
  by (intro ext) (simp add: push_unasked_def)

lemma dialable_planned [simp]:
  "dialable (planned_endpoint E e CallerHint)" "dialable (planned_endpoint E e PeerHint)"
  "dialable (planned_endpoint E e LedgerEndpoint)" "dialable (planned_endpoint E e LegacyWitnessHint)"
  "dialable (planned_of_witness E w e NodeWitness)" "dialable (planned_of_witness E w e WitnessIdentity)"
  by (simp_all add: dialable_def planned_endpoint_def planned_of_witness_def)

lemma witness_dials: "rl_dials (fst (snd (witness_endpoints E now w s))) = rl_dials (fst s)"
  by (auto simp: witness_endpoints_def Let_def split: option.splits outcome.splits)

lemma plan_ok_cong: "rl_dials r = rl_dials r' \<Longrightarrow> plan_ok planned r = plan_ok planned r'"
  by (simp add: plan_ok_def dialled_keys_def)

lemma witness_sources_ok:
  assumes "plan_ok (base @ planned) (fst s)" and "\<forall>w e. dialable (planned_of_witness E w e kind)"
  shows "case witness_sources E now kind (push_unasked base) ws planned s of
      (Ok extra, s') \<Rightarrow> plan_ok (base @ extra) (fst s') | (_, s') \<Rightarrow> plan_ok base (fst s')"
  using assms(1)
proof (induction ws arbitrary: planned s)
  case (Cons w ws)
  obtain r s1 where run: "witness_endpoints E now w s = (r, s1)" by (cases "witness_endpoints E now w s")
  have "rl_dials (fst s1) = rl_dials (fst s)" using witness_dials [of E now w s] run by simp
  with Cons.prems have ok: "plan_ok (base @ planned) (fst s1)" using plan_ok_cong by blast
  show ?case
  proof (cases r)
    case (Ok es)
    let ?acc = "foldl (push_unasked base) (planned, fst s1) (map (\<lambda>e. planned_of_witness E w e kind) es)"
    have "plan_ok (base @ fst ?acc) (snd ?acc)" by (rule push_all_ok) (use ok assms(2) in auto)
    with Cons.IH [of "fst ?acc" "(snd ?acc, snd s1)"] run Ok show ?thesis by (simp add: Let_def)
  qed (use ok run in \<open>auto simp: plan_ok_def\<close>)
qed simp

lemma chain_named_ok:
  assumes "plan_ok planned (fst s)"
  shows "case chain_named_sources E now planned summary s of
      (Ok extra, s') \<Rightarrow> plan_ok (planned @ extra) (fst s') | (_, s') \<Rightarrow> plan_ok planned (fst s')"
proof -
  let ?acc = "foldl (push_unasked planned) ([], fst s) (map (\<lambda>e. planned_endpoint E e LedgerEndpoint) (cy_endpoints summary))"
  have a: "plan_ok (planned @ fst ?acc) (snd ?acc)" by (rule push_all_ok) (use assms in auto)
  let ?run = "witness_sources E now WitnessIdentity (push_unasked planned) (cy_witness_identities summary) (fst ?acc) (snd ?acc, snd s)"
  have b: "case ?run of (Ok extra, s') \<Rightarrow> plan_ok (planned @ extra) (fst s') | (_, s') \<Rightarrow> plan_ok planned (fst s')"
    by (rule witness_sources_ok) (use a in auto)
  obtain r s1 where run: "?run = (r, s1)" by (cases ?run)
  show ?thesis
  proof (cases r)
    case (Ok extra)
    with b run have "plan_ok (planned @ fst (extra, fst s1)) (snd (extra, fst s1))" by simp
    from push_all_ok [OF this, of "map (\<lambda>e. planned_endpoint E e LegacyWitnessHint) (cy_legacy_witnesses summary)"]
    show ?thesis using run Ok by (simp add: chain_named_sources_def Let_def)
  qed (use b run in \<open>simp_all add: chain_named_sources_def Let_def\<close>)
qed

lemma plan_sources_ok:
  assumes "budget_ok (rl_dials (fst s))"
  shows "case plan_sources E now l learned s of (Ok planned, s') \<Rightarrow> plan_ok planned (fst s') | (_, s') \<Rightarrow> budget_ok (rl_dials (fst s'))"
proof (cases "fst (core_holds E now l (snd s))")
  case (Ok holds)
  define s1 where "s1 = (fst s, snd (core_holds E now l (snd s)))"
  define p where "p = (if holds then [planned_local] else [])"
  have start: "plan_ok ([] @ fst (p, fst s1)) (snd (p, fst s1))"
    using assms by (auto simp: plan_ok_def p_def planned_local_def s1_def)
  let ?a = "foldl push_admitted (p, fst s1) (map (\<lambda>e. planned_endpoint E e CallerHint) (rl_caller_hints (fst s1)))"
  let ?b = "foldl push_admitted ?a (map (\<lambda>e. planned_endpoint E e PeerHint) (hints_at (wl_peers (snd s1)) l now @ learned))"
  have "plan_ok ([] @ fst ?b) (snd ?b)"
    unfolding push_admitted_unasked by (intro push_all_ok start) auto
  then have ok: "plan_ok ([] @ fst ?b) (fst (snd ?b, snd s1))" by simp
  let ?run = "witness_sources E now NodeWitness push_admitted (map we_identity (wl_witnesses (snd s1))) (fst ?b) (snd ?b, snd s1)"
  have "case ?run of (Ok extra, s') \<Rightarrow> plan_ok ([] @ extra) (fst s') | (_, s') \<Rightarrow> plan_ok [] (fst s')"
    unfolding push_admitted_unasked by (rule witness_sources_ok) (use ok push_admitted_unasked in auto)
  moreover have "plan_sources E now l learned s = ?run"
    using Ok by (simp add: plan_sources_def Let_def s1_def p_def)
  ultimately show ?thesis by (auto simp: plan_ok_def split: prod.splits outcome.splits)
qed (use assms in \<open>auto simp: plan_sources_def Let_def\<close>)

section \<open>What is kept verifies\<close>

definition copy_ok :: "env \<Rightarrow> ledger_id \<Rightarrow> loaded_ledger \<Rightarrow> bool" where
  "copy_ok E l ld \<longleftrightarrow> loaded_fold E l (ld_events ld) = Ok ld \<and> ld_violation ld = None \<and> ls_ledger (ld_state ld) = Some l"

lemma copy_ok_fold: "copy_ok E l ld \<Longrightarrow> fold_events E (ld_events ld) = Ok (ld_state ld, None)"
  using loaded_fold_events(1) by (fastforce simp: copy_ok_def)

lemma copy_ok_ledger: "copy_ok E l ld \<Longrightarrow> ld_ledger ld = l"
  using loaded_fold_events(2) by (fastforce simp: copy_ok_def)

lemma verified_copy:
  assumes "verified E peer l events = Ok ld"
  shows "copy_ok E l ld"
proof -
  from assms have fold: "loaded_fold E l events = Ok ld"
    by (auto simp: verified_def split: outcome.splits prod.splits option.splits if_splits)
  note f = loaded_fold_events [OF fold]
  from assms f(1) show ?thesis
    using fold f(3) by (auto simp: verified_def copy_ok_def split: option.splits if_splits)
qed

lemma core_load_copy:
  assumes "fst (core_load E now l c) = Ok ld"
  shows "loaded_fold E l (ld_events ld) = Ok ld"
proof -
  from assms obtain stored :: "stored_event list" where "loaded_fold E l (map st_bytes stored) = Ok ld"
    by (auto simp: core_load_def loaded_open_def then_do_def split: outcome.splits if_splits)
  then show ?thesis using loaded_fold_events(3) by fastforce
qed

lemma read_source_copy:
  assumes "fst (read_source E N now l p s) = Ok (Some ld)"
  shows "copy_ok E l ld"
proof (cases "ps_endpoint p")
  case None
  with assms have "fst (read_local E now l (snd (fe_resolving s))) = Ok (Some ld)" by (simp add: read_source_def Let_def)
  then have "fst (core_load E now l (snd (fe_resolving s))) = Ok ld" and "ld_violation ld = None" and "ls_ledger (ld_state ld) = Some l"
    by (auto simp: read_local_def then_do_fst_Ok split: if_splits)
  then show ?thesis by (simp add: copy_ok_def core_load_copy)
next
  case (Some e)
  with assms verified_copy show ?thesis
    by (auto simp: read_source_def candidate_of_def Let_def split: option.splits if_splits)
qed

lemma read_source_resolution: "fst (fe_resolving (snd (read_source E N now l p s))) = fst (fe_resolving s)"
  by (simp add: read_source_def Let_def split: option.splits)

definition gathered_ok :: "env \<Rightarrow> ledger_id \<Rightarrow> gathered \<Rightarrow> bool" where
  "gathered_ok E l g \<longleftrightarrow> (\<forall>c\<in>set (ga_candidates g). copy_ok E l (snd c))"

lemma gathered_updates [simp]:
  "gathered_ok E l (g\<lparr>ga_tried := t\<rparr>) = gathered_ok E l g" "gathered_ok E l (g\<lparr>ga_invalid := i\<rparr>) = gathered_ok E l g"
  "gathered_ok E l (note_failed p g) = gathered_ok E l g" "ga_candidates (note_failed p g) = ga_candidates g"
  by (simp_all add: gathered_ok_def note_failed_def split: option.splits)

text \<open>
  The loop asks at most \<open>MAX_DIALS\<close> endpoints and the local copy, so seventeen turns are enough
  for it, however much the plan grows.
\<close>

lemma fetch_loop_returns:
  assumes "plan_ok planned (fst (fe_resolving s))" and "length queue \<le> length planned"
    and "Suc MAX_DIALS \<le> fuel + (length planned - length queue)" and "gathered_ok E l g"
  shows "\<exists>r s'. fetch_loop E W N now l fuel planned queue g s = Some (r, s')
    \<and> budget_ok (rl_dials (fst (fe_resolving s'))) \<and> (\<forall>g'. r = Ok g' \<longrightarrow> gathered_ok E l g')"
  using assms
proof (induction fuel arbitrary: planned queue g s)
  case 0
  with plan_small [OF 0(1)] have "queue = []" by (cases queue) auto
  with 0 show ?case by (simp add: plan_ok_def)
next
  case (Suc fuel)
  show ?case
  proof (cases queue)
    case Nil
    with Suc.prems show ?thesis by (simp add: plan_ok_def)
  next
    case (Cons p rest)
    let ?r = "read_source E N now l p s" and ?g = "g\<lparr>ga_tried := ga_tried g @ [ps_source p]\<rparr>"
    have plan: "plan_ok planned (fst (fe_resolving (snd ?r)))" using Suc.prems(1) by (simp add: read_source_resolution)
    have len: "length rest \<le> length planned" "Suc MAX_DIALS \<le> fuel + (length planned - length rest)"
      using Suc.prems(2,3) Cons by auto
    note go = Suc.IH [OF plan len]
    show ?thesis
    proof (cases "fetch_expired N s")
      case True
      with Cons Suc.prems show ?thesis by (simp add: plan_ok_def)
    next
      case running: False
      show ?thesis
      proof (cases "fst ?r")
        case (Ok found)
        show ?thesis
        proof (cases found)
          case None
          with Ok Cons running go [of "note_failed p ?g"] Suc.prems(4) show ?thesis by (simp add: Let_def)
        next
          case (Some ld)
          let ?named = "chain_named_sources E now planned (summary_of ld) (fe_resolving (snd ?r))"
          let ?g' = "?g\<lparr>ga_candidates := ga_candidates ?g @ [(ps_source p, ld)]\<rparr>"
          have copy: "gathered_ok E l ?g'"
            using Suc.prems(4) read_source_copy [of E N now l p s ld] Ok Some by (auto simp: gathered_ok_def)
          note named = chain_named_ok [OF plan, of E now "summary_of ld"]
          show ?thesis
          proof (cases "fst ?named")
            case extra: (Ok extra)
            then have ok: "plan_ok (planned @ extra) (fst (snd ?named))" using named by (simp add: split_def)
            have "length (rest @ extra) \<le> length (planned @ extra)" "Suc MAX_DIALS \<le> fuel + (length (planned @ extra) - length (rest @ extra))"
              using len by auto
            from Suc.IH [of "planned @ extra" "(snd ?r)\<lparr>fe_resolving := snd ?named\<rparr>" "rest @ extra" ?g'] ok this copy
            show ?thesis using Ok Some Cons running extra by (simp add: Let_def)
          next
            case (Err e)
            then have "plan_ok planned (fst (snd ?named))" using named by (simp add: split_def)
            with Suc.IH [of planned "(snd ?r)\<lparr>fe_resolving := snd ?named\<rparr>" rest
                "?g'\<lparr>ga_invalid := first_of (ga_invalid ?g) (W (PlanFailed e))\<rparr>"] len copy
            show ?thesis using Ok Some Cons running Err by (simp add: Let_def)
          next
            case Panic
            then have "plan_ok planned (fst (snd ?named))" using named by (simp add: split_def)
            with Panic Ok Some Cons running show ?thesis by (simp add: Let_def plan_ok_def)
          qed
        qed
      next
        case (Err n)
        with Cons running go [of "?g\<lparr>ga_invalid := first_of (ga_invalid ?g) (W n)\<rparr>"] Suc.prems(4)
        show ?thesis by (simp add: Let_def)
      next
        case Panic
        with Cons running plan show ?thesis by (simp add: Let_def plan_ok_def)
      qed
    qed
  qed
qed

section \<open>The decision\<close>

lemma first_difference_None:
  "first_difference k as bs = None \<longleftrightarrow> (\<exists>zs. as = bs @ zs \<or> bs = as @ zs)"
  by (induction k as bs rule: first_difference.induct) auto

lemma first_difference_Some:
  "first_difference k as bs = Some m \<Longrightarrow> k \<le> m \<and> m - k < length as \<and> m - k < length bs
    \<and> take (m - k) as = take (m - k) bs \<and> as ! (m - k) \<noteq> bs ! (m - k)"
proof (induction k as bs rule: first_difference.induct)
  case (1 k a as b bs)
  show ?case
  proof (cases "a = b")
    case True
    with 1 have IH: "Suc k \<le> m" "m - Suc k < length as" "m - Suc k < length bs"
      "take (m - Suc k) as = take (m - Suc k) bs" "as ! (m - Suc k) \<noteq> bs ! (m - Suc k)" by auto
    then have "m - k = Suc (m - Suc k)" by simp
    with IH True show ?thesis by simp
  qed (use 1 in auto)
qed auto

lemma divergence_None: "divergence E a b = None \<longleftrightarrow> (\<exists>zs. ld_events a = ld_events b @ zs \<or> ld_events b = ld_events a @ zs)"
  by (simp add: divergence_def first_difference_None)

text \<open>What the loop over the later copies has found: the first that diverges, and else the longest.\<close>

definition decided :: "env \<Rightarrow> candidate \<Rightarrow> candidate list \<Rightarrow> candidate \<times> equivocation option \<Rightarrow> bool" where
  "decided E first seen acc \<longleftrightarrow> (snd acc = None \<longleftrightarrow> (\<forall>c\<in>set seen. divergence E (snd first) (snd c) = None))
     \<and> (snd acc = None \<longrightarrow> fst acc \<in> set (first # seen)
         \<and> (\<forall>c\<in>set (first # seen). loaded_event_count (snd c) \<le> loaded_event_count (snd (fst acc))))
     \<and> (\<forall>e. snd acc = Some e \<longrightarrow> (\<exists>c\<in>set seen. \<exists>k a b. divergence E (snd first) (snd c) = Some (k, a, b)
         \<and> e = \<lparr>eq_at_seq = k, eq_branches = [\<lparr>eb_source = fst first, eb_event = a\<rparr>, \<lparr>eb_source = fst c, eb_event = b\<rparr>]\<rparr>))"

lemma decide_step_decided:
  assumes "decided E first seen acc"
  shows "decided E first (seen @ [c]) (decide_step E first acc c)"
proof (cases "divergence E (snd first) (snd c)")
  case None
  then show ?thesis using assms by (cases "snd acc") (auto simp: decided_def decide_step_def intro: order_trans less_imp_le)
next
  case (Some d)
  obtain k a b where d: "d = (k, a, b)" by (cases d)
  show ?thesis
  proof (cases "snd acc")
    case None
    with Some d assms show ?thesis by (auto simp: decided_def decide_step_def)
  next
    case eq: (Some e)
    with Some d assms show ?thesis by (auto simp: decided_def decide_step_def)
  qed
qed

lemma decide_decided: "decided E first rest (foldl (decide_step E first) (first, None) rest)"
proof -
  have "decided E first seen acc \<Longrightarrow> decided E first (seen @ rest) (foldl (decide_step E first) acc rest)" for seen acc
  proof (induction rest arbitrary: seen acc)
    case (Cons c rest)
    from Cons.IH [OF decide_step_decided [OF Cons.prems, of c]] show ?case by simp
  qed simp
  moreover have "decided E first [] (first, None)" by (simp add: decided_def)
  ultimately show ?thesis by fastforce
qed

lemma decide_cases:
  obtains (none) "candidates = []" "fo_summary (decide E now l tried candidates invalid) = None"
      "fo_ledger (decide E now l tried candidates invalid) = l"
  | (same) first rest c where "candidates = first # rest" "c \<in> set candidates"
      "\<forall>d\<in>set rest. divergence E (snd first) (snd d) = None"
      "\<forall>d\<in>set candidates. loaded_event_count (snd d) \<le> loaded_event_count (snd c)"
      "decide E now l tried candidates invalid = outcome_verified now (summary_of (snd c)) (fst c) tried"
  | (forked) first rest c k a b where "candidates = first # rest" "c \<in> set rest" "divergence E (snd first) (snd c) = Some (k, a, b)"
      "decide E now l tried candidates invalid = with_equivocation
        \<lparr>eq_at_seq = k, eq_branches = [\<lparr>eb_source = fst first, eb_event = a\<rparr>, \<lparr>eb_source = fst c, eb_event = b\<rparr>]\<rparr>
        (outcome_verified now (summary_of (snd first)) (fst first) tried)"
proof (cases candidates)
  case Nil
  show thesis by (rule none) (auto simp: Nil decide_def outcome_invalid_def outcome_unreachable_def split: option.splits)
next
  case (Cons first rest)
  obtain kept eq where fold: "foldl (decide_step E first) (first, None) rest = (kept, eq)" by fastforce
  have d: "decided E first rest (kept, eq)" using decide_decided [of E first rest] fold by simp
  show thesis
  proof (cases eq)
    case None
    with d have "kept \<in> set candidates" "\<forall>d\<in>set candidates. loaded_event_count (snd d) \<le> loaded_event_count (snd kept)"
      "\<forall>d\<in>set rest. divergence E (snd first) (snd d) = None" by (auto simp: decided_def Cons)
    then show thesis by (intro same [OF Cons]) (auto simp: decide_def Cons fold None)
  next
    case (Some e)
    with d obtain c k a b where "c \<in> set rest" "divergence E (snd first) (snd c) = Some (k, a, b)"
      and "e = \<lparr>eq_at_seq = k, eq_branches = [\<lparr>eb_source = fst first, eb_event = a\<rparr>, \<lparr>eb_source = fst c, eb_event = b\<rparr>]\<rparr>"
      by (auto simp: decided_def)
    then show thesis by (intro forked [OF Cons]) (auto simp: decide_def Cons fold Some)
  qed
qed

section \<open>A whole fetch\<close>

definition fetched_ok :: "env \<Rightarrow> ledger_id \<Rightarrow> fetch_outcome \<Rightarrow> bool" where
  "fetched_ok E l f \<longleftrightarrow> fo_ledger f = l \<and> (\<forall>y. fo_summary f = Some y \<longrightarrow> (\<exists>ld. copy_ok E l ld \<and> y = summary_of ld))"

definition in_budget :: "'w fetching \<Rightarrow> bool" where
  "in_budget s \<longleftrightarrow> budget_ok (rl_dials (fst (fe_resolving s)))"

lemma decide_fetched:
  assumes "gathered_ok E l g"
  shows "fetched_ok E l (decide E now l (ga_tried g) (ga_candidates g) (ga_invalid g))"
proof (cases rule: decide_cases [of "ga_candidates g" E now l "ga_tried g" "ga_invalid g"])
  case none
  then show ?thesis by (simp add: fetched_ok_def)
next
  case (same first rest c)
  then have "copy_ok E l (snd c)" using assms by (auto simp: gathered_ok_def)
  then show ?thesis using copy_ok_ledger by (auto simp: same(5) fetched_ok_def outcome_verified_def)
next
  case (forked first rest c k a b)
  then have "copy_ok E l (snd first)" using assms by (auto simp: gathered_ok_def)
  then show ?thesis using copy_ok_ledger by (auto simp: forked(4) fetched_ok_def outcome_verified_def with_equivocation_def)
qed

lemma finish_fetched:
  assumes "gathered_ok E l g" and "in_budget s"
  shows "\<exists>f s'. finish_fetch E now l g s = (Ok f, s') \<and> fetched_ok E l f \<and> in_budget s'"
  using assms decide_fetched by (auto simp: finish_fetch_def in_budget_def Let_def split: prod.splits)

lemma dns_planned_budget: "budget_ok (rl_dials r) \<Longrightarrow> budget_ok (rl_dials (snd (dns_planned E h es r)))"
  by (induction E h es r rule: dns_planned.induct) (auto simp: Let_def admit_budget)

lemma dns_sources_budget: "in_budget s \<Longrightarrow> in_budget (snd (dns_sources E N now l s))"
  by (auto simp: dns_sources_def in_budget_def Let_def then_do_def dns_planned_budget split: option.splits outcome.splits)

lemma dns_loop_gathers:
  "gathered_ok E l g \<Longrightarrow> in_budget s \<Longrightarrow> in_budget (snd (dns_loop E W N now l ps g s))
    \<and> (\<forall>g'. fst (dns_loop E W N now l ps g s) = Ok g' \<longrightarrow> gathered_ok E l g')"
proof (induction E W N now l ps g s rule: dns_loop.induct)
  case (2 E W N now l p ps g s)
  let ?r = "read_source E N now l p s"
  have budget: "in_budget (snd ?r)" using 2 by (simp add: in_budget_def read_source_resolution)
  have copy: "copy_ok E l ld" if "fst ?r = Ok (Some ld)" for ld using read_source_copy [OF that] .
  show ?case
  proof (cases "fetch_expired N s")
    case False
    show ?thesis
    proof (cases "fst ?r")
      case (Ok found)
      show ?thesis
      proof (cases found)
        case None
        with "2.IH"(1) [OF False refl refl refl Ok None _ budget] "2.prems"(1) False Ok show ?thesis by (simp add: Let_def)
      next
        case (Some ld)
        let ?g = "g\<lparr>ga_tried := ga_tried g @ [ps_source p]\<rparr>"
        have "gathered_ok E l (?g\<lparr>ga_candidates := ga_candidates ?g @ [(ps_source p, ld)]\<rparr>)"
          using 2(4) copy [of ld] Ok Some by (auto simp: gathered_ok_def)
        with "2.IH"(2) [OF False refl refl refl Ok Some _ budget] Ok False Some show ?thesis by (simp add: Let_def)
      qed
    next
      case (Err n)
      with "2.IH"(3) [OF False refl refl refl Err _ budget] "2.prems"(1) False show ?thesis by (simp add: Let_def)
    next
      case Panic
      with False budget show ?thesis by (simp add: Let_def)
    qed
  qed (use "2.prems" in simp)
qed simp

lemma net_fetch_returns:
  assumes "in_budget s"
  shows "\<exists>r s'. net_fetch E W N now l learned s = Some (r, s') \<and> in_budget s' \<and> (\<forall>f. r = Ok f \<longrightarrow> fetched_ok E l f)"
proof -
  let ?plan = "plan_sources E now l learned (fe_resolving s)"
  define s1 where "s1 = s\<lparr>fe_resolving := snd ?plan\<rparr>"
  have plan: "case ?plan of (Ok planned, s') \<Rightarrow> plan_ok planned (fst s') | (_, s') \<Rightarrow> budget_ok (rl_dials (fst s'))"
    using plan_sources_ok assms by (simp add: in_budget_def)
  show ?thesis
  proof (cases "fst ?plan")
    case (Ok planned)
    have ok: "plan_ok planned (fst (fe_resolving s1))" using plan Ok by (simp add: split_def s1_def)
    have g0: "gathered_ok E l no_sources" by (simp add: gathered_ok_def no_sources_def)
    have fuel: "Suc MAX_DIALS \<le> FETCH_FUEL + (length planned - length planned)" by (simp add: FETCH_FUEL_def MAX_DIALS_def)
    obtain r s2 where loop: "fetch_loop E W N now l FETCH_FUEL planned planned no_sources s1 = Some (r, s2)"
      and b: "in_budget s2" and g: "\<And>g. r = Ok g \<Longrightarrow> gathered_ok E l g"
      using fetch_loop_returns [OF ok order_refl fuel g0, of W N now] unfolding in_budget_def by metis
    have eq: "net_fetch E W N now l learned s = Some (then_do (r, s2) (\<lambda>g s.
               if \<not> reached_copy g \<and> \<not> fetch_expired N s then
                 then_do (dns_sources E N now l s) (\<lambda>named s.
                 then_do (dns_loop E W N now l named g s) (finish_fetch E now l))
               else finish_fetch E now l g s))"
      using Ok loop by (simp add: net_fetch_def Let_def s1_def)
    show ?thesis
    proof (cases r)
      case (Ok g1)
      show ?thesis
      proof (cases "\<not> reached_copy g1 \<and> \<not> fetch_expired N s2")
        case True
        obtain d s3 where d: "dns_sources E N now l s2 = (d, s3)" by fastforce
        have b3: "in_budget s3" using dns_sources_budget [OF b, of E N now l] d by simp
        show ?thesis
        proof (cases d)
          case (Ok named)
          obtain g2 s4 where l2: "dns_loop E W N now l named g1 s3 = (g2, s4)" by fastforce
          note l3 = dns_loop_gathers [OF g [OF \<open>r = Ok g1\<close>] b3, of W N now named]
          show ?thesis
          proof (cases g2)
            case (Ok g')
            then have "gathered_ok E l g'" "in_budget s4" using l3 l2 by auto
            from finish_fetched [OF this] show ?thesis
              using eq \<open>r = Ok g1\<close> True d \<open>d = Ok named\<close> l2 Ok by fastforce
          qed (use eq \<open>r = Ok g1\<close> True d \<open>d = Ok named\<close> l2 l3 in simp_all)
        qed (use eq \<open>r = Ok g1\<close> True d b3 in simp_all)
      next
        case False
        from finish_fetched [OF g [OF Ok] b] show ?thesis using eq Ok False by fastforce
      qed
    qed (use eq b in simp_all)
  next
    case (Err e)
    have "in_budget s1" using plan Err by (simp add: split_def s1_def in_budget_def)
    with Err show ?thesis
      by (simp add: net_fetch_def Let_def s1_def fetched_ok_def outcome_invalid_def outcome_unreachable_def)
  next
    case Panic
    have "in_budget s1" using plan Panic by (simp add: split_def s1_def in_budget_def)
    with Panic show ?thesis by (simp add: net_fetch_def Let_def s1_def)
  qed
qed

end
