(* ===== verification/Graph_Paths.thy ===== *)
theory Graph_Paths
  imports Graph_Store
begin

text \<open>
  What the reader of a generation answers: the degrees of separation are the length of
  the shortest chain of attestations, and the paths it lists are such chains. The
  searches of \<open>Graph_Store.thy\<close> run over two adjacency maps, the edges and the edges read
  backwards; both stand for one relation, which is what the locale \<open>generation_graph\<close>
  gives its clients.
\<close>

section \<open>The trust relation of a generation\<close>

definition trust_edges :: "(document_id, graph_node) btree_map \<Rightarrow> (document_id \<times> document_id) set" where
  "trust_edges nodes = {(x, y). \<exists>n. bt_get nodes x = Some n \<and> y \<in> ge_subject ` set (gn_edges n) \<and> bt_get nodes y \<noteq> None}"

text \<open>Every node is filed under its own id, which is how a crawl and a read build the map.\<close>

definition gen_ok :: "(document_id, graph_node) btree_map \<Rightarrow> bool" where
  "gen_ok nodes \<longleftrightarrow> bt_wf nodes \<and> (\<forall>i n. bt_get nodes i = Some n \<longrightarrow> gn_identity_id n = i)"

lemma gen_ok_insert: "gen_ok nodes \<Longrightarrow> gn_identity_id n = i \<Longrightarrow> gen_ok (bt_insert i n nodes)"
  by (auto simp: gen_ok_def bt_get_insert bt_wf_insert)

lemma gen_ok_id: "gen_ok nodes \<Longrightarrow> bt_get nodes i = Some n \<Longrightarrow> gn_identity_id n = i"
  by (simp add: gen_ok_def)

lemma gen_ok_mem: "gen_ok nodes \<Longrightarrow> n \<in> snd ` set nodes \<longleftrightarrow> bt_get nodes (gn_identity_id n) = Some n"
proof -
  assume ok: "gen_ok nodes"
  have "n \<in> snd ` set nodes \<longleftrightarrow> (\<exists>i. (i, n) \<in> set nodes)" by force
  also have "\<dots> \<longleftrightarrow> (\<exists>i. bt_get nodes i = Some n)" using ok by (simp add: gen_ok_def bt_get_mem)
  also have "\<dots> \<longleftrightarrow> bt_get nodes (gn_identity_id n) = Some n" using ok by (auto simp: gen_ok_def)
  finally show ?thesis .
qed

lemma gen_ok_ex:
  assumes "gen_ok nodes"
  shows "(\<exists>n. n \<in> snd ` set nodes \<and> P (gn_identity_id n) n) \<longleftrightarrow> (\<exists>i n. bt_get nodes i = Some n \<and> P i n)"
  unfolding gen_ok_mem [OF assms] using gen_ok_id [OF assms] by metis

lemma outgoing_neighbours: "set (neighbours (outgoing nodes) x) = {y. (x, y) \<in> trust_edges nodes}"
proof -
  have "bt_get (map (\<lambda>(i, n). (i, f n)) m) x = map_option f (bt_get m x)" for f :: "graph_node \<Rightarrow> document_id list" and m
    by (induction m) (auto simp: bt_get_def)
  then show ?thesis by (cases "bt_get nodes x") (auto simp: outgoing_def neighbours_def trust_edges_def)
qed

lemma push_incoming_set:
  "set (neighbours (foldl (push_incoming i) m subjects) s) = set (neighbours m s) \<union> (if s \<in> set subjects then {i} else {})"
proof (induction subjects arbitrary: m)
  case (Cons y ys)
  have "set (neighbours (push_incoming i m y) s) = set (neighbours m s) \<union> (if s = y then {i} else {})"
    by (auto simp: push_incoming_def neighbours_def bt_get_insert split: option.splits)
  with Cons show ?case by auto
qed simp

lemma incoming_neighbours:
  assumes "gen_ok nodes"
  shows "set (neighbours (incoming nodes) y) = {x. (x, y) \<in> trust_edges nodes}"
proof -
  have all: "set (neighbours (foldl (\<lambda>m n. foldl (push_incoming (gn_identity_id n)) m (f n)) m ns) y)
      = set (neighbours m y) \<union> {gn_identity_id n | n. n \<in> set ns \<and> y \<in> set (f n)}" for f :: "graph_node \<Rightarrow> document_id list" and m ns
    by (induction ns arbitrary: m) (auto simp: push_incoming_set)
  have "x \<in> set (neighbours (incoming nodes) y) \<longleftrightarrow> (\<exists>n. n \<in> snd ` set nodes \<and> gn_identity_id n = x
      \<and> y \<in> ge_subject ` set (gn_edges n) \<and> bt_get nodes y \<noteq> None)" for x
    unfolding incoming_def all by (auto simp: neighbours_def)
  also have "\<dots> x \<longleftrightarrow> (\<exists>i n. bt_get nodes i = Some n \<and> i = x
      \<and> y \<in> ge_subject ` set (gn_edges n) \<and> bt_get nodes y \<noteq> None)" for x
    by (rule gen_ok_ex [OF assms])
  finally show ?thesis by (auto simp: trust_edges_def)
qed

locale generation_graph =
  fixes nodes :: "(document_id, graph_node) btree_map"
  assumes nodes_ok: "gen_ok nodes"

sublocale generation_graph \<subseteq> forward: adjacency "outgoing nodes" "trust_edges nodes"
  by unfold_locales (rule outgoing_neighbours)

sublocale generation_graph \<subseteq> backward: adjacency "incoming nodes" "(trust_edges nodes)\<inverse>"
  by unfold_locales (simp add: incoming_neighbours [OF nodes_ok])

context generation_graph
begin

lemma search_forward: "bt_get (bfs (outgoing nodes) s) x = Some k \<longleftrightarrow> distance (trust_edges nodes) {s} x k"
  by (rule forward.bfs_distance)

lemma search_backward:
  "bt_get (bfs (incoming nodes) t) x = Some k \<longleftrightarrow> distance (trust_edges nodes) {x} t k"
  by (simp add: backward.bfs_distance distance_single relpow_converse)

end

section \<open>Paths\<close>

text \<open>A hop is an attestation of the generation; a path is a chain of hops.\<close>

definition attested :: "(document_id, graph_node) btree_map \<Rightarrow> path_hop \<Rightarrow> bool" where
  "attested nodes h \<longleftrightarrow> (\<exists>n e. bt_get nodes (ph_from h) = Some n \<and> e \<in> set (gn_edges n) \<and> ge_subject e = ph_to h
     \<and> ge_attestation_event e = ph_attestation_event h) \<and> bt_get nodes (ph_to h) \<noteq> None"

fun hop_path :: "(document_id, graph_node) btree_map \<Rightarrow> document_id \<Rightarrow> document_id \<Rightarrow> graph_path \<Rightarrow> bool" where
  "hop_path nodes a b [] = (a = b)"
| "hop_path nodes a b (h # hs) = (ph_from h = a \<and> attested nodes h \<and> hop_path nodes (ph_to h) b hs)"

lemma attested_edge: "attested nodes h \<Longrightarrow> (ph_from h, ph_to h) \<in> trust_edges nodes"
  by (force simp: attested_def trust_edges_def)

lemma edge_attested: "(a, b) \<in> trust_edges nodes \<Longrightarrow> \<exists>h. attested nodes h \<and> ph_from h = a \<and> ph_to h = b"
proof -
  assume "(a, b) \<in> trust_edges nodes"
  then obtain n e where "bt_get nodes a = Some n" "e \<in> set (gn_edges n)" "ge_subject e = b" "bt_get nodes b \<noteq> None"
    by (auto simp: trust_edges_def)
  then show ?thesis
    by (intro exI [of _ "\<lparr>ph_from = a, ph_to = b, ph_attestation_event = ge_attestation_event e\<rparr>"])
       (auto simp: attested_def)
qed

lemma hop_path_relpow: "(a, b) \<in> trust_edges nodes ^^ k \<longleftrightarrow> (\<exists>p. hop_path nodes a b p \<and> length p = k)"
proof (induction k arbitrary: a)
  case (Suc k)
  have "(a, b) \<in> trust_edges nodes ^^ Suc k
      \<longleftrightarrow> (\<exists>c. (a, c) \<in> trust_edges nodes \<and> (c, b) \<in> trust_edges nodes ^^ k)"
    by (meson relpow_Suc_D2 relpow_Suc_I2)
  also have "\<dots> \<longleftrightarrow> (\<exists>h p. attested nodes h \<and> ph_from h = a \<and> hop_path nodes (ph_to h) b p \<and> length p = k)"
    unfolding Suc using attested_edge edge_attested by blast
  also have "\<dots> \<longleftrightarrow> (\<exists>p. hop_path nodes a b p \<and> length p = Suc k)"
  proof
    assume "\<exists>p. hop_path nodes a b p \<and> length p = Suc k"
    then obtain h p where "hop_path nodes a b (h # p)" "length p = k" by (auto simp: length_Suc_conv)
    then show "\<exists>h p. attested nodes h \<and> ph_from h = a \<and> hop_path nodes (ph_to h) b p \<and> length p = k" by auto
  next
    assume "\<exists>h p. attested nodes h \<and> ph_from h = a \<and> hop_path nodes (ph_to h) b p \<and> length p = k"
    then obtain h p where "hop_path nodes a b (h # p)" "length (h # p) = Suc k" by auto
    then show "\<exists>p. hop_path nodes a b p \<and> length p = Suc k" by blast
  qed
  finally show ?case .
qed auto

lemma distance_hops:
  "distance (trust_edges nodes) {a} b k \<longleftrightarrow>
     (\<exists>p. hop_path nodes a b p \<and> length p = k) \<and> (\<forall>p. hop_path nodes a b p \<longrightarrow> k \<le> length p)"
  unfolding distance_single hop_path_relpow by (metis linorder_not_le)

lemma distance_path: "distance (trust_edges nodes) {a} b k \<Longrightarrow> \<exists>p. hop_path nodes a b p \<and> length p = k"
  by (simp add: distance_hops)

text \<open>All paths that lose one of the remaining distance at every hop, in the order of the walk.\<close>

fun descents :: "generation \<Rightarrow> (document_id, nat) btree_map \<Rightarrow> nat \<Rightarrow> document_id \<Rightarrow> graph_path list" where
  "descents g remaining 0 at = [[]]"
| "descents g remaining (Suc left) at =
     (case bt_get (gen_nodes g) at of
        None \<Rightarrow> []
      | Some n \<Rightarrow> concat (map (\<lambda>e. map (\<lambda>p. \<lparr>ph_from = at, ph_to = ge_subject e,
            ph_attestation_event = ge_attestation_event e\<rparr> # p) (descents g remaining left (ge_subject e)))
          (filter (\<lambda>e. bt_get remaining (ge_subject e) = Some left) (sort_key ge_subject (gn_edges n)))))"

text \<open>The walk with its running list and its limit is a prefix of that enumeration.\<close>

definition fill :: "nat \<Rightarrow> 'a list \<Rightarrow> 'a list \<Rightarrow> 'a list" where
  "fill limit found new = (if limit \<le> length found then found else found @ take (limit - length found) new)"

lemma fill_append: "fill limit (fill limit found a) b = fill limit found (a @ b)"
  by (auto simp: fill_def min_def)

lemma fill_full: "limit \<le> length found \<Longrightarrow> fill limit found new = found"
  by (simp add: fill_def)

lemma fill_Nil [simp]: "fill limit found [] = found"
  by (simp add: fill_def)

lemma walk_fill: "walk g remaining limit d at hops found = fill limit found (map (\<lambda>p. hops @ p) (descents g remaining d at))"
proof (induction d arbitrary: at hops found)
  case 0
  then show ?case by (auto simp: fill_def take_Cons')
next
  case (Suc d)
  show ?case
  proof (cases "bt_get (gen_nodes g) at")
    case (Some n)
    define tail where "tail e = map (\<lambda>p. \<lparr>ph_from = at, ph_to = ge_subject e,
      ph_attestation_event = ge_attestation_event e\<rparr> # p) (descents g remaining d (ge_subject e))" for e :: graph_edge
    have edge: "walk_edge (walk g remaining limit d) at d remaining hops limit found e
        = fill limit found (if bt_get remaining (ge_subject e) = Some d then map ((@) hops) (tail e) else [])" for found e
      by (auto simp: walk_edge_def Suc fill_full tail_def comp_def)
    have "foldl (walk_edge (walk g remaining limit d) at d remaining hops limit) found es
        = fill limit found (map ((@) hops) (concat (map tail
            (filter (\<lambda>e. bt_get remaining (ge_subject e) = Some d) es))))" for es found
      by (induction es arbitrary: found) (auto simp: edge fill_append)
    with Some show ?thesis by (simp add: fill_full tail_def [abs_def])
  qed (simp add: fill_full)
qed

lemma descents_iff:
  assumes "\<forall>x k. bt_get remaining x = Some k \<longleftrightarrow> distance (trust_edges (gen_nodes g)) {x} t k"
    and "distance (trust_edges (gen_nodes g)) {at} t d"
  shows "p \<in> set (descents g remaining d at) \<longleftrightarrow> hop_path (gen_nodes g) at t p \<and> length p = d"
  using assms(2)
proof (induction d arbitrary: at p)
  case 0
  then show ?case by (auto simp: distance_0)
next
  case (Suc d)
  let ?N = "gen_nodes g"
  obtain x where "(x, t) \<in> trust_edges ?N" using distance_Suc [OF Suc.prems] by metis
  then have target: "bt_get ?N t \<noteq> None" by (auto simp: trust_edges_def)
  have closer: "distance (trust_edges ?N) {ph_to h} t d"
    if "attested ?N h" "ph_from h = at" "hop_path ?N (ph_to h) t q" "length q = d" for h q
    unfolding distance_hops
  proof (intro conjI allI impI)
    fix r assume "hop_path ?N (ph_to h) t r"
    then have "hop_path ?N at t (h # r)" using that by simp
    then have "Suc d \<le> length (h # r)" using Suc.prems unfolding distance_hops by blast
    then show "d \<le> length r" by simp
  qed (use that in blast)
  have node: "bt_get ?N s \<noteq> None" if "distance (trust_edges ?N) {s} t d" for s
  proof -
    from that obtain q where "hop_path ?N s t q" using distance_path by blast
    then show ?thesis using target by (cases q) (auto simp: attested_def)
  qed
  show ?case
  proof
    assume "p \<in> set (descents g remaining (Suc d) at)"
    then obtain n e q where n: "bt_get ?N at = Some n" and e: "e \<in> set (gn_edges n)"
      and left: "bt_get remaining (ge_subject e) = Some d" and q: "q \<in> set (descents g remaining d (ge_subject e))"
      and p: "p = \<lparr>ph_from = at, ph_to = ge_subject e, ph_attestation_event = ge_attestation_event e\<rparr> # q"
      by (cases "bt_get ?N at") auto
    from left assms(1) have d: "distance (trust_edges ?N) {ge_subject e} t d" by simp
    with n e node have "attested ?N (hd p)" by (auto simp: attested_def p)
    with Suc.IH [OF d] q show "hop_path ?N at t p \<and> length p = Suc d" by (simp add: p)
  next
    assume "hop_path ?N at t p \<and> length p = Suc d"
    then obtain h q where p: "p = h # q" and h: "attested ?N h" "ph_from h = at" and q: "hop_path ?N (ph_to h) t q" "length q = d"
      by (cases p) auto
    from closer [OF h q] have d: "distance (trust_edges ?N) {ph_to h} t d" .
    obtain n e where n: "bt_get ?N at = Some n" and e: "e \<in> set (gn_edges n)" and to: "ge_subject e = ph_to h"
      and event: "ge_attestation_event e = ph_attestation_event h" using h by (auto simp: attested_def)
    have "p = \<lparr>ph_from = at, ph_to = ge_subject e, ph_attestation_event = ge_attestation_event e\<rparr> # q"
      using to event h(2) p by simp
    moreover have "bt_get remaining (ge_subject e) = Some d" using assms(1) d to by simp
    moreover have "q \<in> set (descents g remaining d (ge_subject e))" using Suc.IH [OF d] q to by simp
    ultimately show "p \<in> set (descents g remaining (Suc d) at)" using n e by auto
  qed
qed

section \<open>What a lookup answers\<close>

lemma degrees_iff:
  assumes "gen_ok (gen_nodes g)"
  shows "degrees g a b = Some k \<longleftrightarrow> bt_get (gen_nodes g) a \<noteq> None \<and> distance (trust_edges (gen_nodes g)) {a} b k"
proof -
  let ?N = "gen_nodes g"
  have graph: "generation_graph ?N" using assms by (simp add: generation_graph_def)
  show ?thesis
  proof (cases "a = b")
    case True
    then show ?thesis using distance_unique distance_0 [of "trust_edges ?N" "{b}" b] by (auto simp: degrees_def)
  next
    case False
    have "bt_get ?N a \<noteq> None" if "distance (trust_edges ?N) {a} b k"
    proof -
      from that obtain p where "hop_path ?N a b p" using distance_path by blast
      with False show ?thesis by (cases p) (auto simp: attested_def)
    qed
    with False show ?thesis
      by (auto simp: degrees_def distances_from_def generation_graph.search_forward [OF graph])
  qed
qed

lemma paths_up_to_eq:
  assumes "gen_ok (gen_nodes g)"
  shows "paths_up_to g a b limit = take limit
    (case degrees g a b of None \<Rightarrow> [] | Some d \<Rightarrow> if a = b then [[]] else descents g (distances_to g b) d a)"
proof -
  let ?N = "gen_nodes g"
  have graph: "generation_graph ?N" using assms by (simp add: generation_graph_def)
  have left: "bt_get (distances_to g b) x = Some k \<longleftrightarrow> distance (trust_edges ?N) {x} b k" for x k
    by (simp add: distances_to_def generation_graph.search_backward [OF graph])
  have target: "bt_get ?N b \<noteq> None" if "distance (trust_edges ?N) {a} b k" "a \<noteq> b" for k
  proof -
    from that obtain j where "k = Suc j" by (cases k) (auto simp: distance_0)
    with that(1) obtain x where "(x, b) \<in> trust_edges ?N" using distance_Suc by metis
    then show ?thesis by (auto simp: trust_edges_def)
  qed
  show ?thesis
  proof (cases "degrees g a b")
    case None
    with degrees_iff [OF assms, of a b] left [of a]
    have "bt_get ?N a = None \<or> a \<noteq> b \<and> bt_get (distances_to g b) a = None"
      by (metis degrees_def not_Some_eq)
    with None show ?thesis by (auto simp: paths_up_to_def Let_def)
  next
    case (Some d)
    then have d: "bt_get ?N a \<noteq> None" "distance (trust_edges ?N) {a} b d" using degrees_iff [OF assms] by auto
    show ?thesis
    proof (cases "a = b")
      case True
      with d(1) Some show ?thesis by (cases limit) (auto simp: paths_up_to_def)
    next
      case False
      from target [OF d(2) False] d left [of a d] False Some show ?thesis
        by (auto simp: paths_up_to_def Let_def walk_fill fill_def)
    qed
  qed
qed

lemma shortest_iff:
  assumes "gen_ok (gen_nodes g)" and "degrees g a b = Some d"
  shows "p \<in> set (if a = b then [[]] else descents g (distances_to g b) d a) \<longleftrightarrow> hop_path (gen_nodes g) a b p \<and> length p = d"
proof (cases "a = b")
  case True
  with assms have "d = 0" by (auto simp: degrees_def split: if_splits)
  with True show ?thesis by auto
next
  case False
  have graph: "generation_graph (gen_nodes g)" using assms by (simp add: generation_graph_def)
  have "\<forall>x k. bt_get (distances_to g b) x = Some k \<longleftrightarrow> distance (trust_edges (gen_nodes g)) {x} b k"
    by (simp add: distances_to_def generation_graph.search_backward [OF graph])
  then show ?thesis using descents_iff assms degrees_iff [OF assms(1)] False by simp
qed

lemma reverse_edges_iff:
  assumes "gen_ok (gen_nodes g)"
  shows "r \<in> set (rs_entries (reverse_edges_of g i)) \<longleftrightarrow> (\<exists>n e. bt_get (gen_nodes g) (re_identity r) = Some n
    \<and> e \<in> set (gn_edges n) \<and> ge_subject e = i \<and> ge_attestation_event e = re_attestation_event r \<and> ge_seq e = re_seq r)"
proof -
  have "r \<in> set (rs_entries (reverse_edges_of g i)) \<longleftrightarrow> (\<exists>n. n \<in> snd ` set (gen_nodes g) \<and> (\<exists>e\<in>set (gn_edges n).
      ge_subject e = i \<and> r = \<lparr>re_identity = gn_identity_id n, re_attestation_event = ge_attestation_event e, re_seq = ge_seq e\<rparr>))"
    by (auto simp: reverse_edges_of_def reverse_edges_new_def)
  also have "\<dots> \<longleftrightarrow> (\<exists>j n. bt_get (gen_nodes g) j = Some n \<and> (\<exists>e\<in>set (gn_edges n).
      ge_subject e = i \<and> r = \<lparr>re_identity = j, re_attestation_event = ge_attestation_event e, re_seq = ge_seq e\<rparr>))"
    by (rule gen_ok_ex [OF assms])
  also have "\<dots> \<longleftrightarrow> (\<exists>n e. bt_get (gen_nodes g) (re_identity r) = Some n
    \<and> e \<in> set (gn_edges n) \<and> ge_subject e = i \<and> ge_attestation_event e = re_attestation_event r \<and> ge_seq e = re_seq r)"
    by (cases r) auto
  finally show ?thesis .
qed

end
