(* ===== verification/Crawl_Facts.thy ===== *)
theory Crawl_Facts
  imports Graph_Crawl Fetch_Facts Graph_Paths
begin

text \<open>
  What a crawl sees. The walk is a breadth-first search of the attestations it reads, so
  the depth of a node is its distance from the roots, also when a cap cuts the walk, and a
  walk that no cap cut is closed under attestations. What the walk relies on of its fetcher is
  the locale \<open>ledger_fetcher\<close>; the fetcher of a node is an instance of it.
\<close>

section \<open>Depths\<close>

type_synonym outcomes = "(identity_id, nat \<times> fetch_outcome) btree_map"

definition reads :: "outcomes \<Rightarrow> identity_id set" where
  "reads m = {l. bt_get m l \<noteq> None}"

definition depth_in :: "outcomes \<Rightarrow> identity_id \<Rightarrow> nat \<Rightarrow> bool" where
  "depth_in m l d \<longleftrightarrow> (\<exists>f. bt_get m l = Some (d, f))"

definition attests :: "outcomes \<Rightarrow> identity_id \<Rightarrow> identity_id \<Rightarrow> bool" where
  "attests m x y \<longleftrightarrow> (\<exists>d f s. bt_get m x = Some (d, f) \<and> fo_summary f = Some s \<and> y \<in> tr_subject ` set (cy_trust s))"

definition read_edges :: "outcomes \<Rightarrow> (identity_id \<times> identity_id) set" where
  "read_edges m = {(x, y). attests m x y \<and> y \<in> reads m}"

lemma depth_unique: "depth_in m l d \<Longrightarrow> depth_in m l d' \<Longrightarrow> d = d'"
  by (auto simp: depth_in_def)

lemma depth_reads: "depth_in m l d \<Longrightarrow> l \<in> reads m"
  by (auto simp: depth_in_def reads_def)

lemma reads_depth: "l \<in> reads m \<Longrightarrow> \<exists>d. depth_in m l d"
  by (auto simp: depth_in_def reads_def)

lemma attests_reads: "attests m x y \<Longrightarrow> x \<in> reads m"
  by (auto simp: attests_def reads_def)

text \<open>Depths that start at the roots, rise by one along a parent, and by at most one along any edge.\<close>

definition layered :: "identity_id set \<Rightarrow> outcomes \<Rightarrow> bool" where
  "layered S m \<longleftrightarrow> (\<forall>x. depth_in m x 0 \<longleftrightarrow> x \<in> S \<and> x \<in> reads m)
     \<and> (\<forall>x k. depth_in m x (Suc k) \<longrightarrow> (\<exists>p. depth_in m p k \<and> attests m p x))
     \<and> (\<forall>x y k j. depth_in m x k \<longrightarrow> depth_in m y j \<longrightarrow> attests m x y \<longrightarrow> j \<le> Suc k)"

lemma layered_parent: "layered S m \<Longrightarrow> depth_in m x (Suc k) \<Longrightarrow> \<exists>p. depth_in m p k \<and> attests m p x"
  unfolding layered_def by metis

lemma layered_edge: "layered S m \<Longrightarrow> depth_in m x k \<Longrightarrow> depth_in m y j \<Longrightarrow> attests m x y \<Longrightarrow> j \<le> Suc k"
  unfolding layered_def by metis

lemma layered_distance:
  assumes "layered S m" and "depth_in m x k"
  shows "distance (read_edges m) S x k"
  unfolding distance_def
proof (intro conjI allI impI ballI)
  show "\<exists>s\<in>S. (s, x) \<in> read_edges m ^^ k" using assms(2)
  proof (induction k arbitrary: x)
    case 0
    then have "x \<in> S" using assms(1) by (simp add: layered_def)
    then show ?case by (intro bexI [of _ x]) auto
  next
    case (Suc k)
    obtain p where p: "depth_in m p k" "attests m p x" using layered_parent [OF assms(1) Suc.prems] by blast
    from Suc.IH [OF p(1)] obtain s where s: "s \<in> S" "(s, p) \<in> read_edges m ^^ k" by blast
    have "(p, x) \<in> read_edges m" using p(2) depth_reads [OF Suc.prems] by (simp add: read_edges_def)
    with s show ?case by auto
  qed
next
  fix j s assume "j < k" "s \<in> S"
  have "\<exists>i\<le>j. depth_in m y i" if "(s, y) \<in> read_edges m ^^ j" "y \<in> reads m" for y
    using that
  proof (induction j arbitrary: y)
    case 0
    then show ?case using assms(1) \<open>s \<in> S\<close> by (auto simp: layered_def)
  next
    case (Suc j)
    then obtain z where z: "(s, z) \<in> read_edges m ^^ j" "(z, y) \<in> read_edges m" by auto
    then have "z \<in> reads m" "attests m z y" by (auto simp: read_edges_def attests_reads)
    with Suc.IH [OF z(1)] obtain i where i: "i \<le> j" "depth_in m z i" by blast
    obtain i' where "depth_in m y i'" using reads_depth [OF Suc.prems(2)] by blast
    moreover have "i' \<le> Suc i" using assms(1) i(2) calculation \<open>attests m z y\<close> unfolding layered_def by blast
    ultimately show ?case using i(1) by (intro exI [of _ i']) simp
  qed
  then show "(s, x) \<notin> read_edges m ^^ j"
    using depth_reads [OF assms(2)] depth_unique [OF assms(2)] \<open>j < k\<close> by (metis leD)
qed

section \<open>One level\<close>

text \<open>
  The walk before the level of depth \<open>d\<close>: what was read is layered and lies below \<open>d\<close>, the
  frontier is new, its nodes have parents on the level before, and an edge out of what was read
  leads to what was read, or from the level before into the frontier.
\<close>

definition walk_at :: "identity_id set \<Rightarrow> nat \<Rightarrow> identity_id set \<Rightarrow> outcomes \<Rightarrow> bool" where
  "walk_at S d F m \<longleftrightarrow> bt_wf m \<and> layered S m \<and> (\<forall>x k. depth_in m x k \<longrightarrow> k < d) \<and> F \<inter> reads m = {}
     \<and> S \<subseteq> reads m \<union> F \<and> (\<forall>y\<in>F. if d = 0 then y \<in> S else \<exists>p. depth_in m p (d - 1) \<and> attests m p y)
     \<and> (\<forall>x y k. depth_in m x k \<longrightarrow> attests m x y \<longrightarrow> y \<in> reads m \<or> Suc k = d \<and> y \<in> F) \<and> (d = 0 \<or> S \<subseteq> reads m)"

text \<open>Outcomes of some of the frontier, filed at depth \<open>d\<close>.\<close>

definition filed :: "nat \<Rightarrow> identity_id set \<Rightarrow> outcomes \<Rightarrow> outcomes \<Rightarrow> bool" where
  "filed d L m m' \<longleftrightarrow> bt_wf m' \<and> (\<forall>x. x \<notin> L \<longrightarrow> bt_get m' x = bt_get m x)
     \<and> (\<forall>x\<in>L. \<exists>f. bt_get m' x = Some (d, f) \<and> fo_ledger f = x)"

lemma filed_depth: "filed d L m m' \<Longrightarrow> depth_in m' x k \<longleftrightarrow> (if x \<in> L then k = d else depth_in m x k)"
  unfolding filed_def depth_in_def by (metis option.inject prod.inject)

lemma filed_reads: "filed d L m m' \<Longrightarrow> reads m' = reads m \<union> L"
  by (fastforce simp: filed_def reads_def)

lemma filed_attests: "filed d L m m' \<Longrightarrow> x \<notin> L \<Longrightarrow> attests m' x y \<longleftrightarrow> attests m x y"
  by (simp add: filed_def attests_def)

lemma filed_layered:
  assumes walk: "walk_at S d F m" and filed: "filed d L m m'" and "L \<subseteq> F"
  shows "layered S m'"
proof -
  note depth = filed_depth [OF filed] and reads = filed_reads [OF filed] and att = filed_attests [OF filed]
  have new: "x \<notin> reads m" if "x \<in> L" for x using that walk \<open>L \<subseteq> F\<close> by (auto simp: walk_at_def)
  have old: "x \<notin> L" if "depth_in m x k" for x k using that new depth_reads by blast
  have zero: "depth_in m' x 0 \<longleftrightarrow> x \<in> S \<and> x \<in> reads m'" for x
  proof (cases "x \<in> L")
    case True
    then have "x \<in> F" "x \<notin> reads m" using new \<open>L \<subseteq> F\<close> by auto
    then have "x \<in> S \<longleftrightarrow> d = 0" using walk by (auto simp: walk_at_def)
    with True show ?thesis by (simp add: depth reads)
  next
    case False
    then show ?thesis using walk by (simp add: depth reads walk_at_def layered_def)
  qed
  have parent: "\<exists>p. depth_in m' p k \<and> attests m' p x" if "depth_in m' x (Suc k)" for x k
  proof (cases "x \<in> L")
    case True
    with that have d: "d = Suc k" by (simp add: depth)
    with walk have "\<forall>y\<in>F. \<exists>p. depth_in m p k \<and> attests m p y" by (simp add: walk_at_def)
    with True \<open>L \<subseteq> F\<close> obtain p where "depth_in m p k" "attests m p x" by blast
    then show ?thesis using old [of p k] by (intro exI [of _ p]) (simp add: depth att)
  next
    case False
    with that have "depth_in m x (Suc k)" by (simp add: depth)
    with walk obtain p where "depth_in m p k" "attests m p x" using layered_parent unfolding walk_at_def by metis
    then show ?thesis using old [of p k] by (intro exI [of _ p]) (simp add: depth att)
  qed
  have edge: "j \<le> Suc k" if x: "depth_in m' x k" and y: "depth_in m' y j" and e: "attests m' x y" for x y j k
  proof (cases "x \<in> L")
    case True
    then have "k = d" using x by (simp add: depth)
    moreover have "j \<le> d" using y walk by (cases "y \<in> L") (auto simp: depth walk_at_def dest: less_imp_le)
    ultimately show ?thesis by simp
  next
    case False
    then have xk: "depth_in m x k" and xy: "attests m x y" using x e by (simp_all add: depth att)
    show ?thesis
    proof (cases "y \<in> L")
      case True
      then have "y \<notin> reads m" "j = d" using new y by (simp_all add: depth)
      moreover have "y \<in> reads m \<or> Suc k = d \<and> y \<in> F" using walk xk xy unfolding walk_at_def by blast
      ultimately show ?thesis by simp
    next
      case False
      then have yj: "depth_in m y j" using y by (simp add: depth)
      have "layered S m" using walk by (simp add: walk_at_def)
      then show ?thesis using xk yj xy by (rule layered_edge)
    qed
  qed
  from zero parent edge show ?thesis by (simp add: layered_def)
qed

text \<open>A level that was read whole moves the walk on.\<close>

lemma walk_next:
  assumes walk: "walk_at S d F m" and filed: "filed d F m m'"
  shows "walk_at S (Suc d) {y. \<exists>x\<in>F. attests m' x y \<and> y \<notin> reads m'} m'"
proof -
  note depth = filed_depth [OF filed] and reads = filed_reads [OF filed] and att = filed_attests [OF filed]
  let ?F = "{y. \<exists>x\<in>F. attests m' x y \<and> y \<notin> reads m'}"
  have "k < Suc d" if "depth_in m' x k" for x k using that walk by (cases "x \<in> F") (auto simp: depth walk_at_def intro: less_SucI)
  moreover have "S \<subseteq> reads m'" using walk by (auto simp: walk_at_def reads)
  moreover have "\<exists>p. depth_in m' p d \<and> attests m' p y" if "y \<in> ?F" for y using that by (auto simp: depth)
  moreover have "y \<in> reads m' \<or> Suc k = Suc d \<and> y \<in> ?F" if "depth_in m' x k" "attests m' x y" for x y k
  proof (cases "x \<in> F")
    case True
    with that show ?thesis by (auto simp: depth)
  next
    case False
    with that have "depth_in m x k" "attests m x y" by (simp_all add: depth att)
    with walk have "y \<in> reads m \<or> y \<in> F" unfolding walk_at_def by blast
    then show ?thesis by (auto simp: reads)
  qed
  moreover have "bt_wf m'" using filed by (simp add: filed_def)
  ultimately show ?thesis using filed_layered [OF walk filed order_refl] by (auto simp: walk_at_def)
qed

section \<open>The batches of a level\<close>

lemma concat_chunks: "concat (chunks n xs) = xs"
  by (induction n xs rule: chunks.induct) auto

lemma filed_refl: "bt_wf m \<Longrightarrow> filed d {} m m"
  by (simp add: filed_def)

lemma filed_trans: "filed d L m m1 \<Longrightarrow> filed d L' m1 m2 \<Longrightarrow> filed d (L \<union> L') m m2"
  unfolding filed_def by (metis Un_iff)

lemma file_outcomes:
  assumes "list_all2 (\<lambda>q f. fo_ledger f = fst q \<and> good (fst q) f) reqs outs" and "bt_wf m"
  shows "filed d (fst ` set reqs) m (foldl (file_outcome d) m outs)
    \<and> length (foldl (file_outcome d) m outs) \<le> length m + length reqs
    \<and> ((\<forall>x k f. bt_get m x = Some (k, f) \<longrightarrow> good x f) \<longrightarrow>
      (\<forall>x k f. bt_get (foldl (file_outcome d) m outs) x = Some (k, f) \<longrightarrow> good x f))"
  using assms
proof (induction reqs outs arbitrary: m rule: list_all2_induct)
  case (Cons q reqs f outs)
  let ?m = "file_outcome d m f"
  have wf: "bt_wf ?m" using Cons.prems by (simp add: file_outcome_def bt_wf_insert)
  have one: "filed d {fst q} m ?m" using Cons.hyps wf by (auto simp: filed_def file_outcome_def bt_get_insert)
  have len: "length ?m \<le> Suc (length m)" by (simp add: file_outcome_def bt_insert_length_le)
  have ok: "(\<forall>x k f. bt_get m x = Some (k, f) \<longrightarrow> good x f) \<Longrightarrow> (\<forall>x k f. bt_get ?m x = Some (k, f) \<longrightarrow> good x f)"
    using Cons.hyps by (auto simp: file_outcome_def bt_get_insert)
  note IH = Cons.IH [OF wf]
  have "filed d (fst ` set (q # reqs)) m (foldl (file_outcome d) m (f # outs))"
    using filed_trans [OF one conjunct1 [OF IH]] by simp
  moreover have "length (foldl (file_outcome d) m (f # outs)) \<le> length m + length (q # reqs)" using IH len by simp
  moreover have "\<forall>x k g. bt_get (foldl (file_outcome d) m (f # outs)) x = Some (k, g) \<longrightarrow> good x g"
    if "\<forall>x k f. bt_get m x = Some (k, f) \<longrightarrow> good x f"
    using mp [OF conjunct2 [OF conjunct2 [OF IH]] ok [OF that]] by (simp only: foldl_Cons)
  ultimately show ?case by (intro conjI impI)
qed (simp add: filed_refl)

text \<open>
  What the walk relies on: as long as the shared state keeps its invariant, the fetcher answers
  every request with an outcome for the ledger that was asked for.
\<close>

locale ledger_fetcher =
  fixes fetch :: "'r fetcher" and inv :: "'r \<Rightarrow> bool" and good :: "identity_id \<Rightarrow> fetch_outcome \<Rightarrow> bool"
  assumes fetch_answers: "inv r \<Longrightarrow> fetch reqs r = (Ok outs, r') \<Longrightarrow>
    inv r' \<and> list_all2 (\<lambda>q f. fo_ledger f = fst q \<and> good (fst q) f) reqs outs"
begin

definition all_good :: "outcomes \<Rightarrow> bool" where
  "all_good m \<longleftrightarrow> (\<forall>x k f. bt_get m x = Some (k, f) \<longrightarrow> good x f)"

lemma batches_file:
  assumes "crawl_batches fetch expired d batches cs r = (Ok (over, cs'), r')"
    and "inv r" and "bt_wf (cs_outcomes cs)" and "all_good (cs_outcomes cs)"
  shows "inv r' \<and> all_good (cs_outcomes cs') \<and> cs_cut cs' = cs_cut cs
    \<and> cs_fetches cs' \<le> cs_fetches cs + length (concat batches)
    \<and> length (cs_outcomes cs') \<le> length (cs_outcomes cs) + length (concat batches)
    \<and> (if over then cs_stop cs' \<noteq> None else cs_stop cs' = cs_stop cs)
    \<and> (\<exists>L\<subseteq>set (concat batches). filed d L (cs_outcomes cs) (cs_outcomes cs') \<and> (\<not> over \<longrightarrow> L = set (concat batches)))"
  using assms
proof (induction batches arbitrary: cs r)
  case Nil
  then show ?case by (auto simp: filed_refl)
next
  case (Cons batch batches)
  show ?case
  proof (cases "expired r")
    case True
    then have over: "over" "cs' = stop_for ByTime cs" "r' = r" using Cons.prems(1) by auto
    then show ?thesis using Cons.prems filed_refl [of "cs_outcomes cs" d]
      by (auto simp: stop_for_def split: option.splits intro!: exI [of _ "{}"])
  next
    case False
    let ?reqs = "map (\<lambda>l. (l, learned_for cs l)) batch"
    obtain outs r1 where f: "fetch ?reqs r = (Ok outs, r1)"
      and rest: "crawl_batches fetch expired d batches (cs\<lparr>cs_fetches := cs_fetches cs + length batch,
              cs_outcomes := foldl (file_outcome d) (cs_outcomes cs) outs\<rparr>) r1 = (Ok (over, cs'), r')"
      using Cons.prems(1) False by (cases "fetch ?reqs r") (auto simp: then_do_Ok)
    note ans = fetch_answers [OF Cons.prems(2) f]
    note files = file_outcomes [OF conjunct2 [OF ans] Cons.prems(3), of d]
    note one = conjunct1 [OF files] conjunct1 [OF conjunct2 [OF files]] conjunct2 [OF conjunct2 [OF files]]
    have wf: "bt_wf (foldl (file_outcome d) (cs_outcomes cs) outs)" using one(1) by (simp add: filed_def)
    have ok: "all_good (foldl (file_outcome d) (cs_outcomes cs) outs)"
      using one(3) Cons.prems(4) unfolding all_good_def by blast
    from Cons.IH [OF rest] ans wf ok
    have IH: "inv r' \<and> all_good (cs_outcomes cs') \<and> cs_cut cs' = cs_cut cs
        \<and> cs_fetches cs' \<le> cs_fetches cs + length batch + length (concat batches)
        \<and> length (cs_outcomes cs') \<le> length (foldl (file_outcome d) (cs_outcomes cs) outs) + length (concat batches)
        \<and> (if over then cs_stop cs' \<noteq> None else cs_stop cs' = cs_stop cs)"
      and ex: "\<exists>L\<subseteq>set (concat batches). filed d L (foldl (file_outcome d) (cs_outcomes cs) outs) (cs_outcomes cs')
        \<and> (\<not> over \<longrightarrow> L = set (concat batches))" by auto
    from ex obtain L where L: "L \<subseteq> set (concat batches)" "\<not> over \<longrightarrow> L = set (concat batches)"
      and m: "filed d L (foldl (file_outcome d) (cs_outcomes cs) outs) (cs_outcomes cs')" by blast
    have "filed d (set batch \<union> L) (cs_outcomes cs) (cs_outcomes cs')"
      using filed_trans [OF one(1) m] by (simp add: image_image)
    with IH one(2) L show ?thesis by (intro conjI exI [of _ "set batch \<union> L"]) auto
  qed
qed

end

section \<open>The next level\<close>

lemma note_edge_frame:
  "cs_outcomes (snd (note_edge E d c l src acc t)) = cs_outcomes (snd acc)"
  "cs_stop (snd (note_edge E d c l src acc t)) = cs_stop (snd acc)"
  "cs_fetches (snd (note_edge E d c l src acc t)) = cs_fetches (snd acc)"
  by (auto simp: note_edge_def Let_def split: option.splits)

definition next_keys :: "(identity_id, unit) btree_map \<Rightarrow> identity_id set" where
  "next_keys m = fst ` set m"

lemma note_edge_next:
  "next_keys (fst (note_edge E d c l src acc t)) = next_keys (fst acc)
     \<union> {y. y = tr_subject t \<and> y \<notin> reads (cs_outcomes (snd acc)) \<and> d < c}"
  "cs_cut (snd (note_edge E d c l src acc t)) \<longleftrightarrow> cs_cut (snd acc) \<or> tr_subject t \<notin> reads (cs_outcomes (snd acc)) \<and> c \<le> d"
  by (auto simp: note_edge_def Let_def next_keys_def reads_def set_bt_insert split: option.splits)

lemma note_edges:
  "cs_outcomes (snd (foldl (note_edge E d c l src) acc ts)) = cs_outcomes (snd acc)
   \<and> cs_stop (snd (foldl (note_edge E d c l src) acc ts)) = cs_stop (snd acc)
   \<and> cs_fetches (snd (foldl (note_edge E d c l src) acc ts)) = cs_fetches (snd acc)
   \<and> next_keys (fst (foldl (note_edge E d c l src) acc ts)) = next_keys (fst acc)
     \<union> {y. y \<in> tr_subject ` set ts \<and> y \<notin> reads (cs_outcomes (snd acc)) \<and> d < c}
   \<and> (cs_cut (snd (foldl (note_edge E d c l src) acc ts)) \<longleftrightarrow> cs_cut (snd acc)
       \<or> (\<exists>y\<in>tr_subject ` set ts. y \<notin> reads (cs_outcomes (snd acc)) \<and> c \<le> d))"
proof (induction ts arbitrary: acc)
  case (Cons t ts)
  show ?case using Cons [of "note_edge E d c l src acc t"] by (auto simp: note_edge_frame note_edge_next)
qed simp

lemma note_level:
  "cs_outcomes (snd (foldl (note_ledger_edges E d c) acc ls)) = cs_outcomes (snd acc)
   \<and> cs_stop (snd (foldl (note_ledger_edges E d c) acc ls)) = cs_stop (snd acc)
   \<and> cs_fetches (snd (foldl (note_ledger_edges E d c) acc ls)) = cs_fetches (snd acc)
   \<and> next_keys (fst (foldl (note_ledger_edges E d c) acc ls)) = next_keys (fst acc)
     \<union> {y. (\<exists>x\<in>set ls. attests (cs_outcomes (snd acc)) x y) \<and> y \<notin> reads (cs_outcomes (snd acc)) \<and> d < c}
   \<and> (cs_cut (snd (foldl (note_ledger_edges E d c) acc ls)) \<longleftrightarrow> cs_cut (snd acc)
       \<or> (\<exists>x\<in>set ls. \<exists>y. attests (cs_outcomes (snd acc)) x y \<and> y \<notin> reads (cs_outcomes (snd acc)) \<and> c \<le> d))"
proof (induction ls arbitrary: acc)
  case (Cons l ls)
  let ?acc = "note_ledger_edges E d c acc l"
  have one: "cs_outcomes (snd ?acc) = cs_outcomes (snd acc) \<and> cs_stop (snd ?acc) = cs_stop (snd acc)
     \<and> cs_fetches (snd ?acc) = cs_fetches (snd acc)
     \<and> next_keys (fst ?acc) = next_keys (fst acc)
       \<union> {y. attests (cs_outcomes (snd acc)) l y \<and> y \<notin> reads (cs_outcomes (snd acc)) \<and> d < c}
     \<and> (cs_cut (snd ?acc) \<longleftrightarrow> cs_cut (snd acc) \<or> (\<exists>y. attests (cs_outcomes (snd acc)) l y \<and> y \<notin> reads (cs_outcomes (snd acc)) \<and> c \<le> d))"
  proof (cases "bt_get (cs_outcomes (snd acc)) l")
    case None
    then show ?thesis by (simp add: note_ledger_edges_def attests_def)
  next
    case (Some p)
    obtain k f where p: "p = (k, f)" by (cases p)
    show ?thesis
    proof (cases "fo_summary f")
      case None
      with Some p show ?thesis by (simp add: note_ledger_edges_def attests_def Let_def)
    next
      case (Some y)
      with \<open>bt_get (cs_outcomes (snd acc)) l = Some p\<close> p show ?thesis
        using note_edges [of E d c l "Option.bind (Option.bind (fo_source f) source_endpoint) (parse_endpoint_id E)" acc "cy_trust y"]
        by (auto simp: note_ledger_edges_def attests_def Let_def)
    qed
  qed
  with Cons [of ?acc] show ?case by auto
qed simp

section \<open>The walk\<close>

definition under_caps :: "crawl_options \<Rightarrow> crawl_state \<Rightarrow> bool" where
  "under_caps opts cs \<longleftrightarrow> length (cs_outcomes cs) \<le> co_max_nodes opts \<and> cs_fetches cs \<le> co_max_fetches opts"

lemma capped_level:
  assumes "cap_fetches opts (cap_nodes opts (F, cs)) = (level, cs1)" and "under_caps opts cs"
  shows "set level \<subseteq> set F \<and> cs_outcomes cs1 = cs_outcomes cs \<and> cs_cut cs1 = cs_cut cs \<and> cs_fetches cs1 = cs_fetches cs
    \<and> length (cs_outcomes cs) + length level \<le> co_max_nodes opts \<and> cs_fetches cs + length level \<le> co_max_fetches opts
    \<and> (cs_stop cs1 = None \<longrightarrow> level = F)"
  using assms
  by (auto simp: cap_fetches_def cap_nodes_def stop_for_def under_caps_def split: if_splits option.splits dest: in_set_takeD)

text \<open>What a walk leaves, whichever way it ended.\<close>

definition walked :: "identity_id set \<Rightarrow> crawl_options \<Rightarrow> crawl_state \<Rightarrow> bool" where
  "walked S opts cs \<longleftrightarrow> (let m = cs_outcomes cs in bt_wf m \<and> layered S m \<and> (\<forall>x k. depth_in m x k \<longrightarrow> k \<le> bounded_depth opts)
     \<and> under_caps opts cs
     \<and> (cs_stop cs = None \<and> \<not> cs_cut cs \<longrightarrow> S \<subseteq> reads m \<and> (\<forall>x y. attests m x y \<longrightarrow> y \<in> reads m)))"

lemma walked_at:
  assumes "walk_at S d F (cs_outcomes cs)" and "under_caps opts cs" and "d \<le> Suc (bounded_depth opts)" and "cs_cut cs \<or> F = {}"
  shows "walked S opts cs"
proof -
  have "y \<in> reads (cs_outcomes cs)" if "F = {}" "attests (cs_outcomes cs) x y" for x y
  proof -
    from that(2) obtain k where "depth_in (cs_outcomes cs) x k" using attests_reads reads_depth by blast
    with that assms(1) show ?thesis unfolding walk_at_def by blast
  qed
  with assms show ?thesis unfolding walked_def walk_at_def Let_def by (metis Un_empty_right less_le_trans less_Suc_eq_le)
qed

lemma walked_filed:
  assumes "walk_at S d F m" and "filed d L m (cs_outcomes cs)" and "L \<subseteq> F" and "d \<le> bounded_depth opts"
    and "under_caps opts cs" and "cs_stop cs \<noteq> None"
  shows "walked S opts cs"
proof -
  have "k \<le> bounded_depth opts" if "depth_in (cs_outcomes cs) x k" for x k
  proof (cases "x \<in> L")
    case False
    then have "depth_in m x k" using that filed_depth [OF assms(2)] by simp
    then have "k < d" using assms(1) unfolding walk_at_def by blast
    with assms(4) show ?thesis by simp
  qed (use that assms(4) filed_depth [OF assms(2)] in simp)
  moreover have "bt_wf (cs_outcomes cs)" using assms(2) by (simp add: filed_def)
  ultimately show ?thesis using assms(5,6) filed_layered [OF assms(1-3)] unfolding walked_def Let_def by blast
qed

context ledger_fetcher
begin

lemma levels_walk:
  assumes "crawl_levels E fetch expired opts levels d frontier cs r = (Ok cs', r')"
    and "walk_at S d (set frontier) (cs_outcomes cs)" and "under_caps opts cs" and "d + levels = Suc (bounded_depth opts)"
    and "levels = 0 \<longrightarrow> cs_cut cs \<or> frontier = []" and "cs_stop cs = None" and "inv r" and "all_good (cs_outcomes cs)"
  shows "walked S opts cs' \<and> inv r' \<and> all_good (cs_outcomes cs')"
  using assms
proof (induction levels arbitrary: d frontier cs r)
  case 0
  then show ?case using walked_at [of S d "set frontier" cs opts] by auto
next
  case (Suc levels)
  show ?case
  proof (cases "frontier = []")
    case True
    then have "walked S opts cs" using walked_at [of S d "set frontier" cs opts] Suc.prems by simp
    with True Suc.prems show ?thesis by simp
  next
    case False
    obtain level cs1 where c: "cap_fetches opts (cap_nodes opts (frontier, cs)) = (level, cs1)" by fastforce
    note caps = capped_level [OF c Suc.prems(3)]
    let ?batches = "chunks (max 1 (co_in_flight opts)) level"
    obtain over cs2 r1 where b: "crawl_batches fetch expired d ?batches cs1 r = (Ok (over, cs2), r1)"
      using Suc.prems(1) False c by (cases "crawl_batches fetch expired d ?batches cs1 r") (auto simp: then_do_Ok)
    have wf: "bt_wf (cs_outcomes cs1)" "all_good (cs_outcomes cs1)" using Suc.prems caps by (simp_all add: walk_at_def)
    note run = batches_file [OF b Suc.prems(7) wf, unfolded concat_chunks]
    obtain L where L: "L \<subseteq> set level" "filed d L (cs_outcomes cs) (cs_outcomes cs2)" "\<not> over \<longrightarrow> L = set level"
      using run caps by auto
    have under: "under_caps opts cs2" using run caps by (auto simp: under_caps_def)
    have d: "d \<le> bounded_depth opts" using Suc.prems(4) by simp
    have sub: "L \<subseteq> set frontier" using L caps by auto
    obtain nxt cs3 where n: "foldl (note_ledger_edges E d (bounded_depth opts)) ([], cs2) level = (nxt, cs3)" by fastforce
    note level = note_level [of E d "bounded_depth opts" "([], cs2)" level, unfolded n fst_conv snd_conv]
    have eq: "crawl_levels E fetch expired opts (Suc levels) d frontier cs r =
        (if over then (Ok cs2, r1) else if cs_stop cs1 \<noteq> None then (Ok cs3, r1)
         else crawl_levels E fetch expired opts levels (d + 1) (map fst nxt) cs3 r1)"
      using False c b n by simp
    show ?thesis
    proof (cases "over \<or> cs_stop cs1 \<noteq> None")
      case True
      define out where "out = (if over then cs2 else cs3)"
      have out: "cs' = out" "r' = r1" using Suc.prems(1) eq True by (auto simp: out_def split: if_splits)
      have same: "cs_outcomes out = cs_outcomes cs2" "under_caps opts out" "cs_stop out \<noteq> None"
        using level under run True by (auto simp: out_def under_caps_def)
      have "walked S opts out"
        by (rule walked_filed [OF Suc.prems(2) _ sub d]) (use L same in simp_all)
      with out same run show ?thesis by simp
    next
      case run_on: False
      then have full: "level = frontier" "L = set frontier" using caps L by auto
      have m3: "cs_outcomes cs3 = cs_outcomes cs2" "under_caps opts cs3" "cs_stop cs3 = None"
        using level under run run_on by (auto simp: under_caps_def)
      let ?F = "{y. \<exists>x\<in>set frontier. attests (cs_outcomes cs3) x y \<and> y \<notin> reads (cs_outcomes cs3)}"
      have walk: "walk_at S (Suc d) ?F (cs_outcomes cs3)"
        using walk_next [OF Suc.prems(2)] L(2) full m3(1) by simp
      have keys: "set (map fst nxt) = (if d < bounded_depth opts then ?F else {})"
        using level full m3(1) by (auto simp: next_keys_def)
      have cut: "cs_cut cs3 \<or> ?F = {}" if "\<not> d < bounded_depth opts" using level full that m3(1) by auto
      have rest: "crawl_levels E fetch expired opts levels (Suc d) (map fst nxt) cs3 r1 = (Ok cs', r')"
        using Suc.prems(1) eq run_on by simp
      have good: "inv r1" "all_good (cs_outcomes cs3)" using run m3(1) by auto
      show ?thesis
      proof (cases "d < bounded_depth opts")
        case True
        then show ?thesis
          using Suc.IH [OF rest] walk keys m3 good Suc.prems(4) by simp
      next
        case last: False
        then have "levels = 0" using Suc.prems(4) by simp
        then have "cs' = cs3" "r' = r1" using rest by auto
        moreover have "walked S opts cs3" by (rule walked_at [OF walk m3(2)]) (use d cut last in auto)
        ultimately show ?thesis using good by simp
      qed
    qed
  qed
qed

end

end
