(* ===== verification/Crawl_Nodes.thy ===== *)
theory Crawl_Nodes
  imports Crawl_Facts
begin

text \<open>
  The generation a crawl builds from its outcomes. Its nodes are the ledgers that were read,
  its edges the attestations between them, so the depth of a node is its distance from the
  roots in the generation itself, and the roots of a node are the roots that reach it with their
  distances. The nodes of a crawl are an instance of \<open>generation_graph\<close>, and the fetches of a node
  one of \<open>ledger_fetcher\<close>.
\<close>

section \<open>Distances under a renaming\<close>

lemma relpow_inj:
  assumes "inj h"
  shows "(h s, h x) \<in> (map_prod h h ` R) ^^ k \<longleftrightarrow> (s, x) \<in> R ^^ k"
proof (induction k arbitrary: x)
  case (Suc k)
  have edge: "(y, h x) \<in> map_prod h h ` R \<longleftrightarrow> (\<exists>z. y = h z \<and> (z, x) \<in> R)" for y
    using assms by (force simp: inj_eq)
  have "(h s, h x) \<in> (map_prod h h ` R) ^^ Suc k \<longleftrightarrow> (\<exists>y. (h s, y) \<in> (map_prod h h ` R) ^^ k \<and> (y, h x) \<in> map_prod h h ` R)"
    by (simp only: relpow.simps relcomp_unfold mem_Collect_eq split)
  also have "\<dots> \<longleftrightarrow> (\<exists>z. (h s, h z) \<in> (map_prod h h ` R) ^^ k \<and> (z, x) \<in> R)"
    unfolding edge by blast
  also have "\<dots> \<longleftrightarrow> (s, x) \<in> R ^^ Suc k" unfolding Suc by auto
  finally show ?case .
qed (use assms in \<open>simp add: inj_eq\<close>)

lemma distance_inj: "inj h \<Longrightarrow> distance (map_prod h h ` R) (h ` S) (h x) k \<longleftrightarrow> distance R S x k"
  by (simp add: distance_def relpow_inj)

section \<open>The nodes\<close>

lemma node_of_id [simp]: "gn_identity_id (node_of E prov l d f) = ids_identity E l" "gn_depth (node_of E prov l d f) = d"
  "gn_roots (node_of E prov l d f) = []"
  by (simp_all add: node_of_def Let_def)

lemma plain_nodes_snoc: "plain_nodes E (m @ [(l, d, f)]) prov = bt_insert (ids_identity E l) (node_of E prov l d f) (plain_nodes E m prov)"
  by (simp add: plain_nodes_def)

lemma plain_nodes_ok: "gen_ok (plain_nodes E m prov)"
proof (induction m rule: rev_induct)
  case (snoc e m)
  then show ?case by (cases e) (simp add: plain_nodes_snoc gen_ok_insert)
qed (simp add: plain_nodes_def gen_ok_def bt_wf_def bt_get_def)

lemma plain_nodes_origin:
  "bt_get (plain_nodes E m prov) i = Some n \<Longrightarrow> \<exists>l d f. (l, d, f) \<in> set m \<and> i = ids_identity E l \<and> n = node_of E prov l d f"
proof (induction m rule: rev_induct)
  case (snoc e m)
  then show ?case by (cases e) (fastforce simp: plain_nodes_snoc bt_get_insert split: if_splits)
qed (simp add: plain_nodes_def bt_get_def)

lemma plain_nodes_length: "length (plain_nodes E m prov) \<le> length m"
proof (induction m rule: rev_induct)
  case (snoc e m)
  obtain l d f where "e = (l, d, f)" by (cases e)
  with snoc bt_insert_length_le [of "ids_identity E l" "node_of E prov l d f" "plain_nodes E m prov"]
  show ?case by (simp add: plain_nodes_snoc)
qed (simp add: plain_nodes_def)

text \<open>Filling in the roots changes no other field.\<close>

lemma set_roots_get:
  "bt_get (set_roots nodes e) i = map_option (\<lambda>n. if i = fst e then n\<lparr>gn_roots := sort_key rd_root (snd e)\<rparr> else n) (bt_get nodes i)"
  by (cases "bt_get nodes (fst e)"; cases "bt_get nodes i") (auto simp: set_roots_def bt_get_insert)

lemma all_roots_get:
  assumes "bt_wf reach"
  shows "bt_get (foldl set_roots nodes reach) i = map_option (\<lambda>n. case bt_get reach i of
    None \<Rightarrow> n | Some rs \<Rightarrow> n\<lparr>gn_roots := sort_key rd_root rs\<rparr>) (bt_get nodes i)"
  using assms
proof (induction reach arbitrary: nodes)
  case Nil
  then show ?case by (simp add: bt_get_def option.map_ident)
next
  case (Cons e reach)
  obtain j rs where e: "e = (j, rs)" by (cases e)
  have tail: "bt_wf reach" using Cons.prems by (simp add: bt_wf_def)
  have "bt_get reach j = None" using Cons.prems by (auto simp: e bt_wf_def bt_get_def map_of_eq_None_iff)
  moreover have "bt_get (e # reach) i = (if i = j then Some rs else bt_get reach i)" by (simp add: e bt_get_def)
  ultimately show ?case using Cons.IH [OF tail, of "set_roots nodes e"]
    by (cases "bt_get nodes i") (simp_all add: e set_roots_get)
qed

lemma set_roots_ok: "gen_ok nodes \<Longrightarrow> gen_ok (set_roots nodes e) \<and> fst ` set (set_roots nodes e) = fst ` set nodes"
proof -
  assume ok: "gen_ok nodes"
  show ?thesis
  proof (cases "bt_get nodes (fst e)")
    case (Some n)
    have "(fst e, n) \<in> set nodes" using Some bt_get_mem ok unfolding gen_ok_def by metis
    then have "fst e \<in> fst ` set nodes" by force
    moreover have "gn_identity_id n = fst e" using gen_ok_id [OF ok Some] .
    moreover note Some
    ultimately show ?thesis using ok by (simp add: set_roots_def gen_ok_insert set_bt_insert insert_absorb)
  qed (simp add: set_roots_def ok)
qed

lemma all_roots_ok: "gen_ok nodes \<Longrightarrow> gen_ok (foldl set_roots nodes reach) \<and> fst ` set (foldl set_roots nodes reach) = fst ` set nodes"
  by (induction reach arbitrary: nodes) (simp_all add: set_roots_ok)

lemma build_nodes_ok: "gen_ok (build_nodes E m prov roots)"
  by (simp add: build_nodes_def fill_roots_def all_roots_ok plain_nodes_ok)

interpretation crawled: generation_graph "build_nodes E m prov roots"
  by unfold_locales (rule build_nodes_ok)

interpretation planned: generation_graph "plain_nodes E m prov"
  by unfold_locales (rule plain_nodes_ok)

lemma build_nodes_length: "length (build_nodes E m prov roots) \<le> length m"
proof -
  have "bt_wf (build_nodes E m prov roots)" "bt_wf (plain_nodes E m prov)"
    using build_nodes_ok plain_nodes_ok unfolding gen_ok_def by blast+
  moreover have "fst ` set (build_nodes E m prov roots) = fst ` set (plain_nodes E m prov)"
    unfolding build_nodes_def fill_roots_def by (rule conjunct2 [OF all_roots_ok [OF plain_nodes_ok]])
  ultimately have "length (build_nodes E m prov roots) = length (plain_nodes E m prov)" by (simp add: bt_wf_length)
  then show ?thesis using plain_nodes_length [of E m prov] by simp
qed


section \<open>The edges\<close>

definition roots_at :: "(document_id, root_depth list) btree_map \<Rightarrow> document_id \<Rightarrow> root_depth list" where
  "roots_at reach i = (case bt_get reach i of None \<Rightarrow> [] | Some rs \<Rightarrow> rs)"

lemma build_nodes_get:
  "bt_get (build_nodes E m prov roots) i = map_option
     (\<lambda>n. n\<lparr>gn_roots := sort_key rd_root (roots_at (reach_of E (plain_nodes E m prov) roots) i)\<rparr>) (bt_get (plain_nodes E m prov) i)"
proof -
  have push: "bt_wf reach \<Longrightarrow> bt_wf (foldl (push_root root) reach es)" for reach root es
    by (induction es arbitrary: reach) (simp_all add: push_root_def bt_wf_insert)
  have "bt_wf reach \<Longrightarrow> bt_wf (foldl (\<lambda>reach root. if bt_get nodes (ids_identity E root) = None then reach
       else foldl (push_root (ids_identity E root)) reach (distances nodes (ids_identity E root))) reach roots)" for nodes reach
    by (induction roots arbitrary: reach) (simp_all add: push)
  then have wf: "bt_wf (reach_of E (plain_nodes E m prov) roots)" by (simp add: reach_of_def)
  have empty: "n\<lparr>gn_roots := []\<rparr> = n" if "bt_get (plain_nodes E m prov) i = Some n" for n
    using plain_nodes_origin [OF that] by auto
  show ?thesis
    by (cases "bt_get (plain_nodes E m prov) i"; cases "bt_get (reach_of E (plain_nodes E m prov) roots) i")
       (simp_all add: build_nodes_def fill_roots_def all_roots_get [OF wf] empty roots_at_def)
qed

lemma build_nodes_edges: "trust_edges (build_nodes E m prov roots) = trust_edges (plain_nodes E m prov)"
proof -
  have "map_option gn_edges (bt_get (build_nodes E m prov roots) i) = map_option gn_edges (bt_get (plain_nodes E m prov) i)" for i
    by (simp add: build_nodes_get option.map_comp comp_def)
  then have "trust_edges (build_nodes E m prov roots) = {(x, y). \<exists>es. map_option gn_edges (bt_get (plain_nodes E m prov) x) = Some es
      \<and> y \<in> ge_subject ` set es \<and> map_option gn_edges (bt_get (plain_nodes E m prov) y) \<noteq> None}"
    by (smt (verit) Collect_cong case_prod_conv map_option_eq_Some option.map_disc_iff split_cong trust_edges_def)
  also have "\<dots> = trust_edges (plain_nodes E m prov)" by (auto simp: trust_edges_def)
  finally show ?thesis .
qed

text \<open>Every node comes from an outcome, and its edges from the attestations of the summary.\<close>

lemma built_origin:
  assumes "bt_wf m" and "bt_get (build_nodes E m prov roots) i = Some n"
  shows "\<exists>l d f. bt_get m l = Some (d, f) \<and> i = ids_identity E l \<and> gn_edges n = gn_edges (node_of E prov l d f)"
proof -
  obtain n' where n': "bt_get (plain_nodes E m prov) i = Some n'" and n: "gn_edges n = gn_edges n'"
    using assms(2) by (auto simp: build_nodes_get)
  from plain_nodes_origin [OF n'] n bt_get_mem [OF assms(1)] show ?thesis by metis
qed

lemma node_edge:
  "e \<in> set (gn_edges (node_of E prov l d f)) \<Longrightarrow> \<exists>y t. fo_summary f = Some y \<and> t \<in> set (cy_trust y)
    \<and> e = \<lparr>ge_subject = ids_identity E (tr_subject t), ge_attestation_event = ids_event E (tr_attestation_event t), ge_seq = tr_seq t\<rparr>"
  by (cases "fo_summary f") (auto simp: node_of_def Let_def)

section \<open>The roots of a node\<close>

lemma push_root_at:
  "roots_at (push_root root reach e) i = roots_at reach i @ (if i = fst e then [\<lparr>rd_root = root, rd_depth = snd e\<rparr>] else [])"
  by (auto simp: push_root_def roots_at_def bt_get_insert)

lemma push_roots_at:
  "set (roots_at (foldl (push_root root) reach es) i) = set (roots_at reach i) \<union> {\<lparr>rd_root = root, rd_depth = k\<rparr> | k. (i, k) \<in> set es}"
proof (induction es arbitrary: reach)
  case (Cons e es)
  then show ?case by (cases e) (auto simp: push_root_at)
qed simp

lemma reach_of_at:
  "set (roots_at (reach_of E nodes roots) i) = {\<lparr>rd_root = r, rd_depth = k\<rparr> | r k. r \<in> ids_identity E ` set roots
     \<and> bt_get nodes r \<noteq> None \<and> bt_get (distances nodes r) i = Some k}"
proof -
  have mem: "(i, k) \<in> set (distances nodes r) \<longleftrightarrow> bt_get (distances nodes r) i = Some k" for r k
    unfolding distances_def using bt_get_mem [OF bfs_wf] by metis
  have "set (roots_at (foldl (\<lambda>reach root. if bt_get nodes (ids_identity E root) = None then reach
       else foldl (push_root (ids_identity E root)) reach (distances nodes (ids_identity E root))) reach roots) i)
     = set (roots_at reach i) \<union> {\<lparr>rd_root = r, rd_depth = k\<rparr> | r k. r \<in> ids_identity E ` set roots
     \<and> bt_get nodes r \<noteq> None \<and> bt_get (distances nodes r) i = Some k}" for reach
    by (induction roots arbitrary: reach) (auto simp: push_roots_at mem)
  then show ?thesis by (simp add: reach_of_def roots_at_def)
qed

lemma node_roots:
  assumes "bt_get (build_nodes E m prov roots) i = Some n"
  shows "sorted (map rd_root (gn_roots n)) \<and> set (gn_roots n) = {\<lparr>rd_root = r, rd_depth = k\<rparr> | r k. r \<in> ids_identity E ` set roots
     \<and> bt_get (build_nodes E m prov roots) r \<noteq> None \<and> distance (trust_edges (build_nodes E m prov roots)) {r} i k}"
proof -
  have "bt_get (distances (plain_nodes E m prov) r) i = Some k \<longleftrightarrow> distance (trust_edges (build_nodes E m prov roots)) {r} i k" for r k
    by (simp add: distances_def planned.search_forward build_nodes_edges)
  then show ?thesis using assms by (auto simp: build_nodes_get reach_of_at)
qed

section \<open>Depths and names\<close>

context base32_codec
begin

lemma ids_inj: "inj (ids_identity E)"
  using ids_bytes_inj by (auto simp: inj_def ids_identity_def)

lemma plain_nodes_get:
  assumes "bt_wf m"
  shows "bt_get (plain_nodes E m prov) (ids_identity E x) = map_option (\<lambda>(d, f). node_of E prov x d f) (bt_get m x)"
proof -
  have "distinct (map fst m) \<Longrightarrow> ?thesis"
  proof (induction m rule: rev_induct)
    case (snoc e m)
    obtain l d f where e: "e = (l, d, f)" by (cases e)
    have "bt_get m l = None" using snoc.prems by (auto simp: e bt_get_def map_of_eq_None_iff)
    moreover have "bt_get (m @ [e]) x = (case bt_get m x of None \<Rightarrow> if x = l then Some (d, f) else None | Some v \<Rightarrow> Some v)"
      by (auto simp: e bt_get_def map_add_def split: option.splits)
    ultimately show ?case using snoc by (auto simp: e plain_nodes_snoc bt_get_insert inj_eq [OF ids_inj] split: option.splits)
  qed (simp add: plain_nodes_def)
  then show ?thesis using bt_wf_distinct [OF assms] by blast
qed

lemma plain_nodes_edges:
  assumes "bt_wf m"
  shows "trust_edges (plain_nodes E m prov) = map_prod (ids_identity E) (ids_identity E) ` read_edges m"
proof -
  note get = plain_nodes_get [OF assms, of prov]
  have subjects: "ge_subject ` set (gn_edges (node_of E prov x d f)) =
      (case fo_summary f of None \<Rightarrow> {} | Some y \<Rightarrow> ids_identity E ` tr_subject ` set (cy_trust y))" for x d f
    by (auto simp: node_of_def Let_def image_image split: option.splits)
  have "(a, b) \<in> trust_edges (plain_nodes E m prov) \<longleftrightarrow> (\<exists>x y. a = ids_identity E x \<and> b = ids_identity E y \<and> (x, y) \<in> read_edges m)" for a b
  proof
    assume "(a, b) \<in> trust_edges (plain_nodes E m prov)"
    then obtain n n' where n: "bt_get (plain_nodes E m prov) a = Some n" "b \<in> ge_subject ` set (gn_edges n)"
      and n': "bt_get (plain_nodes E m prov) b = Some n'" by (auto simp: trust_edges_def)
    obtain x y where ab: "a = ids_identity E x" "b = ids_identity E y"
      using plain_nodes_origin n(1) n' by metis
    from n(1) get obtain d f where x: "bt_get m x = Some (d, f)" "n = node_of E prov x d f" by (auto simp: ab)
    from n' get have "y \<in> reads m" by (auto simp: ab reads_def)
    moreover have "attests m x y" using n(2) x by (auto simp: subjects ab attests_def inj_eq [OF ids_inj] split: option.splits)
    ultimately show "\<exists>x y. a = ids_identity E x \<and> b = ids_identity E y \<and> (x, y) \<in> read_edges m"
      using ab by (auto simp: read_edges_def)
  next
    assume "\<exists>x y. a = ids_identity E x \<and> b = ids_identity E y \<and> (x, y) \<in> read_edges m"
    then obtain x y where ab: "a = ids_identity E x" "b = ids_identity E y" and "attests m x y" "y \<in> reads m"
      by (auto simp: read_edges_def)
    then show "(a, b) \<in> trust_edges (plain_nodes E m prov)"
      by (auto simp: trust_edges_def get subjects attests_def reads_def)
  qed
  then show ?thesis by force
qed

lemma depth_is_distance:
  assumes "layered S m" and "bt_wf m" and "bt_get (build_nodes E m prov roots) i = Some n"
  shows "distance (trust_edges (build_nodes E m prov roots)) (ids_identity E ` S) i (gn_depth n)
    \<and> (\<exists>x f. bt_get m x = Some (gn_depth n, f) \<and> i = ids_identity E x)"
proof -
  obtain n' where n': "bt_get (plain_nodes E m prov) i = Some n'" "gn_depth n = gn_depth n'"
    using assms(3) by (auto simp: build_nodes_get)
  obtain x where i: "i = ids_identity E x" using plain_nodes_origin [OF n'(1)] by blast
  obtain f where get: "bt_get m x = Some (gn_depth n, f)"
    using n' plain_nodes_get [OF assms(2), of prov x] by (auto simp: i)
  then have "depth_in m x (gn_depth n)" by (simp add: depth_in_def)
  from layered_distance [OF assms(1) this] get i show ?thesis
    by (auto simp: build_nodes_edges plain_nodes_edges [OF assms(2)] distance_inj [OF ids_inj])
qed

end


section \<open>The crawl\<close>

lemma root_set: "set (root_set roots) = set roots"
proof -
  have "fst ` set (foldl (\<lambda>m l. bt_insert l () m) m roots) = fst ` set m \<union> set roots" for m :: "(identity_id, unit) btree_map"
    by (induction roots arbitrary: m) (auto simp: set_bt_insert)
  from this [of "[]"] show ?thesis by (simp add: root_set_def)
qed

lemma walk_starts: "walk_at S 0 S []"
  by (simp add: walk_at_def layered_def depth_in_def reads_def)

context ledger_fetcher
begin

lemma crawl_walks:
  assumes "crawl_with E random fetch expired roots opts r = (Ok g, r')" and "inv r"
  obtains cs where "walked (set roots) opts cs" "inv r'" "all_good (cs_outcomes cs)"
    "gen_nodes g = build_nodes E (cs_outcomes cs) (cs_provenance cs) (root_set roots)"
    "gy_roots (gen_summary g) = map (ids_identity E) (root_set roots)" "gy_fetch_count (gen_summary g) = cs_fetches cs"
    "gy_truncated (gen_summary g) \<longleftrightarrow> cs_stop cs \<noteq> None \<or> cs_cut cs"
proof -
  let ?cs = "\<lparr>cs_outcomes = [], cs_provenance = [], cs_hints = [], cs_fetches = 0, cs_stop = None, cs_cut = False\<rparr>"
  obtain out r1 where run: "crawl_levels E fetch expired opts (bounded_depth opts + 1) 0 (root_set roots) ?cs r = (out, r1)"
    by (cases "crawl_levels E fetch expired opts (bounded_depth opts + 1) 0 (root_set roots) ?cs r")
  obtain cs where levels: "crawl_levels E fetch expired opts (bounded_depth opts + 1) 0 (root_set roots) ?cs r = (Ok cs, r')"
    and g: "gen_nodes g = build_nodes E (cs_outcomes cs) (cs_provenance cs) (root_set roots)"
    "gy_roots (gen_summary g) = map (ids_identity E) (root_set roots)" "gy_fetch_count (gen_summary g) = cs_fetches cs"
    "gy_truncated (gen_summary g) \<longleftrightarrow> cs_stop cs \<noteq> None \<or> cs_cut cs"
    using assms(1) unfolding crawl_with_def Let_def run
    by (cases out) (auto simp: build_summary_def split: option.splits)
  have "walked (set roots) opts cs \<and> inv r' \<and> all_good (cs_outcomes cs)"
    by (rule levels_walk [OF levels]) (simp_all add: root_set walk_starts under_caps_def assms(2) all_good_def)
  with g that show thesis by blast
qed

end

text \<open>The fetches of a node answer every request, with a copy that folds or with none.\<close>

lemma join_all_answers:
  "in_budget s \<Longrightarrow> in_budget (snd (join_all E W N now reqs s))
    \<and> (\<forall>outs. fst (join_all E W N now reqs s) = Ok outs \<longrightarrow> list_all2 (\<lambda>q f. fetched_ok E (fst q) f) reqs outs)"
proof (induction reqs arbitrary: s)
  case (Cons q reqs)
  obtain l learned where q: "q = (l, learned)" by (cases q)
  obtain f s1 where f: "net_fetch E W N now l learned s = Some (f, s1)" and b: "in_budget s1"
    and good: "\<forall>x. f = Ok x \<longrightarrow> fetched_ok E l x" using net_fetch_returns [OF Cons.prems] by metis
  obtain o2 s2 where j: "join_all E W N now reqs s1 = (o2, s2)" by fastforce
  from Cons.IH [OF b] j have "in_budget s2" "\<forall>outs. o2 = Ok outs \<longrightarrow> list_all2 (\<lambda>q f. fetched_ok E (fst q) f) reqs outs" by simp_all
  with f b good j show ?case by (cases f; cases o2) (auto simp: q fetch_candidate_def)
qed simp

interpretation net: ledger_fetcher "join_all E W N now" in_budget "fetched_ok E"
proof unfold_locales
  fix s reqs outs s'
  assume "in_budget s" "join_all E W N now reqs s = (Ok outs, s')"
  with join_all_answers [of s E W N now reqs]
  show "in_budget s' \<and> list_all2 (\<lambda>q f. fo_ledger f = fst q \<and> fetched_ok E (fst q) f) reqs outs"
    by (auto simp: fetched_ok_def elim: list_all2_mono)
qed

end
