(* ===== verification/Graph_Generations.thy ===== *)
theory Graph_Generations
  imports Graph_Paths
begin

text \<open>
  A generation that is published is the one readers get, and the collection of old
  generations never takes it.
\<close>

section \<open>Writing and reading the node files\<close>

lemma insert_all: "bt_wf (acc @ es) \<Longrightarrow> foldl (\<lambda>m e. bt_insert (fst e) (snd e) m) acc es = acc @ es"
proof (induction es arbitrary: acc)
  case (Cons e es)
  have "bt_insert (fst e) (snd e) acc = acc @ [e]"
    using Cons.prems by (subst bt_insert_last) (auto simp: bt_wf_def sorted_wrt_append)
  with Cons.IH [of "acc @ [e]"] Cons.prems show ?case by simp
qed simp

lemma insert_nodes:
  assumes "gen_ok nodes"
  shows "foldl (\<lambda>m n. bt_insert (gn_identity_id n) n m) [] (map snd nodes) = nodes"
proof -
  have "\<forall>e\<in>set nodes. gn_identity_id (snd e) = fst e"
    using assms by (metis bt_get_mem gen_ok_def prod.collapse)
  then have "foldl (\<lambda>m n. bt_insert (gn_identity_id n) n m) acc (map snd nodes)
      = foldl (\<lambda>m e. bt_insert (fst e) (snd e) m) acc nodes" for acc
    by (induction nodes arbitrary: acc) auto
  then show ?thesis using assms insert_all [of "[]" nodes] by (simp add: gen_ok_def)
qed

text \<open>Whatever is on disk, what is read files every node under its own id.\<close>

lemma read_gen_ok: "read_generation G s = Ok (Some g) \<Longrightarrow> gen_ok (gen_nodes g)"
proof -
  have "gen_ok m \<Longrightarrow> gen_ok (foldl (\<lambda>m n. bt_insert (gn_identity_id n) n m) m ns)" for m ns
    by (induction ns arbitrary: m) (auto intro: gen_ok_insert)
  moreover have "gen_ok []" by (simp add: gen_ok_def)
  ultimately show "read_generation G s = Ok (Some g) \<Longrightarrow> gen_ok (gen_nodes g)"
    by (auto simp: read_generation_def split: option.splits)
qed

section \<open>Collecting\<close>

lemma collect_all:
  "foldl (collect_one keep) G ids =
     G\<lparr>gs_generations := filter (\<lambda>e. fst e = keep \<or> fst e \<notin> set ids) (gs_generations G)\<rparr>"
proof (induction ids arbitrary: G)
  case (Cons s ids)
  have "filter (\<lambda>e. fst e = keep \<or> fst e \<notin> set ids) (bt_remove s m) = filter (\<lambda>e. fst e = keep \<or> fst e \<notin> set (s # ids)) m"
    if "s \<noteq> keep" for m :: "(bytes, generation_files) btree_map"
    using that by (auto simp: bt_remove_def intro!: filter_cong)
  moreover have "filter (\<lambda>e. fst e = keep \<or> fst e \<notin> set (s # ids)) m = filter (\<lambda>e. fst e = keep \<or> fst e \<notin> set ids) m"
    if "s = keep" for m :: "(bytes, generation_files) btree_map"
    using that by (auto intro!: filter_cong)
  ultimately show ?case using Cons by (simp add: collect_one_def)
qed simp

lemma get_filter: "bt_get (filter (\<lambda>e. P (fst e)) m) k = (if P k then bt_get m k else None)"
  by (induction m) (auto simp: bt_get_def)

definition old_ids :: "graph_store \<Rightarrow> bytes list" where
  "old_ids G = take (length (generation_ids G) - KEPT_GENERATIONS) (generation_ids G)"

lemma collect_get:
  "bt_get (gs_generations (collect keep G)) s =
     (if s = keep \<or> s \<notin> set (old_ids G) then bt_get (gs_generations G) s else None)"
proof -
  have "gs_generations (collect keep G) = filter (\<lambda>e. fst e = keep \<or> fst e \<notin> set (old_ids G)) (gs_generations G)"
    by (simp add: collect_def Let_def collect_all old_ids_def)
  then show ?thesis by (simp only: get_filter [where P = "\<lambda>k. k = keep \<or> k \<notin> set (old_ids G)"])
qed

lemma ids_distinct: "bt_wf (gs_generations G) \<Longrightarrow> distinct (generation_ids G)"
  by (simp add: generation_ids_def bt_wf_distinct)

lemma collect_ids:
  assumes "bt_wf (gs_generations G)"
  shows "set (generation_ids (collect keep G)) = {s \<in> set (generation_ids G). s = keep \<or> s \<notin> set (old_ids G)}"
    and "bt_wf (gs_generations (collect keep G))"
  unfolding collect_def Let_def collect_all old_ids_def using assms
  by (auto simp: generation_ids_def bt_wf_def strict_sorted_iff distinct_map_filter intro: sorted_filter)

lemma collect_few:
  assumes "bt_wf (gs_generations G)"
  shows "length (generation_ids (collect keep G)) \<le> Suc KEPT_GENERATIONS"
    and "keep \<in> set (drop (length (generation_ids G) - KEPT_GENERATIONS) (generation_ids G))
      \<Longrightarrow> length (generation_ids (collect keep G)) \<le> KEPT_GENERATIONS"
proof -
  let ?ids = "generation_ids G" and ?n = "length (generation_ids G) - KEPT_GENERATIONS"
  have len: "length (generation_ids (collect keep G)) = card (set (generation_ids (collect keep G)))"
    using ids_distinct [OF collect_ids(2) [OF assms]] by (simp add: distinct_card)
  have "set ?ids = set (old_ids G) \<union> set (drop ?n ?ids)"
    by (metis append_take_drop_id old_ids_def set_append)
  then have sub: "set (generation_ids (collect keep G)) \<subseteq> insert keep (set (drop ?n ?ids))"
    using collect_ids(1) [OF assms] by auto
  have few: "card (set (drop ?n ?ids)) \<le> KEPT_GENERATIONS" by (rule le_trans [OF card_length]) simp
  have "card (set (generation_ids (collect keep G))) \<le> card (insert keep (set (drop ?n ?ids)))"
    by (rule card_mono) (use sub in auto)
  with few len show "length (generation_ids (collect keep G)) \<le> Suc KEPT_GENERATIONS"
    and "keep \<in> set (drop ?n ?ids) \<Longrightarrow> length (generation_ids (collect keep G)) \<le> KEPT_GENERATIONS"
    by (auto simp: card_insert_if insert_absorb split: if_splits)
qed

text \<open>The newest name is among those that are kept.\<close>

lemma generation_ids_set: "set (generation_ids G) = {s \<in> fst ` set (gs_generations G). check_sync_id s = Ok ()}"
  by (auto simp: generation_ids_def)

lemma newest_kept:
  assumes "s \<in> set (generation_ids G)" and "\<forall>t\<in>set (generation_ids G). t \<le> s"
  shows "s \<in> set (drop (length (generation_ids G) - KEPT_GENERATIONS) (generation_ids G))"
proof -
  let ?ids = "generation_ids G"
  have "?ids \<noteq> []" using assms(1) by auto
  then obtain xs x where ids: "?ids = xs @ [x]" by (metis rev_exhaust)
  have "sorted ?ids" by (simp add: generation_ids_def)
  then have "s \<le> last ?ids" using assms(1) by (auto simp: ids sorted_append)
  then have "last ?ids = s" using assms(2) \<open>?ids \<noteq> []\<close> by (simp add: order_antisym)
  moreover have "last ?ids \<in> set (drop (length ?ids - KEPT_GENERATIONS) ?ids)"
    using \<open>?ids \<noteq> []\<close> by (metis KEPT_GENERATIONS_def diff_less drop_eq_Nil last_drop last_in_set length_greater_0_conv
      linorder_not_le zero_less_numeral)
  ultimately show ?thesis by simp
qed

section \<open>Publishing\<close>

lemma generation_dir_put [simp]:
  "generation_dir (G\<lparr>gs_generations := bt_insert s f (gs_generations G)\<rparr>) t = (if t = s then f else generation_dir G t)"
  by (simp add: generation_dir_def bt_get_insert)

lemma write_fresh:
  assumes "bt_get (gs_generations G) (gy_sync_id (gen_summary g)) = None"
    and "check_sync_id (gy_sync_id (gen_summary g)) = Ok ()" and "bt_wf (gen_nodes g)"
  shows "write_generation g G = Ok (G\<lparr>gs_generations := bt_insert (gy_sync_id (gen_summary g))
    \<lparr>gf_summary = Some (gen_summary g), gf_nodes = gen_nodes g\<rparr> (gs_generations G)\<rparr>)"
  using assms insert_all [of "[]" "gen_nodes g"] by (simp add: write_generation_def Let_def generation_dir_def)

lemma read_generation_cong:
  "generation_dir G s = generation_dir G' s \<Longrightarrow> read_generation G s = read_generation G' s"
  by (simp add: read_generation_def split: option.split)

lemma current_generation_cong:
  "gs_current G = gs_current G' \<Longrightarrow> (\<And>p. gs_current G = Some p \<Longrightarrow> generation_dir G (cu_sync_id p) = generation_dir G' (cu_sync_id p))
    \<Longrightarrow> current_generation G = current_generation G'"
  by (auto simp: current_generation_def intro: read_generation_cong split: option.split)

text \<open>A store after a generation with a new name was published.\<close>

lemma publish_fresh:
  fixes g :: generation
  defines "s \<equiv> gy_sync_id (gen_summary g)"
  assumes wf: "bt_wf (gs_generations G)" and ok: "gen_ok (gen_nodes g)" and id: "check_sync_id s = Ok ()"
    and new: "bt_get (gs_generations G) s = None"
  shows "\<exists>G'. publish g G = Ok G' \<and> bt_wf (gs_generations G') \<and> current_generation G' = Ok (Some g)
    \<and> length (generation_ids G') \<le> Suc KEPT_GENERATIONS
    \<and> ((\<forall>t\<in>set (generation_ids G). t < s) \<longrightarrow> length (generation_ids G') \<le> KEPT_GENERATIONS)
    \<and> (\<forall>t. t \<noteq> s \<longrightarrow> bt_get (gs_generations G') t \<in> {None, bt_get (gs_generations G) t})"
proof -
  define f where "f = \<lparr>gf_summary = Some (gen_summary g), gf_nodes = gen_nodes g\<rparr>"
  define G1 where "G1 = G\<lparr>gs_generations := bt_insert s f (gs_generations G),
    gs_current := Some \<lparr>cu_sync_id = s, cu_written_at_ms = gy_last_sync_ms (gen_summary g)\<rparr>\<rparr>"
  have pub: "publish g G = Ok (collect s G1)"
    using write_fresh [of G g] new id ok by (simp add: publish_def s_def set_current_def G1_def f_def gen_ok_def)
  have wf1: "bt_wf (gs_generations G1)" by (simp add: G1_def bt_wf_insert wf)
  have kept: "bt_get (gs_generations (collect s G1)) s = Some f" by (simp add: collect_get G1_def bt_get_insert)
  have "gs_current (collect s G1) = gs_current G1" by (simp add: collect_def Let_def collect_all)
  then have cur: "current_generation (collect s G1) = Ok (Some g)"
    using kept id insert_nodes [OF ok] by (simp add: current_generation_def G1_def read_generation_def generation_dir_def f_def)
  have newest: "length (generation_ids (collect s G1)) \<le> KEPT_GENERATIONS" if "\<forall>t\<in>set (generation_ids G). t < s"
    by (rule collect_few(2) [OF wf1 newest_kept]) (use that id in \<open>auto simp: generation_ids_set G1_def set_bt_insert\<close>)
  have "bt_get (gs_generations (collect s G1)) t \<in> {None, bt_get (gs_generations G) t}" if "t \<noteq> s" for t
    using that by (simp add: collect_get G1_def bt_get_insert)
  with pub cur newest collect_few(1) [OF wf1] collect_ids(2) [OF wf1] show ?thesis by blast
qed

end
