(* ===== verification/Endpoint_Bindings.thy ===== *)
theory Endpoint_Bindings
  imports Dns_Check
begin

text \<open>
  The binding cache (\<open>crates/mabel-node/src/bindings.rs\<close>): which endpoints the ledger of a
  witness identity vouches for. An observation is a chain of that identity as one source served
  it; the rules compare it with the record by where the two chains end. A file is the
  record it holds.
\<close>

section \<open>Records\<close>

datatype binding = BindingVerified | BindingHinted

record bound_endpoint =
  bo_endpoint :: public_key
  bo_head_seq :: u64
  bo_head_event :: event_id
  bo_source :: public_key
  bo_observed_ms :: u64

record bindings =
  bi_identity :: identity_id
  bi_endpoints :: "bound_endpoint list"

definition bindings_new :: "identity_id \<Rightarrow> bindings" where
  "bindings_new i = \<lparr>bi_identity = i, bi_endpoints = []\<rparr>"

definition binding_of :: "bindings \<Rightarrow> public_key \<Rightarrow> binding" where
  "binding_of b endpoint =
     (if \<exists>bound\<in>set (bi_endpoints b). bo_endpoint bound = endpoint then BindingVerified else BindingHinted)"

definition bindings_head_seq :: "bindings \<Rightarrow> u64 option" where
  "bindings_head_seq b = (case map bo_head_seq (bi_endpoints b) of [] \<Rightarrow> None | s # ss \<Rightarrow> Some (foldl max s ss))"

record observation =
  ob_identity :: identity_id
  ob_head_seq :: u64
  ob_head_event :: event_id
  ob_endpoints :: "public_key list"
  ob_source :: public_key
  ob_observed_ms :: u64
  ob_may_bind :: bool

definition vouched :: "observation \<Rightarrow> public_key list" where
  "vouched ob = (if \<not> ob_may_bind ob then [] else filter (\<lambda>e. e \<noteq> ob_source ob) (ob_endpoints ob))"

datatype recorded = Replaced bindings | Refreshed bindings | Ignored | Cleared | NothingRecorded

definition recorded_bindings :: "recorded \<Rightarrow> bindings option" where
  "recorded_bindings r = (case r of Replaced b \<Rightarrow> Some b | Refreshed b \<Rightarrow> Some b | _ \<Rightarrow> None)"

section \<open>The rules\<close>

definition bound_entry :: "observation \<Rightarrow> public_key \<Rightarrow> bound_endpoint" where
  "bound_entry ob endpoint =
     \<lparr>bo_endpoint = endpoint, bo_head_seq = ob_head_seq ob, bo_head_event = ob_head_event ob,
      bo_source = ob_source ob, bo_observed_ms = ob_observed_ms ob\<rparr>"

definition bindings_of :: "observation \<Rightarrow> bindings" where
  "bindings_of ob = \<lparr>bi_identity = ob_identity ob, bi_endpoints = map (bound_entry ob) (vouched ob)\<rparr>"

text \<open>The first entry of the endpoint is replaced, or one is added at the end.\<close>

fun put_bound :: "bound_endpoint list \<Rightarrow> bound_endpoint \<Rightarrow> bound_endpoint list" where
  "put_bound [] e = [e]"
| "put_bound (b # bs) e = (if bo_endpoint b = bo_endpoint e then e # bs else b # put_bound bs e)"

definition apply_observation :: "bindings option \<Rightarrow> observation \<Rightarrow> recorded" where
  "apply_observation existing ob =
     (if \<not> ob_may_bind ob then NothingRecorded
      else case existing of
        None \<Rightarrow> if vouched ob = [] then NothingRecorded else Replaced (bindings_of ob)
      | Some b \<Rightarrow> (case bindings_head_seq b of
          None \<Rightarrow> if vouched ob = [] then NothingRecorded else Replaced (bindings_of ob)
        | Some at \<Rightarrow>
            if ob_head_seq ob < at then Ignored
            else if ob_head_seq ob > at then Replaced (bindings_of ob)
            else if \<exists>bound\<in>set (bi_endpoints b). bo_head_seq bound = at \<and> bo_head_event bound \<noteq> ob_head_event ob then Cleared
            else if vouched ob = [] then NothingRecorded
            else Refreshed (b\<lparr>bi_endpoints := foldl put_bound (bi_endpoints b) (map (bound_entry ob) (vouched ob))\<rparr>)))"

type_synonym binding_files = "(identity_id, bindings) btree_map"

definition record_observation :: "observation \<Rightarrow> binding_files \<Rightarrow> recorded \<times> binding_files" where
  "record_observation ob m =
     (let out = apply_observation (bt_get m (ob_identity ob)) ob in
      (out, case out of
         Replaced b \<Rightarrow> bt_insert (bi_identity b) b m
       | Refreshed b \<Rightarrow> bt_insert (bi_identity b) b m
       | Cleared \<Rightarrow> bt_remove (ob_identity ob) m
       | _ \<Rightarrow> m))"

section \<open>What a binding rests on\<close>

text \<open>
  One observation vouches for an entry, and none after it about the same identity ends
  further along, or at the same position with another event.
\<close>

definition evidence :: "identity_id \<Rightarrow> observation list \<Rightarrow> bound_endpoint \<Rightarrow> bool" where
  "evidence i obs b \<longleftrightarrow> (\<exists>pre ob post. obs = pre @ ob # post \<and> ob_may_bind ob \<and> ob_identity ob = i
     \<and> bo_endpoint b \<in> set (ob_endpoints ob) \<and> bo_endpoint b \<noteq> ob_source ob
     \<and> b = bound_entry ob (bo_endpoint b)
     \<and> (\<forall>o'\<in>set post. ob_may_bind o' \<and> ob_identity o' = i \<longrightarrow>
          ob_head_seq o' < ob_head_seq ob \<or> ob_head_seq o' = ob_head_seq ob \<and> ob_head_event o' = ob_head_event ob))"

text \<open>The entries of a record have evidence, and their chains all end at one event.\<close>

definition bound_by :: "observation list \<Rightarrow> binding_files \<Rightarrow> bool" where
  "bound_by obs m \<longleftrightarrow> bt_wf m \<and> (\<forall>i b. bt_get m i = Some b \<longrightarrow> bi_identity b = i
     \<and> (\<forall>e\<in>set (bi_endpoints b). evidence i obs e)
     \<and> (\<exists>s h. \<forall>e\<in>set (bi_endpoints b). bo_head_seq e = s \<and> bo_head_event e = h))"

lemma bound_entry_sel [simp]: "bo_endpoint (bound_entry ob e) = e" "bo_head_seq (bound_entry ob e) = ob_head_seq ob"
  "bo_head_event (bound_entry ob e) = ob_head_event ob"
  by (simp_all add: bound_entry_def)

lemma vouched_mem: "e \<in> set (vouched ob) \<longleftrightarrow> ob_may_bind ob \<and> e \<in> set (ob_endpoints ob) \<and> e \<noteq> ob_source ob"
  by (auto simp: vouched_def)

lemma evidence_now: "e \<in> set (vouched ob) \<Longrightarrow> ob_identity ob = i \<Longrightarrow> evidence i (obs @ [ob]) (bound_entry ob e)"
  unfolding evidence_def by (intro exI [of _ obs] exI [of _ ob] exI [of _ "[]"]) (simp add: vouched_mem)

lemma evidence_later:
  assumes "evidence i obs b"
    and "ob_may_bind ob \<and> ob_identity ob = i \<longrightarrow>
      ob_head_seq ob < bo_head_seq b \<or> ob_head_seq ob = bo_head_seq b \<and> ob_head_event ob = bo_head_event b"
  shows "evidence i (obs @ [ob]) b"
proof -
  obtain pre o1 post where o1: "obs = pre @ o1 # post" "ob_may_bind o1" "ob_identity o1 = i" "bo_endpoint b \<in> set (ob_endpoints o1)"
    "bo_endpoint b \<noteq> ob_source o1" and b: "b = bound_entry o1 (bo_endpoint b)"
    and post: "\<forall>o'\<in>set post. ob_may_bind o' \<and> ob_identity o' = i \<longrightarrow>
      ob_head_seq o' < ob_head_seq o1 \<or> ob_head_seq o' = ob_head_seq o1 \<and> ob_head_event o' = ob_head_event o1"
    using assms(1) unfolding evidence_def by blast
  have "bo_head_seq b = ob_head_seq o1" "bo_head_event b = ob_head_event o1" by (subst b, simp)+
  with assms(2) post have "\<forall>o'\<in>set (post @ [ob]). ob_may_bind o' \<and> ob_identity o' = i \<longrightarrow>
      ob_head_seq o' < ob_head_seq o1 \<or> ob_head_seq o' = ob_head_seq o1 \<and> ob_head_event o' = ob_head_event o1" by auto
  with o1 b show ?thesis unfolding evidence_def by (intro exI [of _ pre] exI [of _ o1] exI [of _ "post @ [ob]"]) simp
qed

lemma put_bounds_set: "set (foldl put_bound bs es) \<subseteq> set bs \<union> set es"
proof (induction es arbitrary: bs)
  case (Cons e es)
  have "set (put_bound bs e) \<subseteq> insert e (set bs)" by (induction bs e rule: put_bound.induct) auto
  with Cons [of "put_bound bs e"] show ?case by auto
qed simp

lemma head_seq_uniform:
  assumes "bindings_head_seq b = Some s" and "\<forall>e\<in>set (bi_endpoints b). bo_head_seq e = t"
  shows "s = t"
proof -
  have fold: "\<forall>x\<in>set xs. x = t \<Longrightarrow> foldl max t xs = t" for xs :: "u64 list" by (induction xs) auto
  obtain e es where e: "bi_endpoints b = e # es" and s: "s = foldl max (bo_head_seq e) (map bo_head_seq es)"
    using assms(1) by (cases "bi_endpoints b") (auto simp: bindings_head_seq_def)
  have "\<forall>x\<in>set (map bo_head_seq es). x = t" "bo_head_seq e = t" using assms(2) e by auto
  with s fold show ?thesis by simp
qed

lemma no_head_seq: "bindings_head_seq b = None \<longleftrightarrow> bi_endpoints b = []"
  by (cases "bi_endpoints b") (auto simp: bindings_head_seq_def)

text \<open>What the record of the observed identity becomes.\<close>

definition uniform :: "bound_endpoint list \<Rightarrow> bool" where
  "uniform es \<longleftrightarrow> (\<exists>s h. \<forall>e\<in>set es. bo_head_seq e = s \<and> bo_head_event e = h)"

lemma record_step:
  assumes ev: "\<forall>e\<in>set (bi_endpoints b). evidence i obs e" and one: "uniform (bi_endpoints b)"
    and i: "bi_identity b = i" "ob_identity ob = i"
  shows "case apply_observation (Some b) ob of
      Replaced b' \<Rightarrow> bi_identity b' = i \<and> uniform (bi_endpoints b') \<and> (\<forall>e\<in>set (bi_endpoints b'). evidence i (obs @ [ob]) e)
    | Refreshed b' \<Rightarrow> bi_identity b' = i \<and> uniform (bi_endpoints b') \<and> (\<forall>e\<in>set (bi_endpoints b'). evidence i (obs @ [ob]) e)
    | Cleared \<Rightarrow> True
    | _ \<Rightarrow> \<forall>e\<in>set (bi_endpoints b). evidence i (obs @ [ob]) e"
proof -
  have new: "bi_identity (bindings_of ob) = i \<and> uniform (bi_endpoints (bindings_of ob))
      \<and> (\<forall>e\<in>set (bi_endpoints (bindings_of ob)). evidence i (obs @ [ob]) e)"
    using i(2) evidence_now by (auto simp: bindings_of_def uniform_def)
  show ?thesis
  proof (cases "ob_may_bind ob")
    case False
    with ev evidence_later show ?thesis by (auto simp: apply_observation_def)
  next
    case bind: True
    show ?thesis
    proof (cases "bindings_head_seq b")
      case None
      then have "bi_endpoints b = []" by (simp add: no_head_seq)
      with None bind new show ?thesis by (simp add: apply_observation_def)
    next
      case (Some at)
      obtain h where all: "\<forall>e\<in>set (bi_endpoints b). bo_head_seq e = at \<and> bo_head_event e = h"
        using one head_seq_uniform [OF Some] unfolding uniform_def by blast
      consider "ob_head_seq ob < at" | "ob_head_seq ob > at"
        | "ob_head_seq ob = at" "\<exists>e\<in>set (bi_endpoints b). bo_head_seq e = at \<and> bo_head_event e \<noteq> ob_head_event ob"
        | "ob_head_seq ob = at" "\<forall>e\<in>set (bi_endpoints b). bo_head_event e = ob_head_event ob" using all by fastforce
      then show ?thesis
      proof cases
        case 1
        then have "\<forall>e\<in>set (bi_endpoints b). evidence i (obs @ [ob]) e" using ev all by (intro ballI evidence_later) simp_all
        with 1 bind Some show ?thesis by (simp add: apply_observation_def)
      next
        case 2
        then have "\<not> ob_head_seq ob < at" by simp
        with 2 bind Some new show ?thesis by (simp add: apply_observation_def)
      next
        case 3
        with bind Some show ?thesis by (simp add: apply_observation_def)
      next
        case 4
        have kept: "\<forall>e\<in>set (bi_endpoints b). evidence i (obs @ [ob]) e" using ev all 4 evidence_later by metis
        let ?es = "foldl put_bound (bi_endpoints b) (map (bound_entry ob) (vouched ob))"
        have sub: "set ?es \<subseteq> set (bi_endpoints b) \<union> bound_entry ob ` set (vouched ob)" using put_bounds_set by fastforce
        then have "\<forall>e\<in>set ?es. evidence i (obs @ [ob]) e" using kept evidence_now i(2) by blast
        moreover have "\<forall>e\<in>set ?es. bo_head_seq e = at \<and> bo_head_event e = ob_head_event ob" using sub all 4 by auto
        then have "uniform ?es" unfolding uniform_def by blast
        moreover have "\<not> (\<exists>e\<in>set (bi_endpoints b). bo_head_seq e = at \<and> bo_head_event e \<noteq> ob_head_event ob)" using 4 by blast
        ultimately show ?thesis using 4(1) bind Some kept i(1) by (simp add: apply_observation_def)
      qed
    qed
  qed
qed

lemma record_bound:
  assumes "bound_by obs m"
  shows "bound_by (obs @ [ob]) (snd (record_observation ob m))"
proof -
  let ?i = "ob_identity ob"
  have wf: "bt_wf m" using assms by (simp add: bound_by_def)
  have old: "bi_identity b = j \<and> (\<forall>e\<in>set (bi_endpoints b). evidence j obs e) \<and> uniform (bi_endpoints b)" if "bt_get m j = Some b" for j b
    using assms that unfolding bound_by_def uniform_def by blast
  have other: "\<forall>e\<in>set (bi_endpoints b). evidence j (obs @ [ob]) e" if "bt_get m j = Some b" "j \<noteq> ?i" for j b
    using old [OF that(1)] that(2) by (intro ballI evidence_later) simp_all
  have put: "bound_by (obs @ [ob]) (bt_insert ?i b m)"
    if "bi_identity b = ?i" "uniform (bi_endpoints b)" "\<forall>e\<in>set (bi_endpoints b). evidence ?i (obs @ [ob]) e" for b
    using that old other wf unfolding bound_by_def uniform_def by (auto simp: bt_get_insert bt_wf_insert)
  have keep: "bound_by (obs @ [ob]) m" if "\<forall>b. bt_get m ?i = Some b \<longrightarrow> (\<forall>e\<in>set (bi_endpoints b). evidence ?i (obs @ [ob]) e)"
  proof -
    have "\<forall>e\<in>set (bi_endpoints b). evidence j (obs @ [ob]) e" if "bt_get m j = Some b" for j b
      using that other \<open>\<forall>b. bt_get m ?i = Some b \<longrightarrow> _ b\<close> by (cases "j = ?i") auto
    with old wf show ?thesis unfolding bound_by_def uniform_def by blast
  qed
  have drop: "bound_by (obs @ [ob]) (bt_remove ?i m)"
    using old other wf unfolding bound_by_def uniform_def by (auto simp: bt_get_remove bt_wf_remove split: if_splits)
  show ?thesis
  proof (cases "bt_get m ?i")
    case None
    have "bi_identity (bindings_of ob) = ?i" "uniform (bi_endpoints (bindings_of ob))"
      "\<forall>e\<in>set (bi_endpoints (bindings_of ob)). evidence ?i (obs @ [ob]) e"
      using evidence_now by (auto simp: bindings_of_def uniform_def)
    with put keep None show ?thesis by (auto simp: record_observation_def apply_observation_def Let_def)
  next
    case (Some b)
    note step = record_step [OF conjunct1 [OF conjunct2 [OF old [OF Some]]] conjunct2 [OF conjunct2 [OF old [OF Some]]]
        conjunct1 [OF old [OF Some]], of ob]
    with put keep drop Some show ?thesis
      by (cases "apply_observation (Some b) ob") (auto simp: record_observation_def Let_def)
  qed
qed

text \<open>The files after a run of observations.\<close>

definition record_all :: "observation list \<Rightarrow> binding_files" where
  "record_all obs = foldl (\<lambda>m ob. snd (record_observation ob m)) [] obs"

lemma record_all_bound: "bound_by obs (record_all obs)"
proof (induction obs rule: rev_induct)
  case (snoc ob obs)
  then show ?case using record_bound by (simp add: record_all_def)
qed (simp add: record_all_def bound_by_def)

end
