(* ===== verification/Graph_Properties.thy ===== *)
theory Graph_Properties
  imports Crawl_Nodes Graph_Generations Endpoint_Bindings Storage_Sample
begin

text \<open>
  The properties of the trust graph, of what a node remembers of its peers and of their
  endpoints, and of the hostname check.
\<close>

section \<open>Samples\<close>

text \<open>A network of two ledgers, in which one attests the other, who is not to be reached.\<close>

definition sample_summary :: chain_summary where
  "sample_summary =
     \<lparr>cy_ledger = alice_id, cy_declared_kind = Person, cy_display_name = None, cy_hostname = None, cy_email = None,
      cy_head_seq = 1, cy_head_event = be_event_id alice_trusts_bob, cy_endpoints = [], cy_witness_identities = [],
      cy_legacy_witnesses = [], cy_trust = [\<lparr>tr_subject = bob_id, tr_attestation_event = be_event_id alice_trusts_bob, tr_seq = 1\<rparr>]\<rparr>"

definition sample_answer :: "identity_id \<Rightarrow> fetch_outcome" where
  "sample_answer l =
     (if l = alice_id then outcome_verified 0 sample_summary LocalCopy [LocalCopy] else outcome_unreachable 0 l [])"

definition sample_fetch :: "unit fetcher" where
  "sample_fetch reqs r = (Ok (map (\<lambda>q. sample_answer (fst q)) reqs), r)"

lemma sample_answer_ledger: "fo_ledger (sample_answer l) = l"
  by (simp add: sample_answer_def outcome_verified_def outcome_unreachable_def sample_summary_def)

lemma root_set_single: "root_set [l] = [l]"
  by (simp add: root_set_def)

lemma sample_levels:
  "\<exists>prov hints. crawl_levels ref_env sample_fetch (\<lambda>_. False) (crawl_options_new 0) (bounded_depth (crawl_options_new 0) + 1) 0 [alice_id]
      \<lparr>cs_outcomes = [], cs_provenance = [], cs_hints = [], cs_fetches = 0, cs_stop = None, cs_cut = False\<rparr> ()
    = (Ok \<lparr>cs_outcomes = bt_insert bob_id (1, sample_answer bob_id) [(alice_id, 0, sample_answer alice_id)],
        cs_provenance = prov, cs_hints = hints, cs_fetches = 2, cs_stop = None, cs_cut = False\<rparr>, ())"
proof -
  have other: "bob_id \<noteq> alice_id" using sample_ids by metis
  have answers: "fo_summary (sample_answer alice_id) = Some sample_summary" "fo_source (sample_answer alice_id) = Some LocalCopy"
    "fo_summary (sample_answer bob_id) = None"
    using other by (simp_all add: sample_answer_def outcome_verified_def outcome_unreachable_def)
  show ?thesis using other
    by (simp add: crawl_options_new_def bounded_depth_def DEFAULT_DEPTH_def MIN_DEPTH_def MAX_DEPTH_def numeral_eq_Suc
        cap_nodes_def cap_fetches_def MAX_NODES_def MAX_FETCHES_def IN_FLIGHT_def sample_fetch_def file_outcome_def sample_answer_ledger
        note_ledger_edges_def note_edge_def answers sample_summary_def bt_get_def Let_def)
qed

text \<open>A wallet that holds nothing, on a network that does not answer.\<close>

definition silent_network :: "unit network" where
  "silent_network = \<lparr>nw_instant = (\<lambda>_. 0), nw_serve = (\<lambda>_ _ w. (None, w)), nw_txt = None\<rparr>"

definition empty_core :: wallet_core where
  "empty_core = \<lparr>wl_home = \<lparr>hm_identities = [], hm_ledgers = []\<rparr>, wl_peers = [], wl_witnesses = [],
     wl_graph = \<lparr>gs_current = None, gs_generations = []\<rparr>\<rparr>"



text \<open>A generation of two nodes, and a store that holds it.\<close>

definition sample_node :: "document_id \<Rightarrow> graph_edge list \<Rightarrow> graph_node" where
  "sample_node i es =
     \<lparr>gn_identity_id = i, gn_declared_kind = None, gn_display_name = None, gn_hostname = None, gn_email = None, gn_head_seq = None,
      gn_head_event = None, gn_depth = 0, gn_roots = [], gn_discovered_via = None, gn_source = None, gn_fetched_at_ms = None,
      gn_status = StatusOk, gn_equivocation = None, gn_detail = None, gn_edges = es\<rparr>"

definition sample_generation :: "bytes \<Rightarrow> generation" where
  "sample_generation s =
     \<lparr>gen_summary = \<lparr>gy_sync_id = s, gy_last_sync_ms = 0, gy_depth = 1, gy_roots = [[97]], gy_node_count = 2, gy_edge_count = 1,
        gy_fetch_count = 2, gy_truncated = False, gy_truncated_by = None, gy_equivocations = []\<rparr>,
      gen_nodes = [([97], sample_node [97] [\<lparr>ge_subject = [98], ge_attestation_event = [99], ge_seq = 1\<rparr>]), ([98], sample_node [98] [])]\<rparr>"

definition sample_graph :: graph_store where
  "sample_graph = \<lparr>gs_current = Some \<lparr>cu_sync_id = [48], cu_written_at_ms = 0\<rparr>,
     gs_generations = [([48], \<lparr>gf_summary = Some (gen_summary (sample_generation [48])), gf_nodes = gen_nodes (sample_generation [48])\<rparr>)]\<rparr>"


lemma sample_read: "read_generation sample_graph [48] = Ok (Some (sample_generation [48]))"
  by (simp add: read_generation_def check_sync_id_def is_lower_def is_digit_def sample_graph_def generation_dir_def bt_get_def
      sample_generation_def sample_node_def)

section \<open>The crawl\<close>


text \<open>
  C13. A crawl sees the graph: whatever order the answers of a batch come in, if each is for the
  ledger that was asked for, the depth of every node is its distance from the roots along the
  attestations of the generation and within the depth asked for, its list of roots names the roots
  that reach it with their distances, and the generation is within the caps on nodes and
  fetches. A crawl that is not reported as truncated has every root, and every subject a
  node of it attests.
\<close>

theorem crawl_sees_graph:
  assumes "base32_codec E"
    and "\<forall>reqs r outs r'. fetch reqs r = (Ok outs, r') \<longrightarrow> list_all2 (\<lambda>q f. fo_ledger f = fst q) reqs outs"
    and "crawl_with E random fetch expired roots opts r = (Ok g, r')"
  shows "(\<forall>i n. bt_get (gen_nodes g) i = Some n \<longrightarrow> gn_depth n \<le> bounded_depth opts
        \<and> distance (trust_edges (gen_nodes g)) (ids_identity E ` set roots) i (gn_depth n)
        \<and> set (gn_roots n) = {\<lparr>rd_root = s, rd_depth = k\<rparr> | s k. s \<in> ids_identity E ` set roots
            \<and> bt_get (gen_nodes g) s \<noteq> None \<and> distance (trust_edges (gen_nodes g)) {s} i k})
    \<and> length (gen_nodes g) \<le> co_max_nodes opts \<and> gy_fetch_count (gen_summary g) \<le> co_max_fetches opts
    \<and> (\<not> gy_truncated (gen_summary g) \<longrightarrow> (\<forall>s\<in>ids_identity E ` set roots. bt_get (gen_nodes g) s \<noteq> None)
        \<and> (\<forall>i n e. bt_get (gen_nodes g) i = Some n \<longrightarrow> e \<in> set (gn_edges n) \<longrightarrow> bt_get (gen_nodes g) (ge_subject e) \<noteq> None))"
proof -
  have fetcher: "ledger_fetcher fetch (\<lambda>_. True) (\<lambda>_ _. True)" using assms(2) by unfold_locales auto
  obtain cs where walk: "walked (set roots) opts cs"
    and g: "gen_nodes g = build_nodes E (cs_outcomes cs) (cs_provenance cs) (root_set roots)"
      "gy_fetch_count (gen_summary g) = cs_fetches cs" "gy_truncated (gen_summary g) \<longleftrightarrow> cs_stop cs \<noteq> None \<or> cs_cut cs"
    by (rule ledger_fetcher.crawl_walks [OF fetcher assms(3) TrueI]) blast
  let ?m = "cs_outcomes cs"
  have m: "layered (set roots) ?m" "bt_wf ?m" and deep: "\<forall>x k. depth_in ?m x k \<longrightarrow> k \<le> bounded_depth opts"
    and caps: "under_caps opts cs"
    and closed: "cs_stop cs = None \<and> \<not> cs_cut cs \<longrightarrow> set roots \<subseteq> reads ?m \<and> (\<forall>x y. attests ?m x y \<longrightarrow> y \<in> reads ?m)"
    using walk unfolding walked_def Let_def by blast+
  note depth = base32_codec.depth_is_distance [OF assms(1) m]
  have node: "bt_get (gen_nodes g) (ids_identity E x) \<noteq> None \<longleftrightarrow> x \<in> reads ?m" for x
    by (simp add: g build_nodes_get base32_codec.plain_nodes_get [OF assms(1) m(2)] reads_def)
  have nodes: "gn_depth n \<le> bounded_depth opts
        \<and> distance (trust_edges (gen_nodes g)) (ids_identity E ` set roots) i (gn_depth n)
        \<and> set (gn_roots n) = {\<lparr>rd_root = s, rd_depth = k\<rparr> | s k. s \<in> ids_identity E ` set roots
            \<and> bt_get (gen_nodes g) s \<noteq> None \<and> distance (trust_edges (gen_nodes g)) {s} i k}"
    if n: "bt_get (gen_nodes g) i = Some n" for i n
  proof -
    note n = n [unfolded g]
    note at = depth [OF n] and rs = conjunct2 [OF node_roots [OF n]]
    from at obtain x f where "bt_get ?m x = Some (gn_depth n, f)" by blast
    then have "gn_depth n \<le> bounded_depth opts" using deep unfolding depth_in_def by blast
    then show ?thesis unfolding g rs root_set using at by (intro conjI refl) simp_all
  qed
  have "length (gen_nodes g) \<le> co_max_nodes opts \<and> gy_fetch_count (gen_summary g) \<le> co_max_fetches opts"
    using caps build_nodes_length le_trans unfolding g under_caps_def by blast
  moreover have "bt_get (gen_nodes g) (ge_subject e) \<noteq> None"
    if "\<not> gy_truncated (gen_summary g)" and n: "bt_get (gen_nodes g) i = Some n" and e: "e \<in> set (gn_edges n)" for i n e
  proof -
    obtain x d f where x: "bt_get ?m x = Some (d, f)" and "gn_edges n = gn_edges (node_of E (cs_provenance cs) x d f)"
      using built_origin [OF m(2), of E "cs_provenance cs" "root_set roots" i n] n unfolding g by blast
    with e obtain y t where y: "fo_summary f = Some y" "t \<in> set (cy_trust y)" "ge_subject e = ids_identity E (tr_subject t)"
      using node_edge [of e E "cs_provenance cs" x d f] by auto
    have "attests ?m x (tr_subject t)" using x y unfolding attests_def by blast
    then have "tr_subject t \<in> reads ?m" using closed that(1) g(3) by blast
    then show ?thesis using y(3) node by simp
  qed
  moreover have "\<forall>s\<in>ids_identity E ` set roots. bt_get (gen_nodes g) s \<noteq> None" if "\<not> gy_truncated (gen_summary g)"
    using closed that g(3) node by blast
  ultimately show ?thesis using nodes by blast
qed

theorem crawl_sees_graph_witness:
  "\<exists>g n. crawl_with ref_env [] sample_fetch (\<lambda>_. False) [alice_id] (crawl_options_new 0) () = (Ok g, ())
    \<and> \<not> gy_truncated (gen_summary g) \<and> bt_get (gen_nodes g) (ids_identity ref_env bob_id) = Some n
    \<and> distance (trust_edges (gen_nodes g)) {ids_identity ref_env alice_id} (ids_identity ref_env bob_id) (gn_depth n)"
proof -
  let ?run = "crawl_with ref_env [] sample_fetch (\<lambda>_. False) [alice_id] (crawl_options_new 0) ()"
  let ?m = "bt_insert bob_id (1, sample_answer bob_id) [(alice_id, 0, sample_answer alice_id)]"
  obtain g prov where run: "?run = (Ok g, ())" and g: "gen_nodes g = build_nodes ref_env ?m prov [alice_id]"
    and whole: "\<not> gy_truncated (gen_summary g)"
    using sample_levels unfolding crawl_with_def Let_def root_set_single by (force simp: build_summary_def)
  have contract: "\<forall>reqs r outs r'. sample_fetch reqs r = (Ok outs, r') \<longrightarrow> list_all2 (\<lambda>q f. fo_ledger f = fst q) reqs outs"
    by (auto simp: sample_fetch_def list_all2_conv_all_nth sample_answer_ledger)
  have wf: "bt_wf ?m" by (intro bt_wf_insert) (simp add: bt_wf_def)
  have "bt_get ?m bob_id \<noteq> None" unfolding bt_get_insert by simp
  then have "bt_get (gen_nodes g) (ids_identity ref_env bob_id) \<noteq> None"
    unfolding g build_nodes_get base32_codec.plain_nodes_get [OF ref_base32 wf] by (simp only: option.map_disc_iff)
  then show ?thesis using crawl_sees_graph [OF ref_base32 contract run] run whole by auto
qed



text \<open>
  C18. What the reader of a generation answers is the shortest chain of attestations: the
  degrees between two identities are the length of a shortest chain, no chain is shorter, and
  there are none exactly when there is no chain; the paths listed are such chains, at most the
  limit of them, some whenever there is one, and all of them when fewer than the limit are listed.
\<close>

theorem lookup_finds_shortest_chains:
  assumes "read_generation G s = Ok (Some g)"
  shows "(degrees g a b = Some d \<longleftrightarrow> bt_get (gen_nodes g) a \<noteq> None
        \<and> (\<exists>p. hop_path (gen_nodes g) a b p \<and> length p = d) \<and> (\<forall>p. hop_path (gen_nodes g) a b p \<longrightarrow> d \<le> length p))
    \<and> (\<forall>p\<in>set (paths g a b). hop_path (gen_nodes g) a b p \<and> degrees g a b = Some (length p))
    \<and> length (paths g a b) \<le> MAX_PATHS \<and> (paths g a b = [] \<longleftrightarrow> degrees g a b = None)
    \<and> (length (paths g a b) < MAX_PATHS \<longrightarrow> degrees g a b = Some d \<longrightarrow>
        (\<forall>p. hop_path (gen_nodes g) a b p \<and> length p = d \<longrightarrow> p \<in> set (paths g a b)))"
proof -
  have ok: "gen_ok (gen_nodes g)" by (rule read_gen_ok [OF assms])
  have deg: "degrees g a b = Some k \<longleftrightarrow> bt_get (gen_nodes g) a \<noteq> None
        \<and> (\<exists>p. hop_path (gen_nodes g) a b p \<and> length p = k) \<and> (\<forall>p. hop_path (gen_nodes g) a b p \<longrightarrow> k \<le> length p)" for k
    unfolding degrees_iff [OF ok] distance_hops by blast
  show ?thesis
  proof (cases "degrees g a b")
    case None
    then have "paths g a b = []" by (simp add: paths_def paths_up_to_eq [OF ok])
    with None deg [of d] show ?thesis by simp
  next
    case (Some k)
    let ?all = "if a = b then [[]] else descents g (distances_to g b) k a"
    have all: "p \<in> set ?all \<longleftrightarrow> hop_path (gen_nodes g) a b p \<and> length p = k" for p by (rule shortest_iff [OF ok Some])
    have eq: "paths g a b = take MAX_PATHS ?all" by (simp add: paths_def paths_up_to_eq [OF ok] Some)
    have "?all \<noteq> []" using all deg [of k] Some by (metis empty_iff empty_set)
    then have some: "paths g a b \<noteq> []" by (simp add: eq MAX_PATHS_def)
    have each: "\<forall>p\<in>set (paths g a b). hop_path (gen_nodes g) a b p \<and> length p = k" using all in_set_takeD unfolding eq by metis
    have whole: "paths g a b = ?all" if "length (paths g a b) < MAX_PATHS" using that unfolding eq by simp
    have few: "length (paths g a b) \<le> MAX_PATHS" by (simp add: eq)
    have "\<forall>p. hop_path (gen_nodes g) a b p \<and> length p = d \<longrightarrow> p \<in> set (paths g a b)"
      if "length (paths g a b) < MAX_PATHS" "degrees g a b = Some d"
      unfolding whole [OF that(1)] all using that(2) Some by simp
    moreover have "\<forall>p\<in>set (paths g a b). hop_path (gen_nodes g) a b p \<and> degrees g a b = Some (length p)"
      using each Some by simp
    moreover have "paths g a b = [] \<longleftrightarrow> degrees g a b = None" using some Some by simp
    ultimately show ?thesis using few by (intro conjI deg impI)
  qed
qed

theorem lookup_finds_shortest_chains_witness:
  "degrees (sample_generation [48]) [97] [98] = Some 1 \<and> paths (sample_generation [48]) [97] [98] \<noteq> []"
proof -
  let ?N = "gen_nodes (sample_generation [48])"
  have "hop_path ?N [97] [98] [\<lparr>ph_from = [97], ph_to = [98], ph_attestation_event = [99]\<rparr>]"
    by (simp add: attested_def sample_generation_def sample_node_def bt_get_def)
  moreover have "1 \<le> length p" if "hop_path ?N [97] [98] p" for p using that by (cases p) auto
  moreover have "bt_get ?N [97] \<noteq> None" by (simp add: sample_generation_def bt_get_def)
  moreover note lookup_finds_shortest_chains [OF sample_read, of "[97]" "[98]" 1]
  ultimately show ?thesis by (metis One_nat_def length_Cons list.size(3) option.distinct(1))
qed



text \<open>
  C20. A fetch ends and keeps to its dials: from the budget an operation starts with, and from any
  budget that fetches leave, a fetch of any ledger over any network returns, at most the dials
  of one operation are spent, at most the cap of each class, and what is reserved for the
  witnesses of the node is still theirs: the next such witness is admitted while the reserve lasts.
\<close>

theorem fetch_keeps_dial_budget:
  shows "in_budget \<lparr>fe_resolving = (with_caller_hints hints (resolution_with_budget budget instant), core), fe_world = w\<rparr>
    \<and> (in_budget s \<longrightarrow> (\<exists>out s'. net_fetch E W N now l learned s = Some (out, s') \<and> in_budget s'
        \<and> dialled (rl_dials (fst (fe_resolving s'))) \<le> MAX_DIALS
        \<and> (\<forall>c most. class_cap c = Some most \<longrightarrow> spent (rl_dials (fst (fe_resolving s'))) c \<le> most)
        \<and> (\<forall>e. spent (rl_dials (fst (fe_resolving s'))) ClassNodeWitness < class_reserved ClassNodeWitness
            \<longrightarrow> fst (resolution_admit ClassNodeWitness e (fst (fe_resolving s'))))))"
proof (intro conjI impI)
  show "in_budget \<lparr>fe_resolving = (with_caller_hints hints (resolution_with_budget budget instant), core), fe_world = w\<rparr>"
    by (simp add: in_budget_def with_caller_hints_def resolution_with_budget_def budget_new_ok)
next
  assume "in_budget s"
  from net_fetch_returns [OF this] obtain out s' where run: "net_fetch E W N now l learned s = Some (out, s')" and b: "in_budget s'"
    by blast
  let ?b = "rl_dials (fst (fe_resolving s'))"
  have ok: "budget_ok ?b" using b by (simp add: in_budget_def)
  then have "dialled ?b \<le> MAX_DIALS" "\<forall>c most. class_cap c = Some most \<longrightarrow> spent ?b c \<le> most" unfolding budget_ok_def by auto
  moreover have "fst (resolution_admit ClassNodeWitness e (fst (fe_resolving s')))"
    if "spent ?b ClassNodeWitness < class_reserved ClassNodeWitness" for e
    using reserve_holds [OF ok that] by (simp add: resolution_admit_def Let_def)
  ultimately show "\<exists>out s'. net_fetch E W N now l learned s = Some (out, s') \<and> in_budget s'
        \<and> dialled (rl_dials (fst (fe_resolving s'))) \<le> MAX_DIALS
        \<and> (\<forall>c most. class_cap c = Some most \<longrightarrow> spent (rl_dials (fst (fe_resolving s'))) c \<le> most)
        \<and> (\<forall>e. spent (rl_dials (fst (fe_resolving s'))) ClassNodeWitness < class_reserved ClassNodeWitness
            \<longrightarrow> fst (resolution_admit ClassNodeWitness e (fst (fe_resolving s'))))"
    using run b by blast
qed

theorem fetch_keeps_dial_budget_witness:
  "\<exists>out s'. net_fetch ref_env (\<lambda>_. []) silent_network 0 alice_id [ref_public bob]
      \<lparr>fe_resolving = (with_caller_hints [ref_public alice] (resolution_with_budget RUN_BUDGET 0), empty_core), fe_world = ()\<rparr> = Some (out, s')
    \<and> dialled (rl_dials (fst (fe_resolving s'))) \<le> MAX_DIALS"
  using fetch_keeps_dial_budget [of "[ref_public alice]" RUN_BUDGET 0 empty_core "()"
      "\<lparr>fe_resolving = (with_caller_hints [ref_public alice] (resolution_with_budget RUN_BUDGET 0), empty_core), fe_world = ()\<rparr>"
      ref_env "\<lambda>_. []" silent_network 0 alice_id "[ref_public bob]"] by blast

section \<open>Sources that disagree\<close>

text \<open>One copy is the other with events appended.\<close>

definition extends_copy :: "loaded_ledger \<Rightarrow> loaded_ledger \<Rightarrow> bool" where
  "extends_copy a b \<longleftrightarrow> (\<exists>zs. ld_events a = ld_events b @ zs)"

text \<open>
  C24. What a fetch makes of the copies it was served: an equivocation is reported exactly when
  one of the later copies is neither an extension of the first nor extended by it, with
  the first position where they differ and both events there, and the first copy is the one
  summarised; when there is none the longest copy is, and its source named. With no copy at
  all the outcome has no summary and says whether a source served an invalid one.
\<close>

theorem disagreeing_copies_are_reported:
  "(fo_status (decide E now l tried (first # rest) invalid) = StatusEquivocation
      \<longleftrightarrow> (\<exists>c\<in>set rest. \<not> extends_copy (snd c) (snd first) \<and> \<not> extends_copy (snd first) (snd c)))
   \<and> (fo_status (decide E now l tried (first # rest) invalid) = StatusEquivocation \<longrightarrow>
       fo_summary (decide E now l tried (first # rest) invalid) = Some (summary_of (snd first))
       \<and> (\<exists>c\<in>set rest. \<exists>k<length (ld_events (snd first)). k < length (ld_events (snd c))
           \<and> take k (ld_events (snd first)) = take k (ld_events (snd c)) \<and> ld_events (snd first) ! k \<noteq> ld_events (snd c) ! k
           \<and> fo_equivocation (decide E now l tried (first # rest) invalid) = Some \<lparr>eq_at_seq = of_nat k, eq_branches =
               [\<lparr>eb_source = fst first, eb_event = event_at E k (snd first)\<rparr>, \<lparr>eb_source = fst c, eb_event = event_at E k (snd c)\<rparr>]\<rparr>))
   \<and> (fo_status (decide E now l tried (first # rest) invalid) \<noteq> StatusEquivocation \<longrightarrow>
       (\<exists>c\<in>set (first # rest). decide E now l tried (first # rest) invalid = outcome_verified now (summary_of (snd c)) (fst c) tried
           \<and> (\<forall>d\<in>set (first # rest). loaded_event_count (snd d) \<le> loaded_event_count (snd c))))
   \<and> fo_summary (decide E now l tried [] invalid) = None
   \<and> (fo_status (decide E now l tried [] invalid) = StatusInvalid \<longleftrightarrow> invalid \<noteq> None)"
proof -
  let ?f = "decide E now l tried (first # rest) invalid"
  have none: "divergence E (snd first) (snd c) = None \<longleftrightarrow> extends_copy (snd c) (snd first) \<or> extends_copy (snd first) (snd c)" for c :: candidate
    unfolding divergence_None extends_copy_def by blast
  have ok: "fo_status (outcome_verified now y src tried) = StatusOk" for y src by (simp add: outcome_verified_def)
  have nil: "fo_summary (decide E now l tried [] invalid) = None
      \<and> (fo_status (decide E now l tried [] invalid) = StatusInvalid \<longleftrightarrow> invalid \<noteq> None)"
    by (auto simp: decide_def outcome_invalid_def outcome_unreachable_def split: option.splits)
  show ?thesis
  proof (cases rule: decide_cases [of "first # rest" E now l tried invalid])
    case (same fst' rest' c)
    then have status: "fo_status ?f = StatusOk" using ok by simp
    have "\<forall>d\<in>set rest. divergence E (snd first) (snd d) = None" using same(1,3) by simp
    then have "\<not> (\<exists>c\<in>set rest. \<not> extends_copy (snd c) (snd first) \<and> \<not> extends_copy (snd first) (snd c))" unfolding none by blast
    with status same(2,4,5) nil show ?thesis by (metis node_status.distinct(5))
  next
    case (forked fst' rest' c k a b)
    then have eq: "fst' = first" "rest' = rest" by simp_all
    have status: "fo_status ?f = StatusEquivocation" "fo_summary ?f = Some (summary_of (snd first))"
      "fo_equivocation ?f = Some \<lparr>eq_at_seq = k, eq_branches = [\<lparr>eb_source = fst first, eb_event = a\<rparr>, \<lparr>eb_source = fst c, eb_event = b\<rparr>]\<rparr>"
      unfolding forked(4) eq by (simp_all add: with_equivocation_def outcome_verified_def)
    from forked(3) obtain j where j: "first_difference 0 (ld_events (snd first)) (ld_events (snd c)) = Some j" "k = of_nat j"
      "a = event_at E j (snd first)" "b = event_at E j (snd c)" unfolding eq by (auto simp: divergence_def)
    have c: "c \<in> set rest" using forked(2) eq by simp
    have differ: "j < length (ld_events (snd first)) \<and> j < length (ld_events (snd c))
      \<and> take j (ld_events (snd first)) = take j (ld_events (snd c)) \<and> ld_events (snd first) ! j \<noteq> ld_events (snd c) ! j"
      using first_difference_Some [OF j(1)] by simp
    have "divergence E (snd first) (snd c) \<noteq> None" using forked(3) eq by simp
    then have ex: "\<exists>c\<in>set rest. \<not> extends_copy (snd c) (snd first) \<and> \<not> extends_copy (snd first) (snd c)"
      using c unfolding none by (intro bexI [of _ c]) simp_all
    have "\<exists>c\<in>set rest. \<exists>k<length (ld_events (snd first)). k < length (ld_events (snd c))
           \<and> take k (ld_events (snd first)) = take k (ld_events (snd c)) \<and> ld_events (snd first) ! k \<noteq> ld_events (snd c) ! k
           \<and> fo_equivocation ?f = Some \<lparr>eq_at_seq = of_nat k, eq_branches =
               [\<lparr>eb_source = fst first, eb_event = event_at E k (snd first)\<rparr>, \<lparr>eb_source = fst c, eb_event = event_at E k (snd c)\<rparr>]\<rparr>"
      using c differ status(3) unfolding j(2,3,4) by blast
    with status(1,2) ex nil show ?thesis by simp
  qed simp
qed

text \<open>Copies that extend the first one in two ways are not told apart: they are compared with the first only.\<close>

definition sample_copy :: "bytes list \<Rightarrow> candidate" where
  "sample_copy events = (LocalCopy, loaded_new alice_id events)"

theorem disagreeing_copies_are_reported_witness:
  "fo_status (decide ref_env 0 alice_id [] [sample_copy [[1]], sample_copy [[1], [2]], sample_copy [[1], [3]]] None) = StatusOk
   \<and> fo_status (decide ref_env 0 alice_id [] [sample_copy [[1], [2]], sample_copy [[1], [3]]] None) = StatusEquivocation"
proof -
  have "\<exists>c\<in>set [sample_copy [[1]], sample_copy [[1], [2]], sample_copy [[1], [3]]].
      decide ref_env 0 alice_id [] [sample_copy [[1]], sample_copy [[1], [2]], sample_copy [[1], [3]]] None
      = outcome_verified 0 (summary_of (snd c)) (fst c) []"
    using disagreeing_copies_are_reported [of ref_env 0 alice_id "[]" "sample_copy [[1]]" "[sample_copy [[1], [2]], sample_copy [[1], [3]]]" None]
    by (auto simp: extends_copy_def sample_copy_def loaded_new_def)
  moreover have "fo_status (decide ref_env 0 alice_id [] [sample_copy [[1], [2]], sample_copy [[1], [3]]] None) = StatusEquivocation"
    using disagreeing_copies_are_reported [of ref_env 0 alice_id "[]" "sample_copy [[1], [2]]" "[sample_copy [[1], [3]]]" None]
    by (simp add: extends_copy_def sample_copy_def loaded_new_def)
  ultimately show ?thesis by (auto simp: outcome_verified_def)
qed

section \<open>Hostnames\<close>

text \<open>
  C29. A hostname is verified exactly when its zone says so: the claim passes the hostname rules of
  the core crate and its length limit, and the label of the hostname, or a name at the end of at
  most \<open>MAX_CNAME_LINKS\<close> aliases from it, each without a record of its own, has a record
  that names the identity. A loop of aliases, an unreachable resolver, records for others and a
  malformed claim never verify.
\<close>

theorem hostname_verified_by_its_zone:
  "vo_status (verify_hostname E R hostname i) = Verified \<longleftrightarrow>
     hostname \<noteq> [] \<and> length hostname \<le> MAX_HOSTNAME_BYTES \<and> check_hostname hostname = Ok ()
     \<and> (\<exists>n\<le>MAX_CNAME_LINKS. \<exists>name records r. alias_chain R n (query_name hostname) name
         \<and> rv_txt R name = Inr records \<and> r \<in> set records \<and> claimed_identity E r = Some i)"
  unfolding verify_hostname_iff claimed_hostname_core speaks_for_def by auto

section \<open>Peers\<close>

text \<open>
  C31. What a node remembers of who served a ledger stays small and useful: after any run of
  successes, failures and prunings, every ledger of the file has at least one and at most
  \<open>MAX_HINTS\<close> hints, names an endpoint once, and holds none at the failure limit; and an
  endpoint that has just served the ledger is among the hints that are tried next, as long
  as the clock has not run backwards, whatever had to make room for it.
\<close>

theorem peer_hints_stay_bounded:
  assumes "peers_reach p"
  shows "(\<forall>l hs. bt_get p l = Some hs \<longrightarrow> hs \<noteq> [] \<and> length hs \<le> MAX_HINTS \<and> distinct (map hi_endpoint hs)
        \<and> (\<forall>h\<in>set hs. hi_failures h < MAX_FAILURES))
    \<and> (\<forall>l e now. stamped_by now p l \<longrightarrow> e \<in> set (hints_at (record_success l e now p) l now))"
proof -
  have ok: "peers_ok p" by (rule peers_reach_ok [OF assms])
  then have "\<forall>l hs. bt_get p l = Some hs \<longrightarrow> hints_ok hs" by (simp add: peers_ok_def)
  then show ?thesis unfolding hints_ok_def using success_listed [OF ok] by blast
qed

theorem peer_hints_stay_bounded_witness:
  "bob \<in> set (hints_at (record_success alice_id bob 5 (record_success alice_id alice 4 [])) alice_id 5)"
proof -
  have reach: "peers_reach (record_success alice_id alice 4 [])" by (intro peers_reach.intros)
  have "stamped_by 5 (record_success alice_id alice 4 []) alice_id"
    by (simp add: stamped_by_def record_success_def hints_of_def bt_get_def hint_served_def evict.simps MAX_HINTS_def)
  with peer_hints_stay_bounded [OF reach] show ?thesis by blast
qed

section \<open>Bindings\<close>




end
