(* ===== verification/Spec2Isabelle.thy ===== *)
theory Spec2Isabelle
  imports Wire_Properties Ledger_Properties Storage_Properties Sync_Properties Graph_Properties
begin

text \<open>
  \<^bold>\<open>A verification library of the mabel ledger.\<close>

  mabel is a peer-to-peer identity ledger. An identity is a chain of signed events;
  every node that holds the bytes of a chain computes the same state from them with
  no lookup elsewhere. The program has these parts: the core crate
  (\<open>crates/mabel-core\<close>), which validates event bytes, folds them into a ledger state,
  builds and signs events, judges forks, and reads and writes the files and links
  that carry events between people; the wire and sync layer (\<open>crates/mabel-net\<close>); the
  node with its storage, wallet, trust graph, HTTP interface and hostname verification
  (\<open>crates/mabel-node\<close>); the command line (\<open>crates/mabel-cli\<close>); and two front
  ends. The core crate is the code every other part relies on: a remote peer's bytes
  reach state only through its validator and its fold. This development models the
  core crate, the sync layer with both of its ends, and of the node its storage, its trust
  graph, what it keeps of its peers and their endpoints, and its hostname check.

  \<^bold>\<open>How the parts interact.\<close> \<open>LedgerState::apply\<close> calls the validator on the
  received bytes, decodes them with prost, checks the chain, the position, the
  author's authority and signature, then the rules of the payload, and commits one
  effect. The validator walks descriptor tables, and calls itself on nested messages
  and on the inception a founder root or an invitation embeds. The builders produce
  bytes the validator accepts. The file formats wrap event bytes and call the
  validator and the fold. A node answers its peers from its storage: the sync server
  parses a request with the sync tables, asks the store, and fills a frame with what
  fits. The storage admits a push by its policy, folds it with the core crate, writes
  the event files and keeps an index over them, and records a fork where the pushed
  events differ from the stored ones. The client asks in pages, and judges every fork
  record it is given with the core crate. The trust graph reads the ledgers around a few
  roots: for each it plans sources under a dial budget that the whole run shares, reads
  every copy it can get, folds each with the core crate, decides between them, and follows
  the attestations of the copy it keeps; what it saw is a generation, which is written, made
  current and queried for paths.

  \<^bold>\<open>Theories and sources.\<close> Paths are under \<open>src/crates/mabel-core/src\<close>
  unless they name another crate.

  \<^item> \<open>Mabel_Prelude\<close>: result values (\<open>Ok\<close>, \<open>Err\<close>, and \<open>Panic\<close> for an \<open>expect\<close>
    that fails or an \<open>unreachable!\<close>), their bind, loops over lists that stop at the
    first error. \<open>BTree_Map\<close>: the ordered map of the standard library as a sorted
    association list, with the laws its clients use as the locale \<open>ordered_map\<close>.
    \<open>Text_Codec\<close>: UTF-8 and ASCII of the standard library.
  \<^item> \<open>Externals\<close>: the code the crate links against, as the fields of a record \<open>env\<close>
    that every definition takes: BLAKE3, ed25519, the prost decoder and encoder,
    base32. What the crate relies on of them is stated as \<open>crypto_ok\<close> (hash and
    signature lengths, a signature verifies under its own key) and the locales
    \<open>prost_codec\<close> (encoding is the canonical record layout, decoding inverts it) and
    \<open>base32_codec\<close>. \<open>Base32\<close> and \<open>Proto_Codec\<close> give executable codecs from RFC 4648
    and the proto3 wire format and interpret both locales on them, so the laws have a
    model. \<open>Reference_Env\<close> instantiates the whole record; the witnesses evaluate in it.
  \<^item> \<open>Ids_Digests\<close>: \<open>id.rs\<close>, \<open>digest.rs\<close> and the limits of \<open>lib.rs\<close>.
    \<open>Proto_Messages\<close>: the messages of \<open>proto/mabel/v0\<close> and their record layout.
  \<^item> \<open>Wire_Error\<close>, \<open>Wire\<close>, \<open>Text_Rules\<close>, \<open>Descriptors\<close>, \<open>Validate\<close>: \<open>validate.rs\<close>,
    in the order of the file: the rejection classes, the varint reader, the rules of
    published strings, the descriptor tables, the scanner, cardinalities, cross-field
    rules, the entry points.
  \<^item> \<open>Scan_Facts\<close>, \<open>Message_Shapes\<close>, \<open>Field_Blocks\<close>, \<open>Fuel_Facts\<close>: what the scanner
    accepts, per table and per field; that more fuel changes no answer.
    \<open>Valid_Events\<close>: the specification of a valid event, in terms of messages and with
    no scanner. \<open>Canonical\<close>, \<open>Canonical_Events\<close>, \<open>Accepts\<close>: the validator decides it.
    \<open>Validate_Total\<close>: the validator never panics and never runs out of fuel.
    \<open>Wire_Properties\<close>: C12, C14, C15 and C17.
  \<^item> \<open>Ledger_State\<close>, \<open>Ledger_Fold\<close>: \<open>fold.rs\<close>, the state as a record with the fields of
    \<open>LedgerState\<close>, one definition per query, rule and commit.
    \<open>Ledger_Spec\<close>: the abstract ledger, with maps for the ordered maps, and its step
    relation, one rule per payload. \<open>Ledger_Inv\<close>: the invariant of reachable ledgers,
    by rule induction. \<open>Ledger_Refine\<close>, \<open>Apply_Refine\<close>: the fold implements the step
    relation in both directions. \<open>Fold_Facts\<close>: chains of applied events.
    \<open>Ledger_Properties\<close>: C1 to C8, C10 and C11.
  \<^item> \<open>Sign\<close>, \<open>Sign_Facts\<close>: \<open>sign.rs\<close>, every builder, and that what it builds is applied.
  \<^item> \<open>Fork\<close>: \<open>fork.rs\<close>. \<open>Artifacts\<close>: \<open>artifacts.rs\<close>. \<open>Link\<close>: \<open>link.rs\<close>. Their
    properties and those that span builders, validator and fold are in this theory,
    C22, C25 to C27, C30 and C32.
  \<^item> \<open>Sync_Types\<close>, \<open>Sync_Tables\<close>, \<open>Sync_Wire\<close>: \<open>store.rs\<close> and \<open>error.rs\<close>, \<open>lib.rs\<close> and
    \<open>descriptors.rs\<close>, and \<open>wire.rs\<close> of \<open>crates/mabel-net\<close>. \<open>Sync_Encode\<close>, \<open>Sync_Entries\<close>,
    \<open>Sync_Frames\<close>, \<open>Sync_Responses\<close>: the parsers invert the encoders, for requests in both
    directions. \<open>Sync_Total\<close>: the parsers answer on all bytes.
  \<^item> \<open>Sync_Server\<close>: \<open>server.rs\<close> of \<open>crates/mabel-net\<close> over the record of methods
    \<open>sync_store\<close>, with the contract of the trait \<open>Store\<close> as the locale \<open>store_contract\<close>.
    \<open>Sync_Client\<close>: \<open>client.rs\<close>. \<open>Sync_Download\<close>: the client connected to the server, under
    that contract. \<open>Node_Store\<close>: \<open>store.rs\<close> of \<open>crates/mabel-node\<close>, and the interpretation
    \<open>node\<close> of the contract on the node's storage. \<open>Sync_Properties\<close>: C9, C21 and C23.
  \<^item> \<open>Stateful\<close>: operations that fail and change a state. \<open>Ledger_Store\<close>, \<open>Node_Home\<close>,
    \<open>Node_Storage\<close>: \<open>ledger.rs\<close>, \<open>home.rs\<close> and \<open>storage.rs\<close> of \<open>crates/mabel-node\<close>, on files
    that are entries of a record. \<open>Store_Facts\<close>: one ledger directory, also after an append
    that was cut off. \<open>Storage_Inv\<close>, \<open>Storage_Push\<close>, \<open>Storage_Reach\<close>: the invariant, that every
    operation keeps it, and the step relation of a storage. \<open>Storage_Accept\<close>: which pushes
    are stored. \<open>Storage_Sample\<close>: the storages the instances are stated at.
    \<open>Storage_Properties\<close>: C33 to C40.
  \<^item> \<open>Loaded_Ledger\<close>: \<open>wallet/ledger.rs\<close> of \<open>crates/mabel-node\<close>, the fold the node works with,
    its documents, and that it is the fold of the core crate. \<open>Peer_Hints\<close>: \<open>peers.rs\<close>, with the
    step relation of the file. \<open>Dns_Check\<close>: \<open>verification/verify.rs\<close>. \<open>Endpoint_Bindings\<close>:
    \<open>bindings.rs\<close>, and the evidence a binding rests on.
  \<^item> The files of \<open>graph/\<close>: \<open>Graph_Model\<close>: \<open>model.rs\<close>. \<open>Graph_Store\<close>: \<open>store.rs\<close>, the reader of
    a generation and the directory of generations. \<open>Dial_Budget\<close>: \<open>resolve.rs\<close>, with the parts
    of \<open>wallet/core.rs\<close> it calls. \<open>Graph_Fetch\<close>: \<open>fetcher.rs\<close>. \<open>Graph_Crawl\<close>: \<open>crawl.rs\<close>.
    \<open>Graph_Search\<close>: breadth-first search over an adjacency map, correct for every relation the map
    stands for (locale \<open>adjacency\<close>). \<open>Graph_Paths\<close>: both searches of a generation are instances
    (locale \<open>generation_graph\<close>), and its paths are the shortest. \<open>Graph_Generations\<close>: publishing
    and collecting. \<open>Fetch_Facts\<close>: a fetch keeps its budget, and the copy it summarises folds.
    \<open>Crawl_Facts\<close>: the walk, over any fetcher that answers what it was asked (locale
    \<open>ledger_fetcher\<close>). \<open>Crawl_Nodes\<close>: the generation it builds, an instance of
    \<open>generation_graph\<close>, and the node's fetcher, an instance of \<open>ledger_fetcher\<close>.
    \<open>Graph_Properties\<close>: C13, C16, C18 to C20, C24, C28, C29 and C31.

  \<^bold>\<open>Integers and bounds.\<close> Sequence numbers and timestamps are 64-bit words, lengths are
  naturals (the inputs are capped at a megabyte, far below the machine's size type). The
  sequence after a head is \<open>hd_seq h + 1\<close> at 64 bits; the statements that need it say
  that it does not wrap, and a fold of fewer than \<open>2 ^ 64\<close> events cannot reach the
  wrap. The varint reader is modelled at 64 bits with its shifts.

  \<^bold>\<open>Fuel.\<close> The validator recurses through nested messages. Rust ends the recursion with
  the nesting cap of 8, which a detached message inside a file restarts once. The model
  carries a fuel argument, 20; the answer \<open>Panic\<close> marks its end. C14 shows that the
  end is never reached from any descriptor of the schema and that any larger fuel gives
  the same answer. The client's \<open>get_all\<close> loops as long as its peer promises more, so
  \<open>get_loop\<close> is a partial function into \<open>option\<close>; C21 shows that it returns when the peer
  is a node with the default limits, before the limit on the requests of one connection.
  The server's loop recurses over the streams of the connection, the storage's loops over
  lists. The list of sources of a fetch grows while it is read, so \<open>fetch_loop\<close> has a fuel of
  17, the local copy and one turn for each of the 16 dials of the budget; C20 shows that it
  is enough. The search of \<open>Graph_Search\<close> terminates because every level sees new keys, the
  crawl because its levels are bounded by the depth cap.

  \<^bold>\<open>Time.\<close> The clock is an argument of what reads it. The response tables bound a
  timestamp by \<open>MAX_TIMESTAMP_MS\<close>, so C9 and C21 suppose a clock that is before it. Instants and
  durations of the graph's deadline are naturals, in milliseconds; depths are naturals, at
  most 4.

  \<^bold>\<open>What the groups of lemmas show.\<close> For the validator: acceptance is equivalent to a
  specification over messages, accepted bytes are canonical, every input gets an answer.
  For the fold: it refines an abstract step relation, keeps control, unambiguous
  records, proven keys and the chain order, resumes, reports the first rejection, and is
  fixed by the id of its head unless the hash collides. For the builders: what is built
  validates exactly when its payload is valid, and a sequence of built events has the
  effect it is built for. For forks, files and links: an accepted record is evidence, a
  file or text that was written reads back as itself. For the storage: the index, the
  files and the fold agree in every state it reaches, nothing that is stored changes, a
  continuation is stored and a divergence is recorded as evidence, a crash and a restart
  lose nothing that was stored. For the sync layer: every answer is a frame the client
  reads, a download is complete, and a hostile peer cannot make a client believe a fork.
  For the trust graph: depths and degrees are distances, listed paths are shortest chains,
  every edge is an attestation that stands in a chain that folds, dials stay in the budget,
  a generation reads back. For peers and hostnames: the hints stay bounded and keep a
  success, an endpoint is verified only by a chain that somebody else served, a hostname
  exactly when its zone names the identity.

  \<^bold>\<open>Not modelled.\<close> The human-readable text of errors, serde and \<open>Debug\<close> formatting, and
  the test modules. Below the storage: failures of the disk, file permissions, the JSON
  text of the metadata files. Below the sync layer: QUIC and iroh, so a connection is the
  list of its streams, a semaphore the number of its permits in use, and the grace period
  at the end of a connection is left out. Of the trust graph: the fetches of one batch run
  one after another in \<open>join_all\<close>, where the code interleaves them; C13 holds for any order of
  them. A peer serves a ledger whole or not at all (\<open>nw_serve\<close>), the resolver answers a
  lookup or not (\<open>nw_txt\<close>, \<open>resolver\<close>). Of the rest of \<open>crates/mabel-node\<close>: the wallet's
  commands and its HTTP service, contacts, the cache of hostname verdicts, the
  configuration and the runtime; \<open>crates/mabel-cli\<close>, \<open>app\<close> and \<open>ui\<close>: HTTP, argument parsing and
  screens around the modelled parts.
\<close>

section \<open>Signing and folding together\<close>

text \<open>
  A built inception starts its ledger: the event \<open>build_inception\<close> returns
  for a raw root folds, on its own, to the ledger whose id is the event's id, whose
  root records the signing key and the reserve commitment, and whose only principal
  is the ledger itself, a controller under that key.
\<close>

lemma built_inception_starts_ledger:
  assumes "prost_codec E" and "crypto_ok E"
    and "build_inception E sk kind (RootRaw reserve_key) nonce now = Ok be"
    and "kind \<noteq> KindUnspecified" and "length nonce = NONCE_BYTES"
    and "ed_public E sk \<noteq> reserve_commit E reserve_key"
  shows "fold_events E [be_signed_event be] =
    Ok (empty_state\<lparr>ls_declared_kind := Some kind,
      ls_root := Some (Raw (ed_public E sk) (reserve_commit E reserve_key)),
      ls_ledger := Some (be_event_id be),
      ls_principals := [(be_event_id be, \<lparr>pr_role = Controller, pr_active_key = ed_public E sk\<rparr>)],
      ls_head := Some \<lparr>hd_seq = 0, hd_event_id = be_event_id be, hd_timestamp_ms = now\<rparr>\<rparr>, None)"
  using raw_inception_starts [OF assms(1-3)] assms(4-6)
  by (simp add: fold_events_def good_raw_def)

lemma built_inception_starts_ledger_sample:
  "fold_events ref_env [be_signed_event bob_inception] =
    Ok (empty_state\<lparr>ls_declared_kind := Some Person,
      ls_root := Some (Raw (ref_public bob) (reserve_commit ref_env reserve)),
      ls_ledger := Some bob_id,
      ls_principals := [(bob_id, \<lparr>pr_role = Controller, pr_active_key = ref_public bob\<rparr>)],
      ls_head := Some \<lparr>hd_seq = 0, hd_event_id = bob_id, hd_timestamp_ms = 1000\<rparr>\<rparr>, None)"
  using built_inception_starts_ledger [OF ref_ok bob_built] good_samples(2) by (simp add: good_raw_def)

text \<open>
  A founded ledger starts under its founder: an inception that embeds the
  founder's own built inception folds to a ledger whose first controller is the
  founder, under the founder's key.
\<close>

lemma founded_ledger_starts:
  assumes "prost_codec E" and "crypto_ok E"
    and "build_inception E sk kind0 (RootRaw reserve_key) nonce0 now0 = Ok founder"
    and "good_raw E sk kind0 reserve_key nonce0"
    and "build_inception E sk kind (RootIdentity (be_event_id founder) (be_signed_event founder)) nonce now
      = Ok be"
    and "kind \<noteq> KindUnspecified" and "length nonce = NONCE_BYTES"
  shows "\<exists>s. fold_events E [be_signed_event be] = Ok (s, None) \<and> ls_ledger s = Some (be_event_id be)
    \<and> ls_root s = Some (Identity (be_event_id founder) (ed_public E sk))
    \<and> signing_principal_for s (ed_public E sk)
        = Some \<lparr>sp_identity = be_event_id founder, sp_key = ed_public E sk\<rparr>"
  using identity_inception_starts [OF assms(1-5)] assms(6,7)
  by (simp add: fold_events_def signing_principal_for_def bt_find_def)

definition club_inception :: built_event where
  "club_inception = ok_val (build_inception ref_env alice Organization
     (RootIdentity alice_id (be_signed_event alice_inception)) nonce 1000)"

lemma club_built:
  "build_inception ref_env alice Organization (RootIdentity alice_id (be_signed_event alice_inception))
     nonce 1000 = Ok club_inception"
  unfolding club_inception_def by (rule is_ok_val) code_simp

lemma founded_ledger_starts_sample:
  "\<exists>s. fold_events ref_env [be_signed_event club_inception] = Ok (s, None)
    \<and> ls_root s = Some (Identity alice_id (ref_public alice))"
  using founded_ledger_starts [OF ref_ok alice_built good_samples(1) club_built]
  by (auto simp: nonce_def NONCE_BYTES_def)

text \<open>
  C22. The builders and the validator agree: an event built for a position is
  accepted by the validator exactly when its payload is valid, is not an inception,
  and is not about the ledger that carries it. A builder never hides an invalid
  payload and never spoils a valid one.
\<close>

theorem built_events_validate:
  assumes "prost_codec E" and "crypto_ok E" and "build_append E sk at now p = Ok be"
    and "length (ps_ledger at) = 32" and "length (ps_prev at) = 32" and "payload_wf is_utf8 (Some p)"
  shows "signed_event E (be_signed_event be) = Ok () \<longleftrightarrow> appendable E (ps_ledger at) p"
  by (rule built_event_valid_iff [OF assms])

theorem built_events_validate_witness:
  "signed_event ref_env (be_signed_event alice_trusts_bob) = Ok ()
    \<longleftrightarrow> appendable ref_env alice_id (PTrustAttestation bob_id)"
  using built_events_validate [OF ref_ok alice_trusts_bob_built [unfolded build_trust_attestation_def]]
    sample_ids by (simp add: alice_head_def)

text \<open>
  A witness set is replaced as a whole: the event built for a list of witness
  identities is applied, and the witnesses of the ledger are then exactly that
  list, at the next position, under the id the builder returned.
\<close>

lemma witness_set_is_replaced:
  assumes "prost_codec E" and "crypto_ok E" and "may_append E s sk l h"
    and "build_witness_set E sk (position_at_head l h) ws now = Ok be"
    and "list_all (\<lambda>w. length w = 32) ws"
  shows "\<exists>s'. apply_event E s (be_signed_event be) = Ok s' \<and> witness_identities s' = ws
    \<and> ls_head s' = Some \<lparr>hd_seq = hd_seq h + 1, hd_event_id = be_event_id be,
        hd_timestamp_ms = max now (hd_timestamp_ms h)\<rparr>"
  by (rule witness_set_applies [OF assms])

lemma alice_witnesses_built:
  "\<exists>be. build_witness_set ref_env alice (position_at_head alice_id alice_head) [bob_id] 1001 = Ok be"
proof -
  have "is_ok (build_witness_set ref_env alice alice_at [bob_id] 1001)" by code_simp
  then show ?thesis unfolding alice_at_def by (blast dest: is_ok_val)
qed

lemma witness_set_is_replaced_sample:
  "\<exists>be s'. build_witness_set ref_env alice (position_at_head alice_id alice_head) [bob_id] 1001 = Ok be
    \<and> apply_event ref_env alice_state (be_signed_event be) = Ok s' \<and> witness_identities s' = [bob_id]"
proof -
  obtain be where be: "build_witness_set ref_env alice (position_at_head alice_id alice_head) [bob_id] 1001 = Ok be"
    using alice_witnesses_built by blast
  from witness_set_is_replaced [OF ref_ok alice_may_append be] sample_ids be show ?thesis by auto
qed

text \<open>
  The profile gate is the validator's: \<open>check_profile\<close> accepts three optional
  strings exactly when the profile they make is valid, and a profile that passes it
  is applied, with an absent field cleared.
\<close>

lemma profile_gate:
  assumes "prost_codec E" and "crypto_ok E" and "may_append E s sk l h"
    and "build_profile_update E sk (position_at_head l h) d hn e now = Ok be"
  shows "(check_profile E d hn e = Ok () \<longleftrightarrow> valid_profile E (profile_update d hn e))
    \<and> (check_profile E d hn e = Ok () \<longrightarrow>
        (\<exists>s' p. apply_event E s (be_signed_event be) = Ok s' \<and> ls_profile s' = Some p
           \<and> pf_display_name p = set_name (unwrap_or_default d)
           \<and> pf_hostname p = set_name (unwrap_or_default hn)
           \<and> pf_email p = set_name (unwrap_or_default e) \<and> pf_event p = be_event_id be))"
  using check_profile_iff [OF assms(1)] profile_applies [OF assms(1-4)] by blast

lemma alice_profile_built:
  "\<exists>be. build_profile_update ref_env alice (position_at_head alice_id alice_head) None
     (Some (lit ''a.example'')) None 1001 = Ok be"
proof -
  have "is_ok (build_profile_update ref_env alice alice_at None (Some (lit ''a.example'')) None 1001)"
    by code_simp
  then show ?thesis unfolding alice_at_def by (blast dest: is_ok_val)
qed

lemma profile_gate_sample:
  "\<exists>(be :: built_event) s' p. apply_event ref_env alice_state (be_signed_event be) = Ok s' \<and> ls_profile s' = Some p
     \<and> pf_hostname p = Some (lit ''a.example'') \<and> pf_email p = None"
proof -
  obtain be where be: "build_profile_update ref_env alice (position_at_head alice_id alice_head) None
     (Some (lit ''a.example'')) None 1001 = Ok be" using alice_profile_built by blast
  have "valid_profile ref_env (profile_update None (Some (lit ''a.example'')) None)" by code_simp
  with profile_gate [OF ref_ok alice_may_append be] obtain s' p where
    p: "apply_event ref_env alice_state (be_signed_event be) = Ok s'" "ls_profile s' = Some p"
    and n: "pf_hostname p = set_name (unwrap_or_default (Some (lit ''a.example'')))"
    and e: "pf_email p = set_name (unwrap_or_default None)" by blast
  have "set_name (unwrap_or_default (Some (lit ''a.example''))) = Some (lit ''a.example'')" by code_simp
  with n have "pf_hostname p = Some (lit ''a.example'')" by (rule trans)
  moreover have "set_name (unwrap_or_default None) = None" by code_simp
  with e have "pf_email p = None" by (rule trans)
  ultimately show ?thesis using p by (intro exI [of _ be] exI [of _ s'] exI [of _ p] conjI)
qed

text \<open>
  C25. Trust can be given and taken back: on a folded ledger, an attestation of a
  subject that is not trusted yet is applied and makes it trusted, and a revocation
  that names the attestation, built at the new head, is applied and ends it.
\<close>

theorem trust_given_and_revoked:
  assumes "prost_codec E" and "crypto_ok E" and "fold_events E evs = Ok (s, None)"
    and "may_append E s sk l h"
    and "build_trust_attestation E sk (position_at_head l h) t now = Ok be"
    and "length t = 32" and "t \<noteq> l" and "\<not> trusts s t"
  shows "\<exists>s1 h1. apply_event E s (be_signed_event be) = Ok s1 \<and> ls_head s1 = Some h1 \<and> trusts s1 t
    \<and> (\<forall>now' be'. build_trust_revocation E sk (position_at_head l h1) (be_event_id be) now' = Ok be' \<longrightarrow>
         (\<exists>s2. apply_event E s1 (be_signed_event be') = Ok s2 \<and> \<not> trusts s2 t))"
proof -
  let ?h1 = "\<lparr>hd_seq = hd_seq h + 1, hd_event_id = be_event_id be, hd_timestamp_ms = max now (hd_timestamp_ms h)\<rparr>"
  from attestation_applies [OF assms(1,2,4-8)] obtain s1 where
    s1: "apply_event E s (be_signed_event be) = Ok s1" and wf: "state_wf s1"
    and same: "ls_ledger s1 = ls_ledger s" "ls_principals s1 = ls_principals s"
    and st: "standing (abs_state s1) (be_event_id be) t" and h1: "ls_head s1 = Some ?h1" by blast
  have "length (be_event_id be) = 32"
    using built_id_length [OF assms(1,2)] assms(5) by (simp add: build_trust_attestation_def)
  then have may: "may_append E s1 sk l ?h1" by (intro may_append_next [OF assms(4) wf same h1]) simp
  have "fold_events E (evs @ [be_signed_event be]) = Ok (s1, None)"
    using assms(3) s1 by (simp add: fold_events_def fold_from_append)
  then have one: "one_standing (abs_state s1)"
    by (rule folded_run [OF assms(1,2)]) (simp add: ledger_inv_def)
  have tr: "trusts s1 t" using st trusts_iff [OF wf] by blast
  then obtain e a where u: "unrevoked s1 t = Some (e, a)" by (auto simp: trusts_def)
  have "standing (abs_state s1) e t"
    using u wf by (auto simp: unrevoked_def standing_def state_wf_def is_revoked_def dest!: bt.search_Some)
  with one st have "e = be_event_id be" by (auto simp: one_standing_def)
  with u \<open>length (be_event_id be) = 32\<close> revocation_applies [OF assms(1,2) may _ _ _ one]
  show ?thesis using s1 h1 tr by blast
qed

theorem trust_given_and_revoked_witness:
  "\<exists>s1 h1. apply_event ref_env alice_state (be_signed_event alice_trusts_bob) = Ok s1
    \<and> ls_head s1 = Some h1 \<and> trusts s1 bob_id"
proof -
  have "\<not> trusts alice_state bob_id"
    by (simp add: trusts_def unrevoked_def alice_state_def empty_state_def bt_find_def)
  with trust_given_and_revoked [OF ref_ok alice_fold alice_may_append alice_trusts_bob_built
      sample_ids(3) sample_ids(1) [symmetric]]
  show ?thesis by blast
qed

text \<open>
  C26. An invitation ends in membership: a controller invites an identity by its
  own built inception, the invitee signs an acceptance of the invitation event, and
  the controller's event that embeds it makes the invitee a principal with the role
  offered and the key its inception recorded. Every event on the way is applied.
\<close>

theorem invitation_ends_in_membership:
  assumes "prost_codec E" and "crypto_ok E" and "may_append E s sk l h"
    and "build_inception E isk kind (RootRaw rk) nonce t0 = Ok inc" and "good_raw E isk kind rk nonce"
    and "build_membership_invitation E sk (position_at_head l h) (be_event_id inc) (ed_public E isk) role
      (be_signed_event inc) now = Ok ivt"
    and "role \<noteq> RoleUnspecified" and "be_event_id inc \<noteq> l"
    and "open_invitation_of s (be_event_id inc) = None" and "bt_get (ls_principals s) (be_event_id inc) = None"
    and "\<And>j p. bt_get (ls_principals s) j = Some p \<Longrightarrow> pr_active_key p \<noteq> ed_public E isk"
  shows "\<exists>s1 h1. apply_event E s (be_signed_event ivt) = Ok s1 \<and> ls_head s1 = Some h1
    \<and> (\<forall>now' adm. build_membership_acceptance E sk (position_at_head l h1)
           (build_acceptance E isk l (be_event_id ivt) (be_event_id inc)) now' = Ok adm \<longrightarrow>
         (\<exists>s2. apply_event E s1 (be_signed_event adm) = Ok s2
            \<and> bt_get (ls_principals s2) (be_event_id inc)
                = Some \<lparr>pr_role = role, pr_active_key = ed_public E isk\<rparr>
            \<and> map_option iv_status (bt_get (ls_invitations s2) (be_event_id ivt)) = Some Accepted))"
proof -
  let ?h1 = "\<lparr>hd_seq = hd_seq h + 1, hd_event_id = be_event_id ivt, hd_timestamp_ms = max now (hd_timestamp_ms h)\<rparr>"
  have len: "length (be_event_id inc) = 32"
    using build_raw_Ok(1) [OF assms(4)] seal_Ok [OF assms(1)] length_event_id [OF assms(2)] by auto
  have len': "length (be_event_id ivt) = 32"
    using assms(6) built_id_length [OF assms(1,2)] by (auto simp: build_membership_invitation_def)
  from invitation_applies [OF assms(1-3,6) built_raw_embedded [OF assms(1,2,4,5)] len
      crypto_okD(2) [OF assms(2)] assms(8,7,9,10)] obtain s1 where
    s1: "apply_event E s (be_signed_event ivt) = Ok s1" and wf: "state_wf s1"
    and same: "ls_ledger s1 = ls_ledger s" "ls_principals s1 = ls_principals s"
    and iv: "bt_get (ls_invitations s1) (be_event_id ivt) = Some \<lparr>iv_invitee = be_event_id inc,
        iv_invitee_key = ed_public E isk, iv_role = role, iv_status = Open\<rparr>"
    and h1: "ls_head s1 = Some ?h1" by blast
  have may: "may_append E s1 sk l ?h1" by (rule may_append_next [OF assms(3) wf same h1]) (simp add: len')
  have "\<exists>s2. apply_event E s1 (be_signed_event adm) = Ok s2
      \<and> bt_get (ls_principals s2) (be_event_id inc) = Some \<lparr>pr_role = role, pr_active_key = ed_public E isk\<rparr>
      \<and> map_option iv_status (bt_get (ls_invitations s2) (be_event_id ivt)) = Some Accepted"
    if "build_membership_acceptance E sk (position_at_head l ?h1)
           (build_acceptance E isk l (be_event_id ivt) (be_event_id inc)) now' = Ok adm" for now' adm
    using admission_applies [OF assms(1,2) may iv len' len _ _ that] assms(10,11) same by auto
  with s1 h1 show ?thesis by blast
qed

theorem invitation_ends_in_membership_witness:
  "\<exists>s1 h1. apply_event ref_env alice_state (be_signed_event alice_invites_bob) = Ok s1
    \<and> ls_head s1 = Some h1"
proof -
  have keys: "pr_active_key p \<noteq> ed_public ref_env bob" if "bt_get (ls_principals alice_state) j = Some p" for j p
  proof -
    have "ref_public alice \<noteq> ref_public bob" by code_simp
    with that show ?thesis by (auto simp: alice_state_def bt_get_def split: if_splits)
  qed
  have "bob_id \<noteq> alice_id" using sample_ids by simp
  note invited = invitation_ends_in_membership [OF ref_ok alice_may_append bob_built good_samples(2)
      alice_invites_bob_built [folded ref_sel(1)] _ this alice_no_invitation]
  have "Controller \<noteq> RoleUnspecified" by simp
  with invited keys show ?thesis by blast
qed

section \<open>Forks\<close>

text \<open>
  C27. A fork record is evidence of equivocation: an accepted record holds two
  valid events with different bodies, both at the position after the prefix, both
  for its ledger, and each signed by a key that controls the ledger there.
\<close>

theorem fork_record_is_evidence:
  assumes "prost_codec E" and "state_wf prefix" and "ls_head prefix = Some h" and "hd_seq h + 1 \<noteq> 0"
    and "validate_fork_record E prefix kept conflicting = Ok f"
  shows "\<exists>m b m' b'. valid_event E kept m b \<and> valid_event E conflicting m' b'
    \<and> equivocates E prefix m b \<and> equivocates E prefix m' b' \<and> se_body m \<noteq> se_body m'
    \<and> fk_kept f = event_id E (se_body m) \<and> fk_conflicting f = event_id E (se_body m')
    \<and> fk_ledger f = eb_ledger b \<and> fk_seq f = eb_seq b"
  by (rule fork_sound [OF assms])

theorem fork_record_is_evidence_witness:
  "\<exists>(f :: fork) m b m' b'. valid_event ref_env (be_signed_event alice_trusts_bob) m b
    \<and> valid_event ref_env (be_signed_event alice_invites_bob) m' b'
    \<and> equivocates ref_env alice_state m b \<and> equivocates ref_env alice_state m' b'
    \<and> se_body m \<noteq> se_body m' \<and> fk_kept f = event_id ref_env (se_body m)"
proof -
  have wf: "state_wf alice_state" and h: "ls_head alice_state = Some alice_head"
    and n: "hd_seq alice_head + 1 \<noteq> 0"
    using alice_may_append by (simp_all add: may_append_def alice_head_def)
  obtain f where "validate_fork_record ref_env alice_state (be_signed_event alice_trusts_bob)
     (be_signed_event alice_invites_bob) = Ok f" using sample_fork by blast
  from fork_record_is_evidence [OF ref_prost wf h n this] show ?thesis by fast
qed

section \<open>Files\<close>

text \<open>
  Invitation bundles round-trip: a bundle that was built is written and read
  back as itself, and a bundle that was read writes exactly the bytes it was read
  from, so the event bytes pass through the file untouched.
\<close>

lemma bundle_files_round_trip:
  assumes "prost_codec E"
  shows "(bundle_new E events = Ok b \<longrightarrow> (\<exists>bs. bundle_write E b = Ok bs \<and> bundle_read E bs = Ok b))
    \<and> (bundle_read E bytes = Ok b' \<longrightarrow> bundle_write E b' = Ok bytes \<and> bundle_new E (ib_events b') = Ok b')"
  using bundle_round_trip [OF assms] by blast

lemma sample_events_valid:
  "signed_event ref_env (be_signed_event alice_inception) = Ok ()"
  "signed_event ref_env (be_signed_event alice_invites_bob) = Ok ()"
  using alice_starts invited_state apply_event_Ok_valid signed_event_iff by blast+

lemma sample_bundle:
  "bundle_new ref_env [be_signed_event alice_inception, be_signed_event alice_invites_bob]
   = Ok \<lparr>ib_events = [be_signed_event alice_inception, be_signed_event alice_invites_bob]\<rparr>"
proof -
  have "length (enc_records (f_repeated 1 [be_signed_event alice_inception, be_signed_event alice_invites_bob]))
      \<le> 1000" by code_simp
  then have "length (enc_records (f_repeated 1 [be_signed_event alice_inception, be_signed_event alice_invites_bob]))
      \<le> MAX_INVITATION_BUNDLE_BYTES" by (rule order.trans) (simp add: MAX_INVITATION_BUNDLE_BYTES_def)
  then show ?thesis
    using sample_events_valid by (simp add: bundle_new_Ok [OF ref_prost] MAX_BUNDLE_EVENTS_def)
qed

lemma bundle_files_round_trip_sample:
  "\<exists>bs. bundle_read ref_env bs
     = Ok \<lparr>ib_events = [be_signed_event alice_inception, be_signed_event alice_invites_bob]\<rparr>"
  using bundle_files_round_trip [OF ref_prost] sample_bundle by blast

text \<open>
  Acceptance files round-trip: a file that was read writes the bytes it was
  read from and its detached acceptance makes the same file again; and the file of
  an acceptance that was built names the ledger, the invitation, the invitee and the
  key that signed it.
\<close>

lemma acceptance_files_round_trip:
  assumes "prost_codec E" and "crypto_ok E" and "length l = 32" and "length e = 32" and "length i = 32"
  shows "(acceptance_file_read E bytes = Ok f \<longrightarrow> acceptance_file_write E f = bytes
       \<and> acceptance_file_new E (acceptance_file_detached f) = Ok f)
    \<and> acceptance_file_new E (build_acceptance E sk l e i) =
        Ok \<lparr>af_acceptance = da_acceptance (build_acceptance E sk l e i),
            af_signature = da_signature (build_acceptance E sk l e i), af_ledger = l,
            af_invitation_event = e, af_invitee = i, af_invitee_key = ed_public E sk\<rparr>"
  using acceptance_file_round_trip [OF assms(1)] acceptance_file_of_built [OF assms] by blast

lemma acceptance_files_round_trip_sample:
  "\<exists>f. acceptance_file_new ref_env (build_acceptance ref_env bob alice_id bob_id bob_id) = Ok f
    \<and> af_invitee f = bob_id \<and> af_invitee_key f = ref_public bob"
  using acceptance_files_round_trip [OF ref_ok sample_ids(2,3,3), of _ _ bob] by auto

text \<open>
  C30. An identity descriptor reads back exactly when its witnesses are distinct:
  \<open>IdentityDescriptor::new\<close> takes a list with a repeated witness and writes a file
  that no reader accepts.
\<close>

theorem descriptor_reads_back_iff_distinct:
  assumes "prost_codec E" and "descriptor_new E inception ws = Ok d"
    and "list_all (\<lambda>w. length w = 32 \<and> key_is_point E w) ws"
  shows "\<exists>bs. descriptor_write E d = Ok bs \<and> (descriptor_read E bs = Ok d \<longleftrightarrow> distinct ws)
    \<and> ((\<exists>d'. descriptor_read E bs = Ok d') \<longleftrightarrow> distinct ws)"
  using descriptor_round_trip [OF assms] descriptor_repeat_unreadable [OF assms(1,2)]
  by (metis outcome.inject(1))

lemma sample_descriptor:
  "\<exists>d. descriptor_new ref_env (be_signed_event alice_inception) [ref_public bob, ref_public bob] = Ok d"
proof -
  have "length (enc_records (descriptor_records (be_signed_event alice_inception) [ref_public bob, ref_public bob]))
      \<le> 1000" by code_simp
  then have "length (enc_records (descriptor_records (be_signed_event alice_inception) [ref_public bob, ref_public bob]))
      \<le> MAX_IDENTITY_DESCRIPTOR_BYTES" by (rule order.trans) (simp add: MAX_IDENTITY_DESCRIPTOR_BYTES_def)
  then have "descriptor_new ref_env (be_signed_event alice_inception) [ref_public bob, ref_public bob]
      = Ok \<lparr>idd_inception = be_signed_event alice_inception, idd_witnesses = [ref_public bob, ref_public bob],
          idd_identity = alice_id, idd_declared_kind = Person,
          idd_root = Raw (ref_public alice) (reserve_commit ref_env reserve)\<rparr>"
    using alice_starts
    by (simp add: descriptor_new_Ok from_parts_Ok [OF ref_prost] MAX_WITNESSES_def alice_state_def)
  then show ?thesis by blast
qed

theorem descriptor_reads_back_iff_distinct_witness:
  "\<exists>d bs. descriptor_new ref_env (be_signed_event alice_inception) [ref_public bob, ref_public bob] = Ok d
    \<and> descriptor_write ref_env d = Ok bs \<and> (\<nexists>d'. descriptor_read ref_env bs = Ok d')"
proof -
  obtain d where d: "descriptor_new ref_env (be_signed_event alice_inception) [ref_public bob, ref_public bob] = Ok d"
    using sample_descriptor by blast
  from descriptor_reads_back_iff_distinct [OF ref_prost d] d show ?thesis by (auto simp: ref_point_def)
qed

text \<open>
  A summary tells the truth: what the accept surface shows of a bundle is
  the folded ledger, the controllers it lists are exactly the principals that may
  sign there, and the invited key is proven for the invited identity, which is not
  the ledger itself.
\<close>

lemma summary_tells_the_truth:
  assumes "prost_codec E" and "crypto_ok E" and "bundle_summary E b = Ok x"
  shows "\<exists>s. fold_events E (ib_events b) = Ok (s, None) \<and> ls_ledger s = Some (is_ledger x)
    \<and> ls_root s = Some (is_root x)
    \<and> (\<forall>sp. sp \<in> set (is_controllers x) \<longleftrightarrow> signs_as (abs_state s) sp (sp_key sp))
    \<and> is_controllers x \<noteq> [] \<and> proven E (is_invitee x) (is_invitee_key x) \<and> is_invitee x \<noteq> is_ledger x"
  by (rule bundle_summary_sound [OF assms])

lemma summary_tells_the_truth_sample:
  "\<exists>x. bundle_summary ref_env
       \<lparr>ib_events = [be_signed_event alice_inception, be_signed_event alice_invites_bob]\<rparr> = Ok x
     \<and> proven ref_env (is_invitee x) (is_invitee_key x)"
proof -
  let ?b = "\<lparr>ib_events = [be_signed_event alice_inception, be_signed_event alice_invites_bob]\<rparr>"
  obtain s where s: "apply_event ref_env alice_state (be_signed_event alice_invites_bob) = Ok s"
    and l: "ls_ledger s = ls_ledger alice_state" "ls_root s = ls_root alice_state"
      "ls_declared_kind s = ls_declared_kind alice_state"
    and iv: "bt_get (ls_invitations s) (be_event_id alice_invites_bob) = Some \<lparr>iv_invitee = bob_id,
       iv_invitee_key = ref_public bob, iv_role = Controller, iv_status = Open\<rparr>"
    and h: "ls_head s = Some \<lparr>hd_seq = 1, hd_event_id = be_event_id alice_invites_bob, hd_timestamp_ms = 1001\<rparr>"
    using invited_state by blast
  have f: "fold_events ref_env (ib_events ?b) = Ok (s, None)"
    using s alice_starts by (simp add: fold_events_def)
  from f h iv l obtain x where x: "bundle_summary ref_env ?b = Ok x"
    by (auto simp: bundle_summary_def alice_state_def)
  from summary_tells_the_truth [OF ref_ok x] x show ?thesis by blast
qed

section \<open>Links\<close>

text \<open>
  C32. A link prints and parses: the parser reads a printed link back exactly when
  the link names a 32-byte identity and at most four distinct endpoints that are
  curve points, and every link the parser returns from any input is such a link.
\<close>

theorem link_text_round_trip:
  assumes "base32_codec E"
  shows "(link_parse E (link_display E l) = Ok l \<longleftrightarrow> link_wf E l)
    \<and> (link_parse E input = Ok l' \<longrightarrow> link_parse E (link_display E l') = Ok l'
         \<and> link_new (ml_identity l') (ml_endpoints l') = Ok l')"
  using base32_codec.link_round_trip [OF assms] link_parse_sound
  by (auto simp: link_new_Ok link_wf_def)

theorem link_text_round_trip_witness:
  "link_parse ref_env (link_display ref_env \<lparr>ml_identity = alice_id, ml_endpoints = [ref_public bob]\<rparr>)
   = Ok \<lparr>ml_identity = alice_id, ml_endpoints = [ref_public bob]\<rparr>"
  using link_text_round_trip [OF ref_base32, of "\<lparr>ml_identity = alice_id, ml_endpoints = [ref_public bob]\<rparr>"]
    sample_ids by (simp add: link_wf_def MAX_LINK_ENDPOINTS_def ref_point_def)

end
